(* ===== verification/Prelude.thy ===== *)
theory Prelude
  imports Complex_Main "HOL-Library.AList"
begin

text \<open>
  Shared vocabulary of the development: JavaScript maps (insertion ordered), JavaScript values,
  list splicing and searching, decimal rendering and generated identifiers, and the interfaces
  (locales) that several components implement.

  A JavaScript \<open>Map\<close> iterates in insertion order, and \<open>set\<close> on a present key keeps the key's
  place. This is what \<open>AList.update\<close> and \<open>AList.delete\<close> do on association lists, so a map is
  an association list and well-formedness says that its keys are distinct. Assigning to a field
  of an object that is stored in a map is \<open>jmodify\<close>.
\<close>

named_theorems jsmap_simps \<open>lookup laws of JavaScript maps\<close>
named_theorems wf_intros \<open>operations keep the well-formedness of a component\<close>

subsection \<open>JavaScript maps\<close>

type_synonym ('k, 'v) jsmap = "('k \<times> 'v) list"

abbreviation jget :: "('k, 'v) jsmap \<Rightarrow> 'k \<Rightarrow> 'v option" where
  "jget \<equiv> map_of"

abbreviation jset :: "('k, 'v) jsmap \<Rightarrow> 'k \<Rightarrow> 'v \<Rightarrow> ('k, 'v) jsmap" where
  "jset m k v \<equiv> AList.update k v m"

abbreviation jdel :: "('k, 'v) jsmap \<Rightarrow> 'k \<Rightarrow> ('k, 'v) jsmap" where
  "jdel m k \<equiv> AList.delete k m"

abbreviation jkeys :: "('k, 'v) jsmap \<Rightarrow> 'k list" where
  "jkeys m \<equiv> map fst m"

abbreviation jvals :: "('k, 'v) jsmap \<Rightarrow> 'v list" where
  "jvals m \<equiv> map snd m"

abbreviation jhas :: "('k, 'v) jsmap \<Rightarrow> 'k \<Rightarrow> bool" where
  "jhas m k \<equiv> map_of m k \<noteq> None"

definition jmodify :: "('k, 'v) jsmap \<Rightarrow> 'k \<Rightarrow> ('v \<Rightarrow> 'v) \<Rightarrow> ('k, 'v) jsmap" where
  "jmodify m k f = (case jget m k of None \<Rightarrow> m | Some v \<Rightarrow> jset m k (f v))"

definition jwf :: "('k, 'v) jsmap \<Rightarrow> bool" where
  "jwf m \<longleftrightarrow> distinct (jkeys m)"

text \<open>\<open>for (const [k, v] of map)\<close> with an assignment to the stored object: every value is
  replaced by \<open>f k v\<close>, the keys and their order stay.\<close>

definition jmap :: "('k \<Rightarrow> 'v \<Rightarrow> 'w) \<Rightarrow> ('k, 'v) jsmap \<Rightarrow> ('k, 'w) jsmap" where
  "jmap f m = map (\<lambda>(k, v). (k, f k v)) m"

text \<open>\<open>for (const [k, v] of map) if (p k v) map.delete(k)\<close>: deleting during iteration is well
  defined for a JavaScript map and visits every entry once.\<close>

definition jdrop :: "('k \<Rightarrow> 'v \<Rightarrow> bool) \<Rightarrow> ('k, 'v) jsmap \<Rightarrow> ('k, 'v) jsmap" where
  "jdrop p m = filter (\<lambda>(k, v). \<not> p k v) m"

lemma jget_jset [simp, jsmap_simps]:
  "jget (jset m k v) j = (if j = k then Some v else jget m j)"
  by (simp add: update_conv')

lemma jget_jdel [simp, jsmap_simps]:
  "jget (jdel m k) j = (if j = k then None else jget m j)"
  by (simp add: delete_conv')

lemma jget_jmodify [simp, jsmap_simps]:
  "jget (jmodify m k f) j = (if j = k then map_option f (jget m k) else jget m j)"
  by (auto simp: jmodify_def split: option.splits)

lemma jget_jmap [simp, jsmap_simps]: "jget (jmap f m) k = map_option (f k) (jget m k)"
  by (induction m) (auto simp: jmap_def)

lemma jkeys_jmap [simp]: "jkeys (jmap f m) = jkeys m"
  by (auto simp: jmap_def)

lemma jhas_keys: "jhas m k \<longleftrightarrow> k \<in> set (jkeys m)"
  by (simp add: map_of_eq_None_iff)

lemma jkeys_jset: "jkeys (jset m k v) = (if k \<in> set (jkeys m) then jkeys m else jkeys m @ [k])"
  by (simp add: update_keys)

lemma jkeys_jmodify [simp]: "jkeys (jmodify m k f) = jkeys m"
proof (cases "jget m k")
  case (Some v)
  then have "jhas m k" by simp
  then have "k \<in> set (jkeys m)" by (simp only: jhas_keys)
  with Some show ?thesis by (simp add: jmodify_def jkeys_jset)
qed (simp add: jmodify_def)

lemma jwf_Nil [simp, intro]: "jwf []"
  by (simp add: jwf_def)

lemma jwf_jset [simp, wf_intros]: "jwf m \<Longrightarrow> jwf (jset m k v)"
  by (simp add: jwf_def distinct_update)

lemma jwf_jdel [simp, wf_intros]: "jwf m \<Longrightarrow> jwf (jdel m k)"
  by (simp add: jwf_def distinct_delete)

lemma jwf_jmodify [simp]: "jwf (jmodify m k f) \<longleftrightarrow> jwf m"
  by (simp add: jwf_def)

lemma jwf_jmap [simp]: "jwf (jmap f m) \<longleftrightarrow> jwf m"
  by (simp add: jwf_def)

lemma jwf_jdrop [simp, wf_intros]: "jwf m \<Longrightarrow> jwf (jdrop p m)"
  by (auto simp: jwf_def jdrop_def distinct_map intro: inj_on_subset)

lemma jget_mem: "jwf m \<Longrightarrow> (k, v) \<in> set m \<longleftrightarrow> jget m k = Some v"
  by (simp add: jwf_def)

lemma jvals_mem: "jwf m \<Longrightarrow> v \<in> set (jvals m) \<longleftrightarrow> (\<exists>k. jget m k = Some v)"
  by (auto simp flip: jget_mem intro: rev_image_eqI)

lemma jget_jdrop:
  "jwf m \<Longrightarrow>
   jget (jdrop p m) k = (case jget m k of None \<Rightarrow> None | Some v \<Rightarrow> if p k v then None else Some v)"
proof (induction m)
  case Nil
  then show ?case by (simp add: jdrop_def)
next
  case (Cons kv m)
  obtain j v where kv: "kv = (j, v)" by force
  from Cons.prems kv have "jget m j = None" and "jwf m"
    by (auto simp: jwf_def map_of_eq_None_iff)
  with Cons.IH kv show ?case by (auto simp: jdrop_def)
qed

lemma jget_append_None: "jget m k = None \<Longrightarrow> jget (m @ m') k = jget m' k"
  by (simp add: map_add_def)

lemma jset_fresh: "\<not> jhas m k \<Longrightarrow> jset m k v = m @ [(k, v)]"
  by (induction m) (auto split: if_splits)

lemma jset_same: "jget m k = Some v \<Longrightarrow> jset m k v = m"
  by (induction m) (auto split: if_splits)

lemma jset_jset [simp]: "jset (jset m k u) k v = jset m k v"
  by (induction m) auto

text \<open>Writing the values of a map under their keys into an empty map rebuilds the map.\<close>

lemma rebuild_append:
  "distinct (jkeys acc @ jkeys m) \<Longrightarrow> (\<And>k v. (k, v) \<in> set m \<Longrightarrow> key v = k) \<Longrightarrow>
   fold (\<lambda>v m'. jset m' (key v) (f v)) (jvals m) acc = acc @ map (\<lambda>(k, v). (k, f v)) m"
proof (induction m arbitrary: acc)
  case (Cons kv m)
  obtain k v where kv: "kv = (k, v)" by force
  from Cons.prems(1) kv have "\<not> jhas acc k" by (auto simp: map_of_eq_None_iff)
  moreover have key: "key v = k" using Cons.prems(2) kv by simp
  ultimately have "jset acc (key v) (f v) = acc @ [(k, f v)]" by (simp add: jset_fresh)
  then show ?case
    using Cons.IH [of "acc @ [(k, f v)]"] Cons.prems kv by simp
qed simp

lemma rebuild:
  "jwf m \<Longrightarrow> (\<And>k v. jget m k = Some v \<Longrightarrow> key v = k) \<Longrightarrow>
   fold (\<lambda>v m'. jset m' (key v) (f v)) (jvals m) [] = jmap (\<lambda>_. f) m"
  using rebuild_append [where acc = "[]" and m = m and key = key and f = f]
  by (simp add: jget_mem [symmetric] jmap_def) (simp add: jwf_def)

lemma length_jset: "length (jset m k v) = (if jhas m k then length m else Suc (length m))"
  by (induction m) auto

text \<open>Replacing the value of a key by one that a filter rejects removes the key from the filtered
  values.\<close>

lemma filter_jvals_jset:
  "jwf m \<Longrightarrow> jhas m k \<Longrightarrow> \<not> p v \<Longrightarrow>
   filter p (jvals (jset m k v)) = map snd (filter (\<lambda>(j, u). j \<noteq> k \<and> p u) m)"
proof (induction m)
  case (Cons ju m)
  obtain j u where ju: "ju = (j, u)" by force
  show ?case
  proof (cases "j = k")
    case True
    with Cons.prems ju have "\<forall>x\<in>set m. fst x \<noteq> k" by (force simp: jwf_def)
    then have "filter (\<lambda>(j, u). j \<noteq> k \<and> p u) m = filter (\<lambda>ju. p (snd ju)) m"
      by (intro filter_cong) auto
    with True ju Cons.prems show ?thesis by (simp add: filter_map o_def)
  next
    case False
    with Cons ju show ?thesis by (simp add: jwf_def)
  qed
qed simp

subsection \<open>Arrays: search and splice\<close>

text \<open>\<open>Array.prototype.findIndex\<close>, with \<open>None\<close> for the code's -1.\<close>

fun find_index :: "('a \<Rightarrow> bool) \<Rightarrow> 'a list \<Rightarrow> nat option" where
  "find_index p [] = None"
| "find_index p (x # xs) = (if p x then Some 0 else map_option Suc (find_index p xs))"

text \<open>\<open>xs.splice(i, 0, x)\<close> and \<open>xs.splice(i, 1)\<close> for \<open>i\<close> within the array.\<close>

definition insert_at :: "nat \<Rightarrow> 'a \<Rightarrow> 'a list \<Rightarrow> 'a list" where
  "insert_at i x xs = take i xs @ x # drop i xs"

definition remove_at :: "nat \<Rightarrow> 'a list \<Rightarrow> 'a list" where
  "remove_at i xs = take i xs @ drop (Suc i) xs"

text \<open>The idiom \<open>i = findIndex(p); if (i >= 0) splice(i, 0, x) else push(x)\<close>.\<close>

definition insert_before :: "('a \<Rightarrow> bool) \<Rightarrow> 'a \<Rightarrow> 'a list \<Rightarrow> 'a list" where
  "insert_before p x xs =
     (case find_index p xs of Some i \<Rightarrow> insert_at i x xs | None \<Rightarrow> xs @ [x])"

text \<open>The idiom \<open>i = indexOf(x); if (i >= 0) splice(i, 1)\<close>.\<close>

definition remove_first :: "'a \<Rightarrow> 'a list \<Rightarrow> 'a list" where
  "remove_first x xs =
     (case find_index (\<lambda>y. y = x) xs of Some i \<Rightarrow> remove_at i xs | None \<Rightarrow> xs)"

lemma find_index_None: "find_index p xs = None \<longleftrightarrow> (\<forall>x\<in>set xs. \<not> p x)"
  by (induction xs) auto

lemma insert_before_split:
  "insert_before p x xs = takeWhile (\<lambda>y. \<not> p y) xs @ x # dropWhile (\<lambda>y. \<not> p y) xs"
  by (induction xs) (auto simp: insert_before_def insert_at_def split: option.splits)

lemma set_insert_before [simp]: "set (insert_before p x xs) = insert x (set xs)"
proof -
  have "set (takeWhile (\<lambda>y. \<not> p y) xs) \<union> set (dropWhile (\<lambda>y. \<not> p y) xs) = set xs"
    by (metis set_append takeWhile_dropWhile_id)
  then show ?thesis by (auto simp: insert_before_split)
qed

lemma distinct_insert_before [simp]:
  "distinct (insert_before p x xs) \<longleftrightarrow> x \<notin> set xs \<and> distinct xs"
proof -
  have "distinct (takeWhile (\<lambda>y. \<not> p y) xs @ dropWhile (\<lambda>y. \<not> p y) xs) = distinct xs"
    by simp
  moreover have "set (takeWhile (\<lambda>y. \<not> p y) xs) \<union> set (dropWhile (\<lambda>y. \<not> p y) xs) = set xs"
    by (metis set_append takeWhile_dropWhile_id)
  ultimately show ?thesis by (auto simp: insert_before_split simp del: takeWhile_dropWhile_id)
qed

text \<open>Inserting before the first element of a higher rank keeps a list ordered by rank, and puts the
  new element behind those of its own rank.\<close>

lemma insert_before_filter:
  fixes f :: "'a \<Rightarrow> 'b :: linorder"
  assumes "sorted (map f xs)" and "\<forall>x\<in>set xs. p x \<longleftrightarrow> f y < f x"
  shows "insert_before p y xs = filter (\<lambda>x. f x \<le> f y) xs @ y # filter (\<lambda>x. f y < f x) xs"
  using assms
proof (induction xs)
  case Nil
  then show ?case by (simp add: insert_before_split)
next
  case (Cons x xs)
  show ?case
  proof (cases "f y < f x")
    case True
    with Cons.prems(1) have "\<forall>z\<in>set xs. f y < f z" by (auto dest: less_le_trans)
    with True Cons.prems(2) show ?thesis
      by (auto simp: insert_before_split filter_id_conv not_le)
  next
    case False
    with Cons show ?thesis by (auto simp: insert_before_split)
  qed
qed

lemma sorted_insert_before:
  fixes f :: "'a \<Rightarrow> 'b :: linorder"
  assumes "sorted (map f xs)" and "\<forall>x\<in>set xs. p x \<longleftrightarrow> f y < f x"
  shows "sorted (map f (insert_before p y xs))"
  using assms(1)
  by (auto simp: insert_before_filter [OF assms] sorted_append sorted_filter)

lemma remove_first_remove1: "remove_first x xs = remove1 x xs"
  by (induction xs) (auto simp: remove_first_def remove_at_def split: option.splits)

subsection \<open>Text: white space, fields, substrings\<close>

definition js_space :: "char \<Rightarrow> bool" where
  "js_space c \<longleftrightarrow> of_char c \<in> {9, 10, 11, 12, 13, 32, 160 :: nat}"

text \<open>\<open>s.split(/\s+/)\<close>: leading white space gives an empty first field.\<close>

function split_ws :: "string \<Rightarrow> string list" where
  "split_ws s =
     takeWhile (\<lambda>c. \<not> js_space c) s #
     (case dropWhile (\<lambda>c. \<not> js_space c) s of
        [] \<Rightarrow> []
      | c # rest \<Rightarrow> split_ws (dropWhile js_space rest))"
  by pat_completeness auto
termination
proof (relation "measure length")
  fix s c rest
  assume "dropWhile (\<lambda>c. \<not> js_space c) s = c # rest"
  then have "length rest < length s"
    using length_dropWhile_le [of "\<lambda>c. \<not> js_space c" s] by simp
  then show "(dropWhile js_space rest, s) \<in> measure length"
    using length_dropWhile_le [of js_space rest] by simp
qed simp

declare split_ws.simps [simp del]

definition js_trim :: "string \<Rightarrow> string" where
  "js_trim s = rev (dropWhile js_space (rev (dropWhile js_space s)))"

text \<open>A regular expression \<open>/w1|w2|.../i\<close> of plain words is found in a text when one of the words is a
  substring of the text in lower case.\<close>

definition ascii_lower :: "char \<Rightarrow> char" where
  "ascii_lower c = (let n = (of_char c :: nat) in if 65 \<le> n \<and> n \<le> 90 then char_of (n + 32) else c)"

fun has_sub :: "string \<Rightarrow> string \<Rightarrow> bool" where
  "has_sub w [] \<longleftrightarrow> w = []"
| "has_sub w (c # s) \<longleftrightarrow> take (length w) (c # s) = w \<or> has_sub w s"

definition mentions :: "string list \<Rightarrow> string \<Rightarrow> bool" where
  "mentions ws s \<longleftrightarrow> list_ex (\<lambda>w. has_sub w (map ascii_lower s)) ws"

lemma has_sub_iff: "has_sub w s \<longleftrightarrow> (\<exists>a b. s = a @ w @ b)"
proof (induction s)
  case (Cons c s)
  have "take (length w) (c # s) = w \<longleftrightarrow> (\<exists>b. c # s = w @ b)"
    by (metis append_eq_conv_conj)
  with Cons show ?case by (auto simp: Cons_eq_append_conv)
qed auto

subsection \<open>Reductions\<close>

text \<open>\<open>xs.reduce((best, x) => f(x) > f(best) ? x : best)\<close> of \<open>x # xs\<close>: the first element with the
  greatest value.\<close>

definition reduce_max :: "('a \<Rightarrow> 'b :: linorder) \<Rightarrow> 'a \<Rightarrow> 'a list \<Rightarrow> 'a" where
  "reduce_max f x xs = fold (\<lambda>y best. if f best < f y then y else best) xs x"

lemma reduce_max_simps [simp]:
  "reduce_max f x [] = x"
  "reduce_max f x (y # xs) = reduce_max f (if f x < f y then y else x) xs"
  by (simp_all add: reduce_max_def)

lemma reduce_max_first:
  assumes "m = reduce_max f x xs"
  shows "\<exists>a b. x # xs = a @ m # b \<and> (\<forall>y\<in>set a. f y < f m) \<and> (\<forall>y\<in>set b. f y \<le> f m)"
  using assms
proof (induction xs arbitrary: x)
  case (Cons y xs)
  show ?case
  proof (cases "f x < f y")
    case True
    with Cons.prems have "m = reduce_max f y xs" by simp
    from Cons.IH [OF this] obtain a b where ab: "y # xs = a @ m # b"
      "\<forall>z\<in>set a. f z < f m" "\<forall>z\<in>set b. f z \<le> f m" by blast
    then have "f y \<le> f m" by (cases a) (auto intro: order.strict_implies_order)
    with True ab show ?thesis
      by (intro exI [of _ "x # a"] exI [of _ b]) auto
  next
    case False
    with Cons.prems have "m = reduce_max f x xs" by simp
    from Cons.IH [OF this] obtain a b where ab: "x # xs = a @ m # b"
      "\<forall>z\<in>set a. f z < f m" "\<forall>z\<in>set b. f z \<le> f m" by blast
    show ?thesis
    proof (cases a)
      case Nil
      with ab False show ?thesis by (intro exI [of _ "[]"] exI [of _ "y # xs"]) auto
    next
      case (Cons z a')
      with ab False show ?thesis
        by (intro exI [of _ "x # y # a'"] exI [of _ b]) auto
    qed
  qed
qed (rule exI [of _ "[]"], simp)

subsection \<open>Identifiers generated from the clock and the random source\<close>

definition digit_char :: "nat \<Rightarrow> char" where
  "digit_char d = char_of (48 + d)"

fun dec_nat :: "nat \<Rightarrow> string" where
  "dec_nat n = (if n < 10 then [digit_char n] else dec_nat (n div 10) @ [digit_char (n mod 10)])"

declare dec_nat.simps [simp del]

definition dec_int :: "int \<Rightarrow> string" where
  "dec_int i = (if i < 0 then ''-'' @ dec_nat (nat (- i)) else dec_nat (nat i))"

text \<open>\<open>`prefix-${Date.now()}-${rnd}`\<close>, with the random part as an argument.\<close>

definition gen_id :: "string \<Rightarrow> int \<Rightarrow> string \<Rightarrow> string" where
  "gen_id prefix now rnd = prefix @ ''-'' @ dec_int now @ ''-'' @ rnd"

lemma gen_id_nonempty [simp]: "gen_id prefix now rnd \<noteq> []"
  by (simp add: gen_id_def)

subsection \<open>JavaScript values\<close>

text \<open>Values of the code's type \<open>unknown\<close>. Numbers are exact rationals.\<close>

datatype jsval =
    JUndef
  | JNull
  | JBool bool
  | JNum rat
  | JStr string
  | JArr "jsval list"
  | JObj "(string \<times> jsval) list"

type_synonym js_record = "(string, jsval) jsmap"

fun js_truthy :: "jsval \<Rightarrow> bool" where
  "js_truthy JUndef = False"
| "js_truthy JNull = False"
| "js_truthy (JBool b) = b"
| "js_truthy (JNum n) = (n \<noteq> 0)"
| "js_truthy (JStr s) = (s \<noteq> [])"
| "js_truthy (JArr xs) = True"
| "js_truthy (JObj m) = True"

text \<open>\<open>{...a, ...b}\<close>: the entries of \<open>b\<close> win, keys keep the place of their first occurrence.\<close>

definition js_spread :: "('k, 'v) jsmap \<Rightarrow> ('k, 'v) jsmap \<Rightarrow> ('k, 'v) jsmap" where
  "js_spread a b = fold (\<lambda>(k, v) m. jset m k v) b a"

lemma jwf_js_spread [simp]: "jwf a \<Longrightarrow> jwf (js_spread a b)"
  by (induction b arbitrary: a) (auto simp: js_spread_def)

lemma jget_js_spread:
  "jwf b \<Longrightarrow> jget (js_spread a b) k = (case jget b k of None \<Rightarrow> jget a k | Some v \<Rightarrow> Some v)"
proof (induction b arbitrary: a)
  case Nil
  then show ?case by (simp add: js_spread_def)
next
  case (Cons kv b)
  obtain j v where kv: "kv = (j, v)" by force
  from Cons.prems kv have j: "jget b j = None" and wf: "jwf b"
    by (auto simp: jwf_def map_of_eq_None_iff)
  have "js_spread a (kv # b) = js_spread (jset a j v) b"
    by (simp add: js_spread_def kv)
  with Cons.IH [OF wf] j kv show ?case by (auto split: option.splits)
qed

lemma map_le_SomeD: "m \<subseteq>\<^sub>m n \<Longrightarrow> m k = Some v \<Longrightarrow> n k = Some v"
  by (metis domI map_le_def)

lemma find_SomeD: "find P xs = Some x \<Longrightarrow> x \<in> set xs \<and> P x"
  by (induction xs) (auto split: if_splits)

text \<open>A loop keeps what its body keeps.\<close>

lemma fold_keeps: "(\<And>x s. P s \<Longrightarrow> P (f x s)) \<Longrightarrow> P s \<Longrightarrow> P (fold f xs s)"
  by (induction xs arbitrary: s) auto

subsection \<open>Calls that may throw\<close>

text \<open>A call returns the new state and either the error it threw or its value; the state changes made
  before the throw remain. \<open>and_then\<close> goes on with the rest of the method when the call returned.\<close>

definition and_then :: "'s \<times> ('e + 'a) \<Rightarrow> ('a \<Rightarrow> 's \<Rightarrow> 's \<times> ('e + 'b)) \<Rightarrow> 's \<times> ('e + 'b)" where
  "and_then r f = (case r of (s, Inl e) \<Rightarrow> (s, Inl e) | (s, Inr x) \<Rightarrow> f x s)"

lemma and_then_simps [simp]:
  "and_then (s, Inl e) f = (s, Inl e)"
  "and_then (s, Inr x) f = f x s"
  by (simp_all add: and_then_def)

text \<open>What the first call and the rest keep is kept by their composition, whether or not one throws.\<close>

lemma and_then_keeps:
  assumes "P (fst r)" and "\<And>x s. r = (s, Inr x) \<Longrightarrow> P s \<Longrightarrow> P (fst (f x s))"
  shows "P (fst (and_then r f))"
proof (cases r)
  case (Pair s v)
  with assms show ?thesis by (cases v) auto
qed

subsection \<open>Interfaces\<close>

text \<open>A history of calls is legal when every call meets its caller's obligation \<open>ok\<close> in the state it
  runs in. A component whose operations keep an invariant under that obligation keeps it over every
  legal history.\<close>

fun legal_run :: "('s \<Rightarrow> 'op \<Rightarrow> bool) \<Rightarrow> ('op \<Rightarrow> 's \<Rightarrow> 's) \<Rightarrow> 's \<Rightarrow> 'op list \<Rightarrow> bool" where
  "legal_run ok f s [] = True"
| "legal_run ok f s (x # xs) = (ok s x \<and> legal_run ok f (f x s) xs)"

lemma legal_run_True [simp]: "legal_run (\<lambda>_ _. True) f s xs"
  by (induction xs arbitrary: s) auto

locale guarded_machine =
  fixes ok :: "'s \<Rightarrow> 'op \<Rightarrow> bool"
    and apply_op :: "'op \<Rightarrow> 's \<Rightarrow> 's"
    and inv :: "'s \<Rightarrow> bool"
  assumes inv_guarded_step: "ok s x \<Longrightarrow> inv s \<Longrightarrow> inv (apply_op x s)"
begin

lemma inv_legal_run: "legal_run ok apply_op s xs \<Longrightarrow> inv s \<Longrightarrow> inv (fold apply_op xs s)"
  by (induction xs arbitrary: s) (auto intro: inv_guarded_step)

end

locale op_machine =
  fixes apply_op :: "'op \<Rightarrow> 's \<Rightarrow> 's"
    and inv :: "'s \<Rightarrow> bool"
  assumes inv_step: "inv s \<Longrightarrow> inv (apply_op x s)"

sublocale op_machine \<subseteq> guarded_machine "\<lambda>_ _. True" apply_op inv
  by unfold_locales (rule inv_step)

context op_machine
begin

lemma inv_run: "inv s \<Longrightarrow> inv (fold apply_op xs s)"
  by (rule inv_legal_run) simp_all

end

text \<open>A store of entities under keys: what the client relies on when it looks an entity up after
  an insertion or a removal, on states the provider keeps well formed.\<close>

locale entity_store =
  fixes lookup :: "'s \<Rightarrow> 'k \<Rightarrow> 'v option"
    and put :: "'k \<Rightarrow> 'v \<Rightarrow> 's \<Rightarrow> 's"
    and del :: "'k \<Rightarrow> 's \<Rightarrow> 's"
    and entries :: "'s \<Rightarrow> 'v list"
    and inv :: "'s \<Rightarrow> bool"
    and key :: "'v \<Rightarrow> 'k"
  assumes lookup_put: "lookup (put k v s) j = (if j = k then Some v else lookup s j)"
    and lookup_del: "lookup (del k s) j = (if j = k then None else lookup s j)"
    and entries_lookup: "inv s \<Longrightarrow> v \<in> set (entries s) \<longleftrightarrow> lookup s (key v) = Some v"
    and inv_put: "inv s \<Longrightarrow> key v = k \<Longrightarrow> inv (put k v s)"
    and inv_del: "inv s \<Longrightarrow> inv (del k s)"
begin

lemma lookup_put_same [simp]: "lookup (put k v s) k = Some v"
  by (simp add: lookup_put)

lemma lookup_put_other: "j \<noteq> k \<Longrightarrow> lookup (put k v s) j = lookup s j"
  by (simp add: lookup_put)

lemma entries_put:
  "inv s \<Longrightarrow> key v = k \<Longrightarrow>
   w \<in> set (entries (put k v s)) \<longleftrightarrow> w = v \<or> (key w \<noteq> k \<and> w \<in> set (entries s))"
  by (auto simp: entries_lookup inv_put lookup_put)

lemma entries_del:
  "inv s \<Longrightarrow> w \<in> set (entries (del k s)) \<longleftrightarrow> key w \<noteq> k \<and> w \<in> set (entries s)"
  by (auto simp: entries_lookup inv_del lookup_del)

end

text \<open>Reads and writes of the keys of one namespace of a store. The last write to a key is what is
  read; a batch of writes acts like a map update.\<close>

locale namespace_store =
  fixes rd :: "'s \<Rightarrow> 'k \<Rightarrow> 'v"
    and wr :: "'k \<Rightarrow> 'v \<Rightarrow> 's \<Rightarrow> 's"
    and inv :: "'s \<Rightarrow> bool"
  assumes rd_wr: "inv s \<Longrightarrow> rd (wr k v s) j = (if j = k then v else rd s j)"
    and inv_wr: "inv s \<Longrightarrow> inv (wr k v s)"
begin

lemma inv_writes: "inv s \<Longrightarrow> inv (fold (\<lambda>(k, v). wr k v) kvs s)"
  by (induction kvs arbitrary: s) (auto intro: inv_wr)

lemma read_writes:
  "inv s \<Longrightarrow> jwf kvs \<Longrightarrow>
   rd (fold (\<lambda>(k, v). wr k v) kvs s) j = (case jget kvs j of Some v \<Rightarrow> v | None \<Rightarrow> rd s j)"
proof (induction kvs arbitrary: s)
  case (Cons kv kvs)
  obtain k v where kv: "kv = (k, v)" by force
  from Cons.prems(2) kv have "jget kvs k = None" "jwf kvs"
    by (auto simp: jwf_def map_of_eq_None_iff)
  with Cons.IH [OF inv_wr [OF Cons.prems(1)], of k v] Cons.prems(1) kv show ?case
    by (auto simp: rd_wr split: option.splits)
qed simp

end

end
