(* ===== verification/OrchTypes.thy ===== *)
theory OrchTypes
  imports Prelude
begin

text \<open>
  The data model of the orchestrator (\<open>src/src/orchestrator/types.ts\<close>). Timestamps and durations
  are milliseconds as integers. An optional field is an \<open>option\<close>; \<open>Record<string, unknown>\<close> is
  a map from strings to JavaScript values. Task priorities are ordered by urgency, the most urgent
  first, so that \<open>sorted\<close> describes the order in which the code serves them.
\<close>

datatype AgentRole = Role_coordinator | Role_worker | Role_teammate | Role_leader

datatype CollaborationMode = Mode_coordinator_worker | Mode_teammate | Mode_swarm

datatype AgentStatus = A_idle | A_busy | A_waiting | A_error | A_offline

datatype TaskStatus = T_pending | T_running | T_completed | T_failed | T_cancelled | T_partial

datatype TaskPriority = P_low | P_normal | P_high | P_urgent

record AgentInfo =
  a_id :: string
  a_role :: AgentRole
  a_status :: AgentStatus
  a_capabilities :: "string list"
  a_maxConcurrentTasks :: int
  a_currentTasks :: int
  a_createdAt :: int
  a_lastHeartbeat :: int
  a_metadata :: "js_record option"

record TaskDefinition =
  td_id :: string
  td_prompt :: string
  td_agentRole :: "AgentRole option"
  td_agentId :: "string option"
  td_priority :: TaskPriority
  td_timeout :: "int option"
  td_maxRetries :: "int option"
  td_dependencies :: "string list option"
  td_metadata :: "js_record option"

record TokenUsage =
  tu_input :: int
  tu_output :: int
  tu_total :: int

record TaskResult =
  r_taskId :: string
  r_agentId :: string
  r_status :: TaskStatus
  r_output :: jsval
  r_error :: "string option"
  r_duration :: int
  r_tokenUsage :: "TokenUsage option"

record Task =
  t_definition :: TaskDefinition
  t_status :: TaskStatus
  t_assignedAgent :: "string option"
  t_result :: "TaskResult option"
  t_createdAt :: int
  t_startedAt :: "int option"
  t_completedAt :: "int option"
  t_retryCount :: int

record TeamInfo =
  tm_id :: string
  tm_name :: string
  tm_mode :: CollaborationMode
  tm_leaderId :: "string option"
  tm_members :: "string list"
  tm_createdAt :: int
  tm_metadata :: "js_record option"

record OrchestratorConfig =
  oc_mode :: CollaborationMode
  oc_maxAgents :: int
  oc_taskTimeout :: int
  oc_heartbeatInterval :: int
  oc_retryDelay :: int
  oc_maxRetries :: int

record TaskAssignment =
  ta_taskId :: string
  ta_agentId :: string
  ta_assignedAt :: int
  ta_reason :: string

record TaskCompletion =
  tc_taskId :: string
  tc_agentId :: string
  tc_result :: TaskResult
  tc_completedAt :: int

record Heartbeat =
  hb_agentId :: string
  hb_timestamp :: int
  hb_status :: AgentStatus
  hb_currentTasks :: int
  hb_metrics :: "js_record option"

subsection \<open>Urgency\<close>

fun urgency_rank :: "TaskPriority \<Rightarrow> nat" where
  "urgency_rank P_urgent = 0"
| "urgency_rank P_high = 1"
| "urgency_rank P_normal = 2"
| "urgency_rank P_low = 3"

lemma urgency_rank_inj: "urgency_rank p = urgency_rank q \<Longrightarrow> p = q"
  by (cases p; cases q) auto

instantiation TaskPriority :: linorder
begin

definition less_eq_TaskPriority :: "TaskPriority \<Rightarrow> TaskPriority \<Rightarrow> bool" where
  "less_eq_TaskPriority p q \<longleftrightarrow> urgency_rank p \<le> urgency_rank q"

definition less_TaskPriority :: "TaskPriority \<Rightarrow> TaskPriority \<Rightarrow> bool" where
  "less_TaskPriority p q \<longleftrightarrow> urgency_rank p < urgency_rank q"

instance
  by standard (auto simp: less_eq_TaskPriority_def less_TaskPriority_def intro: urgency_rank_inj)

end

lemmas urgency_simps = less_eq_TaskPriority_def less_TaskPriority_def

end
