(* ===== verification/TaskQueue.thy ===== *)
theory TaskQueue
  imports OrchTypes
begin

text \<open>
  The priority queue of tasks (\<open>src/src/orchestrator/task-queue.ts\<close>, class \<open>TaskQueue\<close>): the map
  \<open>tasks\<close> from ids to task records and the array \<open>queue\<close> of ids. Assigning to the status of a task
  that was read from the map changes the record in the map.
\<close>

record task_queue =
  tq_tasks :: "(string, Task) jsmap"
  tq_queue :: "string list"

definition new_task_queue :: task_queue where
  "new_task_queue = \<lparr>tq_tasks = [], tq_queue = []\<rparr>"

text \<open>\<open>this.tasks.get(id)?.definition.priority\<close>.\<close>

definition priority_of :: "(string, Task) jsmap \<Rightarrow> string \<Rightarrow> TaskPriority option" where
  "priority_of ts k = map_option (\<lambda>t. td_priority (t_definition t)) (jget ts k)"

definition enqueue :: "int \<Rightarrow> TaskDefinition \<Rightarrow> task_queue \<Rightarrow> task_queue \<times> string" where
  "enqueue now taskDef s =
     (let task = \<lparr>t_definition = taskDef, t_status = T_pending, t_assignedAgent = None,
                  t_result = None, t_createdAt = now, t_startedAt = None, t_completedAt = None,
                  t_retryCount = 0\<rparr>;
          ts = jset (tq_tasks s) (td_id taskDef) task;
          q = tq_queue s;
          q' = (case td_priority taskDef of
                  P_urgent \<Rightarrow> td_id taskDef # q
                | P_high \<Rightarrow> insert_before
                    (\<lambda>k. priority_of ts k = Some P_normal \<or> priority_of ts k = Some P_low)
                    (td_id taskDef) q
                | P_normal \<Rightarrow> insert_before (\<lambda>k. priority_of ts k = Some P_low) (td_id taskDef) q
                | P_low \<Rightarrow> q @ [td_id taskDef])
      in (\<lparr>tq_tasks = ts, tq_queue = q'\<rparr>, td_id taskDef))"

definition getDependencies :: "(string, Task) jsmap \<Rightarrow> string \<Rightarrow> string list" where
  "getDependencies ts taskId =
     (case jget ts taskId of
        None \<Rightarrow> []
      | Some t \<Rightarrow> (case td_dependencies (t_definition t) of Some ds \<Rightarrow> ds | None \<Rightarrow> []))"

fun all_completed :: "(string, Task) jsmap \<Rightarrow> string list \<Rightarrow> bool" where
  "all_completed ts [] = True"
| "all_completed ts (d # ds) =
     (case jget ts d of
        None \<Rightarrow> False
      | Some depTask \<Rightarrow> if t_status depTask \<noteq> T_completed then False else all_completed ts ds)"

definition areDependenciesMet :: "(string, Task) jsmap \<Rightarrow> string \<Rightarrow> bool" where
  "areDependenciesMet ts taskId = all_completed ts (getDependencies ts taskId)"

definition canRun :: "(string, Task) jsmap \<Rightarrow> Task \<Rightarrow> bool" where
  "canRun ts task = areDependenciesMet ts (td_id (t_definition task))"

text \<open>The loop of \<open>dequeue\<close>: ids are shifted off the front until one names a pending task that can
  run; that task becomes running.\<close>

fun dequeue_loop ::
    "int \<Rightarrow> (string, Task) jsmap \<Rightarrow> string list \<Rightarrow> (string, Task) jsmap \<times> string list \<times> Task option" where
  "dequeue_loop now ts [] = (ts, [], None)"
| "dequeue_loop now ts (taskId # q) =
     (case jget ts taskId of
        Some task \<Rightarrow>
          if t_status task = T_pending \<and> canRun ts task
          then (let task' = task\<lparr>t_status := T_running, t_startedAt := Some now\<rparr>
                in (jset ts taskId task', q, Some task'))
          else dequeue_loop now ts q
      | None \<Rightarrow> dequeue_loop now ts q)"

definition dequeue :: "int \<Rightarrow> task_queue \<Rightarrow> task_queue \<times> Task option" where
  "dequeue now s =
     (case dequeue_loop now (tq_tasks s) (tq_queue s) of
        (ts, q, r) \<Rightarrow> (\<lparr>tq_tasks = ts, tq_queue = q\<rparr>, r))"

definition peek :: "task_queue \<Rightarrow> Task option" where
  "peek s = (case tq_queue s of [] \<Rightarrow> None | taskId # _ \<Rightarrow> jget (tq_tasks s) taskId)"

definition queue_size :: "task_queue \<Rightarrow> nat" where
  "queue_size s = length (tq_queue s)"

definition remove_task :: "string \<Rightarrow> task_queue \<Rightarrow> task_queue" where
  "remove_task taskId s =
     \<lparr>tq_tasks = jdel (tq_tasks s) taskId, tq_queue = remove_first taskId (tq_queue s)\<rparr>"

definition update_task :: "Task \<Rightarrow> task_queue \<Rightarrow> task_queue" where
  "update_task task s = s\<lparr>tq_tasks := jset (tq_tasks s) (td_id (t_definition task)) task\<rparr>"

definition get_task :: "task_queue \<Rightarrow> string \<Rightarrow> Task option" where
  "get_task s taskId = jget (tq_tasks s) taskId"

definition list_tasks :: "TaskStatus option \<Rightarrow> task_queue \<Rightarrow> Task list" where
  "list_tasks status s =
     (case status of None \<Rightarrow> jvals (tq_tasks s)
                   | Some st \<Rightarrow> filter (\<lambda>t. t_status t = st) (jvals (tq_tasks s)))"

definition getPendingTasks :: "task_queue \<Rightarrow> Task list" where
  "getPendingTasks s = filter (\<lambda>t. t_status t = T_pending) (jvals (tq_tasks s))"

definition getRunningTasks :: "task_queue \<Rightarrow> Task list" where
  "getRunningTasks s = filter (\<lambda>t. t_status t = T_running) (jvals (tq_tasks s))"

subsection \<open>Well-formedness and the priority order\<close>

text \<open>Every task is stored under its own id; the queue names stored tasks, each once, the more
  urgent ones first.\<close>

definition tq_keyed :: "task_queue \<Rightarrow> bool" where
  "tq_keyed s \<longleftrightarrow> jwf (tq_tasks s) \<and>
     (\<forall>k t. jget (tq_tasks s) k = Some t \<longrightarrow> td_id (t_definition t) = k)"

definition queue_priorities :: "task_queue \<Rightarrow> TaskPriority list" where
  "queue_priorities s = map (\<lambda>k. the (priority_of (tq_tasks s) k)) (tq_queue s)"

definition tq_wf :: "task_queue \<Rightarrow> bool" where
  "tq_wf s \<longleftrightarrow> tq_keyed s \<and> distinct (tq_queue s) \<and>
     (\<forall>k\<in>set (tq_queue s). jhas (tq_tasks s) k) \<and> sorted (queue_priorities s)"

text \<open>An id that can be served: a stored pending task whose dependencies are all completed.\<close>

definition runnable :: "task_queue \<Rightarrow> string \<Rightarrow> bool" where
  "runnable s k =
     (case get_task s k of None \<Rightarrow> False | Some t \<Rightarrow> t_status t = T_pending \<and> canRun (tq_tasks s) t)"

datatype tq_op =
    TQ_enqueue int TaskDefinition
  | TQ_dequeue int
  | TQ_remove string
  | TQ_update Task

fun tq_apply :: "tq_op \<Rightarrow> task_queue \<Rightarrow> task_queue" where
  "tq_apply (TQ_enqueue now d) s = fst (enqueue now d s)"
| "tq_apply (TQ_dequeue now) s = fst (dequeue now s)"
| "tq_apply (TQ_remove k) s = remove_task k s"
| "tq_apply (TQ_update t) s = update_task t s"

text \<open>The caller's obligations: a new task has an id that is not in use, and an update does not
  change the definition of a stored task.\<close>

fun tq_ok :: "task_queue \<Rightarrow> tq_op \<Rightarrow> bool" where
  "tq_ok s (TQ_enqueue now d) = (get_task s (td_id d) = None)"
| "tq_ok s (TQ_update t) =
     (case get_task s (td_id (t_definition t)) of
        None \<Rightarrow> True | Some t0 \<Rightarrow> t_definition t0 = t_definition t)"
| "tq_ok s _ = True"

lemmas get_task_simps [simp] = get_task_def

lemma runnable_iff:
  "runnable s k \<longleftrightarrow>
     (\<exists>t. get_task s k = Some t \<and> t_status t = T_pending \<and> canRun (tq_tasks s) t)"
  by (simp add: runnable_def split: option.split)

lemma all_completed_iff:
  "all_completed ts ds \<longleftrightarrow> (\<forall>d\<in>set ds. \<exists>t. jget ts d = Some t \<and> t_status t = T_completed)"
  by (induction ds) (auto split: option.splits)

lemma runnable_deps:
  assumes "tq_keyed s" and "runnable s k" and "d \<in> set (getDependencies (tq_tasks s) k)"
  shows "\<exists>t. get_task s d = Some t \<and> t_status t = T_completed"
  using assms
  by (auto simp: runnable_iff tq_keyed_def canRun_def areDependenciesMet_def all_completed_iff)

subsection \<open>The loop of dequeue finds the first runnable id\<close>

lemma dequeue_loop_spec:
  "dequeue_loop now (tq_tasks s) q =
     (case dropWhile (\<lambda>k. \<not> runnable s k) q of
        [] \<Rightarrow> (tq_tasks s, [], None)
      | k # q' \<Rightarrow>
          (let t = (the (get_task s k))\<lparr>t_status := T_running, t_startedAt := Some now\<rparr>
           in (jset (tq_tasks s) k t, q', Some t)))"
  by (induction q) (auto simp: runnable_iff Let_def split: option.splits)

lemma dequeue_None:
  "(\<forall>k\<in>set (tq_queue s). \<not> runnable s k) \<Longrightarrow> dequeue now s = (s\<lparr>tq_queue := []\<rparr>, None)"
  by (simp add: dequeue_def dequeue_loop_spec dropWhile_eq_Nil_conv [THEN iffD2] get_task_def)

lemma dequeue_Some:
  assumes "tq_queue s = skipped @ k # rest" and "\<forall>j\<in>set skipped. \<not> runnable s j" and "runnable s k"
  shows "dequeue now s =
    (let t = (the (get_task s k))\<lparr>t_status := T_running, t_startedAt := Some now\<rparr>
     in (\<lparr>tq_tasks = jset (tq_tasks s) k t, tq_queue = rest\<rparr>, Some t))"
proof -
  have "dropWhile (\<lambda>j. \<not> runnable s j) (tq_queue s) = k # rest"
    using assms by (simp add: dropWhile_append2)
  then show ?thesis by (simp add: dequeue_def dequeue_loop_spec Let_def)
qed

lemma dequeue_cases:
  obtains (none) "\<forall>k\<in>set (tq_queue s). \<not> runnable s k"
  | (some) skipped k rest where "tq_queue s = skipped @ k # rest"
      "\<forall>j\<in>set skipped. \<not> runnable s j" "runnable s k"
  by (metis (full_types) split_list_first_prop)

subsection \<open>The operations keep the queue well formed\<close>

lemma prio_jset_other:
  "k \<noteq> j \<Longrightarrow> priority_of (jset ts j t) k = priority_of ts k"
  by (simp add: priority_of_def)

lemma queue_priorities_cong:
  "\<forall>k\<in>set q. priority_of ts k = priority_of ts' k \<Longrightarrow>
   map (\<lambda>k. the (priority_of ts k)) q = map (\<lambda>k. the (priority_of ts' k)) q"
  by simp

lemma tq_wf_new [simp]: "tq_wf new_task_queue"
  by (simp add: tq_wf_def tq_keyed_def new_task_queue_def queue_priorities_def)

lemma tq_keyed_enqueue: "tq_keyed s \<Longrightarrow> tq_keyed (fst (enqueue now d s))"
  by (auto simp: tq_keyed_def enqueue_def Let_def split: if_splits)

lemma tq_keyed_update: "tq_keyed s \<Longrightarrow> tq_keyed (update_task t s)"
  by (auto simp: tq_keyed_def update_task_def split: if_splits)

lemma tq_keyed_remove: "tq_keyed s \<Longrightarrow> tq_keyed (remove_task k s)"
  by (auto simp: tq_keyed_def remove_task_def split: if_splits)

lemma P_low_last: "p \<le> P_low"
  by (cases p) (auto simp: urgency_simps)

lemma P_urgent_first: "P_urgent \<le> p"
  by (simp add: urgency_simps)

text \<open>The three ways of enqueuing in one equation: an urgent id goes to the front, any other id goes
  behind the ids that are at least as urgent.\<close>

lemma enqueue_queue:
  assumes "tq_wf s" and "get_task s (td_id d) = None"
  shows "tq_queue (fst (enqueue now d s)) =
     (if td_priority d = P_urgent then td_id d # tq_queue s
      else filter (\<lambda>k. the (priority_of (tq_tasks s) k) \<le> td_priority d) (tq_queue s) @ td_id d #
           filter (\<lambda>k. td_priority d < the (priority_of (tq_tasks s) k)) (tq_queue s))"
proof -
  define ts where "ts = tq_tasks (fst (enqueue now d s))"
  define f where "f k = the (priority_of ts k)" for k
  have id: "td_id d \<notin> set (tq_queue s)" using assms by (auto simp: tq_wf_def)
  have old: "priority_of ts k = priority_of (tq_tasks s) k" if "k \<in> set (tq_queue s)" for k
    using that id by (auto simp: ts_def enqueue_def Let_def priority_of_def)
  have dom: "priority_of ts k = Some (f k)" if "k \<in> set (tq_queue s)" for k
    using assms(1) that old by (auto simp: f_def tq_wf_def priority_of_def)
  have fd: "f (td_id d) = td_priority d"
    by (simp add: f_def ts_def enqueue_def Let_def priority_of_def)
  have sorted: "sorted (map f (tq_queue s))"
    using assms(1) old by (simp add: f_def tq_wf_def queue_priorities_def cong: map_cong)
  have ins: "insert_before p (td_id d) (tq_queue s) =
      filter (\<lambda>k. f k \<le> td_priority d) (tq_queue s) @ td_id d #
      filter (\<lambda>k. td_priority d < f k) (tq_queue s)"
    if "\<forall>k\<in>set (tq_queue s). p k \<longleftrightarrow> f (td_id d) < f k" for p
    using insert_before_filter [OF sorted that] by (simp add: fd)
  have filters: "filter (\<lambda>k. f k \<le> td_priority d) (tq_queue s) =
        filter (\<lambda>k. the (priority_of (tq_tasks s) k) \<le> td_priority d) (tq_queue s)"
      "filter (\<lambda>k. td_priority d < f k) (tq_queue s) =
        filter (\<lambda>k. td_priority d < the (priority_of (tq_tasks s) k)) (tq_queue s)"
    using old by (simp_all add: f_def cong: filter_cong)
  have cases: "tq_queue (fst (enqueue now d s)) =
      (case td_priority d of P_urgent \<Rightarrow> td_id d # tq_queue s
         | P_high \<Rightarrow> insert_before (\<lambda>k. priority_of ts k = Some P_normal \<or> priority_of ts k = Some P_low)
                      (td_id d) (tq_queue s)
         | P_normal \<Rightarrow> insert_before (\<lambda>k. priority_of ts k = Some P_low) (td_id d) (tq_queue s)
         | P_low \<Rightarrow> tq_queue s @ [td_id d])"
    unfolding ts_def enqueue_def Let_def by (simp cong: TaskPriority.case_cong)
  show ?thesis
  proof (cases "td_priority d")
    case P_low
    then have "\<forall>k\<in>set (tq_queue s). f k \<le> td_priority d"
      by (auto simp: P_low_last)
    with P_low cases filters show ?thesis
      by (simp add: filter_id_conv filter_empty_conv not_less flip: filters)
  next
    case P_normal
    have "\<forall>k\<in>set (tq_queue s). priority_of ts k = Some P_low \<longleftrightarrow> f (td_id d) < f k"
    proof
      fix k assume "k \<in> set (tq_queue s)"
      then show "priority_of ts k = Some P_low \<longleftrightarrow> f (td_id d) < f k"
        using dom fd P_normal by (cases "f k") (auto simp: urgency_simps)
    qed
    from ins [OF this] P_normal cases filters show ?thesis by simp
  next
    case P_high
    have "\<forall>k\<in>set (tq_queue s). (priority_of ts k = Some P_normal \<or> priority_of ts k = Some P_low)
        \<longleftrightarrow> f (td_id d) < f k"
    proof
      fix k assume "k \<in> set (tq_queue s)"
      then show "(priority_of ts k = Some P_normal \<or> priority_of ts k = Some P_low)
          \<longleftrightarrow> f (td_id d) < f k"
        using dom fd P_high by (cases "f k") (auto simp: urgency_simps)
    qed
    from ins [OF this] P_high cases filters show ?thesis by simp
  next
    case P_urgent
    with cases show ?thesis by simp
  qed
qed

lemma priority_of_keep:
  "jget ts j = Some t0 \<Longrightarrow> t_definition t = t_definition t0 \<Longrightarrow>
   priority_of (jset ts j t) k = priority_of ts k"
  by (simp add: priority_of_def)

lemma tq_wf_enqueue:
  assumes "tq_wf s" and fresh: "get_task s (td_id d) = None"
  shows "tq_wf (fst (enqueue now d s))"
proof -
  let ?s = "fst (enqueue now d s)"
  define f where "f k = the (priority_of (tq_tasks s) k)" for k
  define g where "g k = the (priority_of (tq_tasks ?s) k)" for k
  have id: "td_id d \<notin> set (tq_queue s)" using assms by (auto simp: tq_wf_def)
  have g: "g k = (if k = td_id d then td_priority d else f k)" for k
    by (simp add: g_def f_def enqueue_def Let_def priority_of_def)
  have fs: "sorted (map f (tq_queue s))"
    using assms(1) by (simp add: f_def [abs_def] tq_wf_def queue_priorities_def)
  moreover have "map g (tq_queue s) = map f (tq_queue s)"
    using id by (auto simp: g)
  ultimately have gs: "sorted (map g (tq_queue s))" by (simp only:)
  have q: "tq_queue ?s =
     (if td_priority d = P_urgent then td_id d # tq_queue s
      else filter (\<lambda>k. f k \<le> td_priority d) (tq_queue s) @ td_id d #
           filter (\<lambda>k. td_priority d < f k) (tq_queue s))"
    using enqueue_queue [OF assms, of now] by (simp add: f_def)
  have "sorted (map g (tq_queue ?s))"
  proof (cases "td_priority d = P_urgent")
    case True
    with gs show ?thesis by (simp add: q g P_urgent_first)
  next
    case False
    have fg: "filter P (tq_queue s) = filter Q (tq_queue s)"
      if "\<forall>k\<in>set (tq_queue s). P k = Q k" for P Q
      using that by (simp cong: filter_cong)
    have "filter (\<lambda>k. f k \<le> td_priority d) (tq_queue s) =
          filter (\<lambda>k. g k \<le> td_priority d) (tq_queue s)"
      using id by (intro fg) (auto simp: g)
    moreover have "filter (\<lambda>k. td_priority d < f k) (tq_queue s) =
          filter (\<lambda>k. td_priority d < g k) (tq_queue s)"
      using id by (intro fg) (auto simp: g)
    moreover have "g (td_id d) = td_priority d" by (simp add: g)
    ultimately have "map g (tq_queue ?s) =
        map g (filter (\<lambda>k. g k \<le> td_priority d) (tq_queue s)) @ g (td_id d) #
        map g (filter (\<lambda>k. g (td_id d) < g k) (tq_queue s))" and "g (td_id d) = td_priority d"
      using False by (simp_all only: q if_False map_append list.map)
    with gs show ?thesis by (auto simp: sorted_append sorted_filter)
  qed
  moreover have "distinct (tq_queue ?s)" "\<forall>k\<in>set (tq_queue ?s). jhas (tq_tasks ?s) k"
    using assms(1) id by (auto simp: q tq_wf_def) (auto simp: enqueue_def Let_def)
  ultimately show ?thesis
    using assms(1) tq_keyed_enqueue [of s now d]
    by (simp add: tq_wf_def queue_priorities_def g_def [abs_def])
qed

lemma tq_wf_update:
  assumes "tq_wf s" and "tq_ok s (TQ_update t)"
  shows "tq_wf (update_task t s)"
proof -
  have "priority_of (jset (tq_tasks s) (td_id (t_definition t)) t) k = priority_of (tq_tasks s) k"
    if "k \<in> set (tq_queue s)" for k
    using that assms by (auto simp: priority_of_def tq_wf_def split: option.splits)
  then show ?thesis
    using assms(1) tq_keyed_update [of s t]
    by (auto simp: tq_wf_def queue_priorities_def update_task_def cong: map_cong)
qed

lemma tq_wf_remove: "tq_wf s \<Longrightarrow> tq_wf (remove_task k s)"
proof -
  assume wf: "tq_wf s"
  have same: "map (\<lambda>j. the (priority_of (jdel (tq_tasks s) k) j)) (remove1 k (tq_queue s)) =
        map (\<lambda>j. the (priority_of (tq_tasks s) j)) (remove1 k (tq_queue s))"
    using wf by (auto simp: tq_wf_def priority_of_def)
  have "sorted (map (\<lambda>j. the (priority_of (tq_tasks s) j)) (remove1 k (tq_queue s)))"
    using wf by (simp add: tq_wf_def queue_priorities_def sorted_wrt_map distinct_remove1_removeAll
        removeAll_filter_not_eq sorted_wrt_filter)
  then have "sorted (map (\<lambda>j. the (priority_of (jdel (tq_tasks s) k) j)) (remove1 k (tq_queue s)))"
    by (simp only: same)
  then show ?thesis
    using wf tq_keyed_remove [of s k]
    by (auto simp: tq_wf_def remove_task_def remove_first_remove1 queue_priorities_def)
qed

lemma tq_wf_dequeue: "tq_wf s \<Longrightarrow> tq_wf (fst (dequeue now s))"
proof -
  assume wf: "tq_wf s"
  show ?thesis
  proof (cases rule: dequeue_cases [of s])
    case none
    with wf show ?thesis
      by (simp add: dequeue_None tq_wf_def queue_priorities_def tq_keyed_def)
  next
    case (some skipped k rest)
    then obtain t where t: "jget (tq_tasks s) k = Some t" by (auto simp: runnable_iff)
    let ?t = "t\<lparr>t_status := T_running, t_startedAt := Some now\<rparr>"
    have eq: "fst (dequeue now s) = \<lparr>tq_tasks = jset (tq_tasks s) k ?t, tq_queue = rest\<rparr>"
      using dequeue_Some [OF some, of now] t by (simp add: Let_def)
    have "priority_of (jset (tq_tasks s) k ?t) = priority_of (tq_tasks s)"
      using t by (auto simp: priority_of_def)
    then show ?thesis
      using wf some(1) t
      by (auto simp: eq tq_wf_def tq_keyed_def queue_priorities_def sorted_append)
  qed
qed

interpretation tq_machine: guarded_machine tq_ok tq_apply tq_wf
proof unfold_locales
  fix s x
  assume "tq_ok s x" and "tq_wf s"
  then show "tq_wf (tq_apply x s)"
    by (cases x) (simp_all add: tq_wf_enqueue tq_wf_dequeue tq_wf_remove tq_wf_update del: tq_ok.simps(2))
qed

text \<open>The task map as an entity store.\<close>

definition tq_put :: "string \<Rightarrow> Task \<Rightarrow> task_queue \<Rightarrow> task_queue" where
  "tq_put k t s = s\<lparr>tq_tasks := jset (tq_tasks s) k t\<rparr>"

abbreviation task_key :: "Task \<Rightarrow> string" where
  "task_key t \<equiv> td_id (t_definition t)"

lemma update_task_put: "update_task t = tq_put (task_key t) t"
  by (simp add: update_task_def tq_put_def fun_eq_iff)

interpretation tq_store: entity_store get_task tq_put remove_task "list_tasks None" tq_keyed task_key
proof unfold_locales
  fix s t
  show "tq_keyed s \<Longrightarrow> t \<in> set (list_tasks None s) \<longleftrightarrow> get_task s (task_key t) = Some t"
    by (auto simp: tq_keyed_def list_tasks_def jvals_mem simp del: set_map)
qed (auto simp: tq_put_def remove_task_def tq_keyed_def split: if_splits)

lemma list_tasks_mem:
  "tq_keyed s \<Longrightarrow> t \<in> set (list_tasks st s) \<longleftrightarrow>
     get_task s (task_key t) = Some t \<and> (\<forall>x. st = Some x \<longrightarrow> t_status t = x)"
  using tq_store.entries_lookup [of s t]
  by (cases st) (auto simp: list_tasks_def)

lemma dequeue_queue:
  "tq_queue (fst (dequeue now s)) = tl (dropWhile (\<lambda>k. \<not> runnable s k) (tq_queue s))"
  by (cases "dropWhile (\<lambda>k. \<not> runnable s k) (tq_queue s)")
     (simp_all add: dequeue_def dequeue_loop_spec Let_def del: dropWhile_eq_Nil_conv)

lemma set_tl_subset: "set (tl xs) \<subseteq> set xs"
  by (cases xs) auto

lemma enqueue_set: "set (tq_queue (fst (enqueue now d s))) = insert (td_id d) (set (tq_queue s))"
  by (auto simp: enqueue_def Let_def split: TaskPriority.splits)

lemma tq_apply_not_queued:
  assumes "k \<notin> set (tq_queue s)" and "\<forall>now d. x = TQ_enqueue now d \<longrightarrow> td_id d \<noteq> k"
  shows "k \<notin> set (tq_queue (tq_apply x s))"
proof (cases x)
  case (TQ_dequeue now)
  have "set (tl (dropWhile (\<lambda>k. \<not> runnable s k) (tq_queue s))) \<subseteq> set (tq_queue s)"
    by (meson order_trans set_dropWhileD set_tl_subset subsetI)
  with TQ_dequeue assms(1) show ?thesis by (auto simp: dequeue_queue)
next
  case (TQ_remove j)
  with assms(1) show ?thesis
    by (auto simp: remove_task_def remove_first_remove1 dest: notin_set_remove1)
qed (use assms in \<open>auto simp: enqueue_set update_task_def\<close>)

lemma not_queued_run:
  assumes "k \<notin> set (tq_queue s)" and "\<forall>now d. TQ_enqueue now d \<in> set ops \<longrightarrow> td_id d \<noteq> k"
  shows "k \<notin> set (tq_queue (fold tq_apply ops s))"
  using assms
proof (induction ops arbitrary: s)
  case (Cons x ops)
  then have "k \<notin> set (tq_queue (tq_apply x s))" by (intro tq_apply_not_queued) auto
  with Cons show ?case by simp
qed simp

subsection \<open>Properties\<close>

text \<open>C1: Over every legal history of enqueues (of unused ids), dequeues, removals and updates (that
  keep the definitions), the queue holds stored tasks only, each once, ordered from the most to the
  least urgent.\<close>

theorem queue_sorted_by_urgency:
  assumes "legal_run tq_ok tq_apply new_task_queue ops"
  shows "tq_wf (fold tq_apply ops new_task_queue)"
  by (rule tq_machine.inv_legal_run [OF assms tq_wf_new])

definition demo_def :: "string \<Rightarrow> TaskPriority \<Rightarrow> string list \<Rightarrow> TaskDefinition" where
  "demo_def k p deps = \<lparr>td_id = k, td_prompt = ''p'', td_agentRole = None, td_agentId = None,
     td_priority = p, td_timeout = None, td_maxRetries = None, td_dependencies = Some deps,
     td_metadata = None\<rparr>"

definition demo_ops :: "tq_op list" where
  "demo_ops = [TQ_enqueue 1 (demo_def ''n'' P_normal []), TQ_enqueue 2 (demo_def ''u'' P_urgent []),
     TQ_enqueue 3 (demo_def ''h'' P_high []), TQ_dequeue 4]"

theorem queue_sorted_by_urgency_witness:
  "tq_wf (fold tq_apply demo_ops new_task_queue) \<and>
   tq_queue (fold tq_apply demo_ops new_task_queue) = [''h'', ''n'']"
proof
  have "legal_run tq_ok tq_apply new_task_queue demo_ops" by code_simp
  then show "tq_wf (fold tq_apply demo_ops new_task_queue)" by (rule queue_sorted_by_urgency)
  show "tq_queue (fold tq_apply demo_ops new_task_queue) = [''h'', ''n'']" by code_simp
qed

text \<open>C2: On a well-formed queue a new task is placed by urgency: an urgent one before everything
  (last in, first out), any other behind all tasks that are at least as urgent and before all that
  are less urgent (first in, first out within a priority).\<close>

theorem enqueue_position:
  assumes "tq_wf s" and "get_task s (td_id d) = None"
  shows "tq_queue (fst (enqueue now d s)) =
     (if td_priority d = P_urgent then td_id d # tq_queue s
      else filter (\<lambda>k. the (priority_of (tq_tasks s) k) \<le> td_priority d) (tq_queue s) @ td_id d #
           filter (\<lambda>k. td_priority d < the (priority_of (tq_tasks s) k)) (tq_queue s)) \<and>
     snd (enqueue now d s) = td_id d"
  using enqueue_queue [OF assms, of now] by (simp add: enqueue_def Let_def)

definition demo_queue :: task_queue where
  "demo_queue = fold tq_apply [TQ_enqueue 1 (demo_def ''u1'' P_urgent []),
     TQ_enqueue 2 (demo_def ''n1'' P_normal []), TQ_enqueue 3 (demo_def ''l1'' P_low [])] new_task_queue"

lemma demo_queue_wf: "tq_wf demo_queue"
  unfolding demo_queue_def by (rule tq_machine.inv_legal_run [OF _ tq_wf_new]) code_simp

theorem enqueue_position_witness:
  "tq_queue (fst (enqueue 9 (demo_def ''n2'' P_normal []) demo_queue)) = [''u1'', ''n1'', ''n2'', ''l1'']"
proof -
  have "get_task demo_queue (td_id (demo_def ''n2'' P_normal [])) = None" by code_simp
  from enqueue_position [OF demo_queue_wf this, of 9] show ?thesis by code_simp
qed

text \<open>C3: What \<open>dequeue\<close> returns is the first task in queue order that is pending and has only
  completed dependencies; it becomes running with the current time as its start, no other task
  changes, and everything up to and including it leaves the queue. It returns nothing only when no
  queued task can run.\<close>

theorem dequeue_first_runnable:
  assumes "tq_wf s" and "dequeue now s = (s', r)"
  shows "case r of
      None \<Rightarrow> (\<forall>k\<in>set (tq_queue s). \<not> runnable s k) \<and> s' = s\<lparr>tq_queue := []\<rparr>
    | Some t' \<Rightarrow> \<exists>skipped k rest t. tq_queue s = skipped @ k # rest \<and> tq_queue s' = rest \<and>
        (\<forall>j\<in>set skipped. \<not> runnable s j) \<and> get_task s k = Some t \<and> t_status t = T_pending \<and>
        (\<forall>d\<in>set (getDependencies (tq_tasks s) k). \<exists>u. get_task s d = Some u \<and> t_status u = T_completed) \<and>
        t' = t\<lparr>t_status := T_running, t_startedAt := Some now\<rparr> \<and>
        (\<forall>j. get_task s' j = (if j = k then Some t' else get_task s j))"
proof (cases rule: dequeue_cases [of s])
  case none
  with assms(2) show ?thesis by (auto simp: dequeue_None)
next
  case (some skipped k rest)
  then obtain t where t: "get_task s k = Some t" "t_status t = T_pending" by (auto simp: runnable_iff)
  have "\<forall>d\<in>set (getDependencies (tq_tasks s) k). \<exists>u. get_task s d = Some u \<and> t_status u = T_completed"
    using runnable_deps some(3) assms(1) by (auto simp: tq_wf_def)
  with dequeue_Some [OF some, of now] assms(2) t some show ?thesis
    by (auto simp: Let_def)
qed

theorem dequeue_first_runnable_witness:
  "\<exists>s'. dequeue 9 demo_queue = (s', Some ((the (get_task demo_queue ''u1''))
     \<lparr>t_status := T_running, t_startedAt := Some 9\<rparr>)) \<and> tq_queue s' = [''n1'', ''l1'']"
proof -
  obtain s' r where r: "dequeue 9 demo_queue = (s', r)" by force
  have "r = snd (dequeue 9 demo_queue)" using r by simp
  moreover have "snd (dequeue 9 demo_queue) = Some ((the (get_task demo_queue ''u1''))
     \<lparr>t_status := T_running, t_startedAt := Some 9\<rparr>)" by code_simp
  ultimately have some: "r = Some ((the (get_task demo_queue ''u1''))
     \<lparr>t_status := T_running, t_startedAt := Some 9\<rparr>)" by simp
  have "runnable demo_queue ''u1''" "tq_queue demo_queue = ''u1'' # [''n1'', ''l1'']"
    by code_simp+
  with dequeue_first_runnable [OF demo_queue_wf r] some r show ?thesis
    by (auto simp: Cons_eq_append_conv)
qed

text \<open>A served task is at least as urgent as every task that could have been served instead.\<close>

lemma dequeue_most_urgent:
  assumes "tq_wf s" and "snd (dequeue now s) = Some t" and "k \<in> set (tq_queue s)"
    and "runnable s k" and "get_task s k = Some u"
  shows "td_priority (t_definition t) \<le> td_priority (t_definition u)"
proof (cases rule: dequeue_cases [of s])
  case none
  with assms show ?thesis by auto
next
  case (some skipped j rest)
  then obtain v where v: "get_task s j = Some v" by (auto simp: runnable_iff)
  have t: "t_definition t = t_definition v"
    using dequeue_Some [OF some, of now] assms(2) v by (auto simp: Let_def)
  have "k \<in> set (j # rest)" using assms(3,4) some by auto
  moreover have "sorted (map (\<lambda>k. the (priority_of (tq_tasks s) k)) (j # rest))"
    using assms(1) some(1) by (simp add: tq_wf_def queue_priorities_def sorted_append)
  ultimately have "the (priority_of (tq_tasks s) j) \<le> the (priority_of (tq_tasks s) k)"
    by auto
  then show ?thesis using v assms(5) t by (simp add: priority_of_def)
qed

lemma dequeue_most_urgent_witness:
  "td_priority (t_definition (the (snd (dequeue 9 demo_queue)))) \<le> P_low"
proof -
  have "case snd (dequeue 9 demo_queue) of None \<Rightarrow> False | Some t \<Rightarrow> True" by code_simp
  then obtain t where t: "snd (dequeue 9 demo_queue) = Some t" by (auto split: option.splits)
  have "case get_task demo_queue ''l1'' of None \<Rightarrow> False
    | Some u \<Rightarrow> td_priority (t_definition u) = P_low" by code_simp
  then obtain u where u: "get_task demo_queue ''l1'' = Some u" "td_priority (t_definition u) = P_low"
    by (auto split: option.splits)
  have "''l1'' \<in> set (tq_queue demo_queue)" "runnable demo_queue ''l1''" by code_simp+
  from dequeue_most_urgent [OF demo_queue_wf t this u(1)] t u(2) show ?thesis by simp
qed

text \<open>A pending task whose dependencies are not completed when \<open>dequeue\<close> reaches it is dropped
  from the queue: it stays stored as pending, and no later history of queue operations brings it back
  unless its id is enqueued anew, so it is never served.\<close>

lemma dequeue_strands_blocked:
  assumes "tq_wf s" and "get_task s k = Some t" and "t_status t = T_pending"
    and "k \<in> set (takeWhile (\<lambda>j. \<not> runnable s j) (tq_queue s))"
    and "\<forall>now d. TQ_enqueue now d \<in> set ops \<longrightarrow> td_id d \<noteq> k"
  shows "get_task (fst (dequeue now s)) k = Some t \<and>
         k \<notin> set (tq_queue (fold tq_apply ops (fst (dequeue now s))))"
proof -
  have blocked: "\<not> runnable s k" using assms(4) by (rule set_takeWhileD [THEN conjunct2])
  have "distinct (takeWhile (\<lambda>j. \<not> runnable s j) (tq_queue s) @ dropWhile (\<lambda>j. \<not> runnable s j) (tq_queue s))"
    using assms(1) by (simp add: tq_wf_def)
  then have "k \<notin> set (dropWhile (\<lambda>j. \<not> runnable s j) (tq_queue s))"
    using assms(4) by (auto simp del: takeWhile_dropWhile_id)
  then have gone: "k \<notin> set (tq_queue (fst (dequeue now s)))"
    using set_tl_subset by (force simp: dequeue_queue)
  have "get_task (fst (dequeue now s)) k = Some t"
  proof (cases rule: dequeue_cases [of s])
    case none
    with assms(2) show ?thesis by (simp add: dequeue_None)
  next
    case (some skipped j rest)
    with assms(2) blocked dequeue_Some [OF some, of now] show ?thesis by (auto simp: Let_def)
  qed
  with not_queued_run [OF gone assms(5)] show ?thesis by blast
qed

text \<open>The task \<open>b\<close> depends on \<open>a\<close>, which is still running when the queue is polled: \<open>b\<close> leaves the
  queue, and completing \<open>a\<close> afterwards does not bring it back.\<close>

definition demo_blocked :: task_queue where
  "demo_blocked = fold tq_apply [TQ_enqueue 1 (demo_def ''a'' P_normal []), TQ_dequeue 2,
     TQ_enqueue 3 (demo_def ''b'' P_normal [''a''])] new_task_queue"

definition demo_completed :: Task where
  "demo_completed = (the (get_task demo_blocked ''a''))\<lparr>t_status := T_completed\<rparr>"

theorem dequeue_strands_blocked_witness:
  "t_status (the (get_task (fst (dequeue 4 demo_blocked)) ''b'')) = T_pending \<and>
   ''b'' \<notin> set (tq_queue (fold tq_apply [TQ_update demo_completed, TQ_dequeue 6]
     (fst (dequeue 4 demo_blocked))))"
proof -
  have wf: "tq_wf demo_blocked"
    unfolding demo_blocked_def by (rule tq_machine.inv_legal_run [OF _ tq_wf_new]) code_simp
  have "case get_task demo_blocked ''b'' of None \<Rightarrow> False | Some t \<Rightarrow> t_status t = T_pending"
    by code_simp
  then obtain t where t: "get_task demo_blocked ''b'' = Some t" "t_status t = T_pending"
    by (auto split: option.splits)
  have q: "''b'' \<in> set (takeWhile (\<lambda>j. \<not> runnable demo_blocked j) (tq_queue demo_blocked))"
    by code_simp
  from dequeue_strands_blocked [OF wf t q, of "[TQ_update demo_completed, TQ_dequeue 6]" 4] t
  show ?thesis by simp
qed

end
