(* ===== verification/AgentManager.thy ===== *)
theory AgentManager
  imports OrchTypes
begin

text \<open>
  The agent registry (\<open>src/src/orchestrator/agent-manager.ts\<close>, class \<open>AgentManager\<close>): the
  private field \<open>agents\<close> is a JavaScript map from agent ids to agent records. Every operation of the
  class is one definition; \<open>Date.now()\<close> and the random suffix of a generated id are arguments.
\<close>

record agent_manager =
  am_agents :: "(string, AgentInfo) jsmap"
  am_heartbeatTimeout :: int

definition new_agent_manager :: "int option \<Rightarrow> agent_manager" where
  "new_agent_manager timeout =
     \<lparr>am_agents = [], am_heartbeatTimeout = (case timeout of Some t \<Rightarrow> t | None \<Rightarrow> 60000)\<rparr>"

definition generateAgentId :: "int \<Rightarrow> string \<Rightarrow> string" where
  "generateAgentId now rnd = gen_id ''agent'' now rnd"

definition registerAgent ::
    "int \<Rightarrow> string \<Rightarrow> AgentInfo \<Rightarrow> agent_manager \<Rightarrow> agent_manager \<times> string" where
  "registerAgent now rnd info s =
     (let agentId = (if a_id info = [] then generateAgentId now rnd else a_id info);
          agent = info\<lparr>a_id := agentId, a_createdAt := now, a_lastHeartbeat := now\<rparr>
      in (s\<lparr>am_agents := jset (am_agents s) agentId agent\<rparr>, agentId))"

definition unregisterAgent :: "string \<Rightarrow> agent_manager \<Rightarrow> agent_manager" where
  "unregisterAgent agentId s = s\<lparr>am_agents := jdel (am_agents s) agentId\<rparr>"

definition getAgent :: "agent_manager \<Rightarrow> string \<Rightarrow> AgentInfo option" where
  "getAgent s agentId = jget (am_agents s) agentId"

definition listAgents ::
    "AgentRole option \<Rightarrow> AgentStatus option \<Rightarrow> agent_manager \<Rightarrow> AgentInfo list" where
  "listAgents role status s =
     (let agents = jvals (am_agents s);
          agents = (case role of Some r \<Rightarrow> filter (\<lambda>a. a_role a = r) agents | None \<Rightarrow> agents)
      in (case status of Some st \<Rightarrow> filter (\<lambda>a. a_status a = st) agents | None \<Rightarrow> agents))"

definition updateAgentStatus ::
    "int \<Rightarrow> string \<Rightarrow> AgentStatus \<Rightarrow> agent_manager \<Rightarrow> agent_manager" where
  "updateAgentStatus now agentId status s =
     s\<lparr>am_agents := jmodify (am_agents s) agentId
         (\<lambda>a. a\<lparr>a_status := status, a_lastHeartbeat := now\<rparr>)\<rparr>"

definition processHeartbeat :: "Heartbeat \<Rightarrow> agent_manager \<Rightarrow> agent_manager" where
  "processHeartbeat hb s =
     s\<lparr>am_agents := jmodify (am_agents s) (hb_agentId hb)
         (\<lambda>a. let a = a\<lparr>a_status := hb_status hb, a_currentTasks := hb_currentTasks hb,
                          a_lastHeartbeat := hb_timestamp hb\<rparr>
              in (case hb_metrics hb of
                    None \<Rightarrow> a
                  | Some m \<Rightarrow> a\<lparr>a_metadata :=
                      Some (jset (case a_metadata a of Some md \<Rightarrow> md | None \<Rightarrow> []) ''metrics'' (JObj m))\<rparr>))\<rparr>"

definition getAvailableAgents ::
    "AgentRole option \<Rightarrow> int option \<Rightarrow> agent_manager \<Rightarrow> AgentInfo list" where
  "getAvailableAgents role maxTasks s =
     (let agents = jvals (am_agents s);
          agents = (case role of Some r \<Rightarrow> filter (\<lambda>a. a_role a = r) agents | None \<Rightarrow> agents);
          agents = filter (\<lambda>a. a_status a = A_idle \<or> a_status a = A_waiting) agents
      in (case maxTasks of
            Some m \<Rightarrow> if m > 0 then filter (\<lambda>a. a_currentTasks a < m) agents else agents
          | None \<Rightarrow> filter (\<lambda>a. a_currentTasks a < a_maxConcurrentTasks a) agents))"

text \<open>The loop of \<open>checkStaleAgents\<close> marks every stale agent offline and collects its key.\<close>

definition isStale :: "int \<Rightarrow> agent_manager \<Rightarrow> AgentInfo \<Rightarrow> bool" where
  "isStale now s a \<longleftrightarrow> a_lastHeartbeat a < now - am_heartbeatTimeout s \<and> a_status a \<noteq> A_offline"

definition checkStaleAgents :: "int \<Rightarrow> agent_manager \<Rightarrow> agent_manager \<times> string list" where
  "checkStaleAgents now s =
     (s\<lparr>am_agents := jmap (\<lambda>k a. if isStale now s a then a\<lparr>a_status := A_offline\<rparr> else a)
                          (am_agents s)\<rparr>,
      map fst (filter (\<lambda>(k, a). isStale now s a) (am_agents s)))"

subsection \<open>Well-formedness: every agent is stored under its own id\<close>

definition am_wf :: "agent_manager \<Rightarrow> bool" where
  "am_wf s \<longleftrightarrow> jwf (am_agents s) \<and> (\<forall>k a. jget (am_agents s) k = Some a \<longrightarrow> a_id a = k)"

lemma am_wf_new [simp]: "am_wf (new_agent_manager t)"
  by (simp add: am_wf_def new_agent_manager_def)

lemma am_wf_registerAgent [wf_intros]: "am_wf s \<Longrightarrow> am_wf (fst (registerAgent now rnd info s))"
  by (auto simp: am_wf_def registerAgent_def Let_def split: if_splits)

lemma am_wf_unregisterAgent [wf_intros]: "am_wf s \<Longrightarrow> am_wf (unregisterAgent k s)"
  by (auto simp: am_wf_def unregisterAgent_def split: if_splits)

lemma am_wf_updateAgentStatus [wf_intros]: "am_wf s \<Longrightarrow> am_wf (updateAgentStatus now k st s)"
  by (auto simp: am_wf_def updateAgentStatus_def split: if_splits)

lemma am_wf_processHeartbeat [wf_intros]: "am_wf s \<Longrightarrow> am_wf (processHeartbeat hb s)"
  by (auto simp: am_wf_def processHeartbeat_def Let_def split: if_splits option.splits)

lemma am_wf_checkStaleAgents [wf_intros]: "am_wf s \<Longrightarrow> am_wf (fst (checkStaleAgents now s))"
  by (auto simp: am_wf_def checkStaleAgents_def split: if_splits)

datatype am_op =
    AM_register int string AgentInfo
  | AM_unregister string
  | AM_updateStatus int string AgentStatus
  | AM_heartbeat Heartbeat
  | AM_checkStale int

fun am_apply :: "am_op \<Rightarrow> agent_manager \<Rightarrow> agent_manager" where
  "am_apply (AM_register now rnd info) s = fst (registerAgent now rnd info s)"
| "am_apply (AM_unregister k) s = unregisterAgent k s"
| "am_apply (AM_updateStatus now k st) s = updateAgentStatus now k st s"
| "am_apply (AM_heartbeat hb) s = processHeartbeat hb s"
| "am_apply (AM_checkStale now) s = fst (checkStaleAgents now s)"

interpretation am_machine: op_machine am_apply am_wf
proof unfold_locales
  fix s x
  assume "am_wf s"
  then show "am_wf (am_apply x s)" by (cases x) (auto intro: wf_intros)
qed

text \<open>The registry as an entity store: \<open>getAgent\<close>, the insertion and deletion of the map.\<close>

definition am_put :: "string \<Rightarrow> AgentInfo \<Rightarrow> agent_manager \<Rightarrow> agent_manager" where
  "am_put k a s = s\<lparr>am_agents := jset (am_agents s) k a\<rparr>"

lemma listAgents_all: "listAgents None None s = jvals (am_agents s)"
  by (simp add: listAgents_def)

lemma am_entries: "am_wf s \<Longrightarrow> a \<in> set (listAgents None None s) \<longleftrightarrow> getAgent s (a_id a) = Some a"
  by (auto simp: am_wf_def listAgents_all getAgent_def jvals_mem simp del: set_map)

interpretation am_store: entity_store getAgent am_put unregisterAgent "listAgents None None" am_wf a_id
proof unfold_locales
  fix s a k
  show "am_wf s \<Longrightarrow> a_id a = k \<Longrightarrow> am_wf (am_put k a s)"
    by (auto simp: am_wf_def am_put_def split: if_splits)
  show "am_wf s \<Longrightarrow> am_wf (unregisterAgent k s)"
    by (rule am_wf_unregisterAgent)
qed (auto simp: getAgent_def am_put_def unregisterAgent_def am_entries)

lemma registerAgent_put:
  "registerAgent now rnd info s =
     (let k = (if a_id info = [] then generateAgentId now rnd else a_id info)
      in (am_put k (info\<lparr>a_id := k, a_createdAt := now, a_lastHeartbeat := now\<rparr>) s, k))"
  by (simp add: registerAgent_def am_put_def Let_def)

subsection \<open>Functional behaviour\<close>

lemma getAgent_updateAgentStatus [simp]:
  "getAgent (updateAgentStatus now k st s) j =
     (if j = k then map_option (\<lambda>a. a\<lparr>a_status := st, a_lastHeartbeat := now\<rparr>) (getAgent s k)
      else getAgent s j)"
  by (simp add: getAgent_def updateAgentStatus_def)

lemma getAgent_checkStale:
  "getAgent (fst (checkStaleAgents now s)) k =
     map_option (\<lambda>a. if isStale now s a then a\<lparr>a_status := A_offline\<rparr> else a) (getAgent s k)"
  by (simp add: getAgent_def checkStaleAgents_def)

lemma getAvailableAgents_mem:
  assumes "am_wf s"
  shows "a \<in> set (getAvailableAgents role maxTasks s) \<longleftrightarrow>
    getAgent s (a_id a) = Some a \<and> (\<forall>r. role = Some r \<longrightarrow> a_role a = r) \<and>
    (a_status a = A_idle \<or> a_status a = A_waiting) \<and>
    (case maxTasks of None \<Rightarrow> a_currentTasks a < a_maxConcurrentTasks a
                    | Some m \<Rightarrow> m \<le> 0 \<or> a_currentTasks a < m)"
  using am_entries [OF assms, of a]
  by (auto simp: getAvailableAgents_def Let_def listAgents_all split: option.splits if_splits)

subsection \<open>Properties\<close>

text \<open>Whatever sequence of registrations, deregistrations, status updates, heartbeats and
  staleness sweeps runs on a new registry, its keys stay distinct and every agent is stored under its
  own id, so that the listing and the lookup agree.\<close>

lemma agent_registry_consistent:
  "let s = fold am_apply ops (new_agent_manager timeout)
   in am_wf s \<and> (a \<in> set (listAgents None None s) \<longleftrightarrow> getAgent s (a_id a) = Some a)"
  unfolding Let_def
  by (intro conjI am_entries am_machine.inv_run am_wf_new)

text \<open>A staleness sweep reports exactly the agents whose last heartbeat is older than the
  timeout and that were not offline yet, marks exactly these offline, changes nothing else about any
  agent, and a second sweep at the same instant reports nobody.\<close>

lemma checkStaleAgents_sweep:
  assumes "am_wf s" and "checkStaleAgents now s = (s', stale)"
  shows "(k \<in> set stale \<longleftrightarrow> (\<exists>a. getAgent s k = Some a \<and> isStale now s a)) \<and>
         getAgent s' k = map_option
           (\<lambda>a. if k \<in> set stale then a\<lparr>a_status := A_offline\<rparr> else a) (getAgent s k) \<and>
         snd (checkStaleAgents now s') = []"
proof -
  have wf: "jwf (am_agents s)" using assms(1) by (simp add: am_wf_def)
  have stale: "k \<in> set stale \<longleftrightarrow> (\<exists>a. getAgent s k = Some a \<and> isStale now s a)" for k
    using assms(2) jget_mem [OF wf] by (force simp: checkStaleAgents_def getAgent_def)
  moreover have "getAgent s' k = map_option
           (\<lambda>a. if k \<in> set stale then a\<lparr>a_status := A_offline\<rparr> else a) (getAgent s k)"
    using getAgent_checkStale [of now s k] assms(2) stale [of k] by (cases "getAgent s k") auto
  moreover have "snd (checkStaleAgents now s') = []"
    using assms(2) by (auto simp: checkStaleAgents_def isStale_def jmap_def filter_empty_conv split: if_splits)
  ultimately show ?thesis by blast
qed

definition demo_agent :: "string \<Rightarrow> AgentStatus \<Rightarrow> int \<Rightarrow> AgentInfo" where
  "demo_agent k st hb = \<lparr>a_id = k, a_role = Role_worker, a_status = st, a_capabilities = [],
     a_maxConcurrentTasks = 2, a_currentTasks = 0, a_createdAt = 0, a_lastHeartbeat = hb,
     a_metadata = None\<rparr>"

definition demo_registry :: agent_manager where
  "demo_registry = \<lparr>am_agents = [(''a'', demo_agent ''a'' A_idle 0), (''b'', demo_agent ''b'' A_busy 90000)],
     am_heartbeatTimeout = 60000\<rparr>"

lemma demo_registry_wf: "am_wf demo_registry"
  by (auto simp: am_wf_def demo_registry_def demo_agent_def jwf_def split: if_splits)

lemma checkStaleAgents_sweep_witness:
  "snd (checkStaleAgents 100000 demo_registry) = [''a''] \<and>
   snd (checkStaleAgents 100000 (fst (checkStaleAgents 100000 demo_registry))) = []"
proof -
  have "snd (checkStaleAgents 100000 (fst (checkStaleAgents 100000 demo_registry))) = []"
    using checkStaleAgents_sweep [OF demo_registry_wf prod.collapse [symmetric]] by blast
  moreover have "snd (checkStaleAgents 100000 demo_registry) = [''a'']" by code_simp
  ultimately show ?thesis by blast
qed

end
