(* ===== verification/OrchScheduler.thy ===== *)
theory OrchScheduler
  imports TaskQueue AgentManager
begin

text \<open>
  The orchestrator's scheduler (\<open>src/src/orchestrator/task-scheduler.ts\<close>, class \<open>TaskScheduler\<close>):
  it works on the shared task queue and agent registry and keeps the maps \<open>assignments\<close> and
  \<open>completions\<close>. Each method is one definition that returns the new state and either the error it
  throws or its result. The methods are \<open>async\<close>; these definitions describe one call that is not
  interleaved with another. The last section splits \<open>assignTask\<close> at its \<open>await\<close>s.
\<close>

record orch_sched =
  os_queue :: task_queue
  os_agents :: agent_manager
  os_assignments :: "(string, TaskAssignment) jsmap"
  os_completions :: "(string, TaskCompletion) jsmap"

datatype sched_error =
    TaskNotFound string
  | CannotRetry TaskStatus
  | CannotAssign TaskStatus
  | AgentNotFound string
  | AgentNotAvailable string AgentStatus
  | CannotComplete TaskStatus
  | NotIterable

definition schedule_task ::
    "int \<Rightarrow> TaskDefinition \<Rightarrow> orch_sched \<Rightarrow> orch_sched \<times> string" where
  "schedule_task now d s =
     (case enqueue now d (os_queue s) of (q, k) \<Rightarrow> (s\<lparr>os_queue := q\<rparr>, k))"

definition cancel ::
    "int \<Rightarrow> string \<Rightarrow> orch_sched \<Rightarrow> orch_sched \<times> (sched_error + unit)" where
  "cancel now taskId s =
     (case get_task (os_queue s) taskId of
        None \<Rightarrow> (s, Inl (TaskNotFound taskId))
      | Some task \<Rightarrow>
          (let s1 = (if t_status task = T_running
                     then (case jget (os_assignments s) taskId of
                             Some assignment \<Rightarrow>
                               (case getAgent (os_agents s) (ta_agentId assignment) of
                                  Some agent \<Rightarrow>
                                    s\<lparr>os_agents := updateAgentStatus now (a_id agent) A_idle (os_agents s)\<rparr>
                                | None \<Rightarrow> s)
                           | None \<Rightarrow> s)
                     else s);
               task' = task\<lparr>t_status := T_cancelled, t_completedAt := Some now\<rparr>
           in (s1\<lparr>os_queue := update_task task' (os_queue s1)\<rparr>, Inr ())))"

definition retry :: "string \<Rightarrow> orch_sched \<Rightarrow> orch_sched \<times> (sched_error + unit)" where
  "retry taskId s =
     (case get_task (os_queue s) taskId of
        None \<Rightarrow> (s, Inl (TaskNotFound taskId))
      | Some task \<Rightarrow>
          if t_status task \<noteq> T_failed then (s, Inl (CannotRetry (t_status task)))
          else (let task' = task\<lparr>t_status := T_pending, t_retryCount := t_retryCount task + 1,
                                 t_startedAt := None, t_completedAt := None, t_result := None\<rparr>
                in (s\<lparr>os_queue := update_task task' (os_queue s)\<rparr>, Inr ())))"

definition getNextTask :: "int \<Rightarrow> orch_sched \<Rightarrow> orch_sched \<times> Task option" where
  "getNextTask now s = (case dequeue now (os_queue s) of (q, r) \<Rightarrow> (s\<lparr>os_queue := q\<rparr>, r))"

definition assign_reason :: string where
  "assign_reason = ''Assigned based on agent availability and task requirements''"

definition assignTask ::
    "int \<Rightarrow> string \<Rightarrow> string \<Rightarrow> orch_sched \<Rightarrow> orch_sched \<times> (sched_error + TaskAssignment)" where
  "assignTask now taskId agentId s =
     (case get_task (os_queue s) taskId of
        None \<Rightarrow> (s, Inl (TaskNotFound taskId))
      | Some task \<Rightarrow>
          if t_status task \<noteq> T_running \<and> t_status task \<noteq> T_pending
          then (s, Inl (CannotAssign (t_status task)))
          else (case getAgent (os_agents s) agentId of
                  None \<Rightarrow> (s, Inl (AgentNotFound agentId))
                | Some agent \<Rightarrow>
                    if a_status agent \<noteq> A_idle \<and> a_status agent \<noteq> A_waiting
                    then (s, Inl (AgentNotAvailable agentId (a_status agent)))
                    else (let task' = task\<lparr>t_status := T_running, t_assignedAgent := Some agentId,
                                t_startedAt := (case t_startedAt task of Some t \<Rightarrow> Some t | None \<Rightarrow> Some now)\<rparr>;
                              assignment = \<lparr>ta_taskId = taskId, ta_agentId = agentId,
                                ta_assignedAt = now, ta_reason = assign_reason\<rparr>
                          in (s\<lparr>os_queue := update_task task' (os_queue s),
                                os_agents := updateAgentStatus now agentId A_busy (os_agents s),
                                os_assignments := jset (os_assignments s) taskId assignment\<rparr>,
                              Inr assignment))))"

definition getAgentRunningTasks :: "string \<Rightarrow> task_queue \<Rightarrow> Task list" where
  "getAgentRunningTasks agentId q =
     filter (\<lambda>t. t_assignedAgent t = Some agentId) (list_tasks (Some T_running) q)"

definition completeTask ::
    "int \<Rightarrow> string \<Rightarrow> TaskResult \<Rightarrow> orch_sched \<Rightarrow> orch_sched \<times> (sched_error + TaskCompletion)" where
  "completeTask now taskId result s =
     (case get_task (os_queue s) taskId of
        None \<Rightarrow> (s, Inl (TaskNotFound taskId))
      | Some task \<Rightarrow>
          if t_status task \<noteq> T_running then (s, Inl (CannotComplete (t_status task)))
          else
            (let task' = task\<lparr>t_status := r_status result, t_result := Some result,
                              t_completedAt := Some now\<rparr>;
                 s1 = s\<lparr>os_queue := update_task task' (os_queue s)\<rparr>;
                 s2 = (case jget (os_assignments s1) taskId of
                         Some assignment \<Rightarrow>
                           (case getAgent (os_agents s1) (ta_agentId assignment) of
                              Some agent \<Rightarrow>
                                if length (getAgentRunningTasks (ta_agentId assignment) (os_queue s1)) \<le> 1
                                then s1\<lparr>os_agents :=
                                       updateAgentStatus now (ta_agentId assignment) A_idle (os_agents s1)\<rparr>
                                else s1
                            | None \<Rightarrow> s1)
                       | None \<Rightarrow> s1);
                 completion = \<lparr>tc_taskId = taskId, tc_agentId = r_agentId result,
                               tc_result = result, tc_completedAt = now\<rparr>
             in (s2\<lparr>os_completions := jset (os_completions s2) taskId completion\<rparr>, Inr completion)))"

definition getAssignment :: "orch_sched \<Rightarrow> string \<Rightarrow> TaskAssignment option" where
  "getAssignment s taskId = jget (os_assignments s) taskId"

definition getCompletion :: "orch_sched \<Rightarrow> string \<Rightarrow> TaskCompletion option" where
  "getCompletion s taskId = jget (os_completions s) taskId"

subsection \<open>Choosing an agent\<close>

text \<open>Iterating over the untyped \<open>metadata.requiredCapabilities\<close>: an array yields its elements, a
  string its characters, a missing value is replaced by the empty array; anything else is not iterable
  and the loop throws.\<close>

definition requiredCapabilities :: "TaskDefinition \<Rightarrow> sched_error + jsval list" where
  "requiredCapabilities task =
     (case td_metadata task of
        None \<Rightarrow> Inr []
      | Some md \<Rightarrow>
          (case jget md ''requiredCapabilities'' of
             None \<Rightarrow> Inr []
           | Some JUndef \<Rightarrow> Inr []
           | Some JNull \<Rightarrow> Inr []
           | Some (JArr xs) \<Rightarrow> Inr xs
           | Some (JStr cs) \<Rightarrow> Inr (map (\<lambda>c. JStr [c]) cs)
           | Some _ \<Rightarrow> Inl NotIterable))"

definition agentScore :: "TaskDefinition \<Rightarrow> jsval list \<Rightarrow> AgentInfo \<Rightarrow> int" where
  "agentScore task required agent =
     (case td_agentRole task of Some r \<Rightarrow> if a_role agent = r then 10 else 0 | None \<Rightarrow> 0) +
     (case td_agentId task of Some k \<Rightarrow> if k \<noteq> [] \<and> a_id agent = k then 20 else 0 | None \<Rightarrow> 0) +
     5 * int (length (filter (\<lambda>c. c \<in> JStr ` set (a_capabilities agent)) required)) +
     (a_maxConcurrentTasks agent - a_currentTasks agent)"

fun best_agent_loop ::
    "(AgentInfo \<Rightarrow> int) \<Rightarrow> AgentInfo list \<Rightarrow> AgentInfo \<Rightarrow> int \<Rightarrow> AgentInfo" where
  "best_agent_loop score [] bestAgent bestScore = bestAgent"
| "best_agent_loop score (agent # agents) bestAgent bestScore =
     (if score agent > bestScore then best_agent_loop score agents agent (score agent)
      else best_agent_loop score agents bestAgent bestScore)"

definition findBestAgent ::
    "TaskDefinition \<Rightarrow> AgentInfo list option \<Rightarrow> orch_sched \<Rightarrow> sched_error + string option" where
  "findBestAgent task agents s =
     (let availableAgents = (case agents of Some xs \<Rightarrow> xs
                             | None \<Rightarrow> listAgents None (Some A_idle) (os_agents s))
      in (case availableAgents of
            [] \<Rightarrow> Inr None
          | first # _ \<Rightarrow>
              (case requiredCapabilities task of
                 Inl e \<Rightarrow> Inl e
               | Inr required \<Rightarrow>
                   Inr (Some (a_id (best_agent_loop (agentScore task required) availableAgents first 0))))))"

subsection \<open>The scheduler's state is well formed\<close>

definition os_wf :: "orch_sched \<Rightarrow> bool" where
  "os_wf s \<longleftrightarrow> tq_wf (os_queue s) \<and> am_wf (os_agents s) \<and>
     jwf (os_assignments s) \<and> jwf (os_completions s) \<and>
     (\<forall>k asg. jget (os_assignments s) k = Some asg \<longrightarrow> ta_taskId asg = k)"

datatype os_op =
    OS_schedule int TaskDefinition
  | OS_cancel int string
  | OS_retry string
  | OS_next int
  | OS_assign int string string
  | OS_complete int string TaskResult

fun os_apply :: "os_op \<Rightarrow> orch_sched \<Rightarrow> orch_sched" where
  "os_apply (OS_schedule now d) s = fst (schedule_task now d s)"
| "os_apply (OS_cancel now k) s = fst (cancel now k s)"
| "os_apply (OS_retry k) s = fst (retry k s)"
| "os_apply (OS_next now) s = fst (getNextTask now s)"
| "os_apply (OS_assign now k a) s = fst (assignTask now k a s)"
| "os_apply (OS_complete now k r) s = fst (completeTask now k r s)"

fun os_ok :: "orch_sched \<Rightarrow> os_op \<Rightarrow> bool" where
  "os_ok s (OS_schedule now d) = (get_task (os_queue s) (td_id d) = None)"
| "os_ok s _ = True"

definition new_orch_sched :: orch_sched where
  "new_orch_sched = \<lparr>os_queue = new_task_queue, os_agents = new_agent_manager None,
     os_assignments = [], os_completions = []\<rparr>"

lemma os_wf_new [simp]: "os_wf new_orch_sched"
  by (simp add: os_wf_def new_orch_sched_def)

text \<open>Rewriting a stored task with the same definition keeps the queue well formed.\<close>

lemma tq_wf_rewrite:
  assumes "tq_wf q" and "get_task q k = Some t" and "t_definition t' = t_definition t"
  shows "tq_wf (update_task t' q)"
  using assms by (intro tq_wf_update) (auto simp: tq_wf_def tq_keyed_def)

lemma task_key_stored: "tq_wf q \<Longrightarrow> jget (tq_tasks q) k = Some t \<Longrightarrow> task_key t = k"
  by (simp add: tq_wf_def tq_keyed_def)

lemma os_wf_step: "os_ok s x \<Longrightarrow> os_wf s \<Longrightarrow> os_wf (os_apply x s)"
proof (cases x)
  case (OS_schedule now d)
  assume "os_ok s x" "os_wf s"
  with OS_schedule tq_wf_enqueue [of "os_queue s" d now] show ?thesis
    by (auto simp: os_wf_def schedule_task_def split: prod.splits)
next
  case (OS_next now)
  assume "os_wf s"
  with OS_next tq_wf_dequeue [of "os_queue s" now] show ?thesis
    by (auto simp: os_wf_def getNextTask_def split: prod.splits)
qed (auto simp: os_wf_def cancel_def retry_def assignTask_def completeTask_def Let_def
    intro!: tq_wf_rewrite wf_intros split: option.splits if_splits)

interpretation os_machine: guarded_machine os_ok os_apply os_wf
  by unfold_locales (rule os_wf_step)

subsection \<open>The life cycle of a task\<close>

inductive status_step :: "TaskStatus \<Rightarrow> TaskStatus \<Rightarrow> bool" where
  stay: "status_step st st"
| start: "status_step T_pending T_running"
| finish: "status_step T_running st"
| cancelled: "status_step st T_cancelled"
| retried: "status_step T_failed T_pending"

inductive_cases from_completed: "status_step T_completed st"
inductive_simps status_step_simps: "status_step st st'"

lemma get_update [simp]:
  "jget (tq_tasks (update_task t q)) k = (if k = task_key t then Some t else jget (tq_tasks q) k)"
  by (simp add: update_task_def)

lemma dequeue_task:
  assumes "jget (tq_tasks q) k = Some t"
  shows "\<exists>t'. jget (tq_tasks (fst (dequeue now q))) k = Some t' \<and> t_definition t' = t_definition t \<and>
    (t' = t \<or> t_status t = T_pending \<and> t_status t' = T_running)"
proof (cases rule: dequeue_cases [of q])
  case none
  with assms show ?thesis by (simp add: dequeue_None)
next
  case (some skipped j rest)
  with assms dequeue_Some [OF some, of now] show ?thesis by (auto simp: Let_def runnable_iff)
qed

text \<open>What one scheduler operation does to one stored task: the record is rewritten only by an
  operation that names it (or by the dequeue that serves it), along \<open>status_step\<close>.\<close>

lemma os_step_task:
  assumes "os_wf s" and "os_ok s x" and "get_task (os_queue s) k = Some t"
  shows "\<exists>t'. get_task (os_queue (os_apply x s)) k = Some t' \<and> t_definition t' = t_definition t \<and>
    status_step (t_status t) (t_status t') \<and>
    (t_status t = T_completed \<longrightarrow> (\<forall>now. x \<noteq> OS_cancel now k) \<longrightarrow> t' = t)"
proof -
  have q: "tq_wf (os_queue s)" and key: "task_key u = j" if "jget (tq_tasks (os_queue s)) j = Some u" for u j
    using assms(1) that by (auto simp: os_wf_def dest: task_key_stored)
  note t = assms(3) [unfolded get_task_def]
  show ?thesis
  proof (cases x)
    case (OS_schedule now d)
    with assms(2) t show ?thesis
      by (auto simp: schedule_task_def enqueue_def Let_def intro: stay)
  next
    case (OS_next now)
    with dequeue_task [OF t, of now] show ?thesis
      by (auto simp: getNextTask_def status_step_simps split: prod.splits)
  next
    case (OS_cancel now j)
    with t key show ?thesis
      by (cases "jget (tq_tasks (os_queue s)) j")
         (auto simp: cancel_def Let_def status_step_simps split: option.splits)
  next
    case (OS_retry j)
    with t key show ?thesis
      by (cases "jget (tq_tasks (os_queue s)) j")
         (auto simp: retry_def Let_def status_step_simps split: if_splits)
  next
    case (OS_assign now j a)
    with t key show ?thesis
      by (cases "jget (tq_tasks (os_queue s)) j")
         (auto simp: assignTask_def Let_def status_step_simps split: option.splits if_splits)
  next
    case (OS_complete now j r)
    with t key show ?thesis
      by (cases "jget (tq_tasks (os_queue s)) j")
         (auto simp: completeTask_def Let_def status_step_simps split: option.splits if_splits)
  qed
qed

lemma completed_run:
  assumes "os_wf s" and "legal_run os_ok os_apply s ops" and "get_task (os_queue s) k = Some t"
    and "t_status t = T_completed" and "\<forall>now. OS_cancel now k \<notin> set ops"
  shows "get_task (os_queue (fold os_apply ops s)) k = Some t"
  using assms
proof (induction ops arbitrary: s)
  case (Cons x ops)
  then have ok: "os_ok s x" and run: "legal_run os_ok os_apply (os_apply x s) ops" by auto
  have "\<forall>now. x \<noteq> OS_cancel now k" using Cons.prems(5) by auto
  with os_step_task [OF Cons.prems(1) ok Cons.prems(3)] Cons.prems(4)
  have "get_task (os_queue (os_apply x s)) k = Some t" by auto
  with Cons.IH [OF os_wf_step [OF ok Cons.prems(1)] run _ Cons.prems(4)] Cons.prems(5) show ?case
    by simp
qed simp

subsection \<open>The tasks of an agent after a completion\<close>

lemma running_after_complete:
  assumes "tq_wf q" and "get_task q k = Some t" and "t_definition t' = t_definition t"
    and "t_status t' \<noteq> T_running"
  shows "getAgentRunningTasks a (update_task t' q) =
         filter (\<lambda>u. task_key u \<noteq> k) (getAgentRunningTasks a q)"
proof -
  have k: "task_key t' = k" using assms by (simp add: task_key_stored)
  have wf: "jwf (tq_tasks q)" and key: "task_key u = j" if "(j, u) \<in> set (tq_tasks q)" for j u
    using assms(1) that jget_mem [of "tq_tasks q" j u]
    by (auto simp: tq_wf_def tq_keyed_def)
  let ?p = "\<lambda>u. t_status u = T_running \<and> t_assignedAgent u = Some a"
  have "getAgentRunningTasks a (update_task t' q) = filter ?p (jvals (jset (tq_tasks q) k t'))"
    by (simp add: getAgentRunningTasks_def list_tasks_def update_task_def k)
  also have "\<dots> = map snd (filter (\<lambda>(j, u). j \<noteq> k \<and> ?p u) (tq_tasks q))"
    using assms by (intro filter_jvals_jset) (auto simp: tq_wf_def tq_keyed_def)
  also have "\<dots> = map snd (filter (\<lambda>(j, u). task_key u \<noteq> k \<and> ?p u) (tq_tasks q))"
    using key by (intro arg_cong [where f = "map snd"] filter_cong) auto
  also have "\<dots> = filter (\<lambda>u. task_key u \<noteq> k) (getAgentRunningTasks a q)"
    by (simp add: getAgentRunningTasks_def list_tasks_def filter_map o_def case_prod_unfold conj_ac)
  finally show ?thesis .
qed

subsection \<open>Interleaved calls of \<open>assignTask\<close>\<close>

text \<open>
  \<open>assignTask\<close> awaits the queue and the registry, so another call can run between its turns. The
  program counter says what the call has awaited: the task (found or not), the agent (found or not),
  the update of the task, the update of the agent.
\<close>

datatype assign_pc =
    A_begin
  | A_haveTask bool
  | A_haveAgent bool
  | A_updated
  | A_marked
  | A_done "sched_error + TaskAssignment"

fun assign_turn ::
    "int \<Rightarrow> string \<Rightarrow> string \<Rightarrow> assign_pc \<Rightarrow> orch_sched \<Rightarrow> assign_pc \<times> orch_sched" where
  "assign_turn now taskId agentId A_begin s =
     (A_haveTask (case get_task (os_queue s) taskId of None \<Rightarrow> False | Some _ \<Rightarrow> True), s)"
| "assign_turn now taskId agentId (A_haveTask found) s =
     (case (found, get_task (os_queue s) taskId) of
        (True, Some task) \<Rightarrow>
          if t_status task \<noteq> T_running \<and> t_status task \<noteq> T_pending
          then (A_done (Inl (CannotAssign (t_status task))), s)
          else (A_haveAgent (case getAgent (os_agents s) agentId of None \<Rightarrow> False | Some _ \<Rightarrow> True), s)
      | _ \<Rightarrow> (A_done (Inl (TaskNotFound taskId)), s))"
| "assign_turn now taskId agentId (A_haveAgent found) s =
     (case (found, getAgent (os_agents s) agentId, get_task (os_queue s) taskId) of
        (True, Some agent, Some task) \<Rightarrow>
          if a_status agent \<noteq> A_idle \<and> a_status agent \<noteq> A_waiting
          then (A_done (Inl (AgentNotAvailable agentId (a_status agent))), s)
          else (A_updated, s\<lparr>os_queue := update_task
                 (task\<lparr>t_status := T_running, t_assignedAgent := Some agentId,
                    t_startedAt := (case t_startedAt task of Some t \<Rightarrow> Some t | None \<Rightarrow> Some now)\<rparr>)
                 (os_queue s)\<rparr>)
      | _ \<Rightarrow> (A_done (Inl (AgentNotFound agentId)), s))"
| "assign_turn now taskId agentId A_updated s =
     (A_marked, s\<lparr>os_agents := updateAgentStatus now agentId A_busy (os_agents s)\<rparr>)"
| "assign_turn now taskId agentId A_marked s =
     (let assignment = \<lparr>ta_taskId = taskId, ta_agentId = agentId, ta_assignedAt = now,
                        ta_reason = assign_reason\<rparr>
      in (A_done (Inr assignment),
          s\<lparr>os_assignments := jset (os_assignments s) taskId assignment\<rparr>))"
| "assign_turn now taskId agentId (A_done r) s = (A_done r, s)"

text \<open>Two calls, for the tasks \<open>k1\<close> and \<open>k2\<close> and the same agent: in every step one of them takes its
  next turn.\<close>

inductive two_assigns ::
    "int \<Rightarrow> string \<Rightarrow> string \<Rightarrow> string \<Rightarrow> assign_pc \<times> assign_pc \<times> orch_sched
     \<Rightarrow> assign_pc \<times> assign_pc \<times> orch_sched \<Rightarrow> bool"
  for now k1 k2 agentId where
  first: "assign_turn now k1 agentId p s = (p', s') \<Longrightarrow>
     two_assigns now k1 k2 agentId (p, p2, s) (p', p2, s')"
| second: "assign_turn now k2 agentId p2 s = (p2', s') \<Longrightarrow>
     two_assigns now k1 k2 agentId (p, p2, s) (p, p2', s')"

fun turns :: "nat \<Rightarrow> int \<Rightarrow> string \<Rightarrow> string \<Rightarrow> assign_pc \<times> orch_sched \<Rightarrow> assign_pc \<times> orch_sched" where
  "turns 0 now k a ps = ps"
| "turns (Suc n) now k a (p, s) = turns n now k a (assign_turn now k a p s)"

lemma assign_turns_refine:
  assumes "tq_wf (os_queue s)"
  shows "turns 5 now k a (A_begin, s) =
    (let (s', r) = assignTask now k a s in (A_done r, s'))"
  using assms
  by (auto simp: numeral_eq_Suc assignTask_def Let_def task_key_stored split: option.splits)

text \<open>The schedule in which the two calls take turns alternately.\<close>

fun alternate ::
    "nat \<Rightarrow> int \<Rightarrow> string \<Rightarrow> string \<Rightarrow> string \<Rightarrow> assign_pc \<times> assign_pc \<times> orch_sched
     \<Rightarrow> assign_pc \<times> assign_pc \<times> orch_sched" where
  "alternate 0 now k1 k2 a c = c"
| "alternate (Suc n) now k1 k2 a (p1, p2, s) =
     (case assign_turn now k1 a p1 s of (p1', s1) \<Rightarrow>
        (case assign_turn now k2 a p2 s1 of (p2', s2) \<Rightarrow> alternate n now k1 k2 a (p1', p2', s2)))"

lemma alternate_reachable: "(two_assigns now k1 k2 a)\<^sup>*\<^sup>* c (alternate n now k1 k2 a c)"
proof (induction n now k1 k2 a c rule: alternate.induct)
  case (2 n now k1 k2 a p1 p2 s)
  obtain p1' s1 p2' s2 where t: "assign_turn now k1 a p1 s = (p1', s1)"
      "assign_turn now k2 a p2 s1 = (p2', s2)" by force
  have "two_assigns now k1 k2 a (p1, p2, s) (p1', p2, s1)"
    and "two_assigns now k1 k2 a (p1', p2, s1) (p1', p2', s2)"
    using two_assigns.first [OF t(1)] two_assigns.second [OF t(2)] by blast+
  moreover have "(two_assigns now k1 k2 a)\<^sup>*\<^sup>* (p1', p2', s2) (alternate n now k1 k2 a (p1', p2', s2))"
    using 2 t by (metis (no_types))
  ultimately show ?case
    by (simp add: t)
qed simp

subsection \<open>Properties\<close>

text \<open>C4: Every scheduler operation keeps every stored task and its definition, and moves its status
  only along the life cycle: a pending task starts, a running task takes the status of its result,
  any task may be cancelled, and only a failed task becomes pending again.\<close>

theorem scheduler_life_cycle:
  assumes "os_wf s" and "os_ok s x" and "get_task (os_queue s) k = Some t"
  shows "\<exists>t'. get_task (os_queue (os_apply x s)) k = Some t' \<and> t_definition t' = t_definition t \<and>
    status_step (t_status t) (t_status t')"
  using os_step_task [OF assms] by blast

definition demo_result :: "string \<Rightarrow> string \<Rightarrow> TaskStatus \<Rightarrow> TaskResult" where
  "demo_result k a st = \<lparr>r_taskId = k, r_agentId = a, r_status = st, r_output = JUndef,
     r_error = None, r_duration = 5, r_tokenUsage = None\<rparr>"

text \<open>Two tasks and two agents; \<open>t1\<close> runs on agent \<open>a\<close>.\<close>

definition demo_sched :: orch_sched where
  "demo_sched = fold os_apply
     [OS_schedule 1 (demo_def ''t1'' P_high []), OS_schedule 2 (demo_def ''t2'' P_normal []),
      OS_next 3, OS_assign 4 ''t1'' ''a'']
     (new_orch_sched\<lparr>os_agents := \<lparr>am_agents = [(''a'', demo_agent ''a'' A_idle 0),
        (''b'', demo_agent ''b'' A_idle 0)], am_heartbeatTimeout = 60000\<rparr>\<rparr>)"

lemma demo_sched_wf: "os_wf demo_sched"
  unfolding demo_sched_def
proof (rule os_machine.inv_legal_run)
  show "os_wf (new_orch_sched\<lparr>os_agents := \<lparr>am_agents = [(''a'', demo_agent ''a'' A_idle 0),
        (''b'', demo_agent ''b'' A_idle 0)], am_heartbeatTimeout = 60000\<rparr>\<rparr>)"
    by (auto simp: os_wf_def new_orch_sched_def am_wf_def jwf_def demo_agent_def split: if_splits)
qed code_simp

theorem scheduler_life_cycle_witness:
  "status_step T_running (t_status (the (get_task (os_queue (os_apply
     (OS_complete 9 ''t1'' (demo_result ''t1'' ''a'' T_failed)) demo_sched)) ''t1'')))"
proof -
  have "case get_task (os_queue demo_sched) ''t1'' of None \<Rightarrow> False | Some t \<Rightarrow> t_status t = T_running"
    by code_simp
  then obtain t where "get_task (os_queue demo_sched) ''t1'' = Some t" "t_status t = T_running"
    by (auto split: option.splits)
  moreover have "os_ok demo_sched (OS_complete 9 ''t1'' (demo_result ''t1'' ''a'' T_failed))" by simp
  ultimately show ?thesis
    using scheduler_life_cycle [OF demo_sched_wf] by fastforce
qed

text \<open>C5: A completed task is final: over any legal history of scheduler operations that does not
  cancel it, its record, result included, stays exactly as it is.\<close>

theorem completed_task_final:
  assumes "os_wf s" and "legal_run os_ok os_apply s ops" and "get_task (os_queue s) k = Some t"
    and "t_status t = T_completed" and "\<forall>now. OS_cancel now k \<notin> set ops"
  shows "get_task (os_queue (fold os_apply ops s)) k = Some t"
  by (rule completed_run [OF assms])

definition demo_done :: orch_sched where
  "demo_done = os_apply (OS_complete 9 ''t1'' (demo_result ''t1'' ''a'' T_completed)) demo_sched"

theorem completed_task_final_witness:
  "t_status (the (get_task (os_queue (fold os_apply [OS_retry ''t1'', OS_next 10,
     OS_assign 11 ''t2'' ''a''] demo_done)) ''t1'')) = T_completed"
proof -
  let ?ops = "[OS_retry ''t1'', OS_next 10, OS_assign 11 ''t2'' ''a'']"
  have wf: "os_wf demo_done"
    unfolding demo_done_def by (rule os_wf_step [OF _ demo_sched_wf]) simp
  have "case get_task (os_queue demo_done) ''t1'' of None \<Rightarrow> False | Some t \<Rightarrow> t_status t = T_completed"
    by code_simp
  then obtain t where t: "get_task (os_queue demo_done) ''t1'' = Some t" "t_status t = T_completed"
    by (auto split: option.splits)
  have "legal_run os_ok os_apply demo_done ?ops" by simp
  from completed_task_final [OF wf this t] t(2) show ?thesis by simp
qed

text \<open>C6: \<open>assignTask\<close> succeeds exactly when the task is pending or running and the agent exists and
  is idle or waiting. It then makes the task running and assigned to the agent (a start time once set
  stays), the agent busy, and records the assignment; other tasks and agents are untouched. When it
  throws, nothing has changed.\<close>

theorem assignTask_contract:
  assumes "os_wf s" and "assignTask now k a s = (s', r)"
  shows "((\<exists>asg. r = Inr asg) \<longleftrightarrow>
       (\<exists>t. get_task (os_queue s) k = Some t \<and> t_status t \<in> {T_pending, T_running}) \<and>
       (\<exists>ag. getAgent (os_agents s) a = Some ag \<and> a_status ag \<in> {A_idle, A_waiting})) \<and>
    (\<forall>e. r = Inl e \<longrightarrow> s' = s) \<and>
    (\<forall>asg. r = Inr asg \<longrightarrow>
       ta_agentId asg = a \<and> getAssignment s' k = Some asg \<and>
       (\<exists>t t'. get_task (os_queue s) k = Some t \<and> get_task (os_queue s') k = Some t' \<and>
          t_status t' = T_running \<and> t_assignedAgent t' = Some a \<and>
          t_startedAt t' = (if t_startedAt t = None then Some now else t_startedAt t)) \<and>
       (\<exists>ag. getAgent (os_agents s') a = Some ag \<and> a_status ag = A_busy) \<and>
       (\<forall>j. j \<noteq> k \<longrightarrow> get_task (os_queue s') j = get_task (os_queue s) j) \<and>
       (\<forall>b. b \<noteq> a \<longrightarrow> getAgent (os_agents s') b = getAgent (os_agents s) b))"
proof (cases "get_task (os_queue s) k")
  case None
  with assms(2) show ?thesis by (auto simp: assignTask_def)
next
  case (Some t)
  have key: "task_key t = k"
    using Some assms(1) task_key_stored [of "os_queue s" k t] by (simp add: os_wf_def)
  show ?thesis
  proof (cases "getAgent (os_agents s) a")
    case None
    with Some assms(2) show ?thesis by (auto simp: assignTask_def split: if_splits)
  next
    case agent: (Some ag)
    with Some assms(2) key show ?thesis
      by (auto simp: assignTask_def Let_def getAssignment_def split: if_splits option.splits)
  qed
qed

theorem assignTask_contract_witness:
  "\<exists>asg. snd (assignTask 7 ''t2'' ''b'' demo_sched) = Inr asg \<and> ta_agentId asg = ''b''"
proof -
  obtain s' r where r: "assignTask 7 ''t2'' ''b'' demo_sched = (s', r)" by force
  have "case get_task (os_queue demo_sched) ''t2'' of None \<Rightarrow> False | Some t \<Rightarrow> t_status t = T_pending"
    and "case getAgent (os_agents demo_sched) ''b'' of None \<Rightarrow> False | Some g \<Rightarrow> a_status g = A_idle"
    by code_simp+
  with assignTask_contract [OF demo_sched_wf r] r show ?thesis
    by (auto split: option.splits)
qed

text \<open>Completing a task sets its agent idle when at most one other task of the agent is still
  running, although the completed task is already out of the running ones: an agent that still runs
  one task is reported idle (and can be assigned to again).\<close>

lemma completeTask_idles_agent:
  assumes "os_wf s" and "get_task (os_queue s) k = Some t" and "t_status t = T_running"
    and "getAssignment s k = Some asg" and "getAgent (os_agents s) (ta_agentId asg) = Some ag"
    and "r_status r \<noteq> T_running"
    and "others = filter (\<lambda>u. task_key u \<noteq> k) (getAgentRunningTasks (ta_agentId asg) (os_queue s))"
  shows "getAgent (os_agents (fst (completeTask now k r s))) (ta_agentId asg) =
           Some (if length others \<le> 1 then ag\<lparr>a_status := A_idle, a_lastHeartbeat := now\<rparr> else ag) \<and>
         getAgentRunningTasks (ta_agentId asg) (os_queue (fst (completeTask now k r s))) = others"
proof -
  let ?t = "t\<lparr>t_status := r_status r, t_result := Some r, t_completedAt := Some now\<rparr>"
  have q: "tq_wf (os_queue s)" using assms(1) by (simp add: os_wf_def)
  have run: "getAgentRunningTasks (ta_agentId asg) (update_task ?t (os_queue s)) = others"
    using running_after_complete [OF q assms(2), of ?t] assms(6,7) by simp
  show ?thesis
    using assms(2-5) run
    by (simp add: completeTask_def Let_def getAssignment_def)
qed

text \<open>Agent \<open>a\<close> runs \<open>t1\<close>, reports itself waiting, takes \<open>t2\<close>; after \<open>t1\<close> completes it is idle while
  \<open>t2\<close> still runs on it.\<close>

definition demo_two :: orch_sched where
  "demo_two = os_apply (OS_assign 8 ''t2'' ''a'')
     (demo_sched\<lparr>os_agents := updateAgentStatus 7 ''a'' A_waiting (os_agents demo_sched)\<rparr>)"

lemma demo_two_wf: "os_wf demo_two"
  unfolding demo_two_def using demo_sched_wf
  by (intro os_wf_step) (simp_all add: os_wf_def am_wf_updateAgentStatus)

theorem completeTask_idles_agent_witness:
  "map_option a_status (getAgent (os_agents (fst (completeTask 9 ''t1''
     (demo_result ''t1'' ''a'' T_completed) demo_two))) ''a'') = Some A_idle \<and>
   map task_key (getAgentRunningTasks ''a'' (os_queue (fst (completeTask 9 ''t1''
     (demo_result ''t1'' ''a'' T_completed) demo_two)))) = [''t2'']"
proof -
  have "case get_task (os_queue demo_two) ''t1'' of None \<Rightarrow> False | Some t \<Rightarrow> t_status t = T_running"
    and "case getAssignment demo_two ''t1'' of None \<Rightarrow> False | Some g \<Rightarrow> ta_agentId g = ''a''"
    and "case getAgent (os_agents demo_two) ''a'' of None \<Rightarrow> False | Some g \<Rightarrow> True"
    by code_simp+
  then obtain t asg ag where h: "get_task (os_queue demo_two) ''t1'' = Some t" "t_status t = T_running"
      "getAssignment demo_two ''t1'' = Some asg" "ta_agentId asg = ''a''"
      "getAgent (os_agents demo_two) (ta_agentId asg) = Some ag"
    by (auto split: option.splits)
  have r: "r_status (demo_result ''t1'' ''a'' T_completed) \<noteq> T_running" by (simp add: demo_result_def)
  have others: "map task_key (filter (\<lambda>u. task_key u \<noteq> ''t1'')
      (getAgentRunningTasks ''a'' (os_queue demo_two))) = [''t2'']" by code_simp
  then have "length (filter (\<lambda>u. task_key u \<noteq> ''t1'')
      (getAgentRunningTasks ''a'' (os_queue demo_two))) \<le> 1"
    by (metis length_map length_Cons list.size(3) One_nat_def order_refl)
  with completeTask_idles_agent [OF demo_two_wf h(1-3,5) r refl, of 9] h(4) others show ?thesis
    by simp
qed

text \<open>Retrying a failed task makes it pending again with one more retry counted, but leaves the
  queue as it is; when the task is not queued (it left the queue when it was served), no later history
  of queue operations that does not enqueue its id serves it again.\<close>

lemma retry_not_requeued:
  assumes "os_wf s" and "get_task (os_queue s) k = Some t" and "t_status t = T_failed"
    and "k \<notin> set (tq_queue (os_queue s))"
    and "\<forall>now d. TQ_enqueue now d \<in> set ops \<longrightarrow> td_id d \<noteq> k"
    and "retry k s = (s', r)"
  shows "r = Inr () \<and>
         get_task (os_queue s') k = Some (t\<lparr>t_status := T_pending, t_retryCount := t_retryCount t + 1,
            t_startedAt := None, t_completedAt := None, t_result := None\<rparr>) \<and>
         tq_queue (os_queue s') = tq_queue (os_queue s) \<and>
         k \<notin> set (tq_queue (fold tq_apply ops (os_queue s')))"
proof -
  have "task_key t = k"
    using assms(1,2) task_key_stored [of "os_queue s" k t] by (simp add: os_wf_def)
  moreover have "tq_queue (os_queue s') = tq_queue (os_queue s)"
    using assms(2,3,6) by (auto simp: retry_def Let_def update_task_def)
  ultimately show ?thesis
    using assms(2,3,6) not_queued_run [OF _ assms(5), of "os_queue s'"] assms(4)
    by (auto simp: retry_def Let_def)
qed

definition demo_failed :: orch_sched where
  "demo_failed = os_apply (OS_complete 9 ''t1'' (demo_result ''t1'' ''a'' T_failed)) demo_sched"

theorem retry_not_requeued_witness:
  "''t1'' \<notin> set (tq_queue (fold tq_apply [TQ_dequeue 10, TQ_dequeue 11]
     (os_queue (fst (retry ''t1'' demo_failed)))))"
proof -
  have wf: "os_wf demo_failed"
    unfolding demo_failed_def by (rule os_wf_step [OF _ demo_sched_wf]) simp
  have "case get_task (os_queue demo_failed) ''t1'' of None \<Rightarrow> False | Some t \<Rightarrow> t_status t = T_failed"
    by code_simp
  then obtain t where t: "get_task (os_queue demo_failed) ''t1'' = Some t" "t_status t = T_failed"
    by (auto split: option.splits)
  have q: "''t1'' \<notin> set (tq_queue (os_queue demo_failed))" by code_simp
  obtain s' r where r: "retry ''t1'' demo_failed = (s', r)" by force
  from retry_not_requeued [OF wf t q _ r, of "[TQ_dequeue 10, TQ_dequeue 11]"] r
  show ?thesis by simp
qed

text \<open>C7: Run alone, the five turns of a call of \<open>assignTask\<close> amount to the one-step definition. Two
  calls that take their turns alternately can both succeed on the same idle agent, which then runs two
  tasks, while the second of two consecutive calls is refused.\<close>

theorem assignTask_race:
  assumes "os_wf s" and "k1 \<noteq> k2"
    and "get_task (os_queue s) k1 = Some t1" and "t_status t1 = T_pending"
    and "get_task (os_queue s) k2 = Some t2" and "t_status t2 = T_pending"
    and "getAgent (os_agents s) a = Some ag" and "a_status ag = A_idle"
  shows "turns 5 now k1 a (A_begin, s) =
           (let (s', r) = assignTask now k1 a s in (A_done r, s')) \<and>
    snd (assignTask now k2 a (fst (assignTask now k1 a s))) = Inl (AgentNotAvailable a A_busy) \<and>
    (\<exists>s' g1 g2 u1 u2. (two_assigns now k1 k2 a)\<^sup>*\<^sup>* (A_begin, A_begin, s) (A_done (Inr g1), A_done (Inr g2), s') \<and>
       get_task (os_queue s') k1 = Some u1 \<and> t_status u1 = T_running \<and> t_assignedAgent u1 = Some a \<and>
       get_task (os_queue s') k2 = Some u2 \<and> t_status u2 = T_running \<and> t_assignedAgent u2 = Some a)"
proof -
  have q: "tq_wf (os_queue s)" using assms(1) by (simp add: os_wf_def)
  have key: "task_key t1 = k1" "task_key t2 = k2" using assms q task_key_stored by auto
  have seq: "snd (assignTask now k2 a (fst (assignTask now k1 a s))) = Inl (AgentNotAvailable a A_busy)"
    using assms key by (simp add: assignTask_def Let_def)
  obtain p1 p2 s' where alt: "alternate 5 now k1 k2 a (A_begin, A_begin, s) = (p1, p2, s')"
    using prod_cases3 by blast
  then have both: "(\<exists>g1. p1 = A_done (Inr g1)) \<and> (\<exists>g2. p2 = A_done (Inr g2)) \<and>
      (\<exists>u1. get_task (os_queue s') k1 = Some u1 \<and> t_status u1 = T_running \<and> t_assignedAgent u1 = Some a) \<and>
      (\<exists>u2. get_task (os_queue s') k2 = Some u2 \<and> t_status u2 = T_running \<and> t_assignedAgent u2 = Some a)"
    using assms key by (auto simp: numeral_eq_Suc Let_def)
  then obtain g1 g2 where g: "p1 = A_done (Inr g1)" "p2 = A_done (Inr g2)" by blast
  have "(two_assigns now k1 k2 a)\<^sup>*\<^sup>* (A_begin, A_begin, s) (A_done (Inr g1), A_done (Inr g2), s')"
    using alternate_reachable [of now k1 k2 a "(A_begin, A_begin, s)" 5] unfolding alt g .
  with both assign_turns_refine [OF q, of now k1 a] seq show ?thesis by fastforce
qed

definition demo_pair :: task_queue where
  "demo_pair = fold tq_apply [TQ_enqueue 1 (demo_def ''x'' P_high []),
     TQ_enqueue 2 (demo_def ''y'' P_high [])] new_task_queue"

definition demo_idle :: orch_sched where
  "demo_idle = demo_sched\<lparr>os_queue := demo_pair\<rparr>"

theorem assignTask_race_witness:
  "\<exists>(s' :: orch_sched) u1 u2. get_task (os_queue s') ''x'' = Some u1 \<and> t_assignedAgent u1 = Some ''b'' \<and>
     get_task (os_queue s') ''y'' = Some u2 \<and> t_assignedAgent u2 = Some ''b''"
proof -
  have "tq_wf demo_pair"
    unfolding demo_pair_def by (rule tq_machine.inv_legal_run [OF _ tq_wf_new]) code_simp
  with demo_sched_wf have wf: "os_wf demo_idle" by (simp add: os_wf_def demo_idle_def)
  have "case get_task (os_queue demo_idle) ''x'' of None \<Rightarrow> False | Some t \<Rightarrow> t_status t = T_pending"
    and "case get_task (os_queue demo_idle) ''y'' of None \<Rightarrow> False | Some t \<Rightarrow> t_status t = T_pending"
    and "case getAgent (os_agents demo_idle) ''b'' of None \<Rightarrow> False | Some g \<Rightarrow> a_status g = A_idle"
    by code_simp+
  then obtain t1 t2 ag where h: "get_task (os_queue demo_idle) ''x'' = Some t1" "t_status t1 = T_pending"
      "get_task (os_queue demo_idle) ''y'' = Some t2" "t_status t2 = T_pending"
      "getAgent (os_agents demo_idle) ''b'' = Some ag" "a_status ag = A_idle"
    by (auto split: option.splits)
  have "''x'' \<noteq> ''y''" by simp
  from assignTask_race [OF wf this h, of 5] show ?thesis by blast
qed

lemma best_agent_loop_best:
  "(best_agent_loop score agents best bs = best \<and> (\<forall>a\<in>set agents. score a \<le> bs)) \<or>
   (best_agent_loop score agents best bs \<in> set agents \<and>
    bs < score (best_agent_loop score agents best bs) \<and>
    (\<forall>a\<in>set agents. score a \<le> score (best_agent_loop score agents best bs)))"
proof (induction agents arbitrary: best bs)
  case (Cons a agents)
  show ?case using Cons.IH [of a "score a"] Cons.IH [of best bs]
    by (cases "score a > bs") (simp, fastforce, simp, fastforce)
qed simp

text \<open>From a non-empty list of candidates \<open>findBestAgent\<close> picks a member: one of the highest score
  (required role, preferred agent, matching capabilities and free capacity) when some score is
  positive, and the first candidate when none is.\<close>

lemma findBestAgent_optimal:
  assumes "requiredCapabilities task = Inr required" and "agents \<noteq> []"
  shows "\<exists>best\<in>set agents. findBestAgent task (Some agents) s = Inr (Some (a_id best)) \<and>
    (if \<forall>a\<in>set agents. agentScore task required a \<le> 0 then best = hd agents
     else \<forall>a\<in>set agents. agentScore task required a \<le> agentScore task required best)"
proof -
  obtain first rest where agents: "agents = first # rest" using assms(2) by (cases agents) auto
  let ?best = "best_agent_loop (agentScore task required) agents first 0"
  have "findBestAgent task (Some agents) s = Inr (Some (a_id ?best))"
    using assms(1) by (simp add: findBestAgent_def agents)
  moreover have "first \<in> set agents" "hd agents = first" by (simp_all add: agents)
  moreover have "?best = first \<and> (\<forall>a\<in>set agents. agentScore task required a \<le> 0) \<or>
      ?best \<in> set agents \<and> \<not> (\<forall>a\<in>set agents. agentScore task required a \<le> 0) \<and>
      (\<forall>a\<in>set agents. agentScore task required a \<le> agentScore task required ?best)"
    using best_agent_loop_best [of "agentScore task required" agents first 0] by (meson not_less)
  ultimately show ?thesis by metis
qed

theorem findBestAgent_optimal_witness:
  "findBestAgent ((demo_def ''t'' P_low [])\<lparr>td_agentId := Some ''b''\<rparr>)
     (Some [demo_agent ''a'' A_idle 0, demo_agent ''b'' A_idle 0]) new_orch_sched = Inr (Some ''b'')"
proof -
  let ?t = "(demo_def ''t'' P_low [])\<lparr>td_agentId := Some ''b''\<rparr>"
  let ?as = "[demo_agent ''a'' A_idle 0, demo_agent ''b'' A_idle 0]"
  have "requiredCapabilities ?t = Inr []" by (simp add: requiredCapabilities_def demo_def_def)
  from findBestAgent_optimal [OF this, of ?as new_orch_sched]
  show ?thesis by (auto simp: agentScore_def demo_def_def demo_agent_def split: if_splits)
qed

end
