(* ===== verification/TeamManager.thy ===== *)
theory TeamManager
  imports OrchTypes
begin

text \<open>
  The orchestrator's team registry (\<open>src/src/orchestrator/team-manager.ts\<close>, class
  \<open>TeamManager\<close>): a map from team ids to team records. A method that throws returns \<open>Inl\<close>
  the error and the unchanged state. The collaboration teams with roles and votes are in \<open>Team\<close>.
\<close>

record team_manager =
  tg_teams :: "(string, TeamInfo) jsmap"

datatype team_error =
    TeamNotFound string
  | NotATeamMember string string

definition new_team_manager :: team_manager where
  "new_team_manager = \<lparr>tg_teams = []\<rparr>"

definition generateTeamId :: "int \<Rightarrow> string \<Rightarrow> string" where
  "generateTeamId now rnd = gen_id ''team'' now rnd"

definition tg_createTeam ::
    "int \<Rightarrow> string \<Rightarrow> string \<Rightarrow> CollaborationMode \<Rightarrow> team_manager \<Rightarrow> team_manager \<times> TeamInfo" where
  "tg_createTeam now rnd name mode s =
     (let teamId = generateTeamId now rnd;
          team = \<lparr>tm_id = teamId, tm_name = name, tm_mode = mode, tm_leaderId = None,
                  tm_members = [], tm_createdAt = now, tm_metadata = None\<rparr>
      in (s\<lparr>tg_teams := jset (tg_teams s) teamId team\<rparr>, team))"

definition tg_deleteTeam :: "string \<Rightarrow> team_manager \<Rightarrow> team_manager" where
  "tg_deleteTeam teamId s = s\<lparr>tg_teams := jdel (tg_teams s) teamId\<rparr>"

definition tg_getTeam :: "team_manager \<Rightarrow> string \<Rightarrow> TeamInfo option" where
  "tg_getTeam s teamId = jget (tg_teams s) teamId"

definition tg_listTeams :: "team_manager \<Rightarrow> TeamInfo list" where
  "tg_listTeams s = jvals (tg_teams s)"

definition tg_addMember ::
    "string \<Rightarrow> string \<Rightarrow> team_manager \<Rightarrow> team_manager \<times> (team_error + unit)" where
  "tg_addMember teamId agentId s =
     (case jget (tg_teams s) teamId of
        None \<Rightarrow> (s, Inl (TeamNotFound teamId))
      | Some team \<Rightarrow>
          if agentId \<in> set (tm_members team) then (s, Inr ())
          else (s\<lparr>tg_teams := jset (tg_teams s) teamId
                     (team\<lparr>tm_members := tm_members team @ [agentId]\<rparr>)\<rparr>, Inr ()))"

definition tg_removeMember ::
    "string \<Rightarrow> string \<Rightarrow> team_manager \<Rightarrow> team_manager \<times> (team_error + unit)" where
  "tg_removeMember teamId agentId s =
     (case jget (tg_teams s) teamId of
        None \<Rightarrow> (s, Inl (TeamNotFound teamId))
      | Some team \<Rightarrow>
          (let team = team\<lparr>tm_members := remove_first agentId (tm_members team)\<rparr>;
               team = (if tm_leaderId team = Some agentId then team\<lparr>tm_leaderId := None\<rparr> else team)
           in (s\<lparr>tg_teams := jset (tg_teams s) teamId team\<rparr>, Inr ())))"

definition tg_setLeader ::
    "string \<Rightarrow> string \<Rightarrow> team_manager \<Rightarrow> team_manager \<times> (team_error + unit)" where
  "tg_setLeader teamId agentId s =
     (case jget (tg_teams s) teamId of
        None \<Rightarrow> (s, Inl (TeamNotFound teamId))
      | Some team \<Rightarrow>
          if agentId \<notin> set (tm_members team) then (s, Inl (NotATeamMember agentId teamId))
          else (s\<lparr>tg_teams := jset (tg_teams s) teamId (team\<lparr>tm_leaderId := Some agentId\<rparr>)\<rparr>, Inr ()))"

definition getTeamMembers :: "team_manager \<Rightarrow> string \<Rightarrow> string list" where
  "getTeamMembers s teamId = (case jget (tg_teams s) teamId of Some t \<Rightarrow> tm_members t | None \<Rightarrow> [])"

definition getTeamLeader :: "team_manager \<Rightarrow> string \<Rightarrow> string option" where
  "getTeamLeader s teamId = (case jget (tg_teams s) teamId of Some t \<Rightarrow> tm_leaderId t | None \<Rightarrow> None)"

definition isMember :: "team_manager \<Rightarrow> string \<Rightarrow> string \<Rightarrow> bool" where
  "isMember s teamId agentId =
     (case jget (tg_teams s) teamId of Some t \<Rightarrow> agentId \<in> set (tm_members t) | None \<Rightarrow> False)"

definition getTeamsByAgent :: "team_manager \<Rightarrow> string \<Rightarrow> TeamInfo list" where
  "getTeamsByAgent s agentId = filter (\<lambda>t. agentId \<in> set (tm_members t)) (jvals (tg_teams s))"

definition tg_broadcast :: "team_manager \<Rightarrow> string \<Rightarrow> team_error + unit" where
  "tg_broadcast s teamId =
     (case jget (tg_teams s) teamId of None \<Rightarrow> Inl (TeamNotFound teamId) | Some _ \<Rightarrow> Inr ())"

subsection \<open>Well-formedness: members once each, a leader who is a member\<close>

definition team_ok :: "string \<Rightarrow> TeamInfo \<Rightarrow> bool" where
  "team_ok k t \<longleftrightarrow> tm_id t = k \<and> distinct (tm_members t) \<and>
     (\<forall>a. tm_leaderId t = Some a \<longrightarrow> a \<in> set (tm_members t))"

definition tg_wf :: "team_manager \<Rightarrow> bool" where
  "tg_wf s \<longleftrightarrow> jwf (tg_teams s) \<and> (\<forall>k t. jget (tg_teams s) k = Some t \<longrightarrow> team_ok k t)"

datatype tg_op =
    TG_create int string string CollaborationMode
  | TG_delete string
  | TG_add string string
  | TG_remove string string
  | TG_setLeader string string

fun tg_apply :: "tg_op \<Rightarrow> team_manager \<Rightarrow> team_manager" where
  "tg_apply (TG_create now rnd name mode) s = fst (tg_createTeam now rnd name mode s)"
| "tg_apply (TG_delete k) s = tg_deleteTeam k s"
| "tg_apply (TG_add k a) s = fst (tg_addMember k a s)"
| "tg_apply (TG_remove k a) s = fst (tg_removeMember k a s)"
| "tg_apply (TG_setLeader k a) s = fst (tg_setLeader k a s)"

lemma tg_wf_new [simp]: "tg_wf new_team_manager"
  by (simp add: tg_wf_def new_team_manager_def)

lemma tg_wf_step: "tg_wf s \<Longrightarrow> tg_wf (tg_apply x s)"
  by (cases x)
     (auto simp: tg_wf_def team_ok_def tg_createTeam_def tg_deleteTeam_def tg_addMember_def
        tg_removeMember_def remove_first_remove1 tg_setLeader_def Let_def
        split: option.splits if_splits)

interpretation tg_machine: op_machine tg_apply tg_wf
  by unfold_locales (rule tg_wf_step)

definition tg_put :: "string \<Rightarrow> TeamInfo \<Rightarrow> team_manager \<Rightarrow> team_manager" where
  "tg_put k t s = s\<lparr>tg_teams := jset (tg_teams s) k t\<rparr>"

definition tg_keyed :: "team_manager \<Rightarrow> bool" where
  "tg_keyed s \<longleftrightarrow> jwf (tg_teams s) \<and> (\<forall>k t. jget (tg_teams s) k = Some t \<longrightarrow> tm_id t = k)"

interpretation tg_store: entity_store tg_getTeam tg_put tg_deleteTeam tg_listTeams tg_keyed tm_id
  by unfold_locales
     (auto simp: tg_getTeam_def tg_put_def tg_deleteTeam_def tg_listTeams_def tg_keyed_def jvals_mem
       simp del: set_map split: if_splits)

lemma tg_keyed_wf: "tg_wf s \<Longrightarrow> tg_keyed s"
  by (auto simp: tg_wf_def tg_keyed_def team_ok_def)

text \<open>Over any sequence of team operations every team lists its members once each and its leader,
  when it has one, is among them; the teams of an agent are exactly the listed teams it is a member of.\<close>

lemma team_registry_consistent:
  "let s = fold tg_apply ops new_team_manager in
   (\<forall>k t. tg_getTeam s k = Some t \<longrightarrow> team_ok k t) \<and>
   (t \<in> set (getTeamsByAgent s a) \<longleftrightarrow> tg_getTeam s (tm_id t) = Some t \<and> isMember s (tm_id t) a)"
proof -
  let ?s = "fold tg_apply ops new_team_manager"
  have wf: "tg_wf ?s" by (rule tg_machine.inv_run) simp
  then have "\<forall>k t. tg_getTeam ?s k = Some t \<longrightarrow> team_ok k t"
    by (simp add: tg_wf_def tg_getTeam_def)
  moreover have "t \<in> set (getTeamsByAgent ?s a) \<longleftrightarrow>
      tg_getTeam ?s (tm_id t) = Some t \<and> isMember ?s (tm_id t) a"
    using tg_store.entries_lookup [OF tg_keyed_wf [OF wf], of t]
    by (auto simp: getTeamsByAgent_def isMember_def tg_listTeams_def tg_getTeam_def split: option.splits)
  ultimately show ?thesis by (simp add: Let_def)
qed

end
