(* ===== verification/StateStore.thy ===== *)
theory StateStore
  imports Prelude "HOL-Library.List_Lexorder" "HOL-Library.Char_ord"
begin

text \<open>
  The persistent key-value store (\<open>src/src/persistence/state-store.ts\<close>, class
  \<open>FileStateStore\<close>): an in-memory cache whose keys are composed of scope, scope id and key, and
  JSON files under a base directory. A path is the list of its components below \<open>basePath\<close> (scope
  ids name files, so they hold no path separator); a file holds a parsed \<open>StoreFile\<close>, or \<open>None\<close>
  when its text does not parse. The model has encryption off. An empty scope id counts as missing where
  the code tests it for truth.
\<close>

datatype PersistenceScope = Sc_global | Sc_agent | Sc_session | Sc_workflow

fun scope_name :: "PersistenceScope \<Rightarrow> string" where
  "scope_name Sc_global = ''global''"
| "scope_name Sc_agent = ''agent''"
| "scope_name Sc_session = ''session''"
| "scope_name Sc_workflow = ''workflow''"

record StateSnapshot =
  sn_id :: string
  sn_scope :: PersistenceScope
  sn_scopeId :: string
  sn_timestamp :: int
  sn_version :: string
  sn_data :: js_record
  sn_checksum :: string

record StoreEntry =
  e_key :: string
  e_scope :: PersistenceScope
  e_scopeId :: string
  e_value :: jsval
  e_updatedAt :: int
  e_expiresAt :: "int option"
  e_metadata :: "js_record option"

record StoreFile =
  sf_version :: string
  sf_entries :: "StoreEntry list"
  sf_updatedAt :: int

type_synonym path = "string list"

record state_store =
  ss_cache :: "(string, StoreEntry) jsmap"
  ss_dirty :: bool
  ss_autoSave :: bool
  ss_files :: "(path, StoreFile option) jsmap"

definition json_suffix :: string where
  "json_suffix = ''.json''"

definition getStorePath :: "PersistenceScope option \<Rightarrow> string option \<Rightarrow> path" where
  "getStorePath scope scopeId =
     (case scope of
        None \<Rightarrow> [''global'' @ json_suffix]
      | Some sc \<Rightarrow>
          (case scopeId of
             None \<Rightarrow> [scope_name sc @ json_suffix]
           | Some i \<Rightarrow> if i = [] then [scope_name sc @ json_suffix]
                       else [scope_name sc, i @ json_suffix]))"

definition getCacheKey :: "string \<Rightarrow> PersistenceScope option \<Rightarrow> string option \<Rightarrow> string" where
  "getCacheKey key scope scopeId =
     scope_name (case scope of Some sc \<Rightarrow> sc | None \<Rightarrow> Sc_global) @ '':'' @
     (case scopeId of Some i \<Rightarrow> i | None \<Rightarrow> []) @ '':'' @ key"

definition entry_key :: "StoreEntry \<Rightarrow> string" where
  "entry_key e = getCacheKey (e_key e) (Some (e_scope e)) (Some (e_scopeId e))"

definition expired :: "int \<Rightarrow> StoreEntry \<Rightarrow> bool" where
  "expired now e = (case e_expiresAt e of None \<Rightarrow> False | Some x \<Rightarrow> x \<noteq> 0 \<and> x < now)"

subsection \<open>Loading and saving\<close>

fun load_entries :: "int \<Rightarrow> StoreEntry list \<Rightarrow> (string, StoreEntry) jsmap \<Rightarrow> (string, StoreEntry) jsmap" where
  "load_entries now [] cache = cache"
| "load_entries now (e # es) cache =
     (if expired now e then load_entries now es cache
      else load_entries now es (jset cache (entry_key e) e))"

definition loadFile :: "int \<Rightarrow> path \<Rightarrow> state_store \<Rightarrow> state_store" where
  "loadFile now p s =
     (case jget (ss_files s) p of
        Some (Some file) \<Rightarrow> s\<lparr>ss_cache := load_entries now (sf_entries file) (ss_cache s)\<rparr>
      | _ \<Rightarrow> s)"

definition ends_with :: "string \<Rightarrow> string \<Rightarrow> bool" where
  "ends_with suffix s \<longleftrightarrow> length suffix \<le> length s \<and> drop (length s - length suffix) s = suffix"

text \<open>\<open>readdirSync(scopePath).filter(f => f.endsWith(".json"))\<close> as full paths.\<close>

definition scope_files :: "PersistenceScope \<Rightarrow> state_store \<Rightarrow> path list" where
  "scope_files sc s =
     filter (\<lambda>p. case p of [d, f] \<Rightarrow> d = scope_name sc \<and> ends_with json_suffix f | _ \<Rightarrow> False)
       (jkeys (ss_files s))"

definition loadStore :: "int \<Rightarrow> state_store \<Rightarrow> state_store" where
  "loadStore now s =
     fold (\<lambda>sc s. fold (loadFile now) (scope_files sc s) s)
       [Sc_agent, Sc_session, Sc_workflow, Sc_global] (loadFile now (getStorePath None None) s)"

definition open_store :: "bool \<Rightarrow> int \<Rightarrow> (path, StoreFile option) jsmap \<Rightarrow> state_store" where
  "open_store autoSave now files =
     loadStore now \<lparr>ss_cache = [], ss_dirty = False, ss_autoSave = autoSave, ss_files = files\<rparr>"

text \<open>The filter \<open>scope && entry.scope !== scope\<close>, \<open>scopeId && entry.scopeId !== scopeId\<close>.\<close>

definition in_scope :: "PersistenceScope option \<Rightarrow> string option \<Rightarrow> StoreEntry \<Rightarrow> bool" where
  "in_scope scope scopeId e \<longleftrightarrow>
     (case scope of None \<Rightarrow> True | Some sc \<Rightarrow> e_scope e = sc) \<and>
     (case scopeId of None \<Rightarrow> True | Some i \<Rightarrow> i = [] \<or> e_scopeId e = i)"

definition saveStore ::
    "int \<Rightarrow> PersistenceScope option \<Rightarrow> string option \<Rightarrow> state_store \<Rightarrow> state_store" where
  "saveStore now scope scopeId s =
     (if \<not> ss_autoSave s then s\<lparr>ss_dirty := True\<rparr>
      else (let cache = jdrop (\<lambda>_ e. in_scope scope scopeId e \<and> expired now e) (ss_cache s);
                entries = filter (in_scope scope scopeId) (jvals cache);
                file = \<lparr>sf_version = ''1.0.0'', sf_entries = entries, sf_updatedAt = now\<rparr>
            in s\<lparr>ss_cache := cache, ss_files := jset (ss_files s) (getStorePath scope scopeId) (Some file)\<rparr>))"

subsection \<open>Operations\<close>

definition ss_get ::
    "int \<Rightarrow> string \<Rightarrow> PersistenceScope option \<Rightarrow> string option \<Rightarrow> state_store \<Rightarrow> state_store \<times> jsval" where
  "ss_get now key scope scopeId s =
     (case jget (ss_cache s) (getCacheKey key scope scopeId) of
        None \<Rightarrow> (s, JUndef)
      | Some e \<Rightarrow>
          if expired now e
          then (s\<lparr>ss_cache := jdel (ss_cache s) (getCacheKey key scope scopeId)\<rparr>, JUndef)
          else (s, e_value e))"

definition new_entry ::
    "int \<Rightarrow> string \<Rightarrow> jsval \<Rightarrow> int option \<Rightarrow> PersistenceScope option \<Rightarrow> string option \<Rightarrow> StoreEntry" where
  "new_entry now key value expires scope scopeId =
     \<lparr>e_key = key, e_scope = (case scope of Some sc \<Rightarrow> sc | None \<Rightarrow> Sc_global),
      e_scopeId = (case scopeId of Some i \<Rightarrow> i | None \<Rightarrow> []), e_value = value, e_updatedAt = now,
      e_expiresAt = expires, e_metadata = None\<rparr>"

definition ss_set ::
    "int \<Rightarrow> string \<Rightarrow> jsval \<Rightarrow> PersistenceScope option \<Rightarrow> string option \<Rightarrow> state_store \<Rightarrow> state_store" where
  "ss_set now key value scope scopeId s =
     saveStore now scope scopeId
       (s\<lparr>ss_cache := jset (ss_cache s) (getCacheKey key scope scopeId)
                       (new_entry now key value None scope scopeId)\<rparr>)"

definition ss_delete ::
    "int \<Rightarrow> string \<Rightarrow> PersistenceScope option \<Rightarrow> string option \<Rightarrow> state_store \<Rightarrow> state_store" where
  "ss_delete now key scope scopeId s =
     (let ck = getCacheKey key scope scopeId
      in if jhas (ss_cache s) ck
         then saveStore now scope scopeId (s\<lparr>ss_cache := jdel (ss_cache s) ck\<rparr>) else s)"

definition ss_exists ::
    "int \<Rightarrow> string \<Rightarrow> PersistenceScope option \<Rightarrow> string option \<Rightarrow> state_store \<Rightarrow> state_store \<times> bool" where
  "ss_exists now key scope scopeId s =
     (case ss_get now key scope scopeId s of (s', v) \<Rightarrow> (s', v \<noteq> JUndef))"

definition starts_with :: "string \<Rightarrow> string \<Rightarrow> bool" where
  "starts_with prefix s \<longleftrightarrow> take (length prefix) s = prefix"

definition ss_list ::
    "int \<Rightarrow> string \<Rightarrow> PersistenceScope option \<Rightarrow> string option \<Rightarrow> state_store \<Rightarrow> string list" where
  "ss_list now prefix scope scopeId s =
     map e_key (filter (\<lambda>e. in_scope scope scopeId e \<and> \<not> expired now e \<and> starts_with prefix (e_key e))
       (jvals (ss_cache s)))"

definition ss_clear ::
    "int \<Rightarrow> PersistenceScope option \<Rightarrow> string option \<Rightarrow> state_store \<Rightarrow> state_store" where
  "ss_clear now scope scopeId s =
     saveStore now scope scopeId
       (s\<lparr>ss_cache :=
          (case scope of
             None \<Rightarrow> []
           | Some sc \<Rightarrow>
               (case scopeId of
                  None \<Rightarrow> jdrop (\<lambda>_ e. e_scope e = sc) (ss_cache s)
                | Some i \<Rightarrow> if i = [] then jdrop (\<lambda>_ e. e_scope e = sc) (ss_cache s)
                            else jdrop (\<lambda>_ e. e_scope e = sc \<and> e_scopeId e = i) (ss_cache s)))\<rparr>)"

definition ss_setWithExpiry ::
    "int \<Rightarrow> string \<Rightarrow> jsval \<Rightarrow> int \<Rightarrow> PersistenceScope option \<Rightarrow> string option \<Rightarrow> state_store \<Rightarrow> state_store" where
  "ss_setWithExpiry now key value ttlMs scope scopeId s =
     saveStore now scope scopeId
       (s\<lparr>ss_cache := jset (ss_cache s) (getCacheKey key scope scopeId)
                       (new_entry now key value (Some (now + ttlMs)) scope scopeId)\<rparr>)"

text \<open>The result of \<open>getWithExpiry\<close>: value, expiry and remaining time; a zero expiry has no \<open>ttl\<close>.\<close>

definition ss_getWithExpiry ::
    "int \<Rightarrow> string \<Rightarrow> PersistenceScope option \<Rightarrow> string option \<Rightarrow> state_store \<Rightarrow>
     state_store \<times> (jsval \<times> int option \<times> int option) option" where
  "ss_getWithExpiry now key scope scopeId s =
     (case jget (ss_cache s) (getCacheKey key scope scopeId) of
        None \<Rightarrow> (s, None)
      | Some e \<Rightarrow>
          if expired now e
          then (s\<lparr>ss_cache := jdel (ss_cache s) (getCacheKey key scope scopeId)\<rparr>, None)
          else (s, Some (e_value e, e_expiresAt e,
                  (case e_expiresAt e of Some x \<Rightarrow> if x \<noteq> 0 then Some (x - now) else None | None \<Rightarrow> None))))"

definition ss_increment ::
    "int \<Rightarrow> string \<Rightarrow> rat \<Rightarrow> PersistenceScope option \<Rightarrow> string option \<Rightarrow> state_store \<Rightarrow> state_store \<times> rat" where
  "ss_increment now key delta scope scopeId s =
     (case ss_get now key scope scopeId s of (s1, current) \<Rightarrow>
        (let newValue = (case current of JNum n \<Rightarrow> n | _ \<Rightarrow> 0) + delta
         in (ss_set now key (JNum newValue) scope scopeId s1, newValue)))"

definition ss_decrement ::
    "int \<Rightarrow> string \<Rightarrow> rat \<Rightarrow> PersistenceScope option \<Rightarrow> string option \<Rightarrow> state_store \<Rightarrow> state_store \<times> rat" where
  "ss_decrement now key delta scope scopeId s = ss_increment now key (- delta) scope scopeId s"

subsection \<open>Snapshots and their checksum\<close>

text \<open>
  \<open>JSON.stringify(data, keys)\<close> with an array as replacer serialises, in every object at every
  depth, only the properties named in the array, in the array's order; undefined properties are left
  out and undefined array elements become null. \<open>json_allow\<close> computes the value that is written;
  \<open>digest\<close> stands for the SHA-256 of its text.
\<close>

fun json_allow :: "string list \<Rightarrow> jsval \<Rightarrow> jsval" where
  "json_allow ks (JArr xs) =
     JArr (map (\<lambda>x. case json_allow ks x of JUndef \<Rightarrow> JNull | y \<Rightarrow> y) xs)"
| "json_allow ks (JObj m) =
     (let m' = map (\<lambda>(k, v). (k, json_allow ks v)) m
      in JObj (filter (\<lambda>(k, v). v \<noteq> JUndef)
           (List.map_filter (\<lambda>k. map_option (\<lambda>v. (k, v)) (jget m' k)) ks)))"
| "json_allow ks v = v"

definition calculateChecksum :: "(jsval \<Rightarrow> string) \<Rightarrow> js_record \<Rightarrow> string" where
  "calculateChecksum digest data = digest (json_allow (sort (jkeys data)) (JObj data))"

definition ss_createSnapshot ::
    "(jsval \<Rightarrow> string) \<Rightarrow> int \<Rightarrow> string \<Rightarrow> PersistenceScope \<Rightarrow> string \<Rightarrow> state_store \<Rightarrow> StateSnapshot" where
  "ss_createSnapshot digest now rnd scope scopeId s =
     (let entries = filter (\<lambda>e. e_scope e = scope \<and> e_scopeId e = scopeId \<and> \<not> expired now e)
                      (jvals (ss_cache s));
          data = fold (\<lambda>e m. jset m (e_key e) (e_value e)) entries []
      in \<lparr>sn_id = gen_id ''snapshot'' now rnd, sn_scope = scope, sn_scopeId = scopeId,
          sn_timestamp = now, sn_version = ''1.0.0'', sn_data = data,
          sn_checksum = calculateChecksum digest data\<rparr>)"

definition set_all ::
    "int \<Rightarrow> PersistenceScope option \<Rightarrow> string option \<Rightarrow> js_record \<Rightarrow> state_store \<Rightarrow> state_store" where
  "set_all now scope scopeId data s =
     fold (\<lambda>(key, value). ss_set now key value scope scopeId) data s"

definition ss_restoreSnapshot :: "int \<Rightarrow> StateSnapshot \<Rightarrow> state_store \<Rightarrow> state_store" where
  "ss_restoreSnapshot now snapshot s =
     set_all now (Some (sn_scope snapshot)) (Some (sn_scopeId snapshot)) (sn_data snapshot)
       (ss_clear now (Some (sn_scope snapshot)) (Some (sn_scopeId snapshot)) s)"

subsection \<open>Flush and close\<close>

text \<open>The groups of \<open>flush\<close>: one entry per scope and scope id in the cache, in order of first
  occurrence.\<close>

definition flush_groups :: "state_store \<Rightarrow> (string, PersistenceScope \<times> string option) jsmap" where
  "flush_groups s =
     fold (\<lambda>e g. (let key = scope_name (e_scope e) @ '':'' @ e_scopeId e
                   in if jhas g key then g
                      else jset g key (e_scope e, if e_scopeId e = [] then None else Some (e_scopeId e))))
       (jvals (ss_cache s)) []"

definition ss_flush :: "int \<Rightarrow> state_store \<Rightarrow> state_store" where
  "ss_flush now s =
     (if ss_dirty s
      then (let groups = jvals (flush_groups s);
                s1 = saveStore now None None s
            in (fold (\<lambda>(sc, i) s. if sc \<noteq> Sc_global then saveStore now (Some sc) i s else s) groups s1)
                 \<lparr>ss_dirty := False\<rparr>)
      else s)"

definition ss_close :: "int \<Rightarrow> state_store \<Rightarrow> state_store" where
  "ss_close now s = (ss_flush now s)\<lparr>ss_cache := []\<rparr>"

subsection \<open>The cache is keyed by its entries\<close>

definition ss_wf :: "state_store \<Rightarrow> bool" where
  "ss_wf s \<longleftrightarrow> jwf (ss_cache s) \<and> (\<forall>ck e. jget (ss_cache s) ck = Some e \<longrightarrow> entry_key e = ck)"

text \<open>What a reader sees at a time: the live value under a cache key.\<close>

definition ss_view :: "int \<Rightarrow> state_store \<Rightarrow> string \<Rightarrow> jsval option" where
  "ss_view now s ck =
     (case jget (ss_cache s) ck of None \<Rightarrow> None | Some e \<Rightarrow> if expired now e then None else Some (e_value e))"

lemma snd_ss_get:
  "snd (ss_get now key scope i s) =
     (case ss_view now s (getCacheKey key scope i) of None \<Rightarrow> JUndef | Some v \<Rightarrow> v)"
  by (simp add: ss_get_def ss_view_def split: option.splits)

lemma entry_key_new [simp]: "entry_key (new_entry now key v x scope i) = getCacheKey key scope i"
  by (simp add: entry_key_def new_entry_def getCacheKey_def)

lemma ss_wf_saveStore [wf_intros]: "ss_wf s \<Longrightarrow> ss_wf (saveStore now scope i s)"
  by (auto simp: ss_wf_def saveStore_def Let_def jget_jdrop split: option.splits if_splits)

lemma ss_wf_jset:
  "ss_wf s \<Longrightarrow> ss_wf (s\<lparr>ss_cache := jset (ss_cache s) (getCacheKey key scope i)
     (new_entry now key v x scope i)\<rparr>)"
  by (auto simp: ss_wf_def split: if_splits)

lemma ss_wf_jdel: "ss_wf s \<Longrightarrow> ss_wf (s\<lparr>ss_cache := jdel (ss_cache s) ck\<rparr>)"
  by (auto simp: ss_wf_def split: if_splits)

lemma ss_wf_jdrop: "ss_wf s \<Longrightarrow> ss_wf (s\<lparr>ss_cache := jdrop p (ss_cache s)\<rparr>)"
  by (auto simp: ss_wf_def jget_jdrop split: option.splits if_splits)

lemma ss_wf_empty: "ss_wf (s\<lparr>ss_cache := []\<rparr>)"
  by (simp add: ss_wf_def)

lemma ss_wf_get [wf_intros]: "ss_wf s \<Longrightarrow> ss_wf (fst (ss_get now key scope i s))"
  by (auto simp: ss_get_def ss_wf_jdel split: option.splits)

lemma ss_wf_set [wf_intros]: "ss_wf s \<Longrightarrow> ss_wf (ss_set now key v scope i s)"
  by (simp add: ss_set_def ss_wf_saveStore ss_wf_jset)

lemma ss_wf_setWithExpiry [wf_intros]: "ss_wf s \<Longrightarrow> ss_wf (ss_setWithExpiry now key v ttl scope i s)"
  by (simp add: ss_setWithExpiry_def ss_wf_saveStore ss_wf_jset)

lemma ss_wf_delete [wf_intros]: "ss_wf s \<Longrightarrow> ss_wf (ss_delete now key scope i s)"
  by (simp add: ss_delete_def Let_def ss_wf_saveStore ss_wf_jdel)

lemma ss_wf_clear [wf_intros]: "ss_wf s \<Longrightarrow> ss_wf (ss_clear now scope i s)"
  by (simp add: ss_clear_def ss_wf_saveStore ss_wf_jdrop ss_wf_empty split: option.split)

lemma ss_wf_increment [wf_intros]: "ss_wf s \<Longrightarrow> ss_wf (fst (ss_increment now key d scope i s))"
  using ss_wf_get [of s now key scope i]
  by (cases "ss_get now key scope i s") (simp add: ss_increment_def Let_def ss_wf_set)

lemma ss_wf_set_all [wf_intros]: "ss_wf s \<Longrightarrow> ss_wf (set_all now scope i data s)"
  by (induction data arbitrary: s) (auto simp: set_all_def ss_wf_set)

lemma ss_wf_load_entries:
  "ss_wf (s\<lparr>ss_cache := c\<rparr>) \<Longrightarrow> ss_wf (s\<lparr>ss_cache := load_entries now es c\<rparr>)"
proof (induction now es c rule: load_entries.induct)
  case (2 now e es c)
  have "ss_wf (s\<lparr>ss_cache := jset c (entry_key e) e\<rparr>)"
    using "2.prems" by (auto simp: ss_wf_def split: if_splits)
  with 2 show ?case by simp
qed simp

lemma ss_wf_loadFile [wf_intros]: "ss_wf s \<Longrightarrow> ss_wf (loadFile now p s)"
  using ss_wf_load_entries [of "ss_cache s" s now]
  by (simp add: loadFile_def split: option.split)

lemma ss_wf_loadFiles [wf_intros]: "ss_wf s \<Longrightarrow> ss_wf (fold (loadFile now) ps s)"
  by (induction ps arbitrary: s) (auto intro: wf_intros)

lemma ss_wf_loadStore [wf_intros]: "ss_wf s \<Longrightarrow> ss_wf (loadStore now s)"
  by (simp add: loadStore_def wf_intros)

lemma ss_wf_open [wf_intros]: "ss_wf (open_store autoSave now files)"
  unfolding open_store_def by (rule ss_wf_loadStore) (simp add: ss_wf_def)

subsection \<open>What an operation does to the view\<close>

lemma ss_view_saveStore [simp]: "ss_wf s \<Longrightarrow> ss_view now (saveStore now scope i s) = ss_view now s"
  by (auto simp: ss_view_def saveStore_def Let_def jget_jdrop ss_wf_def fun_eq_iff
      split: option.splits)

lemma ss_view_set:
  "ss_wf s \<Longrightarrow> ss_view now (ss_set now key v scope i s) ck =
     (if ck = getCacheKey key scope i then Some v else ss_view now s ck)"
  using ss_wf_jset [of s key scope i now v None]
  by (simp add: ss_set_def) (simp add: ss_view_def expired_def new_entry_def)

text \<open>The same at any later time of reading.\<close>

lemma expired_mono: "expired now e \<Longrightarrow> now \<le> later \<Longrightarrow> expired later e"
  by (auto simp: expired_def split: option.splits)

lemma ss_view_saveStore_later:
  "ss_wf s \<Longrightarrow> now \<le> later \<Longrightarrow> ss_view later (saveStore now scope i s) = ss_view later s"
  by (auto simp: ss_view_def saveStore_def Let_def jget_jdrop ss_wf_def fun_eq_iff
      split: option.splits dest: expired_mono)

lemma ss_view_set_later:
  "ss_wf s \<Longrightarrow> now \<le> later \<Longrightarrow> ss_view later (ss_set now key v scope i s) ck =
     (if ck = getCacheKey key scope i then Some v else ss_view later s ck)"
  using ss_wf_jset [of s key scope i now v None]
  by (simp add: ss_set_def ss_view_saveStore_later) (simp add: ss_view_def expired_def new_entry_def)

lemma ss_view_delete:
  "ss_wf s \<Longrightarrow> ss_view now (ss_delete now key scope i s) ck =
     (if ck = getCacheKey key scope i then None else ss_view now s ck)"
  using ss_wf_jdel [of s "getCacheKey key scope i"]
  by (auto simp: ss_delete_def Let_def) (auto simp: ss_view_def)

lemma ss_view_clear:
  "ss_wf s \<Longrightarrow> i \<noteq> [] \<Longrightarrow> ss_view now (ss_clear now (Some sc) (Some i) s) ck =
     (case jget (ss_cache s) ck of
        Some e \<Rightarrow> if e_scope e = sc \<and> e_scopeId e = i then None else ss_view now s ck
      | None \<Rightarrow> None)"
  using ss_wf_jdrop [of s "\<lambda>_ e. e_scope e = sc \<and> e_scopeId e = i"]
  by (simp add: ss_clear_def)
     (auto simp: ss_view_def jget_jdrop ss_wf_def split: option.splits)

lemma ss_view_get [simp]: "ss_view now (fst (ss_get now key scope i s)) = ss_view now s"
  by (auto simp: ss_get_def ss_view_def fun_eq_iff split: option.splits)

subsection \<open>Cache keys\<close>

lemma scope_name_no_colon [simp]: "CHR '':'' \<notin> set (scope_name sc)"
  by (cases sc) auto

lemma scope_name_inj [simp]: "scope_name a = scope_name b \<longleftrightarrow> a = b"
  by (cases a; cases b) auto

text \<open>Splitting at the first separator.\<close>

lemma append_sep_eq:
  "x \<notin> set a \<Longrightarrow> x \<notin> set b \<Longrightarrow> a @ x # u = b @ x # v \<longleftrightarrow> a = b \<and> u = v"
proof (induction a arbitrary: b)
  case Nil
  then show ?case by (cases b) auto
next
  case (Cons y a)
  then show ?case by (cases b) auto
qed

lemma getCacheKey_eq:
  "getCacheKey k (Some sc) (Some i) = getCacheKey k' (Some sc') (Some i') \<longleftrightarrow>
     sc = sc' \<and> i @ '':'' @ k = i' @ '':'' @ k'"
  using append_sep_eq [of "CHR '':''" "scope_name sc" "scope_name sc'" "i @ '':'' @ k" "i' @ '':'' @ k'"]
  by (simp add: getCacheKey_def)

lemma getCacheKey_scoped [simp]:
  "getCacheKey k scope i = getCacheKey k' scope i \<longleftrightarrow> k = k'"
  by (auto simp: getCacheKey_def)

lemma getCacheKey_inj:
  assumes "CHR '':'' \<notin> set i" and "CHR '':'' \<notin> set i'"
  shows "getCacheKey k (Some sc) (Some i) = getCacheKey k' (Some sc') (Some i') \<longleftrightarrow>
     sc = sc' \<and> i = i' \<and> k = k'"
  using append_sep_eq [OF assms, of k k'] by (auto simp: getCacheKey_eq)

text \<open>The keys of one scope and scope id are a namespace of the store.\<close>

definition ss_read :: "int \<Rightarrow> PersistenceScope option \<Rightarrow> string option \<Rightarrow> state_store \<Rightarrow> string \<Rightarrow> jsval" where
  "ss_read now scope i s key = snd (ss_get now key scope i s)"

interpretation ss_space: namespace_store "ss_read now scope i" "\<lambda>k v. ss_set now k v scope i" ss_wf
  for now scope i
  by unfold_locales (auto simp: ss_read_def snd_ss_get ss_view_set intro: wf_intros)


subsection \<open>Histories\<close>

datatype ss_op =
    SsGet string "PersistenceScope option" "string option"
  | SsSet string jsval "PersistenceScope option" "string option"
  | SsDelete string "PersistenceScope option" "string option"
  | SsClear "PersistenceScope option" "string option"
  | SsSetWithExpiry string jsval int "PersistenceScope option" "string option"
  | SsGetWithExpiry string "PersistenceScope option" "string option"
  | SsIncrement string rat "PersistenceScope option" "string option"
  | SsRestore StateSnapshot
  | SsFlush
  | SsClose

fun ss_apply :: "int \<times> ss_op \<Rightarrow> state_store \<Rightarrow> state_store" where
  "ss_apply (now, SsGet k sc i) s = fst (ss_get now k sc i s)"
| "ss_apply (now, SsSet k v sc i) s = ss_set now k v sc i s"
| "ss_apply (now, SsDelete k sc i) s = ss_delete now k sc i s"
| "ss_apply (now, SsClear sc i) s = ss_clear now sc i s"
| "ss_apply (now, SsSetWithExpiry k v ttl sc i) s = ss_setWithExpiry now k v ttl sc i s"
| "ss_apply (now, SsGetWithExpiry k sc i) s = fst (ss_getWithExpiry now k sc i s)"
| "ss_apply (now, SsIncrement k d sc i) s = fst (ss_increment now k d sc i s)"
| "ss_apply (now, SsRestore snap) s = ss_restoreSnapshot now snap s"
| "ss_apply (now, SsFlush) s = ss_flush now s"
| "ss_apply (now, SsClose) s = ss_close now s"

lemma fst_getWithExpiry: "fst (ss_getWithExpiry now k sc i s) = fst (ss_get now k sc i s)"
  by (simp add: ss_getWithExpiry_def ss_get_def split: option.split)

lemma ss_wf_saves [wf_intros]:
  "ss_wf s \<Longrightarrow> ss_wf (fold (\<lambda>(sc, i) s. if sc \<noteq> Sc_global then saveStore now (Some sc) i s else s) gs s)"
  by (rule fold_keeps) (auto intro: wf_intros)

lemma ss_wf_undirty: "ss_wf (s\<lparr>ss_dirty := d\<rparr>) = ss_wf s"
  by (simp add: ss_wf_def)

lemma ss_wf_flush [wf_intros]: "ss_wf s \<Longrightarrow> ss_wf (ss_flush now s)"
  by (simp add: ss_flush_def Let_def ss_wf_undirty ss_wf_saves ss_wf_saveStore)

lemma ss_wf_restore [wf_intros]: "ss_wf s \<Longrightarrow> ss_wf (ss_restoreSnapshot now snap s)"
  by (simp add: ss_restoreSnapshot_def wf_intros)

lemma ss_wf_apply: "ss_wf s \<Longrightarrow> ss_wf (ss_apply x s)"
  by (cases "(x, s)" rule: ss_apply.cases)
     (auto simp: fst_getWithExpiry ss_close_def ss_wf_empty intro: wf_intros)

interpretation ss_machine: op_machine ss_apply ss_wf
  by unfold_locales (rule ss_wf_apply)

subsection \<open>What reaches the disk\<close>

text \<open>With automatic saving off nothing is ever written: \<open>saveStore\<close> returns before it writes,
  and \<open>flush\<close> goes through \<open>saveStore\<close>.\<close>

definition frozen :: "(path, StoreFile option) jsmap \<Rightarrow> state_store \<Rightarrow> bool" where
  "frozen fs s \<longleftrightarrow> \<not> ss_autoSave s \<and> ss_files s = fs"

lemma frozen_saveStore [wf_intros]: "frozen fs s \<Longrightarrow> frozen fs (saveStore now sc i s)"
  by (simp add: frozen_def saveStore_def)

lemma frozen_cache [simp]: "frozen fs (s\<lparr>ss_cache := c\<rparr>) = frozen fs s"
  "frozen fs (s\<lparr>ss_dirty := d\<rparr>) = frozen fs s"
  by (simp_all add: frozen_def)

lemma frozen_get [wf_intros]: "frozen fs s \<Longrightarrow> frozen fs (fst (ss_get now k sc i s))"
  by (simp add: ss_get_def split: option.split)

lemma frozen_set [wf_intros]: "frozen fs s \<Longrightarrow> frozen fs (ss_set now k v sc i s)"
  by (simp add: ss_set_def frozen_saveStore)

lemma frozen_increment [wf_intros]: "frozen fs s \<Longrightarrow> frozen fs (fst (ss_increment now k d sc i s))"
  using frozen_get [of fs s now k sc i]
  by (cases "ss_get now k sc i s") (simp add: ss_increment_def Let_def frozen_set)

lemma frozen_set_all [wf_intros]: "frozen fs s \<Longrightarrow> frozen fs (set_all now sc i data s)"
  by (induction data arbitrary: s) (auto simp: set_all_def frozen_set)

lemma frozen_clear [wf_intros]: "frozen fs s \<Longrightarrow> frozen fs (ss_clear now sc i s)"
  by (simp add: ss_clear_def frozen_saveStore split: option.split)

lemma frozen_saves [wf_intros]:
  "frozen fs s \<Longrightarrow>
   frozen fs (fold (\<lambda>(sc, i) s. if sc \<noteq> Sc_global then saveStore now (Some sc) i s else s) gs s)"
  by (rule fold_keeps) (auto intro: wf_intros)

lemma frozen_flush [wf_intros]: "frozen fs s \<Longrightarrow> frozen fs (ss_flush now s)"
  by (simp add: ss_flush_def Let_def frozen_saves frozen_saveStore)

interpretation ss_frozen: op_machine ss_apply "frozen fs" for fs
proof
  fix s x
  assume "frozen fs s"
  then show "frozen fs (ss_apply x s)"
    by (cases "(x, s)" rule: ss_apply.cases)
       (simp_all add: fst_getWithExpiry ss_close_def ss_delete_def ss_setWithExpiry_def Let_def
         ss_restoreSnapshot_def wf_intros)
qed


lemma jkeys_filter_jset:
  "\<not> P p \<Longrightarrow> filter P (jkeys (jset m p f)) = filter P (jkeys m)"
  by (induction m) auto

lemma scope_files_jset_flat [simp]:
  "scope_files sc (s\<lparr>ss_files := jset (ss_files s) [x] f\<rparr>) = scope_files sc s"
  by (simp add: scope_files_def jkeys_filter_jset)

lemma loadFile_other_files:
  "jget fs p = jget (ss_files s) p \<Longrightarrow>
   loadFile now p (s\<lparr>ss_files := fs\<rparr>) = (loadFile now p s)\<lparr>ss_files := fs\<rparr>"
  by (simp add: loadFile_def split: option.split)

lemma ss_files_loadFile [simp]: "ss_files (loadFile now p s) = ss_files s"
  by (simp add: loadFile_def split: option.split)

lemma ss_files_loadFiles [simp]: "ss_files (fold (loadFile now) ps s) = ss_files s"
  by (induction ps arbitrary: s) auto

lemma loadFiles_other_files:
  "(\<And>p. p \<in> set ps \<Longrightarrow> jget fs p = jget (ss_files s) p) \<Longrightarrow>
   fold (loadFile now) ps (s\<lparr>ss_files := fs\<rparr>) = (fold (loadFile now) ps s)\<lparr>ss_files := fs\<rparr>"
  by (induction ps arbitrary: s) (auto simp: loadFile_other_files)

lemma scope_files_depth: "p \<in> set (scope_files sc s) \<Longrightarrow> \<exists>f. p = [scope_name sc, f]"
  by (auto simp: scope_files_def split: list.splits)

lemma loadScope_other_files:
  "fold (loadFile now) (scope_files sc s) (s\<lparr>ss_files := jset (ss_files s) [x] f\<rparr>) =
   (fold (loadFile now) (scope_files sc s) s)\<lparr>ss_files := jset (ss_files s) [x] f\<rparr>"
  by (rule loadFiles_other_files) (auto dest!: scope_files_depth)

lemma loadStore_other_file:
  assumes "[x] \<noteq> getStorePath None None"
  shows "loadStore now (s\<lparr>ss_files := jset (ss_files s) [x] f\<rparr>) =
    (loadStore now s)\<lparr>ss_files := jset (ss_files s) [x] f\<rparr>"
proof -
  let ?g = "\<lambda>s. s\<lparr>ss_files := jset (ss_files s) [x] f\<rparr>"
  have scope: "fold (loadFile now) (scope_files sc (?g t)) (?g t) = ?g (fold (loadFile now) (scope_files sc t) t)"
    for sc t using loadScope_other_files [of now sc t x f] by simp
  have "fold (\<lambda>sc s. fold (loadFile now) (scope_files sc s) s) scs (?g t) =
      ?g (fold (\<lambda>sc s. fold (loadFile now) (scope_files sc s) s) scs t)" for scs t
    by (induction scs arbitrary: t) (simp_all only: fold_simps scope)
  moreover have "loadFile now (getStorePath None None) (?g s) = ?g (loadFile now (getStorePath None None) s)"
    using assms by (simp add: loadFile_other_files)
  moreover have "ss_files (loadStore now s) = ss_files s"
    unfolding loadStore_def by (rule fold_keeps) simp_all
  ultimately show ?thesis by (simp only: loadStore_def)
qed

lemma open_other_file:
  assumes "[x] \<noteq> getStorePath None None"
  shows "ss_cache (open_store a now (jset fs [x] f)) = ss_cache (open_store a now fs)"
  using loadStore_other_file [OF assms, where now = now and f = f and s = "\<lparr>ss_cache = [], ss_dirty = False, ss_autoSave = a, ss_files = fs\<rparr>"]
  by (simp add: open_store_def)

lemma open_scope_file:
  "sc \<noteq> Sc_global \<Longrightarrow>
   ss_cache (open_store a now (jset fs [scope_name sc @ json_suffix] f)) = ss_cache (open_store a now fs)"
  by (rule open_other_file) (cases sc; simp add: getStorePath_def json_suffix_def)

subsection \<open>Properties\<close>

text \<open>A value set for a key of a scope is what a reader of the same time sees, and no other
  key of no other scope id changes, except those whose composed cache key coincides: \<open>getCacheKey\<close>
  joins scope id and key by a colon and does not escape it, so agent \<open>a\<close> with key \<open>b:c\<close> and agent
  \<open>a:b\<close> with key \<open>c\<close> are one entry.\<close>

lemma set_get_isolation:
  assumes "ss_wf s"
  shows "snd (ss_get now k' (Some sc') (Some i') (ss_set now k v (Some sc) (Some i) s)) =
    (if sc = sc' \<and> i @ '':'' @ k = i' @ '':'' @ k' then v
     else snd (ss_get now k' (Some sc') (Some i') s))"
  using assms by (auto simp: snd_ss_get ss_view_set getCacheKey_eq)

definition demo_store :: state_store where
  "demo_store = ss_setWithExpiry 0 ''lease'' (JStr ''held'') 50 (Some Sc_session) (Some ''s1'')
     (ss_set 0 ''x'' (JNum 1) (Some Sc_agent) (Some ''a1'') (open_store True 0 []))"

lemma demo_store_wf: "ss_wf demo_store"
  by (simp add: demo_store_def wf_intros)

lemma set_get_isolation_witness:
  "snd (ss_get 9 ''c'' (Some Sc_agent) (Some ''a:b'')
      (ss_set 9 ''b:c'' (JNum 7) (Some Sc_agent) (Some ''a'') demo_store)) = JNum 7"
  using set_get_isolation [OF demo_store_wf, of 9 "''c''" Sc_agent "''a:b''" "''b:c''" "JNum 7" Sc_agent "''a''"]
  by simp

text \<open>With automatic saving off no history of calls, flushes and closes included, writes a
  file: \<open>flush\<close> saves through \<open>saveStore\<close>, which only sets the dirty flag in that mode, and then clears
  the flag.\<close>

lemma no_autosave_never_persists:
  assumes "\<not> ss_autoSave s"
  shows "ss_files (fold ss_apply ops s) = ss_files s"
  using ss_frozen.inv_run [of "ss_files s" s ops] assms by (simp add: frozen_def)

lemma no_autosave_never_persists_witness:
  "ss_files (fold ss_apply [(1, SsSet ''x'' (JNum 1) (Some Sc_agent) (Some ''a1'')), (2, SsFlush), (3, SsClose)]
      (open_store False 0 [])) = []"
  using no_autosave_never_persists [of "open_store False 0 []"
      "[(1, SsSet ''x'' (JNum 1) (Some Sc_agent) (Some ''a1'')), (2, SsFlush), (3, SsClose)]"]
  by (simp add: open_store_def loadStore_def loadFile_def scope_files_def)

text \<open>What is set for a non-global scope without a scope id is lost on restart: it is saved in
  \<open><scope>.json\<close> below the base directory, which \<open>loadStore\<close> never reads, so the store reopened after the
  write is the one reopened before it.\<close>

lemma unscoped_write_lost:
  assumes "sc \<noteq> Sc_global"
  shows "ss_cache (open_store a later (ss_files (ss_set now k v (Some sc) None s))) =
    ss_cache (open_store a later (ss_files s))"
  using assms
  by (simp add: ss_set_def saveStore_def Let_def getStorePath_def open_scope_file)

lemma unscoped_write_lost_witness:
  "ss_cache (open_store True 5 (ss_files (ss_set 4 ''x'' (JNum 1) (Some Sc_agent) None demo_store))) =
    ss_cache (open_store True 5 (ss_files demo_store))"
  by (rule unscoped_write_lost) simp


subsection \<open>Restart\<close>

definition file_entries :: "(path, StoreFile option) jsmap \<Rightarrow> path \<Rightarrow> StoreEntry list" where
  "file_entries fs p = (case jget fs p of Some (Some f) \<Rightarrow> sf_entries f | _ \<Rightarrow> [])"

lemma loadFile_entries:
  "ss_cache (loadFile now p s) = load_entries now (file_entries (ss_files s) p) (ss_cache s)"
  by (simp add: loadFile_def file_entries_def split: option.split)

text \<open>Loading entries that agree with a target map stays inside the target and takes in every live
  entry.\<close>

definition held :: "int \<Rightarrow> (string \<Rightarrow> StoreEntry option) \<Rightarrow> StoreEntry list \<Rightarrow> bool" where
  "held now C es \<longleftrightarrow> (\<forall>e\<in>set es. expired now e \<or> C (entry_key e) = Some e)"

lemma held_mono: "held now c es \<Longrightarrow> c \<subseteq>\<^sub>m C \<Longrightarrow> held now C es"
  by (auto simp: held_def map_le_def dom_def)

lemma load_entries_target:
  "held now C es \<Longrightarrow> jget c \<subseteq>\<^sub>m C \<Longrightarrow>
   jget (load_entries now es c) \<subseteq>\<^sub>m C \<and> jget c \<subseteq>\<^sub>m jget (load_entries now es c) \<and>
   held now (jget (load_entries now es c)) es"
proof (induction now es c rule: load_entries.induct)
  case (2 now e es c)
  show ?case
  proof (cases "expired now e")
    case True
    with 2 show ?thesis by (simp add: held_def)
  next
    case False
    let ?c = "jset c (entry_key e) e"
    from False "2.prems" have le: "jget ?c \<subseteq>\<^sub>m C" "jget c \<subseteq>\<^sub>m jget ?c"
      by (auto simp: map_le_def dom_def held_def)
    from "2.prems"(1) have tl: "held now C es" by (simp add: held_def)
    note ih = "2.IH"(2) [OF False tl le(1)]
    have "jget ?c (entry_key e) = Some e" by simp
    with ih have top: "jget (load_entries now es ?c) (entry_key e) = Some e"
      by (blast intro: map_le_SomeD)
    have "jget c \<subseteq>\<^sub>m jget (load_entries now es ?c)"
      by (rule map_le_trans [OF le(2)]) (use ih in blast)
    with ih False top show ?thesis by (simp add: held_def)
  qed
qed (auto simp: held_def)

lemma loadFiles_target:
  "(\<And>p. p \<in> set ps \<Longrightarrow> held now C (file_entries (ss_files s) p)) \<Longrightarrow> jget (ss_cache s) \<subseteq>\<^sub>m C \<Longrightarrow>
   jget (ss_cache (fold (loadFile now) ps s)) \<subseteq>\<^sub>m C \<and>
   jget (ss_cache s) \<subseteq>\<^sub>m jget (ss_cache (fold (loadFile now) ps s)) \<and>
   (\<forall>p\<in>set ps. held now (jget (ss_cache (fold (loadFile now) ps s))) (file_entries (ss_files s) p))"
proof (induction ps arbitrary: s)
  case (Cons p ps)
  from Cons.prems load_entries_target [of now C "file_entries (ss_files s) p" "ss_cache s"]
  have step: "jget (ss_cache (loadFile now p s)) \<subseteq>\<^sub>m C"
      "jget (ss_cache s) \<subseteq>\<^sub>m jget (ss_cache (loadFile now p s))"
      "held now (jget (ss_cache (loadFile now p s))) (file_entries (ss_files s) p)"
    by (simp_all add: loadFile_entries)
  with Cons.IH [of "loadFile now p s"] Cons.prems(1) show ?case
    by (auto intro: map_le_trans held_mono)
qed simp

lemma loadStore_fold:
  "loadStore now s = fold (loadFile now)
     (getStorePath None None # concat (map (\<lambda>sc. scope_files sc s) [Sc_agent, Sc_session, Sc_workflow, Sc_global])) s"
proof -
  have same: "scope_files sc (fold (loadFile now) ps t) = scope_files sc t" for sc ps t
    by (simp add: scope_files_def)
  have "scope_files sc (loadFile now p t) = scope_files sc t" for sc p t
    by (simp add: scope_files_def)
  with same show ?thesis by (simp add: loadStore_def)
qed


text \<open>The scoped discipline: every call names a scope and a non-empty scope id without a colon.
  Under it, with automatic saving on, each file mirrors its part of the cache.\<close>

definition plain_id :: "string \<Rightarrow> bool" where
  "plain_id i \<longleftrightarrow> i \<noteq> [] \<and> CHR '':'' \<notin> set i"

definition scope_path :: "PersistenceScope \<Rightarrow> string \<Rightarrow> path" where
  "scope_path sc i = [scope_name sc, i @ json_suffix]"

lemma scope_path_eq [simp]: "scope_path sc i = scope_path sc' i' \<longleftrightarrow> sc = sc' \<and> i = i'"
  by (simp add: scope_path_def)

lemma getStorePath_scoped [simp]: "plain_id i \<Longrightarrow> getStorePath (Some sc) (Some i) = scope_path sc i"
  by (simp add: plain_id_def getStorePath_def scope_path_def)

definition entry_path :: "StoreEntry \<Rightarrow> path" where
  "entry_path e = scope_path (e_scope e) (e_scopeId e)"

definition durable :: "int \<Rightarrow> state_store \<Rightarrow> bool" where
  "durable now s \<longleftrightarrow> ss_wf s \<and> ss_autoSave s \<and> \<not> ss_dirty s \<and>
     (\<forall>ck e. jget (ss_cache s) ck = Some e \<longrightarrow>
        plain_id (e_scopeId e) \<and> (expired now e \<or> e \<in> set (file_entries (ss_files s) (entry_path e)))) \<and>
     (\<forall>p c. jget (ss_files s) p = Some c \<longrightarrow> (\<exists>sc i. plain_id i \<and> p = scope_path sc i)) \<and>
     (\<forall>p. held now (jget (ss_cache s)) (file_entries (ss_files s) p) \<and>
        (\<forall>e\<in>set (file_entries (ss_files s) p). entry_path e = p))"

lemma durable_mono: "durable now s \<Longrightarrow> now \<le> later \<Longrightarrow> durable later s"
  unfolding durable_def held_def by (meson expired_mono)

text \<open>A change of the cache confined to one scope id, followed by the save of that scope id, keeps
  the mirror.\<close>

lemma file_entries_jset:
  "file_entries (jset fs p (Some f)) q = (if q = p then sf_entries f else file_entries fs q)"
  by (simp add: file_entries_def)

definition here :: "PersistenceScope \<Rightarrow> string \<Rightarrow> StoreEntry \<Rightarrow> bool" where
  "here sc i e \<longleftrightarrow> e_scope e = sc \<and> e_scopeId e = i"

lemma in_scope_here [simp]: "plain_id i \<Longrightarrow> in_scope (Some sc) (Some i) = here sc i"
  by (simp add: in_scope_def here_def plain_id_def fun_eq_iff)

lemma here_path: "here sc i e \<longleftrightarrow> entry_path e = scope_path sc i"
  by (simp add: here_def entry_path_def)

lemma durable_save:
  assumes d: "durable now s" and wf: "ss_wf (s\<lparr>ss_cache := c\<rparr>)" and i: "plain_id i"
    and same: "\<And>ck e. \<not> here sc i e \<Longrightarrow> jget c ck = Some e \<longleftrightarrow> jget (ss_cache s) ck = Some e"
  shows "durable now (saveStore now (Some sc) (Some i) (s\<lparr>ss_cache := c\<rparr>))" (is "durable now ?t")
proof -
  let ?C = "jdrop (\<lambda>_ e. here sc i e \<and> expired now e) c"
  let ?es = "filter (here sc i) (jvals ?C)"
  from d i have cache: "ss_cache ?t = ?C"
      and files: "ss_files ?t = jset (ss_files s) (scope_path sc i)
        (Some \<lparr>sf_version = ''1.0.0'', sf_entries = ?es, sf_updatedAt = now\<rparr>)"
      and flags: "ss_autoSave ?t" "\<not> ss_dirty ?t"
    by (simp_all add: saveStore_def durable_def Let_def)
  have wft: "ss_wf ?t" using wf by (rule ss_wf_saveStore)
  from wf have wfc: "jwf c" by (simp add: ss_wf_def)
  have C: "jget ?C ck = Some e \<longleftrightarrow> jget c ck = Some e \<and> \<not> (here sc i e \<and> expired now e)" for ck e
    using wfc by (auto simp: jget_jdrop split: option.splits)
  have wfC: "jwf ?C" using wft by (simp add: ss_wf_def cache)
  have es: "e \<in> set ?es \<longleftrightarrow> here sc i e \<and> jget ?C (entry_key e) = Some e" for e
    using wft jvals_mem [OF wfC, of e] unfolding ss_wf_def cache by (simp only: set_filter) blast
  have fe: "file_entries (ss_files ?t) p =
      (if p = scope_path sc i then ?es else file_entries (ss_files s) p)" for p
    by (simp add: files file_entries_jset)
  have old: "\<not> here sc i e \<Longrightarrow> jget ?C ck = Some e \<longleftrightarrow> jget (ss_cache s) ck = Some e" for ck e
    using same by (simp add: C)
  have 1: "plain_id (e_scopeId e) \<and> (expired now e \<or> e \<in> set (file_entries (ss_files ?t) (entry_path e)))"
    if "jget (ss_cache ?t) ck = Some e" for ck e
  proof (cases "here sc i e")
    case True
    from that wft have "jget ?C (entry_key e) = Some e" by (simp add: ss_wf_def cache)
    with True es have "e \<in> set ?es" by blast
    with True i show ?thesis unfolding fe by (simp add: here_def entry_path_def)
  next
    case False
    with that old have "jget (ss_cache s) ck = Some e" unfolding cache by blast
    with False d show ?thesis unfolding fe durable_def by (auto simp: here_path)
  qed
  have 2: "held now (jget (ss_cache ?t)) (file_entries (ss_files ?t) p) \<and>
      (\<forall>e\<in>set (file_entries (ss_files ?t) p). entry_path e = p)" for p
  proof (cases "p = scope_path sc i")
    case True
    then show ?thesis using es by (auto simp: fe held_def cache here_path)
  next
    case False
    with d have "held now (jget (ss_cache s)) (file_entries (ss_files s) p)"
        and own: "\<forall>e\<in>set (file_entries (ss_files s) p). entry_path e = p"
      by (auto simp: durable_def)
    moreover from own False have "\<forall>e\<in>set (file_entries (ss_files s) p). \<not> here sc i e"
      by (auto simp: here_path)
    ultimately show ?thesis using False old unfolding fe held_def cache by auto
  qed
  have 3: "\<exists>sc i. plain_id i \<and> p = scope_path sc i" if "jget (ss_files ?t) p = Some f" for p f
    using d that i by (auto simp: files durable_def split: if_splits)
  from flags wft 1 2 3 show ?thesis unfolding durable_def by blast
qed


lemma plain_key_here:
  assumes "durable now s" and "plain_id i"
    and "jget (ss_cache s) (getCacheKey k (Some sc) (Some i)) = Some e"
  shows "here sc i e"
proof -
  from assms have "entry_key e = getCacheKey k (Some sc) (Some i)" "plain_id (e_scopeId e)"
    by (auto simp: durable_def ss_wf_def)
  with assms(2) getCacheKey_inj [of "e_scopeId e" i "e_key e" "e_scope e" k sc] show ?thesis
    by (auto simp: entry_key_def here_def plain_id_def)
qed

lemma durable_wf: "durable now s \<Longrightarrow> ss_wf s"
  by (simp add: durable_def)

lemma durable_put:
  assumes "durable now s" and "plain_id i"
  shows "durable now (saveStore now (Some sc) (Some i)
    (s\<lparr>ss_cache := jset (ss_cache s) (getCacheKey k (Some sc) (Some i))
                      (new_entry now k v x (Some sc) (Some i))\<rparr>))"
proof (rule durable_save [OF assms(1) ss_wf_jset [OF durable_wf [OF assms(1)]] assms(2)])
  fix ck e
  assume e: "\<not> here sc i e"
  have "here sc i (new_entry now k v x (Some sc) (Some i))" by (simp add: here_def new_entry_def)
  with e plain_key_here [OF assms, of k sc e]
  show "jget (jset (ss_cache s) (getCacheKey k (Some sc) (Some i)) (new_entry now k v x (Some sc) (Some i))) ck =
      Some e \<longleftrightarrow> jget (ss_cache s) ck = Some e"
    by auto
qed

lemma durable_set [wf_intros]:
  "durable now s \<Longrightarrow> plain_id i \<Longrightarrow> durable now (ss_set now k v (Some sc) (Some i) s)"
  unfolding ss_set_def by (rule durable_put)

lemma durable_setWithExpiry [wf_intros]:
  "durable now s \<Longrightarrow> plain_id i \<Longrightarrow> durable now (ss_setWithExpiry now k v ttl (Some sc) (Some i) s)"
  unfolding ss_setWithExpiry_def by (rule durable_put)

lemma durable_delete [wf_intros]:
  assumes "durable now s" and "plain_id i"
  shows "durable now (ss_delete now k (Some sc) (Some i) s)"
proof -
  have "durable now (saveStore now (Some sc) (Some i)
      (s\<lparr>ss_cache := jdel (ss_cache s) (getCacheKey k (Some sc) (Some i))\<rparr>))"
    by (rule durable_save [OF assms(1) ss_wf_jdel [OF durable_wf [OF assms(1)]] assms(2)])
       (use plain_key_here [OF assms] in auto)
  with assms(1) show ?thesis by (simp add: ss_delete_def Let_def)
qed

lemma durable_clear [wf_intros]:
  assumes "durable now s" and "plain_id i"
  shows "durable now (ss_clear now (Some sc) (Some i) s)"
proof -
  have "jwf (ss_cache s)" using assms(1) by (simp add: durable_def ss_wf_def)
  then have "durable now (saveStore now (Some sc) (Some i)
      (s\<lparr>ss_cache := jdrop (\<lambda>_ e. e_scope e = sc \<and> e_scopeId e = i) (ss_cache s)\<rparr>))"
    by (intro durable_save [OF assms(1) ss_wf_jdrop [OF durable_wf [OF assms(1)]] assms(2)])
       (auto simp: jget_jdrop here_def split: option.splits)
  with assms(2) show ?thesis by (simp add: ss_clear_def plain_id_def)
qed

lemma durable_get [wf_intros]:
  assumes "durable now s" shows "durable now (fst (ss_get now k sc i s))"
  using assms unfolding durable_def
  by (auto simp: ss_get_def ss_wf_jdel held_def split: option.splits if_splits) (metis option.inject)

lemma durable_increment [wf_intros]:
  "durable now s \<Longrightarrow> plain_id i \<Longrightarrow> durable now (fst (ss_increment now k d (Some sc) (Some i) s))"
  using durable_get [of now s k "Some sc" "Some i"]
  by (cases "ss_get now k (Some sc) (Some i) s") (simp add: ss_increment_def Let_def durable_set)

lemma durable_restore [wf_intros]:
  "durable now s \<Longrightarrow> plain_id (sn_scopeId snap) \<Longrightarrow> durable now (ss_restoreSnapshot now snap s)"
  unfolding ss_restoreSnapshot_def set_all_def
  by (rule fold_keeps) (auto intro: wf_intros)

fun scoped_op :: "ss_op \<Rightarrow> bool" where
  "scoped_op (SsGet k sc i) = True"
| "scoped_op (SsSet k v (Some sc) (Some i)) = plain_id i"
| "scoped_op (SsDelete k (Some sc) (Some i)) = plain_id i"
| "scoped_op (SsClear (Some sc) (Some i)) = plain_id i"
| "scoped_op (SsSetWithExpiry k v ttl (Some sc) (Some i)) = plain_id i"
| "scoped_op (SsGetWithExpiry k sc i) = True"
| "scoped_op (SsIncrement k d (Some sc) (Some i)) = plain_id i"
| "scoped_op (SsRestore snap) = plain_id (sn_scopeId snap)"
| "scoped_op SsFlush = True"
| "scoped_op _ = False"

lemma durable_apply: "durable now s \<Longrightarrow> scoped_op x \<Longrightarrow> durable now (ss_apply (now, x) s)"
  by (cases x rule: scoped_op.cases)
     (auto simp: fst_getWithExpiry ss_flush_def durable_def [of now s] intro: wf_intros)

lemma durable_history:
  "durable t s \<Longrightarrow> sorted (t # map fst ops) \<Longrightarrow> list_all (scoped_op \<circ> snd) ops \<Longrightarrow>
   durable (last (t # map fst ops)) (fold ss_apply ops s)"
proof (induction ops arbitrary: t s)
  case (Cons x ops)
  obtain t' op where x: "x = (t', op)" by force
  from Cons.prems x have "durable t' (ss_apply x s)"
    by (auto intro: durable_apply durable_mono)
  with Cons.IH [of t' "ss_apply x s"] Cons.prems x show ?case by auto
qed simp

text \<open>Every file of a durable store is one that \<open>loadStore\<close> reads.\<close>

lemma scope_path_read:
  assumes "jget (ss_files s) (scope_path sc i) = Some c"
  shows "scope_path sc i \<in> set (scope_files sc s)"
proof -
  have "scope_path sc i \<in> set (jkeys (ss_files s))"
    using assms by (auto simp: map_of_eq_Some_iff dest: map_of_SomeD intro: rev_image_eqI)
  then show ?thesis by (simp add: scope_files_def scope_path_def ends_with_def)
qed

lemma durable_reopen:
  assumes "durable now s"
  shows "ss_view now (open_store a now (ss_files s)) = ss_view now s"
proof
  fix ck
  let ?s0 = "\<lparr>ss_cache = [], ss_dirty = False, ss_autoSave = a, ss_files = ss_files s\<rparr>"
  let ?t = "open_store a now (ss_files s)"
  let ?ps = "getStorePath None None #
      concat (map (\<lambda>sc. scope_files sc ?s0) [Sc_agent, Sc_session, Sc_workflow, Sc_global])"
  have t: "?t = fold (loadFile now) ?ps ?s0" unfolding open_store_def by (rule loadStore_fold)
  have loaded: "jget (ss_cache ?t) \<subseteq>\<^sub>m jget (ss_cache s)"
      "\<forall>p\<in>set ?ps. held now (jget (ss_cache ?t)) (file_entries (ss_files s) p)"
    using assms loadFiles_target [of ?ps now "jget (ss_cache s)" ?s0]
    unfolding t by (auto simp: durable_def)
  show "ss_view now ?t ck = ss_view now s ck"
  proof (cases "jget (ss_cache ?t) ck")
    case (Some e)
    with loaded(1) have "jget (ss_cache s) ck = Some e" by (blast intro: map_le_SomeD)
    with Some show ?thesis by (simp add: ss_view_def)
  next
    case None
    have "expired now e" if e: "jget (ss_cache s) ck = Some e" for e
    proof (rule ccontr)
      assume live: "\<not> expired now e"
      with assms e have mem: "e \<in> set (file_entries (ss_files s) (entry_path e))" and key: "entry_key e = ck"
        by (auto simp: durable_def ss_wf_def)
      then obtain c where "jget (ss_files s) (entry_path e) = Some c"
        by (cases "jget (ss_files s) (entry_path e)") (auto simp: file_entries_def)
      then have "entry_path e \<in> set ?ps"
        using scope_path_read [of ?s0 "e_scope e" "e_scopeId e" c]
        by (cases "e_scope e") (simp_all add: entry_path_def)
      with loaded(2) have "held now (jget (ss_cache ?t)) (file_entries (ss_files s) (entry_path e))" by blast
      with mem live key None show False by (auto simp: held_def)
    qed
    with None show ?thesis by (simp add: ss_view_def split: option.split)
  qed
qed


definition demo_ops :: "(int \<times> ss_op) list" where
  "demo_ops =
     [(1, SsSet ''x'' (JNum 1) (Some Sc_agent) (Some ''a1'')),
      (2, SsSetWithExpiry ''lease'' (JStr ''held'') 50 (Some Sc_session) (Some ''s1'')),
      (3, SsIncrement ''x'' 2 (Some Sc_agent) (Some ''a1'')),
      (4, SsDelete ''y'' (Some Sc_agent) (Some ''a2''))]"



subsection \<open>Snapshots\<close>

text \<open>All entries of the cache carry ids without a colon.\<close>

definition colon_free :: "state_store \<Rightarrow> bool" where
  "colon_free s \<longleftrightarrow> list_all (\<lambda>e. CHR '':'' \<notin> set (e_scopeId e)) (jvals (ss_cache s))"

lemma colon_free_entry:
  assumes "ss_wf s" and "colon_free s" and "CHR '':'' \<notin> set i"
    and "jget (ss_cache s) (getCacheKey k (Some sc) (Some i)) = Some e"
  shows "here sc i e \<and> e_key e = k"
proof -
  from assms have "entry_key e = getCacheKey k (Some sc) (Some i)" "CHR '':'' \<notin> set (e_scopeId e)"
    by (auto simp: ss_wf_def colon_free_def list_all_iff jvals_mem simp del: set_map)
  with assms(3) getCacheKey_inj [of "e_scopeId e" i "e_key e" "e_scope e" k sc] show ?thesis
    by (auto simp: entry_key_def here_def)
qed

lemma jget_collect:
  "distinct (map e_key es) \<Longrightarrow>
   jget (fold (\<lambda>e m. jset m (e_key e) (e_value e)) es m) k =
     (case find (\<lambda>e. e_key e = k) es of Some e \<Rightarrow> Some (e_value e) | None \<Rightarrow> jget m k)"
proof (induction es arbitrary: m)
  case (Cons e es)
  have "find (\<lambda>e'. e_key e' = e_key e) es = None"
    using Cons.prems by (simp add: find_None_iff) (metis imageI)
  with Cons show ?case by (auto split: option.split)
qed simp

lemma jwf_collect: "jwf m \<Longrightarrow> jwf (fold (\<lambda>e m. jset m (e_key e) (e_value e)) es m)"
  by (rule fold_keeps) auto

lemma entries_distinct:
  assumes "ss_wf s"
  shows "distinct (map e_key (filter (\<lambda>e. e_scope e = sc \<and> e_scopeId e = i \<and> P e) (jvals (ss_cache s))))"
proof -
  have "map entry_key (jvals (ss_cache s)) = jkeys (ss_cache s)"
    using assms by (auto simp: ss_wf_def jget_mem [symmetric])
  then have "distinct (map entry_key (jvals (ss_cache s)))"
    using assms by (simp only: ss_wf_def jwf_def)
  then have "inj_on entry_key (set (jvals (ss_cache s)))" "distinct (jvals (ss_cache s))"
    by (simp_all only: distinct_map)
  then show ?thesis
    by (auto simp: distinct_map entry_key_def simp del: set_map intro!: inj_onI
        elim!: inj_onD)
qed

lemma snapshot_data:
  assumes "ss_wf s" and "colon_free s" and "CHR '':'' \<notin> set i"
  shows "jget (sn_data (ss_createSnapshot digest now rnd sc i s)) k =
    ss_view now s (getCacheKey k (Some sc) (Some i))"
proof -
  let ?es = "filter (\<lambda>e. e_scope e = sc \<and> e_scopeId e = i \<and> \<not> expired now e) (jvals (ss_cache s))"
  have mem: "e \<in> set ?es \<longleftrightarrow> here sc i e \<and> \<not> expired now e \<and> jget (ss_cache s) (entry_key e) = Some e" for e
    using assms(1) jvals_mem [of "ss_cache s" e] unfolding ss_wf_def here_def
    by (simp only: set_filter) blast
  have key: "here sc i e \<Longrightarrow> entry_key e = getCacheKey (e_key e) (Some sc) (Some i)" for e
    by (simp add: here_def entry_key_def)
  have data: "jget (sn_data (ss_createSnapshot digest now rnd sc i s)) k =
      (case find (\<lambda>e. e_key e = k) ?es of Some e \<Rightarrow> Some (e_value e) | None \<Rightarrow> None)"
    using jget_collect [OF entries_distinct [OF assms(1)]]
    by (simp add: ss_createSnapshot_def Let_def split: option.split)
  show ?thesis
  proof (cases "find (\<lambda>e. e_key e = k) ?es")
    case (Some e)
    then have "e \<in> set ?es" "e_key e = k" by (blast dest: find_SomeD)+
    with mem key have "jget (ss_cache s) (getCacheKey k (Some sc) (Some i)) = Some e" "\<not> expired now e"
      by auto
    with Some data show ?thesis by (simp add: ss_view_def)
  next
    case None
    have "expired now e" if e: "jget (ss_cache s) (getCacheKey k (Some sc) (Some i)) = Some e" for e
    proof (rule ccontr)
      assume "\<not> expired now e"
      with colon_free_entry [OF assms e] e mem key have "e \<in> set ?es \<and> e_key e = k" by auto
      with None show False by (auto simp: find_None_iff)
    qed
    with None data show ?thesis by (simp add: ss_view_def split: option.split)
  qed
qed

lemma jwf_snapshot_data: "jwf (sn_data (ss_createSnapshot digest now rnd sc i s))"
  by (simp add: ss_createSnapshot_def Let_def jwf_collect)

lemma snapshot_scope [simp]:
  "sn_scope (ss_createSnapshot digest now rnd sc i s) = sc"
  "sn_scopeId (ss_createSnapshot digest now rnd sc i s) = i"
  by (simp_all add: ss_createSnapshot_def Let_def)


lemma ss_view_clear_scoped:
  assumes "ss_wf s" and "colon_free s" and "plain_id i" and "CHR '':'' \<notin> set i'"
  shows "ss_view now (ss_clear now (Some sc) (Some i) s) (getCacheKey k (Some sc') (Some i')) =
    (if sc' = sc \<and> i' = i then None else ss_view now s (getCacheKey k (Some sc') (Some i')))"
proof (cases "jget (ss_cache s) (getCacheKey k (Some sc') (Some i'))")
  case None
  with assms show ?thesis by (simp add: ss_view_clear plain_id_def) (simp add: ss_view_def)
next
  case (Some e)
  with assms colon_free_entry [OF assms(1,2,4) Some] show ?thesis
    by (simp add: ss_view_clear plain_id_def here_def)
qed

lemma get_set_all:
  assumes "ss_wf s" and "jwf data" and "CHR '':'' \<notin> set i" and "CHR '':'' \<notin> set i'"
  shows "snd (ss_get now k (Some sc') (Some i') (set_all now (Some sc) (Some i) data s)) =
    (if sc' = sc \<and> i' = i
     then (case jget data k of Some v \<Rightarrow> v | None \<Rightarrow> snd (ss_get now k (Some sc) (Some i) s))
     else snd (ss_get now k (Some sc') (Some i') s))"
proof (cases "sc' = sc \<and> i' = i")
  case True
  then show ?thesis
    using ss_space.read_writes [OF assms(1,2), of now "Some sc" "Some i" k]
    by (simp add: set_all_def ss_read_def split: option.split)
next
  case False
  have other: "getCacheKey k (Some sc') (Some i') \<noteq> getCacheKey k2 (Some sc) (Some i)" for k2
    using False getCacheKey_inj [OF assms(4,3)] by auto
  from assms(1) have "ss_view now (set_all now (Some sc) (Some i) data s) (getCacheKey k (Some sc') (Some i'))
      = ss_view now s (getCacheKey k (Some sc') (Some i'))"
    by (induction data arbitrary: s) (auto simp: set_all_def ss_wf_set ss_view_set other)
  with False show ?thesis by (auto simp: snd_ss_get)
qed

text \<open>Clearing a scope id and writing a data object into it, as both restore operations do.\<close>

lemma get_clear_set_all:
  assumes "ss_wf s" and "colon_free s" and "jwf data" and "plain_id i" and "CHR '':'' \<notin> set i'"
  shows "snd (ss_get now k (Some sc') (Some i')
      (set_all now (Some sc) (Some i) data (ss_clear now (Some sc) (Some i) s))) =
    (if sc' = sc \<and> i' = i then (case jget data k of Some v \<Rightarrow> v | None \<Rightarrow> JUndef)
     else snd (ss_get now k (Some sc') (Some i') s))"
proof -
  have "CHR '':'' \<notin> set i" using assms(4) by (simp add: plain_id_def)
  with get_set_all [OF ss_wf_clear [OF assms(1)] assms(3) this assms(5)]
    ss_view_clear_scoped [OF assms(1,2,4) this] ss_view_clear_scoped [OF assms(1,2,4,5)]
  show ?thesis by (simp add: snd_ss_get split: option.split)
qed

text \<open>Restoring a snapshot brings back exactly the live values the scope id had when the snapshot
  was taken, whatever happened in between, and leaves every other scope id alone; the ids of the cached
  entries hold no colon.\<close>

lemma snapshot_restore_roundtrip:
  assumes "ss_wf s0" and "colon_free s0" and "ss_wf s" and "colon_free s" and "plain_id i"
    and "CHR '':'' \<notin> set i'"
  shows "snd (ss_get now k (Some sc') (Some i')
      (ss_restoreSnapshot now (ss_createSnapshot digest now0 rnd sc i s0) s)) =
    (if sc' = sc \<and> i' = i then snd (ss_get now0 k (Some sc) (Some i) s0)
     else snd (ss_get now k (Some sc') (Some i') s))"
proof -
  have "CHR '':'' \<notin> set i" using assms(5) by (simp add: plain_id_def)
  then show ?thesis
    using get_clear_set_all [OF assms(3,4) jwf_snapshot_data assms(5,6)] snapshot_data [OF assms(1,2)]
    by (simp add: ss_restoreSnapshot_def snd_ss_get)
qed

lemma snapshot_restore_roundtrip_witness:
  "snd (ss_get 7 ''x'' (Some Sc_agent) (Some ''a1'')
      (ss_restoreSnapshot 7 (ss_createSnapshot (\<lambda>_. ''d'') 5 ''r'' Sc_agent ''a1'' demo_store)
        (ss_set 6 ''x'' (JNum 9) (Some Sc_agent) (Some ''a1'') demo_store))) = JNum 1"
proof -
  let ?s = "ss_set 6 ''x'' (JNum 9) (Some Sc_agent) (Some ''a1'') demo_store"
  have wf: "ss_wf ?s" by (simp add: demo_store_wf wf_intros)
  have cf: "colon_free demo_store" "colon_free ?s" by code_simp+
  have id: "plain_id ''a1''" "CHR '':'' \<notin> set ''a1''" by (simp_all add: plain_id_def)
  have "snd (ss_get 5 ''x'' (Some Sc_agent) (Some ''a1'') demo_store) = JNum 1" by code_simp
  then show ?thesis
    using snapshot_restore_roundtrip [OF demo_store_wf cf(1) wf cf(2) id,
        of 7 "''x''" Sc_agent "\<lambda>_. ''d''" 5 "''r''" Sc_agent] by simp
qed

end
