(* ===== verification/RecoveryManager.thy ===== *)
theory RecoveryManager
  imports StateStore
begin

text \<open>
  Recovery points and plans (\<open>src/src/persistence/recovery-manager.ts\<close>, class
  \<open>RecoveryManager\<close>) over the state store. The recovery file is \<open>None\<close> when it is missing or does not
  parse. A plan's step carries the parameters \<open>restoreState\<close> reads. An agent or workflow id in the
  metadata is a string, as \<open>createRecoveryPoint\<close> writes it.
\<close>

datatype recovery_type = RT_checkpoint | RT_snapshot | RT_backup

datatype recovery_action =
  RA_restore_state | RA_restart_agent | RA_resume_workflow | RA_replay_events | RA_other string

datatype risk_level = Risk_low | Risk_medium | Risk_high

record RecoveryPoint =
  rp_id :: string
  rp_type :: recovery_type
  rp_scope :: PersistenceScope
  rp_scopeId :: string
  rp_timestamp :: int
  rp_data :: js_record
  rp_metadata :: "js_record option"

record RecoveryParams =
  rq_data :: "js_record option"
  rq_scope :: "PersistenceScope option"
  rq_scopeId :: "string option"

record RecoveryStep =
  rs_order :: int
  rs_action :: recovery_action
  rs_target :: string
  rs_params :: RecoveryParams

record RecoveryPlan =
  pl_recoveryPointId :: string
  pl_steps :: "RecoveryStep list"
  pl_estimatedDuration :: int
  pl_riskLevel :: risk_level

record RecoveryContext =
  cx_agentId :: "string option"
  cx_sessionId :: "string option"
  cx_workflowId :: "string option"
  cx_metadata :: "js_record option"

record RecoveryFile =
  rf_version :: string
  rf_recoveryPoints :: "RecoveryPoint list"
  rf_updatedAt :: int

record recovery_manager =
  rv_store :: state_store
  rv_points :: "(string, RecoveryPoint) jsmap"
  rv_file :: "RecoveryFile option"
  rv_dirty :: bool

datatype recovery_error = Point_not_found string | Unknown_action string | Checksum_mismatch

text \<open>\<open>metadata?.expiresAt\<close>: a non-zero number in the past.\<close>

definition point_expired :: "int \<Rightarrow> RecoveryPoint \<Rightarrow> bool" where
  "point_expired now p =
     (case rp_metadata p of
        None \<Rightarrow> False
      | Some md \<Rightarrow> (case jget md ''expiresAt'' of Some (JNum x) \<Rightarrow> x \<noteq> 0 \<and> x < rat_of_int now | _ \<Rightarrow> False))"

definition loadRecoveryPoints :: "int \<Rightarrow> recovery_manager \<Rightarrow> recovery_manager" where
  "loadRecoveryPoints now s =
     (case rv_file s of
        None \<Rightarrow> s
      | Some f \<Rightarrow>
          s\<lparr>rv_points := fold (\<lambda>p m. if point_expired now p then m else jset m (rp_id p) p)
                           (rf_recoveryPoints f) (rv_points s)\<rparr>)"

definition open_recovery :: "int \<Rightarrow> state_store \<Rightarrow> RecoveryFile option \<Rightarrow> recovery_manager" where
  "open_recovery now st file =
     loadRecoveryPoints now \<lparr>rv_store = st, rv_points = [], rv_file = file, rv_dirty = False\<rparr>"

definition saveRecoveryPoints :: "int \<Rightarrow> recovery_manager \<Rightarrow> recovery_manager" where
  "saveRecoveryPoints now s =
     s\<lparr>rv_file := Some \<lparr>rf_version = ''1.0.0'', rf_recoveryPoints = jvals (rv_points s), rf_updatedAt = now\<rparr>\<rparr>"

definition collect_step ::
    "int \<Rightarrow> PersistenceScope \<Rightarrow> string \<Rightarrow> string \<Rightarrow> state_store \<times> js_record \<Rightarrow> state_store \<times> js_record" where
  "collect_step now scope scopeId key acc =
     (case acc of (st, data) \<Rightarrow>
        case ss_get now key (Some scope) (Some scopeId) st of (st', value) \<Rightarrow>
          (st', if value \<noteq> JUndef then jset data key value else data))"

definition collectState ::
    "int \<Rightarrow> PersistenceScope \<Rightarrow> string \<Rightarrow> state_store \<Rightarrow> state_store \<times> js_record" where
  "collectState now scope scopeId st =
     fold (collect_step now scope scopeId) (ss_list now [] (Some scope) (Some scopeId) st) (st, [])"

definition context_metadata :: "RecoveryContext option \<Rightarrow> js_record" where
  "context_metadata context =
     (let str = (\<lambda>f. case context of Some c \<Rightarrow> (case f c of Some x \<Rightarrow> JStr x | None \<Rightarrow> JUndef) | None \<Rightarrow> JUndef);
          base = (case context of Some c \<Rightarrow> (case cx_metadata c of Some m \<Rightarrow> m | None \<Rightarrow> []) | None \<Rightarrow> [])
      in js_spread base
           [(''agentId'', str cx_agentId), (''sessionId'', str cx_sessionId), (''workflowId'', str cx_workflowId)])"

definition createRecoveryPoint ::
    "int \<Rightarrow> string \<Rightarrow> recovery_type \<Rightarrow> PersistenceScope \<Rightarrow> string \<Rightarrow> RecoveryContext option \<Rightarrow>
     recovery_manager \<Rightarrow> recovery_manager \<times> RecoveryPoint" where
  "createRecoveryPoint now rnd type scope scopeId context s =
     (case collectState now scope scopeId (rv_store s) of (st, data) \<Rightarrow>
        (let p = \<lparr>rp_id = gen_id ''recovery'' now rnd, rp_type = type, rp_scope = scope,
                  rp_scopeId = scopeId, rp_timestamp = now, rp_data = data,
                  rp_metadata = Some (context_metadata context)\<rparr>
         in (saveRecoveryPoints now (s\<lparr>rv_store := st, rv_points := jset (rv_points s) (rp_id p) p\<rparr>), p)))"

definition loadRecoveryPoint :: "string \<Rightarrow> recovery_manager \<Rightarrow> RecoveryPoint option" where
  "loadRecoveryPoint i s = jget (rv_points s) i"

definition listRecoveryPoints ::
    "int \<Rightarrow> PersistenceScope option \<Rightarrow> string option \<Rightarrow> recovery_manager \<Rightarrow> RecoveryPoint list" where
  "listRecoveryPoints now scope scopeId s =
     sort_key (\<lambda>p. - rp_timestamp p)
       (filter (\<lambda>p. (case scope of None \<Rightarrow> True | Some sc \<Rightarrow> rp_scope p = sc) \<and>
                    (case scopeId of None \<Rightarrow> True | Some i \<Rightarrow> i = [] \<or> rp_scopeId p = i) \<and>
                    \<not> point_expired now p) (jvals (rv_points s)))"

definition assessRiskLevel :: "int \<Rightarrow> risk_level" where
  "assessRiskLevel age =
     (if age < 5 * 60 * 1000 then Risk_low else if age < 30 * 60 * 1000 then Risk_medium else Risk_high)"

text \<open>The metadata entry under a name when it is a non-empty string.\<close>

definition metadata_id :: "RecoveryPoint \<Rightarrow> string \<Rightarrow> string option" where
  "metadata_id p name =
     (case rp_metadata p of
        None \<Rightarrow> None
      | Some md \<Rightarrow> (case jget md name of Some (JStr x) \<Rightarrow> if x \<noteq> [] then Some x else None | _ \<Rightarrow> None))"

definition createRecoveryPlan ::
    "int \<Rightarrow> string \<Rightarrow> recovery_manager \<Rightarrow> recovery_error + RecoveryPlan" where
  "createRecoveryPlan now recoveryPointId s =
     (case jget (rv_points s) recoveryPointId of
        None \<Rightarrow> Inl (Point_not_found recoveryPointId)
      | Some p \<Rightarrow>
          (let params = \<lparr>rq_data = None, rq_scope = Some (rp_scope p), rq_scopeId = Some (rp_scopeId p)\<rparr>;
               s1 = [\<lparr>rs_order = 1, rs_action = RA_restore_state,
                      rs_target = scope_name (rp_scope p) @ '':'' @ rp_scopeId p,
                      rs_params = params\<lparr>rq_data := Some (rp_data p)\<rparr>\<rparr>];
               s2 = (case metadata_id p ''agentId'' of
                       None \<Rightarrow> s1
                     | Some a \<Rightarrow> s1 @ [\<lparr>rs_order = int (length s1) + 1, rs_action = RA_restart_agent,
                                      rs_target = a, rs_params = params\<rparr>]);
               s3 = (case metadata_id p ''workflowId'' of
                       None \<Rightarrow> s2
                     | Some w \<Rightarrow> s2 @ [\<lparr>rs_order = int (length s2) + 1, rs_action = RA_resume_workflow,
                                      rs_target = w, rs_params = params\<rparr>])
           in Inr \<lparr>pl_recoveryPointId = recoveryPointId, pl_steps = s3,
                   pl_estimatedDuration = int (length s3) * 5000,
                   pl_riskLevel = assessRiskLevel (now - rp_timestamp p)\<rparr>))"

definition restoreState :: "int \<Rightarrow> RecoveryParams \<Rightarrow> state_store \<Rightarrow> state_store" where
  "restoreState now params st =
     (case rq_data params of
        None \<Rightarrow> st
      | Some data \<Rightarrow>
          set_all now (rq_scope params) (rq_scopeId params) data
            (case (rq_scope params, rq_scopeId params) of
               (Some sc, Some i) \<Rightarrow> if i \<noteq> [] then ss_clear now (Some sc) (Some i) st else st
             | _ \<Rightarrow> st))"

definition status_key :: "string \<Rightarrow> string \<Rightarrow> string" where
  "status_key kind target = kind @ '':'' @ target @ '':status''"

definition executeRecoveryStep ::
    "int \<Rightarrow> RecoveryStep \<Rightarrow> state_store \<Rightarrow> state_store \<times> (recovery_error + unit)" where
  "executeRecoveryStep now step st =
     (case rs_action step of
        RA_restore_state \<Rightarrow> (restoreState now (rs_params step) st, Inr ())
      | RA_restart_agent \<Rightarrow>
          (ss_set now (status_key ''agent'' (rs_target step)) (JStr ''restarted'')
             (Some Sc_agent) (Some (rs_target step)) st, Inr ())
      | RA_resume_workflow \<Rightarrow>
          (ss_set now (status_key ''workflow'' (rs_target step)) (JStr ''resumed'')
             (Some Sc_workflow) (Some (rs_target step)) st, Inr ())
      | RA_replay_events \<Rightarrow> (st, Inr ())
      | RA_other a \<Rightarrow> (st, Inl (Unknown_action a)))"

fun execute_steps ::
    "int \<Rightarrow> RecoveryStep list \<Rightarrow> state_store \<Rightarrow> state_store \<times> (recovery_error + unit)" where
  "execute_steps now [] st = (st, Inr ())"
| "execute_steps now (x # xs) st =
     (case executeRecoveryStep now x st of
        (st', Inl e) \<Rightarrow> (st', Inl e)
      | (st', Inr _) \<Rightarrow> execute_steps now xs st')"

definition executeRecoveryPlan ::
    "int \<Rightarrow> RecoveryPlan \<Rightarrow> recovery_manager \<Rightarrow> recovery_manager \<times> (recovery_error + unit)" where
  "executeRecoveryPlan now plan s =
     (case execute_steps now (sort_key rs_order (pl_steps plan)) (rv_store s) of
        (st, r) \<Rightarrow> (s\<lparr>rv_store := st\<rparr>, r))"

definition deleteRecoveryPoint :: "int \<Rightarrow> string \<Rightarrow> recovery_manager \<Rightarrow> recovery_manager" where
  "deleteRecoveryPoint now i s = saveRecoveryPoints now (s\<lparr>rv_points := jdel (rv_points s) i\<rparr>)"

definition pruneExpiredRecoveryPoints :: "int \<Rightarrow> recovery_manager \<Rightarrow> recovery_manager \<times> nat" where
  "pruneExpiredRecoveryPoints now s =
     (let toDelete = map fst (filter (\<lambda>(_, p). point_expired now p) (rv_points s));
          s' = s\<lparr>rv_points := fold (\<lambda>i m. jdel m i) toDelete (rv_points s)\<rparr>
      in (if length toDelete > 0 then saveRecoveryPoints now s' else s', length toDelete))"

definition rv_createSnapshot ::
    "(jsval \<Rightarrow> string) \<Rightarrow> int \<Rightarrow> string \<Rightarrow> PersistenceScope \<Rightarrow> string \<Rightarrow> recovery_manager \<Rightarrow>
     recovery_manager \<times> StateSnapshot" where
  "rv_createSnapshot digest now rnd scope scopeId s =
     (case collectState now scope scopeId (rv_store s) of (st, data) \<Rightarrow>
        (s\<lparr>rv_store := st\<rparr>,
         \<lparr>sn_id = gen_id ''snapshot'' now rnd, sn_scope = scope, sn_scopeId = scopeId,
          sn_timestamp = now, sn_version = ''1.0.0'', sn_data = data,
          sn_checksum = calculateChecksum digest data\<rparr>))"

definition restoreFromSnapshot ::
    "(jsval \<Rightarrow> string) \<Rightarrow> int \<Rightarrow> StateSnapshot \<Rightarrow> recovery_manager \<Rightarrow>
     recovery_manager \<times> (recovery_error + unit)" where
  "restoreFromSnapshot digest now snapshot s =
     (if calculateChecksum digest (sn_data snapshot) \<noteq> sn_checksum snapshot then (s, Inl Checksum_mismatch)
      else (s\<lparr>rv_store := restoreState now
                \<lparr>rq_data = Some (sn_data snapshot), rq_scope = Some (sn_scope snapshot),
                 rq_scopeId = Some (sn_scopeId snapshot)\<rparr> (rv_store s)\<rparr>, Inr ()))"

definition rv_flush :: "int \<Rightarrow> recovery_manager \<Rightarrow> recovery_manager" where
  "rv_flush now s = (if rv_dirty s then (saveRecoveryPoints now s)\<lparr>rv_dirty := False\<rparr> else s)"

definition rv_close :: "int \<Rightarrow> recovery_manager \<Rightarrow> recovery_manager" where
  "rv_close now s =
     (let s1 = (rv_flush now s)\<lparr>rv_points := []\<rparr> in s1\<lparr>rv_store := ss_close now (rv_store s1)\<rparr>)"

subsection \<open>What is collected\<close>

lemma collect_fold:
  assumes "ss_wf st" and "distinct keys" and "CHR '':'' \<notin> set i"
  shows "ss_view now (fst (fold (collect_step now sc i) keys (st, d))) = ss_view now st \<and>
    ss_wf (fst (fold (collect_step now sc i) keys (st, d))) \<and>
    (jwf d \<longrightarrow> jwf (snd (fold (collect_step now sc i) keys (st, d)))) \<and>
    jget (snd (fold (collect_step now sc i) keys (st, d))) k =
      (if k \<in> set keys \<and> snd (ss_get now k (Some sc) (Some i) st) \<noteq> JUndef
       then Some (snd (ss_get now k (Some sc) (Some i) st)) else jget d k)"
  using assms(1,2)
proof (induction keys arbitrary: st d)
  case (Cons key keys)
  obtain st' v where get: "ss_get now key (Some sc) (Some i) st = (st', v)" by force
  from get ss_wf_get [OF Cons.prems(1), of now key "Some sc" "Some i"]
    ss_view_get [of now key "Some sc" "Some i" st]
  have st': "ss_wf st'" "ss_view now st' = ss_view now st" by simp_all
  then have "snd (ss_get now k (Some sc) (Some i) st') = snd (ss_get now k (Some sc) (Some i) st)" for k
    by (simp add: snd_ss_get)
  with Cons.IH [OF st'(1), of "if v \<noteq> JUndef then jset d key v else d"] Cons.prems(2) get st'(2)
  show ?case by (auto simp: collect_step_def)
qed simp


lemma list_keys:
  assumes "ss_wf st" and "plain_id i"
  shows "distinct (ss_list now [] (Some sc) (Some i) st)"
    and "colon_free st \<Longrightarrow> k \<in> set (ss_list now [] (Some sc) (Some i) st) \<longleftrightarrow>
      ss_view now st (getCacheKey k (Some sc) (Some i)) \<noteq> None"
proof -
  have eq: "ss_list now [] (Some sc) (Some i) st =
      map e_key (filter (\<lambda>e. e_scope e = sc \<and> e_scopeId e = i \<and> \<not> expired now e) (jvals (ss_cache st)))"
    using assms(2) by (simp add: ss_list_def starts_with_def here_def)
  show "distinct (ss_list now [] (Some sc) (Some i) st)"
    unfolding eq by (rule entries_distinct [OF assms(1)])
  assume cf: "colon_free st"
  have i: "CHR '':'' \<notin> set i" using assms(2) by (simp add: plain_id_def)
  have wf: "jwf (ss_cache st)" "\<And>ck e. jget (ss_cache st) ck = Some e \<Longrightarrow> entry_key e = ck"
    using assms(1) by (auto simp: ss_wf_def)
  show "k \<in> set (ss_list now [] (Some sc) (Some i) st) \<longleftrightarrow>
      ss_view now st (getCacheKey k (Some sc) (Some i)) \<noteq> None"
  proof
    assume "k \<in> set (ss_list now [] (Some sc) (Some i) st)"
    then obtain e where e: "e \<in> set (jvals (ss_cache st))" "here sc i e" "\<not> expired now e" "e_key e = k"
      unfolding eq by (auto simp: here_def)
    from e(1) wf have "jget (ss_cache st) (entry_key e) = Some e" unfolding jvals_mem [OF wf(1)] by metis
    with e show "ss_view now st (getCacheKey k (Some sc) (Some i)) \<noteq> None"
      by (simp add: ss_view_def here_def entry_key_def)
  next
    assume "ss_view now st (getCacheKey k (Some sc) (Some i)) \<noteq> None"
    then obtain e where e: "jget (ss_cache st) (getCacheKey k (Some sc) (Some i)) = Some e" "\<not> expired now e"
      by (auto simp: ss_view_def split: option.splits if_splits)
    with colon_free_entry [OF assms(1) cf i e(1)] have "here sc i e" "e_key e = k" by auto
    moreover from e(1) have "e \<in> set (jvals (ss_cache st))" unfolding jvals_mem [OF wf(1)] by blast
    ultimately show "k \<in> set (ss_list now [] (Some sc) (Some i) st)"
      unfolding eq using e(2) by (auto simp: here_def intro!: rev_image_eqI)
  qed
qed

lemma collectState_read:
  assumes "ss_wf st" and "colon_free st" and "plain_id i"
  shows "jwf (snd (collectState now sc i st))"
    and "(case jget (snd (collectState now sc i st)) k of Some v \<Rightarrow> v | None \<Rightarrow> JUndef) =
      snd (ss_get now k (Some sc) (Some i) st)"
proof -
  have i: "CHR '':'' \<notin> set i" using assms(3) by (simp add: plain_id_def)
  note fold = collect_fold [OF assms(1) list_keys(1) [OF assms(1,3)] i, of now sc now sc "[]"]
  show "jwf (snd (collectState now sc i st))"
    using fold [of k] by (simp add: collectState_def)
  show "(case jget (snd (collectState now sc i st)) k of Some v \<Rightarrow> v | None \<Rightarrow> JUndef) =
      snd (ss_get now k (Some sc) (Some i) st)"
    using fold [of k] list_keys(2) [OF assms(1,3,2), of k now sc]
    by (auto simp: collectState_def snd_ss_get split: option.split)
qed

subsection \<open>What a plan writes\<close>

text \<open>The write of a status step, seen by a reader.\<close>

definition status_hit ::
    "PersistenceScope \<Rightarrow> string \<Rightarrow> string option \<Rightarrow> PersistenceScope \<Rightarrow> string \<Rightarrow> string \<Rightarrow> bool" where
  "status_hit sc kind target sc' i' k \<longleftrightarrow>
     (case target of None \<Rightarrow> False
      | Some t \<Rightarrow> sc = sc' \<and> t @ '':'' @ status_key kind t = i' @ '':'' @ k)"

definition status_write ::
    "int \<Rightarrow> PersistenceScope \<Rightarrow> string \<Rightarrow> string option \<Rightarrow> string \<Rightarrow> state_store \<Rightarrow> state_store" where
  "status_write now sc kind target v st =
     (case target of None \<Rightarrow> st | Some t \<Rightarrow> ss_set now (status_key kind t) (JStr v) (Some sc) (Some t) st)"

lemma ss_wf_status_write [wf_intros]: "ss_wf st \<Longrightarrow> ss_wf (status_write now sc kind target v st)"
  by (simp add: status_write_def ss_wf_set split: option.split)

lemma get_status_write:
  "ss_wf st \<Longrightarrow> snd (ss_get now k (Some sc') (Some i') (status_write now sc kind target v st)) =
     (if status_hit sc kind target sc' i' k then JStr v else snd (ss_get now k (Some sc') (Some i') st))"
  by (cases target) (auto simp: status_write_def status_hit_def snd_ss_get ss_view_set getCacheKey_eq)

lemma plan_steps:
  assumes "jget (rv_points s) r = Some p"
  shows "\<exists>plan. createRecoveryPlan now r s = Inr plan \<and>
    execute_steps t (sort_key rs_order (pl_steps plan)) st =
      (status_write t Sc_workflow ''workflow'' (metadata_id p ''workflowId'') ''resumed''
       (status_write t Sc_agent ''agent'' (metadata_id p ''agentId'') ''restarted''
        (restoreState t \<lparr>rq_data = Some (rp_data p), rq_scope = Some (rp_scope p),
           rq_scopeId = Some (rp_scopeId p)\<rparr> st)), Inr ())"
  using assms
  by (cases "metadata_id p ''agentId''"; cases "metadata_id p ''workflowId''")
     (simp_all add: createRecoveryPlan_def executeRecoveryStep_def status_write_def Let_def)

lemma metadata_context:
  "rp_metadata p = Some (context_metadata context) \<Longrightarrow> metadata_id p ''agentId'' =
     Option.bind context (\<lambda>c. Option.bind (cx_agentId c) (\<lambda>a. if a \<noteq> [] then Some a else None))"
  "rp_metadata p = Some (context_metadata context) \<Longrightarrow> metadata_id p ''workflowId'' =
     Option.bind context (\<lambda>c. Option.bind (cx_workflowId c) (\<lambda>a. if a \<noteq> [] then Some a else None))"
  by (auto simp: metadata_id_def context_metadata_def Let_def jget_js_spread jwf_def split: option.splits)


lemma restoreState_read:
  assumes "ss_wf st" and "colon_free st" and "jwf data" and "plain_id i" and "CHR '':'' \<notin> set i'"
  shows "snd (ss_get now k (Some sc') (Some i')
      (restoreState now \<lparr>rq_data = Some data, rq_scope = Some sc, rq_scopeId = Some i\<rparr> st)) =
    (if sc' = sc \<and> i' = i then (case jget data k of Some v \<Rightarrow> v | None \<Rightarrow> JUndef)
     else snd (ss_get now k (Some sc') (Some i') st))"
  using get_clear_set_all [OF assms] assms(4) by (simp add: restoreState_def plain_id_def)

lemma ss_wf_restoreState [wf_intros]: "ss_wf st \<Longrightarrow> ss_wf (restoreState now q st)"
  by (auto simp: restoreState_def split: option.split intro!: wf_intros)

text \<open>The checksum text sees of a nested object only the keys that also occur at the top.\<close>

fun same_but_nested :: "string list \<Rightarrow> jsval \<Rightarrow> jsval \<Rightarrow> bool" where
  "same_but_nested ks (JObj m) (JObj m') =
     (m = m' \<or> (list_all (\<lambda>k. k \<notin> set ks) (jkeys m) \<and> list_all (\<lambda>k. k \<notin> set ks) (jkeys m')))"
| "same_but_nested ks v v' = (v = v')"

lemma json_allow_foreign:
  assumes "list_all (\<lambda>k. k \<notin> set ks) (jkeys m)"
  shows "json_allow ks (JObj m) = JObj []"
proof -
  have "jget (map (\<lambda>(k, v). (k, json_allow ks v)) m) k = None" if "k \<in> set ks" for k
    using assms that by (auto simp: map_of_eq_None_iff list_all_iff)
  then have "List.map_filter (\<lambda>k. map_option (\<lambda>v. (k, v)) (jget (map (\<lambda>(k, v). (k, json_allow ks v)) m) k)) ks = []"
    by (auto simp: List.map_filter_def filter_empty_conv)
  then show ?thesis by (simp add: Let_def)
qed

lemma json_allow_nested: "same_but_nested ks v v' \<Longrightarrow> json_allow ks v = json_allow ks v'"
proof (cases "(ks, v, v')" rule: same_but_nested.cases)
  case (1 ks' m m')
  assume "same_but_nested ks v v'"
  with 1 show ?thesis by (auto simp del: json_allow.simps simp: json_allow_foreign)
qed auto

lemma checksum_nested:
  assumes "list_all2 (\<lambda>(k, v) (k', v'). k = k' \<and> same_but_nested (jkeys data) v v') data data'"
  shows "calculateChecksum digest data' = calculateChecksum digest data"
proof -
  have keys: "jkeys data' = jkeys data"
    using assms by (induction rule: list_all2_induct) auto
  have "same_but_nested (sort (jkeys data)) v v' = same_but_nested (jkeys data) v v'" for v v'
    by (cases "(jkeys data, v, v')" rule: same_but_nested.cases) simp_all
  then have "map (\<lambda>(k, v). (k, json_allow (sort (jkeys data)) v)) data' =
      map (\<lambda>(k, v). (k, json_allow (sort (jkeys data)) v)) data"
    using assms json_allow_nested [of "sort (jkeys data)"]
    by (auto simp: list_all2_conv_all_nth split_def intro!: nth_equalityI)
  then show ?thesis by (simp add: calculateChecksum_def keys Let_def)
qed

subsection \<open>Properties\<close>

text \<open>A recovery plan undoes what happened since its point: executed on the state of a later
  time, it succeeds, every key of the point's scope id reads as when the point was created, every other
  scope id is untouched, except for the status entries that the restart and resume steps write.\<close>

lemma recovery_plan_restores:
  assumes "createRecoveryPoint now0 rnd type sc i context s0 = (s1, p)"
    and "ss_wf (rv_store s0)" and "colon_free (rv_store s0)" and "plain_id i"
    and "loadRecoveryPoint r s = Some p" and "ss_wf (rv_store s)" and "colon_free (rv_store s)"
    and "CHR '':'' \<notin> set i'"
  shows "\<exists>plan s'. createRecoveryPlan now r s = Inr plan \<and>
    executeRecoveryPlan t plan s = (s', Inr ()) \<and> rv_points s' = rv_points s \<and>
    snd (ss_get t k (Some sc') (Some i') (rv_store s')) =
      (if status_hit Sc_workflow ''workflow'' (metadata_id p ''workflowId'') sc' i' k then JStr ''resumed''
       else if status_hit Sc_agent ''agent'' (metadata_id p ''agentId'') sc' i' k then JStr ''restarted''
       else if sc' = sc \<and> i' = i then snd (ss_get now0 k (Some sc) (Some i) (rv_store s0))
       else snd (ss_get t k (Some sc') (Some i') (rv_store s)))"
proof -
  let ?params = "\<lparr>rq_data = Some (rp_data p), rq_scope = Some (rp_scope p), rq_scopeId = Some (rp_scopeId p)\<rparr>"
  let ?r = "restoreState t ?params (rv_store s)"
  obtain st data where col: "collectState now0 sc i (rv_store s0) = (st, data)" by force
  have p: "rp_scope p = sc" "rp_scopeId p = i" "rp_data p = data"
    using assms(1) by (auto simp: createRecoveryPoint_def col Let_def)
  have data: "jwf data" "(case jget data k of Some v \<Rightarrow> v | None \<Rightarrow> JUndef) =
      snd (ss_get now0 k (Some sc) (Some i) (rv_store s0))"
    using collectState_read [OF assms(2,3,4), of now0 sc] by (simp_all add: col)
  have restored: "snd (ss_get t k (Some sc') (Some i') ?r) =
      (if sc' = sc \<and> i' = i then snd (ss_get now0 k (Some sc) (Some i) (rv_store s0))
       else snd (ss_get t k (Some sc') (Some i') (rv_store s)))"
    unfolding p restoreState_read [OF assms(6,7) data(1) assms(4,8)] data(2) by simp
  have wf: "ss_wf ?r" using assms(6) by (rule ss_wf_restoreState)
  from plan_steps [of s r p now t "rv_store s"] assms(5)
  obtain plan where plan: "createRecoveryPlan now r s = Inr plan"
      "execute_steps t (sort_key rs_order (pl_steps plan)) (rv_store s) =
       (status_write t Sc_workflow ''workflow'' (metadata_id p ''workflowId'') ''resumed''
        (status_write t Sc_agent ''agent'' (metadata_id p ''agentId'') ''restarted'' ?r), Inr ())"
    by (auto simp: loadRecoveryPoint_def)
  show ?thesis
    using plan
    by (simp add: executeRecoveryPlan_def get_status_write wf ss_wf_status_write restored)
qed

text \<open>The snapshot checksum does not protect nested data: \<open>JSON.stringify\<close> with the top-level keys
  as its allow list drops every other key of every nested object, so a snapshot whose nested objects
  were replaced by others without top-level key names passes \<open>restoreFromSnapshot\<close> and is restored.\<close>

lemma nested_tampering_accepted:
  assumes "sn_checksum snap = calculateChecksum digest (sn_data snap)"
    and "list_all2 (\<lambda>(k, v) (k', v'). k = k' \<and> same_but_nested (jkeys (sn_data snap)) v v') (sn_data snap) data'"
  shows "snd (restoreFromSnapshot digest now (snap\<lparr>sn_data := data'\<rparr>) s) = Inr ()"
  using assms checksum_nested [OF assms(2), of digest] by (simp add: restoreFromSnapshot_def)

definition demo_recovery :: recovery_manager where
  "demo_recovery = fst (createRecoveryPoint 5 ''r'' RT_backup Sc_agent ''a1''
     (Some \<lparr>cx_agentId = Some ''a1'', cx_sessionId = None, cx_workflowId = None, cx_metadata = None\<rparr>)
     (open_recovery 5 demo_store None))"

lemma recovery_plan_restores_witness:
  "\<exists>plan s'. createRecoveryPlan 9 ''recovery-5-r'' demo_recovery = Inr plan \<and>
    executeRecoveryPlan 9 plan demo_recovery = (s', Inr ()) \<and> rv_points s' = rv_points demo_recovery \<and>
    snd (ss_get 9 ''x'' (Some Sc_agent) (Some ''a1'') (rv_store s')) = JNum 1"
proof -
  let ?ctx = "Some \<lparr>cx_agentId = Some ''a1'', cx_sessionId = None, cx_workflowId = None, cx_metadata = None\<rparr>"
  let ?p = "snd (createRecoveryPoint 5 ''r'' RT_backup Sc_agent ''a1'' ?ctx (open_recovery 5 demo_store None))"
  have create: "createRecoveryPoint 5 ''r'' RT_backup Sc_agent ''a1'' ?ctx (open_recovery 5 demo_store None) =
      (demo_recovery, ?p)" by (simp add: demo_recovery_def)
  have st: "rv_store (open_recovery 5 demo_store None) = demo_store"
    by (simp add: open_recovery_def loadRecoveryPoints_def)
  have st': "rv_store demo_recovery = fst (collectState 5 Sc_agent ''a1'' demo_store)"
    by (simp add: demo_recovery_def createRecoveryPoint_def st saveRecoveryPoints_def Let_def split: prod.split)
  have wf': "ss_wf (rv_store demo_recovery)"
    unfolding st' collectState_def
    using collect_fold [OF demo_store_wf list_keys(1) [OF demo_store_wf], of "''a1''" "''a1''"]
    by (simp add: plain_id_def)
  have cf: "colon_free demo_store" "colon_free (rv_store demo_recovery)" by code_simp+
  have p: "loadRecoveryPoint ''recovery-5-r'' demo_recovery = Some ?p" by code_simp
  have vals: "metadata_id ?p ''workflowId'' = None" "metadata_id ?p ''agentId'' = Some ''a1''"
      "snd (ss_get 5 ''x'' (Some Sc_agent) (Some ''a1'') demo_store) = JNum 1" by code_simp+
  show ?thesis
    using recovery_plan_restores [OF create _ _ _ p wf' cf(2), of "''a1''" 9 9 "''x''" Sc_agent]
      demo_store_wf cf(1) vals
    by (simp add: st plain_id_def status_hit_def status_key_def)
qed

lemma nested_tampering_accepted_witness:
  "snd (restoreFromSnapshot (\<lambda>v. case v of JObj m \<Rightarrow> concat (jkeys m) | _ \<Rightarrow> []) 9
      \<lparr>sn_id = ''s'', sn_scope = Sc_agent, sn_scopeId = ''a1'', sn_timestamp = 1, sn_version = ''1.0.0'',
       sn_data = [(''cfg'', JObj [(''admin'', JBool True)])], sn_checksum = ''cfg''\<rparr> demo_recovery) = Inr ()"
  using nested_tampering_accepted [of "\<lparr>sn_id = ''s'', sn_scope = Sc_agent, sn_scopeId = ''a1'',
      sn_timestamp = 1, sn_version = ''1.0.0'',
      sn_data = [(''cfg'', JObj [(''admin'', JBool False)])], sn_checksum = ''cfg''\<rparr>"
    "\<lambda>v. case v of JObj m \<Rightarrow> concat (jkeys m) | _ \<Rightarrow> []" "[(''cfg'', JObj [(''admin'', JBool True)])]"]
  by (simp add: calculateChecksum_def Let_def List.map_filter_def)

end
