(* ===== verification/OrchJson.thy ===== *)
theory OrchJson
  imports OrchTypes
begin

text \<open>
  The records of the orchestrator as the JavaScript values that \<open>saveState\<close> hands to the state
  store and \<open>loadState\<close> casts back (\<open>src/src/orchestrator/orchestrator.ts\<close>). A missing optional
  field is a missing property. Reading is partial: \<open>None\<close> for a value of another shape, which the cast of
  the code does not detect.
\<close>

definition js_object :: "(string \<times> jsval option) list \<Rightarrow> jsval" where
  "js_object fs = JObj (List.map_filter (\<lambda>(k, v). map_option (\<lambda>x. (k, x)) v) fs)"

fun js_field :: "jsval \<Rightarrow> string \<Rightarrow> jsval option" where
  "js_field (JObj m) k = jget m k"
| "js_field _ k = None"

lemma js_field_object:
  assumes "distinct (map fst fs)"
  shows "js_field (js_object fs) k = Option.bind (map_of fs k) id"
  using assms
proof (induction fs)
  case (Cons f fs)
  obtain j v where f: "f = (j, v)" by force
  have "map_of fs j = None" using Cons.prems f by (simp add: map_of_eq_None_iff)
  with Cons f show ?case
    by (cases v) (auto simp: js_object_def List.map_filter_simps)
qed (simp add: js_object_def List.map_filter_simps)

subsection \<open>Scalars\<close>

definition js_int :: "int \<Rightarrow> jsval" where "js_int n = JNum (rat_of_int n)"

fun to_str :: "jsval \<Rightarrow> string option" where
  "to_str (JStr x) = Some x" | "to_str _ = None"

fun to_int :: "jsval \<Rightarrow> int option" where
  "to_int (JNum q) = (if rat_of_int \<lfloor>q\<rfloor> = q then Some \<lfloor>q\<rfloor> else None)" | "to_int _ = None"

fun to_obj :: "jsval \<Rightarrow> js_record option" where
  "to_obj (JObj m) = Some m" | "to_obj _ = None"

fun all_some :: "'a option list \<Rightarrow> 'a list option" where
  "all_some [] = Some []"
| "all_some (x # xs) = (case (x, all_some xs) of (Some y, Some ys) \<Rightarrow> Some (y # ys) | _ \<Rightarrow> None)"

fun to_list :: "(jsval \<Rightarrow> 'a option) \<Rightarrow> jsval \<Rightarrow> 'a list option" where
  "to_list f (JArr xs) = all_some (map f xs)" | "to_list f _ = None"

text \<open>A required property and an optional one.\<close>

definition req :: "(jsval \<Rightarrow> 'a option) \<Rightarrow> jsval \<Rightarrow> string \<Rightarrow> 'a option" where
  "req f v k = Option.bind (js_field v k) f"

definition opt :: "(jsval \<Rightarrow> 'a option) \<Rightarrow> jsval \<Rightarrow> string \<Rightarrow> 'a option option" where
  "opt f v k = (case js_field v k of None \<Rightarrow> Some None | Some x \<Rightarrow> map_option Some (f x))"

named_theorems codec_simps

lemma to_int_js_int [simp]: "to_int (js_int n) = Some n"
  by (simp add: js_int_def)

lemma all_some_map [simp]: "(\<And>x. f (g x) = Some x) \<Longrightarrow> all_some (map (f \<circ> g) xs) = Some xs"
  by (induction xs) auto

lemma to_list_map [codec_simps]: "(\<And>x. f (g x) = Some x) \<Longrightarrow> to_list f (JArr (map g xs)) = Some xs"
  by simp

subsection \<open>Enumerations\<close>

fun role_text :: "AgentRole \<Rightarrow> string" where
  "role_text Role_coordinator = ''coordinator''"
| "role_text Role_worker = ''worker''"
| "role_text Role_teammate = ''teammate''"
| "role_text Role_leader = ''leader''"

fun mode_text :: "CollaborationMode \<Rightarrow> string" where
  "mode_text Mode_coordinator_worker = ''coordinator-worker''"
| "mode_text Mode_teammate = ''teammate''"
| "mode_text Mode_swarm = ''swarm''"

fun agent_status_text :: "AgentStatus \<Rightarrow> string" where
  "agent_status_text A_idle = ''idle''"
| "agent_status_text A_busy = ''busy''"
| "agent_status_text A_waiting = ''waiting''"
| "agent_status_text A_error = ''error''"
| "agent_status_text A_offline = ''offline''"

fun task_status_text :: "TaskStatus \<Rightarrow> string" where
  "task_status_text T_pending = ''pending''"
| "task_status_text T_running = ''running''"
| "task_status_text T_completed = ''completed''"
| "task_status_text T_failed = ''failed''"
| "task_status_text T_cancelled = ''cancelled''"
| "task_status_text T_partial = ''partial''"

fun priority_text :: "TaskPriority \<Rightarrow> string" where
  "priority_text P_low = ''low''"
| "priority_text P_normal = ''normal''"
| "priority_text P_high = ''high''"
| "priority_text P_urgent = ''urgent''"

definition of_text :: "('a \<Rightarrow> string) \<Rightarrow> 'a list \<Rightarrow> jsval \<Rightarrow> 'a option" where
  "of_text text xs v = Option.bind (to_str v) (\<lambda>s. find (\<lambda>x. text x = s) xs)"

definition to_role :: "jsval \<Rightarrow> AgentRole option" where
  "to_role = of_text role_text [Role_coordinator, Role_worker, Role_teammate, Role_leader]"

definition to_mode :: "jsval \<Rightarrow> CollaborationMode option" where
  "to_mode = of_text mode_text [Mode_coordinator_worker, Mode_teammate, Mode_swarm]"

definition to_agent_status :: "jsval \<Rightarrow> AgentStatus option" where
  "to_agent_status = of_text agent_status_text [A_idle, A_busy, A_waiting, A_error, A_offline]"

definition to_task_status :: "jsval \<Rightarrow> TaskStatus option" where
  "to_task_status =
     of_text task_status_text [T_pending, T_running, T_completed, T_failed, T_cancelled, T_partial]"

definition to_priority :: "jsval \<Rightarrow> TaskPriority option" where
  "to_priority = of_text priority_text [P_low, P_normal, P_high, P_urgent]"

lemma enum_codecs [codec_simps]:
  "to_role (JStr (role_text r)) = Some r" "to_mode (JStr (mode_text m)) = Some m"
  "to_agent_status (JStr (agent_status_text a)) = Some a"
  "to_task_status (JStr (task_status_text t)) = Some t"
  "to_priority (JStr (priority_text p)) = Some p"
  by (cases r, auto simp: to_role_def of_text_def)
     (cases m, auto simp: to_mode_def of_text_def,
      cases a, auto simp: to_agent_status_def of_text_def,
      cases t, auto simp: to_task_status_def of_text_def,
      cases p, auto simp: to_priority_def of_text_def)

subsection \<open>Records\<close>

definition js_strs :: "string list \<Rightarrow> jsval" where "js_strs xs = JArr (map JStr xs)"

lemma to_list_strs [codec_simps]: "to_list to_str (js_strs xs) = Some xs"
  by (simp add: js_strs_def codec_simps del: to_list.simps)

definition agent_js :: "AgentInfo \<Rightarrow> jsval" where
  "agent_js a = js_object
     [(''id'', Some (JStr (a_id a))), (''role'', Some (JStr (role_text (a_role a)))),
      (''status'', Some (JStr (agent_status_text (a_status a)))),
      (''capabilities'', Some (js_strs (a_capabilities a))),
      (''maxConcurrentTasks'', Some (js_int (a_maxConcurrentTasks a))),
      (''currentTasks'', Some (js_int (a_currentTasks a))), (''createdAt'', Some (js_int (a_createdAt a))),
      (''lastHeartbeat'', Some (js_int (a_lastHeartbeat a))), (''metadata'', map_option JObj (a_metadata a))]"

definition to_agent :: "jsval \<Rightarrow> AgentInfo option" where
  "to_agent v =
     (case (req to_str v ''id'', req to_role v ''role'', req to_agent_status v ''status'',
            req (to_list to_str) v ''capabilities'', req to_int v ''maxConcurrentTasks'',
            req to_int v ''currentTasks'', req to_int v ''createdAt'', req to_int v ''lastHeartbeat'',
            opt to_obj v ''metadata'') of
        (Some i, Some r, Some st, Some cs, Some mx, Some cur, Some cr, Some hb, Some md) \<Rightarrow>
          Some \<lparr>a_id = i, a_role = r, a_status = st, a_capabilities = cs, a_maxConcurrentTasks = mx,
                a_currentTasks = cur, a_createdAt = cr, a_lastHeartbeat = hb, a_metadata = md\<rparr>
      | _ \<Rightarrow> None)"

lemma opt_map: "(\<And>x. f (g x) = Some x) \<Longrightarrow>
  (case map_option g y of None \<Rightarrow> Some None | Some x \<Rightarrow> map_option Some (f x)) = Some y"
  by (cases y) auto

lemma to_agent_js [codec_simps]: "to_agent (agent_js a) = Some a"
  by (simp add: to_agent_def agent_js_def req_def opt_def js_field_object codec_simps opt_map
      del: case_map_option)

definition definition_js :: "TaskDefinition \<Rightarrow> jsval" where
  "definition_js d = js_object
     [(''id'', Some (JStr (td_id d))), (''prompt'', Some (JStr (td_prompt d))),
      (''agentRole'', map_option (JStr \<circ> role_text) (td_agentRole d)),
      (''agentId'', map_option JStr (td_agentId d)),
      (''priority'', Some (JStr (priority_text (td_priority d)))),
      (''timeout'', map_option js_int (td_timeout d)), (''maxRetries'', map_option js_int (td_maxRetries d)),
      (''dependencies'', map_option js_strs (td_dependencies d)),
      (''metadata'', map_option JObj (td_metadata d))]"

definition to_definition :: "jsval \<Rightarrow> TaskDefinition option" where
  "to_definition v =
     (case (req to_str v ''id'', req to_str v ''prompt'', opt to_role v ''agentRole'',
            opt to_str v ''agentId'', req to_priority v ''priority'', opt to_int v ''timeout'',
            opt to_int v ''maxRetries'', opt (to_list to_str) v ''dependencies'',
            opt to_obj v ''metadata'') of
        (Some i, Some p, Some r, Some a, Some pr, Some t, Some mr, Some ds, Some md) \<Rightarrow>
          Some \<lparr>td_id = i, td_prompt = p, td_agentRole = r, td_agentId = a, td_priority = pr,
                td_timeout = t, td_maxRetries = mr, td_dependencies = ds, td_metadata = md\<rparr>
      | _ \<Rightarrow> None)"

lemma to_definition_js [codec_simps]: "to_definition (definition_js d) = Some d"
  by (simp add: to_definition_def definition_js_def req_def opt_def js_field_object codec_simps opt_map
      del: case_map_option)

definition result_js :: "TaskResult \<Rightarrow> jsval" where
  "result_js r = js_object
     [(''taskId'', Some (JStr (r_taskId r))), (''agentId'', Some (JStr (r_agentId r))),
      (''status'', Some (JStr (task_status_text (r_status r)))), (''output'', Some (r_output r)),
      (''error'', map_option JStr (r_error r)), (''duration'', Some (js_int (r_duration r))),
      (''tokenUsage'', map_option (\<lambda>u. js_object
         [(''input'', Some (js_int (tu_input u))), (''output'', Some (js_int (tu_output u))),
          (''total'', Some (js_int (tu_total u)))]) (r_tokenUsage r))]"

definition to_usage :: "jsval \<Rightarrow> TokenUsage option" where
  "to_usage v =
     (case (req to_int v ''input'', req to_int v ''output'', req to_int v ''total'') of
        (Some i, Some u, Some t) \<Rightarrow> Some \<lparr>tu_input = i, tu_output = u, tu_total = t\<rparr>
      | _ \<Rightarrow> None)"

definition to_result :: "jsval \<Rightarrow> TaskResult option" where
  "to_result v =
     (case (req to_str v ''taskId'', req to_str v ''agentId'', req to_task_status v ''status'',
            req Some v ''output'', opt to_str v ''error'', req to_int v ''duration'',
            opt to_usage v ''tokenUsage'') of
        (Some t, Some a, Some st, Some out, Some e, Some d, Some u) \<Rightarrow>
          Some \<lparr>r_taskId = t, r_agentId = a, r_status = st, r_output = out, r_error = e,
                r_duration = d, r_tokenUsage = u\<rparr>
      | _ \<Rightarrow> None)"

lemma to_result_js [codec_simps]: "to_result (result_js r) = Some r"
  by (simp add: to_result_def result_js_def to_usage_def req_def opt_def js_field_object codec_simps opt_map
      del: case_map_option)

definition task_js :: "Task \<Rightarrow> jsval" where
  "task_js t = js_object
     [(''definition'', Some (definition_js (t_definition t))),
      (''status'', Some (JStr (task_status_text (t_status t)))),
      (''assignedAgent'', map_option JStr (t_assignedAgent t)),
      (''result'', map_option result_js (t_result t)), (''createdAt'', Some (js_int (t_createdAt t))),
      (''startedAt'', map_option js_int (t_startedAt t)),
      (''completedAt'', map_option js_int (t_completedAt t)),
      (''retryCount'', Some (js_int (t_retryCount t)))]"

definition to_task :: "jsval \<Rightarrow> Task option" where
  "to_task v =
     (case (req to_definition v ''definition'', req to_task_status v ''status'',
            opt to_str v ''assignedAgent'', opt to_result v ''result'', req to_int v ''createdAt'',
            opt to_int v ''startedAt'', opt to_int v ''completedAt'', req to_int v ''retryCount'') of
        (Some d, Some st, Some a, Some r, Some cr, Some sa, Some ca, Some rc) \<Rightarrow>
          Some \<lparr>t_definition = d, t_status = st, t_assignedAgent = a, t_result = r, t_createdAt = cr,
                t_startedAt = sa, t_completedAt = ca, t_retryCount = rc\<rparr>
      | _ \<Rightarrow> None)"

lemma to_task_js [codec_simps]: "to_task (task_js t) = Some t"
  by (simp add: to_task_def task_js_def req_def opt_def js_field_object codec_simps opt_map
      del: case_map_option)

definition team_js :: "TeamInfo \<Rightarrow> jsval" where
  "team_js t = js_object
     [(''id'', Some (JStr (tm_id t))), (''name'', Some (JStr (tm_name t))),
      (''mode'', Some (JStr (mode_text (tm_mode t)))), (''leaderId'', map_option JStr (tm_leaderId t)),
      (''members'', Some (js_strs (tm_members t))), (''createdAt'', Some (js_int (tm_createdAt t))),
      (''metadata'', map_option JObj (tm_metadata t))]"

definition to_team :: "jsval \<Rightarrow> TeamInfo option" where
  "to_team v =
     (case (req to_str v ''id'', req to_str v ''name'', req to_mode v ''mode'',
            opt to_str v ''leaderId'', req (to_list to_str) v ''members'', req to_int v ''createdAt'',
            opt to_obj v ''metadata'') of
        (Some i, Some n, Some m, Some l, Some ms, Some c, Some md) \<Rightarrow>
          Some \<lparr>tm_id = i, tm_name = n, tm_mode = m, tm_leaderId = l, tm_members = ms,
                tm_createdAt = c, tm_metadata = md\<rparr>
      | _ \<Rightarrow> None)"

lemma to_team_js [codec_simps]: "to_team (team_js t) = Some t"
  by (simp add: to_team_def team_js_def req_def opt_def js_field_object codec_simps opt_map
      del: case_map_option)

end
