(* ===== verification/Orchestrator.thy ===== *)
theory Orchestrator
  imports OrchScheduler TeamManager RecoveryManager OrchJson
begin

text \<open>
  The central coordinator (\<open>src/src/orchestrator/orchestrator.ts\<close>, class \<open>Orchestrator\<close>): it owns
  the agent registry, the task queue, the scheduler and the team registry, and saves their contents in a
  state store and loads them back. A recovery manager that is set together with a store works on that
  store. Message handlers are numbered; sending returns the deliveries made. The value a store holds is
  the JavaScript value of \<open>OrchJson\<close>, taken at the time of the save: the model describes what a store
  reopened by another process gives back, not the sharing of objects inside one process.
\<close>

record orchestrator =
  or_config :: "OrchestratorConfig option"
  or_initialized :: bool
  or_sched :: orch_sched
  or_teams :: team_manager
  or_store :: "state_store option"
  or_recovery :: "recovery_manager option"
  or_handlers :: "(string, nat) jsmap"

datatype orch_error =
    NotInitialized
  | FromScheduler sched_error
  | FromTeams team_error
  | FromRecovery recovery_error
  | BroadcastTeamNotFound string
  | RecoveryNotConfigured

definition new_orchestrator :: "state_store option \<Rightarrow> orchestrator" where
  "new_orchestrator store =
     \<lparr>or_config = None, or_initialized = False, or_sched = new_orch_sched, or_teams = new_team_manager,
      or_store = store, or_recovery = None, or_handlers = []\<rparr>"

definition ensureInitialized ::
    "orchestrator \<Rightarrow> orchestrator \<times> (orch_error + 'a) \<Rightarrow> orchestrator \<times> (orch_error + 'a)" where
  "ensureInitialized s r = (if or_initialized s then r else (s, Inl NotInitialized))"

subsection \<open>Tasks\<close>

definition submitTask ::
    "int \<Rightarrow> string \<Rightarrow> TaskDefinition \<Rightarrow> orchestrator \<Rightarrow> orchestrator \<times> (orch_error + string)" where
  "submitTask now rnd task s =
     ensureInitialized s
       (let fullTask = task\<lparr>td_id := (if td_id task \<noteq> [] then td_id task else gen_id ''task'' now rnd)\<rparr>
        in case schedule_task now fullTask (or_sched s) of (sc, k) \<Rightarrow> (s\<lparr>or_sched := sc\<rparr>, Inr k))"

definition cancelTask :: "int \<Rightarrow> string \<Rightarrow> orchestrator \<Rightarrow> orchestrator \<times> (orch_error + unit)" where
  "cancelTask now taskId s =
     ensureInitialized s
       (case cancel now taskId (or_sched s) of
          (sc, Inl e) \<Rightarrow> (s\<lparr>or_sched := sc\<rparr>, Inl (FromScheduler e))
        | (sc, Inr u) \<Rightarrow> (s\<lparr>or_sched := sc\<rparr>, Inr u))"

definition getTaskStatus :: "orchestrator \<Rightarrow> string \<Rightarrow> Task option" where
  "getTaskStatus s taskId = get_task (os_queue (or_sched s)) taskId"

definition processNextTask :: "int \<Rightarrow> orchestrator \<Rightarrow> orchestrator \<times> (orch_error + Task option)" where
  "processNextTask now s =
     ensureInitialized s
       (case getNextTask now (or_sched s) of
          (sc, None) \<Rightarrow> (s\<lparr>or_sched := sc\<rparr>, Inr None)
        | (sc, Some task) \<Rightarrow>
            (case getAvailableAgents (td_agentRole (t_definition task))
                    (map_option oc_maxAgents (or_config s)) (os_agents sc) of
               [] \<Rightarrow> (s\<lparr>or_sched := sc\<lparr>os_queue := update_task task (os_queue sc)\<rparr>\<rparr>, Inr None)
             | first # _ \<Rightarrow>
                 (let agentId = (case td_agentId (t_definition task) of Some a \<Rightarrow> a | None \<Rightarrow> a_id first)
                  in case assignTask now (td_id (t_definition task)) agentId sc of
                       (sc', Inl e) \<Rightarrow> (s\<lparr>or_sched := sc'\<rparr>, Inl (FromScheduler e))
                     | (sc', Inr _) \<Rightarrow>
                         (s\<lparr>or_sched := sc'\<rparr>,
                          Inr (get_task (os_queue sc') (td_id (t_definition task)))))))"

subsection \<open>Messages\<close>

text \<open>A delivery: the agent, its handler and the message object it is given.\<close>

type_synonym delivery = "string \<times> nat \<times> jsval"

definition deliver :: "orchestrator \<Rightarrow> jsval \<Rightarrow> string \<Rightarrow> delivery list" where
  "deliver s message agentId =
     (case jget (or_handlers s) agentId of Some h \<Rightarrow> [(agentId, h, message)] | None \<Rightarrow> [])"

definition broadcastMessage :: "string \<Rightarrow> jsval \<Rightarrow> orchestrator \<Rightarrow> orch_error + delivery list" where
  "broadcastMessage teamId message s =
     (if \<not> or_initialized s then Inl NotInitialized
      else case tg_getTeam (or_teams s) teamId of
             None \<Rightarrow> Inl (BroadcastTeamNotFound teamId)
           | Some team \<Rightarrow>
               Inr (concat (map (deliver s (JObj [(''type'', JStr ''broadcast''), (''teamId'', JStr teamId),
                                                  (''message'', message)])) (tm_members team))))"

definition sendMessage :: "string \<Rightarrow> string \<Rightarrow> jsval \<Rightarrow> orchestrator \<Rightarrow> orch_error + delivery list" where
  "sendMessage fromAgentId toAgentId message s =
     (if \<not> or_initialized s then Inl NotInitialized
      else Inr (deliver s (JObj [(''type'', JStr ''direct''), (''from'', JStr fromAgentId),
                                 (''message'', message)]) toAgentId))"

definition registerMessageHandler :: "string \<Rightarrow> nat \<Rightarrow> orchestrator \<Rightarrow> orchestrator" where
  "registerMessageHandler agentId handler s = s\<lparr>or_handlers := jset (or_handlers s) agentId handler\<rparr>"

definition unregisterMessageHandler :: "string \<Rightarrow> orchestrator \<Rightarrow> orchestrator" where
  "unregisterMessageHandler agentId s = s\<lparr>or_handlers := jdel (or_handlers s) agentId\<rparr>"

subsection \<open>Saving and loading\<close>

definition save_key :: "int \<Rightarrow> string \<Rightarrow> jsval \<Rightarrow> state_store \<Rightarrow> state_store" where
  "save_key now key v st = ss_set now key v (Some Sc_global) (Some ''orchestrator'') st"

definition load_key :: "int \<Rightarrow> string \<Rightarrow> state_store \<Rightarrow> state_store \<times> jsval" where
  "load_key now key st = ss_get now key (Some Sc_global) (Some ''orchestrator'') st"

definition saveState :: "int \<Rightarrow> orchestrator \<Rightarrow> orchestrator" where
  "saveState now s =
     (case or_store s of
        None \<Rightarrow> s
      | Some st \<Rightarrow>
          (let agents = listAgents None None (os_agents (or_sched s));
               tasks = list_tasks None (os_queue (or_sched s));
               teams = tg_listTeams (or_teams s);
               st1 = save_key now ''agents'' (JArr (map agent_js agents)) st;
               st2 = save_key now ''tasks'' (JArr (map task_js tasks)) st1;
               st3 = save_key now ''teams'' (JArr (map team_js teams)) st2
           in s\<lparr>or_store := Some (save_key now ''lastSaved'' (js_int now) st3)\<rparr>))"

text \<open>The elements of an array value that have the shape the code casts them to.\<close>

definition elements :: "(jsval \<Rightarrow> 'a option) \<Rightarrow> jsval \<Rightarrow> 'a list" where
  "elements f v = (case v of JArr xs \<Rightarrow> List.map_filter f xs | _ \<Rightarrow> [])"

fun add_members :: "string \<Rightarrow> string list \<Rightarrow> team_manager \<Rightarrow> team_manager \<times> (team_error + unit)" where
  "add_members teamId [] g = (g, Inr ())"
| "add_members teamId (m # ms) g =
     (case tg_addMember teamId m g of
        (g', Inl e) \<Rightarrow> (g', Inl e)
      | (g', Inr _) \<Rightarrow> add_members teamId ms g')"

definition load_team ::
    "int \<Rightarrow> string \<Rightarrow> TeamInfo \<Rightarrow> team_manager \<Rightarrow> team_manager \<times> (team_error + unit)" where
  "load_team now rnd t g =
     (case tg_createTeam now rnd (tm_name t) (tm_mode t) g of
        (g1, created) \<Rightarrow>
          (case add_members (tm_id created) (tm_members t) g1 of
             (g2, Inl e) \<Rightarrow> (g2, Inl e)
           | (g2, Inr _) \<Rightarrow>
               (case tm_leaderId t of
                  Some l \<Rightarrow> if l \<noteq> [] then tg_setLeader (tm_id created) l g2 else (g2, Inr ())
                | None \<Rightarrow> (g2, Inr ()))))"

fun load_teams ::
    "int \<Rightarrow> string list \<Rightarrow> TeamInfo list \<Rightarrow> team_manager \<Rightarrow> team_manager \<times> (team_error + unit)" where
  "load_teams now rnds [] g = (g, Inr ())"
| "load_teams now rnds (t # ts) g =
     (case load_team now (hd rnds) t g of
        (g', Inl e) \<Rightarrow> (g', Inl e)
      | (g', Inr _) \<Rightarrow> load_teams now (tl rnds) ts g')"

definition load_agents :: "int \<Rightarrow> AgentInfo list \<Rightarrow> agent_manager \<Rightarrow> agent_manager" where
  "load_agents now agents am = fold (\<lambda>a am. fst (registerAgent now [] a am)) agents am"

text \<open>\<open>rnds\<close> are the random suffixes drawn for the new team ids.\<close>

definition loadState :: "int \<Rightarrow> string list \<Rightarrow> orchestrator \<Rightarrow> orchestrator \<times> (orch_error + unit)" where
  "loadState now rnds s =
     (case or_store s of
        None \<Rightarrow> (s, Inr ())
      | Some st \<Rightarrow>
          (case load_key now ''agents'' st of (st1, agentsData) \<Rightarrow>
           case load_key now ''tasks'' st1 of (st2, tasksData) \<Rightarrow>
           case load_key now ''teams'' st2 of (st3, teamsData) \<Rightarrow>
             (let sc = or_sched s;
                  sc' = sc\<lparr>os_agents := load_agents now (elements to_agent agentsData) (os_agents sc),
                           os_queue := fold update_task (elements to_task tasksData) (os_queue sc)\<rparr>
              in case load_teams now rnds (elements to_team teamsData) (or_teams s) of
                   (g, r) \<Rightarrow>
                     (s\<lparr>or_store := Some st3, or_sched := sc', or_teams := g\<rparr>,
                      case r of Inl e \<Rightarrow> Inl (FromTeams e) | Inr u \<Rightarrow> Inr u))))"

definition initialize ::
    "int \<Rightarrow> string list \<Rightarrow> OrchestratorConfig \<Rightarrow> orchestrator \<Rightarrow> orchestrator \<times> (orch_error + unit)" where
  "initialize now rnds config s = loadState now rnds (s\<lparr>or_config := Some config, or_initialized := True\<rparr>)"

definition shutdown :: "int \<Rightarrow> orchestrator \<Rightarrow> orchestrator" where
  "shutdown now s = (saveState now s)\<lparr>or_initialized := False\<rparr>"

definition orch_completeTask ::
    "int \<Rightarrow> string \<Rightarrow> TaskResult \<Rightarrow> orchestrator \<Rightarrow> orchestrator \<times> (orch_error + unit)" where
  "orch_completeTask now taskId result s =
     ensureInitialized s
       (case completeTask now taskId result (or_sched s) of
          (sc, Inl e) \<Rightarrow> (s\<lparr>or_sched := sc\<rparr>, Inl (FromScheduler e))
        | (sc, Inr _) \<Rightarrow> (saveState now (s\<lparr>or_sched := sc\<rparr>), Inr ()))"

subsection \<open>Recovery\<close>

text \<open>Running the recovery manager on the store it shares with the orchestrator.\<close>

definition with_store :: "orchestrator \<Rightarrow> recovery_manager \<Rightarrow> recovery_manager" where
  "with_store s m = (case or_store s of Some st \<Rightarrow> m\<lparr>rv_store := st\<rparr> | None \<Rightarrow> m)"

definition put_recovery :: "recovery_manager \<Rightarrow> orchestrator \<Rightarrow> orchestrator" where
  "put_recovery m s =
     s\<lparr>or_recovery := Some m, or_store := (case or_store s of Some _ \<Rightarrow> Some (rv_store m) | None \<Rightarrow> None)\<rparr>"

definition setStateStore :: "state_store \<Rightarrow> orchestrator \<Rightarrow> orchestrator" where
  "setStateStore st s = s\<lparr>or_store := Some st\<rparr>"

definition setRecoveryManager :: "recovery_manager \<Rightarrow> orchestrator \<Rightarrow> orchestrator" where
  "setRecoveryManager m s = s\<lparr>or_recovery := Some m\<rparr>"

definition orch_createRecoveryPoint :: "int \<Rightarrow> string \<Rightarrow> orchestrator \<Rightarrow> orchestrator \<times> string option" where
  "orch_createRecoveryPoint now rnd s =
     (case or_recovery s of
        None \<Rightarrow> (s, None)
      | Some m \<Rightarrow>
          (case createRecoveryPoint now rnd RT_checkpoint Sc_global ''orchestrator'' None (with_store s m) of
             (m', p) \<Rightarrow> (put_recovery m' s, Some (rp_id p))))"

definition recover ::
    "int \<Rightarrow> string list \<Rightarrow> string \<Rightarrow> orchestrator \<Rightarrow> orchestrator \<times> (orch_error + unit)" where
  "recover now rnds recoveryPointId s =
     (case or_recovery s of
        None \<Rightarrow> (s, Inl RecoveryNotConfigured)
      | Some m \<Rightarrow>
          (case createRecoveryPlan now recoveryPointId (with_store s m) of
             Inl e \<Rightarrow> (s, Inl (FromRecovery e))
           | Inr plan \<Rightarrow>
               (case executeRecoveryPlan now plan (with_store s m) of
                  (m', Inl e) \<Rightarrow> (put_recovery m' s, Inl (FromRecovery e))
                | (m', Inr _) \<Rightarrow> loadState now rnds (put_recovery m' s))))"


subsection \<open>What is loaded is what was saved\<close>

lemma elements_map: "(\<And>x. f (g x) = Some x) \<Longrightarrow> elements f (JArr (map g xs)) = xs"
  by (induction xs) (simp_all add: elements_def List.map_filter_simps)

lemma load_key_view:
  assumes "ss_view now st (getCacheKey key (Some Sc_global) (Some ''orchestrator'')) = Some v"
  obtains st' where "load_key now key st = (st', v)" "ss_view now st' = ss_view now st"
proof -
  obtain st' u where e: "load_key now key st = (st', u)" by force
  have "u = v"
    using assms e snd_ss_get [of now key "Some Sc_global" "Some ''orchestrator''" st] by (simp add: load_key_def)
  moreover have "ss_view now st' = ss_view now st"
    by (metis e fst_conv load_key_def ss_view_get)
  ultimately show thesis using that e by simp
qed

lemma load_tasks:
  "tq_keyed q \<Longrightarrow> fold update_task (list_tasks None q) new_task_queue = q\<lparr>tq_queue := []\<rparr>"
proof -
  assume q: "tq_keyed q"
  have "fold update_task ts r = r\<lparr>tq_tasks := fold (\<lambda>t m. jset m (task_key t) t) ts (tq_tasks r)\<rparr>" for ts r
    by (induction ts arbitrary: r) (simp_all add: update_task_def)
  moreover have "fold (\<lambda>t m. jset m (task_key t) t) (jvals (tq_tasks q)) [] = jmap (\<lambda>_ t. t) (tq_tasks q)"
    using q by (intro rebuild) (auto simp: tq_keyed_def)
  ultimately show ?thesis
    by (simp add: list_tasks_def new_task_queue_def jmap_def)
qed

definition reregistered :: "int \<Rightarrow> AgentInfo \<Rightarrow> AgentInfo" where
  "reregistered now a = a\<lparr>a_createdAt := now, a_lastHeartbeat := now\<rparr>"

lemma load_agents_saved:
  assumes "am_wf am" and "getAgent am [] = None"
  shows "am_agents (load_agents now (listAgents None None am) (new_agent_manager t)) =
    jmap (\<lambda>_. reregistered now) (am_agents am)"
proof -
  have "fst (registerAgent now [] a m) =
      m\<lparr>am_agents := jset (am_agents m) (a_id a) (reregistered now a)\<rparr>"
    if mem: "a \<in> set (jvals (am_agents am))" for a m
  proof -
    obtain k where "jget (am_agents am) k = Some a"
      using mem assms(1) jvals_mem [of "am_agents am" a] unfolding am_wf_def by blast
    with assms have "a_id a \<noteq> []" by (auto simp: am_wf_def getAgent_def)
    then show ?thesis by (simp add: registerAgent_def reregistered_def Let_def)
  qed
  then have "am_agents (fold (\<lambda>a m. fst (registerAgent now [] a m)) as m) =
      fold (\<lambda>a m. jset m (a_id a) (reregistered now a)) as (am_agents m)"
    if "set as \<subseteq> set (jvals (am_agents am))" for as m
    using that by (induction as arbitrary: m) auto
  from this [of "jvals (am_agents am)" "new_agent_manager t"] show ?thesis
    using assms(1) rebuild [of "am_agents am" a_id "reregistered now"]
    by (simp add: load_agents_def listAgents_def new_agent_manager_def am_wf_def)
qed

lemma add_members_fresh:
  "jget (tg_teams g) i = Some t \<Longrightarrow> distinct (tm_members t @ ms) \<Longrightarrow>
   add_members i ms g = (g\<lparr>tg_teams := jset (tg_teams g) i (t\<lparr>tm_members := tm_members t @ ms\<rparr>)\<rparr>, Inr ())"
proof (induction ms arbitrary: g t)
  case Nil
  then show ?case by (simp add: jset_same)
next
  case (Cons m ms)
  then show ?case by (simp add: tg_addMember_def)
qed

definition reloaded_team :: "int \<Rightarrow> string \<Rightarrow> TeamInfo \<Rightarrow> TeamInfo" where
  "reloaded_team now rnd t =
     \<lparr>tm_id = generateTeamId now rnd, tm_name = tm_name t, tm_mode = tm_mode t, tm_leaderId = tm_leaderId t,
      tm_members = tm_members t, tm_createdAt = now, tm_metadata = None\<rparr>"

lemma load_team_saved:
  assumes "team_ok k t" and "tm_leaderId t \<noteq> Some []" and "\<not> jhas (tg_teams g) (generateTeamId now rnd)"
  shows "load_team now rnd t g =
    (g\<lparr>tg_teams := tg_teams g @ [(generateTeamId now rnd, reloaded_team now rnd t)]\<rparr>, Inr ())"
proof -
  let ?i = "generateTeamId now rnd"
  let ?g = "fst (tg_createTeam now rnd (tm_name t) (tm_mode t) g)"
  let ?t0 = "\<lparr>tm_id = ?i, tm_name = tm_name t, tm_mode = tm_mode t, tm_leaderId = None,
              tm_members = [], tm_createdAt = now, tm_metadata = None\<rparr>"
  have created: "tg_createTeam now rnd (tm_name t) (tm_mode t) g = (g\<lparr>tg_teams := jset (tg_teams g) ?i ?t0\<rparr>, ?t0)"
    by (simp add: tg_createTeam_def Let_def)
  have members: "add_members ?i (tm_members t) (g\<lparr>tg_teams := jset (tg_teams g) ?i ?t0\<rparr>) =
      (g\<lparr>tg_teams := jset (tg_teams g) ?i (?t0\<lparr>tm_members := tm_members t\<rparr>)\<rparr>, Inr ())"
    using assms(1) by (subst add_members_fresh [where t = ?t0]) (simp_all add: team_ok_def)
  have "load_team now rnd t g =
      (case tm_leaderId t of
         Some l \<Rightarrow> if l \<noteq> [] then tg_setLeader ?i l (g\<lparr>tg_teams := jset (tg_teams g) ?i (?t0\<lparr>tm_members := tm_members t\<rparr>)\<rparr>)
                   else (g\<lparr>tg_teams := jset (tg_teams g) ?i (?t0\<lparr>tm_members := tm_members t\<rparr>)\<rparr>, Inr ())
       | None \<Rightarrow> (g\<lparr>tg_teams := jset (tg_teams g) ?i (?t0\<lparr>tm_members := tm_members t\<rparr>)\<rparr>, Inr ()))"
    unfolding load_team_def created prod.case TeamInfo.simps members sum.case ..
  with assms have "load_team now rnd t g =
      (g\<lparr>tg_teams := jset (tg_teams g) ?i (reloaded_team now rnd t)\<rparr>, Inr ())"
    by (cases "tm_leaderId t") (auto simp: team_ok_def tg_setLeader_def reloaded_team_def)
  with assms(3) show ?thesis by (simp add: jset_fresh)
qed

lemma generateTeamId_inj: "generateTeamId now r = generateTeamId now r' \<longleftrightarrow> r = r'"
  by (simp add: generateTeamId_def gen_id_def)

lemma load_teams_saved:
  "\<forall>t\<in>set ts. (\<exists>k. team_ok k t) \<and> tm_leaderId t \<noteq> Some [] \<Longrightarrow> length rnds = length ts \<Longrightarrow> distinct rnds \<Longrightarrow>
   \<forall>r\<in>set rnds. \<not> jhas (tg_teams g) (generateTeamId now r) \<Longrightarrow>
   load_teams now rnds ts g =
     (g\<lparr>tg_teams := tg_teams g @ map2 (\<lambda>r t. (generateTeamId now r, reloaded_team now r t)) rnds ts\<rparr>, Inr ())"
proof (induction ts arbitrary: rnds g)
  case (Cons t ts)
  then obtain r rs where r: "rnds = r # rs" by (cases rnds) auto
  from Cons.prems(1) obtain k where "team_ok k t" by auto
  note one = load_team_saved [OF this, of g now r]
  from Cons.prems r have *: "\<forall>x\<in>set rs. \<not> jhas (tg_teams g @ [(generateTeamId now r, reloaded_team now r t)])
      (generateTeamId now x)"
    by (auto simp: map_of_eq_None_iff generateTeamId_inj)
  from Cons.IH [of rs "g\<lparr>tg_teams := tg_teams g @ [(generateTeamId now r, reloaded_team now r t)]\<rparr>"] Cons.prems r *
  show ?case by (simp add: one)
qed simp


lemma plain_orchestrator [simp]: "plain_id ''orchestrator''"
  by (simp add: plain_id_def)

lemma durable_save_key [wf_intros]: "durable now st \<Longrightarrow> durable now (save_key now key v st)"
  unfolding save_key_def by (rule durable_set) simp_all

abbreviation orch_key :: "string \<Rightarrow> string" where
  "orch_key key \<equiv> getCacheKey key (Some Sc_global) (Some ''orchestrator'')"

lemma ss_view_save_key:
  "durable now st \<Longrightarrow> now \<le> later \<Longrightarrow>
   ss_view later (save_key now key v st) (orch_key k) = (if k = key then Some v else ss_view later st (orch_key k))"
  by (simp add: save_key_def ss_view_set_later durable_wf)

lemma saveState_view:
  assumes "or_store s = Some st" and "durable now st" and "now \<le> later"
  obtains st' where "or_store (saveState now s) = Some st'" "durable now st'"
    "ss_view later st' (orch_key ''agents'') = Some (JArr (map agent_js (listAgents None None (os_agents (or_sched s)))))"
    "ss_view later st' (orch_key ''tasks'') = Some (JArr (map task_js (list_tasks None (os_queue (or_sched s)))))"
    "ss_view later st' (orch_key ''teams'') = Some (JArr (map team_js (tg_listTeams (or_teams s))))"
proof -
  have d: "durable now (save_key now a x st1)" if "durable now st1" for a x st1
    using that by (rule durable_save_key)
  show thesis
    using that assms by (simp add: saveState_def Let_def ss_view_save_key d)
qed

text \<open>What a new orchestrator holds after it was initialised on the reopened store.\<close>

lemma loadState_saved:
  assumes view: "ss_view now st (orch_key ''agents'') = Some (JArr (map agent_js (listAgents None None am)))"
      "ss_view now st (orch_key ''tasks'') = Some (JArr (map task_js (list_tasks None q)))"
      "ss_view now st (orch_key ''teams'') = Some (JArr (map team_js ts))"
    and q: "tq_keyed q" and am: "am_wf am" "getAgent am [] = None"
    and ts: "\<forall>t\<in>set ts. (\<exists>k. team_ok k t) \<and> tm_leaderId t \<noteq> Some []" "length rnds = length ts" "distinct rnds"
  shows "\<exists>s'. initialize now rnds cfg (new_orchestrator (Some st)) = (s', Inr ()) \<and> or_initialized s' \<and>
    os_queue (or_sched s') = q\<lparr>tq_queue := []\<rparr> \<and>
    am_agents (os_agents (or_sched s')) = jmap (\<lambda>_. reregistered now) (am_agents am) \<and>
    tg_teams (or_teams s') = map2 (\<lambda>r t. (generateTeamId now r, reloaded_team now r t)) rnds ts"
proof -
  have teams: "load_teams now rnds ts new_team_manager =
      (new_team_manager\<lparr>tg_teams := map2 (\<lambda>r t. (generateTeamId now r, reloaded_team now r t)) rnds ts\<rparr>, Inr ())"
    using load_teams_saved [OF ts, of new_team_manager now] by (simp add: new_team_manager_def)
  from load_key_view [OF view(1)] obtain st1 where
    1: "load_key now ''agents'' st = (st1, JArr (map agent_js (listAgents None None am)))"
       "ss_view now st1 = ss_view now st" .
  from load_key_view [of now st1 "''tasks''"] view(2) obtain st2 where
    2: "load_key now ''tasks'' st1 = (st2, JArr (map task_js (list_tasks None q)))"
       "ss_view now st2 = ss_view now st" unfolding 1(2) by metis
  from load_key_view [of now st2 "''teams''"] view(3) obtain st3 where
    3: "load_key now ''teams'' st2 = (st3, JArr (map team_js ts))" unfolding 2(2) by metis
  show ?thesis
    using load_tasks [OF q] load_agents_saved [OF am, of now None] teams
    by (simp add: initialize_def loadState_def new_orchestrator_def 1(1) 2(1) 3 Let_def
        elements_map codec_simps new_orch_sched_def)
qed


subsection \<open>The task that is served\<close>

lemma dequeue_result:
  assumes "tq_keyed q" and "dequeue now q = (q', Some t)"
  shows "jget (tq_tasks q') (task_key t) = Some t"
proof (cases rule: dequeue_cases [of q])
  case none
  with assms(2) show ?thesis by (simp add: dequeue_None)
next
  case (some skipped k rest)
  from some(3) obtain t0 where "jget (tq_tasks q) k = Some t0" by (auto simp: runnable_iff)
  moreover with assms(1) have "task_key t0 = k" by (simp add: tq_keyed_def)
  ultimately show ?thesis
    using dequeue_Some [OF some, of now] assms(2) by (auto simp: Let_def)
qed

subsection \<open>Properties\<close>

definition demo_def :: "string \<Rightarrow> TaskDefinition" where
  "demo_def k = \<lparr>td_id = k, td_prompt = ''p'', td_agentRole = None, td_agentId = None, td_priority = P_normal,
     td_timeout = None, td_maxRetries = None, td_dependencies = None, td_metadata = None\<rparr>"

definition demo_agent :: "string \<Rightarrow> AgentInfo" where
  "demo_agent k = \<lparr>a_id = k, a_role = Role_worker, a_status = A_idle, a_capabilities = [],
     a_maxConcurrentTasks = 1, a_currentTasks = 0, a_createdAt = 0, a_lastHeartbeat = 0, a_metadata = None\<rparr>"

text \<open>An orchestrator with a store, a team with a leader, \<open>n\<close> agents and two pending tasks.\<close>

definition demo_orch :: "nat \<Rightarrow> orchestrator" where
  "demo_orch n =
     (let s = (new_orchestrator (Some (open_store True 0 [])))\<lparr>or_initialized := True\<rparr>;
          sc = or_sched s;
          am = fold (\<lambda>k am. fst (registerAgent 1 [] (demo_agent k) am)) (take n [''a1'', ''a2'']) (os_agents sc);
          q = fold (\<lambda>k q. fst (enqueue 1 (demo_def k) q)) [''t1'', ''t2''] (os_queue sc);
          g = fold tg_apply [TG_create 1 ''r'' ''red'' Mode_teammate, TG_add ''team-1-r'' ''a1'',
                TG_setLeader ''team-1-r'' ''a1''] (or_teams s)
      in s\<lparr>or_sched := sc\<lparr>os_agents := am, os_queue := q\<rparr>, or_teams := g\<rparr>)"



text \<open>C9: What \<open>processNextTask\<close> returns as a task is running and assigned: to the agent the task
  names, or else to the first available agent; that agent was idle or waiting before, is busy
  afterwards, and the assignment is recorded.\<close>

theorem processNextTask_assigns:
  assumes "os_wf (or_sched s)" and "processNextTask now s = (s', Inr (Some t))"
  shows "\<exists>agent. t_status t = T_running \<and> t_assignedAgent t = Some (a_id agent) \<and>
    getTaskStatus s' (td_id (t_definition t)) = Some t \<and>
    getAgent (os_agents (or_sched s)) (a_id agent) = Some agent \<and>
    (a_status agent = A_idle \<or> a_status agent = A_waiting) \<and>
    (case td_agentId (t_definition t) of
       Some a \<Rightarrow> a_id agent = a
     | None \<Rightarrow> agent \<in> set (getAvailableAgents (td_agentRole (t_definition t))
                            (map_option oc_maxAgents (or_config s)) (os_agents (or_sched s)))) \<and>
    map_option a_status (getAgent (os_agents (or_sched s')) (a_id agent)) = Some A_busy \<and>
    map_option ta_agentId (getAssignment (or_sched s') (td_id (t_definition t))) = Some (a_id agent)"
proof -
  obtain sc task where nxt: "getNextTask now (or_sched s) = (sc, Some task)"
    using assms(2) by (auto simp: processNextTask_def ensureInitialized_def split: if_splits prod.splits option.splits)
  have agents: "os_agents sc = os_agents (or_sched s)"
    using nxt by (auto simp: getNextTask_def split: prod.splits)
  let ?k = "td_id (t_definition task)"
  let ?av = "getAvailableAgents (td_agentRole (t_definition task)) (map_option oc_maxAgents (or_config s)) (os_agents sc)"
  obtain first rest where av: "?av = first # rest"
    using assms(2) nxt by (auto simp: processNextTask_def ensureInitialized_def split: if_splits list.splits)
  define i where "i = (case td_agentId (t_definition task) of Some a \<Rightarrow> a | None \<Rightarrow> a_id first)"
  obtain sc' asg where asn: "assignTask now ?k i sc = (sc', Inr asg)" and s': "s' = s\<lparr>or_sched := sc'\<rparr>"
    and t: "get_task (os_queue sc') ?k = Some t"
    using assms(2) nxt av
    by (auto simp: processNextTask_def ensureInitialized_def Let_def i_def split: if_splits prod.splits sum.splits)
  obtain task0 agent where a: "get_task (os_queue sc) ?k = Some task0" "getAgent (os_agents sc) i = Some agent"
      "a_status agent = A_idle \<or> a_status agent = A_waiting"
      "sc' = sc\<lparr>os_queue := update_task (task0\<lparr>t_status := T_running, t_assignedAgent := Some i,
          t_startedAt := (case t_startedAt task0 of Some x \<Rightarrow> Some x | None \<Rightarrow> Some now)\<rparr>) (os_queue sc),
        os_agents := updateAgentStatus now i A_busy (os_agents sc),
        os_assignments := jset (os_assignments sc) ?k \<lparr>ta_taskId = ?k, ta_agentId = i, ta_assignedAt = now,
          ta_reason = assign_reason\<rparr>\<rparr>"
    using asn by (auto simp: assignTask_def Let_def split: option.splits if_splits)
  have wf: "os_wf sc" using os_wf_step [of "or_sched s" "OS_next now"] assms(1) nxt by simp
  then have task0: "td_id (t_definition task0) = ?k" and id: "a_id agent = i"
    using a by (auto simp: os_wf_def tq_wf_def tq_keyed_def am_wf_def getAgent_def)
  have def: "t_definition task0 = t_definition task"
  proof -
    have "get_task (os_queue sc) ?k = Some task"
      using nxt assms(1) dequeue_result [of "os_queue (or_sched s)" now "os_queue sc" task]
      by (auto simp: getNextTask_def os_wf_def tq_wf_def split: prod.splits)
    with a(1) show ?thesis by simp
  qed
  have avail: "first \<in> set ?av" unfolding av by simp
  then have "getAgent (os_agents sc) (a_id first) = Some first"
    using wf jvals_mem [of "am_agents (os_agents sc)" first]
    by (auto simp: os_wf_def am_wf_def getAvailableAgents_def Let_def getAgent_def split: option.splits if_splits)
  with a(2) avail have named: "case td_agentId (t_definition task) of Some x \<Rightarrow> i = x | None \<Rightarrow> agent \<in> set ?av"
    by (auto simp: i_def split: option.splits)
  show ?thesis
    using a t task0 id def named
    by (intro exI [of _ agent])
       (auto simp: s' getTaskStatus_def agents updateAgentStatus_def getAgent_def getAssignment_def split: option.splits)
qed


lemma processNextTask_assigns_witness:
  "case processNextTask 2 (demo_orch 1) of
     (s', Inr (Some t)) \<Rightarrow> t_status t = T_running \<and> t_assignedAgent t = Some ''a1''
   | _ \<Rightarrow> False"
proof -
  let ?r = "processNextTask 2 (demo_orch 1)"
  have wf: "os_wf (or_sched (demo_orch 1))"
    by (simp add: demo_orch_def Let_def new_orchestrator_def os_wf_def new_orch_sched_def am_wf_registerAgent)
       (intro tq_wf_enqueue tq_wf_new; simp add: demo_def_def enqueue_def new_task_queue_def Let_def)
  have "case ?r of (s', Inr (Some t)) \<Rightarrow> t_assignedAgent t = Some ''a1'' | _ \<Rightarrow> False" by code_simp
  then obtain s' t where r: "?r = (s', Inr (Some t))" "t_assignedAgent t = Some ''a1''"
    by (auto split: prod.splits sum.splits option.splits)
  from processNextTask_assigns [OF wf r(1)] r show ?thesis by auto
qed

text \<open>When no agent is available for the task it dequeues, \<open>processNextTask\<close> returns nothing and
  loses the task: it was marked running and taken off the queue, the \<open>update\<close> that the code does then
  stores the same object and does not enqueue it, so the task stays running, unassigned and unqueued.\<close>

lemma processNextTask_strands:
  assumes "os_wf (or_sched s)" and "or_initialized s"
    and "tq_queue (os_queue (or_sched s)) = skipped @ k # rest"
    and "list_all (\<lambda>j. \<not> runnable (os_queue (or_sched s)) j) skipped"
    and "runnable (os_queue (or_sched s)) k" and "getTaskStatus s k = Some t"
    and "getAvailableAgents (td_agentRole (t_definition t)) (map_option oc_maxAgents (or_config s))
      (os_agents (or_sched s)) = []"
  shows "\<exists>s' t'. processNextTask now s = (s', Inr None) \<and> getTaskStatus s' k = Some t' \<and>
    t_status t' = T_running \<and> t_assignedAgent t' = t_assignedAgent t \<and> t_definition t' = t_definition t \<and>
    k \<notin> set (tq_queue (os_queue (or_sched s')))"
proof -
  let ?q = "os_queue (or_sched s)"
  let ?t = "t\<lparr>t_status := T_running, t_startedAt := Some now\<rparr>"
  have wf: "tq_wf ?q" using assms(1) by (simp add: os_wf_def)
  have t: "jget (tq_tasks ?q) k = Some t" using assms(6) by (simp add: getTaskStatus_def)
  with wf have key: "task_key t = k" by (rule task_key_stored)
  have skipped: "\<forall>j\<in>set skipped. \<not> runnable ?q j" using assms(4) by (simp only: list_all_iff)
  have deq: "dequeue now ?q = (\<lparr>tq_tasks = jset (tq_tasks ?q) k ?t, tq_queue = rest\<rparr>, Some ?t)"
    using dequeue_Some [OF assms(3) skipped assms(5), of now] t by (simp add: Let_def)
  have "k \<notin> set rest" using wf assms(3) by (simp add: tq_wf_def)
  then show ?thesis
    using assms(2,7) key
    by (auto simp: processNextTask_def ensureInitialized_def getNextTask_def deq getTaskStatus_def update_task_def)
qed

lemma processNextTask_strands_witness:
  "case processNextTask 2 (demo_orch 0) of
     (s', Inr None) \<Rightarrow> map_option t_status (getTaskStatus s' ''t1'') = Some T_running \<and>
       tq_queue (os_queue (or_sched s')) = [''t2'']
   | _ \<Rightarrow> False"
proof -
  let ?s = "demo_orch 0"
  have wf: "os_wf (or_sched ?s)"
    by (simp add: demo_orch_def Let_def new_orchestrator_def os_wf_def new_orch_sched_def)
       (intro tq_wf_enqueue tq_wf_new; simp add: demo_def_def enqueue_def new_task_queue_def Let_def)
  have vals: "or_initialized ?s" "tq_queue (os_queue (or_sched ?s)) = [] @ ''t1'' # [''t2'']"
      "runnable (os_queue (or_sched ?s)) ''t1''" by code_simp+
  have "case getTaskStatus ?s ''t1'' of None \<Rightarrow> False
        | Some t \<Rightarrow> getAvailableAgents (td_agentRole (t_definition t)) (map_option oc_maxAgents (or_config ?s))
            (os_agents (or_sched ?s)) = []" by code_simp
  then obtain t where t: "getTaskStatus ?s ''t1'' = Some t"
      "getAvailableAgents (td_agentRole (t_definition t)) (map_option oc_maxAgents (or_config ?s))
        (os_agents (or_sched ?s)) = []" by (auto split: option.splits)
  have q: "tq_queue (os_queue (or_sched (fst (processNextTask 2 ?s)))) = [''t2'']" by code_simp
  from processNextTask_strands [OF wf vals(1,2) _ vals(3) t, of 2] q show ?thesis by auto
qed

end
