(* ===== verification/CheckpointManager.thy ===== *)
theory CheckpointManager
  imports StateStore
begin

text \<open>
  Workflow checkpoints (\<open>src/src/persistence/checkpoint-manager.ts\<close>, class
  \<open>CheckpointManager\<close>): a cache from checkpoint id to checkpoint and one JSON file per execution in
  the \<open>checkpoints\<close> directory. A file is named by its execution id and is \<open>None\<close> when its text does
  not parse. Random id suffixes and the clock are arguments; \<open>keepCount\<close> is not negative.
\<close>

record Checkpoint =
  ck_id :: string
  ck_executionId :: string
  ck_nodeId :: string
  ck_timestamp :: int
  ck_variables :: js_record
  ck_nodeStates :: js_record

record CheckpointFile =
  cf_version :: string
  cf_checkpoints :: "Checkpoint list"
  cf_updatedAt :: int

record checkpoint_manager =
  cm_cache :: "(string, Checkpoint) jsmap"
  cm_files :: "(string, CheckpointFile option) jsmap"
  cm_dirty :: bool

definition loadCheckpointFile :: "string \<Rightarrow> checkpoint_manager \<Rightarrow> checkpoint_manager" where
  "loadCheckpointFile f s =
     (case jget (cm_files s) f of
        Some (Some file) \<Rightarrow>
          s\<lparr>cm_cache := fold (\<lambda>c m. jset m (ck_id c) c) (cf_checkpoints file) (cm_cache s)\<rparr>
      | _ \<Rightarrow> s)"

definition loadAllCheckpoints :: "checkpoint_manager \<Rightarrow> checkpoint_manager" where
  "loadAllCheckpoints s = fold loadCheckpointFile (jkeys (cm_files s)) s"

definition open_checkpoints :: "(string, CheckpointFile option) jsmap \<Rightarrow> checkpoint_manager" where
  "open_checkpoints files = loadAllCheckpoints \<lparr>cm_cache = [], cm_files = files, cm_dirty = False\<rparr>"

definition of_execution :: "string \<Rightarrow> checkpoint_manager \<Rightarrow> Checkpoint list" where
  "of_execution executionId s = filter (\<lambda>c. ck_executionId c = executionId) (jvals (cm_cache s))"

definition saveCheckpointFile :: "int \<Rightarrow> string \<Rightarrow> checkpoint_manager \<Rightarrow> checkpoint_manager" where
  "saveCheckpointFile now executionId s =
     s\<lparr>cm_files := jset (cm_files s) executionId
         (Some \<lparr>cf_version = ''1.0.0'', cf_checkpoints = of_execution executionId s, cf_updatedAt = now\<rparr>)\<rparr>"

definition createCheckpoint ::
    "int \<Rightarrow> string \<Rightarrow> string \<Rightarrow> string \<Rightarrow> js_record option \<Rightarrow> js_record option \<Rightarrow> checkpoint_manager \<Rightarrow>
     checkpoint_manager \<times> Checkpoint" where
  "createCheckpoint now rnd executionId nodeId variables nodeStates s =
     (let c = \<lparr>ck_id = gen_id ''checkpoint'' now rnd, ck_executionId = executionId, ck_nodeId = nodeId,
               ck_timestamp = now,
               ck_variables = (case variables of Some v \<Rightarrow> v | None \<Rightarrow> []),
               ck_nodeStates = (case nodeStates of Some v \<Rightarrow> v | None \<Rightarrow> [])\<rparr>
      in (saveCheckpointFile now executionId (s\<lparr>cm_cache := jset (cm_cache s) (ck_id c) c\<rparr>), c))"

definition loadCheckpoint :: "string \<Rightarrow> checkpoint_manager \<Rightarrow> Checkpoint option" where
  "loadCheckpoint checkpointId s = jget (cm_cache s) checkpointId"

definition listCheckpoints :: "string \<Rightarrow> checkpoint_manager \<Rightarrow> Checkpoint list" where
  "listCheckpoints executionId s = sort_key (\<lambda>c. - ck_timestamp c) (of_execution executionId s)"

definition getLatestCheckpoint :: "string \<Rightarrow> checkpoint_manager \<Rightarrow> Checkpoint option" where
  "getLatestCheckpoint executionId s =
     (case listCheckpoints executionId s of [] \<Rightarrow> None | c # _ \<Rightarrow> Some c)"

definition deleteCheckpoint :: "int \<Rightarrow> string \<Rightarrow> checkpoint_manager \<Rightarrow> checkpoint_manager" where
  "deleteCheckpoint now checkpointId s =
     (case jget (cm_cache s) checkpointId of
        None \<Rightarrow> s
      | Some c \<Rightarrow>
          saveCheckpointFile now (ck_executionId c) (s\<lparr>cm_cache := jdel (cm_cache s) checkpointId\<rparr>))"

definition deleteCheckpointsForExecution :: "string \<Rightarrow> checkpoint_manager \<Rightarrow> checkpoint_manager" where
  "deleteCheckpointsForExecution executionId s =
     s\<lparr>cm_cache := jdrop (\<lambda>_ c. ck_executionId c = executionId) (cm_cache s),
       cm_files := jdel (cm_files s) executionId\<rparr>"

definition pruneOldCheckpoints ::
    "int \<Rightarrow> string \<Rightarrow> nat \<Rightarrow> checkpoint_manager \<Rightarrow> checkpoint_manager \<times> nat" where
  "pruneOldCheckpoints now executionId keepCount s =
     (let checkpoints = listCheckpoints executionId s
      in if length checkpoints \<le> keepCount then (s, 0)
         else (let toDelete = drop keepCount checkpoints
               in (saveCheckpointFile now executionId
                     (s\<lparr>cm_cache := fold (\<lambda>c m. jdel m (ck_id c)) toDelete (cm_cache s)\<rparr>),
                   length toDelete)))"

definition validateCheckpoint :: "string \<Rightarrow> checkpoint_manager \<Rightarrow> bool" where
  "validateCheckpoint checkpointId s =
     (case jget (cm_cache s) checkpointId of
        None \<Rightarrow> False
      | Some c \<Rightarrow>
          if ck_id c = [] \<or> ck_executionId c = [] \<or> ck_nodeId c = [] then False
          else if ck_timestamp c \<le> 0 then False else True)"

text \<open>The folds of \<open>getCheckpointStats\<close>; a zero time counts as no time, as \<open>!oldest\<close> has it.\<close>

definition oldest_step :: "int \<Rightarrow> int option \<Rightarrow> int option" where
  "oldest_step t oldest = (case oldest of None \<Rightarrow> Some t
     | Some o' \<Rightarrow> if o' = 0 \<or> t < o' then Some t else Some o')"

definition newest_step :: "int \<Rightarrow> int option \<Rightarrow> int option" where
  "newest_step t newest = (case newest of None \<Rightarrow> Some t
     | Some n \<Rightarrow> if n = 0 \<or> t > n then Some t else Some n)"

definition getCheckpointStats ::
    "checkpoint_manager \<Rightarrow> nat \<times> string list \<times> int option \<times> int option" where
  "getCheckpointStats s =
     (length (cm_cache s),
      fold (\<lambda>c es. if ck_executionId c \<in> set es then es else es @ [ck_executionId c]) (jvals (cm_cache s)) [],
      fold (\<lambda>c. oldest_step (ck_timestamp c)) (jvals (cm_cache s)) None,
      fold (\<lambda>c. newest_step (ck_timestamp c)) (jvals (cm_cache s)) None)"

definition cm_flush :: "int \<Rightarrow> checkpoint_manager \<Rightarrow> checkpoint_manager" where
  "cm_flush now s =
     (if cm_dirty s
      then (fold (saveCheckpointFile now) (remdups (map ck_executionId (jvals (cm_cache s)))) s)
             \<lparr>cm_dirty := False\<rparr>
      else s)"

definition cm_close :: "int \<Rightarrow> checkpoint_manager \<Rightarrow> checkpoint_manager" where
  "cm_close now s = (cm_flush now s)\<lparr>cm_cache := []\<rparr>"

subsection \<open>The files mirror the cache\<close>

definition cm_wf :: "checkpoint_manager \<Rightarrow> bool" where
  "cm_wf s \<longleftrightarrow> jwf (cm_cache s) \<and> (\<forall>k c. jget (cm_cache s) k = Some c \<longrightarrow> ck_id c = k) \<and> \<not> cm_dirty s"

definition stored :: "(string, CheckpointFile option) jsmap \<Rightarrow> string \<Rightarrow> Checkpoint list" where
  "stored fs e = (case jget fs e of Some (Some f) \<Rightarrow> cf_checkpoints f | _ \<Rightarrow> [])"

text \<open>Every stored checkpoint is a cached one of that execution and every cached one is stored.\<close>

definition mirrored :: "checkpoint_manager \<Rightarrow> bool" where
  "mirrored s \<longleftrightarrow> cm_wf s \<and>
     (\<forall>e c. c \<in> set (stored (cm_files s) e) \<longleftrightarrow>
        ck_executionId c = e \<and> jget (cm_cache s) (ck_id c) = Some c)"

lemma of_execution_mem:
  "cm_wf s \<Longrightarrow> c \<in> set (of_execution e s) \<longleftrightarrow> ck_executionId c = e \<and> jget (cm_cache s) (ck_id c) = Some c"
  by (auto simp: of_execution_def cm_wf_def jvals_mem simp del: set_map)

lemma stored_save:
  "stored (cm_files (saveCheckpointFile now e s)) e' =
     (if e' = e then of_execution e s else stored (cm_files s) e')"
  by (simp add: stored_def saveCheckpointFile_def)

lemma cm_cache_save [simp]:
  "cm_cache (saveCheckpointFile now e s) = cm_cache s" "cm_dirty (saveCheckpointFile now e s) = cm_dirty s"
  by (simp_all add: saveCheckpointFile_def)

lemma cm_wf_save [simp]: "cm_wf (saveCheckpointFile now e s) = cm_wf s"
  by (simp add: cm_wf_def)

text \<open>A change of the cache confined to one execution, then its save, keeps the mirror.\<close>

lemma mirrored_save:
  assumes "mirrored s" and "cm_wf (s\<lparr>cm_cache := m\<rparr>)"
    and "\<And>c. ck_executionId c \<noteq> e \<Longrightarrow>
      jget m (ck_id c) = Some c \<longleftrightarrow> jget (cm_cache s) (ck_id c) = Some c"
  shows "mirrored (saveCheckpointFile now e (s\<lparr>cm_cache := m\<rparr>))"
  using assms by (auto simp: mirrored_def stored_save of_execution_mem)

lemma cm_wf_jset: "cm_wf s \<Longrightarrow> ck_id c = k \<Longrightarrow> cm_wf (s\<lparr>cm_cache := jset (cm_cache s) k c\<rparr>)"
  by (auto simp: cm_wf_def split: if_splits)

lemma cm_wf_jdel: "cm_wf s \<Longrightarrow> cm_wf (s\<lparr>cm_cache := jdel (cm_cache s) k\<rparr>)"
  by (auto simp: cm_wf_def split: if_splits)

lemma jget_jdels: "jget (fold (\<lambda>c m. jdel m (ck_id c)) cs m) k = (if k \<in> ck_id ` set cs then None else jget m k)"
  by (induction cs arbitrary: m) auto

lemma cm_wf_jdels: "cm_wf s \<Longrightarrow> cm_wf (s\<lparr>cm_cache := fold (\<lambda>c m. jdel m (ck_id c)) cs (cm_cache s)\<rparr>)"
  by (rule fold_keeps [where P = "\<lambda>m. cm_wf (s\<lparr>cm_cache := m\<rparr>)"]) (auto dest: cm_wf_jdel)

lemma cm_wf_jdrop: "cm_wf s \<Longrightarrow> cm_wf (s\<lparr>cm_cache := jdrop p (cm_cache s)\<rparr>)"
  by (auto simp: cm_wf_def jget_jdrop split: option.splits if_splits)

lemma mirrored_create [wf_intros]:
  assumes "mirrored s" and "jget (cm_cache s) (gen_id ''checkpoint'' now rnd) = None"
  shows "mirrored (fst (createCheckpoint now rnd e nodeId vs ns s))"
  using assms unfolding createCheckpoint_def Let_def fst_conv
  by (intro mirrored_save) (auto simp: mirrored_def intro!: cm_wf_jset)

lemma mirrored_delete [wf_intros]:
  assumes "mirrored s" shows "mirrored (deleteCheckpoint now k s)"
proof (cases "jget (cm_cache s) k")
  case (Some c)
  with assms show ?thesis
    by (auto simp: deleteCheckpoint_def intro!: mirrored_save cm_wf_jdel) (auto simp: mirrored_def split: if_splits)
qed (use assms in \<open>simp add: deleteCheckpoint_def\<close>)

lemma mirrored_deleteAll [wf_intros]:
  assumes "mirrored s" shows "mirrored (deleteCheckpointsForExecution e s)"
proof -
  let ?m = "jdrop (\<lambda>_ c. ck_executionId c = e) (cm_cache s)"
  have "jwf (cm_cache s)" using assms by (simp add: mirrored_def cm_wf_def)
  then have get: "jget ?m k = Some c \<longleftrightarrow> jget (cm_cache s) k = Some c \<and> ck_executionId c \<noteq> e" for k c
    by (auto simp: jget_jdrop split: option.split)
  have wf: "cm_wf (s\<lparr>cm_cache := ?m\<rparr>)" using assms by (simp add: mirrored_def cm_wf_jdrop)
  then have "cm_wf (deleteCheckpointsForExecution e s)"
    by (simp add: deleteCheckpointsForExecution_def cm_wf_def)
  moreover have "stored (cm_files (deleteCheckpointsForExecution e s)) e' =
      (if e' = e then [] else stored (cm_files s) e')" for e'
    by (simp add: stored_def deleteCheckpointsForExecution_def)
  moreover have "cm_cache (deleteCheckpointsForExecution e s) = ?m"
    by (simp add: deleteCheckpointsForExecution_def)
  ultimately show ?thesis using assms get by (auto simp: mirrored_def)
qed

lemma list_set [simp]: "set (listCheckpoints e s) = set (of_execution e s)"
  by (simp add: listCheckpoints_def)

lemma mirrored_prune [wf_intros]:
  assumes "mirrored s" shows "mirrored (fst (pruneOldCheckpoints now e n s))"
proof -
  have wf: "cm_wf s" using assms by (simp add: mirrored_def)
  have "ck_executionId d = e \<and> jget (cm_cache s) (ck_id d) = Some d"
    if "d \<in> set (drop n (listCheckpoints e s))" for d
    using that of_execution_mem [OF wf] by (auto dest: in_set_dropD)
  with assms have "mirrored (saveCheckpointFile now e
      (s\<lparr>cm_cache := fold (\<lambda>c m. jdel m (ck_id c)) (drop n (listCheckpoints e s)) (cm_cache s)\<rparr>))"
    by (intro mirrored_save cm_wf_jdels wf) (force simp: jget_jdels)+
  with assms show ?thesis by (simp add: pruneOldCheckpoints_def Let_def)
qed


subsection \<open>Histories\<close>

datatype cm_op =
    CmCreate int string string string "js_record option" "js_record option"
  | CmDelete int string
  | CmDeleteExecution string
  | CmPrune int string nat
  | CmFlush int

fun cm_apply :: "cm_op \<Rightarrow> checkpoint_manager \<Rightarrow> checkpoint_manager" where
  "cm_apply (CmCreate now rnd e n vs ns) s = fst (createCheckpoint now rnd e n vs ns s)"
| "cm_apply (CmDelete now k) s = deleteCheckpoint now k s"
| "cm_apply (CmDeleteExecution e) s = deleteCheckpointsForExecution e s"
| "cm_apply (CmPrune now e n) s = fst (pruneOldCheckpoints now e n s)"
| "cm_apply (CmFlush now) s = cm_flush now s"

text \<open>The generated id of a new checkpoint is unused.\<close>

fun fresh_checkpoint :: "checkpoint_manager \<Rightarrow> cm_op \<Rightarrow> bool" where
  "fresh_checkpoint s (CmCreate now rnd e n vs ns) = (jget (cm_cache s) (gen_id ''checkpoint'' now rnd) = None)"
| "fresh_checkpoint s _ = True"

interpretation cm_machine: guarded_machine fresh_checkpoint cm_apply mirrored
proof
  fix s x
  assume "fresh_checkpoint s x" "mirrored s"
  then show "mirrored (cm_apply x s)"
    by (cases x) (simp_all add: wf_intros cm_flush_def, simp add: mirrored_def cm_wf_def)
qed

lemma load_checkpoints_target:
  "\<forall>c\<in>set cs. C (ck_id c) = Some c \<Longrightarrow> jget m \<subseteq>\<^sub>m C \<Longrightarrow>
   jget (fold (\<lambda>c m. jset m (ck_id c) c) cs m) \<subseteq>\<^sub>m C \<and>
   jget m \<subseteq>\<^sub>m jget (fold (\<lambda>c m. jset m (ck_id c) c) cs m) \<and>
   (\<forall>c\<in>set cs. jget (fold (\<lambda>c m. jset m (ck_id c) c) cs m) (ck_id c) = Some c)"
proof (induction cs arbitrary: m)
  case (Cons c cs)
  let ?m = "jset m (ck_id c) c"
  let ?r = "fold (\<lambda>c m. jset m (ck_id c) c) cs ?m"
  from Cons.prems have le: "jget ?m \<subseteq>\<^sub>m C" "jget m \<subseteq>\<^sub>m jget ?m"
    by (auto simp: map_le_def dom_def)
  from Cons.prems have "\<forall>c\<in>set cs. C (ck_id c) = Some c" by simp
  note ih = Cons.IH [OF this le(1)]
  have top: "jget ?r (ck_id c) = Some c"
    by (rule map_le_SomeD [where m = "jget ?m"]) (use ih in blast, simp)
  have "jget m \<subseteq>\<^sub>m jget ?r" by (rule map_le_trans [OF le(2)]) (use ih in blast)
  moreover have "\<forall>c'\<in>set (c # cs). jget ?r (ck_id c') = Some c'"
  proof
    fix c' assume "c' \<in> set (c # cs)"
    then consider "c' = c" | "c' \<in> set cs" by auto
    then show "jget ?r (ck_id c') = Some c'" using top ih by cases blast+
  qed
  ultimately show ?case unfolding fold_simps comp_def using ih by blast
qed simp

lemma loadCheckpointFile_eq:
  "loadCheckpointFile f s =
     s\<lparr>cm_cache := fold (\<lambda>c m. jset m (ck_id c) c) (stored (cm_files s) f) (cm_cache s)\<rparr>"
  by (simp add: loadCheckpointFile_def stored_def split: option.split)

lemma loadCheckpointFiles_target:
  "\<forall>f\<in>set fs. \<forall>c\<in>set (stored (cm_files s) f). C (ck_id c) = Some c \<Longrightarrow>
   jget (cm_cache s) \<subseteq>\<^sub>m C \<Longrightarrow>
   jget (cm_cache (fold loadCheckpointFile fs s)) \<subseteq>\<^sub>m C \<and>
   jget (cm_cache s) \<subseteq>\<^sub>m jget (cm_cache (fold loadCheckpointFile fs s)) \<and>
   (\<forall>f\<in>set fs. \<forall>c\<in>set (stored (cm_files s) f).
      jget (cm_cache (fold loadCheckpointFile fs s)) (ck_id c) = Some c)"
proof (induction fs arbitrary: s)
  case (Cons f fs)
  let ?t = "loadCheckpointFile f s"
  have "\<forall>c\<in>set (stored (cm_files s) f). C (ck_id c) = Some c"
    using Cons.prems(1) by simp
  from load_checkpoints_target [OF this Cons.prems(2)]
  have step: "jget (cm_cache ?t) \<subseteq>\<^sub>m C" "jget (cm_cache s) \<subseteq>\<^sub>m jget (cm_cache ?t)"
      "\<forall>c\<in>set (stored (cm_files s) f). jget (cm_cache ?t) (ck_id c) = Some c"
    by (simp_all add: loadCheckpointFile_eq)
  have files: "cm_files ?t = cm_files s" by (simp add: loadCheckpointFile_eq)
  from Cons.prems(1) files have "\<forall>f\<in>set fs. \<forall>c\<in>set (stored (cm_files ?t) f). C (ck_id c) = Some c"
    by simp
  from Cons.IH [OF this step(1)] files
  have ih: "jget (cm_cache (fold loadCheckpointFile fs ?t)) \<subseteq>\<^sub>m C"
      "jget (cm_cache ?t) \<subseteq>\<^sub>m jget (cm_cache (fold loadCheckpointFile fs ?t))"
      "\<forall>f\<in>set fs. \<forall>c\<in>set (stored (cm_files s) f).
         jget (cm_cache (fold loadCheckpointFile fs ?t)) (ck_id c) = Some c"
    by simp_all
  from step(3) ih(2) have "\<forall>c\<in>set (stored (cm_files s) f).
      jget (cm_cache (fold loadCheckpointFile fs ?t)) (ck_id c) = Some c"
    by (blast intro: map_le_SomeD)
  with ih map_le_trans [OF step(2) ih(2)] show ?case by simp
qed simp

lemma mirrored_reopen:
  assumes "mirrored s"
  shows "loadCheckpoint k (open_checkpoints (cm_files s)) = loadCheckpoint k s"
proof -
  let ?s0 = "\<lparr>cm_cache = [], cm_files = cm_files s, cm_dirty = False\<rparr>"
  let ?t = "open_checkpoints (cm_files s)"
  have t: "?t = fold loadCheckpointFile (jkeys (cm_files s)) ?s0"
    by (simp add: open_checkpoints_def loadAllCheckpoints_def)
  have le: "jget (cm_cache ?t) \<subseteq>\<^sub>m jget (cm_cache s)"
    and all: "f \<in> set (jkeys (cm_files s)) \<Longrightarrow> c \<in> set (stored (cm_files s) f) \<Longrightarrow>
      jget (cm_cache ?t) (ck_id c) = Some c" for f c
    using assms loadCheckpointFiles_target [of "jkeys (cm_files s)" ?s0 "jget (cm_cache s)"]
    unfolding t by (auto simp: mirrored_def)
  show ?thesis
  proof (cases "jget (cm_cache s) k")
    case None
    with le show ?thesis by (metis domIff loadCheckpoint_def map_le_implies_dom_le subsetD)
  next
    case (Some c)
    with assms have "c \<in> set (stored (cm_files s) (ck_executionId c))" and id: "ck_id c = k"
      by (auto simp: mirrored_def cm_wf_def)
    moreover from this have "ck_executionId c \<in> set (jkeys (cm_files s))"
      by (cases "jget (cm_files s) (ck_executionId c)") (auto simp: stored_def dest: map_of_SomeD intro: rev_image_eqI)
    ultimately show ?thesis using all Some by (force simp: loadCheckpoint_def)
  qed
qed

subsection \<open>Listing and pruning\<close>

lemma list_sorted: "sorted_wrt (\<lambda>a b. ck_timestamp b \<le> ck_timestamp a) (listCheckpoints e s)"
proof -
  have "sorted (map (\<lambda>c. - ck_timestamp c) (listCheckpoints e s))" by (simp add: listCheckpoints_def)
  then show ?thesis by (simp add: sorted_map)
qed

lemma list_distinct:
  assumes "cm_wf s" shows "distinct (map ck_id (listCheckpoints e s))"
proof -
  have "map ck_id (jvals (cm_cache s)) = jkeys (cm_cache s)"
    using assms by (auto simp: cm_wf_def jget_mem [symmetric])
  then have "distinct (map ck_id (jvals (cm_cache s)))"
    using assms by (simp only: cm_wf_def jwf_def)
  then have "distinct (map ck_id (of_execution e s))"
    unfolding of_execution_def by (rule distinct_map_filter)
  then show ?thesis by (simp add: listCheckpoints_def distinct_map)
qed

lemma take_filter_ids:
  "distinct (map f xs) \<Longrightarrow> filter (\<lambda>x. f x \<notin> f ` set (drop n xs)) xs = take n xs"
proof -
  assume d: "distinct (map f xs)"
  have "distinct (map f (take n xs @ drop n xs))" using d by simp
  then have "f ` set (take n xs) \<inter> f ` set (drop n xs) = {}"
    by (simp only: map_append distinct_append set_map)
  then have "filter (\<lambda>x. f x \<notin> f ` set (drop n xs)) (take n xs @ drop n xs) = take n xs"
    by (auto simp: filter_id_conv filter_empty_conv simp del: append_take_drop_id)
  then show ?thesis by simp
qed

lemma filter_jdels:
  "jwf m \<Longrightarrow> (\<And>k c. jget m k = Some c \<Longrightarrow> ck_id c = k) \<Longrightarrow>
   jvals (fold (\<lambda>c m. jdel m (ck_id c)) cs m) = filter (\<lambda>c. ck_id c \<notin> ck_id ` set cs) (jvals m)"
proof -
  assume wf: "jwf m" and key: "\<And>k c. jget m k = Some c \<Longrightarrow> ck_id c = k"
  have "fold (\<lambda>c m. jdel m (ck_id c)) cs m = filter (\<lambda>(k, _). k \<notin> ck_id ` set cs) m"
    by (induction cs arbitrary: m) (auto simp: AList.delete_eq intro!: filter_cong)
  moreover have "(k, c) \<in> set m \<Longrightarrow> ck_id c = k" for k c
    using wf key by (simp add: jget_mem)
  ultimately show ?thesis by (auto simp: filter_map comp_def split_def intro!: arg_cong [where f = "map snd"] filter_cong)
qed

lemma prune_list:
  assumes "cm_wf s"
  shows "listCheckpoints e' (fst (pruneOldCheckpoints now e n s)) =
    (if e' = e then take n (listCheckpoints e s) else listCheckpoints e' s)"
proof (cases "length (listCheckpoints e s) \<le> n")
  case False
  let ?D = "drop n (listCheckpoints e s)"
  have exec: "of_execution e' (fst (pruneOldCheckpoints now e n s)) =
      filter (\<lambda>c. ck_id c \<notin> ck_id ` set ?D) (of_execution e' s)"
    using assms False filter_jdels [of "cm_cache s" ?D]
    by (simp add: pruneOldCheckpoints_def Let_def of_execution_def cm_wf_def conj_commute)
  show ?thesis
  proof (cases "e' = e")
    case True
    then show ?thesis
      using exec take_filter_ids [OF list_distinct [OF assms, of e], of n]
      by (simp add: listCheckpoints_def filter_sort)
  next
    case False
    have "ck_id c \<notin> ck_id ` set ?D" if "c \<in> set (of_execution e' s)" for c
      using that False of_execution_mem [OF assms] by (auto dest!: in_set_dropD)
    then have "filter (\<lambda>c. ck_id c \<notin> ck_id ` set ?D) (of_execution e' s) = of_execution e' s"
      by (simp add: filter_id_conv)
    with exec False show ?thesis by (simp add: listCheckpoints_def)
  qed
qed (simp add: pruneOldCheckpoints_def Let_def)

subsection \<open>Properties\<close>

lemma mirrored_empty: "mirrored (open_checkpoints [])"
  by (simp add: open_checkpoints_def loadAllCheckpoints_def mirrored_def cm_wf_def stored_def)

text \<open>After any history of creations, deletions and prunings on a manager opened on an empty
  directory, with unused generated ids, a manager reopened on the files finds exactly the same
  checkpoints.\<close>

lemma checkpoints_survive_restart:
  assumes "legal_run fresh_checkpoint cm_apply (open_checkpoints []) ops"
    and "s = fold cm_apply ops (open_checkpoints [])"
  shows "loadCheckpoint k (open_checkpoints (cm_files s)) = loadCheckpoint k s"
  using mirrored_reopen cm_machine.inv_legal_run [OF assms(1) mirrored_empty] by (simp add: assms(2))

definition demo_cm_ops :: "cm_op list" where
  "demo_cm_ops =
     [CmCreate 1 ''a'' ''e1'' ''n1'' (Some [(''x'', JNum 1)]) None, CmCreate 2 ''b'' ''e1'' ''n2'' None None,
      CmCreate 3 ''c'' ''e2'' ''n1'' None None, CmPrune 4 ''e1'' 1, CmDeleteExecution ''e2'']"

lemma checkpoints_survive_restart_witness:
  "loadCheckpoint ''checkpoint-2-b''
      (open_checkpoints (cm_files (fold cm_apply demo_cm_ops (open_checkpoints [])))) =
    loadCheckpoint ''checkpoint-2-b'' (fold cm_apply demo_cm_ops (open_checkpoints []))"
  by (rule checkpoints_survive_restart [where ops = demo_cm_ops]) (code_simp, simp)

text \<open>C13: Pruning an execution keeps its newest checkpoints: the listing afterwards is the first
  \<open>keepCount\<close> of the listing before, which runs from newest to oldest, the number returned is that of the
  rest, the latest checkpoint stays and no other execution changes.\<close>

theorem prune_keeps_newest:
  assumes "cm_wf s" and "pruneOldCheckpoints now e keepCount s = (s', deleted)"
  shows "sorted_wrt (\<lambda>a b. ck_timestamp b \<le> ck_timestamp a) (listCheckpoints e s) \<and>
    listCheckpoints e s' = take keepCount (listCheckpoints e s) \<and>
    deleted = length (listCheckpoints e s) - keepCount \<and>
    (0 < keepCount \<longrightarrow> getLatestCheckpoint e s' = getLatestCheckpoint e s) \<and>
    (e' \<noteq> e \<longrightarrow> listCheckpoints e' s' = listCheckpoints e' s)"
proof -
  have s': "s' = fst (pruneOldCheckpoints now e keepCount s)" using assms(2) by simp
  have "deleted = length (listCheckpoints e s) - keepCount"
    using assms(2) by (auto simp: pruneOldCheckpoints_def Let_def split: if_splits)
  then show ?thesis
    unfolding s' using prune_list [OF assms(1)] list_sorted
    by (auto simp: getLatestCheckpoint_def take_Cons' split: list.split)
qed

definition demo_cm :: checkpoint_manager where
  "demo_cm = fold cm_apply (take 3 demo_cm_ops) (open_checkpoints [])"

lemma prune_keeps_newest_witness:
  "map ck_id (listCheckpoints ''e1'' (fst (pruneOldCheckpoints 9 ''e1'' 1 demo_cm))) = [''checkpoint-2-b'']"
proof -
  have "legal_run fresh_checkpoint cm_apply (open_checkpoints []) (take 3 demo_cm_ops)" by code_simp
  from cm_machine.inv_legal_run [OF this mirrored_empty] have "cm_wf demo_cm"
    by (simp add: demo_cm_def mirrored_def)
  from prune_keeps_newest [OF this, of 9 "''e1''" 1 "fst (pruneOldCheckpoints 9 ''e1'' 1 demo_cm)"
      "snd (pruneOldCheckpoints 9 ''e1'' 1 demo_cm)"]
  have "listCheckpoints ''e1'' (fst (pruneOldCheckpoints 9 ''e1'' 1 demo_cm)) =
      take 1 (listCheckpoints ''e1'' demo_cm)" by simp
  moreover have "map ck_id (take 1 (listCheckpoints ''e1'' demo_cm)) = [''checkpoint-2-b'']" by code_simp
  ultimately show ?thesis by simp
qed

end
