(* ===== verification/WorkflowTypes.thy ===== *)
theory WorkflowTypes
  imports Prelude
begin

text \<open>
  The data model of the workflow engine (\<open>src/src/workflow/types.ts\<close>). Nodes and their
  configurations are mutually recursive. Node states are objects that executions and checkpoints share,
  so an execution maps node ids to addresses of a heap of node states.
\<close>

datatype NodeType = NT_task | NT_parallel | NT_sequential | NT_condition | NT_loop | NT_subworkflow

datatype WorkflowStatus = W_pending | W_running | W_paused | W_completed | W_failed | W_cancelled

datatype NodeStatus = N_pending | N_running | N_completed | N_failed | N_skipped

datatype WorkflowNode =
  WorkflowNode (wn_id: string) (wn_type: NodeType) (wn_name: string) (wn_dependencies: "string list")
    (wn_config: NodeConfig) (wn_timeout: "int option") (wn_retryCount: "int option")
    (wn_metadata: "js_record option")
and NodeConfig =
    TaskNodeConfig string "string option" "string option"
  | ParallelNodeConfig "WorkflowNode list" "bool option"
  | SequentialNodeConfig "WorkflowNode list"
  | ConditionNodeConfig string WorkflowNode "WorkflowNode option"
  | LoopNodeConfig string string WorkflowNode "int option"
  | SubworkflowNodeConfig string "(string, string) jsmap"

datatype TriggerType = TT_manual | TT_schedule | TT_event | TT_webhook

record WorkflowTrigger =
  wt_type :: TriggerType
  wt_config :: js_record
  wt_enabled :: bool

record WorkflowDefinition =
  wd_id :: string
  wd_name :: string
  wd_version :: string
  wd_description :: "string option"
  wd_nodes :: "WorkflowNode list"
  wd_variables :: js_record
  wd_triggers :: "WorkflowTrigger list"
  wd_timeout :: "int option"
  wd_metadata :: "js_record option"

record NodeExecutionState =
  ne_nodeId :: string
  ne_status :: NodeStatus
  ne_startedAt :: "int option"
  ne_completedAt :: "int option"
  ne_result :: "jsval option"
  ne_error :: "string option"
  ne_retryCount :: int

type_synonym address = nat

record WorkflowCheckpoint =
  wc_id :: string
  wc_executionId :: string
  wc_nodeId :: string
  wc_timestamp :: int
  wc_variables :: js_record
  wc_nodeStates :: "(string, address) jsmap"

record WorkflowExecution =
  x_id :: string
  x_workflowId :: string
  x_workflowVersion :: string
  x_status :: WorkflowStatus
  x_startedAt :: int
  x_completedAt :: "int option"
  x_variables :: js_record
  x_nodeStates :: "(string, address) jsmap"
  x_checkpoints :: "WorkflowCheckpoint list"
  x_error :: "string option"

record WorkflowResult =
  y_executionId :: string
  y_workflowId :: string
  y_status :: WorkflowStatus
  y_output :: "jsval option"
  y_error :: "string option"
  y_duration :: int
  y_nodeResults :: js_record

record WorkflowEngineConfig =
  wg_maxConcurrentExecutions :: int
  wg_defaultTimeout :: int
  wg_checkpointEnabled :: bool
  wg_checkpointInterval :: int
  wg_persistenceEnabled :: bool
  wg_persistencePath :: "string option"

end
