(* ===== verification/WorkflowGraph.thy ===== *)
theory WorkflowGraph
  imports WorkflowTypes
begin

text \<open>
  The ordering of a workflow's nodes (\<open>topologicalSort\<close> of
  \<open>src/src/workflow/workflow-engine.ts\<close>): a depth-first search over the dependency ids.
  \<open>visiting\<close> is passed down as the path of the search: the code adds an id on entry and deletes it on
  exit, so between calls the set holds exactly the ids of the active calls. The search ends because the
  path has no repetition and only ids of nodes are expanded.
\<close>

type_synonym node_map = "(string, WorkflowNode) jsmap"

text \<open>The error message is \<open>Circular dependency detected at node\<close> with the id.\<close>

datatype sort_error = Circular string

definition nodeMap :: "WorkflowNode list \<Rightarrow> node_map" where
  "nodeMap nodes = fold (\<lambda>n m. jset m (wn_id n) n) nodes []"

type_synonym sort_state = "string list \<times> WorkflowNode list"

text \<open>The state is the list of visited ids and the nodes sorted so far.\<close>

lemma unvisited_card:
  "jget m k = Some n \<Longrightarrow> k \<notin> set p \<Longrightarrow> card (set (jkeys m) - set (k # p)) < card (set (jkeys m) - set p)"
proof -
  assume "jget m k = Some n" "k \<notin> set p"
  then have "k \<in> set (jkeys m) - set p" by (auto dest: map_of_SomeD intro: rev_image_eqI)
  then have "set (jkeys m) - set (k # p) \<subset> set (jkeys m) - set p" by auto
  then show ?thesis by (intro psubset_card_mono) auto
qed

function (sequential)
  visit :: "node_map \<Rightarrow> string list \<Rightarrow> string \<Rightarrow> sort_state \<Rightarrow> sort_error + sort_state" and
  visit_deps :: "node_map \<Rightarrow> string list \<Rightarrow> string list \<Rightarrow> sort_state \<Rightarrow> sort_error + sort_state"
where
  "visit m visiting nodeId (visited, result) =
     (if nodeId \<in> set visited then Inr (visited, result)
      else if nodeId \<in> set visiting then Inl (Circular nodeId)
      else case jget m nodeId of
             None \<Rightarrow> Inr (visited @ [nodeId], result)
           | Some node \<Rightarrow>
               (case visit_deps m (nodeId # visiting) (wn_dependencies node) (visited, result) of
                  Inl e \<Rightarrow> Inl e
                | Inr (visited', result') \<Rightarrow> Inr (visited' @ [nodeId], result' @ [node])))"
| "visit_deps m visiting [] st = Inr st"
| "visit_deps m visiting (depId # deps) st =
     (case visit m visiting depId st of
        Inl e \<Rightarrow> Inl e
      | Inr st' \<Rightarrow> visit_deps m visiting deps st')"
  by pat_completeness auto

termination
  by (relation "measures [\<lambda>x. case x of Inl (m, p, _, _) \<Rightarrow> card (set (jkeys m) - set p)
                            | Inr (m, p, _, _) \<Rightarrow> card (set (jkeys m) - set p),
                          \<lambda>x. case x of Inl _ \<Rightarrow> 0 | Inr (_, _, ds, _) \<Rightarrow> Suc (length ds)]")
     (auto simp del: set_map simp: unvisited_card [simplified])

fun visit_all :: "node_map \<Rightarrow> WorkflowNode list \<Rightarrow> sort_state \<Rightarrow> sort_error + sort_state" where
  "visit_all m [] st = Inr st"
| "visit_all m (node # nodes) st =
     (case visit m [] (wn_id node) st of Inl e \<Rightarrow> Inl e | Inr st' \<Rightarrow> visit_all m nodes st')"

definition topologicalSort :: "WorkflowNode list \<Rightarrow> sort_error + WorkflowNode list" where
  "topologicalSort nodes =
     (case visit_all (nodeMap nodes) nodes ([], []) of Inl e \<Rightarrow> Inl e | Inr (_, result) \<Rightarrow> Inr result)"


subsection \<open>Dependencies and cycles\<close>

text \<open>\<open>(a, b)\<close>: the node \<open>a\<close> names the node \<open>b\<close> as a dependency. Ids without a node do not count.\<close>

definition dep_rel :: "node_map \<Rightarrow> (string \<times> string) set" where
  "dep_rel m = {(a, b). jhas m b \<and> (\<exists>n. jget m a = Some n \<and> b \<in> set (wn_dependencies n))}"

text \<open>A search path: every id was reached from the next one on the path.\<close>

fun linked :: "node_map \<Rightarrow> string list \<Rightarrow> string \<Rightarrow> bool" where
  "linked m [] k = True"
| "linked m (b # p) k =
     ((case jget m b of Some n \<Rightarrow> k \<in> set (wn_dependencies n) | None \<Rightarrow> False) \<and> linked m p b)"

lemma linked_trancl:
  "linked m p k \<Longrightarrow> jhas m k \<Longrightarrow> x \<in> set p \<Longrightarrow> (x, k) \<in> (dep_rel m)\<^sup>+"
proof (induction p arbitrary: k)
  case (Cons b p)
  from Cons.prems have bk: "(b, k) \<in> dep_rel m" and b: "jhas m b" "linked m p b"
    by (auto simp: dep_rel_def split: option.splits)
  show ?case
  proof (cases "x = b")
    case True
    with bk show ?thesis by auto
  next
    case False
    with Cons.IH [OF b(2,1)] Cons.prems bk show ?thesis by (auto intro: trancl_into_trancl)
  qed
qed simp

lemma linked_members: "linked m p k \<Longrightarrow> x \<in> set p \<Longrightarrow> jhas m x"
  by (induction p arbitrary: k) (auto split: option.splits)

lemma visit_error:
  "visit m p k st = Inl e \<Longrightarrow> linked m p k \<Longrightarrow> \<exists>c. e = Circular c \<and> (c, c) \<in> (dep_rel m)\<^sup>+"
  "visit_deps m p ds st = Inl e \<Longrightarrow> \<forall>d\<in>set ds. linked m p d \<Longrightarrow>
   \<exists>c. e = Circular c \<and> (c, c) \<in> (dep_rel m)\<^sup>+"
proof (induction m p k st and m p ds st rule: visit_visit_deps.induct)
  case (1 m p k visited result)
  show ?case
  proof (cases "k \<in> set visited \<or> k \<in> set p")
    case True
    with "1.prems" show ?thesis using linked_members [of m p k k]
      by (auto split: if_splits intro!: linked_trancl)
  next
    case False
    with "1.prems" obtain n where n: "jget m k = Some n"
        "visit_deps m (k # p) (wn_dependencies n) (visited, result) = Inl e"
      by (auto split: if_splits option.splits sum.splits)
    moreover have "\<forall>d\<in>set (wn_dependencies n). linked m (k # p) d"
      using n "1.prems" by simp
    ultimately show ?thesis using "1.IH" False by blast
  qed
next
  case (3 m p d ds st)
  then show ?case by (fastforce split: sum.splits)
qed simp

subsection \<open>The order of the result\<close>

text \<open>Every dependency that is a node stands before the node that names it.\<close>

definition deps_before :: "node_map \<Rightarrow> WorkflowNode list \<Rightarrow> bool" where
  "deps_before m ns \<longleftrightarrow>
     (\<forall>i<length ns. \<forall>d\<in>set (wn_dependencies (ns ! i)). jhas m d \<longrightarrow> d \<in> wn_id ` set (take i ns))"

definition sort_ok :: "node_map \<Rightarrow> sort_state \<Rightarrow> bool" where
  "sort_ok m st = (case st of (visited, ns) \<Rightarrow>
     distinct (map wn_id ns) \<and> wn_id ` set ns = {k \<in> set visited. jhas m k} \<and>
     (\<forall>n\<in>set ns. jget m (wn_id n) = Some n) \<and> deps_before m ns)"

lemma deps_before_snoc:
  "deps_before m ns \<Longrightarrow> \<forall>d\<in>set (wn_dependencies n). jhas m d \<longrightarrow> d \<in> wn_id ` set ns \<Longrightarrow>
   deps_before m (ns @ [n])"
  by (auto simp: deps_before_def nth_append less_Suc_eq)

text \<open>A map whose nodes stand under their own ids.\<close>

definition keyed_nodes :: "node_map \<Rightarrow> bool" where
  "keyed_nodes m \<longleftrightarrow> (\<forall>k n. jget m k = Some n \<longrightarrow> wn_id n = k)"

lemma visit_ok:
  "visit m p k st = Inr st' \<Longrightarrow> keyed_nodes m \<Longrightarrow> sort_ok m st \<Longrightarrow> set p \<inter> set (fst st) = {} \<Longrightarrow>
   sort_ok m st' \<and> set (fst st) \<subseteq> set (fst st') \<and> k \<in> set (fst st') \<and> set p \<inter> set (fst st') = {}"
  "visit_deps m p ds st = Inr st' \<Longrightarrow> keyed_nodes m \<Longrightarrow> sort_ok m st \<Longrightarrow> set p \<inter> set (fst st) = {} \<Longrightarrow>
   sort_ok m st' \<and> set (fst st) \<subseteq> set (fst st') \<and> set ds \<subseteq> set (fst st') \<and> set p \<inter> set (fst st') = {}"
proof (induction m p k st and m p ds st arbitrary: st' and st' rule: visit_visit_deps.induct)
  case (1 m p k visited ns)
  show ?case
  proof (cases "k \<in> set visited")
    case True
    with "1.prems" show ?thesis by auto
  next
    case False
    with "1.prems"(1) have kp: "k \<notin> set p" by (auto split: if_splits)
    show ?thesis
    proof (cases "jget m k")
      case None
      have "sort_ok m (visited @ [k], ns)"
        using "1.prems"(3) None by (auto simp: sort_ok_def)
      with "1.prems" False kp None show ?thesis by auto
    next
      case (Some n)
      with "1.prems"(1) False kp obtain v' ns' where d:
          "visit_deps m (k # p) (wn_dependencies n) (visited, ns) = Inr (v', ns')"
          "st' = (v' @ [k], ns' @ [n])"
        by (auto split: sum.splits)
      from "1.IH" [OF False kp Some d(1)] "1.prems" False have ih: "sort_ok m (v', ns')"
          "set visited \<subseteq> set v'" "set (wn_dependencies n) \<subseteq> set v'" "set (k # p) \<inter> set v' = {}"
        by auto
      have n: "wn_id n = k" using "1.prems"(2) Some by (simp add: keyed_nodes_def)
      have k: "k \<notin> wn_id ` set ns'" using ih(1,4) by (auto simp: sort_ok_def)
      have deps: "\<forall>d\<in>set (wn_dependencies n). jhas m d \<longrightarrow> d \<in> wn_id ` set ns'"
      proof (intro ballI impI)
        fix d assume "d \<in> set (wn_dependencies n)" "jhas m d"
        with ih(3) have "d \<in> {j \<in> set v'. jhas m j}" by blast
        with ih(1) show "d \<in> wn_id ` set ns'" by (simp add: sort_ok_def)
      qed
      from deps_before_snoc [OF _ deps] ih(1) n k Some have "sort_ok m st'"
        by (auto simp: sort_ok_def d(2))
      with ih kp d(2) show ?thesis by auto
    qed
  qed
next
  case (3 m p d ds st)
  then obtain st1 where st1: "visit m p d st = Inr st1" "visit_deps m p ds st1 = Inr st'"
    by (auto split: sum.splits)
  from "3.IH"(1) [OF st1(1) "3.prems"(2-4)] "3.IH"(2) [OF st1(1) st1(2) "3.prems"(2)]
  show ?case by auto
qed simp

lemma visit_all_ok:
  "visit_all m nodes st = Inr st' \<Longrightarrow> keyed_nodes m \<Longrightarrow> sort_ok m st \<Longrightarrow>
   sort_ok m st' \<and> set (fst st) \<subseteq> set (fst st') \<and> wn_id ` set nodes \<subseteq> set (fst st')"
proof (induction nodes arbitrary: st)
  case (Cons n nodes)
  then obtain st1 where 1: "visit m [] (wn_id n) st = Inr st1" "visit_all m nodes st1 = Inr st'"
    by (auto split: sum.splits)
  from visit_ok(1) [OF 1(1) Cons.prems(2,3)] Cons.IH [OF 1(2) Cons.prems(2)] show ?case by auto
qed simp

lemma visit_all_error:
  "visit_all m nodes st = Inl e \<Longrightarrow> \<exists>c. e = Circular c \<and> (c, c) \<in> (dep_rel m)\<^sup>+"
  by (induction nodes arbitrary: st) (auto split: sum.splits dest: visit_error(1))

lemma nodeMap_keyed: "keyed_nodes (nodeMap nodes)"
  unfolding nodeMap_def by (rule fold_keeps) (auto simp: keyed_nodes_def)

lemma nodeMap_keys: "jhas (nodeMap nodes) k \<longleftrightarrow> k \<in> wn_id ` set nodes"
proof -
  have "jhas (fold (\<lambda>n m. jset m (wn_id n) n) nodes m) k \<longleftrightarrow> k \<in> wn_id ` set nodes \<or> jhas m k" for m
    by (induction nodes arbitrary: m) auto
  then show ?thesis by (simp add: nodeMap_def)
qed

text \<open>An order with every dependency in front excludes cycles.\<close>

lemma before_lower:
  assumes "deps_before m ns" and "distinct (map wn_id ns)" and "\<forall>n\<in>set ns. jget m (wn_id n) = Some n"
    and "i < length ns" and "(wn_id (ns ! i), b) \<in> dep_rel m"
  shows "\<exists>j<i. b = wn_id (ns ! j)"
proof -
  have "jget m (wn_id (ns ! i)) = Some (ns ! i)" using assms(3,4) by simp
  with assms(1,4,5) have "b \<in> wn_id ` set (take i ns)" by (auto simp: deps_before_def dep_rel_def)
  with assms(4) show ?thesis by (force simp: in_set_conv_nth)
qed

lemma before_acyclic:
  assumes "deps_before m ns" and "distinct (map wn_id ns)" and "\<forall>n\<in>set ns. jget m (wn_id n) = Some n"
    and "\<And>k. jhas m k \<Longrightarrow> k \<in> wn_id ` set ns"
  shows "acyclic (dep_rel m)"
proof -
  have lower: "\<forall>i<length ns. a = wn_id (ns ! i) \<longrightarrow> (\<exists>j<i. b = wn_id (ns ! j))"
    if "(a, b) \<in> (dep_rel m)\<^sup>+" for a b
    using that
  proof (induction rule: trancl_induct)
    case (base b)
    then show ?case using before_lower [OF assms(1-3)] by blast
  next
    case (step b c)
    show ?case
    proof (intro allI impI)
      fix i assume "i < length ns" "a = wn_id (ns ! i)"
      with step.IH obtain j where j: "j < i" "b = wn_id (ns ! j)" by blast
      with step.hyps(2) \<open>i < length ns\<close> before_lower [OF assms(1-3), of j c]
      obtain l where "l < j" "c = wn_id (ns ! l)" by auto
      with j(1) show "\<exists>j<i. c = wn_id (ns ! j)" using less_trans by blast
    qed
  qed
  show ?thesis
    unfolding acyclic_def
  proof (intro allI notI)
    fix k assume cyc: "(k, k) \<in> (dep_rel m)\<^sup>+"
    then have "jhas m k" by (induction rule: trancl_induct) (auto simp: dep_rel_def)
    from assms(4) [OF this] obtain i where i: "i < length ns" "k = wn_id (ns ! i)"
      by (auto simp: in_set_conv_nth)
    with lower [OF cyc] obtain j where "j < i" "wn_id (ns ! i) = wn_id (ns ! j)" by blast
    with i(1) nth_eq_iff_index_eq [OF assms(2), of i j] show False by simp
  qed
qed

subsection \<open>Properties\<close>

lemma topologicalSort_Inr:
  assumes "topologicalSort nodes = Inr ns"
  shows "distinct (map wn_id ns)" and "wn_id ` set ns = wn_id ` set nodes"
    and "\<forall>n\<in>set ns. jget (nodeMap nodes) (wn_id n) = Some n" and "deps_before (nodeMap nodes) ns"
proof -
  obtain v where v: "visit_all (nodeMap nodes) nodes ([], []) = Inr (v, ns)"
    using assms by (auto simp: topologicalSort_def split: sum.splits)
  have "sort_ok (nodeMap nodes) ([], [])" by (simp add: sort_ok_def deps_before_def)
  from visit_all_ok [OF v nodeMap_keyed this] nodeMap_keys [of nodes]
  show "distinct (map wn_id ns)" "wn_id ` set ns = wn_id ` set nodes"
    "\<forall>n\<in>set ns. jget (nodeMap nodes) (wn_id n) = Some n" "deps_before (nodeMap nodes) ns"
    by (auto simp: sort_ok_def)
qed

text \<open>C14: The sort succeeds exactly on the workflows without circular dependencies. A success orders
  the nodes, each id once (the last node of an id counts), with every dependency that is a node before the
  nodes that name it; a failure names an id that depends on itself.\<close>

theorem topologicalSort_correct:
  "case topologicalSort nodes of
     Inr ns \<Rightarrow> distinct (map wn_id ns) \<and> wn_id ` set ns = wn_id ` set nodes \<and>
       (\<forall>n\<in>set ns. jget (nodeMap nodes) (wn_id n) = Some n) \<and> deps_before (nodeMap nodes) ns \<and>
       acyclic (dep_rel (nodeMap nodes))
   | Inl (Circular k) \<Rightarrow> (k, k) \<in> (dep_rel (nodeMap nodes))\<^sup>+"
proof (cases "topologicalSort nodes")
  case (Inl e)
  then obtain k where "e = Circular k" "(k, k) \<in> (dep_rel (nodeMap nodes))\<^sup>+"
    using visit_all_error [of "nodeMap nodes" nodes "([], [])"]
    by (auto simp: topologicalSort_def split: sum.splits)
  with Inl show ?thesis by simp
next
  case (Inr ns)
  note ok = topologicalSort_Inr [OF Inr]
  have "acyclic (dep_rel (nodeMap nodes))"
    by (rule before_acyclic [OF ok(4,1,3)]) (simp only: ok(2) nodeMap_keys)
  with Inr ok show ?thesis by simp
qed

definition demo_node :: "string \<Rightarrow> string list \<Rightarrow> WorkflowNode" where
  "demo_node k ds = WorkflowNode k NT_task k ds (TaskNodeConfig ''p'' None None) None None None"

lemma topologicalSort_correct_witness:
  "(\<exists>ns. topologicalSort [demo_node ''b'' [''a''], demo_node ''a'' []] = Inr ns \<and>
      map wn_id ns = [''a'', ''b''] \<and> deps_before (nodeMap [demo_node ''b'' [''a''], demo_node ''a'' []]) ns) \<and>
   (''a'', ''a'') \<in> (dep_rel (nodeMap [demo_node ''a'' [''a'']]))\<^sup>+"
proof -
  have 1: "topologicalSort [demo_node ''b'' [''a''], demo_node ''a'' []] =
      Inr [demo_node ''a'' [], demo_node ''b'' [''a'']]" by code_simp
  have 2: "topologicalSort [demo_node ''a'' [''a'']] = Inl (Circular ''a'')" by code_simp
  from topologicalSort_correct [of "[demo_node ''b'' [''a''], demo_node ''a'' []]"] 1
    topologicalSort_correct [of "[demo_node ''a'' [''a'']]"] 2
  show ?thesis by (simp add: demo_node_def)
qed

end
