(* ===== verification/WorkflowEngine.thy ===== *)
theory WorkflowEngine
  imports WorkflowGraph
begin

text \<open>
  The workflow engine (\<open>src/src/workflow/workflow-engine.ts\<close>, class \<open>WorkflowEngine\<close>), without
  a checkpoint manager attached. The context's variables are the execution's (the code shares the
  object), so a run keeps one copy. What the code calls but does not contain is an argument: the
  evaluation of an expression by \<open>new Function\<close> (it may throw and may change the variables), the clock,
  random suffixes and the event handlers (each returns, or throws with a message). A checkpoint named to
  \<open>resume\<close> is one of the execution that is resumed. Calls of \<open>pause\<close>
  and \<open>cancel\<close> made while a run is suspended are a script: one list of calls per point at which the run
  looks at its status again. The branches of a parallel node run one after the other.
\<close>

record wf_env =
  ev_eval :: "string \<Rightarrow> js_record \<Rightarrow> jsval option \<times> js_record"
  ev_clock :: "nat \<Rightarrow> int"
  ev_random :: "nat \<Rightarrow> string"
  ev_onWorkflowStart :: "string option"
  ev_onWorkflowComplete :: "string option"
  ev_onWorkflowError :: "string option"
  ev_onNodeStart :: "string \<Rightarrow> string option"
  ev_onNodeComplete :: "string \<Rightarrow> jsval \<Rightarrow> string option"
  ev_onNodeError :: "string \<Rightarrow> string \<Rightarrow> string option"
  ev_onCheckpoint :: "string \<Rightarrow> string option"

datatype wf_command = CallPause | CallCancel

text \<open>The state of one run: the execution, the context's node results, the heap of node states, the
  engine's checkpoints, the calls still to come and the number of clock readings.\<close>

record wf_run =
  rn_exec :: WorkflowExecution
  rn_nodeResults :: js_record
  rn_heap :: "NodeExecutionState list"
  rn_checkpoints :: "(string, WorkflowCheckpoint) jsmap"
  rn_script :: "wf_command list list"
  rn_tick :: nat

definition clock :: "wf_env \<Rightarrow> wf_run \<Rightarrow> int" where
  "clock env r = ev_clock env (rn_tick r)"

definition tick :: "wf_run \<Rightarrow> wf_run" where
  "tick r = r\<lparr>rn_tick := Suc (rn_tick r)\<rparr>"

definition set_exec :: "(WorkflowExecution \<Rightarrow> WorkflowExecution) \<Rightarrow> wf_run \<Rightarrow> wf_run" where
  "set_exec f r = r\<lparr>rn_exec := f (rn_exec r)\<rparr>"

definition set_node :: "address \<Rightarrow> (NodeExecutionState \<Rightarrow> NodeExecutionState) \<Rightarrow> wf_run \<Rightarrow> wf_run" where
  "set_node a f r = r\<lparr>rn_heap := (rn_heap r)[a := f (rn_heap r ! a)]\<rparr>"

subsection \<open>Expressions\<close>

text \<open>The character classes that the two sanitisers keep. In the class of \<open>evaluateCondition\<close> the
  hyphen is the last character and stands for itself; in that of \<open>evaluateExpression\<close> it stands between
  the double quote and the opening bracket and makes a range of all characters from 34 to 91.\<close>

definition word_char :: "char \<Rightarrow> bool" where
  "word_char c \<longleftrightarrow> (let n = (of_char c :: nat) in
     (97 \<le> n \<and> n \<le> 122) \<or> (65 \<le> n \<and> n \<le> 90) \<or> (48 \<le> n \<and> n \<le> 57) \<or> c = CHR ''_'')"

definition condition_char :: "char \<Rightarrow> bool" where
  "condition_char c \<longleftrightarrow> word_char c \<or> js_space c \<or> c \<in> set ''.<>=!&|()\"-'' \<or> c = CHR 0x27"

definition expression_char :: "char \<Rightarrow> bool" where
  "expression_char c \<longleftrightarrow> word_char c \<or> js_space c \<or> c \<in> set ''.<>=!&|()'' \<or> c = CHR 0x27 \<or>
     (let n = (of_char c :: nat) in 34 \<le> n \<and> n \<le> 91) \<or> c = CHR '']''"

definition sanitizeCondition :: "string \<Rightarrow> string" where
  "sanitizeCondition expression = filter condition_char expression"

definition sanitizeExpression :: "string \<Rightarrow> string" where
  "sanitizeExpression expression = filter expression_char expression"

definition evaluateCondition :: "wf_env \<Rightarrow> string \<Rightarrow> wf_run \<Rightarrow> wf_run \<times> bool" where
  "evaluateCondition env expression r =
     (case ev_eval env (sanitizeCondition expression) (x_variables (rn_exec r)) of (v, vars) \<Rightarrow>
        (set_exec (\<lambda>x. x\<lparr>x_variables := vars\<rparr>) r, case v of Some v \<Rightarrow> js_truthy v | None \<Rightarrow> False))"

definition evaluateExpression :: "wf_env \<Rightarrow> string \<Rightarrow> wf_run \<Rightarrow> wf_run \<times> jsval" where
  "evaluateExpression env expression r =
     (case ev_eval env (sanitizeExpression expression) (x_variables (rn_exec r)) of (v, vars) \<Rightarrow>
        (set_exec (\<lambda>x. x\<lparr>x_variables := vars\<rparr>) r, case v of Some v \<Rightarrow> v | None \<Rightarrow> JUndef))"

subsection \<open>Executing a node\<close>

definition new_node_state :: "string \<Rightarrow> NodeExecutionState" where
  "new_node_state k = \<lparr>ne_nodeId = k, ne_status = N_pending, ne_startedAt = None, ne_completedAt = None,
     ne_result = None, ne_error = None, ne_retryCount = 0\<rparr>"

text \<open>\<open>execution.nodeStates[node.id] ?? {...}\<close>: the address of the node's state object.\<close>

definition node_state_of :: "string \<Rightarrow> wf_run \<Rightarrow> wf_run \<times> address" where
  "node_state_of k r =
     (case jget (x_nodeStates (rn_exec r)) k of
        Some a \<Rightarrow> (r, a)
      | None \<Rightarrow> (set_exec (\<lambda>x. x\<lparr>x_nodeStates := jset (x_nodeStates x) k (length (rn_heap r))\<rparr>)
                   (r\<lparr>rn_heap := rn_heap r @ [new_node_state k]\<rparr>), length (rn_heap r)))"

definition begin_node :: "wf_env \<Rightarrow> string \<Rightarrow> wf_run \<Rightarrow> wf_run \<times> address" where
  "begin_node env k r =
     (case node_state_of k r of (r1, a) \<Rightarrow>
        (tick (set_node a (\<lambda>st. st\<lparr>ne_status := N_running, ne_startedAt := Some (clock env r1)\<rparr>) r1), a))"

definition complete_node :: "wf_env \<Rightarrow> string \<Rightarrow> address \<Rightarrow> jsval \<Rightarrow> wf_run \<Rightarrow> wf_run" where
  "complete_node env k a v r =
     (tick (set_node a (\<lambda>st. st\<lparr>ne_status := N_completed, ne_completedAt := Some (clock env r),
                                 ne_result := Some v\<rparr>) r))
       \<lparr>rn_nodeResults := jset (rn_nodeResults r) k v\<rparr>"

definition fail_node ::
    "wf_env \<Rightarrow> string \<Rightarrow> address \<Rightarrow> string \<Rightarrow> wf_run \<Rightarrow> wf_run \<times> (string + jsval)" where
  "fail_node env k a e r =
     (tick (set_node a (\<lambda>st. st\<lparr>ne_status := N_failed, ne_completedAt := Some (clock env r),
                                 ne_error := Some e, ne_retryCount := ne_retryCount st + 1\<rparr>) r),
      Inl (case ev_onNodeError env k e of Some e' \<Rightarrow> e' | None \<Rightarrow> e))"

definition opt_str :: "string option \<Rightarrow> jsval" where
  "opt_str x = (case x of Some s \<Rightarrow> JStr s | None \<Rightarrow> JUndef)"

definition executeTaskNode :: "string \<Rightarrow> string option \<Rightarrow> string option \<Rightarrow> jsval" where
  "executeTaskNode prompt agentRole agentId =
     JObj [(''prompt'', JStr prompt), (''agentRole'', opt_str agentRole), (''agentId'', opt_str agentId),
           (''executed'', JBool True)]"

definition executeSubworkflowNode :: "string \<Rightarrow> (string, string) jsmap \<Rightarrow> jsval" where
  "executeSubworkflowNode workflowId inputs =
     JObj [(''workflowId'', JStr workflowId), (''inputs'', JObj (jmap (\<lambda>_. JStr) inputs)),
           (''executed'', JBool True)]"

text \<open>The items a loop runs over: the elements of an array or the single value, at most
  \<open>maxIterations\<close> of them, 100 by default.\<close>

definition loop_items :: "int option \<Rightarrow> jsval \<Rightarrow> jsval list" where
  "loop_items maxIterations items =
     take (nat (case maxIterations of Some n \<Rightarrow> n | None \<Rightarrow> 100))
       (case items of JArr xs \<Rightarrow> xs | v \<Rightarrow> [v])"

definition bind_item :: "string \<Rightarrow> jsval \<Rightarrow> wf_run \<Rightarrow> wf_run" where
  "bind_item itemVariable item r = set_exec (\<lambda>x. x\<lparr>x_variables := jset (x_variables x) itemVariable item\<rparr>) r"

text \<open>The branches of a parallel node have all been started when the first of them fails, so all of
  them run; the first failure is the result.\<close>

fun after_branch :: "string + jsval \<Rightarrow> wf_run \<times> (string + jsval list) \<Rightarrow> wf_run \<times> (string + jsval list)" where
  "after_branch (Inl e) (r, _) = (r, Inl e)"
| "after_branch (Inr v) (r, Inl e) = (r, Inl e)"
| "after_branch (Inr v) (r, Inr vs) = (r, Inr (v # vs))"

lemma size_config: "Suc (2 * size (wn_config n)) < 2 * size n"
  by (cases n) simp

function (sequential)
  executeNode :: "wf_env \<Rightarrow> WorkflowNode \<Rightarrow> wf_run \<Rightarrow> wf_run \<times> (string + jsval)" and
  executeNodeByType :: "wf_env \<Rightarrow> NodeConfig \<Rightarrow> wf_run \<Rightarrow> wf_run \<times> (string + jsval)" and
  executeBranches :: "wf_env \<Rightarrow> WorkflowNode list \<Rightarrow> wf_run \<Rightarrow> wf_run \<times> (string + jsval list)" and
  executeSteps :: "wf_env \<Rightarrow> WorkflowNode list \<Rightarrow> wf_run \<Rightarrow> wf_run \<times> (string + jsval list)" and
  executeIterations ::
    "wf_env \<Rightarrow> WorkflowNode \<Rightarrow> string \<Rightarrow> jsval list \<Rightarrow> wf_run \<Rightarrow> wf_run \<times> (string + jsval list)"
where
  "executeNode env node r =
     (case begin_node env (wn_id node) r of (r1, a) \<Rightarrow>
        (case ev_onNodeStart env (wn_id node) of
           Some e \<Rightarrow> (r1, Inl e)
         | None \<Rightarrow>
             (case executeNodeByType env (wn_config node) r1 of
                (r2, Inl e) \<Rightarrow> fail_node env (wn_id node) a e r2
              | (r2, Inr v) \<Rightarrow>
                  (case ev_onNodeComplete env (wn_id node) v of
                     None \<Rightarrow> (complete_node env (wn_id node) a v r2, Inr v)
                   | Some e \<Rightarrow> fail_node env (wn_id node) a e (complete_node env (wn_id node) a v r2)))))"
| "executeNodeByType env (TaskNodeConfig prompt agentRole agentId) r =
     (r, Inr (executeTaskNode prompt agentRole agentId))"
| "executeNodeByType env (ParallelNodeConfig branches failFast) r =
     (case executeBranches env branches r of
        (r', Inl e) \<Rightarrow> (r', Inl e)
      | (r', Inr vs) \<Rightarrow> (r', Inr (JObj [(''branches'', JArr vs)])))"
| "executeNodeByType env (SequentialNodeConfig steps) r =
     (case executeSteps env steps r of
        (r', Inl e) \<Rightarrow> (r', Inl e)
      | (r', Inr vs) \<Rightarrow> (r', Inr (JObj [(''steps'', JArr vs)])))"
| "executeNodeByType env (ConditionNodeConfig expression thenBranch elseBranch) r =
     (case evaluateCondition env expression r of (r', c) \<Rightarrow>
        if c then executeNode env thenBranch r'
        else (case elseBranch of
                Some n \<Rightarrow> executeNode env n r'
              | None \<Rightarrow> (r', Inr (JObj [(''conditionResult'', JBool c), (''executed'', JBool False)]))))"
| "executeNodeByType env (LoopNodeConfig iteratorExpression itemVariable body maxIterations) r =
     (case evaluateExpression env iteratorExpression r of (r', items) \<Rightarrow>
        (case executeIterations env body itemVariable (loop_items maxIterations items) r' of
           (r'', Inl e) \<Rightarrow> (r'', Inl e)
         | (r'', Inr vs) \<Rightarrow>
             (r'', Inr (JObj [(''iterations'', JNum (of_nat (length vs))), (''results'', JArr vs)]))))"
| "executeNodeByType env (SubworkflowNodeConfig workflowId inputs) r =
     (r, Inr (executeSubworkflowNode workflowId inputs))"
| "executeBranches env [] r = (r, Inr [])"
| "executeBranches env (n # ns) r =
     (case executeNode env n r of (r', o1) \<Rightarrow> after_branch o1 (executeBranches env ns r'))"
| "executeSteps env [] r = (r, Inr [])"
| "executeSteps env (n # ns) r =
     (case executeNode env n r of
        (r', Inl e) \<Rightarrow> (r', Inl e)
      | (r', Inr v) \<Rightarrow> after_branch (Inr v) (executeSteps env ns r'))"
| "executeIterations env body itemVariable [] r = (r, Inr [])"
| "executeIterations env body itemVariable (item # items) r =
     (case executeNode env body (bind_item itemVariable item r) of
        (r', Inl e) \<Rightarrow> (r', Inl e)
      | (r', Inr v) \<Rightarrow> after_branch (Inr v) (executeIterations env body itemVariable items r'))"
  by pat_completeness auto

termination
  by (relation "measures
      [\<lambda>x. case x of
         Inl (Inl (_, n, _)) \<Rightarrow> 2 * size n
       | Inl (Inr (_, c, _)) \<Rightarrow> 2 * size c + 1
       | Inr (Inl (_, ns, _)) \<Rightarrow> 2 * size_list size ns
       | Inr (Inr (Inl (_, ns, _))) \<Rightarrow> 2 * size_list size ns
       | Inr (Inr (Inr (_, n, _, _, _))) \<Rightarrow> 2 * size n + 1,
       \<lambda>x. case x of Inr (Inr (Inr (_, _, _, items, _))) \<Rightarrow> length items | _ \<Rightarrow> 0]")
     (auto simp: size_config)

declare executeNode.simps [simp del]


subsection \<open>Status calls and checkpoints during a run\<close>

fun apply_command :: "wf_env \<Rightarrow> wf_command \<Rightarrow> wf_run \<Rightarrow> wf_run" where
  "apply_command env CallPause r =
     (if x_status (rn_exec r) = W_running then set_exec (\<lambda>x. x\<lparr>x_status := W_paused\<rparr>) r else r)"
| "apply_command env CallCancel r =
     tick (set_exec (\<lambda>x. x\<lparr>x_status := W_cancelled, x_completedAt := Some (clock env r)\<rparr>) r)"

text \<open>The calls that arrive before the run looks at its status again.\<close>

definition arrive :: "wf_env \<Rightarrow> wf_run \<Rightarrow> wf_run" where
  "arrive env r =
     (case rn_script r of
        [] \<Rightarrow> r
      | cs # rest \<Rightarrow> fold (apply_command env) cs (r\<lparr>rn_script := rest\<rparr>))"

definition stopped :: "wf_run \<Rightarrow> bool" where
  "stopped r \<longleftrightarrow> x_status (rn_exec r) = W_cancelled \<or> x_status (rn_exec r) = W_paused"

text \<open>The polling loop of \<open>waitForDependencies\<close> for an id that is not completed. Only the loop
  of this run adds completed ids and it is waiting here, so the wait ends by a status call or never:
  \<open>None\<close>.\<close>

fun poll_status :: "wf_env \<Rightarrow> wf_command list list \<Rightarrow> wf_run \<Rightarrow> wf_run option" where
  "poll_status env [] r = (if stopped r then Some (r\<lparr>rn_script := []\<rparr>) else None)"
| "poll_status env (cs # rest) r =
     (if stopped r then Some (r\<lparr>rn_script := cs # rest\<rparr>)
      else poll_status env rest (fold (apply_command env) cs r))"

fun waitForDependencies :: "wf_env \<Rightarrow> string list \<Rightarrow> string list \<Rightarrow> wf_run \<Rightarrow> wf_run option" where
  "waitForDependencies env completed [] r = Some r"
| "waitForDependencies env completed (depId # deps) r =
     (if depId \<in> set completed then waitForDependencies env completed deps r
      else poll_status env (rn_script r) r)"

definition make_checkpoint :: "wf_env \<Rightarrow> string \<Rightarrow> wf_run \<Rightarrow> WorkflowCheckpoint" where
  "make_checkpoint env nodeId r =
     \<lparr>wc_id = gen_id ''cp'' (clock env r) (ev_random env (rn_tick r)),
      wc_executionId = x_id (rn_exec r), wc_nodeId = nodeId, wc_timestamp = clock env r,
      wc_variables = x_variables (rn_exec r), wc_nodeStates = x_nodeStates (rn_exec r)\<rparr>"

text \<open>The checkpoint after a node: recorded with the engine, reported to the handler, which may throw,
  and appended to the execution.\<close>

definition checkpoint_after :: "wf_env \<Rightarrow> bool \<Rightarrow> string \<Rightarrow> wf_run \<Rightarrow> wf_run \<times> (string + unit)" where
  "checkpoint_after env checkpointEnabled nodeId r =
     (if \<not> checkpointEnabled then (r, Inr ())
      else (let cp = make_checkpoint env nodeId r;
                r1 = tick (r\<lparr>rn_checkpoints := jset (rn_checkpoints r) (wc_id cp) cp\<rparr>)
            in case ev_onCheckpoint env (wc_id cp) of
                 Some e \<Rightarrow> (r1, Inl e)
               | None \<Rightarrow> (set_exec (\<lambda>x. x\<lparr>x_checkpoints := x_checkpoints x @ [cp]\<rparr>) r1, Inr ())))"

fun run_nodes ::
    "wf_env \<Rightarrow> bool \<Rightarrow> WorkflowNode list \<Rightarrow> string list \<Rightarrow> js_record \<Rightarrow> wf_run \<Rightarrow>
     (wf_run \<times> (string + js_record)) option" where
  "run_nodes env cp [] completed results r = Some (r, Inr results)"
| "run_nodes env cp (node # nodes) completed results r =
     (let r1 = arrive env r in
      if stopped r1 then Some (r1, Inr results)
      else case waitForDependencies env completed (wn_dependencies node) r1 of
             None \<Rightarrow> None
           | Some r2 \<Rightarrow>
               (let r3 = arrive env r2 in
                if stopped r3 then Some (r3, Inr results)
                else case executeNode env node r3 of
                       (r4, Inl e) \<Rightarrow> Some (r4, Inl e)
                     | (r4, Inr v) \<Rightarrow>
                         (case checkpoint_after env cp (wn_id node) r4 of
                            (r5, Inl e) \<Rightarrow> Some (r5, Inl e)
                          | (r5, Inr _) \<Rightarrow>
                              run_nodes env cp nodes (wn_id node # completed)
                                (jset results (wn_id node) v) r5)))"

definition executeNodes ::
    "wf_env \<Rightarrow> bool \<Rightarrow> WorkflowNode list \<Rightarrow> wf_run \<Rightarrow> (wf_run \<times> (string + js_record)) option" where
  "executeNodes env cp nodes r = run_nodes env cp nodes [] [] r"

text \<open>The results that \<open>executeNodesFrom\<close> starts with: those of the recorded node states that hold
  a true value.\<close>

definition truthy_result :: "NodeExecutionState \<Rightarrow> jsval option" where
  "truthy_result st = (case ne_result st of Some v \<Rightarrow> if js_truthy v then Some v else None | None \<Rightarrow> None)"

definition recorded_results :: "wf_run \<Rightarrow> js_record" where
  "recorded_results r =
     List.map_filter (\<lambda>(k, a). map_option (\<lambda>v. (k, v)) (truthy_result (rn_heap r ! a)))
       (x_nodeStates (rn_exec r))"

definition executeNodesFrom ::
    "wf_env \<Rightarrow> bool \<Rightarrow> WorkflowNode list \<Rightarrow> string list \<Rightarrow> wf_run \<Rightarrow>
     (wf_run \<times> (string + js_record)) option" where
  "executeNodesFrom env cp nodes completed r = run_nodes env cp nodes completed (recorded_results r) r"

subsection \<open>The engine\<close>

record workflow_engine =
  we_config :: WorkflowEngineConfig
  we_executions :: "(string, WorkflowExecution) jsmap"
  we_checkpoints :: "(string, WorkflowCheckpoint) jsmap"
  we_running :: bool
  we_concurrentExecutions :: int
  we_currentWorkflow :: "WorkflowDefinition option"
  we_heap :: "NodeExecutionState list"

datatype wf_error =
    MaxConcurrentExecutions
  | ExecutionNotFound string
  | NoCheckpoint string
  | CannotPause WorkflowStatus
  | CannotResume WorkflowStatus
  | CheckpointNotFound string
  | NoWorkflowSet
  | Thrown string

definition default_engine_config :: WorkflowEngineConfig where
  "default_engine_config =
     \<lparr>wg_maxConcurrentExecutions = 10, wg_defaultTimeout = 300000, wg_checkpointEnabled = True,
      wg_checkpointInterval = 60000, wg_persistenceEnabled = False, wg_persistencePath = None\<rparr>"

definition new_engine :: "WorkflowEngineConfig \<Rightarrow> workflow_engine" where
  "new_engine config =
     \<lparr>we_config = config, we_executions = [], we_checkpoints = [], we_running = False,
      we_concurrentExecutions = 0, we_currentWorkflow = None, we_heap = []\<rparr>"

definition wf_initialize :: "WorkflowEngineConfig \<Rightarrow> workflow_engine \<Rightarrow> workflow_engine" where
  "wf_initialize config s = s\<lparr>we_config := config, we_running := True\<rparr>"

definition wf_shutdown :: "workflow_engine \<Rightarrow> workflow_engine" where
  "wf_shutdown s = s\<lparr>we_running := False, we_executions := [], we_checkpoints := []\<rparr>"

definition createExecution ::
    "wf_env \<Rightarrow> WorkflowDefinition \<Rightarrow> string \<Rightarrow> js_record option \<Rightarrow> WorkflowExecution" where
  "createExecution env workflow executionId variables =
     \<lparr>x_id = executionId, x_workflowId = wd_id workflow, x_workflowVersion = wd_version workflow,
      x_status = W_running, x_startedAt = ev_clock env 1, x_completedAt = None,
      x_variables = js_spread (wd_variables workflow) (case variables of Some v \<Rightarrow> v | None \<Rightarrow> []),
      x_nodeStates = [], x_checkpoints = [], x_error = None\<rparr>"

definition start_run ::
    "WorkflowExecution \<Rightarrow> js_record \<Rightarrow> wf_command list list \<Rightarrow> workflow_engine \<Rightarrow> wf_run" where
  "start_run x nodeResults script s =
     \<lparr>rn_exec = x, rn_nodeResults = nodeResults, rn_heap = we_heap s, rn_checkpoints = we_checkpoints s,
      rn_script = script, rn_tick = 2\<rparr>"

definition put_run :: "wf_run \<Rightarrow> workflow_engine \<Rightarrow> workflow_engine" where
  "put_run r s =
     s\<lparr>we_executions := jset (we_executions s) (x_id (rn_exec r)) (rn_exec r),
       we_checkpoints := rn_checkpoints r, we_heap := rn_heap r\<rparr>"

text \<open>How a run ends: the \<open>try\<close> block's tail and the \<open>catch\<close> block, whose handlers may throw in
  turn. \<open>failResults\<close> are the node results that a failure reports.\<close>

definition fail_run ::
    "wf_env \<Rightarrow> WorkflowDefinition \<Rightarrow> (wf_run \<Rightarrow> js_record) \<Rightarrow> string \<Rightarrow> wf_run \<Rightarrow>
     wf_run \<times> (wf_error + WorkflowResult)" where
  "fail_run env workflow failResults e r =
     (let t = clock env r;
          r1 = tick (set_exec (\<lambda>x. x\<lparr>x_status := W_failed, x_completedAt := Some t, x_error := Some e\<rparr>) r);
          x = rn_exec r1
      in (r1, case ev_onWorkflowError env of
                Some e' \<Rightarrow> Inl (Thrown e')
              | None \<Rightarrow> Inr \<lparr>y_executionId = x_id x, y_workflowId = wd_id workflow, y_status = W_failed,
                             y_output = None, y_error = Some e, y_duration = t - x_startedAt x,
                             y_nodeResults = failResults r1\<rparr>))"

definition finish_run ::
    "wf_env \<Rightarrow> WorkflowDefinition \<Rightarrow> (wf_run \<Rightarrow> js_record) \<Rightarrow> string + js_record \<Rightarrow> wf_run \<Rightarrow>
     wf_run \<times> (wf_error + WorkflowResult)" where
  "finish_run env workflow failResults outcome r =
     (case outcome of
        Inl e \<Rightarrow> fail_run env workflow failResults e r
      | Inr results \<Rightarrow>
          (let t = clock env r;
               r1 = tick (set_exec (\<lambda>x. x\<lparr>x_status := W_completed, x_completedAt := Some t\<rparr>) r);
               x = rn_exec r1
           in case ev_onWorkflowComplete env of
                Some e \<Rightarrow> fail_run env workflow failResults e r1
              | None \<Rightarrow>
                  (r1, Inr \<lparr>y_executionId = x_id x, y_workflowId = wd_id workflow, y_status = W_completed,
                            y_output = Some (JObj results), y_error = None, y_duration = t - x_startedAt x,
                            y_nodeResults = rn_nodeResults r1\<rparr>)))"

definition circular_message :: "sort_error \<Rightarrow> string" where
  "circular_message e = (case e of Circular k \<Rightarrow> ''Circular dependency detected at node '' @ k)"

definition execute ::
    "wf_env \<Rightarrow> wf_command list list \<Rightarrow> WorkflowDefinition \<Rightarrow> js_record option \<Rightarrow> workflow_engine \<Rightarrow>
     (workflow_engine \<times> (wf_error + WorkflowResult)) option" where
  "execute env script workflow variables s =
     (if we_concurrentExecutions s \<ge> wg_maxConcurrentExecutions (we_config s)
      then Some (s, Inl MaxConcurrentExecutions)
      else
        (let x = createExecution env workflow (gen_id ''exec'' (ev_clock env 0) (ev_random env 0)) variables;
             s1 = s\<lparr>we_currentWorkflow := Some workflow,
                    we_executions := jset (we_executions s) (x_id x) x,
                    we_concurrentExecutions := we_concurrentExecutions s + 1\<rparr>
         in case ev_onWorkflowStart env of
              Some e \<Rightarrow> Some (s1, Inl (Thrown e))
            | None \<Rightarrow>
                map_option
                  (\<lambda>(r, outcome). case finish_run env workflow (\<lambda>_. []) outcome r of (r', res) \<Rightarrow>
                     ((put_run r' s1)\<lparr>we_concurrentExecutions := we_concurrentExecutions s1 - 1\<rparr>, res))
                  (case topologicalSort (wd_nodes workflow) of
                     Inl e \<Rightarrow> Some (start_run x [] script s1, Inl (circular_message e))
                   | Inr sortedNodes \<Rightarrow>
                       executeNodes env (wg_checkpointEnabled (we_config s)) sortedNodes
                         (start_run x [] script s1))))"

definition pause :: "string \<Rightarrow> workflow_engine \<Rightarrow> workflow_engine \<times> (wf_error + unit)" where
  "pause executionId s =
     (case jget (we_executions s) executionId of
        None \<Rightarrow> (s, Inl (ExecutionNotFound executionId))
      | Some x \<Rightarrow>
          if x_status x \<noteq> W_running then (s, Inl (CannotPause (x_status x)))
          else (s\<lparr>we_executions := jset (we_executions s) executionId (x\<lparr>x_status := W_paused\<rparr>)\<rparr>, Inr ()))"

definition wf_cancel :: "int \<Rightarrow> string \<Rightarrow> workflow_engine \<Rightarrow> workflow_engine \<times> (wf_error + unit)" where
  "wf_cancel now executionId s =
     (case jget (we_executions s) executionId of
        None \<Rightarrow> (s, Inl (ExecutionNotFound executionId))
      | Some x \<Rightarrow>
          (s\<lparr>we_executions := jset (we_executions s) executionId
               (x\<lparr>x_status := W_cancelled, x_completedAt := Some now\<rparr>)\<rparr>, Inr ()))"

definition getExecution :: "workflow_engine \<Rightarrow> string \<Rightarrow> WorkflowExecution option" where
  "getExecution s executionId = jget (we_executions s) executionId"

definition getActiveExecutions :: "workflow_engine \<Rightarrow> WorkflowExecution list" where
  "getActiveExecutions s =
     filter (\<lambda>x. x_status x = W_running \<or> x_status x = W_paused) (jvals (we_executions s))"

definition wf_createCheckpoint ::
    "wf_env \<Rightarrow> string \<Rightarrow> string \<Rightarrow> workflow_engine \<Rightarrow> workflow_engine \<times> (wf_error + WorkflowCheckpoint)" where
  "wf_createCheckpoint env executionId nodeId s =
     (case jget (we_executions s) executionId of
        None \<Rightarrow> (s, Inl (ExecutionNotFound executionId))
      | Some x \<Rightarrow>
          (let cp = make_checkpoint env nodeId (start_run x [] [] s)
           in (s\<lparr>we_checkpoints := jset (we_checkpoints s) (wc_id cp) cp\<rparr>,
               case ev_onCheckpoint env (wc_id cp) of Some e \<Rightarrow> Inl (Thrown e) | None \<Rightarrow> Inr cp)))"

definition getCheckpoint :: "workflow_engine \<Rightarrow> string \<Rightarrow> WorkflowCheckpoint option" where
  "getCheckpoint s checkpointId = jget (we_checkpoints s) checkpointId"

definition wf_listCheckpoints :: "workflow_engine \<Rightarrow> string \<Rightarrow> WorkflowCheckpoint list" where
  "wf_listCheckpoints s executionId =
     sort_key (\<lambda>c. - wc_timestamp c) (filter (\<lambda>c. wc_executionId c = executionId) (jvals (we_checkpoints s)))"

definition wf_getLatestCheckpoint :: "workflow_engine \<Rightarrow> string \<Rightarrow> WorkflowCheckpoint option" where
  "wf_getLatestCheckpoint s executionId =
     (case wf_listCheckpoints s executionId of [] \<Rightarrow> None | c # _ \<Rightarrow> Some c)"

definition wf_deleteCheckpoint :: "string \<Rightarrow> workflow_engine \<Rightarrow> workflow_engine" where
  "wf_deleteCheckpoint checkpointId s = s\<lparr>we_checkpoints := jdel (we_checkpoints s) checkpointId\<rparr>"

definition wf_deleteCheckpointsForExecution :: "string \<Rightarrow> workflow_engine \<Rightarrow> workflow_engine" where
  "wf_deleteCheckpointsForExecution executionId s =
     s\<lparr>we_checkpoints := jdrop (\<lambda>_ c. wc_executionId c = executionId) (we_checkpoints s)\<rparr>"

definition setWorkflow :: "WorkflowDefinition \<Rightarrow> workflow_engine \<Rightarrow> workflow_engine" where
  "setWorkflow workflow s = s\<lparr>we_currentWorkflow := Some workflow\<rparr>"

subsection \<open>Resuming\<close>

definition restoreExecutionFromCheckpoint :: "WorkflowCheckpoint \<Rightarrow> workflow_engine \<Rightarrow> WorkflowExecution" where
  "restoreExecutionFromCheckpoint c s =
     \<lparr>x_id = wc_executionId c,
      x_workflowId = (case we_currentWorkflow s of Some w \<Rightarrow> wd_id w | None \<Rightarrow> ''unknown''),
      x_workflowVersion = (case we_currentWorkflow s of Some w \<Rightarrow> wd_version w | None \<Rightarrow> ''1.0.0''),
      x_status = W_paused, x_startedAt = wc_timestamp c, x_completedAt = None,
      x_variables = wc_variables c, x_nodeStates = wc_nodeStates c, x_checkpoints = [c], x_error = None\<rparr>"

definition completed_ids :: "wf_run \<Rightarrow> string list" where
  "completed_ids r =
     map fst (filter (\<lambda>(_, a). ne_status (rn_heap r ! a) = N_completed) (x_nodeStates (rn_exec r)))"

definition completed_results :: "wf_run \<Rightarrow> js_record" where
  "completed_results r =
     List.map_filter (\<lambda>(k, a). if ne_status (rn_heap r ! a) = N_completed
         then map_option (\<lambda>v. (k, v)) (truthy_result (rn_heap r ! a)) else None)
       (x_nodeStates (rn_exec r))"

definition continueExecution ::
    "wf_env \<Rightarrow> wf_command list list \<Rightarrow> WorkflowExecution \<Rightarrow> workflow_engine \<Rightarrow>
     (workflow_engine \<times> (wf_error + WorkflowResult)) option" where
  "continueExecution env script x s =
     (case we_currentWorkflow s of
        None \<Rightarrow> Some (s, Inl NoWorkflowSet)
      | Some workflow \<Rightarrow>
          (let r0 = start_run x [] script s;
               r = r0\<lparr>rn_nodeResults := completed_results r0\<rparr>
           in case topologicalSort (wd_nodes workflow) of
                Inl e \<Rightarrow> Some (s, Inl (Thrown (circular_message e)))
              | Inr sortedNodes \<Rightarrow>
                  map_option
                    (\<lambda>(r', outcome). case finish_run env workflow rn_nodeResults outcome r' of (r'', res) \<Rightarrow>
                       (put_run r'' s, res))
                    (executeNodesFrom env (wg_checkpointEnabled (we_config s))
                       (filter (\<lambda>n. wn_id n \<notin> set (completed_ids r)) sortedNodes) (completed_ids r) r)))"

definition resume ::
    "wf_env \<Rightarrow> wf_command list list \<Rightarrow> string \<Rightarrow> string option \<Rightarrow> workflow_engine \<Rightarrow>
     (workflow_engine \<times> (wf_error + WorkflowResult)) option" where
  "resume env script executionId checkpointId s =
     (let named = (case checkpointId of Some c \<Rightarrow> c \<noteq> [] | None \<Rightarrow> False);
          found = (case jget (we_executions s) executionId of
             Some x \<Rightarrow> Some (s, x)
           | None \<Rightarrow>
               map_option
                 (\<lambda>c. let x = restoreExecutionFromCheckpoint c s
                      in (s\<lparr>we_executions := jset (we_executions s) executionId x\<rparr>, x))
                 (if named then getCheckpoint s (the checkpointId) else wf_getLatestCheckpoint s executionId))
      in case found of
           None \<Rightarrow> Some (s, Inl (NoCheckpoint executionId))
         | Some (s1, x) \<Rightarrow>
             if x_status x \<noteq> W_paused then Some (s1, Inl (CannotResume (x_status x)))
             else
               (case (if named
                      then map_option (\<lambda>c. x\<lparr>x_variables := wc_variables c, x_nodeStates := wc_nodeStates c\<rparr>)
                             (getCheckpoint s1 (the checkpointId))
                      else Some x) of
                  None \<Rightarrow> Some (s1, Inl (CheckpointNotFound (the checkpointId)))
                | Some x1 \<Rightarrow>
                    (let x2 = x1\<lparr>x_status := W_running\<rparr>;
                         s2 = s1\<lparr>we_executions := jset (we_executions s1) executionId x2\<rparr>
                     in continueExecution env script x2 s2)))"


subsection \<open>What every step of a run keeps\<close>

text \<open>Executing a node never changes the execution's status, identity and start, nor the calls still
  to come: only \<open>pause\<close>, \<open>cancel\<close> and the end of the run do.\<close>

definition run_frame :: "wf_run \<Rightarrow> string \<times> WorkflowStatus \<times> int \<times> wf_command list list" where
  "run_frame r = (x_id (rn_exec r), x_status (rn_exec r), x_startedAt (rn_exec r), rn_script r)"

lemma run_frame_simps [simp]:
  "run_frame (tick r) = run_frame r" "run_frame (set_node a f r) = run_frame r"
  "run_frame (r\<lparr>rn_nodeResults := n\<rparr>) = run_frame r" "run_frame (r\<lparr>rn_heap := h\<rparr>) = run_frame r"
  "run_frame (bind_item v x r) = run_frame r"
  "run_frame (set_exec (\<lambda>x. x\<lparr>x_nodeStates := h1 x\<rparr>) r) = run_frame r"
  "run_frame (set_exec (\<lambda>x. x\<lparr>x_variables := g x\<rparr>) r) = run_frame r"
  "run_frame (set_exec (\<lambda>x. x\<lparr>x_checkpoints := c x\<rparr>) r) = run_frame r"
  "run_frame (r\<lparr>rn_checkpoints := cs\<rparr>) = run_frame r"
  by (simp_all add: run_frame_def tick_def set_node_def set_exec_def bind_item_def)

lemma run_frame_node [simp]:
  "run_frame (fst (begin_node env k r)) = run_frame r" "run_frame (complete_node env k a v r) = run_frame r"
  "run_frame (fst (fail_node env k a e r)) = run_frame r"
  "run_frame (fst (evaluateCondition env x r)) = run_frame r"
  "run_frame (fst (evaluateExpression env x r)) = run_frame r"
  "run_frame (fst (checkpoint_after env cp k r)) = run_frame r"
  by (simp_all add: begin_node_def node_state_of_def complete_node_def fail_node_def evaluateCondition_def
      evaluateExpression_def checkpoint_after_def Let_def split: option.split prod.split)

lemma fst_after_branch [simp]: "fst (after_branch o1 q) = fst q"
  by (cases "(o1, q)" rule: after_branch.cases) auto

lemma execute_frame:
  "run_frame (fst (executeNode env n r)) = run_frame r"
  "run_frame (fst (executeNodeByType env c r)) = run_frame r"
  "run_frame (fst (executeBranches env ns r)) = run_frame r"
  "run_frame (fst (executeSteps env ns r)) = run_frame r"
  "run_frame (fst (executeIterations env n v xs r)) = run_frame r"
proof (induction env n r and env c r and env ns r and env ns r and env n v xs r
    rule: executeNode_executeNodeByType_executeBranches_executeSteps_executeIterations.induct)
  case (1 env node r)
  obtain r1 a where b: "begin_node env (wn_id node) r = (r1, a)" by force
  then have f: "run_frame r1 = run_frame r" using run_frame_node(1) [of env "wn_id node" r] by simp
  show ?case
  proof (cases "ev_onNodeStart env (wn_id node)")
    case None
    with "1.IH" [OF b [symmetric] None] b f show ?thesis
      by (auto simp: executeNode.simps split: prod.splits sum.splits option.splits)
  qed (simp add: executeNode.simps b f)
next
  case (5 env e t el r)
  obtain r1 c where ev: "evaluateCondition env e r = (r1, c)" by force
  then have f: "run_frame r1 = run_frame r" using run_frame_node(4) [of env e r] by simp
  show ?case
    using 5(1) [OF ev [symmetric]] 5(2) [OF ev [symmetric]] f by (auto simp: ev split: option.split)
next
  case (6 env e v b mx r)
  obtain r1 c where ev: "evaluateExpression env e r = (r1, c)" by force
  then have f: "run_frame r1 = run_frame r" using run_frame_node(5) [of env e r] by simp
  show ?case
    using "6.IH" [OF ev [symmetric]] f by (auto simp: ev split: prod.splits sum.splits)
qed (auto split: prod.splits sum.splits)


subsection \<open>Node states move forward\<close>

definition node_states_ok :: "wf_run \<Rightarrow> bool" where
  "node_states_ok r \<longleftrightarrow> (\<forall>k a. jget (x_nodeStates (rn_exec r)) k = Some a \<longrightarrow> a < length (rn_heap r))"

definition node_completed :: "wf_run \<Rightarrow> string \<Rightarrow> bool" where
  "node_completed r k =
     (case jget (x_nodeStates (rn_exec r)) k of Some a \<Rightarrow> ne_status (rn_heap r ! a) = N_completed | None \<Rightarrow> False)"

text \<open>No handler throws.\<close>

definition quiet :: "wf_env \<Rightarrow> bool" where
  "quiet env \<longleftrightarrow> ev_onWorkflowStart env = None \<and> ev_onWorkflowComplete env = None \<and>
     ev_onNodeStart env = (\<lambda>_. None) \<and> ev_onNodeComplete env = (\<lambda>_ _. None) \<and>
     ev_onCheckpoint env = (\<lambda>_. None)"

text \<open>From \<open>r\<close> to \<open>r'\<close>, apart from the address \<open>ex\<close>: addresses are kept, no node state is dropped
  and each is as it was or completed.\<close>

definition progress :: "address option \<Rightarrow> wf_run \<Rightarrow> wf_run \<Rightarrow> bool" where
  "progress ex r r' \<longleftrightarrow> node_states_ok r' \<and> length (rn_heap r) \<le> length (rn_heap r') \<and>
     (\<forall>k a. jget (x_nodeStates (rn_exec r)) k = Some a \<longrightarrow> jget (x_nodeStates (rn_exec r')) k = Some a) \<and>
     (\<forall>a<length (rn_heap r'). ex = Some a \<or> ne_status (rn_heap r' ! a) = N_completed \<or>
        (a < length (rn_heap r) \<and> ne_status (rn_heap r' ! a) = ne_status (rn_heap r ! a)))"

lemma progress_refl [simp]: "node_states_ok r \<Longrightarrow> progress ex r r"
  by (simp add: progress_def)

lemma progress_trans: "progress ex r1 r2 \<Longrightarrow> progress ex r2 r3 \<Longrightarrow> progress ex r1 r3"
  unfolding progress_def by (metis order_trans)

lemma progress_weaken: "progress None r r' \<Longrightarrow> progress ex r r'"
  by (auto simp: progress_def)

lemma progress_ok: "progress ex r r' \<Longrightarrow> node_states_ok r'"
  by (simp add: progress_def)

lemma progress_completed: "progress None r r' \<Longrightarrow> node_states_ok r \<Longrightarrow> node_completed r k \<Longrightarrow> node_completed r' k"
proof -
  assume p: "progress None r r'" and ok: "node_states_ok r" and "node_completed r k"
  then obtain a where a: "jget (x_nodeStates (rn_exec r)) k = Some a" "ne_status (rn_heap r ! a) = N_completed"
    by (auto simp: node_completed_def split: option.splits)
  with ok have "a < length (rn_heap r)" by (simp add: node_states_ok_def)
  with p have "a < length (rn_heap r')" by (simp add: progress_def)
  with p a(2) have "ne_status (rn_heap r' ! a) = N_completed"
    unfolding progress_def by (metis option.distinct(1))
  with p a show ?thesis by (auto simp: progress_def node_completed_def)
qed

text \<open>Steps that leave the node states alone.\<close>

definition node_view :: "wf_run \<Rightarrow> (string, address) jsmap \<times> NodeExecutionState list" where
  "node_view r = (x_nodeStates (rn_exec r), rn_heap r)"

lemma node_view_simps [simp]:
  "node_view (tick r) = node_view r" "node_view (r\<lparr>rn_nodeResults := n\<rparr>) = node_view r"
  "node_view (bind_item v x r) = node_view r"
  "node_view (set_exec (\<lambda>x. x\<lparr>x_variables := g x\<rparr>) r) = node_view r"
  "node_view (set_exec (\<lambda>x. x\<lparr>x_checkpoints := c x\<rparr>) r) = node_view r"
  "node_view (r\<lparr>rn_checkpoints := cs\<rparr>) = node_view r"
  "node_view (fst (evaluateCondition env e r)) = node_view r"
  "node_view (fst (evaluateExpression env e r)) = node_view r"
  "node_view (fst (checkpoint_after env cp k r)) = node_view r"
  by (simp_all add: node_view_def tick_def set_exec_def bind_item_def evaluateCondition_def
      evaluateExpression_def checkpoint_after_def Let_def split: option.split prod.split)

lemma progress_view:
  "node_view r1 = node_view r2 \<Longrightarrow> progress ex r1 r' = progress ex r2 r'"
  "node_view r1 = node_view r2 \<Longrightarrow> progress ex r r1 = progress ex r r2"
  "node_view r1 = node_view r2 \<Longrightarrow> node_states_ok r1 = node_states_ok r2"
  "node_view r1 = node_view r2 \<Longrightarrow> node_completed r1 k = node_completed r2 k"
  by (simp_all add: node_view_def progress_def node_states_ok_def node_completed_def split: option.split)

lemma begin_node_progress:
  assumes "node_states_ok r" and "begin_node env k r = (r1, a)"
  shows "progress (Some a) r r1" and "jget (x_nodeStates (rn_exec r1)) k = Some a" and "a < length (rn_heap r1)"
  using assms
  by (auto simp: begin_node_def node_state_of_def progress_def node_states_ok_def set_exec_def set_node_def
      tick_def nth_append nth_list_update less_Suc_eq split: option.splits if_splits)

lemma complete_node_progress:
  assumes "progress (Some a) r r1" and "a < length (rn_heap r1)"
  shows "progress None r (complete_node env k a v r1)"
    and "jget (x_nodeStates (rn_exec (complete_node env k' a v r1))) k = jget (x_nodeStates (rn_exec r1)) k"
    and "ne_status (rn_heap (complete_node env k a v r1) ! a) = N_completed"
  using assms
  by (auto simp: complete_node_def progress_def node_states_ok_def set_node_def tick_def nth_list_update)

text \<open>With silent handlers every node completes, and its own state is completed afterwards.\<close>

definition steps_well :: "wf_run \<Rightarrow> wf_run \<times> (string + 'a) \<Rightarrow> bool" where
  "steps_well r q \<longleftrightarrow> progress None r (fst q) \<and> (case snd q of Inl _ \<Rightarrow> False | Inr _ \<Rightarrow> True)"

lemma steps_wellE: "steps_well r q \<Longrightarrow> (\<And>r' v. q = (r', Inr v) \<Longrightarrow> progress None r r' \<Longrightarrow> thesis) \<Longrightarrow> thesis"
  by (cases q) (auto simp: steps_well_def split: sum.splits)

lemma execute_progress:
  "quiet env \<Longrightarrow> node_states_ok r \<Longrightarrow>
   steps_well r (executeNode env n r) \<and> node_completed (fst (executeNode env n r)) (wn_id n)"
  "quiet env \<Longrightarrow> node_states_ok r \<Longrightarrow> steps_well r (executeNodeByType env c r)"
  "quiet env \<Longrightarrow> node_states_ok r \<Longrightarrow> steps_well r (executeBranches env ns r)"
  "quiet env \<Longrightarrow> node_states_ok r \<Longrightarrow> steps_well r (executeSteps env ns r)"
  "quiet env \<Longrightarrow> node_states_ok r \<Longrightarrow> steps_well r (executeIterations env n v xs r)"
proof (induction env n r and env c r and env ns r and env ns r and env n v xs r
    rule: executeNode_executeNodeByType_executeBranches_executeSteps_executeIterations.induct)
  case (1 env node r)
  obtain r1 a where b: "begin_node env (wn_id node) r = (r1, a)" by force
  note begun = begin_node_progress [OF "1.prems"(2) b]
  have start: "ev_onNodeStart env (wn_id node) = None" using "1.prems"(1) by (simp add: quiet_def)
  from "1.IH" [OF b [symmetric] start "1.prems"(1) progress_ok [OF begun(1)]]
  obtain r2 v where t: "executeNodeByType env (wn_config node) r1 = (r2, Inr v)" "progress None r1 r2"
    by (rule steps_wellE)
  from t(2) begun have r2: "a < length (rn_heap r2)" "jget (x_nodeStates (rn_exec r2)) (wn_id node) = Some a"
    by (auto simp: progress_def)
  note done' = complete_node_progress [OF progress_trans [OF begun(1) progress_weaken [OF t(2)]] r2(1)]
  show ?case
    using "1.prems"(1) done' r2(2) by (simp add: executeNode.simps b start t(1) quiet_def steps_well_def node_completed_def)
next
  case (5 env e t el r)
  obtain r1 c where ev: "evaluateCondition env e r = (r1, c)" by force
  then have f: "node_view r1 = node_view r" using node_view_simps(7) [of env e r] by simp
  show ?case
    using 5(1) [OF ev [symmetric]] 5(2) [OF ev [symmetric]] "5.prems" progress_view [OF f]
    by (auto simp: ev steps_well_def split: option.split)
next
  case (6 env e v b mx r)
  obtain r1 c where ev: "evaluateExpression env e r = (r1, c)" by force
  then have f: "node_view r1 = node_view r" using node_view_simps(8) [of env e r] by simp
  show ?case
    using "6.IH" [OF ev [symmetric]] "6.prems" progress_view [OF f]
    by (auto simp: ev steps_well_def split: prod.splits sum.splits)
next
  case (9 env n ns r)
  from "9.IH"(1) "9.prems" obtain r1 v where 1: "executeNode env n r = (r1, Inr v)" "progress None r r1"
    by (auto elim: steps_wellE)
  from "9.IH"(2) [OF 1(1) [symmetric]] "9.prems"(1) progress_ok [OF 1(2)] obtain r2 vs where
    2: "executeBranches env ns r1 = (r2, Inr vs)" "progress None r1 r2" by (auto elim: steps_wellE)
  from progress_trans [OF 1(2) 2(2)] show ?case by (simp add: 1 2 steps_well_def)
next
  case (11 env n ns r)
  from "11.IH"(1) "11.prems" obtain r1 v where 1: "executeNode env n r = (r1, Inr v)" "progress None r r1"
    by (auto elim: steps_wellE)
  from "11.IH"(2) [OF 1(1) [symmetric] refl] "11.prems"(1) progress_ok [OF 1(2)] obtain r2 vs where
    2: "executeSteps env ns r1 = (r2, Inr vs)" "progress None r1 r2" by (auto elim: steps_wellE)
  from progress_trans [OF 1(2) 2(2)] show ?case by (simp add: 1 2 steps_well_def)
next
  case (13 env body v item items r)
  have ok: "node_states_ok (bind_item v item r)" using "13.prems"(2) progress_view(3) by (metis node_view_simps(3))
  from "13.IH"(1) "13.prems"(1) ok obtain r1 x where
    1: "executeNode env body (bind_item v item r) = (r1, Inr x)" "progress None (bind_item v item r) r1"
    by (auto elim: steps_wellE)
  then have p: "progress None r r1" using progress_view(1) by (metis node_view_simps(3))
  from "13.IH"(2) [OF 1(1) [symmetric] refl] "13.prems"(1) progress_ok [OF p] obtain r2 vs where
    2: "executeIterations env body v items r1 = (r2, Inr vs)" "progress None r1 r2" by (auto elim: steps_wellE)
  from progress_trans [OF p 2(2)] show ?case by (simp add: 1 2 steps_well_def)
qed (auto simp: steps_well_def split: prod.splits sum.splits)


subsection \<open>Running the sorted nodes\<close>

lemma arrive_none [simp]: "rn_script r = [] \<Longrightarrow> arrive env r = r"
  by (simp add: arrive_def)

lemma wait_met: "set deps \<subseteq> set completed \<Longrightarrow> waitForDependencies env completed deps r = Some r"
  by (induction deps) auto

lemma wait_unmet:
  "rn_script r = [] \<Longrightarrow> \<not> stopped r \<Longrightarrow> \<not> set deps \<subseteq> set completed \<Longrightarrow>
   waitForDependencies env completed deps r = None"
  by (induction deps) auto

lemma checkpoint_after_quiet:
  "quiet env \<Longrightarrow> checkpoint_after env cp k r = (fst (checkpoint_after env cp k r), Inr ())"
  by (simp add: checkpoint_after_def quiet_def Let_def)

text \<open>A run that is not stopped and has no calls to come.\<close>

definition steady :: "wf_run \<Rightarrow> bool" where
  "steady r \<longleftrightarrow> \<not> stopped r \<and> rn_script r = [] \<and> node_states_ok r"

lemma steady_frame: "run_frame r' = run_frame r \<Longrightarrow> node_states_ok r' \<Longrightarrow> steady r \<Longrightarrow> steady r'"
  by (simp add: steady_def stopped_def run_frame_def)

text \<open>One node of a steady run, in one step.\<close>

lemma run_node_steady:
  assumes "quiet env" and "steady r" and "set (wn_dependencies n) \<subseteq> set completed"
  obtains r' v where "\<And>ns results. run_nodes env cp (n # ns) completed results r =
      run_nodes env cp ns (wn_id n # completed) (jset results (wn_id n) v) r'"
    "steady r'" "run_frame r' = run_frame r" "node_completed r' (wn_id n)" "progress None r r'"
proof -
  have r: "\<not> stopped r" "rn_script r = []" "node_states_ok r" using assms(2) by (auto simp: steady_def)
  from execute_progress(1) [OF assms(1) r(3), of n] obtain r1 v where
    ex: "executeNode env n r = (r1, Inr v)" "progress None r r1" "node_completed r1 (wn_id n)"
    by (auto elim!: steps_wellE)
  define r2 where "r2 = fst (checkpoint_after env cp (wn_id n) r1)"
  have cp: "checkpoint_after env cp (wn_id n) r1 = (r2, Inr ())"
    unfolding r2_def by (rule checkpoint_after_quiet [OF assms(1)])
  have view: "node_view r2 = node_view r1" by (simp add: r2_def)
  have frame: "run_frame r2 = run_frame r"
    using execute_frame(1) [of env n r] by (simp add: r2_def ex(1))
  have p: "progress None r r2" using ex(2) progress_view(2) [OF view] by simp
  show thesis
  proof (rule that)
    show "run_nodes env cp (n # ns) completed results r =
        run_nodes env cp ns (wn_id n # completed) (jset results (wn_id n) v) r2" for ns results
      using r by (simp add: wait_met [OF assms(3)] ex(1) cp)
    show "steady r2" by (rule steady_frame [OF frame progress_ok [OF p] assms(2)])
    show "node_completed r2 (wn_id n)" using ex(3) progress_view(4) [OF view] by simp
  qed (fact frame p)+
qed

text \<open>Each node's dependencies are completed or stand before it.\<close>

fun served :: "string list \<Rightarrow> WorkflowNode list \<Rightarrow> bool" where
  "served completed [] = True"
| "served completed (n # ns) =
     (set (wn_dependencies n) \<subseteq> set completed \<and> served (wn_id n # completed) ns)"

lemma run_nodes_complete:
  "quiet env \<Longrightarrow> steady r \<Longrightarrow> served completed ns \<Longrightarrow>
   \<exists>r' results'. run_nodes env cp ns completed results r = Some (r', Inr results') \<and>
     run_frame r' = run_frame r \<and> (\<forall>n\<in>set ns. node_completed r' (wn_id n)) \<and> progress None r r' \<and>
     set (jkeys results') = set (jkeys results) \<union> wn_id ` set ns"
proof (induction ns arbitrary: completed results r)
  case Nil
  then show ?case by (simp add: steady_def)
next
  case (Cons n ns)
  from Cons.prems(3) have "set (wn_dependencies n) \<subseteq> set completed" by simp
  from run_node_steady [OF Cons.prems(1,2) this, of cp] obtain r1 v where
    1: "\<And>ns results. run_nodes env cp (n # ns) completed results r =
        run_nodes env cp ns (wn_id n # completed) (jset results (wn_id n) v) r1"
      "steady r1" "run_frame r1 = run_frame r" "node_completed r1 (wn_id n)" "progress None r r1"
    by metis
  from Cons.prems(3) have "served (wn_id n # completed) ns" by simp
  from Cons.IH [OF Cons.prems(1) 1(2) this, of "jset results (wn_id n) v"] obtain r' results' where
    2: "run_nodes env cp ns (wn_id n # completed) (jset results (wn_id n) v) r1 = Some (r', Inr results')"
      "run_frame r' = run_frame r1" "\<forall>n\<in>set ns. node_completed r' (wn_id n)" "progress None r1 r'"
      "set (jkeys results') = set (jkeys (jset results (wn_id n) v)) \<union> wn_id ` set ns"
    by blast
  have "node_completed r' (wn_id n)"
    using progress_completed [OF 2(4) _ 1(4)] 1(2) by (simp add: steady_def)
  moreover have "progress None r r'" using progress_trans [OF 1(5) 2(4)] .
  moreover have "set (jkeys results') = set (jkeys results) \<union> wn_id ` set (n # ns)"
    using 2(5) by (auto simp: jkeys_jset simp del: set_map)
  ultimately show ?case using 1(1,3) 2(1-3) by auto
qed

lemma run_nodes_stuck:
  "quiet env \<Longrightarrow> steady r \<Longrightarrow> n \<in> set ns \<Longrightarrow> d \<in> set (wn_dependencies n) \<Longrightarrow>
   d \<notin> set completed \<union> wn_id ` set ns \<Longrightarrow> run_nodes env cp ns completed results r = None"
proof (induction ns arbitrary: completed results r)
  case (Cons m ns)
  show ?case
  proof (cases "set (wn_dependencies m) \<subseteq> set completed")
    case False
    with Cons.prems(2) show ?thesis by (simp add: steady_def wait_unmet)
  next
    case True
    from run_node_steady [OF Cons.prems(1,2) True, of cp] obtain r1 v where
      1: "run_nodes env cp (m # ns) completed results r =
          run_nodes env cp ns (wn_id m # completed) (jset results (wn_id m) v) r1" "steady r1"
      by metis
    with True Cons.prems Cons.IH [of r1 "wn_id m # completed" "jset results (wn_id m) v"]
    show ?thesis by auto
  qed
qed simp

lemma served_sorted:
  "deps_before m (pre @ ns) \<Longrightarrow> \<forall>n\<in>set ns. \<forall>d\<in>set (wn_dependencies n). jhas m d \<Longrightarrow>
   wn_id ` set pre \<subseteq> set completed \<Longrightarrow> served completed ns"
proof (induction ns arbitrary: pre completed)
  case (Cons n ns)
  have "d \<in> set completed" if d: "d \<in> set (wn_dependencies n)" for d
  proof -
    from Cons.prems(1) have "\<forall>d\<in>set (wn_dependencies n). jhas m d \<longrightarrow> d \<in> wn_id ` set pre"
      unfolding deps_before_def
      by (metis (no_types, lifting) append_eq_conv_conj length_append less_add_same_cancel1
          length_greater_0_conv list.distinct(1) nth_append_length)
    with d Cons.prems(2,3) show ?thesis by auto
  qed
  moreover have "served (wn_id n # completed) ns"
    using Cons.IH [of "pre @ [n]" "wn_id n # completed"] Cons.prems by auto
  ultimately show ?case by auto
qed simp


text \<open>The same when the nodes that are already completed are left out.\<close>

lemma served_pending:
  "deps_before m (pre @ ns) \<Longrightarrow> \<forall>n\<in>set ns. \<forall>d\<in>set (wn_dependencies n). jhas m d \<Longrightarrow>
   wn_id ` set pre \<subseteq> set completed \<Longrightarrow> set old \<subseteq> set completed \<Longrightarrow>
   served completed (filter (\<lambda>n. wn_id n \<notin> set old) ns)"
proof (induction ns arbitrary: pre completed)
  case (Cons n ns)
  have "wn_id n \<notin> set old \<Longrightarrow> served (wn_id n # completed) (filter (\<lambda>n. wn_id n \<notin> set old) ns)"
    using Cons.IH [of "pre @ [n]" "wn_id n # completed"] Cons.prems by auto
  moreover have "wn_id n \<in> set old \<Longrightarrow> served completed (filter (\<lambda>n. wn_id n \<notin> set old) ns)"
    using Cons.IH [of "pre @ [n]" completed] Cons.prems by auto
  moreover have "set (wn_dependencies n) \<subseteq> set completed"
    using served_sorted [OF Cons.prems(1-3)] by simp
  ultimately show ?case by simp
qed simp

lemma nodeMap_member: "jget (nodeMap nodes) k = Some n \<Longrightarrow> n \<in> set nodes"
proof -
  have "jget (fold (\<lambda>n m. jset m (wn_id n) n) nodes m) k = Some n \<Longrightarrow> n \<in> set nodes \<or> jget m k = Some n" for m
    by (induction nodes arbitrary: m) (fastforce split: if_splits)+
  then show "jget (nodeMap nodes) k = Some n \<Longrightarrow> n \<in> set nodes" by (fastforce simp: nodeMap_def)
qed

text \<open>Every dependency is the id of a node of the workflow.\<close>

definition closed_workflow :: "WorkflowDefinition \<Rightarrow> bool" where
  "closed_workflow w \<longleftrightarrow>
     list_all (\<lambda>n. list_all (\<lambda>d. d \<in> set (map wn_id (wd_nodes w))) (wn_dependencies n)) (wd_nodes w)"

lemma sorted_workflow:
  assumes "topologicalSort (wd_nodes w) = Inr ns"
  shows "set ns \<subseteq> set (wd_nodes w)"
    and "closed_workflow w \<Longrightarrow> set old \<subseteq> set completed \<Longrightarrow>
      served completed (filter (\<lambda>n. wn_id n \<notin> set old) ns)"
proof -
  note ok = topologicalSort_Inr [OF assms]
  show sub: "set ns \<subseteq> set (wd_nodes w)" using ok(3) nodeMap_member by blast
  assume "closed_workflow w" and old: "set old \<subseteq> set completed"
  then have "\<forall>n\<in>set ns. \<forall>d\<in>set (wn_dependencies n). jhas (nodeMap (wd_nodes w)) d"
    using sub unfolding nodeMap_keys by (auto simp: closed_workflow_def list_all_iff)
  then show "served completed (filter (\<lambda>n. wn_id n \<notin> set old) ns)"
    by (intro served_pending [where pre = "[]" and m = "nodeMap (wd_nodes w)"]) (use ok(4) old in simp_all)
qed

lemma finish_run_status:
  assumes "finish_run env w f outcome r = (r', Inr res)"
  shows "x_id (rn_exec r') = x_id (rn_exec r)" and "y_executionId res = x_id (rn_exec r)"
    and "x_status (rn_exec r') = y_status res" and "y_status res \<in> {W_completed, W_failed}"
  using assms
  by (auto simp: finish_run_def fail_run_def Let_def set_exec_def tick_def split: sum.splits option.splits)

lemma finish_run_quiet:
  assumes "quiet env"
  obtains r' res where "finish_run env w f (Inr results) r = (r', Inr res)" "y_status res = W_completed"
    "y_output res = Some (JObj results)" "y_executionId res = x_id (rn_exec r)"
    "x_id (rn_exec r') = x_id (rn_exec r)" "x_status (rn_exec r') = W_completed" "node_view r' = node_view r"
  using assms that
  by (simp add: finish_run_def quiet_def Let_def set_exec_def tick_def node_view_def)

text \<open>Every node of the workflow has a completed state.\<close>

definition workflow_done :: "WorkflowDefinition \<Rightarrow> WorkflowExecution \<Rightarrow> NodeExecutionState list \<Rightarrow> bool" where
  "workflow_done w x heap \<longleftrightarrow>
     list_all (\<lambda>n. case jget (x_nodeStates x) (wn_id n) of
        Some a \<Rightarrow> ne_status (heap ! a) = N_completed | None \<Rightarrow> False) (wd_nodes w)"

lemma workflow_done_run:
  "workflow_done w (rn_exec r) (rn_heap r) \<longleftrightarrow> (\<forall>n\<in>set (wd_nodes w). node_completed r (wn_id n))"
  by (simp add: workflow_done_def list_all_iff node_completed_def)

subsection \<open>Properties\<close>

definition demo_env :: wf_env where
  "demo_env = \<lparr>ev_eval = (\<lambda>_ vars. (Some (JArr [JNum 1, JNum 2]), vars)), ev_clock = int, ev_random = (\<lambda>_. ''r''),
     ev_onWorkflowStart = None, ev_onWorkflowComplete = None, ev_onWorkflowError = None,
     ev_onNodeStart = (\<lambda>_. None), ev_onNodeComplete = (\<lambda>_ _. None), ev_onNodeError = (\<lambda>_ _. None),
     ev_onCheckpoint = (\<lambda>_. None)\<rparr>"

definition demo_workflow :: "WorkflowNode list \<Rightarrow> WorkflowDefinition" where
  "demo_workflow nodes = \<lparr>wd_id = ''w'', wd_name = ''w'', wd_version = ''1'', wd_description = None,
     wd_nodes = nodes, wd_variables = [], wd_triggers = [], wd_timeout = None, wd_metadata = None\<rparr>"

text \<open>A loop node that depends on a task node and runs a task for two items.\<close>

definition demo_nodes :: "WorkflowNode list" where
  "demo_nodes =
     [WorkflowNode ''loop'' NT_loop ''loop'' [''a'']
        (LoopNodeConfig ''variables.xs'' ''item'' (demo_node ''body'' []) None) None None None,
      demo_node ''a'' []]"

lemma demo_env_quiet [simp]: "quiet demo_env"
  by (simp add: quiet_def demo_env_def)

text \<open>C15: A workflow without circular or dangling dependencies runs to the end: with capacity left,
  silent handlers and no status calls, \<open>execute\<close> returns a completed result with an output for every
  node, every node's state is completed, and the slot of the run is free again.\<close>

theorem execute_completes:
  assumes "quiet env" and "we_concurrentExecutions s < wg_maxConcurrentExecutions (we_config s)"
    and "topologicalSort (wd_nodes w) = Inr ns" and "closed_workflow w"
  shows "\<exists>s' res x m. execute env [] w vars s = Some (s', Inr res) \<and> y_status res = W_completed \<and>
    y_output res = Some (JObj m) \<and> set (jkeys m) = wn_id ` set (wd_nodes w) \<and>
    getExecution s' (y_executionId res) = Some x \<and> x_status x = W_completed \<and>
    workflow_done w x (we_heap s') \<and>
    we_concurrentExecutions s' = we_concurrentExecutions s"
proof -
  define x where "x = createExecution env w (gen_id ''exec'' (ev_clock env 0) (ev_random env 0)) vars"
  define s1 where "s1 = s\<lparr>we_currentWorkflow := Some w, we_executions := jset (we_executions s) (x_id x) x,
      we_concurrentExecutions := we_concurrentExecutions s + 1\<rparr>"
  let ?r = "start_run x [] [] s1"
  have x: "x_status x = W_running" "x_nodeStates x = []" by (simp_all add: x_def createExecution_def)
  have "steady ?r" by (simp add: steady_def stopped_def start_run_def x node_states_ok_def)
  moreover have "served [] ns" using sorted_workflow(2) [OF assms(3,4), of "[]" "[]"] by simp
  ultimately obtain r' results where run: "run_nodes env (wg_checkpointEnabled (we_config s)) ns [] [] ?r = Some (r', Inr results)"
      "run_frame r' = run_frame ?r" "\<forall>n\<in>set ns. node_completed r' (wn_id n)"
      "set (jkeys results) = wn_id ` set ns"
    using run_nodes_complete [OF assms(1), of ?r "[]" ns "wg_checkpointEnabled (we_config s)" "[]"] by auto
  have ids: "wn_id ` set ns = wn_id ` set (wd_nodes w)" by (rule topologicalSort_Inr(2) [OF assms(3)])
  obtain r'' res where fin: "finish_run env w (\<lambda>_. []) (Inr results) r' = (r'', Inr res)" "y_status res = W_completed"
      "y_output res = Some (JObj results)" "y_executionId res = x_id (rn_exec r')"
      "x_id (rn_exec r'') = x_id (rn_exec r')" "x_status (rn_exec r'') = W_completed" "node_view r'' = node_view r'"
    by (rule finish_run_quiet [OF assms(1)])
  have "\<forall>n\<in>set (wd_nodes w). node_completed r'' (wn_id n)"
    using run(3) ids progress_view(4) [OF fin(7)] by (metis imageE imageI)
  then have "workflow_done w (rn_exec r'') (rn_heap r'')" by (simp only: workflow_done_run)
  moreover have "execute env [] w vars s =
      Some ((put_run r'' s1)\<lparr>we_concurrentExecutions := we_concurrentExecutions s\<rparr>, Inr res)"
    using assms(1,2) run(1) fin(1)
    by (simp add: execute_def x_def [symmetric] s1_def [symmetric] assms(3) executeNodes_def quiet_def Let_def)
  ultimately show ?thesis
    using fin run(4) ids by (simp add: put_run_def getExecution_def)
qed

lemma execute_completes_witness:
  "\<exists>s' res x m. execute demo_env [] (demo_workflow demo_nodes) None (new_engine default_engine_config) =
      Some (s', Inr res) \<and> y_status res = W_completed \<and> y_output res = Some (JObj m) \<and>
    set (jkeys m) = {''loop'', ''a''} \<and> getExecution s' (y_executionId res) = Some x \<and>
    workflow_done (demo_workflow demo_nodes) x (we_heap s')"
proof -
  have 1: "topologicalSort (wd_nodes (demo_workflow demo_nodes)) = Inr (rev demo_nodes)" by code_simp
  have 2: "closed_workflow (demo_workflow demo_nodes)" by code_simp
  have 3: "we_concurrentExecutions (new_engine default_engine_config) <
      wg_maxConcurrentExecutions (we_config (new_engine default_engine_config))" by code_simp
  have ids: "wn_id ` set (wd_nodes (demo_workflow demo_nodes)) = {''loop'', ''a''}"
    by (simp add: demo_workflow_def demo_nodes_def demo_node_def)
  from execute_completes [OF demo_env_quiet 3 1 2, of None] show ?thesis
    unfolding ids by (elim exE conjE, intro exI conjI) assumption+
qed

text \<open>C16: A workflow with a dependency on an id that is no node passes the sort and then hangs: the run
  reaches the node, polls for the dependency every 100 ms and never returns, as long as nobody pauses
  or cancels it.\<close>

theorem execute_dangling_hangs:
  assumes "quiet env" and "we_concurrentExecutions s < wg_maxConcurrentExecutions (we_config s)"
    and "topologicalSort (wd_nodes w) = Inr ns" and "\<not> closed_workflow w" and "distinct (map wn_id (wd_nodes w))"
  shows "execute env [] w vars s = None"
proof -
  define x where "x = createExecution env w (gen_id ''exec'' (ev_clock env 0) (ev_random env 0)) vars"
  define s1 where "s1 = s\<lparr>we_currentWorkflow := Some w, we_executions := jset (we_executions s) (x_id x) x,
      we_concurrentExecutions := we_concurrentExecutions s + 1\<rparr>"
  let ?r = "start_run x [] [] s1"
  note ok = topologicalSort_Inr [OF assms(3)]
  have steady: "steady ?r"
    by (simp add: steady_def stopped_def start_run_def node_states_ok_def x_def createExecution_def)
  from assms(4) obtain n d where n: "n \<in> set (wd_nodes w)" "d \<in> set (wn_dependencies n)"
      "d \<notin> wn_id ` set (wd_nodes w)"
    by (auto simp: closed_workflow_def list_all_iff)
  from n(1) ok(2) obtain n' where n': "n' \<in> set ns" "wn_id n' = wn_id n" by (metis imageE imageI)
  with ok(3) have "n' \<in> set (wd_nodes w)" using nodeMap_member by blast
  with n' n(1) assms(5) have "n' = n" by (auto simp: distinct_map inj_on_def)
  with n n' ok(2) have "run_nodes env (wg_checkpointEnabled (we_config s)) ns [] [] ?r = None"
    using run_nodes_stuck [OF assms(1) steady, of n ns d "[]"] by simp
  with assms(1,2) show ?thesis
    by (simp add: execute_def x_def [symmetric] s1_def [symmetric] assms(3) executeNodes_def quiet_def Let_def)
qed

lemma execute_dangling_hangs_witness:
  "execute demo_env [] (demo_workflow [demo_node ''a'' [''ghost'']]) None (new_engine default_engine_config) = None"
proof -
  have "topologicalSort (wd_nodes (demo_workflow [demo_node ''a'' [''ghost'']])) = Inr [demo_node ''a'' [''ghost'']]"
    by code_simp
  then show ?thesis
    by (rule execute_dangling_hangs [OF demo_env_quiet, rotated])
       (simp_all add: new_engine_def default_engine_config_def closed_workflow_def demo_workflow_def demo_node_def)
qed

text \<open>A run that returns leaves its execution completed or failed, whatever \<open>pause\<close> and
  \<open>cancel\<close> calls arrived in the meantime: the loop leaves early, but its end overwrites the status. So a
  paused run can never be resumed, with or without a checkpoint, and a cancelled run reports success.\<close>

lemma settled_not_resumable:
  assumes "execute env script w vars s = Some (s', Inr res)"
  shows "\<exists>x. getExecution s' (y_executionId res) = Some x \<and> x_status x = y_status res \<and>
    y_status res \<in> {W_completed, W_failed} \<and> we_concurrentExecutions s' = we_concurrentExecutions s \<and>
    resume env' script' (y_executionId res) cp s' = Some (s', Inl (CannotResume (y_status res)))"
proof -
  define x where "x = createExecution env w (gen_id ''exec'' (ev_clock env 0) (ev_random env 0)) vars"
  define s1 where "s1 = s\<lparr>we_currentWorkflow := Some w, we_executions := jset (we_executions s) (x_id x) x,
      we_concurrentExecutions := we_concurrentExecutions s + 1\<rparr>"
  from assms obtain r outcome r' where r:
      "finish_run env w (\<lambda>_. []) outcome r = (r', Inr res)"
      "s' = (put_run r' s1)\<lparr>we_concurrentExecutions := we_concurrentExecutions s1 - 1\<rparr>"
    by (auto simp: execute_def x_def [symmetric] s1_def [symmetric] Let_def split: if_splits option.splits prod.splits)
       (metis surj_pair)
  note fin = finish_run_status [OF r(1)]
  have get: "getExecution s' (y_executionId res) = Some (rn_exec r')"
    by (simp add: r(2) getExecution_def put_run_def fin(1,2))
  have "we_concurrentExecutions s' = we_concurrentExecutions s" by (simp add: r(2) s1_def)
  moreover have "resume env' script' (y_executionId res) cp s' = Some (s', Inl (CannotResume (y_status res)))"
    using get fin(3,4) by (auto simp: resume_def getExecution_def Let_def)
  ultimately show ?thesis using get fin(3,4) by blast
qed

lemma settled_not_resumable_witness:
  "case execute demo_env [[], [], [CallPause]] (demo_workflow demo_nodes) None (new_engine default_engine_config) of
     Some (s', Inr res) \<Rightarrow>
       y_status res = W_completed \<and>
       resume demo_env [] (y_executionId res) None s' = Some (s', Inl (CannotResume W_completed))
   | _ \<Rightarrow> False"
proof -
  let ?run = "execute demo_env [[], [], [CallPause]] (demo_workflow demo_nodes) None (new_engine default_engine_config)"
  have "case ?run of Some (s', Inr res) \<Rightarrow> y_status res = W_completed | _ \<Rightarrow> False" by code_simp
  then obtain s' res where run: "?run = Some (s', Inr res)" "y_status res = W_completed"
    by (auto split: option.splits prod.splits sum.splits)
  from settled_not_resumable [OF run(1), of demo_env "[]" None] run show ?thesis by auto
qed

text \<open>Continuing a paused execution of a workflow without circular or dangling dependencies runs
  exactly what is left: it returns a completed result, every node's state is completed and the node
  states that were completed before stay so.\<close>

lemma resume_completes:
  assumes "quiet env" and "we_currentWorkflow s = Some w" and "topologicalSort (wd_nodes w) = Inr ns"
    and "closed_workflow w" and "getExecution s k = Some x" and "x_id x = k" and "x_status x = W_paused"
    and "list_all (\<lambda>(_, a). a < length (we_heap s)) (x_nodeStates x)" and "jwf (x_nodeStates x)"
  shows "\<exists>s' res x'. resume env [] k None s = Some (s', Inr res) \<and> y_status res = W_completed \<and>
    getExecution s' k = Some x' \<and> x_status x' = W_completed \<and>
    workflow_done w x' (we_heap s')"
proof -
  define x2 where "x2 = x\<lparr>x_status := W_running\<rparr>"
  define s2 where "s2 = s\<lparr>we_executions := jset (we_executions s) k x2\<rparr>"
  define r0 where "r0 = start_run x2 [] [] s2"
  define r where "r = r0\<lparr>rn_nodeResults := completed_results r0\<rparr>"
  have r: "rn_exec r = x2" "rn_heap r = we_heap s" "rn_script r = []"
    by (simp_all add: r_def r0_def start_run_def s2_def)
  have steady: "steady r"
    using assms(8) by (auto simp: steady_def stopped_def r x2_def node_states_ok_def list_all_iff dest!: map_of_SomeD)
  have served: "served (completed_ids r) (filter (\<lambda>n. wn_id n \<notin> set (completed_ids r)) ns)"
    by (rule sorted_workflow(2) [OF assms(3,4) order_refl])
  from run_nodes_complete [OF assms(1) steady served, of "wg_checkpointEnabled (we_config s2)" "recorded_results r"]
  obtain r' results where run:
      "run_nodes env (wg_checkpointEnabled (we_config s2)) (filter (\<lambda>n. wn_id n \<notin> set (completed_ids r)) ns)
         (completed_ids r) (recorded_results r) r = Some (r', Inr results)"
      "run_frame r' = run_frame r" "progress None r r'"
      "\<forall>n\<in>set (filter (\<lambda>n. wn_id n \<notin> set (completed_ids r)) ns). node_completed r' (wn_id n)"
    by blast
  have "node_completed r (wn_id n)" if "wn_id n \<in> set (completed_ids r)" for n
  proof -
    from that obtain a where a: "(wn_id n, a) \<in> set (x_nodeStates x)" "ne_status (we_heap s ! a) = N_completed"
      by (auto simp: completed_ids_def r x2_def)
    with assms(9) show ?thesis by (simp add: node_completed_def r x2_def jget_mem)
  qed
  then have "node_completed r' (wn_id n)" if "n \<in> set ns" for n
    using that run(4) progress_completed [OF run(3)] steady by (auto simp: steady_def)
  then have "\<forall>n\<in>set (wd_nodes w). node_completed r' (wn_id n)"
    using topologicalSort_Inr(2) [OF assms(3)] by (metis imageE imageI)
  moreover obtain r'' res where fin: "finish_run env w rn_nodeResults (Inr results) r' = (r'', Inr res)"
      "y_status res = W_completed" "x_id (rn_exec r'') = x_id (rn_exec r')"
      "x_status (rn_exec r'') = W_completed" "node_view r'' = node_view r'"
    by (rule finish_run_quiet [OF assms(1)])
  ultimately have "workflow_done w (rn_exec r'') (rn_heap r'')"
    by (simp only: workflow_done_run progress_view(4) [OF fin(5)])
  moreover have "resume env [] k None s = Some (put_run r'' s2, Inr res)"
    using assms(2,3,5,6,7) run(1) fin(1)
    by (simp add: resume_def getExecution_def x2_def [symmetric] s2_def [symmetric] continueExecution_def
        r0_def [symmetric] r_def [symmetric] Let_def executeNodesFrom_def)
       (simp add: s2_def)
  moreover have "x_id (rn_exec r'') = k"
    using fin(3) run(2) assms(6) by (simp add: run_frame_def r x2_def)
  ultimately show ?thesis
    using fin(2,4) by (simp add: put_run_def getExecution_def)
qed


text \<open>An engine with a paused execution that has completed the node \<open>a\<close>.\<close>

definition demo_paused :: workflow_engine where
  "demo_paused = (new_engine default_engine_config)
     \<lparr>we_currentWorkflow := Some (demo_workflow demo_nodes),
      we_heap := [(new_node_state ''a'')\<lparr>ne_status := N_completed, ne_result := Some (JBool True)\<rparr>],
      we_executions := [(''e'', \<lparr>x_id = ''e'', x_workflowId = ''w'', x_workflowVersion = ''1'',
        x_status = W_paused, x_startedAt = 0, x_completedAt = None, x_variables = [],
        x_nodeStates = [(''a'', 0)], x_checkpoints = [], x_error = None\<rparr>)]\<rparr>"

lemma resume_completes_witness:
  "\<exists>s' res x'. resume demo_env [] ''e'' None demo_paused = Some (s', Inr res) \<and> y_status res = W_completed \<and>
    getExecution s' ''e'' = Some x' \<and> workflow_done (demo_workflow demo_nodes) x' (we_heap s')"
proof -
  obtain x where x: "getExecution demo_paused ''e'' = Some x" "x_id x = ''e''" "x_status x = W_paused"
      "list_all (\<lambda>(_, a). a < length (we_heap demo_paused)) (x_nodeStates x)" "jwf (x_nodeStates x)"
    by (simp add: demo_paused_def getExecution_def jwf_def)
  have "we_currentWorkflow demo_paused = Some (demo_workflow demo_nodes)" by (simp add: demo_paused_def)
  moreover have "topologicalSort (wd_nodes (demo_workflow demo_nodes)) = Inr (rev demo_nodes)" by code_simp
  moreover have "closed_workflow (demo_workflow demo_nodes)" by code_simp
  ultimately show ?thesis using resume_completes [OF demo_env_quiet _ _ _ x] by blast
qed

text \<open>What \<open>evaluateCondition\<close> hands to the evaluator holds no separator, bracket, brace or
  arithmetic operator except the hyphen. The sanitiser of \<open>evaluateExpression\<close>, which is meant to allow
  brackets in addition, keeps every text of the characters from the double quote to the opening bracket
  unchanged, so statement separators, commas and all arithmetic pass.\<close>

lemma sanitizers_compared:
  "list_all (\<lambda>c. c \<notin> set '';,:?*+/%#@$[]{}'') (sanitizeCondition e) \<and>
   (list_all (\<lambda>c. (34::nat) \<le> of_char c \<and> of_char c \<le> (91::nat)) e \<longrightarrow> sanitizeExpression e = e)"
proof
  have "\<not> condition_char c" if "c \<in> set '';,:?*+/%#@$[]{}''" for c
    using that by (auto simp: condition_char_def word_char_def js_space_def Let_def)
  then show "list_all (\<lambda>c. c \<notin> set '';,:?*+/%#@$[]{}'') (sanitizeCondition e)"
    unfolding sanitizeCondition_def list_all_iff by auto
  show "list_all (\<lambda>c. (34::nat) \<le> of_char c \<and> of_char c \<le> (91::nat)) e \<longrightarrow> sanitizeExpression e = e"
    by (auto simp: sanitizeExpression_def expression_char_def Let_def list_all_iff filter_id_conv)
qed

lemma sanitizers_compared_witness:
  "sanitizeExpression ''A(1);B+(2)'' = ''A(1);B+(2)'' \<and> sanitizeCondition ''A(1);B+(2)'' = ''A(1)B(2)''"
proof
  have "list_all (\<lambda>c. (34::nat) \<le> of_char c \<and> of_char c \<le> (91::nat)) ''A(1);B+(2)''" by code_simp
  with sanitizers_compared [of "''A(1);B+(2)''"] show "sanitizeExpression ''A(1);B+(2)'' = ''A(1);B+(2)''" by blast
  show "sanitizeCondition ''A(1);B+(2)'' = ''A(1)B(2)''" by code_simp
qed

end
