(* ===== verification/Team.thy ===== *)
theory Team
  imports OrchJson
begin

text \<open>
  Peer-to-peer teams (\<open>src/src/orchestrator/team.ts\<close>, class \<open>Team\<close>): members with roles, a leader,
  decisions put to the vote, and the event log. A team lives in four maps under the same id: its
  record, its members, its decisions and its configuration.

  The registered handlers are functions of the caller: each takes the notification and may throw, and
  \<open>ct_calls\<close> records the calls made to them. Ratios of votes are exact rationals. The random suffixes
  of generated ids are arguments.
\<close>

subsection \<open>Data\<close>

datatype TeamRole = TR_leader | TR_member | TR_specialist | TR_observer

datatype TeamStatus = TS_forming | TS_active | TS_idle | TS_disbanded

datatype MemberStatus = MS_online | MS_offline | MS_busy

record TeamMember =
  mb_agentId :: string
  mb_role :: TeamRole
  mb_capabilities :: "string list"
  mb_joinedAt :: int
  mb_lastActive :: int
  mb_status :: MemberStatus
  mb_metadata :: "js_record option"

datatype LeaderElection = LE_manual | LE_auto | LE_rotation

record TeamConfig =
  tf_maxMembers :: int
  tf_autoDisband :: bool
  tf_idleTimeout :: int
  tf_leaderElection :: LeaderElection
  tf_consensusThreshold :: rat
  tf_messageRetention :: int

record PartialTeamConfig =
  pf_maxMembers :: "int option"
  pf_autoDisband :: "bool option"
  pf_idleTimeout :: "int option"
  pf_leaderElection :: "LeaderElection option"
  pf_consensusThreshold :: "rat option"
  pf_messageRetention :: "int option"

datatype DecisionStatus = DS_pending | DS_approved | DS_rejected | DS_expired

record TeamDecision =
  dc_id :: string
  dc_teamId :: string
  dc_proposal :: string
  dc_proposer :: string
  dc_votes :: "(string, bool) jsmap"
  dc_status :: DecisionStatus
  dc_createdAt :: int
  dc_expiresAt :: int
  dc_result :: "bool option"

datatype TeamEventType =
    EV_team_created | EV_member_joined | EV_member_left | EV_leader_changed | EV_decision_made
  | EV_team_disbanded

record TeamEvent =
  ev_id :: string
  ev_teamId :: string
  ev_type :: TeamEventType
  ev_data :: js_record
  ev_timestamp :: int

text \<open>A handler may throw the error it returns as \<open>Some\<close>.\<close>

record TeamEventHandler =
  th_onMemberJoined :: "(string \<Rightarrow> TeamMember \<Rightarrow> string option) option"
  th_onMemberLeft :: "(string \<Rightarrow> string \<Rightarrow> string option) option"
  th_onLeaderChanged :: "(string \<Rightarrow> string \<Rightarrow> string option \<Rightarrow> string option) option"
  th_onDecisionMade :: "(string \<Rightarrow> TeamDecision \<Rightarrow> string option) option"
  th_onTeamDisbanded :: "(string \<Rightarrow> string \<Rightarrow> string option) option"

datatype handler_call =
    MemberJoined string TeamMember
  | MemberLeft string string
  | LeaderChanged string string "string option"
  | DecisionMade string TeamDecision
  | TeamDisbanded string string

record TeamStats =
  st_memberCount :: nat
  st_activeMembers :: nat
  st_onlineMembers :: nat
  st_pendingDecisions :: nat
  st_totalDecisions :: nat
  st_approvedDecisions :: nat
  st_rejectedDecisions :: nat
  st_uptime :: int
  st_lastActivity :: int

record team_state =
  ct_teams :: "(string, TeamInfo) jsmap"
  ct_members :: "(string, (string, TeamMember) jsmap) jsmap"
  ct_decisions :: "(string, (string, TeamDecision) jsmap) jsmap"
  ct_events :: "TeamEvent list"
  ct_config :: "(string, TeamConfig) jsmap"
  ct_handler :: TeamEventHandler
  ct_calls :: "handler_call list"

datatype collab_error =
    NoSuchTeam string
  | NoMembersMap string
  | TeamFull string
  | AlreadyMember string string
  | NotMember string string
  | NoDecisions string
  | NoSuchDecision string
  | DecisionSettled string DecisionStatus
  | DecisionExpired string
  | HandlerThrew string

definition defaultTeamConfig :: TeamConfig where
  "defaultTeamConfig = \<lparr>tf_maxMembers = 10, tf_autoDisband = True, tf_idleTimeout = 3600000,
     tf_leaderElection = LE_manual, tf_consensusThreshold = 1 / 2, tf_messageRetention = 86400000\<rparr>"

definition or_else :: "'a option \<Rightarrow> 'a \<Rightarrow> 'a" where
  "or_else x d = (case x of Some v \<Rightarrow> v | None \<Rightarrow> d)"

definition teamConfig :: "PartialTeamConfig option \<Rightarrow> TeamConfig" where
  "teamConfig config =
     (case config of
        None \<Rightarrow> defaultTeamConfig
      | Some p \<Rightarrow>
          \<lparr>tf_maxMembers = or_else (pf_maxMembers p) (tf_maxMembers defaultTeamConfig),
           tf_autoDisband = or_else (pf_autoDisband p) (tf_autoDisband defaultTeamConfig),
           tf_idleTimeout = or_else (pf_idleTimeout p) (tf_idleTimeout defaultTeamConfig),
           tf_leaderElection = or_else (pf_leaderElection p) (tf_leaderElection defaultTeamConfig),
           tf_consensusThreshold = or_else (pf_consensusThreshold p) (tf_consensusThreshold defaultTeamConfig),
           tf_messageRetention = or_else (pf_messageRetention p) (tf_messageRetention defaultTeamConfig)\<rparr>)"

definition no_handlers :: TeamEventHandler where
  "no_handlers = \<lparr>th_onMemberJoined = None, th_onMemberLeft = None, th_onLeaderChanged = None,
     th_onDecisionMade = None, th_onTeamDisbanded = None\<rparr>"

definition new_team :: team_state where
  "new_team = \<lparr>ct_teams = [], ct_members = [], ct_decisions = [], ct_events = [], ct_config = [],
     ct_handler = no_handlers, ct_calls = []\<rparr>"

fun team_role_text :: "TeamRole \<Rightarrow> string" where
  "team_role_text TR_leader = ''leader''"
| "team_role_text TR_member = ''member''"
| "team_role_text TR_specialist = ''specialist''"
| "team_role_text TR_observer = ''observer''"

subsection \<open>Events and handlers\<close>

definition emitEvent :: "int \<Rightarrow> string \<Rightarrow> string \<Rightarrow> TeamEventType \<Rightarrow> js_record \<Rightarrow> team_state \<Rightarrow> team_state" where
  "emitEvent now rnd teamId ty data s =
     (let event = \<lparr>ev_id = gen_id ''event'' now rnd, ev_teamId = teamId, ev_type = ty, ev_data = data,
                   ev_timestamp = now\<rparr>;
          retention = (case jget (ct_config s) teamId of Some c \<Rightarrow> tf_messageRetention c | None \<Rightarrow> 86400000);
          cutoff = now - retention
      in s\<lparr>ct_events := filter (\<lambda>e. ev_timestamp e > cutoff) (ct_events s @ [event])\<rparr>)"

definition getEvents :: "team_state \<Rightarrow> string \<Rightarrow> int option \<Rightarrow> TeamEvent list" where
  "getEvents s teamId since =
     (let events = filter (\<lambda>e. ev_teamId e = teamId) (ct_events s)
      in case since of
           Some t \<Rightarrow> if t \<noteq> 0 then filter (\<lambda>e. ev_timestamp e \<ge> t) events else events
         | None \<Rightarrow> events)"

text \<open>\<open>if (this.handler.h) this.handler.h(...)\<close>, for the handler the call is addressed to.\<close>

fun handler_result :: "TeamEventHandler \<Rightarrow> handler_call \<Rightarrow> string option option" where
  "handler_result h (MemberJoined k m) = map_option (\<lambda>f. f k m) (th_onMemberJoined h)"
| "handler_result h (MemberLeft k a) = map_option (\<lambda>f. f k a) (th_onMemberLeft h)"
| "handler_result h (LeaderChanged k a old) = map_option (\<lambda>f. f k a old) (th_onLeaderChanged h)"
| "handler_result h (DecisionMade k d) = map_option (\<lambda>f. f k d) (th_onDecisionMade h)"
| "handler_result h (TeamDisbanded k why) = map_option (\<lambda>f. f k why) (th_onTeamDisbanded h)"

definition notify :: "handler_call \<Rightarrow> team_state \<Rightarrow> team_state \<times> (collab_error + unit)" where
  "notify c s =
     (case handler_result (ct_handler s) c of
        None \<Rightarrow> (s, Inr ())
      | Some None \<Rightarrow> (s\<lparr>ct_calls := ct_calls s @ [c]\<rparr>, Inr ())
      | Some (Some e) \<Rightarrow> (s\<lparr>ct_calls := ct_calls s @ [c]\<rparr>, Inl (HandlerThrew e)))"

text \<open>\<open>{ ...this.handler, ...handler }\<close>\<close>

definition setEventHandler :: "TeamEventHandler \<Rightarrow> team_state \<Rightarrow> team_state" where
  "setEventHandler handler s =
     (let old = ct_handler s
      in s\<lparr>ct_handler :=
        \<lparr>th_onMemberJoined = (case th_onMemberJoined handler of None \<Rightarrow> th_onMemberJoined old | f \<Rightarrow> f),
         th_onMemberLeft = (case th_onMemberLeft handler of None \<Rightarrow> th_onMemberLeft old | f \<Rightarrow> f),
         th_onLeaderChanged = (case th_onLeaderChanged handler of None \<Rightarrow> th_onLeaderChanged old | f \<Rightarrow> f),
         th_onDecisionMade = (case th_onDecisionMade handler of None \<Rightarrow> th_onDecisionMade old | f \<Rightarrow> f),
         th_onTeamDisbanded = (case th_onTeamDisbanded handler of None \<Rightarrow> th_onTeamDisbanded old | f \<Rightarrow> f)\<rparr>\<rparr>)"

subsection \<open>Teams and members\<close>

definition createTeam ::
    "int \<Rightarrow> string \<Rightarrow> string \<Rightarrow> string \<Rightarrow> CollaborationMode \<Rightarrow> PartialTeamConfig option \<Rightarrow> team_state
     \<Rightarrow> team_state \<times> TeamInfo" where
  "createTeam now rnd rnd' name mode config s =
     (let teamId = gen_id ''team'' now rnd;
          team = \<lparr>tm_id = teamId, tm_name = name, tm_mode = mode, tm_leaderId = None, tm_members = [],
                  tm_createdAt = now, tm_metadata = None\<rparr>;
          s = s\<lparr>ct_teams := jset (ct_teams s) teamId team,
                ct_members := jset (ct_members s) teamId [],
                ct_decisions := jset (ct_decisions s) teamId [],
                ct_config := jset (ct_config s) teamId (teamConfig config)\<rparr>
      in (emitEvent now rnd' teamId EV_team_created
            [(''name'', JStr name), (''mode'', JStr (mode_text mode))] s, team))"

definition deleteTeam ::
    "int \<Rightarrow> string \<Rightarrow> string \<Rightarrow> team_state \<Rightarrow> team_state \<times> (collab_error + unit)" where
  "deleteTeam now rnd teamId s =
     (case jget (ct_teams s) teamId of
        None \<Rightarrow> (s, Inl (NoSuchTeam teamId))
      | Some team \<Rightarrow>
          and_then
            (notify (TeamDisbanded teamId ''deleted'')
               (emitEvent now rnd teamId EV_team_disbanded [(''reason'', JStr ''deleted'')] s))
            (\<lambda>_ s. (s\<lparr>ct_teams := jdel (ct_teams s) teamId,
                       ct_members := jdel (ct_members s) teamId,
                       ct_decisions := jdel (ct_decisions s) teamId,
                       ct_config := jdel (ct_config s) teamId\<rparr>, Inr ())))"

definition getTeam :: "team_state \<Rightarrow> string \<Rightarrow> TeamInfo option" where
  "getTeam s teamId = jget (ct_teams s) teamId"

text \<open>The status of the filter is not read.\<close>

definition listTeams :: "team_state \<Rightarrow> (TeamStatus option \<times> CollaborationMode option) option \<Rightarrow> TeamInfo list" where
  "listTeams s flt =
     (let teams = jvals (ct_teams s)
      in case flt of Some (_, Some m) \<Rightarrow> filter (\<lambda>t. tm_mode t = m) teams | _ \<Rightarrow> teams)"

definition addMember ::
    "int \<Rightarrow> string \<Rightarrow> string \<Rightarrow> string \<Rightarrow> TeamRole \<Rightarrow> string list \<Rightarrow> team_state
     \<Rightarrow> team_state \<times> (collab_error + TeamMember)" where
  "addMember now rnd teamId agentId role capabilities s =
     (case jget (ct_teams s) teamId of
        None \<Rightarrow> (s, Inl (NoSuchTeam teamId))
      | Some team \<Rightarrow>
          (case jget (ct_members s) teamId of
             None \<Rightarrow> (s, Inl (NoMembersMap teamId))
           | Some teamMembers \<Rightarrow>
               if int (length teamMembers) \<ge>
                  (case jget (ct_config s) teamId of Some c \<Rightarrow> tf_maxMembers c | None \<Rightarrow> 10)
               then (s, Inl (TeamFull teamId))
               else if jhas teamMembers agentId then (s, Inl (AlreadyMember agentId teamId))
               else
                 (let member = \<lparr>mb_agentId = agentId, mb_role = role, mb_capabilities = capabilities,
                                mb_joinedAt = now, mb_lastActive = now, mb_status = MS_online,
                                mb_metadata = None\<rparr>;
                      s = s\<lparr>ct_members := jset (ct_members s) teamId (jset teamMembers agentId member),
                            ct_teams := jset (ct_teams s) teamId
                              (team\<lparr>tm_members := tm_members team @ [agentId]\<rparr>)\<rparr>;
                      s = emitEvent now rnd teamId EV_member_joined
                            [(''agentId'', JStr agentId), (''role'', JStr (team_role_text role)),
                             (''capabilities'', JArr (map JStr capabilities))] s
                  in and_then (notify (MemberJoined teamId member) s) (\<lambda>_ s. (s, Inr member)))))"

definition getMembers :: "team_state \<Rightarrow> string \<Rightarrow> TeamMember list" where
  "getMembers s teamId = (case jget (ct_members s) teamId of None \<Rightarrow> [] | Some ms \<Rightarrow> jvals ms)"

definition getMember :: "team_state \<Rightarrow> string \<Rightarrow> string \<Rightarrow> TeamMember option" where
  "getMember s teamId agentId =
     (case jget (ct_members s) teamId of None \<Rightarrow> None | Some ms \<Rightarrow> jget ms agentId)"

text \<open>\<open>if (oldLeaderId) { ... oldLeader.role = "member" }\<close>: the empty string is falsy.\<close>

definition demote :: "string option \<Rightarrow> (string, TeamMember) jsmap \<Rightarrow> (string, TeamMember) jsmap" where
  "demote oldLeaderId ms =
     (case oldLeaderId of
        Some old \<Rightarrow> if old \<noteq> [] then jmodify ms old (\<lambda>m. m\<lparr>mb_role := TR_member\<rparr>) else ms
      | None \<Rightarrow> ms)"

definition setLeader ::
    "int \<Rightarrow> string \<Rightarrow> string \<Rightarrow> string \<Rightarrow> team_state \<Rightarrow> team_state \<times> (collab_error + unit)" where
  "setLeader now rnd teamId agentId s =
     (case jget (ct_teams s) teamId of
        None \<Rightarrow> (s, Inl (NoSuchTeam teamId))
      | Some team \<Rightarrow>
          (case jget (ct_members s) teamId of
             None \<Rightarrow> (s, Inl (NotMember agentId teamId))
           | Some teamMembers \<Rightarrow>
               if \<not> jhas teamMembers agentId then (s, Inl (NotMember agentId teamId))
               else
                 (let oldLeaderId = tm_leaderId team;
                      ms = demote oldLeaderId
                             (jmodify teamMembers agentId (\<lambda>m. m\<lparr>mb_role := TR_leader\<rparr>));
                      s = s\<lparr>ct_teams := jset (ct_teams s) teamId (team\<lparr>tm_leaderId := Some agentId\<rparr>),
                            ct_members := jset (ct_members s) teamId ms\<rparr>;
                      s = emitEvent now rnd teamId EV_leader_changed
                            [(''newLeader'', JStr agentId),
                             (''oldLeader'', (case oldLeaderId of Some a \<Rightarrow> JStr a | None \<Rightarrow> JUndef))] s
                  in notify (LeaderChanged teamId agentId oldLeaderId) s)))"

definition getLeader :: "team_state \<Rightarrow> string \<Rightarrow> string option" where
  "getLeader s teamId = (case jget (ct_teams s) teamId of Some t \<Rightarrow> tm_leaderId t | None \<Rightarrow> None)"

text \<open>\<open>if (wasLeader) ...\<close> of \<open>removeMember\<close>, for the team record without the member.\<close>

definition replaceLeader ::
    "int \<Rightarrow> string \<Rightarrow> string \<Rightarrow> TeamInfo \<Rightarrow> team_state \<Rightarrow> team_state \<times> (collab_error + unit)" where
  "replaceLeader now rnd teamId team s =
     (case (map_option tf_leaderElection (jget (ct_config s) teamId), tm_members team) of
        (Some LE_auto, newLeader # _) \<Rightarrow> setLeader now rnd teamId newLeader s
      | _ \<Rightarrow> (s\<lparr>ct_teams := jset (ct_teams s) teamId (team\<lparr>tm_leaderId := None\<rparr>)\<rparr>, Inr ()))"

definition removeMember ::
    "int \<Rightarrow> string \<times> string \<times> string \<Rightarrow> string \<Rightarrow> string \<Rightarrow> team_state
     \<Rightarrow> team_state \<times> (collab_error + unit)" where
  "removeMember now rnds teamId agentId s =
     (case jget (ct_teams s) teamId of
        None \<Rightarrow> (s, Inl (NoSuchTeam teamId))
      | Some team \<Rightarrow>
          (case jget (ct_members s) teamId of
             None \<Rightarrow> (s, Inl (NotMember agentId teamId))
           | Some teamMembers \<Rightarrow>
               if \<not> jhas teamMembers agentId then (s, Inl (NotMember agentId teamId))
               else
                 (let wasLeader = (tm_leaderId team = Some agentId);
                      team = team\<lparr>tm_members := filter (\<lambda>a. a \<noteq> agentId) (tm_members team)\<rparr>;
                      s = s\<lparr>ct_members := jset (ct_members s) teamId (jdel teamMembers agentId),
                            ct_teams := jset (ct_teams s) teamId team\<rparr>;
                      s = emitEvent now (fst rnds) teamId EV_member_left
                            [(''agentId'', JStr agentId), (''wasLeader'', JBool wasLeader)] s
                  in and_then (notify (MemberLeft teamId agentId) s) (\<lambda>_ s.
                     and_then (if wasLeader then replaceLeader now (fst (snd rnds)) teamId team s
                               else (s, Inr ())) (\<lambda>_ s.
                     if (case jget (ct_config s) teamId of Some c \<Rightarrow> tf_autoDisband c | None \<Rightarrow> False)
                        \<and> tm_members team = []
                     then deleteTeam now (snd (snd rnds)) teamId s
                     else (s, Inr ()))))))"

subsection \<open>Decisions\<close>

definition put_decision :: "string \<Rightarrow> TeamDecision \<Rightarrow> team_state \<Rightarrow> team_state" where
  "put_decision teamId decision s =
     s\<lparr>ct_decisions := jmodify (ct_decisions s) teamId (\<lambda>ds. jset ds (dc_id decision) decision)\<rparr>"

definition proposeDecision ::
    "int \<Rightarrow> string \<Rightarrow> string \<Rightarrow> string \<Rightarrow> string \<Rightarrow> int \<Rightarrow> team_state
     \<Rightarrow> team_state \<times> (collab_error + TeamDecision)" where
  "proposeDecision now rnd teamId proposal proposer expiresIn s =
     (case jget (ct_teams s) teamId of
        None \<Rightarrow> (s, Inl (NoSuchTeam teamId))
      | Some team \<Rightarrow>
          if \<not> (case jget (ct_members s) teamId of None \<Rightarrow> False | Some ms \<Rightarrow> jhas ms proposer)
          then (s, Inl (NotMember proposer teamId))
          else
            (let decision = \<lparr>dc_id = gen_id ''decision'' now rnd, dc_teamId = teamId,
                   dc_proposal = proposal, dc_proposer = proposer, dc_votes = [],
                   dc_status = DS_pending, dc_createdAt = now, dc_expiresAt = now + expiresIn,
                   dc_result = None\<rparr>
             in (put_decision teamId decision s, Inr decision)))"

text \<open>A quotient of two numbers of votes against a finite bound: with no members the quotient is
  \<open>Infinity\<close>, or \<open>NaN\<close> for no votes, and every comparison with \<open>NaN\<close> is false.\<close>

definition ratio_ge :: "nat \<Rightarrow> nat \<Rightarrow> rat \<Rightarrow> bool" where
  "ratio_ge votes n b = (if n = 0 then votes > 0 else of_nat votes / of_nat n \<ge> b)"

definition ratio_gt :: "nat \<Rightarrow> nat \<Rightarrow> rat \<Rightarrow> bool" where
  "ratio_gt votes n b = (if n = 0 then votes > 0 else of_nat votes / of_nat n > b)"

definition votesFor :: "TeamDecision \<Rightarrow> nat" where
  "votesFor d = length (filter (\<lambda>v. v) (jvals (dc_votes d)))"

definition votesAgainst :: "TeamDecision \<Rightarrow> nat" where
  "votesAgainst d = length (filter (\<lambda>v. \<not> v) (jvals (dc_votes d)))"

definition settle :: "rat \<Rightarrow> nat \<Rightarrow> TeamDecision \<Rightarrow> TeamDecision" where
  "settle threshold totalMembers d =
     (if ratio_ge (votesFor d) totalMembers threshold
      then d\<lparr>dc_status := DS_approved, dc_result := Some True\<rparr>
      else if ratio_gt (votesAgainst d) totalMembers (1 - threshold)
      then d\<lparr>dc_status := DS_rejected, dc_result := Some False\<rparr>
      else d)"

definition vote ::
    "int \<Rightarrow> string \<Rightarrow> string \<Rightarrow> string \<Rightarrow> string \<Rightarrow> bool \<Rightarrow> team_state
     \<Rightarrow> team_state \<times> (collab_error + TeamDecision)" where
  "vote now rnd teamId decisionId agentId choice s =
     (case jget (ct_teams s) teamId of
        None \<Rightarrow> (s, Inl (NoSuchTeam teamId))
      | Some team \<Rightarrow>
          if \<not> (case jget (ct_members s) teamId of None \<Rightarrow> False | Some ms \<Rightarrow> jhas ms agentId)
          then (s, Inl (NotMember agentId teamId))
          else
            (case jget (ct_decisions s) teamId of
               None \<Rightarrow> (s, Inl (NoDecisions teamId))
             | Some teamDecisions \<Rightarrow>
                 (case jget teamDecisions decisionId of
                    None \<Rightarrow> (s, Inl (NoSuchDecision decisionId))
                  | Some decision \<Rightarrow>
                      if dc_status decision \<noteq> DS_pending
                      then (s, Inl (DecisionSettled decisionId (dc_status decision)))
                      else if now > dc_expiresAt decision
                      then (put_decision teamId (decision\<lparr>dc_status := DS_expired\<rparr>) s,
                            Inl (DecisionExpired decisionId))
                      else
                        (let threshold = (case jget (ct_config s) teamId of
                               Some c \<Rightarrow> tf_consensusThreshold c | None \<Rightarrow> 1 / 2);
                             decision = settle threshold (length (tm_members team))
                               (decision\<lparr>dc_votes := jset (dc_votes decision) agentId choice\<rparr>);
                             s = put_decision teamId decision s;
                             s = (case dc_status decision of
                                    DS_approved \<Rightarrow> emitEvent now rnd teamId EV_decision_made
                                      [(''decisionId'', JStr decisionId), (''result'', JBool True)] s
                                  | DS_rejected \<Rightarrow> emitEvent now rnd teamId EV_decision_made
                                      [(''decisionId'', JStr decisionId), (''result'', JBool False)] s
                                  | _ \<Rightarrow> s)
                         in if dc_status decision \<noteq> DS_pending
                            then and_then (notify (DecisionMade teamId decision) s) (\<lambda>_ s. (s, Inr decision))
                            else (s, Inr decision)))))"

definition getDecision :: "team_state \<Rightarrow> string \<Rightarrow> string \<Rightarrow> TeamDecision option" where
  "getDecision s teamId decisionId =
     (case jget (ct_decisions s) teamId of None \<Rightarrow> None | Some ds \<Rightarrow> jget ds decisionId)"

definition expire :: "int \<Rightarrow> TeamDecision \<Rightarrow> TeamDecision" where
  "expire now d =
     (if dc_status d = DS_pending \<and> now > dc_expiresAt d then d\<lparr>dc_status := DS_expired\<rparr> else d)"

definition getPendingDecisions :: "int \<Rightarrow> string \<Rightarrow> team_state \<Rightarrow> team_state \<times> TeamDecision list" where
  "getPendingDecisions now teamId s =
     (case jget (ct_decisions s) teamId of
        None \<Rightarrow> (s, [])
      | Some ds \<Rightarrow>
          (s\<lparr>ct_decisions := jset (ct_decisions s) teamId (jmap (\<lambda>_. expire now) ds)\<rparr>,
           filter (\<lambda>d. dc_status d = DS_pending \<and> \<not> now > dc_expiresAt d) (jvals ds)))"

subsection \<open>Member status and statistics\<close>

definition updateMemberStatus ::
    "int \<Rightarrow> string \<Rightarrow> string \<Rightarrow> MemberStatus \<Rightarrow> team_state \<Rightarrow> team_state \<times> (collab_error + unit)" where
  "updateMemberStatus now teamId agentId status s =
     (case jget (ct_members s) teamId of
        None \<Rightarrow> (s, Inl (NoSuchTeam teamId))
      | Some ms \<Rightarrow>
          (case jget ms agentId of
             None \<Rightarrow> (s, Inl (NotMember agentId teamId))
           | Some m \<Rightarrow>
               (s\<lparr>ct_members := jset (ct_members s) teamId
                    (jset ms agentId (m\<lparr>mb_status := status, mb_lastActive := now\<rparr>))\<rparr>, Inr ())))"

definition team_heartbeat ::
    "int \<Rightarrow> string \<Rightarrow> string \<Rightarrow> team_state \<Rightarrow> team_state \<times> (collab_error + unit)" where
  "team_heartbeat now teamId agentId s = updateMemberStatus now teamId agentId MS_online s"

definition getTeamStats :: "int \<Rightarrow> team_state \<Rightarrow> string \<Rightarrow> collab_error + TeamStats" where
  "getTeamStats now s teamId =
     (case jget (ct_teams s) teamId of
        None \<Rightarrow> Inl (NoSuchTeam teamId)
      | Some team \<Rightarrow>
          (let members = (case jget (ct_members s) teamId of Some ms \<Rightarrow> jvals ms | None \<Rightarrow> []);
               decisions = (case jget (ct_decisions s) teamId of Some ds \<Rightarrow> jvals ds | None \<Rightarrow> [])
           in Inr \<lparr>st_memberCount = length members,
                st_activeMembers = length (filter (\<lambda>m. mb_status m \<noteq> MS_offline) members),
                st_onlineMembers = length (filter (\<lambda>m. mb_status m = MS_online) members),
                st_pendingDecisions = length (filter (\<lambda>d. dc_status d = DS_pending) decisions),
                st_totalDecisions = length decisions,
                st_approvedDecisions = length (filter (\<lambda>d. dc_status d = DS_approved) decisions),
                st_rejectedDecisions = length (filter (\<lambda>d. dc_status d = DS_rejected) decisions),
                st_uptime = now - tm_createdAt team,
                st_lastActivity = fold max (map mb_lastActive members) 0\<rparr>))"

subsection \<open>Operations as one type\<close>

datatype team_op =
    CT_create int string string string CollaborationMode "PartialTeamConfig option"
  | CT_delete int string string
  | CT_add int string string string TeamRole "string list"
  | CT_remove int "string \<times> string \<times> string" string string
  | CT_lead int string string string
  | CT_propose int string string string string int
  | CT_vote int string string string string bool
  | CT_pending int string
  | CT_status int string string MemberStatus
  | CT_handler TeamEventHandler

fun ct_apply :: "team_op \<Rightarrow> team_state \<Rightarrow> team_state" where
  "ct_apply (CT_create now r r' name mode config) s = fst (createTeam now r r' name mode config s)"
| "ct_apply (CT_delete now r k) s = fst (deleteTeam now r k s)"
| "ct_apply (CT_add now r k a role caps) s = fst (addMember now r k a role caps s)"
| "ct_apply (CT_remove now rs k a) s = fst (removeMember now rs k a s)"
| "ct_apply (CT_lead now r k a) s = fst (setLeader now r k a s)"
| "ct_apply (CT_propose now r k proposal a expiresIn) s = fst (proposeDecision now r k proposal a expiresIn s)"
| "ct_apply (CT_vote now r k d a b) s = fst (vote now r k d a b s)"
| "ct_apply (CT_pending now k) s = fst (getPendingDecisions now k s)"
| "ct_apply (CT_status now k a st) s = fst (updateMemberStatus now k a st s)"
| "ct_apply (CT_handler h) s = setEventHandler h s"

subsection \<open>What holds of a team\<close>

text \<open>The four entries of a team: its record, members, decisions and configuration.\<close>

type_synonym team_slot =
  "TeamInfo option \<times> (string, TeamMember) jsmap option \<times> (string, TeamDecision) jsmap option
   \<times> TeamConfig option"

definition slot :: "team_state \<Rightarrow> string \<Rightarrow> team_slot" where
  "slot s k = (jget (ct_teams s) k, jget (ct_members s) k, jget (ct_decisions s) k, jget (ct_config s) k)"

definition decision_ok :: "string \<Rightarrow> string \<Rightarrow> TeamDecision \<Rightarrow> bool" where
  "decision_ok k i d \<longleftrightarrow> dc_id d = i \<and> dc_teamId d = k \<and> jwf (dc_votes d) \<and>
     dc_result d = (case dc_status d of DS_approved \<Rightarrow> Some True | DS_rejected \<Rightarrow> Some False | _ \<Rightarrow> None)"

definition collab_ok ::
    "string \<Rightarrow> TeamInfo \<Rightarrow> (string, TeamMember) jsmap \<Rightarrow> (string, TeamDecision) jsmap \<Rightarrow> TeamConfig \<Rightarrow> bool" where
  "collab_ok k t ms ds c \<longleftrightarrow>
     tm_id t = k \<and> jwf ms \<and> tm_members t = jkeys ms \<and>
     (\<forall>a m. jget ms a = Some m \<longrightarrow> mb_agentId m = a) \<and>
     int (length ms) \<le> max 0 (tf_maxMembers c) \<and>
     jwf ds \<and> (\<forall>i d. jget ds i = Some d \<longrightarrow> decision_ok k i d)"

definition slot_wf :: "string \<Rightarrow> team_slot \<Rightarrow> bool" where
  "slot_wf k x \<longleftrightarrow>
     (case x of
        (None, None, None, None) \<Rightarrow> True
      | (Some t, Some ms, Some ds, Some c) \<Rightarrow> collab_ok k t ms ds c
      | _ \<Rightarrow> False)"

definition ct_wf :: "team_state \<Rightarrow> bool" where
  "ct_wf s \<longleftrightarrow> (\<forall>k. slot_wf k (slot s k))"

definition led :: "team_state \<Rightarrow> string \<Rightarrow> bool" where
  "led s k \<longleftrightarrow> (\<forall>t a. jget (ct_teams s) k = Some t \<longrightarrow> tm_leaderId t = Some a \<longrightarrow> a \<in> set (tm_members t))"

definition ct_led :: "team_state \<Rightarrow> bool" where
  "ct_led s \<longleftrightarrow> (\<forall>k. led s k)"

lemma slot_frame [simp]:
  "slot (emitEvent now rnd k ty data s) = slot s"
  "slot (fst (notify c s)) = slot s"
  "slot (setEventHandler h s) = slot s"
  by (auto simp: slot_def fun_eq_iff emitEvent_def notify_def setEventHandler_def Let_def split: option.split)

lemma maps_frame [simp]:
  "ct_teams (emitEvent now rnd k ty data s) = ct_teams s"
  "ct_members (emitEvent now rnd k ty data s) = ct_members s"
  "ct_decisions (emitEvent now rnd k ty data s) = ct_decisions s"
  "ct_config (emitEvent now rnd k ty data s) = ct_config s"
  "ct_handler (emitEvent now rnd k ty data s) = ct_handler s"
  by (simp_all add: emitEvent_def Let_def)

lemma notify_frame:
  assumes "notify c s = (s', r)"
  shows "ct_teams s' = ct_teams s" "ct_members s' = ct_members s" "ct_decisions s' = ct_decisions s"
    "ct_config s' = ct_config s" "ct_handler s' = ct_handler s"
  using assms by (auto simp: notify_def split: option.splits)

lemma led_frame [simp]:
  "led (emitEvent now rnd k ty data s) = led s"
  "led (fst (notify c s)) = led s"
  "led (setEventHandler h s) = led s"
  by (auto simp: led_def fun_eq_iff emitEvent_def notify_def setEventHandler_def Let_def split: option.split)

text \<open>An operation on one team leaves the slots of the others; it is enough to look at its own.\<close>

lemma ct_wf_at: "ct_wf s \<Longrightarrow> (\<And>j. j \<noteq> k \<Longrightarrow> slot s' j = slot s j) \<Longrightarrow> slot_wf k (slot s' k) \<Longrightarrow> ct_wf s'"
  by (metis ct_wf_def)

lemma ct_led_at: "ct_led s \<Longrightarrow> (\<And>j. j \<noteq> k \<Longrightarrow> slot s' j = slot s j) \<Longrightarrow> led s' k \<Longrightarrow> ct_led s'"
  by (metis ct_led_def led_def slot_def fst_conv)

lemma ct_wf_team:
  assumes "ct_wf s" and "jget (ct_teams s) k = Some t"
  obtains ms ds c where "jget (ct_members s) k = Some ms" "jget (ct_decisions s) k = Some ds"
    "jget (ct_config s) k = Some c" "collab_ok k t ms ds c"
proof -
  have "slot_wf k (slot s k)" using assms(1) by (simp add: ct_wf_def)
  with assms(2) that show thesis by (auto simp: slot_wf_def slot_def split: option.splits)
qed

lemma ct_wf_none:
  "ct_wf s \<Longrightarrow> jget (ct_teams s) k = None \<Longrightarrow>
   jget (ct_members s) k = None \<and> jget (ct_decisions s) k = None \<and> jget (ct_config s) k = None"
  by (drule ct_wf_def [THEN iffD1, THEN spec [of _ k]]) (auto simp: slot_wf_def slot_def split: option.splits)

subsection \<open>Every operation works on one team\<close>

fun op_team :: "team_op \<Rightarrow> string option" where
  "op_team (CT_create now r r' name mode config) = Some (gen_id ''team'' now r)"
| "op_team (CT_delete now r k) = Some k"
| "op_team (CT_add now r k a role caps) = Some k"
| "op_team (CT_remove now rs k a) = Some k"
| "op_team (CT_lead now r k a) = Some k"
| "op_team (CT_propose now r k proposal a expiresIn) = Some k"
| "op_team (CT_vote now r k d a b) = Some k"
| "op_team (CT_pending now k) = Some k"
| "op_team (CT_status now k a st) = Some k"
| "op_team (CT_handler h) = None"

named_theorems slot_other \<open>what an operation leaves of the other teams\<close>

lemma slot_other_deleteTeam [slot_other]: "j \<noteq> k \<Longrightarrow> slot (fst (deleteTeam now r k s)) j = slot s j"
  unfolding deleteTeam_def
  by (auto split: option.split intro!: and_then_keeps [where P = "\<lambda>u. slot u j = slot s j"])
     (auto simp: slot_def dest!: notify_frame)

lemma slot_other_setLeader [slot_other]: "j \<noteq> k \<Longrightarrow> slot (fst (setLeader now r k a s)) j = slot s j"
  by (auto simp: setLeader_def Let_def split: option.split) (auto simp: slot_def)

lemma slot_other_replaceLeader [slot_other]: "j \<noteq> k \<Longrightarrow> slot (fst (replaceLeader now r k t s)) j = slot s j"
  by (auto simp: replaceLeader_def slot_other split: option.split LeaderElection.split list.split)
     (auto simp: slot_def)

lemma slot_other_removeMember [slot_other]: "j \<noteq> k \<Longrightarrow> slot (fst (removeMember now rs k a s)) j = slot s j"
  unfolding removeMember_def Let_def
  by (auto split: option.split intro!: and_then_keeps [where P = "\<lambda>u. slot u j = slot s j"] simp: slot_other)
     (auto simp: slot_def dest!: notify_frame)

lemma slot_other_addMember [slot_other]: "j \<noteq> k \<Longrightarrow> slot (fst (addMember now r k a role caps s)) j = slot s j"
  unfolding addMember_def Let_def
  by (auto split: option.split intro!: and_then_keeps [where P = "\<lambda>u. slot u j = slot s j"])
     (auto simp: slot_def)

lemma slot_other_vote [slot_other]: "j \<noteq> k \<Longrightarrow> slot (fst (vote now r k d a b s)) j = slot s j"
  unfolding vote_def Let_def
  by (auto split: option.split DecisionStatus.split intro!: and_then_keeps [where P = "\<lambda>u. slot u j = slot s j"])
     (auto simp: slot_def put_decision_def)

lemma slot_other_op:
  assumes "op_team x \<noteq> Some j"
  shows "slot (ct_apply x s) j = slot s j"
proof (cases x)
  case (CT_create now r r' name mode config)
  with assms show ?thesis by (simp add: createTeam_def Let_def) (simp add: slot_def)
next
  case (CT_propose now r k proposal a expiresIn)
  with assms show ?thesis
    by (auto simp: proposeDecision_def put_decision_def slot_def Let_def split: option.split)
next
  case (CT_pending now k)
  with assms show ?thesis by (auto simp: getPendingDecisions_def slot_def split: option.split)
next
  case (CT_status now k a st)
  with assms show ?thesis by (auto simp: updateMemberStatus_def slot_def split: option.split)
qed (use assms in \<open>auto simp: slot_other\<close>)

subsection \<open>Every operation keeps the slots consistent\<close>

lemma ct_wf_slot: "ct_wf s \<Longrightarrow> slot_wf k (slot s k)"
  by (simp add: ct_wf_def)

lemma slot_wf_Some:
  "slot_wf k (Some t, ms, ds, c) \<longleftrightarrow>
   (\<exists>ms' ds' c'. ms = Some ms' \<and> ds = Some ds' \<and> c = Some c' \<and> collab_ok k t ms' ds' c')"
  by (auto simp: slot_wf_def split: option.split)

lemma slot_wf_None: "slot_wf k (None, ms, ds, c) \<longleftrightarrow> ms = None \<and> ds = None \<and> c = None"
  by (auto simp: slot_wf_def split: option.split)

lemma ct_wf_emit [simp]: "ct_wf (emitEvent now rnd k ty data s) = ct_wf s"
  and ct_wf_notify [simp]: "ct_wf (fst (notify c s)) = ct_wf s"
  and ct_wf_handler [simp]: "ct_wf (setEventHandler h s) = ct_wf s"
  by (simp_all add: ct_wf_def)

lemma ct_wf_deleteTeam [wf_intros]: "ct_wf s \<Longrightarrow> ct_wf (fst (deleteTeam now r k s))"
  unfolding deleteTeam_def
  apply (auto split: option.split intro!: and_then_keeps [where P = ct_wf])
  apply (erule ct_wf_at [where k = k])
   apply (auto simp: slot_def slot_wf_None dest: notify_frame)
  done

text \<open>The members of a consistent team change along with the list of ids.\<close>

lemma collab_ok_add:
  "collab_ok k t ms ds c \<Longrightarrow> \<not> jhas ms a \<Longrightarrow> int (length ms) < tf_maxMembers c \<Longrightarrow> mb_agentId m = a \<Longrightarrow>
   collab_ok k (t\<lparr>tm_members := tm_members t @ [a]\<rparr>) (jset ms a m) ds c"
  by (auto simp: collab_ok_def jkeys_jset map_of_eq_None_iff length_jset)

lemma jkeys_jdel: "jkeys (jdel m k) = filter (\<lambda>j. j \<noteq> k) (jkeys m)"
  by (simp add: AList.delete_eq filter_map o_def case_prod_unfold eq_commute)

lemma collab_ok_remove:
  "collab_ok k t ms ds c \<Longrightarrow>
   collab_ok k (t\<lparr>tm_members := filter (\<lambda>j. j \<noteq> a) (tm_members t)\<rparr>) (jdel ms a) ds c"
  using length_delete_le [of a ms]
  by (auto simp: collab_ok_def jkeys_jdel split: if_splits)

lemma collab_ok_leader [simp]: "collab_ok k (t\<lparr>tm_leaderId := l\<rparr>) = collab_ok k t"
  by (simp add: collab_ok_def fun_eq_iff)

lemma jget_demote: "jget (demote old ms) a = (if old = Some a \<and> a \<noteq> [] then
    map_option (\<lambda>m. m\<lparr>mb_role := TR_member\<rparr>) (jget ms a) else jget ms a)"
  by (auto simp: demote_def split: option.split)

lemma jkeys_demote [simp]: "jkeys (demote old ms) = jkeys ms"
  by (simp add: demote_def split: option.split)

lemma collab_ok_members:
  "collab_ok k t ms ds c \<Longrightarrow> jkeys ms' = jkeys ms \<Longrightarrow>
   (\<And>a m. jget ms' a = Some m \<Longrightarrow> \<exists>m'. jget ms a = Some m' \<and> mb_agentId m = mb_agentId m') \<Longrightarrow>
   collab_ok k t ms' ds c"
  unfolding collab_ok_def jwf_def by (metis length_map)

lemma ct_wf_setLeader [wf_intros]: "ct_wf s \<Longrightarrow> ct_wf (fst (setLeader now r k a s))"
  unfolding setLeader_def Let_def
  apply (auto split: option.split)
  apply (rule ct_wf_at [of s k], assumption)
   apply (simp add: slot_def)
  apply (erule (1) ct_wf_team)
  apply (auto simp: slot_def slot_wf_Some jget_demote elim!: collab_ok_members split: if_splits)
  done

lemma ct_wf_addMember [wf_intros]:
  assumes wf: "ct_wf s"
  shows "ct_wf (fst (addMember now r k a role caps s))"
proof -
  have "ct_wf (s\<lparr>ct_members := jset (ct_members s) k (jset ms a m),
                 ct_teams := jset (ct_teams s) k (t\<lparr>tm_members := tm_members t @ [a]\<rparr>)\<rparr>)"
    if "jget (ct_teams s) k = Some t" "jget (ct_members s) k = Some ms" "\<not> jhas ms a" "mb_agentId m = a"
      "\<not> (case jget (ct_config s) k of None \<Rightarrow> 10 | Some c \<Rightarrow> tf_maxMembers c) \<le> int (length ms)"
    for t ms m
  proof (rule ct_wf_at [OF wf, where k = k])
    show "slot_wf k (slot (s\<lparr>ct_members := jset (ct_members s) k (jset ms a m),
                 ct_teams := jset (ct_teams s) k (t\<lparr>tm_members := tm_members t @ [a]\<rparr>)\<rparr>) k)"
      using that by (auto elim!: ct_wf_team [OF wf] simp: slot_def slot_wf_Some intro!: collab_ok_add)
  qed (simp add: slot_def)
  then show ?thesis
    unfolding addMember_def Let_def
    by (auto simp: wf split: option.split intro!: and_then_keeps [where P = ct_wf])
qed

lemma ct_wf_put_decision [wf_intros]:
  assumes "ct_wf s" and "decision_ok k (dc_id d) d"
  shows "ct_wf (put_decision k d s)"
proof (rule ct_wf_at [OF assms(1), where k = k])
  have "slot_wf k (slot s k)" by (rule ct_wf_slot [OF assms(1)])
  with assms(2) show "slot_wf k (slot (put_decision k d s) k)"
    by (auto simp: slot_wf_def slot_def put_decision_def collab_ok_def split: option.splits)
qed (simp add: slot_def put_decision_def)

lemma decision_ok_settle:
  "decision_ok k i d \<Longrightarrow> dc_status d = DS_pending \<Longrightarrow> decision_ok k i (settle b n d)"
  by (auto simp: decision_ok_def settle_def)

lemma ct_wf_decision:
  "ct_wf s \<Longrightarrow> jget (ct_teams s) k = Some t \<Longrightarrow> jget (ct_decisions s) k = Some ds \<Longrightarrow>
   jget ds i = Some d \<Longrightarrow> decision_ok k i d"
  by (erule (1) ct_wf_team) (auto simp: collab_ok_def)

lemma settle_id [simp]: "dc_id (settle b n d) = dc_id d"
  by (simp add: settle_def)

lemma put_decision_id [simp]: "dc_id (d\<lparr>dc_votes := v\<rparr>) = dc_id d" "dc_id (d\<lparr>dc_status := st\<rparr>) = dc_id d"
  by simp_all

lemma ct_wf_vote [wf_intros]:
  assumes wf: "ct_wf s"
  shows "ct_wf (fst (vote now r k i a b s))"
proof -
  have "ct_wf (put_decision k (settle th n (d\<lparr>dc_votes := jset (dc_votes d) a b\<rparr>)) s)"
    and "ct_wf (put_decision k (d\<lparr>dc_status := DS_expired\<rparr>) s)"
    if "jget (ct_teams s) k = Some t" "jget (ct_decisions s) k = Some ds" "jget ds i = Some d"
      "dc_status d = DS_pending" for t ds d th n
  proof -
    from that(1-3) have "decision_ok k i d" by (rule ct_wf_decision [OF wf])
    with that(4) have "decision_ok k (dc_id d) (d\<lparr>dc_votes := jset (dc_votes d) a b\<rparr>)"
      "decision_ok k (dc_id d) (d\<lparr>dc_status := DS_expired\<rparr>)"
      by (auto simp: decision_ok_def)
    with that(4) show "ct_wf (put_decision k (settle th n (d\<lparr>dc_votes := jset (dc_votes d) a b\<rparr>)) s)"
      "ct_wf (put_decision k (d\<lparr>dc_status := DS_expired\<rparr>) s)"
      by (auto intro!: ct_wf_put_decision wf decision_ok_settle)
  qed
  then show ?thesis
    unfolding vote_def Let_def
    by (auto simp: wf split: option.split DecisionStatus.split intro!: and_then_keeps [where P = ct_wf])
qed

lemma ct_wf_pending [wf_intros]: "ct_wf s \<Longrightarrow> ct_wf (fst (getPendingDecisions now k s))"
  apply (auto simp: getPendingDecisions_def split: option.split)
  apply (frule ct_wf_slot [of s k])
  apply (erule ct_wf_at [where k = k])
   apply (auto simp: slot_def slot_wf_def collab_ok_def decision_ok_def expire_def split: option.splits)
  done

lemma ct_wf_status [wf_intros]: "ct_wf s \<Longrightarrow> ct_wf (fst (updateMemberStatus now k a st s))"
  apply (auto simp: updateMemberStatus_def split: option.split)
  apply (frule ct_wf_slot [of s k])
  apply (erule ct_wf_at [where k = k])
   apply (auto simp: slot_def slot_wf_def split: option.splits elim!: collab_ok_members)
   apply (auto simp: jkeys_jset map_of_eq_None_iff [symmetric] split: if_splits)
  done


lemma ct_wf_replaceLeader [wf_intros]:
  assumes wf: "ct_wf s" and "jget (ct_teams s) k = Some t"
  shows "ct_wf (fst (replaceLeader now r k t s))"
proof -
  have "ct_wf (s\<lparr>ct_teams := jset (ct_teams s) k (t\<lparr>tm_leaderId := None\<rparr>)\<rparr>)"
    using ct_wf_slot [OF wf, of k] assms(2)
    by (intro ct_wf_at [OF wf, where k = k]) (auto simp: slot_def slot_wf_Some)
  then show ?thesis
    by (auto simp: replaceLeader_def split: option.split LeaderElection.split list.split intro!: wf_intros wf)
qed

lemma ct_wf_removeMember [wf_intros]:
  assumes wf: "ct_wf s"
  shows "ct_wf (fst (removeMember now rs k a s))"
proof -
  have "ct_wf (s\<lparr>ct_members := jset (ct_members s) k (jdel ms a),
                 ct_teams := jset (ct_teams s) k (t\<lparr>tm_members := filter (\<lambda>j. j \<noteq> a) (tm_members t)\<rparr>)\<rparr>)"
    if "jget (ct_teams s) k = Some t" "jget (ct_members s) k = Some ms" for t ms
  proof (rule ct_wf_at [OF wf, where k = k])
    show "slot_wf k (slot (s\<lparr>ct_members := jset (ct_members s) k (jdel ms a),
        ct_teams := jset (ct_teams s) k (t\<lparr>tm_members := filter (\<lambda>j. j \<noteq> a) (tm_members t)\<rparr>)\<rparr>) k)"
      using that by (auto elim!: ct_wf_team [OF wf] simp: slot_def slot_wf_Some intro!: collab_ok_remove)
  qed (simp add: slot_def)
  then show ?thesis
    unfolding removeMember_def Let_def
    by (auto simp: wf split: option.split intro!: and_then_keeps [where P = ct_wf] wf_intros
        dest!: notify_frame(1))
qed

lemma ct_wf_createTeam [wf_intros]: "ct_wf s \<Longrightarrow> ct_wf (fst (createTeam now r r' name mode config s))"
  unfolding createTeam_def Let_def
  apply simp
  apply (erule ct_wf_at [where k = "gen_id ''team'' now r"])
   apply (auto simp: slot_def slot_wf_Some collab_ok_def)
  done

lemma ct_wf_propose [wf_intros]: "ct_wf s \<Longrightarrow> ct_wf (fst (proposeDecision now r k p a e s))"
  by (auto simp: proposeDecision_def Let_def decision_ok_def split: option.split intro!: ct_wf_put_decision)

lemma ct_wf_step: "ct_wf s \<Longrightarrow> ct_wf (ct_apply x s)"
  by (cases x) (auto intro: wf_intros)

lemma ct_wf_new [simp]: "ct_wf new_team"
  by (simp add: ct_wf_def new_team_def slot_def slot_wf_None)

interpretation ct_machine: op_machine ct_apply ct_wf
  by unfold_locales (rule ct_wf_step)

subsection \<open>The leader is a member\<close>

text \<open>A handler \<open>onMemberLeft\<close> that throws stops \<open>removeMember\<close> between the removal of the member and
  the choice of a new leader.\<close>

definition returns :: "team_state \<Rightarrow> handler_call \<Rightarrow> bool" where
  "returns s c = (case handler_result (ct_handler s) c of Some (Some e) \<Rightarrow> False | _ \<Rightarrow> True)"

fun left_returns :: "team_state \<Rightarrow> team_op \<Rightarrow> bool" where
  "left_returns s (CT_remove now rs k a) = returns s (MemberLeft k a)"
| "left_returns s _ = True"

definition ct_inv :: "team_state \<Rightarrow> bool" where
  "ct_inv s \<longleftrightarrow> ct_wf s \<and> ct_led s"

lemma notify_returns: "returns s c \<Longrightarrow> \<exists>s'. notify c s = (s', Inr ())"
  by (auto simp: returns_def notify_def split: option.splits)

lemma returns_frame [simp]: "returns (emitEvent now rnd k ty data s) c = returns s c"
  by (simp add: returns_def)

lemma returns_maps [simp]:
  "returns (s\<lparr>ct_teams := ts\<rparr>) c = returns s c" "returns (s\<lparr>ct_members := mss\<rparr>) c = returns s c"
  by (simp_all add: returns_def)

lemma led_deleteTeam: "led s k \<Longrightarrow> led (fst (deleteTeam now r k s)) k"
  unfolding deleteTeam_def
  by (auto split: option.split intro!: and_then_keeps [where P = "\<lambda>u. led u k"]) (simp add: led_def)

lemma member_iff:
  assumes "ct_wf s" and "jget (ct_teams s) k = Some t" and "jget (ct_members s) k = Some ms"
  shows "a \<in> set (tm_members t) \<longleftrightarrow> jhas ms a"
proof -
  from assms have "tm_members t = jkeys ms"
    by (auto elim: ct_wf_team simp: collab_ok_def)
  then show ?thesis by (simp only: jhas_keys)
qed

lemma led_setLeader:
  assumes wf: "ct_wf s" and "led s k"
  shows "led (fst (setLeader now r k a s)) k"
  using assms(2) member_iff [OF wf, of k]
  by (auto simp: setLeader_def Let_def split: option.split) (auto simp: led_def)

lemma setLeader_member:
  assumes wf: "ct_wf s" and t: "jget (ct_teams s) k = Some t" and a: "a \<in> set (tm_members t)"
  shows "led (fst (setLeader now r k a s)) k"
proof -
  from t obtain ms where ms: "jget (ct_members s) k = Some ms" by (rule ct_wf_team [OF wf])
  with a member_iff [OF wf t] have "jhas ms a" by blast
  with t ms a show ?thesis by (simp add: setLeader_def Let_def led_def)
qed

lemma led_replaceLeader:
  assumes "ct_wf s" and "jget (ct_teams s) k = Some t"
  shows "led (fst (replaceLeader now r k t s)) k"
  unfolding replaceLeader_def
  by (auto split: option.split LeaderElection.split list.split intro!: setLeader_member assms)
     (simp_all add: led_def)

lemma led_removeMember:
  assumes wf: "ct_wf s" and led: "led s k" and ret: "returns s (MemberLeft k a)"
  shows "led (fst (removeMember now rs k a s)) k"
proof -
  let ?s2 = "\<lambda>t ms. s\<lparr>ct_members := jset (ct_members s) k (jdel ms a),
      ct_teams := jset (ct_teams s) k (t\<lparr>tm_members := filter (\<lambda>j. j \<noteq> a) (tm_members t)\<rparr>)\<rparr>"
  have wf2: "ct_wf (?s2 t ms)" if "jget (ct_teams s) k = Some t" "jget (ct_members s) k = Some ms" for t ms
    by (rule ct_wf_at [OF wf, where k = k])
       (use that in \<open>auto elim!: ct_wf_team [OF wf] simp: slot_def slot_wf_Some intro!: collab_ok_remove\<close>)
  show ?thesis
  proof (cases "jget (ct_teams s) k")
    case (Some t)
    show ?thesis
    proof (cases "jget (ct_members s) k")
      case ms: (Some ms)
      let ?t = "t\<lparr>tm_members := filter (\<lambda>j. j \<noteq> a) (tm_members t)\<rparr>"
      let ?e = "emitEvent now (fst rs) k EV_member_left
        [(''agentId'', JStr a), (''wasLeader'', JBool (tm_leaderId t = Some a))] (?s2 t ms)"
      obtain s3 where s3: "notify (MemberLeft k a) ?e = (s3, Inr ())"
        using notify_returns [of ?e "MemberLeft k a"] ret by auto
      have wf3: "ct_wf s3" using wf2 [OF Some ms] ct_wf_notify [of "MemberLeft k a" ?e] s3 by simp
      have t3: "jget (ct_teams s3) k = Some ?t" using notify_frame(1) [OF s3] by simp
      have led3: "tm_leaderId t \<noteq> Some a \<Longrightarrow> led s3 k"
        using led t3 Some by (auto simp: led_def)
      have rest: "led (fst (and_then (if tm_leaderId t = Some a then replaceLeader now r k ?t s3 else (s3, Inr ()))
          (\<lambda>_ s. if c s then deleteTeam now r' k s else (s, Inr ())))) k" for r r' c
      proof (rule and_then_keeps [where P = "\<lambda>u. led u k"])
        show "led (fst (if tm_leaderId t = Some a then replaceLeader now r k ?t s3 else (s3, Inr ()))) k"
          using led_replaceLeader [OF wf3 t3] led3 by simp
      qed (simp add: led_deleteTeam)
      show ?thesis
        using led Some ms s3 rest unfolding removeMember_def Let_def by simp
    qed (use led Some in \<open>simp add: removeMember_def\<close>)
  qed (use led in \<open>simp add: removeMember_def\<close>)
qed

lemma led_teams: "led s k \<Longrightarrow> jget (ct_teams s') k = jget (ct_teams s) k \<Longrightarrow> led s' k"
  by (simp add: led_def)

lemma led_addMember: "led s k \<Longrightarrow> led (fst (addMember now r k a role caps s)) k"
  unfolding addMember_def Let_def
  by (auto split: option.split intro!: and_then_keeps [where P = "\<lambda>u. led u k"]) (auto simp: led_def)

lemma led_vote: "led s k \<Longrightarrow> led (fst (vote now r k i a b s)) k"
  unfolding vote_def Let_def
  by (auto split: option.split DecisionStatus.split intro!: and_then_keeps [where P = "\<lambda>u. led u k"])
     (auto simp: led_def put_decision_def)

lemma ct_inv_step: "left_returns s x \<Longrightarrow> ct_inv s \<Longrightarrow> ct_inv (ct_apply x s)"
proof -
  assume ok: "left_returns s x" and inv: "ct_inv s"
  have wf: "ct_wf s" and led: "led s k" for k using inv by (simp_all add: ct_inv_def ct_led_def)
  have "led (ct_apply x s) k" for k
  proof (cases "op_team x = Some k")
    case True
    then show ?thesis
    proof (cases x)
      case (CT_create now r r' name mode config)
      with True show ?thesis by (simp add: createTeam_def Let_def) (simp add: led_def)
    next
      case (CT_remove now rs k' a)
      with True ok led_removeMember [OF wf led, of k a now rs] show ?thesis by simp
    qed (use led [of k] wf in \<open>auto intro!: led_deleteTeam led_setLeader led_addMember led_vote
        simp: proposeDecision_def Let_def getPendingDecisions_def updateMemberStatus_def put_decision_def
        split: option.split elim: led_teams\<close>)
  next
    case False
    from slot_other_op [OF this, of s] led [of k] show ?thesis
      by (auto intro: led_teams simp: slot_def)
  qed
  with wf show "ct_inv (ct_apply x s)" by (auto simp: ct_inv_def ct_led_def intro: ct_wf_step)
qed

interpretation ct_guarded: guarded_machine left_returns ct_apply ct_inv
  by unfold_locales (rule ct_inv_step)

lemma ct_inv_new [simp]: "ct_inv new_team"
  by (auto simp: ct_inv_def ct_led_def led_def) (simp add: new_team_def)

subsection \<open>Decisions stay as they were settled\<close>

fun proposes :: "string \<Rightarrow> string \<Rightarrow> team_op \<Rightarrow> bool" where
  "proposes k i (CT_propose now r k' proposal a expiresIn) = (k' = k \<and> gen_id ''decision'' now r = i)"
| "proposes k i _ = False"

definition keeps_decision :: "string \<Rightarrow> string \<Rightarrow> TeamDecision \<Rightarrow> team_state \<Rightarrow> bool" where
  "keeps_decision k i d s \<longleftrightarrow> getDecision s k i = None \<or> getDecision s k i = Some d"

lemma keeps_decision_maps:
  "ct_decisions s' = ct_decisions s \<Longrightarrow> keeps_decision k i d s' = keeps_decision k i d s"
  by (simp add: keeps_decision_def getDecision_def)

lemma keeps_decision_frame [simp]:
  "keeps_decision k i d (emitEvent now rnd k' ty data s) = keeps_decision k i d s"
  "keeps_decision k i d (fst (notify c s)) = keeps_decision k i d s"
  "keeps_decision k i d (setEventHandler h s) = keeps_decision k i d s"
  by (intro keeps_decision_maps; auto simp: notify_def setEventHandler_def Let_def split: option.split)+

lemma keeps_decision_delete: "keeps_decision k i d s \<Longrightarrow> keeps_decision k i d (fst (deleteTeam now r k' s))"
  unfolding deleteTeam_def
  by (auto split: option.split intro!: and_then_keeps [where P = "keeps_decision k i d"])
     (auto simp: keeps_decision_def getDecision_def)

lemma keeps_decision_setLeader: "keeps_decision k i d s \<Longrightarrow> keeps_decision k i d (fst (setLeader now r k' a s))"
  by (auto simp: setLeader_def Let_def split: option.split)
     (auto simp: keeps_decision_def getDecision_def)

lemma keeps_decision_replaceLeader:
  "keeps_decision k i d s \<Longrightarrow> keeps_decision k i d (fst (replaceLeader now r k' t s))"
  by (auto simp: replaceLeader_def keeps_decision_setLeader split: option.split LeaderElection.split list.split)
     (auto simp: keeps_decision_def getDecision_def)

lemma keeps_decision_remove: "keeps_decision k i d s \<Longrightarrow> keeps_decision k i d (fst (removeMember now rs k' a s))"
  unfolding removeMember_def Let_def
  by (auto split: option.split intro!: and_then_keeps [where P = "keeps_decision k i d"]
       keeps_decision_delete keeps_decision_replaceLeader)
     (auto simp: keeps_decision_def getDecision_def)

lemma keeps_decision_add: "keeps_decision k i d s \<Longrightarrow> keeps_decision k i d (fst (addMember now r k' a role caps s))"
  unfolding addMember_def Let_def
  by (auto split: option.split intro!: and_then_keeps [where P = "keeps_decision k i d"])
     (auto simp: keeps_decision_def getDecision_def)

lemma keeps_decision_put:
  assumes "keeps_decision k i d s" and "k' = k \<Longrightarrow> dc_id e \<noteq> i"
  shows "keeps_decision k i d (put_decision k' e s)"
  using assms by (auto simp: keeps_decision_def getDecision_def put_decision_def split: option.splits)

lemma keeps_decision_vote:
  assumes wf: "ct_wf s" and keep: "keeps_decision k i d s" and d: "dc_status d \<noteq> DS_pending"
  shows "keeps_decision k i d (fst (vote now r k' j a b s))"
proof -
  have "keeps_decision k i d (put_decision k' e' s)"
    if "jget (ct_teams s) k' = Some t" "jget (ct_decisions s) k' = Some ds" "jget ds j = Some e"
      "dc_status e = DS_pending" "dc_id e' = dc_id e" for t ds e e'
  proof (rule keeps_decision_put [OF keep])
    have "dc_id e = j" using ct_wf_decision [OF wf that(1-3)] by (simp add: decision_ok_def)
    moreover have "k' = k \<Longrightarrow> j \<noteq> i"
      using keep d that(2-4) by (auto simp: keeps_decision_def getDecision_def)
    ultimately show "k' = k \<Longrightarrow> dc_id e' \<noteq> i" using that(5) by simp
  qed
  with keep show ?thesis
    unfolding vote_def Let_def
    by (auto split: option.split DecisionStatus.split intro!: and_then_keeps [where P = "keeps_decision k i d"])
qed

lemma getDecision_pending:
  "getDecision (fst (getPendingDecisions now k' s)) k i =
   (if k = k' then map_option (expire now) (getDecision s k i) else getDecision s k i)"
  by (simp add: getPendingDecisions_def getDecision_def split: option.split)

lemma keeps_decision_step:
  assumes "ct_wf s" and "keeps_decision k i d s" and "dc_status d \<noteq> DS_pending" and "\<not> proposes k i x"
  shows "keeps_decision k i d (ct_apply x s)"
proof (cases x)
  case (CT_create now r r' name mode config)
  with assms(2) show ?thesis
    by (simp add: createTeam_def Let_def) (auto simp: keeps_decision_def getDecision_def)
next
  case (CT_propose now r k' proposal a expiresIn)
  with assms show ?thesis
    by (auto simp: proposeDecision_def Let_def split: option.split intro!: keeps_decision_put)
next
  case (CT_pending now k')
  have "expire now d = d" using assms(3) by (simp add: expire_def)
  with assms(2) CT_pending show ?thesis by (auto simp: keeps_decision_def getDecision_pending)
next
  case (CT_status now k' a st)
  with assms show ?thesis
    by (auto simp: updateMemberStatus_def keeps_decision_def getDecision_def split: option.splits)
qed (use assms in \<open>auto intro: keeps_decision_delete keeps_decision_setLeader keeps_decision_remove
      keeps_decision_add keeps_decision_vote\<close>)

interpretation final_machine: guarded_machine "\<lambda>_ x. \<not> proposes k i x" ct_apply
    "\<lambda>s. ct_wf s \<and> keeps_decision k i d s \<and> dc_status d \<noteq> DS_pending"
  by unfold_locales (auto intro: ct_wf_step keeps_decision_step)

lemma legal_run_all: "legal_run (\<lambda>_ x. ok x) f s xs \<longleftrightarrow> list_all ok xs"
  by (induction xs arbitrary: s) auto

subsection \<open>Counting votes\<close>

lemma votes_total: "votesFor d + votesAgainst d = length (dc_votes d)"
  unfolding votesFor_def votesAgainst_def
  using sum_length_filter_compl [of "\<lambda>v. v" "jvals (dc_votes d)"] by simp

lemma voters_cover:
  assumes "distinct ms" and "\<forall>m\<in>set ms. jhas vs m"
  shows "length ms \<le> length vs"
proof -
  have "set ms \<subseteq> set (jkeys vs)"
    using assms(2) by (simp only: jhas_keys) blast
  then have "card (set ms) \<le> card (set (jkeys vs))" by (intro card_mono) auto
  also have "\<dots> \<le> length (jkeys vs)" by (rule card_length)
  finally show ?thesis using assms(1) by (simp add: distinct_card)
qed

lemma settle_decides:
  assumes "b \<le> 1" and "0 < n" and "n \<le> length (dc_votes d)"
  shows "dc_status (settle b n d) =
    (if of_nat (votesFor d) / of_nat n \<ge> b then DS_approved else DS_rejected)"
proof -
  have "of_nat n \<le> (of_nat (votesFor d + votesAgainst d) :: rat)"
    using assms(3) votes_total [of d] by (simp only: of_nat_le_iff)
  then have "1 \<le> (of_nat (votesFor d) / of_nat n + of_nat (votesAgainst d) / of_nat n :: rat)"
    using assms(2) by (simp add: add_divide_distrib [symmetric])
  then show ?thesis using assms(2) by (auto simp: settle_def ratio_ge_def ratio_gt_def)
qed

subsection \<open>Properties\<close>

text \<open>A team of two with a decision put to the vote.\<close>

definition demo_team_ops :: "team_op list" where
  "demo_team_ops =
     [CT_create 1 ''r'' ''e'' ''red'' Mode_teammate None, CT_add 2 ''e'' ''team-1-r'' ''a'' TR_specialist [],
      CT_add 3 ''e'' ''team-1-r'' ''b'' TR_member [], CT_lead 4 ''e'' ''team-1-r'' ''a'',
      CT_propose 5 ''d'' ''team-1-r'' ''ship it'' ''a'' 100,
      CT_propose 5 ''f'' ''team-1-r'' ''ship it today'' ''b'' 100,
      CT_vote 6 ''e'' ''team-1-r'' ''decision-5-d'' ''a'' True,
      CT_vote 7 ''e'' ''team-1-r'' ''decision-5-f'' ''b'' False]"

definition demo_team :: team_state where
  "demo_team = fold ct_apply demo_team_ops new_team"

lemma getDecision_frame [simp]:
  "getDecision (emitEvent now rnd k' ty data s) k i = getDecision s k i"
  "getDecision (fst (notify c s)) k i = getDecision s k i"
  by (simp_all add: getDecision_def notify_def split: option.split)

lemma member_ids: "collab_ok k t ms ds c \<Longrightarrow> map mb_agentId (jvals ms) = jkeys ms"
proof -
  assume ok: "collab_ok k t ms ds c"
  then have "mb_agentId m = a" if "(a, m) \<in> set ms" for a m
    using that by (auto simp: collab_ok_def jget_mem)
  then show ?thesis by (auto simp: case_prod_unfold)
qed

text \<open>The roster of a team. After any sequence of operations in which no \<open>onMemberLeft\<close> handler
  throws, a team is stored under its own id, its record lists exactly the ids of its members, once
  each and in the order they joined, its leader is one of them, and they are at most the configured
  maximum. A team that does not exist has no members.\<close>

lemma team_roster_consistent:
  assumes "legal_run left_returns ct_apply new_team ops"
  shows "let s = fold ct_apply ops new_team in
    (case getTeam s k of
       None \<Rightarrow> getMembers s k = [] \<and> getLeader s k = None
     | Some t \<Rightarrow>
         tm_id t = k \<and> distinct (tm_members t) \<and> tm_members t = map mb_agentId (getMembers s k) \<and>
         (case getLeader s k of None \<Rightarrow> True | Some a \<Rightarrow> a \<in> set (tm_members t)) \<and>
         (case jget (ct_config s) k of
            None \<Rightarrow> False
          | Some c \<Rightarrow> int (length (tm_members t)) \<le> max 0 (tf_maxMembers c)))"
proof -
  let ?s = "fold ct_apply ops new_team"
  have "ct_inv ?s" using assms by (rule ct_guarded.inv_legal_run) simp
  then have wf: "ct_wf ?s" and led: "led ?s k" by (simp_all add: ct_inv_def ct_led_def)
  show ?thesis
  proof (cases "jget (ct_teams ?s) k")
    case None
    with ct_wf_none [OF wf] show ?thesis by (simp add: Let_def getTeam_def getMembers_def getLeader_def)
  next
    case (Some t)
    obtain ms ds c where sl: "jget (ct_members ?s) k = Some ms" "jget (ct_config ?s) k = Some c"
      and ok: "collab_ok k t ms ds c"
      by (rule ct_wf_team [OF wf Some])
    have ids: "map mb_agentId (getMembers ?s k) = tm_members t"
      using member_ids [OF ok] ok sl(1) by (simp add: getMembers_def collab_ok_def)
    have len: "length (tm_members t) = length ms" using ok by (simp add: collab_ok_def)
    have "distinct (tm_members t)" "tm_id t = k" "int (length (tm_members t)) \<le> max 0 (tf_maxMembers c)"
      using ok len by (simp_all add: collab_ok_def jwf_def)
    moreover have "case getLeader ?s k of None \<Rightarrow> True | Some a \<Rightarrow> a \<in> set (tm_members t)"
      using led Some by (simp add: getLeader_def led_def split: option.split)
    ultimately show ?thesis
      using ids Some sl(2) by (simp add: Let_def getTeam_def)
  qed
qed

theorem team_roster_consistent_witness:
  "map_option tm_members (getTeam demo_team ''team-1-r'') = Some [''a'', ''b''] \<and>
   (case getTeam demo_team ''team-1-r'' of None \<Rightarrow> False | Some t \<Rightarrow> distinct (tm_members t))"
proof -
  have "legal_run left_returns ct_apply new_team demo_team_ops" by code_simp
  from team_roster_consistent [OF this, of "''team-1-r''"]
  have "case getTeam demo_team ''team-1-r'' of None \<Rightarrow> True | Some t \<Rightarrow> distinct (tm_members t)"
    unfolding demo_team_def Let_def by (cases "getTeam (fold ct_apply demo_team_ops new_team) ''team-1-r''") auto
  moreover have "map_option tm_members (getTeam demo_team ''team-1-r'') = Some [''a'', ''b'']" by code_simp
  ultimately show ?thesis by (auto split: option.splits)
qed





subsection \<open>Corner cases\<close>

text \<open>Naming the present leader again as leader: its role is set to \<open>leader\<close> and then back to
  \<open>member\<close>, because it is also the old leader.\<close>

lemma setLeader_again_demotes:
  assumes "jget (ct_teams s) k = Some t" and "jget (ct_members s) k = Some ms" and "jget ms a = Some m"
    and "tm_leaderId t = Some a" and "a \<noteq> []"
  shows "getLeader (fst (setLeader now r k a s)) k = Some a \<and>
    map_option mb_role (getMember (fst (setLeader now r k a s)) k a) = Some TR_member"
proof -
  have "ct_teams (fst (notify c u)) = ct_teams u" "ct_members (fst (notify c u)) = ct_members u" for c u
    by (simp_all add: notify_def split: option.split)
  with assms show ?thesis
    by (simp add: setLeader_def Let_def getLeader_def getMember_def jget_demote)
qed

text \<open>The retention of the team that emits an event is applied to the events of every team.\<close>

lemma retention_drops_other_teams:
  "getEvents (fst (createTeam 100 ''s'' ''f'' ''blue'' Mode_swarm
     (Some \<lparr>pf_maxMembers = None, pf_autoDisband = None, pf_idleTimeout = None, pf_leaderElection = None,
            pf_consensusThreshold = None, pf_messageRetention = Some 10\<rparr>) demo_team)) ''team-1-r'' None = []
   \<and> getEvents demo_team ''team-1-r'' None \<noteq> []"
  by (intro conjI) code_simp+

text \<open>A handler that throws while a leader leaves: the leader of the team is no member of it.\<close>

lemma throwing_handler_orphans_leader:
  "let s = fst (removeMember 9 (''x'', ''y'', ''z'') ''team-1-r'' ''a''
       (setEventHandler (no_handlers\<lparr>th_onMemberLeft := Some (\<lambda>_ _. Some ''boom'')\<rparr>) demo_team))
   in getLeader s ''team-1-r'' = Some ''a'' \<and> getMember s ''team-1-r'' ''a'' = None"
  by code_simp

end
