(* ===== verification/ScheduleTypes.thy ===== *)
theory ScheduleTypes
  imports Prelude
begin

text \<open>
  The data of the scheduling subsystem (\<open>src/src/scheduler/types.ts\<close>): the four kinds of schedule,
  executions, statistics and options. The fields common to all schedules are one record, and the
  tagged union \<open>Schedule\<close> is that record with the variant's own fields. The time at which something
  runs next is \<open>null\<close>, a timestamp, or \<open>NaN\<close>, which the interval arithmetic yields for an interval
  of 0.
\<close>

datatype ScheduleStatus = SS_pending | SS_running | SS_completed | SS_failed | SS_cancelled

record ScheduleTask =
  sk_prompt :: string
  sk_agentRole :: "string option"
  sk_agentId :: "string option"
  sk_timeout :: "int option"
  sk_metadata :: "js_record option"

text \<open>The fields of the variants: \<open>scheduledTime\<close>; \<open>cronExpression\<close>, \<open>timezone\<close> and \<open>lastRun\<close>;
  \<open>intervalMs\<close>, \<open>startAt\<close> and \<open>endAt\<close>; \<open>idleThresholdMs\<close> and \<open>minIdleAgents\<close>.\<close>

datatype ScheduleVariant =
    OnceSchedule int
  | CronSchedule string "string option" "int option"
  | IntervalSchedule int "int option" "int option"
  | IdleSchedule int int

record Schedule =
  sd_id :: string
  sd_enabled :: bool
  sd_task :: ScheduleTask
  sd_createdAt :: int
  sd_variant :: ScheduleVariant

record ScheduleExecution =
  se_id :: string
  se_scheduleId :: string
  se_scheduledTime :: "int option"
  se_startedAt :: "int option"
  se_completedAt :: "int option"
  se_status :: ScheduleStatus
  se_output :: "jsval option"
  se_error :: "string option"

record SchedulerStats =
  ss_totalSchedules :: nat
  ss_enabledSchedules :: nat
  ss_totalExecutions :: nat
  ss_successfulExecutions :: nat
  ss_failedExecutions :: nat
  ss_averageExecutionTime :: rat

record SchedulerOptions =
  so_maxConcurrentExecutions :: int
  so_executionTimeout :: int
  so_retryFailedExecutions :: bool
  so_maxRetryCount :: int
  so_persistenceEnabled :: bool
  so_persistencePath :: "string option"

text \<open>The name of the variant, the field \<open>type\<close> of the code.\<close>

fun schedule_type :: "ScheduleVariant \<Rightarrow> string" where
  "schedule_type (OnceSchedule _) = ''once''"
| "schedule_type (CronSchedule _ _ _) = ''cron''"
| "schedule_type (IntervalSchedule _ _ _) = ''interval''"
| "schedule_type (IdleSchedule _ _) = ''idle''"

subsection \<open>Handlers and their time limit\<close>

text \<open>What a handler does: it never settles, or it settles after a delay in milliseconds, throwing or
  returning a value. \<open>executeWithTimeout\<close> starts the timer before the handler, so the timer also wins
  when both are due at the same time; a timer's delay is at least 1.\<close>

type_synonym handler_behaviour = "(int \<times> (string + jsval)) option"

definition executeWithTimeout :: "string \<Rightarrow> int \<Rightarrow> handler_behaviour \<Rightarrow> string + jsval" where
  "executeWithTimeout message executionTimeout handler =
     (case handler of
        Some (delay, outcome) \<Rightarrow> if delay < max 1 executionTimeout then outcome else Inl message
      | None \<Rightarrow> Inl message)"

text \<open>The handler the code makes for a schedule: it returns at once.\<close>

definition resolveHandler :: "ScheduleTask \<Rightarrow> handler_behaviour" where
  "resolveHandler task =
     Some (0, Inr (if sk_prompt task \<noteq> [] then JObj [(''prompt'', JStr (sk_prompt task)), (''executed'', JBool True)]
                   else JObj [(''executed'', JBool True)]))"

lemma resolveHandler_returns: "executeWithTimeout m timeout (resolveHandler task) =
   Inr (if sk_prompt task \<noteq> [] then JObj [(''prompt'', JStr (sk_prompt task)), (''executed'', JBool True)]
        else JObj [(''executed'', JBool True)])"
  by (simp add: executeWithTimeout_def resolveHandler_def)

end
