(* ===== verification/TimedScheduler.thy ===== *)
theory TimedScheduler
  imports ScheduleTypes
begin

text \<open>
  The timed scheduler (\<open>src/src/scheduler/task-scheduler.ts\<close>, class \<open>TaskScheduler\<close>): once, interval,
  cron and idle schedules, started by a tick every second and settled when their handler settles.

  The code holds task objects in a map and in the closures of running executions, and scheduling an
  id again replaces the object in the map while an execution of the old one goes on. Task objects
  therefore live in a store (\<open>tk_objs\<close>, addressed by their index), the map leads from ids to addresses,
  and a running execution (\<open>pending_run\<close>) holds the address of its task and the place of its execution
  record. An asynchronous execution is two steps, \<open>beginTask\<close> up to the \<open>await\<close> and \<open>finishTask\<close>
  after it, which other operations may separate. Every step reads one value of the clock; the local
  time zone is a whole number of minutes from UTC.
\<close>

datatype next_run = NoRun | RunAt int | RunNaN

datatype task_status = TK_active | TK_paused | TK_cancelled

record ScheduledTask =
  tk_id :: string
  tk_schedule :: Schedule
  tk_handler :: handler_behaviour
  tk_nextRun :: next_run
  tk_lastRun :: "int option"
  tk_executions :: "ScheduleExecution list"
  tk_status :: task_status
  tk_createdAt :: int

datatype event_type = E_scheduled | E_started | E_completed | E_failed | E_cancelled

record SchedulerEvent =
  sv_type :: event_type
  sv_taskId :: string
  sv_timestamp :: int
  sv_data :: "js_record option"

text \<open>An execution waiting for its handler: the task's address, the index of its execution record, and
  what \<open>executeWithTimeout\<close> will settle with.\<close>

record pending_run =
  pr_obj :: nat
  pr_exec :: nat
  pr_outcome :: "string + jsval"

text \<open>Event handlers are told apart by numbers; \<open>tk_calls\<close> records the calls made to them. Their errors
  are ignored by the code.\<close>

record timed_scheduler =
  tk_tasks :: "(string, nat) jsmap"
  tk_objs :: "ScheduledTask list"
  tk_options :: SchedulerOptions
  tk_timer :: bool
  tk_running :: bool
  tk_runningTasks :: "string list"
  tk_stats :: SchedulerStats
  tk_eventHandlers :: "nat list"
  tk_persistencePath :: "string option"
  tk_totalExecutionTime :: int
  tk_runs :: "pending_run list"
  tk_calls :: "(nat \<times> SchedulerEvent) list"

datatype scheduler_error = ScheduleNotFound string | NotPaused string | CallStackExceeded

definition new_stats :: SchedulerStats where
  "new_stats = \<lparr>ss_totalSchedules = 0, ss_enabledSchedules = 0, ss_totalExecutions = 0,
     ss_successfulExecutions = 0, ss_failedExecutions = 0, ss_averageExecutionTime = 0\<rparr>"

definition default_options :: SchedulerOptions where
  "default_options = \<lparr>so_maxConcurrentExecutions = 10, so_executionTimeout = 300000,
     so_retryFailedExecutions = False, so_maxRetryCount = 2, so_persistenceEnabled = False,
     so_persistencePath = None\<rparr>"

definition new_timed_scheduler :: "SchedulerOptions \<Rightarrow> timed_scheduler" where
  "new_timed_scheduler opts = \<lparr>tk_tasks = [], tk_objs = [], tk_options = opts, tk_timer = False,
     tk_running = False, tk_runningTasks = [], tk_stats = new_stats, tk_eventHandlers = [],
     tk_persistencePath = None, tk_totalExecutionTime = 0, tk_runs = [], tk_calls = []\<rparr>"

subsection \<open>Events and statistics\<close>

definition ts_emitEvent :: "SchedulerEvent \<Rightarrow> timed_scheduler \<Rightarrow> timed_scheduler" where
  "ts_emitEvent event s = s\<lparr>tk_calls := tk_calls s @ map (\<lambda>h. (h, event)) (tk_eventHandlers s)\<rparr>"

definition ts_on :: "nat \<Rightarrow> timed_scheduler \<Rightarrow> timed_scheduler" where
  "ts_on h s = s\<lparr>tk_eventHandlers := tk_eventHandlers s @ [h]\<rparr>"

definition ts_off :: "nat \<Rightarrow> timed_scheduler \<Rightarrow> timed_scheduler" where
  "ts_off h s = s\<lparr>tk_eventHandlers := remove_first h (tk_eventHandlers s)\<rparr>"

definition ts_getAllTasks :: "timed_scheduler \<Rightarrow> ScheduledTask list" where
  "ts_getAllTasks s = map (\<lambda>i. tk_objs s ! i) (jvals (tk_tasks s))"

definition ts_getTask :: "timed_scheduler \<Rightarrow> string \<Rightarrow> ScheduledTask option" where
  "ts_getTask s k = map_option (\<lambda>i. tk_objs s ! i) (jget (tk_tasks s) k)"

definition getActiveTasks :: "timed_scheduler \<Rightarrow> ScheduledTask list" where
  "getActiveTasks s = filter (\<lambda>t. tk_status t = TK_active \<and> tk_nextRun t \<noteq> NoRun) (ts_getAllTasks s)"

definition updateStats :: "timed_scheduler \<Rightarrow> timed_scheduler" where
  "updateStats s = s\<lparr>tk_stats := (tk_stats s)
     \<lparr>ss_totalSchedules := length (tk_tasks s),
      ss_enabledSchedules := length (filter (\<lambda>t. tk_status t = TK_active \<and> sd_enabled (tk_schedule t))
        (ts_getAllTasks s))\<rparr>\<rparr>"

definition getStats :: "timed_scheduler \<Rightarrow> SchedulerStats" where
  "getStats s = tk_stats s"

subsection \<open>The next run of a task\<close>

text \<open>Five fields of any content give the next full minute: the fields are not read.\<close>

definition timed_parseCron :: "int \<Rightarrow> string \<Rightarrow> int option" where
  "timed_parseCron now expression =
     (if length (split_ws expression) \<noteq> 5 then None else Some ((now div 60000 + 1) * 60000))"

definition calculateNextCronRun :: "int \<Rightarrow> string \<Rightarrow> next_run" where
  "calculateNextCronRun now expression =
     (case timed_parseCron now expression of Some n \<Rightarrow> RunAt n | None \<Rightarrow> NoRun)"

text \<open>The first \<open>switch\<close>. Dividing by an interval of 0 gives \<open>NaN\<close> or an infinity, and \<open>NaN\<close> when that is
  multiplied by 0.\<close>

fun assignNextRun :: "int \<Rightarrow> ScheduleVariant \<Rightarrow> next_run" where
  "assignNextRun now (OnceSchedule t) = RunAt t"
| "assignNextRun now (IntervalSchedule intervalMs startAt endAt) =
     (if intervalMs = 0 then RunNaN
      else (let startAt = (case startAt of Some t \<Rightarrow> t | None \<Rightarrow> now);
                elapsed = now - startAt;
                intervals = elapsed div intervalMs
            in RunAt (startAt + (intervals + 1) * intervalMs)))"
| "assignNextRun now (CronSchedule expression _ _) = calculateNextCronRun now expression"
| "assignNextRun now (IdleSchedule _ _) = NoRun"

text \<open>\<open>task.nextRun && task.nextRun < Date.now()\<close>: 0 and \<open>NaN\<close> are falsy.\<close>

fun in_past :: "int \<Rightarrow> next_run \<Rightarrow> bool" where
  "in_past now (RunAt n) = (n \<noteq> 0 \<and> n < now)"
| "in_past now NoRun = False"
| "in_past now RunNaN = False"

text \<open>The method as written. It calls itself for an interval schedule whose next run is in the past;
  \<open>None\<close> is a recursion without end.\<close>

partial_function (option) next_run_rec :: "int \<Rightarrow> ScheduledTask \<Rightarrow> ScheduledTask option" where
  "next_run_rec now task =
     (let task = task\<lparr>tk_nextRun := assignNextRun now (sd_variant (tk_schedule task))\<rparr>
      in if in_past now (tk_nextRun task)
         then (case sd_variant (tk_schedule task) of
                 OnceSchedule _ \<Rightarrow> Some (task\<lparr>tk_nextRun := NoRun, tk_status := TK_cancelled\<rparr>)
               | IntervalSchedule _ _ _ \<Rightarrow> next_run_rec now task
               | _ \<Rightarrow> Some task)
         else Some task)"

text \<open>The same as a total function: the task after the call, and whether the call returned. The
  recursion computes the same time again, so it returns only if it is not entered; the call stack
  then overflows and the last assignment stays.\<close>

definition calculateNextRun :: "int \<Rightarrow> ScheduledTask \<Rightarrow> ScheduledTask \<times> bool" where
  "calculateNextRun now task =
     (let task = task\<lparr>tk_nextRun := assignNextRun now (sd_variant (tk_schedule task))\<rparr>
      in if in_past now (tk_nextRun task)
         then (case sd_variant (tk_schedule task) of
                 OnceSchedule _ \<Rightarrow> (task\<lparr>tk_nextRun := NoRun, tk_status := TK_cancelled\<rparr>, True)
               | IntervalSchedule _ _ _ \<Rightarrow> (task, False)
               | _ \<Rightarrow> (task, True))
         else (task, True))"

subsection \<open>Operations on schedules\<close>

definition createTask :: "int \<Rightarrow> Schedule \<Rightarrow> ScheduledTask" where
  "createTask now schedule = \<lparr>tk_id = sd_id schedule, tk_schedule = schedule,
     tk_handler = resolveHandler (sd_task schedule), tk_nextRun = NoRun, tk_lastRun = None,
     tk_executions = [], tk_status = (if sd_enabled schedule then TK_active else TK_paused),
     tk_createdAt = now\<rparr>"

text \<open>Assigning to the fields of the object at an address.\<close>

definition upd_obj :: "nat \<Rightarrow> (ScheduledTask \<Rightarrow> ScheduledTask) \<Rightarrow> timed_scheduler \<Rightarrow> timed_scheduler" where
  "upd_obj i f s = s\<lparr>tk_objs := (tk_objs s)[i := f (tk_objs s ! i)]\<rparr>"

definition set_next_run :: "int \<Rightarrow> nat \<Rightarrow> timed_scheduler \<Rightarrow> timed_scheduler \<times> (scheduler_error + unit)" where
  "set_next_run now i s =
     (case calculateNextRun now (tk_objs s ! i) of
        (task, returned) \<Rightarrow>
          (upd_obj i (\<lambda>_. task) s, if returned then Inr () else Inl CallStackExceeded))"

definition ts_schedule ::
    "int \<Rightarrow> Schedule \<Rightarrow> timed_scheduler \<Rightarrow> timed_scheduler \<times> (scheduler_error + string)" where
  "ts_schedule now schedule s =
     (let task = createTask now schedule;
          i = length (tk_objs s);
          s = updateStats (s\<lparr>tk_objs := tk_objs s @ [task], tk_tasks := jset (tk_tasks s) (tk_id task) i\<rparr>)
      in and_then (if sd_enabled schedule then set_next_run now i s else (s, Inr ())) (\<lambda>_ s.
         (ts_emitEvent \<lparr>sv_type = E_scheduled, sv_taskId = tk_id task, sv_timestamp = now,
            sv_data = Some [(''scheduleType'', JStr (schedule_type (sd_variant schedule)))]\<rparr> s,
          Inr (tk_id task))))"

definition ts_cancel ::
    "int \<Rightarrow> string \<Rightarrow> timed_scheduler \<Rightarrow> timed_scheduler \<times> (scheduler_error + unit)" where
  "ts_cancel now k s =
     (case jget (tk_tasks s) k of
        None \<Rightarrow> (s, Inl (ScheduleNotFound k))
      | Some i \<Rightarrow>
          (updateStats (ts_emitEvent
             \<lparr>sv_type = E_cancelled, sv_taskId = k, sv_timestamp = now, sv_data = None\<rparr>
             (upd_obj i (\<lambda>t. t\<lparr>tk_status := TK_cancelled, tk_nextRun := NoRun\<rparr>) s)), Inr ()))"

definition ts_pause :: "string \<Rightarrow> timed_scheduler \<Rightarrow> timed_scheduler \<times> (scheduler_error + unit)" where
  "ts_pause k s =
     (case jget (tk_tasks s) k of
        None \<Rightarrow> (s, Inl (ScheduleNotFound k))
      | Some i \<Rightarrow>
          (updateStats (upd_obj i (\<lambda>t. t\<lparr>tk_status := TK_paused, tk_nextRun := NoRun\<rparr>) s), Inr ()))"

definition ts_resume ::
    "int \<Rightarrow> string \<Rightarrow> timed_scheduler \<Rightarrow> timed_scheduler \<times> (scheduler_error + unit)" where
  "ts_resume now k s =
     (case jget (tk_tasks s) k of
        None \<Rightarrow> (s, Inl (ScheduleNotFound k))
      | Some i \<Rightarrow>
          if tk_status (tk_objs s ! i) \<noteq> TK_paused then (s, Inl (NotPaused k))
          else and_then (set_next_run now i (upd_obj i (\<lambda>t. t\<lparr>tk_status := TK_active\<rparr>) s))
                 (\<lambda>_ s. (updateStats s, Inr ())))"

definition getExecution :: "timed_scheduler \<Rightarrow> string \<Rightarrow> ScheduleExecution option" where
  "getExecution s executionId =
     find (\<lambda>e. se_id e = executionId) (concat (map tk_executions (ts_getAllTasks s)))"

definition ts_start :: "timed_scheduler \<Rightarrow> timed_scheduler" where
  "ts_start s = (if tk_running s then s else s\<lparr>tk_running := True, tk_timer := True\<rparr>)"

definition ts_stop :: "timed_scheduler \<Rightarrow> timed_scheduler" where
  "ts_stop s = (if \<not> tk_running s then s else s\<lparr>tk_running := False, tk_timer := False\<rparr>)"

definition setPersistencePath :: "string \<Rightarrow> timed_scheduler \<Rightarrow> timed_scheduler" where
  "setPersistencePath path s = s\<lparr>tk_persistencePath := Some path,
     tk_options := (tk_options s)\<lparr>so_persistenceEnabled := True, so_persistencePath := Some path\<rparr>\<rparr>"

definition checkIdleTasks :: "int \<Rightarrow> int \<Rightarrow> timed_scheduler \<Rightarrow> timed_scheduler" where
  "checkIdleTasks now idleAgents s =
     fold (\<lambda>i s. case sd_variant (tk_schedule (tk_objs s ! i)) of
                   IdleSchedule _ minIdle \<Rightarrow>
                     if tk_status (tk_objs s ! i) = TK_active \<and> idleAgents \<ge> minIdle
                     then upd_obj i (\<lambda>t. t\<lparr>tk_nextRun := RunAt now\<rparr>) s else s
                 | _ \<Rightarrow> s)
       (jvals (tk_tasks s)) s"

subsection \<open>Executions\<close>

fun next_time :: "next_run \<Rightarrow> int option" where
  "next_time (RunAt n) = Some n"
| "next_time NoRun = None"
| "next_time RunNaN = None"

text \<open>\<open>executeTask\<close> up to the \<open>await\<close>.\<close>

definition beginTask :: "int \<Rightarrow> string \<Rightarrow> nat \<Rightarrow> timed_scheduler \<Rightarrow> timed_scheduler" where
  "beginTask now rnd i s =
     (let task = tk_objs s ! i;
          execution = \<lparr>se_id = gen_id ''exec'' now rnd, se_scheduleId = tk_id task,
            se_scheduledTime = next_time (tk_nextRun task), se_startedAt = Some now,
            se_completedAt = None, se_status = SS_running, se_output = None, se_error = None\<rparr>;
          s = s\<lparr>tk_runningTasks := tk_runningTasks s @ [tk_id task]\<rparr>;
          s = upd_obj i (\<lambda>t. t\<lparr>tk_executions := tk_executions t @ [execution], tk_lastRun := Some now\<rparr>) s;
          s = ts_emitEvent \<lparr>sv_type = E_started, sv_taskId = tk_id task, sv_timestamp = now,
                sv_data = Some [(''executionId'', JStr (se_id execution))]\<rparr> s
      in s\<lparr>tk_runs := tk_runs s @ [\<lparr>pr_obj = i, pr_exec = length (tk_executions task),
             pr_outcome = executeWithTimeout ''Task execution timeout''
               (so_executionTimeout (tk_options s)) (tk_handler task)\<rparr>]\<rparr>)"

text \<open>The condition of the tick's \<open>continue\<close>, negated. \<open>NaN > now\<close> is false, so \<open>NaN\<close> is due.\<close>

fun due :: "int \<Rightarrow> next_run \<Rightarrow> bool" where
  "due now NoRun = False"
| "due now (RunAt n) = (n \<le> now)"
| "due now RunNaN = True"

definition ready :: "int \<Rightarrow> timed_scheduler \<Rightarrow> nat \<Rightarrow> bool" where
  "ready now s i \<longleftrightarrow>
     (let task = tk_objs s ! i
      in tk_status task = TK_active \<and> due now (tk_nextRun task) \<and> tk_id task \<notin> set (tk_runningTasks s))"

fun tick_loop :: "int \<Rightarrow> (string \<Rightarrow> string) \<Rightarrow> nat list \<Rightarrow> timed_scheduler \<Rightarrow> timed_scheduler" where
  "tick_loop now rnd [] s = s"
| "tick_loop now rnd (i # is) s =
     (if \<not> ready now s i then tick_loop now rnd is s
      else if int (length (tk_runningTasks s)) \<ge> so_maxConcurrentExecutions (tk_options s) then s
      else tick_loop now rnd is (beginTask now (rnd (tk_id (tk_objs s ! i))) i s))"

definition tick :: "int \<Rightarrow> (string \<Rightarrow> string) \<Rightarrow> timed_scheduler \<Rightarrow> timed_scheduler" where
  "tick now rnd s = tick_loop now rnd (jvals (tk_tasks s)) s"

definition upd_exec ::
    "nat \<Rightarrow> nat \<Rightarrow> (ScheduleExecution \<Rightarrow> ScheduleExecution) \<Rightarrow> timed_scheduler \<Rightarrow> timed_scheduler" where
  "upd_exec i j f = upd_obj i (\<lambda>t. t\<lparr>tk_executions := (tk_executions t)[j := f (tk_executions t ! j)]\<rparr>)"

text \<open>The body of \<open>try\<close> after the \<open>await\<close>, and the body of \<open>catch\<close>.\<close>

definition run_succeeded :: "int \<Rightarrow> nat \<Rightarrow> nat \<Rightarrow> jsval \<Rightarrow> timed_scheduler \<Rightarrow> timed_scheduler" where
  "run_succeeded now i j result s =
     (let task = tk_objs s ! i;
          execution = tk_executions task ! j;
          s = upd_exec i j (\<lambda>e. e\<lparr>se_completedAt := Some now, se_status := SS_completed,
                                  se_output := Some result\<rparr>) s;
          successes = Suc (ss_successfulExecutions (tk_stats s));
          total = tk_totalExecutionTime s +
            (now - (case se_startedAt execution of Some t \<Rightarrow> t | None \<Rightarrow> 0));
          s = s\<lparr>tk_totalExecutionTime := total,
                tk_stats := (tk_stats s)\<lparr>ss_successfulExecutions := successes,
                  ss_averageExecutionTime := of_int total / of_nat successes\<rparr>\<rparr>
      in ts_emitEvent \<lparr>sv_type = E_completed, sv_taskId = tk_id task, sv_timestamp = now,
           sv_data = Some [(''executionId'', JStr (se_id execution)), (''result'', result)]\<rparr> s)"

definition run_failed :: "int \<Rightarrow> nat \<Rightarrow> nat \<Rightarrow> string \<Rightarrow> timed_scheduler \<Rightarrow> timed_scheduler" where
  "run_failed now i j message s =
     (let task = tk_objs s ! i;
          execution = tk_executions task ! j;
          s = upd_exec i j (\<lambda>e. e\<lparr>se_status := SS_failed, se_error := Some message\<rparr>) s;
          s = s\<lparr>tk_stats := (tk_stats s)\<lparr>ss_failedExecutions := Suc (ss_failedExecutions (tk_stats s))\<rparr>\<rparr>;
          s = ts_emitEvent \<lparr>sv_type = E_failed, sv_taskId = tk_id task, sv_timestamp = now,
                sv_data = Some [(''executionId'', JStr (se_id execution)), (''error'', JStr message)]\<rparr> s
      in if so_retryFailedExecutions (tk_options s) \<and>
            int (length (tk_executions (tk_objs s ! i))) < so_maxRetryCount (tk_options s)
         then upd_obj i (\<lambda>t. t\<lparr>tk_nextRun := RunAt (now + 60000)\<rparr>) s
         else s)"

text \<open>The body of \<open>finally\<close>. An overflow of the call stack leaves \<open>executeTask\<close> as a rejected promise
  that nobody awaits.\<close>

definition run_settled :: "int \<Rightarrow> nat \<Rightarrow> timed_scheduler \<Rightarrow> timed_scheduler" where
  "run_settled now i s =
     (let task = tk_objs s ! i;
          s = s\<lparr>tk_runningTasks := remove_first (tk_id task) (tk_runningTasks s),
                tk_stats := (tk_stats s)\<lparr>ss_totalExecutions := Suc (ss_totalExecutions (tk_stats s))\<rparr>\<rparr>
      in case sd_variant (tk_schedule task) of
           OnceSchedule _ \<Rightarrow> upd_obj i (\<lambda>t. t\<lparr>tk_nextRun := NoRun, tk_status := TK_cancelled\<rparr>) s
         | _ \<Rightarrow> if tk_status task = TK_active then fst (set_next_run now i s) else s)"

text \<open>The \<open>n\<close>-th pending execution settles.\<close>

definition finishTask :: "int \<Rightarrow> nat \<Rightarrow> timed_scheduler \<Rightarrow> timed_scheduler" where
  "finishTask now n s =
     (if n < length (tk_runs s)
      then (let r = tk_runs s ! n;
                s = s\<lparr>tk_runs := remove_at n (tk_runs s)\<rparr>
            in run_settled now (pr_obj r)
                 (case pr_outcome r of
                    Inr result \<Rightarrow> run_succeeded now (pr_obj r) (pr_exec r) result s
                  | Inl message \<Rightarrow> run_failed now (pr_obj r) (pr_exec r) message s))
      else s)"

text \<open>\<open>getTask\<close> returns the task object itself, whose handler a caller may replace.\<close>

definition replace_handler :: "string \<Rightarrow> handler_behaviour \<Rightarrow> timed_scheduler \<Rightarrow> timed_scheduler" where
  "replace_handler k h s =
     (case jget (tk_tasks s) k of
        None \<Rightarrow> s
      | Some i \<Rightarrow> upd_obj i (\<lambda>t. t\<lparr>tk_handler := h\<rparr>) s)"

datatype ts_op =
    TS_schedule int Schedule
  | TS_cancel int string
  | TS_pause string
  | TS_resume int string
  | TS_start
  | TS_stop
  | TS_on nat
  | TS_off nat
  | TS_path string
  | TS_idle int int
  | TS_tick int "string \<Rightarrow> string"
  | TS_finish int nat
  | TS_handler string handler_behaviour

fun ts_apply :: "ts_op \<Rightarrow> timed_scheduler \<Rightarrow> timed_scheduler" where
  "ts_apply (TS_schedule now d) s = fst (ts_schedule now d s)"
| "ts_apply (TS_cancel now k) s = fst (ts_cancel now k s)"
| "ts_apply (TS_pause k) s = fst (ts_pause k s)"
| "ts_apply (TS_resume now k) s = fst (ts_resume now k s)"
| "ts_apply TS_start s = ts_start s"
| "ts_apply TS_stop s = ts_stop s"
| "ts_apply (TS_on h) s = ts_on h s"
| "ts_apply (TS_off h) s = ts_off h s"
| "ts_apply (TS_path p) s = setPersistencePath p s"
| "ts_apply (TS_idle now n) s = checkIdleTasks now n s"
| "ts_apply (TS_tick now rnd) s = tick now rnd s"
| "ts_apply (TS_finish now n) s = finishTask now n s"
| "ts_apply (TS_handler k h) s = replace_handler k h s"

subsection \<open>The recursion of \<open>calculateNextRun\<close>\<close>

text \<open>A run time in the past sends an interval schedule into the recursion, and the same time again.\<close>

definition overflows :: "int \<Rightarrow> ScheduledTask \<Rightarrow> bool" where
  "overflows now task \<longleftrightarrow>
     (case sd_variant (tk_schedule task) of
        IntervalSchedule _ _ _ \<Rightarrow> in_past now (assignNextRun now (sd_variant (tk_schedule task)))
      | _ \<Rightarrow> False)"

lemma next_run_rec_overflow: "next_run_rec now task = Some t \<Longrightarrow> \<not> overflows now task"
proof (rule next_run_rec.raw_induct [where P = "\<lambda>n t r. \<not> overflows n t", rotated], assumption)
  fix f n r and task :: ScheduledTask
  let ?task = "task\<lparr>tk_nextRun := assignNextRun n (sd_variant (tk_schedule task))\<rparr>"
  assume IH: "\<And>n t r. f n t = Some r \<Longrightarrow> \<not> overflows n t"
    and body: "(let task = ?task in
       if in_past n (tk_nextRun task)
       then (case sd_variant (tk_schedule task) of
               OnceSchedule _ \<Rightarrow> Some (task\<lparr>tk_nextRun := NoRun, tk_status := TK_cancelled\<rparr>)
             | IntervalSchedule _ _ _ \<Rightarrow> f n task
             | _ \<Rightarrow> Some task)
       else Some task) = Some r"
  have "overflows n ?task = overflows n task"
    by (cases "sd_variant (tk_schedule task)") (simp_all add: overflows_def del: assignNextRun.simps)
  moreover have "overflows n task \<Longrightarrow> f n ?task = Some r"
    using body by (auto simp: overflows_def Let_def simp del: assignNextRun.simps split: ScheduleVariant.splits)
  ultimately show "\<not> overflows n task" using IH by blast
qed

lemma calculateNextRun_returned: "snd (calculateNextRun now task) \<longleftrightarrow> \<not> overflows now task"
  by (auto simp: calculateNextRun_def overflows_def Let_def split: ScheduleVariant.splits)

lemma next_run_rec_total:
  "next_run_rec now task =
   (if snd (calculateNextRun now task) then Some (fst (calculateNextRun now task)) else None)"
proof (cases "overflows now task")
  case True
  then have "next_run_rec now task = None"
    using next_run_rec_overflow by (cases "next_run_rec now task") auto
  with True show ?thesis by (simp add: calculateNextRun_returned)
next
  case False
  then show ?thesis
    by (subst next_run_rec.simps)
       (auto simp: calculateNextRun_returned calculateNextRun_def overflows_def Let_def
         split: ScheduleVariant.splits)
qed

lemma assignNextRun_interval:
  fixes now i :: int
  assumes "0 < i"
  obtains n where "assignNextRun now (IntervalSchedule i st e) = RunAt n" "now < n" "n \<le> now + i"
    "i dvd n - (case st of Some t \<Rightarrow> t | None \<Rightarrow> now)"
proof -
  define a where "a = (case st of Some t \<Rightarrow> t | None \<Rightarrow> now)"
  let ?q = "(now - a) div i"
  have "?q * i + (now - a) mod i = now - a" "0 \<le> (now - a) mod i" "(now - a) mod i < i"
    using assms by (simp_all only: div_mult_mod_eq pos_mod_sign pos_mod_bound)
  then have "now < a + (?q + 1) * i" "a + (?q + 1) * i \<le> now + i"
    unfolding distrib_right by linarith+
  with assms that [of "a + (?q + 1) * i"] show thesis
    by (simp add: a_def [symmetric] Let_def)
qed

text \<open>A negative interval computes a time in the past, unless it is 0, the epoch.\<close>

lemma assignNextRun_negative:
  assumes "i < 0"
  obtains n where "assignNextRun now (IntervalSchedule i st e) = RunAt n" "n < now"
proof -
  define a where "a = (case st of Some t \<Rightarrow> t | None \<Rightarrow> now)"
  let ?q = "(now - a) div i"
  have "?q * i + (now - a) mod i = now - a" "i < (now - a) mod i"
    using assms by (simp_all only: div_mult_mod_eq neg_mod_bound)
  then have "a + (?q + 1) * i < now" unfolding distrib_right by linarith
  with assms that [of "a + (?q + 1) * i"] show thesis
    by (simp add: a_def [symmetric] Let_def)
qed

subsection \<open>What the bookkeeping is made of\<close>

text \<open>The id and the number of executions of every task object.\<close>

definition shape :: "timed_scheduler \<Rightarrow> (string \<times> nat) list" where
  "shape s = map (\<lambda>t. (tk_id t, length (tk_executions t))) (tk_objs s)"

definition counters :: "timed_scheduler \<Rightarrow> nat \<times> nat \<times> nat" where
  "counters s = (ss_successfulExecutions (tk_stats s), ss_failedExecutions (tk_stats s),
     ss_totalExecutions (tk_stats s))"

definition sched_ok ::
    "int \<Rightarrow> (string, nat) jsmap \<Rightarrow> (string \<times> nat) list \<Rightarrow> pending_run list \<Rightarrow> string list
     \<Rightarrow> nat \<times> nat \<times> nat \<Rightarrow> bool" where
  "sched_ok mx tasks sh runs running c \<longleftrightarrow>
     jwf tasks \<and> (\<forall>k i. jget tasks k = Some i \<longrightarrow> i < length sh \<and> fst (sh ! i) = k) \<and>
     list_all (\<lambda>r. pr_obj r < length sh) runs \<and>
     running = map (\<lambda>r. fst (sh ! pr_obj r)) runs \<and> distinct running \<and>
     int (length running) \<le> max 0 mx \<and>
     (case c of (successful, failed, settled) \<Rightarrow>
        successful + failed = settled \<and> settled + length runs = sum_list (map snd sh))"

definition ts_inv :: "int \<Rightarrow> timed_scheduler \<Rightarrow> bool" where
  "ts_inv mx s \<longleftrightarrow> so_maxConcurrentExecutions (tk_options s) = mx \<and>
     sched_ok mx (tk_tasks s) (shape s) (tk_runs s) (tk_runningTasks s) (counters s)"

definition same_book :: "timed_scheduler \<Rightarrow> timed_scheduler \<Rightarrow> bool" where
  "same_book s s' \<longleftrightarrow> tk_tasks s' = tk_tasks s \<and> shape s' = shape s \<and> tk_runs s' = tk_runs s \<and>
     tk_runningTasks s' = tk_runningTasks s \<and> counters s' = counters s \<and>
     so_maxConcurrentExecutions (tk_options s') = so_maxConcurrentExecutions (tk_options s)"

lemma ts_inv_same: "same_book s s' \<Longrightarrow> ts_inv mx s' = ts_inv mx s"
  by (simp add: same_book_def ts_inv_def)

lemma same_book_trans [trans]: "same_book s u \<Longrightarrow> same_book u v \<Longrightarrow> same_book s v"
  by (simp add: same_book_def)

named_theorems booked \<open>steps that leave the bookkeeping as it is\<close>

lemma same_book_refl [booked]: "same_book s s"
  by (simp add: same_book_def)

lemma same_book_emit [booked]: "same_book u s \<Longrightarrow> same_book u (ts_emitEvent e s)"
  by (simp add: same_book_def ts_emitEvent_def shape_def counters_def)

lemma same_book_stats [booked]: "same_book u s \<Longrightarrow> same_book u (updateStats s)"
  by (simp add: same_book_def updateStats_def shape_def counters_def)

lemma same_book_upd_obj [booked]:
  assumes "same_book u s" and "\<And>t. tk_id (f t) = tk_id t \<and> length (tk_executions (f t)) = length (tk_executions t)"
  shows "same_book u (upd_obj i f s)"
proof -
  have "shape (upd_obj i f s) = shape s"
    unfolding shape_def upd_obj_def using assms(2)
    by (cases "i < length (tk_objs s)") (auto intro!: nth_equalityI simp: nth_list_update list_update_beyond)
  with assms(1) show ?thesis by (simp add: same_book_def upd_obj_def counters_def)
qed

lemma calculateNextRun_frame:
  "tk_id (fst (calculateNextRun now t)) = tk_id t"
  "tk_executions (fst (calculateNextRun now t)) = tk_executions t"
  by (auto simp: calculateNextRun_def Let_def split: ScheduleVariant.split)

lemma set_next_run_fst: "fst (set_next_run now i s) = upd_obj i (\<lambda>t. fst (calculateNextRun now t)) s"
  by (simp add: set_next_run_def upd_obj_def case_prod_unfold)

lemma same_book_next [booked]: "same_book u s \<Longrightarrow> same_book u (fst (set_next_run now i s))"
  unfolding set_next_run_fst by (rule same_book_upd_obj) (simp_all add: calculateNextRun_frame)

lemma same_book_exec [booked]: "same_book u s \<Longrightarrow> same_book u (upd_exec i j f s)"
  unfolding upd_exec_def by (rule same_book_upd_obj) simp_all

subsection \<open>Every operation keeps the bookkeeping\<close>

lemma shape_simps:
  "length (shape s) = length (tk_objs s)"
  "i < length (tk_objs s) \<Longrightarrow> shape s ! i = (tk_id (tk_objs s ! i), length (tk_executions (tk_objs s ! i)))"
  by (simp_all add: shape_def)

lemma sched_ok_add:
  "sched_ok mx tasks sh runs running c \<Longrightarrow>
   sched_ok mx (jset tasks k (length sh)) (sh @ [(k, 0)]) runs running c"
  by (auto simp: sched_ok_def nth_append list_all_iff less_Suc_eq split: prod.split)

lemma sched_ok_begin:
  assumes "sched_ok mx tasks sh runs running c" and "i < length sh" and "sh ! i = (k, n)"
    and "k \<notin> set running" and "int (length running) < mx" and "pr_obj r = i"
  shows "sched_ok mx tasks (sh[i := (k, Suc n)]) (runs @ [r]) (running @ [k]) c"
proof -
  have "fst (sh[i := (k, Suc n)] ! j) = fst (sh ! j)" for j
    using assms(2,3) by (cases "j = i") (auto simp: nth_list_update)
  moreover have "sum_list (map snd (sh[i := (k, Suc n)])) = Suc (sum_list (map snd sh))"
    using assms(2,3) by (simp add: map_update sum_list_update)
  ultimately show ?thesis
    using assms by (auto simp: sched_ok_def list_all_iff split: prod.split)
qed

lemma remove_at_map_distinct:
  "distinct (map f xs) \<Longrightarrow> n < length xs \<Longrightarrow> remove1 (f (xs ! n)) (map f xs) = map f (remove_at n xs)"
proof (induction xs arbitrary: n)
  case (Cons x xs)
  show ?case
  proof (cases n)
    case (Suc m)
    with Cons.prems have "f x \<noteq> f (xs ! m)" by (metis distinct.simps(2) length_Cons list.simps(9)
        nth_mem nth_map not_less_eq length_map)
    with Suc Cons show ?thesis by (simp add: remove_at_def)
  qed (simp add: remove_at_def)
qed simp

lemma set_remove_at: "set (remove_at n xs) \<subseteq> set xs"
  by (auto simp: remove_at_def dest: in_set_takeD in_set_dropD)

lemma length_remove_at: "n < length xs \<Longrightarrow> length xs = Suc (length (remove_at n xs))"
  by (simp add: remove_at_def min_def)

lemma sched_ok_finish:
  assumes "sched_ok mx tasks sh runs running (a, b, c)" and "n < length runs" and "a' + b' = Suc (a + b)"
  shows "sched_ok mx tasks sh (remove_at n runs) (remove_first (fst (sh ! pr_obj (runs ! n))) running)
    (a', b', Suc c)"
proof -
  from assms(1) have run: "running = map (\<lambda>r. fst (sh ! pr_obj r)) runs" "distinct running"
    unfolding sched_ok_def by blast+
  then have rm: "remove_first (fst (sh ! pr_obj (runs ! n))) running =
      map (\<lambda>r. fst (sh ! pr_obj r)) (remove_at n runs)"
    using remove_at_map_distinct [OF _ assms(2), of "\<lambda>r. fst (sh ! pr_obj r)"]
    by (simp add: remove_first_remove1)
  moreover have "distinct (remove_first (fst (sh ! pr_obj (runs ! n))) running)"
    using run(2) by (simp add: remove_first_remove1)
  ultimately show ?thesis
    using assms set_remove_at [of n runs] length_remove_at [OF assms(2)]
    by (auto simp: sched_ok_def list_all_iff)
qed

lemma ts_inv_task: "ts_inv mx s \<Longrightarrow> jget (tk_tasks s) k = Some i \<Longrightarrow> i < length (tk_objs s)"
  by (auto simp: ts_inv_def sched_ok_def shape_simps)

lemma ts_inv_schedule: "ts_inv mx s \<Longrightarrow> ts_inv mx (fst (ts_schedule now d s))"
proof -
  assume inv: "ts_inv mx s"
  let ?s = "s\<lparr>tk_objs := tk_objs s @ [createTask now d],
              tk_tasks := jset (tk_tasks s) (tk_id (createTask now d)) (length (tk_objs s))\<rparr>"
  have "ts_inv mx ?s"
    using inv sched_ok_add [of mx "tk_tasks s" "shape s" "tk_runs s" "tk_runningTasks s" "counters s"
        "tk_id (createTask now d)"]
    by (auto simp: ts_inv_def shape_def counters_def createTask_def)
  moreover have "same_book ?s (fst (ts_schedule now d s))"
    unfolding ts_schedule_def Let_def
    by (intro and_then_keeps [where P = "same_book ?s"]) (auto intro: booked)
  ultimately show ?thesis by (simp add: ts_inv_same)
qed

lemma same_book_cancel [booked]: "same_book s (fst (ts_cancel now k s))"
  by (auto simp: ts_cancel_def split: option.split intro!: booked)

lemma same_book_pause [booked]: "same_book s (fst (ts_pause k s))"
  by (auto simp: ts_pause_def split: option.split intro!: booked)

lemma same_book_resume [booked]: "same_book s (fst (ts_resume now k s))"
  by (auto simp: ts_resume_def split: option.split intro!: booked and_then_keeps [where P = "same_book s"])

lemma same_book_idle [booked]: "same_book s (checkIdleTasks now n s)"
  unfolding checkIdleTasks_def
  by (rule fold_keeps [where P = "same_book s"])
     (auto split: ScheduleVariant.split intro!: booked)

lemma same_book_handler [booked]: "same_book s (replace_handler k h s)"
  by (auto simp: replace_handler_def split: option.split intro!: booked)

lemma beginTask_book:
  assumes "i < length (tk_objs s)"
  shows "tk_tasks (beginTask now rnd i s) = tk_tasks s"
    "tk_options (beginTask now rnd i s) = tk_options s"
    "tk_runningTasks (beginTask now rnd i s) = tk_runningTasks s @ [tk_id (tk_objs s ! i)]"
    "counters (beginTask now rnd i s) = counters s"
    "shape (beginTask now rnd i s) =
      (shape s)[i := (tk_id (tk_objs s ! i), Suc (length (tk_executions (tk_objs s ! i))))]"
    "\<exists>r. pr_obj r = i \<and> tk_runs (beginTask now rnd i s) = tk_runs s @ [r]"
  using assms
  by (simp_all add: beginTask_def Let_def upd_obj_def ts_emitEvent_def shape_def counters_def map_update)

lemma ts_inv_begin:
  assumes "ts_inv mx s" and "i < length (tk_objs s)" and "tk_id (tk_objs s ! i) \<notin> set (tk_runningTasks s)"
    and "int (length (tk_runningTasks s)) < mx"
  shows "ts_inv mx (beginTask now rnd i s)"
proof -
  obtain r where r: "pr_obj r = i" "tk_runs (beginTask now rnd i s) = tk_runs s @ [r]"
    using beginTask_book(6) [OF assms(2)] by blast
  have "sched_ok mx (tk_tasks s)
      ((shape s)[i := (tk_id (tk_objs s ! i), Suc (length (tk_executions (tk_objs s ! i))))])
      (tk_runs s @ [r]) (tk_runningTasks s @ [tk_id (tk_objs s ! i)]) (counters s)"
    by (rule sched_ok_begin) (use assms r in \<open>auto simp: ts_inv_def shape_simps\<close>)
  with assms(1) r show ?thesis by (simp add: ts_inv_def beginTask_book [OF assms(2)])
qed

lemma ts_inv_tick_loop:
  "ts_inv mx s \<Longrightarrow> list_all (\<lambda>i. i < length (tk_objs s)) is \<Longrightarrow> ts_inv mx (tick_loop now rnd is s)"
proof (induction "is" arbitrary: s)
  case (Cons i "is")
  let ?b = "beginTask now (rnd (tk_id (tk_objs s ! i))) i s"
  have "length (tk_objs ?b) = length (tk_objs s)"
    by (simp add: beginTask_def Let_def upd_obj_def ts_emitEvent_def)
  moreover have "ready now s i \<Longrightarrow> int (length (tk_runningTasks s)) < mx \<Longrightarrow> ts_inv mx ?b"
    using Cons.prems by (intro ts_inv_begin) (auto simp: ready_def Let_def)
  moreover have "so_maxConcurrentExecutions (tk_options s) = mx" using Cons.prems(1) by (simp add: ts_inv_def)
  ultimately show ?case using Cons by (auto simp: not_le)
qed simp

lemma ts_inv_tick: "ts_inv mx s \<Longrightarrow> ts_inv mx (tick now rnd s)"
  unfolding tick_def
  by (rule ts_inv_tick_loop, assumption)
     (auto simp: list_all_iff ts_inv_def sched_ok_def shape_simps simp flip: jget_mem)

text \<open>Settling an execution changes the counters and takes the execution off the running ones; all else
  it does leaves the bookkeeping as it is.\<close>

lemma same_book_shape: "same_book u s \<Longrightarrow> shape s = shape u"
  by (simp add: same_book_def)

lemma run_succeeded_book:
  "same_book (s\<lparr>tk_stats := (tk_stats s)\<lparr>ss_successfulExecutions := Suc (ss_successfulExecutions (tk_stats s))\<rparr>\<rparr>)
     (run_succeeded now i j result s)"
proof -
  have "same_book s (upd_exec i j f s)" for f by (intro booked)
  then show ?thesis
    unfolding run_succeeded_def Let_def
    by (intro same_book_emit)
       (simp add: same_book_def counters_def shape_def upd_exec_def upd_obj_def)
qed

lemma run_failed_book:
  "same_book (s\<lparr>tk_stats := (tk_stats s)\<lparr>ss_failedExecutions := Suc (ss_failedExecutions (tk_stats s))\<rparr>\<rparr>)
     (run_failed now i j message s)"
proof -
  have "same_book s (upd_exec i j f s)" for f by (intro booked)
  then have "same_book (s\<lparr>tk_stats := (tk_stats s)\<lparr>ss_failedExecutions := Suc (ss_failedExecutions (tk_stats s))\<rparr>\<rparr>)
      (upd_exec i j f s \<lparr>tk_stats := (tk_stats (upd_exec i j f s))
         \<lparr>ss_failedExecutions := Suc (ss_failedExecutions (tk_stats (upd_exec i j f s)))\<rparr>\<rparr>)" for f
    by (simp add: same_book_def counters_def shape_def upd_exec_def upd_obj_def)
  then show ?thesis
    unfolding run_failed_def Let_def by (auto intro!: booked)
qed

lemma run_settled_book:
  "same_book (s\<lparr>tk_runningTasks := remove_first (tk_id (tk_objs s ! i)) (tk_runningTasks s),
                 tk_stats := (tk_stats s)\<lparr>ss_totalExecutions := Suc (ss_totalExecutions (tk_stats s))\<rparr>\<rparr>)
     (run_settled now i s)"
  unfolding run_settled_def Let_def by (auto split: ScheduleVariant.split intro!: booked)

lemma ts_inv_finish: "ts_inv mx s \<Longrightarrow> ts_inv mx (finishTask now n s)"
proof (cases "n < length (tk_runs s)")
  case True
  assume inv: "ts_inv mx s"
  define i where "i = pr_obj (tk_runs s ! n)"
  define s1 where "s1 = (case pr_outcome (tk_runs s ! n) of
      Inr result \<Rightarrow> run_succeeded now i (pr_exec (tk_runs s ! n)) result (s\<lparr>tk_runs := remove_at n (tk_runs s)\<rparr>)
    | Inl message \<Rightarrow> run_failed now i (pr_exec (tk_runs s ! n)) message (s\<lparr>tk_runs := remove_at n (tk_runs s)\<rparr>))"
  obtain a b c where abc: "counters s = (a, b, c)" by (cases "counters s") auto
  have "\<exists>a' b'. a' + b' = Suc (a + b) \<and> counters s1 = (a', b', c)"
    and s1: "tk_tasks s1 = tk_tasks s \<and> shape s1 = shape s \<and> tk_runs s1 = remove_at n (tk_runs s) \<and>
      tk_runningTasks s1 = tk_runningTasks s \<and>
      so_maxConcurrentExecutions (tk_options s1) = so_maxConcurrentExecutions (tk_options s)"
    using abc run_succeeded_book [of "s\<lparr>tk_runs := remove_at n (tk_runs s)\<rparr>" now i "pr_exec (tk_runs s ! n)"]
      run_failed_book [of "s\<lparr>tk_runs := remove_at n (tk_runs s)\<rparr>" now i "pr_exec (tk_runs s ! n)"]
    by (auto simp: s1_def same_book_def counters_def shape_def split: sum.splits)
  then obtain a' b' where ab: "a' + b' = Suc (a + b)" "counters s1 = (a', b', c)" by blast
  have i: "i < length (tk_objs s)"
    using inv True unfolding ts_inv_def sched_ok_def list_all_iff i_def
    by (metis nth_mem shape_simps(1))
  have "length (tk_objs s1) = length (tk_objs s)" using s1 by (metis shape_simps(1))
  with i s1 have id: "tk_id (tk_objs s1 ! i) = fst (shape s ! i)"
    by (metis fst_conv shape_simps(2))
  have "sched_ok mx (tk_tasks s) (shape s) (remove_at n (tk_runs s))
      (remove_first (fst (shape s ! pr_obj (tk_runs s ! n))) (tk_runningTasks s)) (a', b', Suc c)"
    by (rule sched_ok_finish [OF _ True ab(1)]) (use inv abc in \<open>simp add: ts_inv_def\<close>)
  with inv s1 ab id have "ts_inv mx (s1\<lparr>tk_runningTasks := remove_first (tk_id (tk_objs s1 ! i)) (tk_runningTasks s1),
      tk_stats := (tk_stats s1)\<lparr>ss_totalExecutions := Suc (ss_totalExecutions (tk_stats s1))\<rparr>\<rparr>)"
    by (simp add: ts_inv_def i_def shape_def counters_def)
  then have "ts_inv mx (run_settled now i s1)"
    by (simp add: ts_inv_same [OF run_settled_book])
  with True show ?thesis unfolding finishTask_def Let_def s1_def i_def by simp
qed (simp add: finishTask_def)

lemma ts_inv_step: "ts_inv mx s \<Longrightarrow> ts_inv mx (ts_apply x s)"
proof -
  assume inv: "ts_inv mx s"
  have same: "same_book s s' \<Longrightarrow> ts_inv mx s'" for s' using inv by (simp add: ts_inv_same)
  show ?thesis
  proof (cases x)
    case (TS_schedule now d)
    with inv show ?thesis by (simp add: ts_inv_schedule)
  next
    case (TS_tick now rnd)
    with inv show ?thesis by (simp add: ts_inv_tick)
  next
    case (TS_finish now n)
    with inv show ?thesis by (simp add: ts_inv_finish)
  qed (auto intro!: same booked
        simp: ts_start_def ts_stop_def ts_on_def ts_off_def setPersistencePath_def same_book_def shape_def counters_def)
qed

interpretation ts_machine: op_machine ts_apply "ts_inv mx"
  by unfold_locales (rule ts_inv_step)

lemma ts_inv_new [simp]: "ts_inv (so_maxConcurrentExecutions opts) (new_timed_scheduler opts)"
  by (simp add: ts_inv_def sched_ok_def new_timed_scheduler_def shape_def counters_def new_stats_def)

subsection \<open>Properties\<close>

definition demo_schedule :: "string \<Rightarrow> ScheduleVariant \<Rightarrow> Schedule" where
  "demo_schedule k v = \<lparr>sd_id = k, sd_enabled = True,
     sd_task = \<lparr>sk_prompt = ''p'', sk_agentRole = None, sk_agentId = None, sk_timeout = None, sk_metadata = None\<rparr>,
     sd_createdAt = 0, sd_variant = v\<rparr>"

text \<open>Two interval schedules, one with a handler that never settles, after their first tick.\<close>

definition demo_timed_ops :: "ts_op list" where
  "demo_timed_ops =
     [TS_schedule 1000 (demo_schedule ''a'' (IntervalSchedule 500 (Some 100) None)),
      TS_schedule 1000 (demo_schedule ''b'' (IntervalSchedule 500 None None)),
      TS_handler ''b'' None, TS_start, TS_tick 1600 (\<lambda>k. k), TS_pause ''a'', TS_tick 2600 (\<lambda>k. k)]"

definition demo_timed :: timed_scheduler where
  "demo_timed = fold ts_apply demo_timed_ops (new_timed_scheduler default_options)"

text \<open>C17: Executions do not overlap. Over any sequence of operations, the running executions are of
  different schedule ids and no more than the configured maximum, even when an id is scheduled
  again while it runs; every execution ever started is running or counted once, as a success or as
  a failure.\<close>

theorem executions_accounted:
  "let s = fold ts_apply ops (new_timed_scheduler opts) in
   tk_runningTasks s = map (\<lambda>r. tk_id (tk_objs s ! pr_obj r)) (tk_runs s) \<and>
   distinct (tk_runningTasks s) \<and>
   int (length (tk_runningTasks s)) \<le> max 0 (so_maxConcurrentExecutions opts) \<and>
   ss_totalExecutions (getStats s) = ss_successfulExecutions (getStats s) + ss_failedExecutions (getStats s) \<and>
   ss_totalExecutions (getStats s) + length (tk_runningTasks s) =
     sum_list (map (\<lambda>t. length (tk_executions t)) (tk_objs s))"
proof -
  define s where "s = fold ts_apply ops (new_timed_scheduler opts)"
  have inv: "ts_inv (so_maxConcurrentExecutions opts) s" unfolding s_def by (rule ts_machine.inv_run) simp
  then have run: "tk_runningTasks s = map (\<lambda>r. fst (shape s ! pr_obj r)) (tk_runs s)"
    "distinct (tk_runningTasks s)" "int (length (tk_runningTasks s)) \<le> max 0 (so_maxConcurrentExecutions opts)"
    "list_all (\<lambda>r. pr_obj r < length (shape s)) (tk_runs s)"
    and count: "ss_successfulExecutions (tk_stats s) + ss_failedExecutions (tk_stats s) = ss_totalExecutions (tk_stats s)"
    "ss_totalExecutions (tk_stats s) + length (tk_runs s) = sum_list (map snd (shape s))"
    unfolding ts_inv_def sched_ok_def counters_def prod.case by blast+
  have "length (tk_runningTasks s) = length (tk_runs s)" using run(1) by (metis length_map)
  moreover have "map (\<lambda>r. fst (shape s ! pr_obj r)) (tk_runs s) = map (\<lambda>r. tk_id (tk_objs s ! pr_obj r)) (tk_runs s)"
    using run(4) by (auto simp: list_all_iff shape_simps)
  moreover have "map snd (shape s) = map (\<lambda>t. length (tk_executions t)) (tk_objs s)"
    by (simp add: shape_def)
  ultimately show ?thesis
    unfolding s_def [symmetric] Let_def getStats_def using run(1-3) count by simp
qed

text \<open>C18: The next run of an interval schedule. \<open>calculateNextRun\<close> returns for a positive interval, and
  sets the first time after now that is a whole number of intervals from the start; for a negative
  interval it never returns, unless the time it computes is 0.\<close>

theorem interval_next_run:
  assumes "sd_variant (tk_schedule task) = IntervalSchedule i st e" and "i \<noteq> 0"
  shows "case next_run_rec now task of
      Some task' \<Rightarrow>
        (\<exists>n. task' = task\<lparr>tk_nextRun := RunAt n\<rparr> \<and> i dvd n - (case st of Some t \<Rightarrow> t | None \<Rightarrow> now) \<and>
             (if 0 < i then now < n \<and> n \<le> now + i else n = 0))
    | None \<Rightarrow> i < 0"
proof -
  have dvd: "\<exists>n. assignNextRun now (IntervalSchedule i st e) = RunAt n \<and>
      i dvd n - (case st of Some t \<Rightarrow> t | None \<Rightarrow> now)"
    using assms(2) by (simp add: Let_def)
  show ?thesis
  proof (cases "0 < i")
    case True
    then obtain n where n: "assignNextRun now (IntervalSchedule i st e) = RunAt n" "now < n" "n \<le> now + i"
      "i dvd n - (case st of Some t \<Rightarrow> t | None \<Rightarrow> now)"
      by (rule assignNextRun_interval)
    with True assms(1) show ?thesis
      by (auto simp: next_run_rec_total calculateNextRun_def simp del: assignNextRun.simps)
  next
    case False
    with assms(2) have "i < 0" by simp
    then obtain n where n: "assignNextRun now (IntervalSchedule i st e) = RunAt n" "n < now"
      by (rule assignNextRun_negative)
    with dvd have "i dvd n - (case st of Some t \<Rightarrow> t | None \<Rightarrow> now)" by auto
    with n \<open>i < 0\<close> assms(1) show ?thesis
      by (cases "n = 0") (auto simp: next_run_rec_total calculateNextRun_def Let_def simp del: assignNextRun.simps)
  qed
qed

theorem interval_next_run_witness:
  "map_option tk_nextRun (next_run_rec 1234 (createTask 0 (demo_schedule ''a'' (IntervalSchedule 500 (Some 100) None)))) =
   Some (RunAt 1600)"
proof -
  let ?t = "createTask 0 (demo_schedule ''a'' (IntervalSchedule 500 (Some 100) None))"
  have v: "sd_variant (tk_schedule ?t) = IntervalSchedule 500 (Some 100) None"
    by (simp add: createTask_def demo_schedule_def)
  obtain n where n: "next_run_rec 1234 ?t = Some (?t\<lparr>tk_nextRun := RunAt n\<rparr>)"
    and b: "500 dvd n - 100" "1234 < n" "n \<le> 1734"
    using interval_next_run [OF v, of 1234] by (auto split: option.splits)
  from b have "n = 1600" by presburger
  with n show ?thesis by simp
qed

text \<open>The objects of two states are equal up to the next run of tasks that are not active, which nothing
  reads: a tick skips them, and resuming or settling them computes it anew.\<close>

definition same_active :: "ScheduledTask \<Rightarrow> ScheduledTask \<Rightarrow> bool" where
  "same_active t u \<longleftrightarrow> t = u \<or> (tk_status t \<noteq> TK_active \<and> t\<lparr>tk_nextRun := NoRun\<rparr> = u\<lparr>tk_nextRun := NoRun\<rparr>)"

definition with_retry :: "bool \<Rightarrow> timed_scheduler \<Rightarrow> timed_scheduler" where
  "with_retry b s = s\<lparr>tk_options := (tk_options s)\<lparr>so_retryFailedExecutions := b\<rparr>\<rparr>"

lemma calculateNextRun_nextRun:
  "calculateNextRun now (t\<lparr>tk_nextRun := n\<rparr>) = calculateNextRun now t"
  by (simp add: calculateNextRun_def Let_def)

lemma set_next_run_over:
  "set_next_run now p (upd_obj p (\<lambda>t. t\<lparr>tk_nextRun := x\<rparr>) s) = set_next_run now p s"
  by (cases "p < length (tk_objs s)")
     (simp_all add: set_next_run_def upd_obj_def calculateNextRun_nextRun list_update_beyond split: prod.split)

lemma run_settled_over:
  "run_settled now p (upd_obj p (\<lambda>t. t\<lparr>tk_nextRun := x\<rparr>) s) =
   (if tk_status (tk_objs s ! p) = TK_active \<or> (\<exists>t. sd_variant (tk_schedule (tk_objs s ! p)) = OnceSchedule t)
    then run_settled now p s
    else upd_obj p (\<lambda>t. t\<lparr>tk_nextRun := x\<rparr>) (run_settled now p s))"
proof (cases "p < length (tk_objs s)")
  case True
  define u :: "timed_scheduler \<Rightarrow> timed_scheduler" where "u = (\<lambda>s. s\<lparr>tk_runningTasks := remove_first (tk_id (tk_objs s ! p)) (tk_runningTasks s),
      tk_stats := (tk_stats s)\<lparr>ss_totalExecutions := Suc (ss_totalExecutions (tk_stats s))\<rparr>\<rparr>)"
  let ?f = "\<lambda>t. t\<lparr>tk_nextRun := x\<rparr>" and ?g = "\<lambda>t. t\<lparr>tk_nextRun := NoRun, tk_status := TK_cancelled\<rparr>"
  have A: "run_settled now p s =
      (case sd_variant (tk_schedule (tk_objs s ! p)) of
         OnceSchedule _ \<Rightarrow> upd_obj p ?g (u s)
       | _ \<Rightarrow> if tk_status (tk_objs s ! p) = TK_active then fst (set_next_run now p (u s)) else u s)" for s
    by (cases "sd_variant (tk_schedule (tk_objs s ! p))") (simp_all add: run_settled_def u_def Let_def)
  have B: "u (upd_obj p ?f s) = upd_obj p ?f (u s)"
    using True by (simp add: u_def upd_obj_def)
  have C: "tk_objs (upd_obj p ?f s) ! p = ?f (tk_objs s ! p)" using True by (simp add: upd_obj_def)
  have D: "upd_obj p ?g (upd_obj p ?f v) = upd_obj p ?g v" if "length (tk_objs v) = length (tk_objs s)" for v
    using True that by (simp add: upd_obj_def)
  have "length (tk_objs (u s)) = length (tk_objs s)" by (simp add: u_def)
  then show ?thesis
    by (cases "sd_variant (tk_schedule (tk_objs s ! p))") (simp_all add: A B C D set_next_run_over)
next
  case False
  then have "upd_obj p (\<lambda>t. t\<lparr>tk_nextRun := x\<rparr>) s' = s'" if "length (tk_objs s') = length (tk_objs s)" for s'
    using that by (simp add: upd_obj_def list_update_beyond)
  moreover have "length (tk_objs (run_settled now p s)) = length (tk_objs s)"
    by (auto simp: run_settled_def Let_def upd_obj_def set_next_run_fst split: ScheduleVariant.split)
  ultimately show ?thesis by simp
qed

lemma run_settled_with_retry: "run_settled now p (with_retry b s) = with_retry b (run_settled now p s)"
  by (auto simp: run_settled_def with_retry_def Let_def upd_obj_def set_next_run_def split: ScheduleVariant.split prod.split)

lemma run_succeeded_with_retry:
  "run_succeeded now p j result (with_retry b s) = with_retry b (run_succeeded now p j result s)"
  by (simp add: run_succeeded_def with_retry_def Let_def upd_obj_def upd_exec_def ts_emitEvent_def)

lemma run_failed_with_retry:
  "\<exists>s'. run_failed now p j m (with_retry False s) = with_retry False s' \<and>
     (run_failed now p j m (with_retry True s) = with_retry True s' \<or>
      run_failed now p j m (with_retry True s) = with_retry True (upd_obj p (\<lambda>t. t\<lparr>tk_nextRun := RunAt (now + 60000)\<rparr>) s'))"
proof -
  let ?s = "run_failed now p j m (with_retry False s)"
  have "?s = with_retry False ?s"
    by (simp add: run_failed_def with_retry_def Let_def upd_obj_def upd_exec_def ts_emitEvent_def)
  moreover have "run_failed now p j m (with_retry True s) = with_retry True ?s \<or>
      run_failed now p j m (with_retry True s) = with_retry True (upd_obj p (\<lambda>t. t\<lparr>tk_nextRun := RunAt (now + 60000)\<rparr>) ?s)"
    by (simp add: run_failed_def with_retry_def Let_def upd_obj_def upd_exec_def ts_emitEvent_def)
  ultimately show ?thesis by blast
qed

lemma with_retry_objs [simp]: "tk_objs (with_retry b s) = tk_objs s"
  by (simp add: with_retry_def)

lemma with_retry_idem [simp]: "with_retry b (with_retry c s) = with_retry b s"
  by (simp add: with_retry_def)

lemma run_settled_status:
  assumes "p < length (tk_objs s)" and "tk_status (tk_objs s ! p) \<noteq> TK_active"
  shows "tk_status (tk_objs (run_settled now p s) ! p) \<noteq> TK_active"
  using assms by (auto simp: run_settled_def Let_def upd_obj_def split: ScheduleVariant.split)

text \<open>Up to the next run of inactive tasks, the two states agree in everything but the option.\<close>

definition same_but_retry :: "timed_scheduler \<Rightarrow> timed_scheduler \<Rightarrow> bool" where
  "same_but_retry on off \<longleftrightarrow>
     with_retry False on = with_retry False (off\<lparr>tk_objs := tk_objs on\<rparr>) \<and>
     (\<forall>i. same_active (tk_objs on ! i) (tk_objs off ! i))"

lemma same_but_retry_over:
  "same_but_retry (with_retry True (run_settled now p (upd_obj p (\<lambda>t. t\<lparr>tk_nextRun := x\<rparr>) s)))
     (with_retry False (run_settled now p s))"
proof (cases "tk_status (tk_objs s ! p) = TK_active \<or> (\<exists>t. sd_variant (tk_schedule (tk_objs s ! p)) = OnceSchedule t)
    \<or> \<not> p < length (tk_objs s)")
  case True
  have "\<not> p < length (tk_objs s) \<Longrightarrow> upd_obj p (\<lambda>t. t\<lparr>tk_nextRun := x\<rparr>) s = s"
    by (simp add: upd_obj_def list_update_beyond)
  with True have "run_settled now p (upd_obj p (\<lambda>t. t\<lparr>tk_nextRun := x\<rparr>) s) = run_settled now p s"
    by (cases "p < length (tk_objs s)") (use run_settled_over in auto)
  then show ?thesis by (simp add: same_but_retry_def same_active_def) (simp add: with_retry_def)
next
  case False
  let ?r = "run_settled now p s"
  have "tk_status (tk_objs ?r ! p) \<noteq> TK_active" using False by (intro run_settled_status) auto
  then have "same_active (tk_objs (upd_obj p (\<lambda>t. t\<lparr>tk_nextRun := x\<rparr>) ?r) ! i) (tk_objs ?r ! i)" for i
    by (cases "i = p \<and> p < length (tk_objs ?r)")
       (auto simp: same_active_def upd_obj_def nth_list_update list_update_beyond not_less)
  with False show ?thesis
    by (simp add: run_settled_over same_but_retry_def) (simp add: with_retry_def upd_obj_def)
qed

lemma same_but_retry_ready:
  assumes "same_but_retry on off"
  shows "ready now on i = ready now off i"
proof -
  have "tk_runningTasks (with_retry False on) = tk_runningTasks (with_retry False (off\<lparr>tk_objs := tk_objs on\<rparr>))"
    using assms by (simp add: same_but_retry_def)
  then have "tk_runningTasks on = tk_runningTasks off" by (simp add: with_retry_def)
  have same: "same_active (tk_objs on ! i) (tk_objs off ! i)"
    using assms by (simp add: same_but_retry_def)
  have "tk_status t = tk_status u" if "same_active t u" for t u
  proof (cases "t = u")
    case False
    with that have "t\<lparr>tk_nextRun := NoRun\<rparr> = u\<lparr>tk_nextRun := NoRun\<rparr>" by (simp add: same_active_def)
    from arg_cong [OF this, of tk_status] show ?thesis by simp
  qed simp
  from this [OF same] have "tk_status (tk_objs on ! i) = tk_status (tk_objs off ! i)" .
  with same \<open>tk_runningTasks on = tk_runningTasks off\<close> show ?thesis
    by (auto simp: ready_def Let_def same_active_def)
qed

text \<open>A failed execution is not retried. With \<open>retryFailedExecutions\<close> on or off, a settling
  execution leaves the same statistics, running executions and events, and the same tasks up to the
  next run of tasks that are not active; the next tick starts exactly the same tasks.\<close>

lemma retry_has_no_effect:
  "let on = finishTask now n (with_retry True s); off = finishTask now n (with_retry False s) in
    same_but_retry on off \<and> (\<forall>later i. ready later on i = ready later off i)"
proof -
  let ?on = "finishTask now n (with_retry True s)" and ?off = "finishTask now n (with_retry False s)"
  have same: "same_but_retry ?on ?off"
  proof (cases "n < length (tk_runs s)")
    case True
    let ?r = "tk_runs s ! n" and ?s = "s\<lparr>tk_runs := remove_at n (tk_runs s)\<rparr>"
    have runs: "tk_runs (with_retry b s) = tk_runs s" "(with_retry b s)\<lparr>tk_runs := rs\<rparr> = with_retry b (s\<lparr>tk_runs := rs\<rparr>)" for b rs
      by (simp_all add: with_retry_def)
    have fin: "finishTask now n (with_retry b s) = run_settled now (pr_obj ?r)
        (case pr_outcome ?r of
           Inr result \<Rightarrow> run_succeeded now (pr_obj ?r) (pr_exec ?r) result (with_retry b ?s)
         | Inl message \<Rightarrow> run_failed now (pr_obj ?r) (pr_exec ?r) message (with_retry b ?s))" for b
      using True runs by (simp add: finishTask_def Let_def)
    have refl: "same_but_retry (with_retry True u) (with_retry False u)" for u
      by (simp add: same_but_retry_def same_active_def) (simp add: with_retry_def)
    show ?thesis
    proof (cases "pr_outcome ?r")
      case (Inr result)
      then show ?thesis
        unfolding fin by (simp add: run_succeeded_with_retry run_settled_with_retry refl)
    next
      case (Inl m)
      from run_failed_with_retry [of now "pr_obj ?r" "pr_exec ?r" m ?s] show ?thesis
        unfolding fin using Inl same_but_retry_over refl
        by (auto simp: run_settled_with_retry)
    qed
  next
    case False
    then have "finishTask now n (with_retry b s) = with_retry b s" for b
      by (simp add: finishTask_def with_retry_def)
    then show ?thesis by (simp add: same_but_retry_def same_active_def) (simp add: with_retry_def)
  qed
  with same_but_retry_ready show ?thesis by (simp add: Let_def)
qed

subsection \<open>Corner cases\<close>

text \<open>What a cron expression says does not matter, only that it has five fields.\<close>

lemma cron_fields_unread:
  "length (split_ws e) = 5 \<Longrightarrow> length (split_ws e') = 5 \<Longrightarrow> calculateNextCronRun now e = calculateNextCronRun now e'"
  by (simp add: calculateNextCronRun_def timed_parseCron_def)

text \<open>A one-time schedule in the past is counted as enabled although it has been cancelled: the
  statistics are taken before the next run is computed.\<close>

lemma past_once_counted_enabled:
  "let s = fst (ts_schedule 1000 (demo_schedule ''o'' (OnceSchedule 10)) (new_timed_scheduler default_options))
   in ss_enabledSchedules (getStats s) = 1 \<and> map tk_status (ts_getAllTasks s) = [TK_cancelled]"
  by code_simp

text \<open>An interval of 0 makes the task due at every tick.\<close>

lemma zero_interval_always_due:
  "i = 0 \<Longrightarrow> due later (assignNextRun now (IntervalSchedule i st e))"
  by simp

end
