(* ===== verification/CronScheduler.thy ===== *)
theory CronScheduler
  imports ScheduleTypes
begin

text \<open>
  The cron scheduler (\<open>src/src/scheduler/cron-scheduler.ts\<close>, class \<open>CronScheduler\<close>): parsing of cron
  expressions, the search for the next run, and the life of cron tasks.

  The fields of a date are those of the Gregorian calendar in a local time zone whose offset from
  UTC, \<open>tz\<close>, is a constant whole number of minutes. Numbers that \<open>parseInt\<close> yields are exact
  integers or \<open>NaN\<close> (\<open>None\<close>). Task objects are kept as in \<open>TimedScheduler\<close>: at addresses, which the
  map and the running executions hold.
\<close>

subsection \<open>Dates\<close>

definition leap_year :: "int \<Rightarrow> bool" where
  "leap_year y \<longleftrightarrow> y mod 4 = 0 \<and> (y mod 100 \<noteq> 0 \<or> y mod 400 = 0)"

definition days_in_year :: "int \<Rightarrow> int" where
  "days_in_year y = (if leap_year y then 366 else 365)"

definition days_in_month :: "int \<Rightarrow> int \<Rightarrow> int" where
  "days_in_month y m =
     (if m = 2 then (if leap_year y then 29 else 28)
      else if m \<in> {4, 6, 9, 11} then 30 else 31)"

text \<open>The month and the day of the month of the \<open>d\<close>-th day after the first of month \<open>m\<close> of year \<open>y\<close>.\<close>

function month_day :: "int \<Rightarrow> int \<Rightarrow> int \<Rightarrow> int \<times> int" where
  "month_day y m d =
     (if d < days_in_month y m \<or> 12 \<le> m then (m, d + 1) else month_day y (m + 1) (d - days_in_month y m))"
  by pat_completeness auto
termination by (relation "measure (\<lambda>(y, m, d). nat (12 - m))") auto

function year_day :: "int \<Rightarrow> int \<Rightarrow> int \<times> int" where
  "year_day y d = (if d < days_in_year y then month_day y 1 d else year_day (y + 1) (d - days_in_year y))"
  by pat_completeness auto
termination by (relation "measure (\<lambda>(y, d). nat d)") (auto simp: days_in_year_def split: if_splits)

declare month_day.simps [simp del] year_day.simps [simp del]

text \<open>Months and days repeat every 400 years, which are 146097 days.\<close>

definition civil :: "int \<Rightarrow> int \<times> int" where
  "civil day = year_day 1970 (day mod 146097)"

record date_fields =
  df_minute :: int
  df_hour :: int
  df_dayOfMonth :: int
  df_month :: int
  df_dayOfWeek :: int

text \<open>\<open>getMinutes\<close>, \<open>getHours\<close>, \<open>getDate\<close>, \<open>getMonth() + 1\<close> and \<open>getDay\<close> of the date at time \<open>t\<close>; the
  first of January 1970 was a Thursday.\<close>

definition date_fields :: "int \<Rightarrow> int \<Rightarrow> date_fields" where
  "date_fields tz t =
     (let m = t div 60000 + tz; day = m div 1440; (mo, d) = civil day
      in \<lparr>df_minute = m mod 60, df_hour = m div 60 mod 24, df_dayOfMonth = d, df_month = mo,
          df_dayOfWeek = (day + 4) mod 7\<rparr>)"

subsection \<open>Cron expressions\<close>

datatype field_type = FT_every | FT_specific | FT_range | FT_step

record CronField =
  cf_type :: field_type
  cf_values :: "int option list"

record ParsedCron =
  pc_minute :: CronField
  pc_hour :: CronField
  pc_dayOfMonth :: CronField
  pc_month :: CronField
  pc_dayOfWeek :: CronField

datatype cron_error =
    MaxTasksReached
  | NotFiveFields
  | InvalidField string
  | NoNextRun
  | InvalidExpression cron_error
  | CronTaskNotFound string
  | CronHandlerThrew string

text \<open>\<open>parseInt(s, 10)\<close>: leading white space, a sign, and the digits that follow.\<close>

definition is_digit :: "char \<Rightarrow> bool" where
  "is_digit c \<longleftrightarrow> 48 \<le> (of_char c :: nat) \<and> (of_char c :: nat) \<le> 57"

definition digits_value :: "string \<Rightarrow> int" where
  "digits_value s = foldl (\<lambda>n c. 10 * n + (of_char c - 48)) 0 s"

definition js_parseInt :: "string \<Rightarrow> int option" where
  "js_parseInt s =
     (let s = dropWhile js_space s;
          sign = (case s of c # _ \<Rightarrow> if c = CHR ''-'' then -1 else 1 | [] \<Rightarrow> 1);
          s = (case s of c # rest \<Rightarrow> if c = CHR ''-'' \<or> c = CHR ''+'' then rest else s | [] \<Rightarrow> []);
          ds = takeWhile is_digit s
      in if ds = [] then None else Some (sign * digits_value ds))"

text \<open>\<open>s.split(c)\<close>, which has at least one element.\<close>

fun split_on :: "char \<Rightarrow> string \<Rightarrow> string list" where
  "split_on c [] = [[]]"
| "split_on c (x # xs) =
     (if x = c then [] # split_on c xs
      else (case split_on c xs of [] \<Rightarrow> [[x]] | w # ws \<Rightarrow> (x # w) # ws))"

lemma split_on_nonempty [simp]: "split_on c s \<noteq> []"
  by (induction s) (auto split: list.split)

lemma split_on_hd: "hd (split_on c s) = takeWhile (\<lambda>x. x \<noteq> c) s"
  by (induction s) (auto split: list.split)

definition cron_range :: "int option \<Rightarrow> int option \<Rightarrow> int option list" where
  "cron_range a b =
     (case (a, b) of (Some a, Some b) \<Rightarrow> map Some [a..b] | _ \<Rightarrow> [])"

text \<open>\<open>(v - min) % step === 0\<close>: false when a number is \<open>NaN\<close> and for a step of 0.\<close>

definition on_step :: "int \<Rightarrow> int option \<Rightarrow> int option \<Rightarrow> bool" where
  "on_step mn step v =
     (case (step, v) of (Some k, Some x) \<Rightarrow> k \<noteq> 0 \<and> (x - mn) mod k = 0 | _ \<Rightarrow> False)"

lemma takeWhile_shorter: "c \<in> set s \<Longrightarrow> length (takeWhile (\<lambda>x. x \<noteq> c) s) < length s"
  by (induction s) auto

function parseField :: "string \<Rightarrow> int \<Rightarrow> int \<Rightarrow> cron_error + CronField" where
  "parseField field mn mx =
     (if field = ''*'' then Inr \<lparr>cf_type = FT_every, cf_values = cron_range (Some mn) (Some mx)\<rparr>
      else if CHR ''/'' \<in> set field then
        (let base = hd (split_on (CHR ''/'') field);
             step = js_parseInt (split_on (CHR ''/'') field ! 1)
         in case (if base = ''*'' then Inr \<lparr>cf_type = FT_every, cf_values = cron_range (Some mn) (Some mx)\<rparr>
                  else parseField base mn mx) of
              Inl e \<Rightarrow> Inl e
            | Inr b \<Rightarrow> Inr \<lparr>cf_type = FT_step, cf_values = filter (on_step mn step) (cf_values b)\<rparr>)
      else if CHR ''-'' \<in> set field then
        (let parts = split_on (CHR ''-'') field
         in Inr \<lparr>cf_type = FT_range, cf_values = cron_range (js_parseInt (hd parts)) (js_parseInt (parts ! 1))\<rparr>)
      else if CHR '','' \<in> set field then
        Inr \<lparr>cf_type = FT_specific, cf_values = map js_parseInt (split_on (CHR '','') field)\<rparr>
      else (case js_parseInt field of
              None \<Rightarrow> Inl (InvalidField field)
            | Some v \<Rightarrow> if v < mn \<or> v > mx then Inl (InvalidField field)
                        else Inr \<lparr>cf_type = FT_specific, cf_values = [Some v]\<rparr>))"
  by pat_completeness auto
termination
  by (relation "measure (\<lambda>(field, mn, mx). length field)") (auto simp: split_on_hd takeWhile_shorter)

declare parseField.simps [simp del]

definition parseCron :: "string \<Rightarrow> cron_error + ParsedCron" where
  "parseCron expression =
     (case split_ws (js_trim expression) of
        [a, b, c, d, e] \<Rightarrow>
          (case parseField a 0 59 of Inl er \<Rightarrow> Inl er | Inr minute \<Rightarrow>
          (case parseField b 0 23 of Inl er \<Rightarrow> Inl er | Inr hour \<Rightarrow>
          (case parseField c 1 31 of Inl er \<Rightarrow> Inl er | Inr dayOfMonth \<Rightarrow>
          (case parseField d 1 12 of Inl er \<Rightarrow> Inl er | Inr month \<Rightarrow>
          (case parseField e 0 6 of Inl er \<Rightarrow> Inl er | Inr dayOfWeek \<Rightarrow>
             Inr \<lparr>pc_minute = minute, pc_hour = hour, pc_dayOfMonth = dayOfMonth, pc_month = month,
                  pc_dayOfWeek = dayOfWeek\<rparr>)))))
      | _ \<Rightarrow> Inl NotFiveFields)"

definition isValidCron :: "string \<Rightarrow> bool" where
  "isValidCron expression \<longleftrightarrow> length (split_ws (js_trim expression)) = 5"

definition matchesCron :: "int \<Rightarrow> ParsedCron \<Rightarrow> int \<Rightarrow> bool" where
  "matchesCron tz parsed t =
     (let d = date_fields tz t
      in Some (df_minute d) \<in> set (cf_values (pc_minute parsed)) \<and>
         Some (df_hour d) \<in> set (cf_values (pc_hour parsed)) \<and>
         Some (df_dayOfMonth d) \<in> set (cf_values (pc_dayOfMonth parsed)) \<and>
         Some (df_month d) \<in> set (cf_values (pc_month parsed)) \<and>
         Some (df_dayOfWeek d) \<in> set (cf_values (pc_dayOfWeek parsed)))"

subsection \<open>The next runs\<close>

text \<open>The loop of \<open>calculateNextRun\<close> with \<open>n\<close> rounds left.\<close>

function search :: "int \<Rightarrow> ParsedCron \<Rightarrow> int \<Rightarrow> int \<Rightarrow> int option" where
  "search tz parsed n t =
     (if n \<le> 0 then None
      else if matchesCron tz parsed t then Some t
      else search tz parsed (n - 1) (t + 60000))"
  by pat_completeness auto
termination by (relation "measure (\<lambda>(tz, parsed, n, t). nat n)") auto

declare search.simps [simp del]

definition first_candidate :: "int \<Rightarrow> int" where
  "first_candidate from = from div 60000 * 60000 + 60000"

definition calculateNextRun :: "int \<Rightarrow> ParsedCron \<Rightarrow> int \<Rightarrow> cron_error + int" where
  "calculateNextRun tz parsed from =
     (case search tz parsed (366 * 24 * 60) (first_candidate from) of
        Some t \<Rightarrow> Inr t
      | None \<Rightarrow> Inl NoNextRun)"

fun calculateNextRuns :: "int \<Rightarrow> ParsedCron \<Rightarrow> nat \<Rightarrow> int \<Rightarrow> cron_error + int list" where
  "calculateNextRuns tz parsed 0 from = Inr []"
| "calculateNextRuns tz parsed (Suc n) from =
     (case calculateNextRun tz parsed from of
        Inl e \<Rightarrow> Inl e
      | Inr nextRun \<Rightarrow>
          (case calculateNextRuns tz parsed n (nextRun + 60000) of
             Inl e \<Rightarrow> Inl e
           | Inr runs \<Rightarrow> Inr (nextRun # runs)))"

text \<open>\<open>Inl\<close> is a result with \<open>valid: false\<close> and the error.\<close>

definition parseCronExpression :: "int \<Rightarrow> int \<Rightarrow> string \<Rightarrow> cron_error + int list" where
  "parseCronExpression tz now expression =
     (case parseCron expression of
        Inl e \<Rightarrow> Inl e
      | Inr parsed \<Rightarrow> calculateNextRuns tz parsed 5 now)"

definition getNextCronRuns :: "int \<Rightarrow> int \<Rightarrow> string \<Rightarrow> nat \<Rightarrow> int list option" where
  "getNextCronRuns tz now expression count =
     (case parseCronExpression tz now expression of
        Inr runs \<Rightarrow> Some (take count runs)
      | Inl _ \<Rightarrow> None)"

subsection \<open>Tasks\<close>

record CronTask =
  cr_id :: string
  cr_expression :: string
  cr_timezone :: string
  cr_handler :: handler_behaviour
  cr_lastRun :: "int option"
  cr_nextRun :: "int option"
  cr_enabled :: bool
  cr_executions :: "ScheduleExecution list"
  cr_createdAt :: int

record CronSchedulerConfig =
  cc_maxTasks :: int
  cc_defaultTimezone :: string
  cc_catchUpMissed :: bool
  cc_maxCatchUpRuns :: int
  cc_executionTimeout :: int

text \<open>A handler of the caller may throw the error it returns as \<open>Some\<close>.\<close>

record CronEventHandler =
  ch_onScheduled :: "(string \<Rightarrow> string option) option"
  ch_onTriggered :: "(string \<Rightarrow> string option) option"
  ch_onCompleted :: "(string \<Rightarrow> jsval \<Rightarrow> string option) option"
  ch_onFailed :: "(string \<Rightarrow> string \<Rightarrow> string option) option"
  ch_onCancelled :: "(string \<Rightarrow> string option) option"

record cron_run =
  cn_obj :: nat
  cn_exec :: nat
  cn_outcome :: "string + jsval"

record cron_scheduler =
  cs_tasks :: "(string, nat) jsmap"
  cs_objs :: "CronTask list"
  cs_config :: CronSchedulerConfig
  cs_timer :: bool
  cs_running :: bool
  cs_runningTasks :: "string list"
  cs_handlers :: CronEventHandler
  cs_runs :: "cron_run list"

definition default_cron_config :: CronSchedulerConfig where
  "default_cron_config = \<lparr>cc_maxTasks = 100, cc_defaultTimezone = ''UTC'', cc_catchUpMissed = True,
     cc_maxCatchUpRuns = 3, cc_executionTimeout = 300000\<rparr>"

definition new_cron_scheduler :: "CronSchedulerConfig \<Rightarrow> cron_scheduler" where
  "new_cron_scheduler config = \<lparr>cs_tasks = [], cs_objs = [], cs_config = config, cs_timer = False,
     cs_running = False, cs_runningTasks = [],
     cs_handlers = \<lparr>ch_onScheduled = None, ch_onTriggered = None, ch_onCompleted = None,
       ch_onFailed = None, ch_onCancelled = None\<rparr>, cs_runs = []\<rparr>"

definition cr_upd :: "nat \<Rightarrow> (CronTask \<Rightarrow> CronTask) \<Rightarrow> cron_scheduler \<Rightarrow> cron_scheduler" where
  "cr_upd i f s = s\<lparr>cs_objs := (cs_objs s)[i := f (cs_objs s ! i)]\<rparr>"

text \<open>What calling an optional handler throws.\<close>

fun thrown :: "string option option \<Rightarrow> string option" where
  "thrown None = None"
| "thrown (Some r) = r"

text \<open>The loop of \<open>catchUpMissedRuns\<close>: the number of missed runs, which stops at the maximum.\<close>

function count_missed :: "int \<Rightarrow> ParsedCron \<Rightarrow> int \<Rightarrow> int \<Rightarrow> int \<Rightarrow> int \<Rightarrow> int" where
  "count_missed tz parsed mx now missedRuns checkTime =
     (if checkTime < now \<and> missedRuns < mx
      then count_missed tz parsed mx now
             (if matchesCron tz parsed checkTime then missedRuns + 1 else missedRuns) (checkTime + 60000)
      else missedRuns)"
  by pat_completeness auto
termination by (relation "measure (\<lambda>(tz, parsed, mx, now, missedRuns, checkTime). nat (now - checkTime))") auto

declare count_missed.simps [simp del]

definition catchUpMissedRuns ::
    "int \<Rightarrow> int \<Rightarrow> CronSchedulerConfig \<Rightarrow> ParsedCron \<Rightarrow> CronTask \<Rightarrow> CronTask" where
  "catchUpMissedRuns tz now config parsed task =
     (case cr_lastRun task of
        None \<Rightarrow> task
      | Some lastRun \<Rightarrow>
          if lastRun = 0 \<or> \<not> cc_catchUpMissed config then task
          else (let missedRuns = count_missed tz parsed (cc_maxCatchUpRuns config) now 0 (lastRun + 60000)
                in if missedRuns > 0
                   then task\<lparr>cr_executions := cr_executions task @
                     [\<lparr>se_id = ''exec-missed-'' @ dec_int now, se_scheduleId = cr_id task,
                       se_scheduledTime = Some lastRun, se_startedAt = None, se_completedAt = None,
                       se_status = SS_failed, se_output = None,
                       se_error = Some (''Missed '' @ dec_int missedRuns @ '' run(s)'')\<rparr>]\<rparr>
                   else task))"

text \<open>A cron schedule is the schedule record with the variant's expression, time zone and last run.\<close>

definition cron_schedule ::
    "int \<Rightarrow> int \<Rightarrow> Schedule \<Rightarrow> string \<Rightarrow> string option \<Rightarrow> int option \<Rightarrow> cron_scheduler
     \<Rightarrow> cron_scheduler \<times> (cron_error + string)" where
  "cron_schedule tz now schedule expression zone lastRun s =
     (if int (length (cs_tasks s)) \<ge> cc_maxTasks (cs_config s) then (s, Inl MaxTasksReached)
      else
        (case parseCronExpression tz now expression of
           Inl e \<Rightarrow> (s, Inl (InvalidExpression e))
         | Inr _ \<Rightarrow>
             (case parseCron expression of
                Inl e \<Rightarrow> (s, Inl e)
              | Inr parsed \<Rightarrow>
                  (case calculateNextRun tz parsed now of
                     Inl e \<Rightarrow> (s, Inl e)
                   | Inr nextRun \<Rightarrow>
                       (let task = \<lparr>cr_id = sd_id schedule, cr_expression = expression,
                              cr_timezone = (case zone of Some z \<Rightarrow> z | None \<Rightarrow> cc_defaultTimezone (cs_config s)),
                              cr_handler = resolveHandler (sd_task schedule), cr_lastRun = lastRun,
                              cr_nextRun = Some nextRun, cr_enabled = sd_enabled schedule,
                              cr_executions = [], cr_createdAt = now\<rparr>;
                            task = (case lastRun of
                                      Some t \<Rightarrow>
                                        if cc_catchUpMissed (cs_config s) \<and> t \<noteq> 0
                                        then catchUpMissedRuns tz now (cs_config s) parsed task else task
                                    | None \<Rightarrow> task);
                            s = s\<lparr>cs_tasks := jset (cs_tasks s) (cr_id task) (length (cs_objs s)),
                                  cs_objs := cs_objs s @ [task]\<rparr>
                        in case thrown (map_option (\<lambda>h. h (cr_id task)) (ch_onScheduled (cs_handlers s))) of
                             Some e \<Rightarrow> (s, Inl (CronHandlerThrew e))
                           | None \<Rightarrow> (s, Inr (cr_id task)))))))"

definition cron_cancel :: "string \<Rightarrow> cron_scheduler \<Rightarrow> cron_scheduler \<times> (cron_error + unit)" where
  "cron_cancel k s =
     (case jget (cs_tasks s) k of
        None \<Rightarrow> (s, Inl (CronTaskNotFound k))
      | Some i \<Rightarrow>
          (let s = cr_upd i (\<lambda>t. t\<lparr>cr_enabled := False, cr_nextRun := None\<rparr>) s
           in case thrown (map_option (\<lambda>h. h k) (ch_onCancelled (cs_handlers s))) of
                Some e \<Rightarrow> (s, Inl (CronHandlerThrew e))
              | None \<Rightarrow> (s, Inr ())))"

definition cr_getTask :: "cron_scheduler \<Rightarrow> string \<Rightarrow> CronTask option" where
  "cr_getTask s k = map_option (\<lambda>i. cs_objs s ! i) (jget (cs_tasks s) k)"

definition cr_getNextRun :: "cron_scheduler \<Rightarrow> string \<Rightarrow> int option" where
  "cr_getNextRun s k = Option.bind (cr_getTask s k) cr_nextRun"

definition cr_getExecutions :: "cron_scheduler \<Rightarrow> string \<Rightarrow> ScheduleExecution list" where
  "cr_getExecutions s k = (case cr_getTask s k of Some t \<Rightarrow> cr_executions t | None \<Rightarrow> [])"

definition cr_getAllTasks :: "cron_scheduler \<Rightarrow> CronTask list" where
  "cr_getAllTasks s = map (\<lambda>i. cs_objs s ! i) (jvals (cs_tasks s))"

definition cr_getEnabledTasks :: "cron_scheduler \<Rightarrow> CronTask list" where
  "cr_getEnabledTasks s = filter cr_enabled (cr_getAllTasks s)"

definition cr_setHandlers :: "CronEventHandler \<Rightarrow> cron_scheduler \<Rightarrow> cron_scheduler" where
  "cr_setHandlers handlers s =
     (let old = cs_handlers s
      in s\<lparr>cs_handlers :=
        \<lparr>ch_onScheduled = (case ch_onScheduled handlers of None \<Rightarrow> ch_onScheduled old | h \<Rightarrow> h),
         ch_onTriggered = (case ch_onTriggered handlers of None \<Rightarrow> ch_onTriggered old | h \<Rightarrow> h),
         ch_onCompleted = (case ch_onCompleted handlers of None \<Rightarrow> ch_onCompleted old | h \<Rightarrow> h),
         ch_onFailed = (case ch_onFailed handlers of None \<Rightarrow> ch_onFailed old | h \<Rightarrow> h),
         ch_onCancelled = (case ch_onCancelled handlers of None \<Rightarrow> ch_onCancelled old | h \<Rightarrow> h)\<rparr>\<rparr>)"

definition cron_start :: "cron_scheduler \<Rightarrow> cron_scheduler" where
  "cron_start s = (if cs_running s then s else s\<lparr>cs_running := True, cs_timer := True\<rparr>)"

definition cron_stop :: "cron_scheduler \<Rightarrow> cron_scheduler" where
  "cron_stop s = (if \<not> cs_running s then s else s\<lparr>cs_running := False, cs_timer := False\<rparr>)"

subsection \<open>Executions\<close>

text \<open>\<open>executeTask\<close> up to the \<open>await\<close>. When \<open>onTriggered\<close> throws, the promise is rejected there and the
  task stays among the running ones.\<close>

definition cron_begin :: "int \<Rightarrow> string \<Rightarrow> nat \<Rightarrow> cron_scheduler \<Rightarrow> cron_scheduler" where
  "cron_begin now rnd i s =
     (let task = cs_objs s ! i;
          s = s\<lparr>cs_runningTasks := cs_runningTasks s @ [cr_id task]\<rparr>
      in case thrown (map_option (\<lambda>h. h (cr_id task)) (ch_onTriggered (cs_handlers s))) of
           Some e \<Rightarrow> s
         | None \<Rightarrow>
             (let execution = \<lparr>se_id = gen_id ''exec'' now rnd, se_scheduleId = cr_id task,
                    se_scheduledTime = cr_nextRun task, se_startedAt = Some now, se_completedAt = None,
                    se_status = SS_running, se_output = None, se_error = None\<rparr>;
                  s = cr_upd i (\<lambda>t. t\<lparr>cr_executions := cr_executions t @ [execution]\<rparr>) s
              in s\<lparr>cs_runs := cs_runs s @ [\<lparr>cn_obj = i, cn_exec = length (cr_executions task),
                     cn_outcome = executeWithTimeout ''Cron task execution timeout''
                       (cc_executionTimeout (cs_config s)) (cr_handler task)\<rparr>]\<rparr>))"

text \<open>\<open>!task.nextRun || task.nextRun > now\<close> skips a task, as does a running execution of its id.\<close>

definition cron_ready :: "int \<Rightarrow> cron_scheduler \<Rightarrow> nat \<Rightarrow> bool" where
  "cron_ready now s i \<longleftrightarrow>
     (let task = cs_objs s ! i
      in cr_enabled task \<and>
         (case cr_nextRun task of Some n \<Rightarrow> n \<noteq> 0 \<and> n \<le> now | None \<Rightarrow> False) \<and>
         cr_id task \<notin> set (cs_runningTasks s))"

definition cron_tick :: "int \<Rightarrow> (string \<Rightarrow> string) \<Rightarrow> cron_scheduler \<Rightarrow> cron_scheduler" where
  "cron_tick now rnd s =
     fold (\<lambda>i s. if cron_ready now s i then cron_begin now (rnd (cr_id (cs_objs s ! i))) i s else s)
       (jvals (cs_tasks s)) s"

definition cr_exec ::
    "nat \<Rightarrow> nat \<Rightarrow> (ScheduleExecution \<Rightarrow> ScheduleExecution) \<Rightarrow> cron_scheduler \<Rightarrow> cron_scheduler" where
  "cr_exec i j f = cr_upd i (\<lambda>t. t\<lparr>cr_executions := (cr_executions t)[j := f (cr_executions t ! j)]\<rparr>)"

text \<open>The body of \<open>catch\<close>; an \<open>onFailed\<close> that throws does not keep \<open>finally\<close> from running.\<close>

definition cron_failed :: "nat \<Rightarrow> nat \<Rightarrow> string \<Rightarrow> cron_scheduler \<Rightarrow> cron_scheduler" where
  "cron_failed i j message = cr_exec i j (\<lambda>e. e\<lparr>se_status := SS_failed, se_output := None, se_error := Some message\<rparr>)"

text \<open>The rest of \<open>try\<close>; an \<open>onCompleted\<close> that throws turns the execution into a failed one.\<close>

definition cron_completed :: "int \<Rightarrow> nat \<Rightarrow> nat \<Rightarrow> jsval \<Rightarrow> cron_scheduler \<Rightarrow> cron_scheduler" where
  "cron_completed now i j result s =
     (let s = cr_exec i j (\<lambda>e. e\<lparr>se_completedAt := Some now, se_status := SS_completed,
                                 se_output := Some result\<rparr>) s;
          s = cr_upd i (\<lambda>t. t\<lparr>cr_lastRun := Some now\<rparr>) s
      in case thrown (map_option (\<lambda>h. h (cr_id (cs_objs s ! i)) result) (ch_onCompleted (cs_handlers s))) of
           None \<Rightarrow> s
         | Some e \<Rightarrow> cron_failed i j e s)"

text \<open>\<open>finally\<close>: the expression parsed when the task was scheduled; when no next run is found the old
  time stays.\<close>

definition cron_settled :: "int \<Rightarrow> int \<Rightarrow> nat \<Rightarrow> cron_scheduler \<Rightarrow> cron_scheduler" where
  "cron_settled tz now i s =
     (let task = cs_objs s ! i;
          s = s\<lparr>cs_runningTasks := remove_first (cr_id task) (cs_runningTasks s)\<rparr>
      in if cr_enabled task
         then (case parseCron (cr_expression task) of
                 Inl e \<Rightarrow> s
               | Inr parsed \<Rightarrow>
                   (case calculateNextRun tz parsed now of
                      Inl e \<Rightarrow> s
                    | Inr nextRun \<Rightarrow> cr_upd i (\<lambda>t. t\<lparr>cr_nextRun := Some nextRun\<rparr>) s))
         else s)"

definition cron_finish :: "int \<Rightarrow> int \<Rightarrow> nat \<Rightarrow> cron_scheduler \<Rightarrow> cron_scheduler" where
  "cron_finish tz now n s =
     (if n < length (cs_runs s)
      then (let r = cs_runs s ! n;
                s = s\<lparr>cs_runs := remove_at n (cs_runs s)\<rparr>
            in cron_settled tz now (cn_obj r)
                 (case cn_outcome r of
                    Inr result \<Rightarrow> cron_completed now (cn_obj r) (cn_exec r) result s
                  | Inl message \<Rightarrow> cron_failed (cn_obj r) (cn_exec r) message s))
      else s)"

subsection \<open>What the search finds\<close>

lemma search_Some:
  "search tz p n t = Some u \<longleftrightarrow>
   (\<exists>k. 0 \<le> k \<and> k < n \<and> u = t + 60000 * k \<and> matchesCron tz p u \<and>
        (\<forall>j. 0 \<le> j \<and> j < k \<longrightarrow> \<not> matchesCron tz p (t + 60000 * j)))"
proof (induction tz p n t rule: search.induct)
  case (1 tz p n t)
  show ?case
  proof (cases "0 < n \<and> \<not> matchesCron tz p t")
    case True
    have "search tz p n t = search tz p (n - 1) (t + 60000)" using True by (simp add: search.simps [of tz p n t])
    moreover have "(\<exists>k. 0 \<le> k \<and> k < n \<and> u = t + 60000 * k \<and> matchesCron tz p u \<and>
          (\<forall>j. 0 \<le> j \<and> j < k \<longrightarrow> \<not> matchesCron tz p (t + 60000 * j))) \<longleftrightarrow>
        (\<exists>k. 0 \<le> k \<and> k < n - 1 \<and> u = t + 60000 + 60000 * k \<and> matchesCron tz p u \<and>
          (\<forall>j. 0 \<le> j \<and> j < k \<longrightarrow> \<not> matchesCron tz p (t + 60000 + 60000 * j)))" (is "(\<exists>k. ?P k) \<longleftrightarrow> (\<exists>k. ?Q k)")
    proof
      assume "\<exists>k. ?P k"
      then obtain k where k: "?P k" ..
      with True have "k \<noteq> 0" by auto
      with k have "0 \<le> k - 1" "k - 1 < n - 1" by auto
      moreover have "\<not> matchesCron tz p (t + 60000 + 60000 * j)" if "0 \<le> j" "j < k - 1" for j
        using k [THEN conjunct2, THEN conjunct2, THEN conjunct2, THEN conjunct2, rule_format, of "j + 1"] that
        by (simp add: algebra_simps)
      moreover have "u = t + 60000 + 60000 * (k - 1)" "matchesCron tz p u" using k by auto
      ultimately show "\<exists>k. ?Q k" by blast
    next
      assume "\<exists>k. ?Q k"
      then obtain k where k: "?Q k" ..
      have "\<not> matchesCron tz p (t + 60000 * j)" if "0 \<le> j" "j < k + 1" for j
      proof (cases "j = 0")
        case False
        with that k [THEN conjunct2, THEN conjunct2, THEN conjunct2, THEN conjunct2, rule_format, of "j - 1"]
        show ?thesis by (simp add: algebra_simps)
      qed (use True in simp)
      moreover have "0 \<le> k + 1" "k + 1 < n" "u = t + 60000 * (k + 1)" "matchesCron tz p u" using k by auto
      ultimately show "\<exists>k. ?P k" by blast
    qed
    ultimately show ?thesis using 1 True by simp
  next
    case False
    then consider "n \<le> 0" | "0 < n" "matchesCron tz p t" by force
    then show ?thesis
    proof cases
      case 2
      then have "search tz p n t = Some t" by (simp add: search.simps [of tz p n t])
      moreover have "k = 0" if "0 \<le> k" "\<forall>j. 0 \<le> j \<and> j < k \<longrightarrow> \<not> matchesCron tz p (t + 60000 * j)" for k
        using that(1) that(2) [rule_format, of 0] 2 by (cases "k = 0") auto
      ultimately show ?thesis using 2 by force
    qed (auto simp: search.simps [of tz p n t])
  qed
qed

lemma search_None:
  assumes "\<And>k. 0 \<le> k \<Longrightarrow> k < n \<Longrightarrow> \<not> matchesCron tz p (t + 60000 * k)"
  shows "search tz p n t = None"
proof (cases "search tz p n t")
  case (Some u)
  then obtain k where "0 \<le> k" "k < n" "matchesCron tz p (t + 60000 * k)"
    by (auto simp: search_Some)
  with assms show ?thesis by blast
qed

lemma first_candidate_bounds:
  "60000 dvd first_candidate now" "now < first_candidate now" "first_candidate now \<le> now + 60000"
proof -
  show "60000 dvd first_candidate now" by (simp add: first_candidate_def)
  have "first_candidate now = now - now mod 60000 + 60000"
    by (simp add: first_candidate_def minus_mod_eq_div_mult [symmetric])
  moreover obtain r where "now mod 60000 = r" "0 \<le> r" "r < 60000" by simp
  ultimately show "now < first_candidate now" "first_candidate now \<le> now + 60000" by simp_all
qed

text \<open>The candidates of the search are the full minutes after now.\<close>

lemma minute_candidate:
  assumes "60000 dvd m" and "now < m"
  obtains j where "0 \<le> j" "m = first_candidate now + 60000 * j"
proof -
  from assms(1) obtain q where q: "m = 60000 * q" ..
  obtain a where a: "now div 60000 = a" by simp
  have "a * 60000 + now mod 60000 = now" "0 \<le> now mod 60000"
    using a div_mult_mod_eq [of now 60000] by simp_all
  then have "a * 60000 \<le> now" by (metis le_add_same_cancel1)
  with assms(2) q have "0 \<le> q - (a + 1)" by simp
  moreover have "m = first_candidate now + 60000 * (q - (a + 1))"
    by (simp add: q first_candidate_def a algebra_simps)
  ultimately show thesis by (rule that)
qed

lemma calculateNextRun_least:
  assumes "calculateNextRun tz p now = Inr n"
  shows "60000 dvd n" "now < n" "n \<le> now + 366 * 24 * 60 * 60000" "matchesCron tz p n"
    "\<And>m. 60000 dvd m \<Longrightarrow> now < m \<Longrightarrow> m < n \<Longrightarrow> \<not> matchesCron tz p m"
proof -
  from assms obtain k where k: "0 \<le> k" "k < 366 * 24 * 60" "n = first_candidate now + 60000 * k" "matchesCron tz p n"
    "\<forall>j. 0 \<le> j \<and> j < k \<longrightarrow> \<not> matchesCron tz p (first_candidate now + 60000 * j)"
    by (auto simp: calculateNextRun_def search_Some split: option.splits)
  note b = first_candidate_bounds [of now]
  show "60000 dvd n" "matchesCron tz p n" using k(3,4) b(1) by auto
  show "now < n" using k(1,3) b(2) by linarith
  show "n \<le> now + 366 * 24 * 60 * 60000" using k(2,3) b(3) by linarith
  fix m assume "60000 dvd m" "now < m" "m < n"
  then obtain j where j: "0 \<le> j" "m = first_candidate now + 60000 * j" by (metis minute_candidate)
  with \<open>m < n\<close> k(3) have "j < k" by simp
  with j k(5) show "\<not> matchesCron tz p m" by simp
qed

subsection \<open>The calendar\<close>

text \<open>A date falls on its day.\<close>

lemma matchesCron_day:
  "matchesCron 0 p t \<Longrightarrow> Some (fst (civil (t div 86400000))) \<in> set (cf_values (pc_month p)) \<and>
   Some (snd (civil (t div 86400000))) \<in> set (cf_values (pc_dayOfMonth p))"
proof -
  have "t div 60000 div 1440 = t div 86400000"
    by (simp add: zdiv_zmult2_eq [of 1440 t 60000, simplified, symmetric])
  then show "matchesCron 0 p t \<Longrightarrow> Some (fst (civil (t div 86400000))) \<in> set (cf_values (pc_month p)) \<and>
   Some (snd (civil (t div 86400000))) \<in> set (cf_values (pc_dayOfMonth p))"
    by (auto simp: matchesCron_def date_fields_def Let_def split: prod.splits)
qed

lemma month_day_bound: "month_day y m d = (m', d') \<Longrightarrow> 12 \<le> m' \<or> d' \<le> days_in_month y m'"
proof (induction y m d rule: month_day.induct)
  case (1 y m d)
  then show ?case by (auto simp: month_day.simps [of y m d] days_in_month_def split: if_splits)
qed

lemma month_day_leap: "month_day y m d = (2, 29) \<Longrightarrow> leap_year y"
  by (drule month_day_bound) (auto simp: days_in_month_def split: if_splits)

lemma year_day_skip:
  "sum_list (map days_in_year [y..y + int n]) \<le> d \<Longrightarrow>
   year_day y d = year_day (y + int n + 1) (d - sum_list (map days_in_year [y..y + int n]))"
proof (induction n arbitrary: y d)
  case 0
  then show ?case by (simp add: year_day.simps [of y d])
next
  case (Suc n)
  have up: "[y..y + int (Suc n)] = y # [y + 1..y + 1 + int n]" by (simp add: upto_rec1 algebra_simps)
  have "0 \<le> sum_list (map days_in_year [y + 1..y + 1 + int n])"
    by (rule sum_list_nonneg) (auto simp: days_in_year_def)
  with Suc.prems up have "year_day y d = year_day (y + 1) (d - days_in_year y)"
    by (simp add: year_day.simps [of y d])
  with Suc.IH [of "y + 1" "d - days_in_year y"] Suc.prems up show ?case
    by (simp add: algebra_simps)
qed

text \<open>No day from March 2025 to February 2028 is a leap day.\<close>

lemma no_leap_day:
  assumes "20148 \<le> day" and "day < 21184"
  shows "civil day \<noteq> (2, 29)"
proof -
  have "sum_list (map days_in_year [1970..2024]) = 20089" by code_simp
  with year_day_skip [of 1970 54 day] assms have "civil day = year_day 2025 (day - 20089)"
    by (simp add: civil_def)
  also have "\<dots> \<in> {month_day 2025 1 (day - 20089), month_day 2026 1 (day - 20454), month_day 2027 1 (day - 20819)}"
    using assms by (simp add: year_day.simps [of 2025] year_day.simps [of 2026] year_day.simps [of 2027]
        days_in_year_def leap_year_def)
  moreover have "\<not> leap_year 2025" "\<not> leap_year 2026" "\<not> leap_year 2027" by (simp_all add: leap_year_def)
  ultimately show ?thesis using month_day_leap by (metis insertE singletonD)
qed

subsection \<open>Properties\<close>

definition demo_cron :: "string \<Rightarrow> Schedule" where
  "demo_cron k = \<lparr>sd_id = k, sd_enabled = True,
     sd_task = \<lparr>sk_prompt = ''p'', sk_agentRole = None, sk_agentId = None, sk_timeout = None, sk_metadata = None\<rparr>,
     sd_createdAt = 0, sd_variant = CronSchedule ''*/2 0-3 * * *'' None None\<rparr>"

lemma catchUp_nextRun: "cr_nextRun (catchUpMissedRuns tz now c p t) = cr_nextRun t"
  "cr_id (catchUpMissedRuns tz now c p t) = cr_id t"
  by (simp_all add: catchUpMissedRuns_def Let_def split: option.split)



definition leap_day_cron :: string where
  "leap_day_cron = ''0 0 29 2 *''"



subsection \<open>Corner cases\<close>

text \<open>The preview of the next runs starts each search two minutes after the run before.\<close>

lemma preview_skips_minutes:
  "getNextCronRuns 0 1740787200000 ''* * * * *'' 3 = Some [1740787260000, 1740787380000, 1740787500000]"
  by code_simp

text \<open>A list that contains a range is read as the range, and the rest is dropped.\<close>

lemma list_with_range_truncated:
  "map_sum id cf_values (parseField ''1-5,10'' 0 59) = Inr (map Some [1..5])"
  by code_simp

text \<open>Values in a list, and the ends of a range, are not compared with the bounds of the field.\<close>

lemma list_values_unchecked:
  "map_sum id cf_values (parseField ''1,99'' 0 59) = Inr [Some 1, Some 99]"
  "map_sum id cf_values (parseField ''50-70'' 0 59) = Inr (map Some [50..70])"
  by code_simp+

text \<open>A handler \<open>onTriggered\<close> that throws leaves the task among the running ones, so no tick starts it
  again.\<close>

lemma throwing_trigger_blocks:
  assumes "ch_onTriggered (cs_handlers s) = Some h" and "h (cr_id (cs_objs s ! i)) = Some e"
  shows "\<not> cron_ready later (cron_begin now rnd i s) i"
  using assms by (simp add: cron_begin_def cron_ready_def Let_def)

subsection \<open>Missed runs\<close>

text \<open>The loop counts the matching minutes it passes, up to the maximum.\<close>

lemma count_missed_bounds:
  "missed \<le> count_missed tz p mx now missed t" "missed \<le> mx \<Longrightarrow> count_missed tz p mx now missed t \<le> mx"
proof (induction tz p mx now missed t rule: count_missed.induct)
  case (1 tz p mx now missed t)
  {
    case 1
    then show ?case using "1.IH"(1) by (auto simp: count_missed.simps [of tz p mx now missed t] split: if_splits)
  next
    case 2
    then show ?case using "1.IH"(2) by (auto simp: count_missed.simps [of tz p mx now missed t] split: if_splits)
  }
qed

text \<open>Missed runs are recorded as one failed execution, not run.\<close>

lemma catchUp_records_once:
  "cr_executions (catchUpMissedRuns tz now c p t) = cr_executions t \<or>
   (\<exists>e. cr_executions (catchUpMissedRuns tz now c p t) = cr_executions t @ [e] \<and> se_status e = SS_failed)"
  by (simp add: catchUpMissedRuns_def Let_def split: option.split)

end
