(* ===== verification/IdleDetector.thy ===== *)
theory IdleDetector
  imports ScheduleTypes
begin

text \<open>
  The idle detector (\<open>src/src/scheduler/idle-detector.ts\<close>, class \<open>IdleDetector\<close>): whether the system
  has been without activity for long enough, and the tasks that run while it is. Task objects live
  at addresses, as in \<open>TimedScheduler\<close>. The handlers of a task return or throw; those of the detector
  return.
\<close>

record IdleState =
  is_isIdle :: bool
  is_idleSince :: "int option"
  is_idleDuration :: int
  is_activeAgents :: int
  is_lastActivity :: int

record IdleTask =
  it_id :: string
  it_threshold :: int
  it_minAgents :: int
  it_schedule :: Schedule
  it_handler :: handler_behaviour
  it_lastRun :: "int option"
  it_executions :: "ScheduleExecution list"
  it_enabled :: bool
  it_createdAt :: int

record IdleDetectorConfig =
  ic_checkInterval :: int
  ic_defaultIdleThreshold :: int
  ic_defaultMinIdleAgents :: int
  ic_activityTimeout :: int

text \<open>Which handlers are set, and the calls made to them.\<close>

record IdleEventHandler =
  ih_onIdle :: bool
  ih_onActive :: bool
  ih_onTaskTriggered :: bool
  ih_onTaskCompleted :: bool
  ih_onTaskFailed :: bool

datatype idle_call =
    OnIdle
  | OnActive
  | OnTaskTriggered string
  | OnTaskCompleted string jsval
  | OnTaskFailed string string
  | OnActivity nat

record idle_run =
  ir_obj :: nat
  ir_exec :: nat
  ir_outcome :: "string + jsval"

record idle_detector =
  id_tasks :: "(string, nat) jsmap"
  id_objs :: "IdleTask list"
  id_config :: IdleDetectorConfig
  id_state :: IdleState
  id_timer :: bool
  id_running :: bool
  id_runningTasks :: "string list"
  id_activityCallbacks :: "nat list"
  id_handlers :: IdleEventHandler
  id_runs :: "idle_run list"
  id_calls :: "idle_call list"

definition default_idle_config :: IdleDetectorConfig where
  "default_idle_config = \<lparr>ic_checkInterval = 5000, ic_defaultIdleThreshold = 300000,
     ic_defaultMinIdleAgents = 0, ic_activityTimeout = 60000\<rparr>"

definition new_idle_detector :: "int \<Rightarrow> IdleDetectorConfig \<Rightarrow> idle_detector" where
  "new_idle_detector now config = \<lparr>id_tasks = [], id_objs = [], id_config = config,
     id_state = \<lparr>is_isIdle = False, is_idleSince = None, is_idleDuration = 0, is_activeAgents = 0,
       is_lastActivity = now\<rparr>,
     id_timer = False, id_running = False, id_runningTasks = [], id_activityCallbacks = [],
     id_handlers = \<lparr>ih_onIdle = False, ih_onActive = False, ih_onTaskTriggered = False,
       ih_onTaskCompleted = False, ih_onTaskFailed = False\<rparr>, id_runs = [], id_calls = []\<rparr>"

definition it_upd :: "nat \<Rightarrow> (IdleTask \<Rightarrow> IdleTask) \<Rightarrow> idle_detector \<Rightarrow> idle_detector" where
  "it_upd i f s = s\<lparr>id_objs := (id_objs s)[i := f (id_objs s ! i)]\<rparr>"

definition call_if :: "bool \<Rightarrow> idle_call \<Rightarrow> idle_detector \<Rightarrow> idle_detector" where
  "call_if b c s = (if b then s\<lparr>id_calls := id_calls s @ [c]\<rparr> else s)"

text \<open>An idle schedule is the schedule record with the variant's threshold and number of agents.\<close>

definition idle_schedule :: "int \<Rightarrow> Schedule \<Rightarrow> int \<Rightarrow> int \<Rightarrow> idle_detector \<Rightarrow> idle_detector \<times> string" where
  "idle_schedule now schedule idleThresholdMs minIdleAgents s =
     (let task = \<lparr>it_id = sd_id schedule, it_threshold = idleThresholdMs, it_minAgents = minIdleAgents,
            it_schedule = schedule, it_handler = resolveHandler (sd_task schedule), it_lastRun = None,
            it_executions = [], it_enabled = sd_enabled schedule, it_createdAt = now\<rparr>
      in (s\<lparr>id_tasks := jset (id_tasks s) (it_id task) (length (id_objs s)),
            id_objs := id_objs s @ [task]\<rparr>, it_id task))"

definition setEnabled :: "string \<Rightarrow> bool \<Rightarrow> idle_detector \<Rightarrow> idle_detector" where
  "setEnabled k b s =
     (case jget (id_tasks s) k of Some i \<Rightarrow> it_upd i (\<lambda>t. t\<lparr>it_enabled := b\<rparr>) s | None \<Rightarrow> s)"

definition idle_cancel :: "string \<Rightarrow> idle_detector \<Rightarrow> idle_detector" where
  "idle_cancel k s =
     (case jget (id_tasks s) k of Some i \<Rightarrow> it_upd i (\<lambda>t. t\<lparr>it_enabled := False\<rparr>) s | None \<Rightarrow> s)"

definition it_getTask :: "idle_detector \<Rightarrow> string \<Rightarrow> IdleTask option" where
  "it_getTask s k = map_option (\<lambda>i. id_objs s ! i) (jget (id_tasks s) k)"

definition isEnabled :: "idle_detector \<Rightarrow> string \<Rightarrow> bool" where
  "isEnabled s k = (case it_getTask s k of Some t \<Rightarrow> it_enabled t | None \<Rightarrow> False)"

definition it_getAllTasks :: "idle_detector \<Rightarrow> IdleTask list" where
  "it_getAllTasks s = map (\<lambda>i. id_objs s ! i) (jvals (id_tasks s))"

definition it_getEnabledTasks :: "idle_detector \<Rightarrow> IdleTask list" where
  "it_getEnabledTasks s = filter it_enabled (it_getAllTasks s)"

definition it_getState :: "idle_detector \<Rightarrow> IdleState" where
  "it_getState s = id_state s"

definition reportActivity :: "int \<Rightarrow> idle_detector \<Rightarrow> idle_detector" where
  "reportActivity now s =
     (let st = (id_state s)\<lparr>is_lastActivity := now, is_idleDuration := 0\<rparr>;
          s = (if is_isIdle st
               then call_if (ih_onActive (id_handlers s)) OnActive
                      (s\<lparr>id_state := st\<lparr>is_isIdle := False, is_idleSince := None\<rparr>\<rparr>)
               else s\<lparr>id_state := st\<rparr>)
      in s\<lparr>id_calls := id_calls s @ map OnActivity (id_activityCallbacks s)\<rparr>)"

definition reportAgentCount :: "int \<Rightarrow> idle_detector \<Rightarrow> idle_detector" where
  "reportAgentCount count s = s\<lparr>id_state := (id_state s)\<lparr>is_activeAgents := count\<rparr>\<rparr>"

text \<open>The callbacks are a set in insertion order; \<open>onActivity\<close> returns the call that removes one.\<close>

definition onActivity :: "nat \<Rightarrow> idle_detector \<Rightarrow> idle_detector" where
  "onActivity c s =
     (if c \<in> set (id_activityCallbacks s) then s
      else s\<lparr>id_activityCallbacks := id_activityCallbacks s @ [c]\<rparr>)"

definition offActivity :: "nat \<Rightarrow> idle_detector \<Rightarrow> idle_detector" where
  "offActivity c s = s\<lparr>id_activityCallbacks := remove_first c (id_activityCallbacks s)\<rparr>"

definition it_setHandlers :: "IdleEventHandler \<Rightarrow> idle_detector \<Rightarrow> idle_detector" where
  "it_setHandlers h s =
     (let old = id_handlers s
      in s\<lparr>id_handlers :=
        \<lparr>ih_onIdle = (ih_onIdle h \<or> ih_onIdle old), ih_onActive = (ih_onActive h \<or> ih_onActive old),
         ih_onTaskTriggered = (ih_onTaskTriggered h \<or> ih_onTaskTriggered old),
         ih_onTaskCompleted = (ih_onTaskCompleted h \<or> ih_onTaskCompleted old),
         ih_onTaskFailed = (ih_onTaskFailed h \<or> ih_onTaskFailed old)\<rparr>\<rparr>)"

definition idle_start :: "idle_detector \<Rightarrow> idle_detector" where
  "idle_start s = (if id_running s then s else s\<lparr>id_running := True, id_timer := True\<rparr>)"

definition idle_stop :: "idle_detector \<Rightarrow> idle_detector" where
  "idle_stop s = (if \<not> id_running s then s else s\<lparr>id_running := False, id_timer := False\<rparr>)"

definition checkIdleConditions :: "int \<Rightarrow> idle_detector \<Rightarrow> idle_detector \<times> bool" where
  "checkIdleConditions now s =
     (let idleDuration = now - is_lastActivity (id_state s);
          st = (id_state s)\<lparr>is_idleDuration := idleDuration\<rparr>;
          s = (if \<not> is_isIdle st \<and> idleDuration \<ge> ic_activityTimeout (id_config s)
               then call_if (ih_onIdle (id_handlers s)) OnIdle
                      (s\<lparr>id_state := st\<lparr>is_isIdle := True, is_idleSince := Some (is_lastActivity st)\<rparr>\<rparr>)
               else s\<lparr>id_state := st\<rparr>)
      in (s, is_isIdle (id_state s)))"

text \<open>\<open>executeTask\<close> up to the \<open>await\<close>.\<close>

definition idle_begin :: "int \<Rightarrow> string \<Rightarrow> nat \<Rightarrow> idle_detector \<Rightarrow> idle_detector" where
  "idle_begin now rnd i s =
     (let task = id_objs s ! i;
          s = s\<lparr>id_runningTasks := id_runningTasks s @ [it_id task]\<rparr>;
          s = call_if (ih_onTaskTriggered (id_handlers s)) (OnTaskTriggered (it_id task)) s;
          execution = \<lparr>se_id = gen_id ''exec'' now rnd, se_scheduleId = it_id task,
            se_scheduledTime = Some now, se_startedAt = Some now, se_completedAt = None,
            se_status = SS_running, se_output = None, se_error = None\<rparr>;
          s = it_upd i (\<lambda>t. t\<lparr>it_executions := it_executions t @ [execution]\<rparr>) s
      in case it_handler task of
           None \<Rightarrow> s
         | Some (_, outcome) \<Rightarrow>
             s\<lparr>id_runs := id_runs s @ [\<lparr>ir_obj = i, ir_exec = length (it_executions task),
                ir_outcome = outcome\<rparr>]\<rparr>)"

text \<open>A task that is neither disabled nor running is started when the system has been idle for the
  task's threshold, the number of active agents is at most the task's minimum of idle agents, and
  its last run is at least the threshold ago.\<close>

definition idle_ready :: "int \<Rightarrow> bool \<Rightarrow> idle_detector \<Rightarrow> nat \<Rightarrow> bool" where
  "idle_ready now isIdle s i \<longleftrightarrow>
     (let task = id_objs s ! i;
          idleLongEnough = (isIdle \<and> is_idleDuration (id_state s) \<ge> it_threshold task);
          agentsIdle = (is_activeAgents (id_state s) \<le> it_minAgents task);
          lastRun = (case it_lastRun task of Some t \<Rightarrow> t | None \<Rightarrow> 0)
      in it_enabled task \<and> it_id task \<notin> set (id_runningTasks s) \<and>
         idleLongEnough \<and> agentsIdle \<and> now - lastRun \<ge> it_threshold task)"

definition idle_tick :: "int \<Rightarrow> (string \<Rightarrow> string) \<Rightarrow> idle_detector \<Rightarrow> idle_detector" where
  "idle_tick now rnd s =
     (case checkIdleConditions now s of
        (s, isIdle) \<Rightarrow>
          fold (\<lambda>i s. if idle_ready now isIdle s i then idle_begin now (rnd (it_id (id_objs s ! i))) i s else s)
            (jvals (id_tasks s)) s)"

definition it_exec ::
    "nat \<Rightarrow> nat \<Rightarrow> (ScheduleExecution \<Rightarrow> ScheduleExecution) \<Rightarrow> idle_detector \<Rightarrow> idle_detector" where
  "it_exec i j f = it_upd i (\<lambda>t. t\<lparr>it_executions := (it_executions t)[j := f (it_executions t ! j)]\<rparr>)"

text \<open>\<open>executeTask\<close> after the \<open>await\<close>: the \<open>n\<close>-th pending execution settles.\<close>

definition idle_finish :: "int \<Rightarrow> nat \<Rightarrow> idle_detector \<Rightarrow> idle_detector" where
  "idle_finish now n s =
     (if n < length (id_runs s)
      then (let r = id_runs s ! n; i = ir_obj r; k = it_id (id_objs s ! i);
                s = s\<lparr>id_runs := remove_at n (id_runs s)\<rparr>;
                s = (case ir_outcome r of
                       Inr result \<Rightarrow>
                         call_if (ih_onTaskCompleted (id_handlers s)) (OnTaskCompleted k result)
                           (it_upd i (\<lambda>t. t\<lparr>it_lastRun := Some now\<rparr>)
                             (it_exec i (ir_exec r) (\<lambda>e. e\<lparr>se_completedAt := Some now,
                                se_status := SS_completed, se_output := Some result\<rparr>) s))
                     | Inl message \<Rightarrow>
                         call_if (ih_onTaskFailed (id_handlers s)) (OnTaskFailed k message)
                           (it_exec i (ir_exec r) (\<lambda>e. e\<lparr>se_status := SS_failed,
                              se_error := Some message\<rparr>) s))
            in s\<lparr>id_runningTasks := remove_first k (id_runningTasks s)\<rparr>)
      else s)"

subsection \<open>The idle state\<close>

datatype idle_op =
    ID_schedule int Schedule int int
  | ID_cancel string
  | ID_enable string bool
  | ID_activity int
  | ID_agents int
  | ID_on nat
  | ID_off nat
  | ID_handlers IdleEventHandler
  | ID_start
  | ID_stop
  | ID_check int
  | ID_tick int "string \<Rightarrow> string"
  | ID_finish int nat

fun idle_apply :: "idle_op \<Rightarrow> idle_detector \<Rightarrow> idle_detector" where
  "idle_apply (ID_schedule now d th n) s = fst (idle_schedule now d th n s)"
| "idle_apply (ID_cancel k) s = idle_cancel k s"
| "idle_apply (ID_enable k b) s = setEnabled k b s"
| "idle_apply (ID_activity now) s = reportActivity now s"
| "idle_apply (ID_agents n) s = reportAgentCount n s"
| "idle_apply (ID_on c) s = onActivity c s"
| "idle_apply (ID_off c) s = offActivity c s"
| "idle_apply (ID_handlers h) s = it_setHandlers h s"
| "idle_apply ID_start s = idle_start s"
| "idle_apply ID_stop s = idle_stop s"
| "idle_apply (ID_check now) s = fst (checkIdleConditions now s)"
| "idle_apply (ID_tick now rnd) s = idle_tick now rnd s"
| "idle_apply (ID_finish now n) s = idle_finish now n s"

text \<open>The system is idle exactly when it has an idle time, and that is the last activity.\<close>

definition idle_inv :: "idle_detector \<Rightarrow> bool" where
  "idle_inv s \<longleftrightarrow>
     is_idleSince (id_state s) = (if is_isIdle (id_state s) then Some (is_lastActivity (id_state s)) else None)"

lemma idle_inv_begin: "idle_inv s \<Longrightarrow> idle_inv (idle_begin now rnd i s)"
  by (simp add: idle_begin_def idle_inv_def Let_def call_if_def it_upd_def split: option.split prod.split)

lemma idle_inv_check: "idle_inv s \<Longrightarrow> idle_inv (fst (checkIdleConditions now s))"
  by (simp add: checkIdleConditions_def idle_inv_def Let_def call_if_def)

lemma idle_inv_tick: "idle_inv s \<Longrightarrow> idle_inv (idle_tick now rnd s)"
  unfolding idle_tick_def using idle_inv_check [of s now]
  by (auto split: prod.split intro!: fold_keeps [where P = idle_inv] idle_inv_begin)

lemma idle_inv_step: "idle_inv s \<Longrightarrow> idle_inv (idle_apply x s)"
proof (cases x)
  case (ID_finish now n)
  then show "idle_inv s \<Longrightarrow> ?thesis"
    by (simp add: idle_finish_def idle_inv_def Let_def call_if_def it_exec_def it_upd_def split: sum.split)
next
  case (ID_check now)
  then show "idle_inv s \<Longrightarrow> ?thesis" by (simp add: idle_inv_check)
next
  case (ID_tick now rnd)
  then show "idle_inv s \<Longrightarrow> ?thesis" by (simp add: idle_inv_tick)
qed (auto simp: idle_schedule_def idle_cancel_def setEnabled_def
      reportActivity_def reportAgentCount_def onActivity_def offActivity_def it_setHandlers_def idle_start_def
      idle_stop_def idle_inv_def Let_def call_if_def it_upd_def split: option.split)

interpretation idle_machine: op_machine idle_apply idle_inv
  by unfold_locales (rule idle_inv_step)

lemma idle_since_last_activity:
  "let st = it_getState (fold idle_apply ops (new_idle_detector now config)) in
   is_idleSince st = (if is_isIdle st then Some (is_lastActivity st) else None)"
proof -
  have "idle_inv (fold idle_apply ops (new_idle_detector now config))"
    by (rule idle_machine.inv_run) (simp add: idle_inv_def new_idle_detector_def)
  then show ?thesis by (simp add: Let_def it_getState_def idle_inv_def)
qed

text \<open>What a tick starts was ready: activity within the threshold keeps every task from starting.\<close>

lemma activity_blocks_tasks:
  assumes "is_lastActivity (id_state s) = t" and "now - t < it_threshold (id_objs s ! i)"
  shows "\<not> idle_ready now (snd (checkIdleConditions now s)) (fst (checkIdleConditions now s)) i"
  using assms by (auto simp: checkIdleConditions_def idle_ready_def Let_def call_if_def)

text \<open>A failed run does not set the time of the last run: the task is ready again at the next tick.\<close>

lemma failed_run_ready_again:
  assumes "n < length (id_runs s)" and "ir_outcome (id_runs s ! n) = Inl m" and "ir_obj (id_runs s ! n) = i"
    and "i < length (id_objs s)"
  shows "it_lastRun (id_objs (idle_finish now n s) ! i) = it_lastRun (id_objs s ! i)"
  using assms by (simp add: idle_finish_def Let_def call_if_def it_exec_def it_upd_def)

end
