(* ===== verification/MailboxTypes.thy ===== *)
theory MailboxTypes
  imports Prelude
begin

text \<open>
  The data of the messaging subsystem (\<open>src/src/mailbox/types.ts\<close>) and the filter of messages that
  the mailbox manager and the message bus share. A regular expression is represented by its test; a
  filter's empty string is the same as no filter on that field.
\<close>

datatype MessageType = MT_direct | MT_broadcast | MT_multicast | MT_request | MT_response

datatype MessagePriority = MP_low | MP_normal | MP_high | MP_urgent

datatype MessageStatus = MS_pending | MS_delivered | MS_read | MS_processed | MS_failed

text \<open>\<open>T | T[]\<close>\<close>

datatype 'a one_or_many = One 'a | Many "'a list"

fun as_list :: "'a one_or_many \<Rightarrow> 'a list" where
  "as_list (One x) = [x]"
| "as_list (Many xs) = xs"

record MailboxMessage =
  mm_id :: string
  mm_from :: string
  mm_to :: "string one_or_many"
  mm_type :: MessageType
  mm_priority :: MessagePriority
  mm_subject :: "string option"
  mm_body :: jsval
  mm_correlationId :: "string option"
  mm_replyTo :: "string option"
  mm_createdAt :: int
  mm_expiresAt :: "int option"
  mm_metadata :: "js_record option"

record Mailbox =
  mx_agentId :: string
  mx_path :: string
  mx_messages :: "MailboxMessage list"
  mx_createdAt :: int
  mx_updatedAt :: int

record MessageFilter =
  fl_from :: "string one_or_many option"
  fl_type :: "MessageType one_or_many option"
  fl_priority :: "MessagePriority one_or_many option"
  fl_subject :: "(string \<Rightarrow> bool) option"
  fl_status :: "MessageStatus one_or_many option"
  fl_since :: "int option"
  fl_until :: "int option"
  fl_limit :: "int option"

text \<open>A handler may throw the error it returns as \<open>Some\<close>.\<close>

type_synonym MessageHandler = "MailboxMessage \<Rightarrow> string option"

record Subscription =
  sb_id :: string
  sb_agentId :: string
  sb_filter :: "MessageFilter option"
  sb_handler :: MessageHandler
  sb_createdAt :: int

record MailboxStats =
  xs_totalMessages :: nat
  xs_pendingMessages :: nat
  xs_processedMessages :: nat
  xs_failedMessages :: nat
  xs_averageProcessingTime :: int
  xs_oldestPending :: "int option"

record MailboxConfig =
  mg_basePath :: string
  mg_maxMessages :: int
  mg_messageTtl :: int
  mg_persistenceEnabled :: bool
  mg_persistenceInterval :: int
  mg_lockTimeout :: int

text \<open>\<open>Omit<MailboxMessage, "id" | "from" | "createdAt" | "to">\<close>: a message whose other fields are taken,
  and its completion.\<close>

definition complete_message ::
    "string \<Rightarrow> string \<Rightarrow> string one_or_many \<Rightarrow> int \<Rightarrow> MailboxMessage \<Rightarrow> MailboxMessage" where
  "complete_message i from to now m = m\<lparr>mm_id := i, mm_from := from, mm_to := to, mm_createdAt := now\<rparr>"

text \<open>\<open>xs.slice(-n)\<close>: the last \<open>n\<close> elements for positive \<open>n\<close>, all of them for 0, and all but the first
  \<open>-n\<close> for negative \<open>n\<close>.\<close>

definition slice_neg :: "int \<Rightarrow> 'a list \<Rightarrow> 'a list" where
  "slice_neg n xs = (if 0 < n then drop (length xs - nat n) xs else drop (nat (- n)) xs)"

lemma length_slice_neg: "0 < n \<Longrightarrow> int (length (slice_neg n xs)) \<le> n"
  by (simp add: slice_neg_def)

lemma slice_neg_all: "int (length xs) \<le> n \<Longrightarrow> slice_neg n xs = xs"
  by (simp add: slice_neg_def)

text \<open>The tests on sender, type and priority, in this order. An empty sender is no filter; an empty array
  matches nothing.\<close>

definition from_ok :: "MailboxMessage \<Rightarrow> MessageFilter \<Rightarrow> bool" where
  "from_ok m f =
     (case fl_from f of
        None \<Rightarrow> True
      | Some (One s) \<Rightarrow> s = [] \<or> mm_from m = s
      | Some (Many ss) \<Rightarrow> mm_from m \<in> set ss)"

definition type_ok :: "MailboxMessage \<Rightarrow> MessageFilter \<Rightarrow> bool" where
  "type_ok m f = (case fl_type f of None \<Rightarrow> True | Some ts \<Rightarrow> mm_type m \<in> set (as_list ts))"

definition priority_ok :: "MailboxMessage \<Rightarrow> MessageFilter \<Rightarrow> bool" where
  "priority_ok m f = (case fl_priority f of None \<Rightarrow> True | Some ps \<Rightarrow> mm_priority m \<in> set (as_list ps))"

definition subject_ok :: "MailboxMessage \<Rightarrow> MessageFilter \<Rightarrow> bool" where
  "subject_ok m f =
     (case fl_subject f of
        None \<Rightarrow> True
      | Some test \<Rightarrow> (case mm_subject m of Some s \<Rightarrow> s \<noteq> [] \<and> test s | None \<Rightarrow> False))"

text \<open>A bound of 0 is falsy and no bound.\<close>

definition since_ok :: "MailboxMessage \<Rightarrow> MessageFilter \<Rightarrow> bool" where
  "since_ok m f = (case fl_since f of None \<Rightarrow> True | Some t \<Rightarrow> t = 0 \<or> mm_createdAt m \<ge> t)"

definition until_ok :: "MailboxMessage \<Rightarrow> MessageFilter \<Rightarrow> bool" where
  "until_ok m f = (case fl_until f of None \<Rightarrow> True | Some t \<Rightarrow> t = 0 \<or> mm_createdAt m \<le> t)"

definition is_broadcast_filter :: "Subscription \<Rightarrow> bool" where
  "is_broadcast_filter s \<longleftrightarrow> (case sb_filter s of Some f \<Rightarrow> fl_type f = Some (One MT_broadcast) | None \<Rightarrow> False)"

end
