(* ===== verification/MailboxManager.thy ===== *)
theory MailboxManager
  imports MailboxTypes
begin

text \<open>
  The mailbox manager (\<open>src/src/mailbox/mailbox-manager.ts\<close>, class \<open>FileMailboxManager\<close>).

  The directory of mailbox files is part of the state: a file holds a mailbox, or text that does not
  parse (\<open>None\<close>). Agent ids are used as file names as they are; an id with a path separator is not
  modelled. Values are stored by value, as JSON keeps them. A lock file that some other process
  created is an entry of \<open>md_locks\<close> with the time at which it disappears, if it does; between two
  calls this manager holds no lock. The clock advances only while a call waits for a lock, by
  exactly the retry delay.
\<close>

record mailbox_dir =
  md_files :: "(string, Mailbox option) jsmap"
  md_locks :: "(string, int option) jsmap"

record mailbox_manager =
  mn_config :: MailboxConfig
  mn_mailboxes :: "(string, Mailbox) jsmap"
  mn_subscriptions :: "(string, Subscription) jsmap"
  mn_calls :: "(string \<times> MailboxMessage) list"

type_synonym mailbox_state = "mailbox_dir \<times> mailbox_manager"

datatype mailbox_error = LockFailed string

definition LOCK_RETRY_DELAY :: int where "LOCK_RETRY_DELAY = 10"

definition LOCK_TIMEOUT :: int where "LOCK_TIMEOUT = 5000"

definition default_mailbox_config :: MailboxConfig where
  "default_mailbox_config = \<lparr>mg_basePath = ''mailboxes'', mg_maxMessages = 1000, mg_messageTtl = 86400000,
     mg_persistenceEnabled = True, mg_persistenceInterval = 60000, mg_lockTimeout = 5000\<rparr>"

definition getMailboxPath :: "mailbox_manager \<Rightarrow> string \<Rightarrow> string" where
  "getMailboxPath s agentId = mg_basePath (mn_config s) @ ''/'' @ agentId @ ''.json''"

subsection \<open>Loading and saving\<close>

definition loadMailbox :: "mailbox_dir \<Rightarrow> string \<Rightarrow> (string, Mailbox) jsmap \<Rightarrow> (string, Mailbox) jsmap" where
  "loadMailbox d agentId m =
     (case jget (md_files d) agentId of Some (Some box) \<Rightarrow> jset m agentId box | _ \<Rightarrow> m)"

definition loadAllMailboxes :: "mailbox_dir \<Rightarrow> (string, Mailbox) jsmap" where
  "loadAllMailboxes d = fold (loadMailbox d) (jkeys (md_files d)) []"

definition new_mailbox_manager :: "MailboxConfig \<Rightarrow> mailbox_dir \<Rightarrow> mailbox_manager" where
  "new_mailbox_manager config d = \<lparr>mn_config = config,
     mn_mailboxes = (if mg_persistenceEnabled config then loadAllMailboxes d else []),
     mn_subscriptions = [], mn_calls = []\<rparr>"

definition saveMailbox :: "string \<Rightarrow> mailbox_state \<Rightarrow> mailbox_state" where
  "saveMailbox agentId = (\<lambda>(d, s).
     if \<not> mg_persistenceEnabled (mn_config s) then (d, s)
     else (case jget (mn_mailboxes s) agentId of
             None \<Rightarrow> (d, s)
           | Some box \<Rightarrow> (d\<lparr>md_files := jset (md_files d) agentId (Some box)\<rparr>, s)))"

subsection \<open>Locks\<close>

definition lock_free :: "mailbox_dir \<Rightarrow> string \<Rightarrow> int \<Rightarrow> bool" where
  "lock_free d agentId t =
     (case jget (md_locks d) agentId of
        None \<Rightarrow> True
      | Some None \<Rightarrow> False
      | Some (Some r) \<Rightarrow> r \<le> t)"

text \<open>The attempts from time \<open>t\<close> on, of a call that started at \<open>start\<close>: the time at which the lock file is
  created, or \<open>None\<close> when the call throws.\<close>

function acquire_from :: "mailbox_dir \<Rightarrow> string \<Rightarrow> int \<Rightarrow> int \<Rightarrow> int option" where
  "acquire_from d agentId start t =
     (if t - start \<ge> LOCK_TIMEOUT then None
      else if lock_free d agentId t then Some t
      else acquire_from d agentId start (t + LOCK_RETRY_DELAY))"
  by pat_completeness auto
termination
  by (relation "measure (\<lambda>(d, agentId, start, t). nat (start + LOCK_TIMEOUT - t))")
     (auto simp: LOCK_RETRY_DELAY_def)

declare acquire_from.simps [simp del]

definition acquireLock :: "int \<Rightarrow> string \<Rightarrow> mailbox_state \<Rightarrow> int option" where
  "acquireLock now agentId = (\<lambda>(d, s). acquire_from d agentId now now)"

text \<open>The lock file is removed, whoever created it.\<close>

definition releaseLock :: "string \<Rightarrow> mailbox_state \<Rightarrow> mailbox_state" where
  "releaseLock agentId = (\<lambda>(d, s). (d\<lparr>md_locks := jdel (md_locks d) agentId\<rparr>, s))"

text \<open>\<open>await this.acquireLock(k); try { body } finally { this.releaseLock(k) }\<close>, with the time after it.\<close>

definition with_lock ::
    "int \<Rightarrow> string \<Rightarrow> (int \<Rightarrow> mailbox_state \<Rightarrow> mailbox_state) \<Rightarrow> mailbox_state
     \<Rightarrow> mailbox_state \<times> (mailbox_error + int)" where
  "with_lock now agentId body st =
     (case acquireLock now agentId st of
        None \<Rightarrow> (st, Inl (LockFailed agentId))
      | Some t \<Rightarrow> (releaseLock agentId (body t st), Inr t))"

subsection \<open>Mailboxes\<close>

definition createMailbox :: "int \<Rightarrow> string \<Rightarrow> mailbox_state \<Rightarrow> mailbox_state" where
  "createMailbox now agentId = (\<lambda>(d, s).
     case jget (mn_mailboxes s) agentId of
       Some _ \<Rightarrow> (d, s)
     | None \<Rightarrow>
         saveMailbox agentId (d, s\<lparr>mn_mailboxes := jset (mn_mailboxes s) agentId
           \<lparr>mx_agentId = agentId, mx_path = getMailboxPath s agentId, mx_messages = [],
            mx_createdAt = now, mx_updatedAt = now\<rparr>\<rparr>))"

definition delete_body :: "string \<Rightarrow> int \<Rightarrow> mailbox_state \<Rightarrow> mailbox_state" where
  "delete_body agentId t = (\<lambda>(d, s).
     (if mg_persistenceEnabled (mn_config s) then d\<lparr>md_files := jdel (md_files d) agentId\<rparr> else d,
      s\<lparr>mn_mailboxes := jdel (mn_mailboxes s) agentId,
        mn_subscriptions := jdrop (\<lambda>_ sub. sb_agentId sub = agentId) (mn_subscriptions s)\<rparr>))"

definition deleteMailbox ::
    "int \<Rightarrow> string \<Rightarrow> mailbox_state \<Rightarrow> mailbox_state \<times> (mailbox_error + int)" where
  "deleteMailbox now agentId = with_lock now agentId (delete_body agentId)"

definition getMailbox :: "mailbox_manager \<Rightarrow> string \<Rightarrow> Mailbox option" where
  "getMailbox s agentId = jget (mn_mailboxes s) agentId"

definition listMailboxes :: "mailbox_manager \<Rightarrow> Mailbox list" where
  "listMailboxes s = jvals (mn_mailboxes s)"

subsection \<open>Messages\<close>

definition mailbox_matchesFilter :: "MailboxMessage \<Rightarrow> MessageFilter option \<Rightarrow> bool" where
  "mailbox_matchesFilter m flt =
     (case flt of None \<Rightarrow> True | Some f \<Rightarrow> from_ok m f \<and> type_ok m f \<and> priority_ok m f)"

definition notifySubscribers :: "string \<Rightarrow> MailboxMessage \<Rightarrow> mailbox_manager \<Rightarrow> mailbox_manager" where
  "notifySubscribers agentId m s =
     s\<lparr>mn_calls := mn_calls s @ map (\<lambda>sub. (sb_id sub, m))
        (filter (\<lambda>sub. sb_agentId sub = agentId \<and> mailbox_matchesFilter m (sb_filter sub))
          (jvals (mn_subscriptions s)))\<rparr>"

definition notifyBroadcastSubscribers :: "MailboxMessage \<Rightarrow> mailbox_manager \<Rightarrow> mailbox_manager" where
  "notifyBroadcastSubscribers m s =
     s\<lparr>mn_calls := mn_calls s @ map (\<lambda>sub. (sb_id sub, m))
        (filter is_broadcast_filter (jvals (mn_subscriptions s)))\<rparr>"

text \<open>\<open>push\<close>, and the truncation to the last \<open>maxMessages\<close>.\<close>

definition push_message :: "MailboxConfig \<Rightarrow> int \<Rightarrow> MailboxMessage \<Rightarrow> Mailbox \<Rightarrow> Mailbox" where
  "push_message config now m box =
     (let ms = mx_messages box @ [m]
      in box\<lparr>mx_messages := (if int (length ms) > mg_maxMessages config
                              then slice_neg (mg_maxMessages config) ms else ms),
             mx_updatedAt := now\<rparr>)"

definition deliver_body ::
    "string \<Rightarrow> string \<Rightarrow> string \<Rightarrow> MailboxMessage \<Rightarrow> int \<Rightarrow> mailbox_state \<Rightarrow> mailbox_state" where
  "deliver_body rnd from recipientId message t st =
     (case (if jhas (mn_mailboxes (snd st)) recipientId then st else createMailbox t recipientId st) of
        (d, s) \<Rightarrow>
          (let m = complete_message (gen_id ''msg'' t rnd) from (One recipientId) t message;
               s = s\<lparr>mn_mailboxes := jmodify (mn_mailboxes s) recipientId (push_message (mn_config s) t m)\<rparr>
           in case saveMailbox recipientId (d, s) of (d, s) \<Rightarrow> (d, notifySubscribers recipientId m s)))"

text \<open>The loop over the recipients; the random part of a message id is drawn per recipient.\<close>

fun send_loop ::
    "(string \<Rightarrow> string) \<Rightarrow> string \<Rightarrow> MailboxMessage \<Rightarrow> string list \<Rightarrow> int \<Rightarrow> mailbox_state
     \<Rightarrow> mailbox_state \<times> (mailbox_error + int)" where
  "send_loop rnd from message [] now st = (st, Inr now)"
| "send_loop rnd from message (k # ks) now st =
     (case with_lock now k (deliver_body (rnd k) from k message) st of
        (st, Inl e) \<Rightarrow> (st, Inl e)
      | (st, Inr t) \<Rightarrow> send_loop rnd from message ks t st)"

definition sendMessage ::
    "int \<Rightarrow> (string \<Rightarrow> string) \<Rightarrow> string \<Rightarrow> string one_or_many \<Rightarrow> MailboxMessage \<Rightarrow> mailbox_state
     \<Rightarrow> mailbox_state \<times> (mailbox_error + int)" where
  "sendMessage now rnd from to message = send_loop rnd from message (as_list to) now"

text \<open>The status test asks whether the filter's list contains \<open>pending\<close>, whatever the message.\<close>

definition apply_filter :: "MessageFilter \<Rightarrow> MailboxMessage list \<Rightarrow> MailboxMessage list" where
  "apply_filter f ms =
     (let ms = filter (\<lambda>m. from_ok m f) ms;
          ms = filter (\<lambda>m. type_ok m f) ms;
          ms = filter (\<lambda>m. priority_ok m f) ms;
          ms = filter (\<lambda>m. subject_ok m f) ms;
          ms = (case fl_status f of None \<Rightarrow> ms | Some ss \<Rightarrow> filter (\<lambda>_. MS_pending \<in> set (as_list ss)) ms);
          ms = filter (\<lambda>m. since_ok m f) ms;
          ms = filter (\<lambda>m. until_ok m f) ms
      in case fl_limit f of Some n \<Rightarrow> if n \<noteq> 0 then slice_neg n ms else ms | None \<Rightarrow> ms)"

definition getMessages :: "mailbox_manager \<Rightarrow> string \<Rightarrow> MessageFilter option \<Rightarrow> MailboxMessage list" where
  "getMessages s agentId flt =
     (case jget (mn_mailboxes s) agentId of
        None \<Rightarrow> []
      | Some box \<Rightarrow> (case flt of None \<Rightarrow> mx_messages box | Some f \<Rightarrow> apply_filter f (mx_messages box)))"

definition mark_body :: "string \<Rightarrow> string \<Rightarrow> int \<Rightarrow> mailbox_state \<Rightarrow> mailbox_state" where
  "mark_body agentId messageId t = (\<lambda>(d, s).
     case jget (mn_mailboxes s) agentId of
       None \<Rightarrow> (d, s)
     | Some box \<Rightarrow>
         if (\<exists>m\<in>set (mx_messages box). mm_id m = messageId)
         then saveMailbox agentId (d, s\<lparr>mn_mailboxes := jset (mn_mailboxes s) agentId (box\<lparr>mx_updatedAt := t\<rparr>)\<rparr>)
         else (d, s))"

definition markProcessed ::
    "int \<Rightarrow> string \<Rightarrow> string \<Rightarrow> mailbox_state \<Rightarrow> mailbox_state \<times> (mailbox_error + int)" where
  "markProcessed now agentId messageId = with_lock now agentId (mark_body agentId messageId)"

definition mb_subscribe ::
    "int \<Rightarrow> string \<Rightarrow> string \<Rightarrow> MessageHandler \<Rightarrow> MessageFilter option \<Rightarrow> mailbox_state \<Rightarrow> mailbox_state \<times> string" where
  "mb_subscribe now rnd agentId handler flt = (\<lambda>(d, s).
     let k = gen_id ''sub'' now rnd
     in ((d, s\<lparr>mn_subscriptions := jset (mn_subscriptions s) k \<lparr>sb_id = k, sb_agentId = agentId,
            sb_filter = flt, sb_handler = handler, sb_createdAt = now\<rparr>\<rparr>), k))"

definition mb_unsubscribe :: "string \<Rightarrow> mailbox_state \<Rightarrow> mailbox_state" where
  "mb_unsubscribe k = (\<lambda>(d, s). (d, s\<lparr>mn_subscriptions := jdel (mn_subscriptions s) k\<rparr>))"

definition mb_broadcast ::
    "int \<Rightarrow> string \<Rightarrow> string \<Rightarrow> string \<Rightarrow> MailboxMessage \<Rightarrow> mailbox_state \<Rightarrow> mailbox_state" where
  "mb_broadcast now rnd from teamId message = (\<lambda>(d, s).
     (d, notifyBroadcastSubscribers
       (complete_message (gen_id ''broadcast'' now rnd) from (One teamId) now message) s))"

definition mb_getStats :: "int \<Rightarrow> mailbox_manager \<Rightarrow> string \<Rightarrow> MailboxStats" where
  "mb_getStats now s agentId =
     (case jget (mn_mailboxes s) agentId of
        None \<Rightarrow> \<lparr>xs_totalMessages = 0, xs_pendingMessages = 0, xs_processedMessages = 0,
          xs_failedMessages = 0, xs_averageProcessingTime = 0, xs_oldestPending = None\<rparr>
      | Some box \<Rightarrow> \<lparr>xs_totalMessages = length (mx_messages box),
          xs_pendingMessages = length (filter (\<lambda>m. mm_createdAt m > now - 3600000) (mx_messages box)),
          xs_processedMessages = length (mx_messages box), xs_failedMessages = 0,
          xs_averageProcessingTime = 0,
          xs_oldestPending = (case mx_messages box of m # _ \<Rightarrow> Some (mm_createdAt m) | [] \<Rightarrow> None)\<rparr>)"

text \<open>An expiry of 0 is falsy: the message does not expire.\<close>

definition msg_expired :: "int \<Rightarrow> MailboxMessage \<Rightarrow> bool" where
  "msg_expired now m = (case mm_expiresAt m of Some t \<Rightarrow> t \<noteq> 0 \<and> t < now | None \<Rightarrow> False)"

definition prune_body :: "string \<Rightarrow> int \<Rightarrow> int \<Rightarrow> mailbox_state \<Rightarrow> mailbox_state" where
  "prune_body agentId now t = (\<lambda>(d, s).
     saveMailbox agentId (d, s\<lparr>mn_mailboxes := jmodify (mn_mailboxes s) agentId
       (\<lambda>box. box\<lparr>mx_messages := filter (\<lambda>m. \<not> msg_expired now m) (mx_messages box), mx_updatedAt := t\<rparr>)\<rparr>))"

fun prune_loop ::
    "int \<Rightarrow> string list \<Rightarrow> nat \<Rightarrow> int \<Rightarrow> mailbox_state \<Rightarrow> mailbox_state \<times> (mailbox_error + nat)" where
  "prune_loop now [] pruned t st = (st, Inr pruned)"
| "prune_loop now (k # ks) pruned t st =
     (let expired = length (filter (msg_expired now)
            (case jget (mn_mailboxes (snd st)) k of Some box \<Rightarrow> mx_messages box | None \<Rightarrow> []))
      in if expired > 0
         then (case with_lock t k (prune_body k now) st of
                 (st, Inl e) \<Rightarrow> (st, Inl e)
               | (st, Inr t) \<Rightarrow> prune_loop now ks (pruned + expired) t st)
         else prune_loop now ks pruned t st)"

definition mb_pruneExpired :: "int \<Rightarrow> mailbox_state \<Rightarrow> mailbox_state \<times> (mailbox_error + nat)" where
  "mb_pruneExpired now st = prune_loop now (jkeys (mn_mailboxes (snd st))) 0 now st"

text \<open>No lock of this manager is held between calls, so \<open>shutdown\<close> has none to release.\<close>

definition mb_shutdown :: "mailbox_state \<Rightarrow> mailbox_state" where
  "mb_shutdown = (\<lambda>(d, s). (d, s\<lparr>mn_mailboxes := [], mn_subscriptions := []\<rparr>))"

subsection \<open>What the files hold\<close>

text \<open>The configuration is \<open>c\<close>, and with persistence the mailboxes in memory are those of the files
  that parse.\<close>

definition box_of_file :: "Mailbox option option \<Rightarrow> Mailbox option" where
  "box_of_file f = (case f of Some (Some box) \<Rightarrow> Some box | _ \<Rightarrow> None)"

definition in_step :: "MailboxConfig \<Rightarrow> mailbox_state \<Rightarrow> bool" where
  "in_step c = (\<lambda>(d, s). mn_config s = c \<and> jwf (md_files d) \<and> jwf (mn_mailboxes s) \<and>
     (mg_persistenceEnabled c \<longrightarrow>
       (\<forall>k. jget (mn_mailboxes s) k = box_of_file (jget (md_files d) k))))"

lemma loaded_append:
  "distinct ks \<Longrightarrow> jget (fold (loadMailbox d) ks m) k =
     (if k \<in> set ks then (case box_of_file (jget (md_files d) k) of Some b \<Rightarrow> Some b | None \<Rightarrow> jget m k)
      else jget m k)"
proof (induction ks arbitrary: m)
  case (Cons j ks)
  then show ?case by (auto simp: loadMailbox_def box_of_file_def split: option.split)
qed simp

lemma jget_loadAll:
  assumes "jwf (md_files d)"
  shows "jget (loadAllMailboxes d) k = box_of_file (jget (md_files d) k)"
proof (cases "jhas (md_files d) k")
  case True
  then have "k \<in> set (jkeys (md_files d))" using jhas_keys by metis
  with assms show ?thesis
    using loaded_append [of "jkeys (md_files d)" d "[]" k]
    by (simp add: loadAllMailboxes_def jwf_def split: option.split)
next
  case False
  then have "k \<notin> set (jkeys (md_files d))" using jhas_keys by metis
  moreover have "jget (md_files d) k = None" using False by simp
  moreover have "distinct (jkeys (md_files d))" using assms by (simp add: jwf_def)
  ultimately show ?thesis
    using loaded_append [of "jkeys (md_files d)" d "[]" k]
    by (simp only: loadAllMailboxes_def box_of_file_def if_False map_of.simps option.case)
qed

lemma jwf_loadAll: "jwf (loadAllMailboxes d)"
  unfolding loadAllMailboxes_def
  by (rule fold_keeps [where P = jwf]) (auto simp: loadMailbox_def split: option.split)

lemma in_step_new: "jwf (md_files d) \<Longrightarrow> in_step c (d, new_mailbox_manager c d)"
  by (simp add: in_step_def new_mailbox_manager_def jget_loadAll jwf_loadAll)

text \<open>An update of one mailbox in memory that is saved at once.\<close>

lemma in_step_saved:
  assumes "in_step c (d, s)"
  shows "in_step c (saveMailbox k (d, s\<lparr>mn_mailboxes := jset (mn_mailboxes s) k b\<rparr>))"
  using assms by (auto simp: in_step_def saveMailbox_def box_of_file_def)

lemma jmodify_some: "jget m k = Some v \<Longrightarrow> jmodify m k f = jset m k (f v)"
  by (simp add: jmodify_def)

lemma jmodify_none: "jget m k = None \<Longrightarrow> jmodify m k f = m"
  by (simp add: jmodify_def)

lemma save_none: "jget (mn_mailboxes s) k = None \<Longrightarrow> saveMailbox k (d, s) = (d, s)"
  by (simp add: saveMailbox_def)

lemma in_step_modified:
  assumes "in_step c (d, s)"
  shows "in_step c (saveMailbox k (d, s\<lparr>mn_mailboxes := jmodify (mn_mailboxes s) k f\<rparr>))"
proof (cases "jget (mn_mailboxes s) k")
  case None
  with assms show ?thesis by (simp add: jmodify_none save_none)
next
  case (Some b)
  with in_step_saved [OF assms] show ?thesis by (simp add: jmodify_some)
qed

lemma in_step_frame [simp]:
  "in_step c (d\<lparr>md_locks := l\<rparr>, s) = in_step c (d, s)"
  "in_step c (d, s\<lparr>mn_calls := cs\<rparr>) = in_step c (d, s)"
  "in_step c (d, s\<lparr>mn_subscriptions := u\<rparr>) = in_step c (d, s)"
  by (simp_all add: in_step_def)

lemma in_step_notify [simp]: "in_step c (d, notifySubscribers k m s) = in_step c (d, s)"
  "in_step c (d, notifyBroadcastSubscribers m s) = in_step c (d, s)"
  "in_step c (case st of (d, s) \<Rightarrow> (d, notifySubscribers k m s)) = in_step c st"
  by (cases st; simp add: notifySubscribers_def notifyBroadcastSubscribers_def)+

lemma in_step_release [simp]: "in_step c (releaseLock k st) = in_step c st"
  by (cases st) (simp add: releaseLock_def)

lemma in_step_with_lock:
  "in_step c st \<Longrightarrow> (\<And>t u. in_step c u \<Longrightarrow> in_step c (body t u)) \<Longrightarrow> in_step c (fst (with_lock now k body st))"
  by (simp add: with_lock_def split: option.split)

lemma in_step_create: "in_step c st \<Longrightarrow> in_step c (createMailbox now k st)"
  by (cases st) (auto simp: createMailbox_def split: option.split intro: in_step_saved)

lemma in_step_delete_body: "in_step c st \<Longrightarrow> in_step c (delete_body k t st)"
  by (cases st) (auto simp: delete_body_def in_step_def box_of_file_def)

lemma in_step_deliver_body: "in_step c st \<Longrightarrow> in_step c (deliver_body rnd from k m t st)"
proof -
  assume "in_step c st"
  then have "in_step c (if jhas (mn_mailboxes (snd st)) k then st else createMailbox t k st)"
    by (simp add: in_step_create)
  moreover obtain d s where "(if jhas (mn_mailboxes (snd st)) k then st else createMailbox t k st) = (d, s)"
    by force
  ultimately show ?thesis
    using in_step_modified [of c d s k] unfolding deliver_body_def Let_def by simp
qed

lemma in_step_send_loop: "in_step c st \<Longrightarrow> in_step c (fst (send_loop rnd from m ks now st))"
proof (induction ks arbitrary: now st)
  case (Cons k ks)
  have "in_step c (fst (with_lock now k (deliver_body (rnd k) from k m) st))"
    using Cons.prems by (intro in_step_with_lock in_step_deliver_body)
  with Cons.IH show ?case by (auto split: prod.split sum.split)
qed simp

lemma in_step_mark_body: "in_step c st \<Longrightarrow> in_step c (mark_body k i t st)"
  by (cases st) (auto simp: mark_body_def split: option.split intro: in_step_saved)

lemma in_step_prune_loop: "in_step c st \<Longrightarrow> in_step c (fst (prune_loop now ks n t st))"
proof (induction ks arbitrary: n t st)
  case (Cons k ks)
  have "in_step c u \<Longrightarrow> in_step c (prune_body k now t u)" for t u
    by (cases u) (simp add: prune_body_def in_step_modified)
  then have "in_step c (fst (with_lock t k (prune_body k now) st))"
    using Cons.prems by (intro in_step_with_lock)
  with Cons show ?case by (auto simp: Let_def split: prod.split sum.split)
qed simp

datatype mailbox_op =
    MB_create int string
  | MB_delete int string
  | MB_send int "string \<Rightarrow> string" string "string one_or_many" MailboxMessage
  | MB_mark int string string
  | MB_subscribe int string string MessageHandler "MessageFilter option"
  | MB_unsubscribe string
  | MB_broadcast int string string string MailboxMessage
  | MB_prune int

fun mb_apply :: "mailbox_op \<Rightarrow> mailbox_state \<Rightarrow> mailbox_state" where
  "mb_apply (MB_create now k) st = createMailbox now k st"
| "mb_apply (MB_delete now k) st = fst (deleteMailbox now k st)"
| "mb_apply (MB_send now rnd from to m) st = fst (sendMessage now rnd from to m st)"
| "mb_apply (MB_mark now k i) st = fst (markProcessed now k i st)"
| "mb_apply (MB_subscribe now rnd k h f) st = fst (mb_subscribe now rnd k h f st)"
| "mb_apply (MB_unsubscribe i) st = mb_unsubscribe i st"
| "mb_apply (MB_broadcast now rnd from k m) st = mb_broadcast now rnd from k m st"
| "mb_apply (MB_prune now) st = fst (mb_pruneExpired now st)"

lemma in_step_step: "in_step c st \<Longrightarrow> in_step c (mb_apply x st)"
proof (cases x)
  case (MB_subscribe now rnd k h f)
  then show "in_step c st \<Longrightarrow> ?thesis" by (cases st) (simp add: mb_subscribe_def Let_def)
next
  case (MB_unsubscribe i)
  then show "in_step c st \<Longrightarrow> ?thesis" by (cases st) (simp add: mb_unsubscribe_def)
next
  case (MB_broadcast now rnd sender k m)
  then show "in_step c st \<Longrightarrow> ?thesis" by (cases st) (simp add: mb_broadcast_def)
qed (auto simp: deleteMailbox_def sendMessage_def markProcessed_def mb_pruneExpired_def in_step_create
      in_step_send_loop in_step_prune_loop intro: in_step_with_lock in_step_delete_body in_step_mark_body)

interpretation mailbox_machine: op_machine mb_apply "in_step c"
  by unfold_locales (rule in_step_step)

subsection \<open>Properties\<close>

definition demo_message :: "string \<Rightarrow> MailboxMessage" where
  "demo_message t = \<lparr>mm_id = [], mm_from = [], mm_to = One [], mm_type = MT_direct, mm_priority = MP_normal,
     mm_subject = Some t, mm_body = JStr t, mm_correlationId = None, mm_replyTo = None, mm_createdAt = 0,
     mm_expiresAt = None, mm_metadata = None\<rparr>"

definition empty_dir :: mailbox_dir where
  "empty_dir = \<lparr>md_files = [], md_locks = []\<rparr>"


definition demo_mailbox_ops :: "mailbox_op list" where
  "demo_mailbox_ops = [MB_send 5 (\<lambda>k. k) ''a'' (Many [''b'', ''c'']) (demo_message ''hello''), MB_delete 7 ''c'']"


subsection \<open>Sending\<close>

text \<open>The messages of an agent; none without a mailbox.\<close>

definition messages_of :: "mailbox_state \<Rightarrow> string \<Rightarrow> MailboxMessage list" where
  "messages_of st k = getMessages (snd st) k None"

lemma messages_of_deliver:
  assumes "mn_config (snd st) = c"
  shows "messages_of (deliver_body rnd from k m t st) j =
    (if j = k then (let ms = messages_of st k @ [complete_message (gen_id ''msg'' t rnd) from (One k) t m]
                    in if int (length ms) > mg_maxMessages c then slice_neg (mg_maxMessages c) ms else ms)
     else messages_of st j)"
proof -
  obtain d s where st: "st = (d, s)" by force
  have save: "mn_mailboxes (snd (saveMailbox k u)) = mn_mailboxes (snd u)"
    "mn_config (snd (saveMailbox k u)) = mn_config (snd u)" for k u
    by (cases u; auto simp: saveMailbox_def split: option.split)+
  have notify: "mn_mailboxes (notifySubscribers k m s) = mn_mailboxes s" for m s
    by (simp add: notifySubscribers_def)
  have pair: "snd (case p of (d, s) \<Rightarrow> (d, notifySubscribers k m s)) = notifySubscribers k m (snd p)" for p m
    by (cases p) simp
  show ?thesis
  proof (cases "jget (mn_mailboxes s) k")
    case None
    obtain d1 s1 where c1: "createMailbox t k (d, s) = (d1, s1)" by force
    have "mn_mailboxes s1 = jset (mn_mailboxes s) k \<lparr>mx_agentId = k, mx_path = getMailboxPath s k,
        mx_messages = [], mx_createdAt = t, mx_updatedAt = t\<rparr>" "mn_config s1 = mn_config s"
      using c1 None save [of k "(d, s\<lparr>mn_mailboxes := jset (mn_mailboxes s) k \<lparr>mx_agentId = k,
        mx_path = getMailboxPath s k, mx_messages = [], mx_createdAt = t, mx_updatedAt = t\<rparr>\<rparr>)"]
      by (auto simp: createMailbox_def)
    with None c1 st assms show ?thesis
      by (simp add: deliver_body_def Let_def messages_of_def getMessages_def pair notify save push_message_def
          split: option.split)
  next
    case (Some b)
    with st assms show ?thesis
      by (simp add: deliver_body_def Let_def messages_of_def getMessages_def pair notify save push_message_def)
  qed
qed

definition keep_last :: "MailboxConfig \<Rightarrow> MailboxMessage list \<Rightarrow> MailboxMessage list" where
  "keep_last c ms = (if int (length ms) > mg_maxMessages c then slice_neg (mg_maxMessages c) ms else ms)"

lemma with_lock_time: "with_lock now k body st = (st', Inr t) \<Longrightarrow>
   st' = releaseLock k (body t st) \<and> acquireLock now k st = Some t"
  by (auto simp: with_lock_def split: option.splits)

lemma acquire_from_time: "acquire_from d k start t = Some u \<Longrightarrow> t \<le> u \<and> u < start + LOCK_TIMEOUT \<and> lock_free d k u"
proof (induction d k start t rule: acquire_from.induct)
  case (1 d k start t)
  then show ?case
    by (auto simp: acquire_from.simps [of d k start t] LOCK_RETRY_DELAY_def LOCK_TIMEOUT_def split: if_splits)
qed

lemma acquireLock_time: "acquireLock now k st = Some t \<Longrightarrow> now \<le> t \<and> t < now + LOCK_TIMEOUT"
  by (cases st) (auto simp: acquireLock_def dest: acquire_from_time)

lemma messages_of_release [simp]: "messages_of (releaseLock k st) = messages_of st"
  by (cases st) (simp add: releaseLock_def messages_of_def fun_eq_iff)

lemma config_frame [simp]:
  "mn_config (snd (releaseLock k st)) = mn_config (snd st)"
  "mn_config (snd (saveMailbox k st)) = mn_config (snd st)"
  "mn_config (snd (createMailbox t k st)) = mn_config (snd st)"
  by (cases st; auto simp: releaseLock_def saveMailbox_def createMailbox_def split: option.split)+

lemma snd_notify [simp]:
  "snd (case p of (d, s) \<Rightarrow> (d, notifySubscribers k m s)) = notifySubscribers k m (snd p)"
  by (cases p) simp

lemma config_notify [simp]: "mn_config (notifySubscribers k m s) = mn_config s"
  by (simp add: notifySubscribers_def)

lemma config_deliver [simp]: "mn_config (snd (deliver_body rnd from k m t st)) = mn_config (snd st)"
proof -
  obtain d s where "(if jhas (mn_mailboxes (snd st)) k then st else createMailbox t k st) = (d, s)" by force
  moreover from this have "mn_config s = mn_config (snd st)"
    by (metis config_frame(3) snd_conv)
  ultimately show ?thesis unfolding deliver_body_def Let_def by simp
qed

text \<open>What a call that sends \<open>m\<close> to \<open>ks\<close> leaves when the first \<open>n\<close> recipients were served.\<close>

definition served ::
    "int \<Rightarrow> (string \<Rightarrow> string) \<Rightarrow> string \<Rightarrow> MailboxMessage \<Rightarrow> string list \<Rightarrow> nat \<Rightarrow> mailbox_state \<Rightarrow> mailbox_state \<Rightarrow> bool" where
  "served now rnd from m ks n st st' \<longleftrightarrow>
     (\<forall>k. if k \<in> set (take n ks)
          then (\<exists>t. now \<le> t \<and> messages_of st' k = keep_last (mn_config (snd st))
                  (messages_of st k @ [complete_message (gen_id ''msg'' t (rnd k)) from (One k) t m]))
          else messages_of st' k = messages_of st k)"

lemma served_0: "served now rnd from m ks 0 st st"
  by (simp add: served_def)

lemma served_Suc:
  assumes "k \<notin> set ks" and "now \<le> t" and "served t rnd from m ks n (releaseLock k (deliver_body (rnd k) from k m t st)) st'"
  shows "served now rnd from m (k # ks) (Suc n) st st'"
proof -
  have del: "messages_of (deliver_body (rnd k) from k m t st) j =
      (if j = k then keep_last (mn_config (snd st))
         (messages_of st k @ [complete_message (gen_id ''msg'' t (rnd k)) from (One k) t m])
       else messages_of st j)" for j
    by (simp add: messages_of_deliver [OF refl] keep_last_def Let_def)
  have k: "k \<notin> set (take n ks)" using assms(1) by (auto dest: in_set_takeD)
  show ?thesis unfolding served_def
  proof
    fix j
    have "if j \<in> set (take n ks)
        then \<exists>t'. t \<le> t' \<and> messages_of st' j = keep_last (mn_config (snd st))
               (messages_of st j @ [complete_message (gen_id ''msg'' t' (rnd j)) from (One j) t' m])
        else messages_of st' j = messages_of (deliver_body (rnd k) from k m t st) j"
      using assms(3) k by (auto simp: served_def del split: if_splits)
    with k assms(2) show "if j \<in> set (take (Suc n) (k # ks))
        then \<exists>t. now \<le> t \<and> messages_of st' j = keep_last (mn_config (snd st))
               (messages_of st j @ [complete_message (gen_id ''msg'' t (rnd j)) from (One j) t m])
        else messages_of st' j = messages_of st j"
      by (auto simp: del split: if_splits intro: order_trans)
  qed
qed

lemma send_loop_served:
  assumes "distinct ks"
  shows "\<exists>n. served now rnd from m ks n st (fst (send_loop rnd from m ks now st)) \<and>
    (case snd (send_loop rnd from m ks now st) of
       Inr _ \<Rightarrow> n = length ks
     | Inl (LockFailed k) \<Rightarrow> n < length ks \<and> k = ks ! n)"
  using assms
proof (induction ks arbitrary: now st)
  case Nil
  then show ?case by (auto intro: served_0)
next
  case (Cons k ks)
  obtain st1 v where w: "with_lock now k (deliver_body (rnd k) from k m) st = (st1, v)"
    by (rule prod.exhaust)
  show ?case
  proof (cases v)
    case (Inl e)
    with w have "st1 = st" "e = LockFailed k" by (auto simp: with_lock_def split: option.splits)
    with w Inl show ?thesis by (intro exI [of _ 0]) (simp add: served_0)
  next
    case (Inr t)
    with w with_lock_time [of now k "deliver_body (rnd k) from k m" st st1 t]
    have st1: "st1 = releaseLock k (deliver_body (rnd k) from k m t st)" and "acquireLock now k st = Some t"
      by auto
    then have "now \<le> t" by (simp add: acquireLock_time)
    obtain n where n: "served t rnd from m ks n st1 (fst (send_loop rnd from m ks t st1))"
      "case snd (send_loop rnd from m ks t st1) of Inr _ \<Rightarrow> n = length ks
       | Inl (LockFailed k) \<Rightarrow> n < length ks \<and> k = ks ! n"
      using Cons.IH [of t st1] Cons.prems by auto
    have "served now rnd from m (k # ks) (Suc n) st (fst (send_loop rnd from m ks t st1))"
      using Cons.prems \<open>now \<le> t\<close> n(1) st1 by (intro served_Suc) auto
    with w Inr n(2) show ?thesis
      by (intro exI [of _ "Suc n"]) (auto split: sum.splits mailbox_error.splits)
  qed
qed

text \<open>C22: Sending. A message to different recipients is appended to the mailbox of each, as a copy
  addressed to it, and a mailbox over the limit keeps its last messages. Recipients are served in
  order: when a lock cannot be had, those before have the message, the others are unchanged, and the
  error names the recipient.\<close>

theorem send_delivers:
  assumes "distinct (as_list to)"
  shows "\<exists>n. served now rnd sender m (as_list to) n st (fst (sendMessage now rnd sender to m st)) \<and>
    (case snd (sendMessage now rnd sender to m st) of
       Inr _ \<Rightarrow> n = length (as_list to)
     | Inl (LockFailed k) \<Rightarrow> n < length (as_list to) \<and> k = as_list to ! n)"
  using assms unfolding sendMessage_def by (rule send_loop_served)

definition stale_dir :: mailbox_dir where
  "stale_dir = \<lparr>md_files = [], md_locks = [(''c'', None)]\<rparr>"

theorem send_delivers_witness:
  "\<exists>n. served 5 (\<lambda>k. k) ''a'' (demo_message ''hello'') [''b'', ''c'', ''d''] n
     (stale_dir, new_mailbox_manager default_mailbox_config stale_dir)
     (fst (sendMessage 5 (\<lambda>k. k) ''a'' (Many [''b'', ''c'', ''d'']) (demo_message ''hello'')
       (stale_dir, new_mailbox_manager default_mailbox_config stale_dir))) \<and> n < 3"
proof -
  let ?st = "(stale_dir, new_mailbox_manager default_mailbox_config stale_dir)"
  let ?r = "sendMessage 5 (\<lambda>k. k) ''a'' (Many [''b'', ''c'', ''d'']) (demo_message ''hello'') ?st"
  have d: "distinct (as_list (Many [''b'', ''c'', ''d'']))" by simp
  have "case snd ?r of Inr _ \<Rightarrow> False | Inl _ \<Rightarrow> True" by code_simp
  with send_delivers [OF d, of 5 "\<lambda>k. k" "''a''" "demo_message ''hello''" ?st] show ?thesis
    by (auto split: sum.splits mailbox_error.splits)
qed

subsection \<open>Waiting for a lock\<close>

lemma acquire_from_stale: "jget (md_locks d) k = Some None \<Longrightarrow> acquire_from d k start t = None"
  by (induction d k start t rule: acquire_from.induct)
     (auto simp: acquire_from.simps lock_free_def split: if_splits)

lemma acquire_from_free:
  "lock_free d k t \<Longrightarrow> t - start < LOCK_TIMEOUT \<Longrightarrow> acquire_from d k start t = Some t"
  by (simp add: acquire_from.simps [of d k start t])

lemma acquire_from_released:
  "jget (md_locks d) k = Some (Some r) \<Longrightarrow> t < r \<Longrightarrow>
   acquire_from d k start t =
     (let u = t + 10 * ((r - t + 9) div 10) in if u - start < LOCK_TIMEOUT then Some u else None)"
proof (induction d k start t rule: acquire_from.induct)
  case (1 d k start t)
  show ?case
  proof (cases "t - start \<ge> LOCK_TIMEOUT")
    case True
    have "0 \<le> (r - t + 9) div 10" using "1.prems"(2) by simp
    with True have "\<not> t + 10 * ((r - t + 9) div 10) - start < LOCK_TIMEOUT" by linarith
    with True show ?thesis by (simp add: acquire_from.simps [of d k start t] Let_def)
  next
    case False
    with "1.prems" have step: "acquire_from d k start t = acquire_from d k start (t + LOCK_RETRY_DELAY)"
      by (simp add: acquire_from.simps [of d k start t] lock_free_def)
    show ?thesis
    proof (cases "t + LOCK_RETRY_DELAY < r")
      case True
      have "(r - t + 9) div 10 = (r - (t + LOCK_RETRY_DELAY) + 9) div 10 + 1"
        by (simp add: LOCK_RETRY_DELAY_def)
      with "1.IH" [OF _ _ "1.prems"(1) True] False "1.prems" step show ?thesis
        by (simp add: lock_free_def Let_def LOCK_RETRY_DELAY_def)
    next
      case False
      then have "(r - t + 9) div 10 = 1" using "1.prems"(2) by (simp add: LOCK_RETRY_DELAY_def)
      moreover have "acquire_from d k start (t + LOCK_RETRY_DELAY) =
          (if t + LOCK_RETRY_DELAY - start < LOCK_TIMEOUT then Some (t + LOCK_RETRY_DELAY) else None)"
        using False "1.prems" by (simp add: acquire_from.simps [of d k start "t + LOCK_RETRY_DELAY"] lock_free_def)
      ultimately show ?thesis using step by (simp add: Let_def LOCK_RETRY_DELAY_def)
    qed
  qed
qed

text \<open>The wait for a lock. A free lock is had at once; one that another process releases at time
  \<open>r\<close> is had at the first retry from then on, if that is within the time limit; a stale lock file, whose
  process is gone, is never removed, and every call on that mailbox throws.\<close>

lemma lock_wait:
  "acquireLock now k (d, s) =
    (case jget (md_locks d) k of
       None \<Rightarrow> Some now
     | Some None \<Rightarrow> None
     | Some (Some r) \<Rightarrow>
         if r \<le> now then Some now
         else if r \<le> now + 4990 then Some (now + 10 * ((r - now + 9) div 10)) else None)"
proof (cases "jget (md_locks d) k")
  case None
  then show ?thesis by (simp add: acquireLock_def acquire_from_free lock_free_def LOCK_TIMEOUT_def)
next
  case (Some l)
  show ?thesis
  proof (cases l)
    case None
    with Some show ?thesis by (simp add: acquireLock_def acquire_from_stale)
  next
    case r: (Some r)
    show ?thesis
    proof (cases "r \<le> now")
      case True
      with Some r show ?thesis by (simp add: acquireLock_def acquire_from_free lock_free_def LOCK_TIMEOUT_def)
    next
      case False
      have "10 * ((r - now + 9) div 10) < 5000 \<longleftrightarrow> r \<le> now + 4990" by presburger
      with False Some r acquire_from_released [of d k r now now] show ?thesis
        by (simp add: acquireLock_def Let_def LOCK_TIMEOUT_def)
    qed
  qed
qed

subsection \<open>Two managers on one directory\<close>

lemma deliver_memory: "snd (deliver_body rnd from k m t (d, s)) = snd (deliver_body rnd from k m t (d', s))"
proof -
  have save: "snd (saveMailbox k (d, u)) = u" for d u by (simp add: saveMailbox_def split: option.split)
  have "snd (if jhas (mn_mailboxes s) k then (d, s) else createMailbox t k (d, s)) =
      snd (if jhas (mn_mailboxes s) k then (d', s) else createMailbox t k (d', s))"
    by (simp add: createMailbox_def save split: option.split)
  then show ?thesis
    unfolding deliver_body_def Let_def snd_conv
    by (auto simp: save split: prod.split)
qed

lemma deliver_file:
  assumes "mg_persistenceEnabled (mn_config s)"
  shows "jget (md_files (fst (deliver_body rnd from k m t (d, s)))) k =
    Some (jget (mn_mailboxes (snd (deliver_body rnd from k m t (d, s)))) k)"
proof -
  obtain d1 s1 where pre: "(if jhas (mn_mailboxes s) k then (d, s) else createMailbox t k (d, s)) = (d1, s1)"
    by (rule prod.exhaust)
  have save: "snd (saveMailbox k u) = snd u" for u by (cases u) (simp add: saveMailbox_def split: option.split)
  have "mn_config s1 = mn_config s" using pre by (metis config_frame(3) snd_conv)
  moreover have "jhas (mn_mailboxes s1) k"
    using pre save [of "(d, s\<lparr>mn_mailboxes := jset (mn_mailboxes s) k \<lparr>mx_agentId = k,
        mx_path = getMailboxPath s k, mx_messages = [], mx_createdAt = t, mx_updatedAt = t\<rparr>\<rparr>)"]
    by (auto simp: createMailbox_def split: if_splits option.splits)
  ultimately show ?thesis
    using assms pre unfolding deliver_body_def Let_def snd_conv
    by (auto simp: saveMailbox_def notifySubscribers_def)
qed

lemma send_one:
  assumes "md_locks d = []"
  shows "sendMessage now rnd from (One k) m (d, s) =
    (releaseLock k (deliver_body (rnd k) from k m now (d, s)), Inr now)"
  using assms by (simp add: sendMessage_def with_lock_def lock_wait)

lemma locks_deliver: "md_locks (fst (deliver_body rnd from k m t st)) = md_locks (fst st)"
proof -
  have save: "md_locks (fst (saveMailbox k u)) = md_locks (fst u)" for k u
    by (cases u) (simp add: saveMailbox_def split: option.split)
  have pair: "fst (case p of (d, s) \<Rightarrow> (d, notifySubscribers k m s)) = fst p" for p m by (cases p) simp
  have "md_locks (fst (if jhas (mn_mailboxes (snd st)) k then st else createMailbox t k st)) = md_locks (fst st)"
    by (cases st) (auto simp: createMailbox_def save split: option.split)
  then show ?thesis unfolding deliver_body_def Let_def by (auto simp: save pair split: prod.split)
qed

text \<open>Two managers on one directory lose messages. After two managers have been started on the same
  directory, a message that the second one sends replaces the recipient's file with the second
  manager's own copy of the mailbox: the file is the same as if the first manager had sent nothing,
  although both calls held the lock and succeeded.\<close>

lemma second_manager_overwrites:
  assumes "md_locks d = []" and "mg_persistenceEnabled config"
  shows "case sendMessage now rnd sender (One k) m (d, new_mailbox_manager config d) of
      ((dA, _), Inr _) \<Rightarrow>
        (case (sendMessage now' rnd' sender' (One k) m' (dA, new_mailbox_manager config d),
               sendMessage now' rnd' sender' (One k) m' (d, new_mailbox_manager config d)) of
           (((dB, _), Inr _), ((d0, _), Inr _)) \<Rightarrow> jget (md_files dB) k = jget (md_files d0) k
         | _ \<Rightarrow> False)
    | _ \<Rightarrow> False"
proof -
  let ?s = "new_mailbox_manager config d"
  have cfg: "mg_persistenceEnabled (mn_config ?s)" using assms(2) by (simp add: new_mailbox_manager_def)
  obtain dA sA where A: "deliver_body (rnd k) sender k m now (d, ?s) = (dA, sA)" by (rule prod.exhaust)
  let ?dA = "dA\<lparr>md_locks := jdel (md_locks dA) k\<rparr>"
  have "md_locks dA = []" using locks_deliver [of "rnd k" sender k m now "(d, ?s)"] A assms(1) by simp
  then have lA: "md_locks ?dA = []" by simp
  have files: "jget (md_files (fst (releaseLock k u))) k = jget (md_files (fst u)) k" for u
    by (cases u) (simp add: releaseLock_def)
  have "jget (md_files (fst (deliver_body (rnd' k) sender' k m' now' (?dA, ?s)))) k =
      jget (md_files (fst (deliver_body (rnd' k) sender' k m' now' (d, ?s)))) k"
    using deliver_file [OF cfg] deliver_memory [of "rnd' k" sender' k m' now' ?dA ?s d] by simp
  then show ?thesis
    by (cases "deliver_body (rnd' k) sender' k m' now' (?dA, ?s)";
        cases "deliver_body (rnd' k) sender' k m' now' (d, ?s)")
       (simp add: send_one [OF assms(1)] send_one [OF lA] A releaseLock_def)
qed

theorem second_manager_overwrites_witness:
  "case sendMessage 5 (\<lambda>k. k) ''a'' (One ''b'') (demo_message ''one'')
      (empty_dir, new_mailbox_manager default_mailbox_config empty_dir) of
     ((dA, _), _) \<Rightarrow>
       (case sendMessage 6 (\<lambda>k. k) ''a'' (One ''b'') (demo_message ''two'')
           (dA, new_mailbox_manager default_mailbox_config empty_dir) of
          ((dB, _), _) \<Rightarrow>
            map_option (\<lambda>b. map mm_subject (mx_messages b)) (box_of_file (jget (md_files dB) ''b'')) = Some [Some ''two''])"
proof -
  let ?s = "new_mailbox_manager default_mailbox_config empty_dir"
  have hyps: "md_locks empty_dir = []" "mg_persistenceEnabled default_mailbox_config"
    by (simp_all add: empty_dir_def default_mailbox_config_def)
  let ?C = "sendMessage 6 (\<lambda>k. k) ''a'' (One ''b'') (demo_message ''two'') (empty_dir, ?s)"
  have "map_option (\<lambda>b. map mm_subject (mx_messages b)) (box_of_file (jget (md_files (fst (fst ?C))) ''b'')) =
      Some [Some ''two'']" by code_simp
  with second_manager_overwrites [OF hyps, where now = 5 and now' = 6 and rnd = "\<lambda>k. k" and rnd' = "\<lambda>k. k" and
      sender = "''a''" and sender' = "''a''" and k = "''b''" and m = "demo_message ''one''" and m' = "demo_message ''two''"]
  show ?thesis by (auto split: prod.splits sum.splits)
qed

subsection \<open>Corner cases\<close>

text \<open>A message has no status: marking it processed changes only the time of the mailbox, and a filter by
  any status but \<open>pending\<close> finds nothing.\<close>

lemma mark_keeps_messages: "messages_of (fst (markProcessed now k i st)) = messages_of st"
proof -
  have "messages_of (saveMailbox j u) = messages_of u" for j u
    by (cases u) (simp add: saveMailbox_def messages_of_def fun_eq_iff split: option.split)
  then have "messages_of (mark_body k i t u) = messages_of u" for t u
    by (cases u) (auto simp: mark_body_def messages_of_def getMessages_def fun_eq_iff split: option.split)
  then show ?thesis by (simp add: markProcessed_def with_lock_def split: option.split)
qed

lemma status_filter_finds_nothing:
  "fl_status f = Some ss \<Longrightarrow> MS_pending \<notin> set (as_list ss) \<Longrightarrow> fl_limit f = None \<Longrightarrow> apply_filter f ms = []"
  by (simp add: apply_filter_def Let_def)

text \<open>A limit of 0 messages is no limit.\<close>

lemma zero_limit_keeps_all: "mg_maxMessages c = 0 \<Longrightarrow> keep_last c ms = ms"
  by (simp add: keep_last_def slice_neg_def)

text \<open>With a positive limit, sending keeps every mailbox within it.\<close>

lemma keep_last_bound: "0 < mg_maxMessages c \<Longrightarrow> int (length (keep_last c ms)) \<le> mg_maxMessages c"
  by (simp add: keep_last_def length_slice_neg)

end
