(* ===== verification/MessageBus.thy ===== *)
theory MessageBus
  imports MailboxTypes
begin

text \<open>
  The message bus (\<open>src/src/mailbox/message-bus.ts\<close>): the class \<open>MessageBus\<close>, and the smaller
  \<open>InMemoryMessageBus\<close>.

  Deliveries are awaited one after the other; a call is modelled without calls in between, at one
  value of the clock. \<open>bu_calls\<close> records the handlers called, by subscription id. Event handlers
  are told apart by numbers; their errors are ignored by the code.
\<close>

datatype BusEventType = BE_message | BE_broadcast | BE_error | BE_agent_online | BE_agent_offline

datatype bus_data =
    BD_message MailboxMessage
  | BD_error string MailboxMessage string
  | BD_info string

record BusEvent =
  be_type :: BusEventType
  be_data :: bus_data
  be_timestamp :: int
  be_source :: "string option"

record BusConfig =
  bc_maxSubscriptions :: int
  bc_maxEventHistory :: int
  bc_eventRetentionMs :: int

record message_bus =
  bu_subscriptions :: "(string, Subscription) jsmap"
  bu_eventHistory :: "BusEvent list"
  bu_config :: BusConfig
  bu_isRunning :: bool
  bu_eventHandlers :: "(BusEventType, nat list) jsmap"
  bu_channelSubscribers :: "(string, string list) jsmap"
  bu_calls :: "(string \<times> MailboxMessage) list"
  bu_eventCalls :: "(nat \<times> BusEvent) list"

datatype bus_error = NotRunning | MaxSubscriptions

definition default_bus_config :: BusConfig where
  "default_bus_config = \<lparr>bc_maxSubscriptions = 1000, bc_maxEventHistory = 1000, bc_eventRetentionMs = 3600000\<rparr>"

definition new_bus :: "BusConfig \<Rightarrow> message_bus" where
  "new_bus config = \<lparr>bu_subscriptions = [], bu_eventHistory = [], bu_config = config, bu_isRunning = False,
     bu_eventHandlers = [], bu_channelSubscribers = [], bu_calls = [], bu_eventCalls = []\<rparr>"

subsection \<open>Events\<close>

definition pruneOldEvents :: "int \<Rightarrow> message_bus \<Rightarrow> message_bus" where
  "pruneOldEvents now s =
     s\<lparr>bu_eventHistory := filter (\<lambda>e. be_timestamp e \<ge> now - bc_eventRetentionMs (bu_config s)) (bu_eventHistory s)\<rparr>"

definition truncate_history :: "BusConfig \<Rightarrow> BusEvent list \<Rightarrow> BusEvent list" where
  "truncate_history c h =
     (if int (length h) > bc_maxEventHistory c then slice_neg (bc_maxEventHistory c) h else h)"

definition bus_emitEvent ::
    "int \<Rightarrow> BusEventType \<Rightarrow> bus_data \<Rightarrow> string option \<Rightarrow> message_bus \<Rightarrow> message_bus" where
  "bus_emitEvent now ty data source s =
     (let event = \<lparr>be_type = ty, be_data = data, be_timestamp = now, be_source = source\<rparr>;
          history = truncate_history (bu_config s) (bu_eventHistory s @ [event]);
          s = pruneOldEvents now (s\<lparr>bu_eventHistory := history\<rparr>);
          handlers = (case jget (bu_eventHandlers s) ty of Some hs \<Rightarrow> hs | None \<Rightarrow> [])
      in s\<lparr>bu_eventCalls := bu_eventCalls s @ map (\<lambda>h. (h, event)) handlers\<rparr>)"

definition bus_on :: "BusEventType \<Rightarrow> nat \<Rightarrow> message_bus \<Rightarrow> message_bus" where
  "bus_on ty h s =
     s\<lparr>bu_eventHandlers := jset (bu_eventHandlers s) ty
        ((case jget (bu_eventHandlers s) ty of Some hs \<Rightarrow> hs | None \<Rightarrow> []) @ [h])\<rparr>"

definition bus_off :: "BusEventType \<Rightarrow> nat \<Rightarrow> message_bus \<Rightarrow> message_bus" where
  "bus_off ty h s = s\<lparr>bu_eventHandlers := jmodify (bu_eventHandlers s) ty (remove_first h)\<rparr>"

definition getEventHistory :: "message_bus \<Rightarrow> int option \<Rightarrow> BusEvent list" where
  "getEventHistory s since =
     (case since of
        Some t \<Rightarrow> if t \<noteq> 0 then filter (\<lambda>e. be_timestamp e \<ge> t) (bu_eventHistory s) else bu_eventHistory s
      | None \<Rightarrow> bu_eventHistory s)"

subsection \<open>Subscriptions and channels\<close>

definition bus_subscribe ::
    "int \<Rightarrow> string \<Rightarrow> string \<Rightarrow> MessageHandler \<Rightarrow> MessageFilter option \<Rightarrow> message_bus
     \<Rightarrow> message_bus \<times> (bus_error + Subscription)" where
  "bus_subscribe now rnd agentId handler flt s =
     (if int (length (bu_subscriptions s)) \<ge> bc_maxSubscriptions (bu_config s) then (s, Inl MaxSubscriptions)
      else (let k = gen_id ''sub'' now rnd;
                sub = \<lparr>sb_id = k, sb_agentId = agentId, sb_filter = flt, sb_handler = handler, sb_createdAt = now\<rparr>
            in (s\<lparr>bu_subscriptions := jset (bu_subscriptions s) k sub\<rparr>, Inr sub)))"

text \<open>The sets of channel subscribers are lists without repetition.\<close>

definition bus_unsubscribe :: "string \<Rightarrow> message_bus \<Rightarrow> message_bus" where
  "bus_unsubscribe k s =
     s\<lparr>bu_subscriptions := jdel (bu_subscriptions s) k,
       bu_channelSubscribers := jmap (\<lambda>_. remove_first k) (bu_channelSubscribers s)\<rparr>"

definition bus_getSubscriptions :: "message_bus \<Rightarrow> string option \<Rightarrow> Subscription list" where
  "bus_getSubscriptions s agentId =
     (case agentId of
        Some a \<Rightarrow> if a \<noteq> [] then filter (\<lambda>sub. sb_agentId sub = a) (jvals (bu_subscriptions s))
                  else jvals (bu_subscriptions s)
      | None \<Rightarrow> jvals (bu_subscriptions s))"

definition subscribeToChannel :: "string \<Rightarrow> string \<Rightarrow> message_bus \<Rightarrow> message_bus" where
  "subscribeToChannel channel k s =
     (let subs = (case jget (bu_channelSubscribers s) channel of Some ks \<Rightarrow> ks | None \<Rightarrow> [])
      in s\<lparr>bu_channelSubscribers := jset (bu_channelSubscribers s) channel
             (if k \<in> set subs then subs else subs @ [k])\<rparr>)"

definition unsubscribeFromChannel :: "string \<Rightarrow> string \<Rightarrow> message_bus \<Rightarrow> message_bus" where
  "unsubscribeFromChannel channel k s =
     (case jget (bu_channelSubscribers s) channel of
        None \<Rightarrow> s
      | Some ks \<Rightarrow>
          (let ks = remove_first k ks
           in s\<lparr>bu_channelSubscribers := (if ks = [] then jdel (bu_channelSubscribers s) channel
                                          else jset (bu_channelSubscribers s) channel ks)\<rparr>))"

subsection \<open>Publishing\<close>

definition bus_matchesFilter :: "MailboxMessage \<Rightarrow> MessageFilter option \<Rightarrow> bool" where
  "bus_matchesFilter m flt =
     (case flt of
        None \<Rightarrow> True
      | Some f \<Rightarrow> from_ok m f \<and> type_ok m f \<and> priority_ok m f \<and> subject_ok m f \<and> since_ok m f \<and> until_ok m f)"

definition findMatchingSubscriptions :: "MailboxMessage \<Rightarrow> message_bus \<Rightarrow> Subscription list" where
  "findMatchingSubscriptions m s =
     filter (\<lambda>sub. bus_matchesFilter m (sb_filter sub)) (jvals (bu_subscriptions s))"

text \<open>\<open>try { await handler(message) } catch (error) { emitEvent("error", ...) }\<close>\<close>

definition bus_deliver :: "int \<Rightarrow> MailboxMessage \<Rightarrow> Subscription \<Rightarrow> message_bus \<Rightarrow> message_bus" where
  "bus_deliver now m sub s =
     (let s = s\<lparr>bu_calls := bu_calls s @ [(sb_id sub, m)]\<rparr>
      in case sb_handler sub m of
           None \<Rightarrow> s
         | Some e \<Rightarrow> bus_emitEvent now BE_error (BD_error e m (sb_id sub)) (Some ''bus'') s)"

definition publish :: "int \<Rightarrow> MailboxMessage \<Rightarrow> message_bus \<Rightarrow> message_bus \<times> (bus_error + unit)" where
  "publish now m s =
     (if \<not> bu_isRunning s then (s, Inl NotRunning)
      else (let s = bus_emitEvent now BE_message (BD_message m) (Some (mm_from m)) s
            in (fold (bus_deliver now m) (findMatchingSubscriptions m s) s, Inr ())))"

definition bus_broadcast ::
    "int \<Rightarrow> string \<Rightarrow> string \<Rightarrow> string \<Rightarrow> MailboxMessage \<Rightarrow> message_bus \<Rightarrow> message_bus \<times> (bus_error + unit)" where
  "bus_broadcast now rnd sender channel message s =
     (if \<not> bu_isRunning s then (s, Inl NotRunning)
      else
        (let m = complete_message (gen_id ''broadcast'' now rnd) sender (One channel) now message;
             s = bus_emitEvent now BE_broadcast (BD_message m) (Some sender) s;
             ks = (case jget (bu_channelSubscribers s) channel of Some ks \<Rightarrow> ks | None \<Rightarrow> []);
             s = fold (\<lambda>k s. case jget (bu_subscriptions s) k of
                               Some sub \<Rightarrow> bus_deliver now m sub s | None \<Rightarrow> s) ks s
         in (fold (bus_deliver now m) (filter is_broadcast_filter (jvals (bu_subscriptions s))) s, Inr ())))"

definition bus_start :: "int \<Rightarrow> message_bus \<Rightarrow> message_bus" where
  "bus_start now s =
     bus_emitEvent now BE_agent_online (BD_info ''Message bus started'') (Some ''bus'') (s\<lparr>bu_isRunning := True\<rparr>)"

definition bus_stop :: "int \<Rightarrow> message_bus \<Rightarrow> message_bus" where
  "bus_stop now s =
     bus_emitEvent now BE_agent_offline (BD_info ''Message bus stopped'') (Some ''bus'')
       (s\<lparr>bu_isRunning := False, bu_subscriptions := [], bu_channelSubscribers := []\<rparr>)"

subsection \<open>The bus in memory\<close>

record memory_bus =
  im_subscriptions :: "(string, Subscription) jsmap"
  im_isRunning :: bool
  im_calls :: "(string \<times> MailboxMessage) list"

definition im_publish :: "MailboxMessage \<Rightarrow> memory_bus \<Rightarrow> memory_bus \<times> (bus_error + unit)" where
  "im_publish m s =
     (if \<not> im_isRunning s then (s, Inl NotRunning)
      else (s\<lparr>im_calls := im_calls s @ map (\<lambda>sub. (sb_id sub, m)) (jvals (im_subscriptions s))\<rparr>, Inr ()))"

definition im_subscribe ::
    "int \<Rightarrow> string \<Rightarrow> string \<Rightarrow> MessageHandler \<Rightarrow> MessageFilter option \<Rightarrow> memory_bus \<Rightarrow> memory_bus \<times> Subscription" where
  "im_subscribe now rnd agentId handler flt s =
     (let k = gen_id ''sub'' now rnd;
          sub = \<lparr>sb_id = k, sb_agentId = agentId, sb_filter = flt, sb_handler = handler, sb_createdAt = now\<rparr>
      in (s\<lparr>im_subscriptions := jset (im_subscriptions s) k sub\<rparr>, sub))"

definition im_unsubscribe :: "string \<Rightarrow> memory_bus \<Rightarrow> memory_bus" where
  "im_unsubscribe k s = s\<lparr>im_subscriptions := jdel (im_subscriptions s) k\<rparr>"

definition im_broadcast ::
    "int \<Rightarrow> string \<Rightarrow> string \<Rightarrow> string \<Rightarrow> MailboxMessage \<Rightarrow> memory_bus \<Rightarrow> memory_bus \<times> (bus_error + unit)" where
  "im_broadcast now rnd sender channel message =
     im_publish (complete_message (gen_id ''broadcast'' now rnd) sender (One channel) now message)"

definition im_getSubscriptions :: "memory_bus \<Rightarrow> string option \<Rightarrow> Subscription list" where
  "im_getSubscriptions s agentId =
     (case agentId of
        Some a \<Rightarrow> if a \<noteq> [] then filter (\<lambda>sub. sb_agentId sub = a) (jvals (im_subscriptions s))
                  else jvals (im_subscriptions s)
      | None \<Rightarrow> jvals (im_subscriptions s))"

definition im_start :: "memory_bus \<Rightarrow> memory_bus" where
  "im_start s = s\<lparr>im_isRunning := True\<rparr>"

definition im_stop :: "memory_bus \<Rightarrow> memory_bus" where
  "im_stop s = s\<lparr>im_isRunning := False, im_subscriptions := []\<rparr>"

subsection \<open>What every operation keeps\<close>

text \<open>Subscriptions are kept under their ids; with a positive limit, the history stays within it; channels
  name subscribers once.\<close>

definition bus_inv :: "BusConfig \<Rightarrow> message_bus \<Rightarrow> bool" where
  "bus_inv c s \<longleftrightarrow> bu_config s = c \<and> jwf (bu_subscriptions s) \<and>
     (\<forall>k sub. jget (bu_subscriptions s) k = Some sub \<longrightarrow> sb_id sub = k) \<and>
     (0 < bc_maxEventHistory c \<longrightarrow> int (length (bu_eventHistory s)) \<le> bc_maxEventHistory c)"

datatype bus_op =
    BU_subscribe int string string MessageHandler "MessageFilter option"
  | BU_unsubscribe string
  | BU_channel string string
  | BU_unchannel string string
  | BU_on BusEventType nat
  | BU_off BusEventType nat
  | BU_publish int MailboxMessage
  | BU_broadcast int string string string MailboxMessage
  | BU_start int
  | BU_stop int

fun bus_apply :: "bus_op \<Rightarrow> message_bus \<Rightarrow> message_bus" where
  "bus_apply (BU_subscribe now rnd a h f) s = fst (bus_subscribe now rnd a h f s)"
| "bus_apply (BU_unsubscribe k) s = bus_unsubscribe k s"
| "bus_apply (BU_channel c k) s = subscribeToChannel c k s"
| "bus_apply (BU_unchannel c k) s = unsubscribeFromChannel c k s"
| "bus_apply (BU_on ty h) s = bus_on ty h s"
| "bus_apply (BU_off ty h) s = bus_off ty h s"
| "bus_apply (BU_publish now m) s = fst (publish now m s)"
| "bus_apply (BU_broadcast now rnd sender c m) s = fst (bus_broadcast now rnd sender c m s)"
| "bus_apply (BU_start now) s = bus_start now s"
| "bus_apply (BU_stop now) s = bus_stop now s"

lemma emit_frame [simp]:
  "bu_subscriptions (bus_emitEvent now ty data src s) = bu_subscriptions s"
  "bu_config (bus_emitEvent now ty data src s) = bu_config s"
  "bu_calls (bus_emitEvent now ty data src s) = bu_calls s"
  "bu_isRunning (bus_emitEvent now ty data src s) = bu_isRunning s"
  "bu_channelSubscribers (bus_emitEvent now ty data src s) = bu_channelSubscribers s"
  by (simp_all add: bus_emitEvent_def pruneOldEvents_def Let_def)

lemma emit_history:
  assumes "0 < bc_maxEventHistory (bu_config s)"
  shows "int (length (bu_eventHistory (bus_emitEvent now ty data src s))) \<le> bc_maxEventHistory (bu_config s)"
proof -
  have "int (length (truncate_history (bu_config s) h)) \<le> bc_maxEventHistory (bu_config s)" for h
    using assms length_slice_neg [of "bc_maxEventHistory (bu_config s)" h] by (simp add: truncate_history_def)
  moreover have "bu_eventHistory (bus_emitEvent now ty data src s) =
      filter (\<lambda>e. be_timestamp e \<ge> now - bc_eventRetentionMs (bu_config s)) (truncate_history (bu_config s)
        (bu_eventHistory s @ [\<lparr>be_type = ty, be_data = data, be_timestamp = now, be_source = src\<rparr>]))"
    by (simp add: bus_emitEvent_def pruneOldEvents_def Let_def)
  ultimately show ?thesis using length_filter_le by (metis of_nat_le_iff order_trans)
qed

lemma bus_inv_emit: "bus_inv c s \<Longrightarrow> bus_inv c (bus_emitEvent now ty data src s)"
  using emit_history [of s now ty data src] by (simp add: bus_inv_def)

lemma bus_inv_deliver: "bus_inv c s \<Longrightarrow> bus_inv c (bus_deliver now m sub s)"
proof -
  assume "bus_inv c s"
  then have "bus_inv c (s\<lparr>bu_calls := bu_calls s @ [(sb_id sub, m)]\<rparr>)" by (simp add: bus_inv_def)
  then show ?thesis by (simp add: bus_deliver_def Let_def bus_inv_emit split: option.split)
qed

lemma bus_inv_step: "bus_inv c s \<Longrightarrow> bus_inv c (bus_apply x s)"
proof (cases x)
  case (BU_publish now m)
  then show "bus_inv c s \<Longrightarrow> ?thesis"
    by (auto simp: publish_def Let_def intro!: fold_keeps [where P = "bus_inv c"] bus_inv_deliver bus_inv_emit)
next
  case (BU_broadcast now rnd sender ch m)
  then show "bus_inv c s \<Longrightarrow> ?thesis"
    by (auto simp: bus_broadcast_def Let_def intro!: fold_keeps [where P = "bus_inv c"] bus_inv_deliver bus_inv_emit
        split: option.split)
next
  case (BU_start now)
  then show "bus_inv c s \<Longrightarrow> ?thesis"
    by (simp add: bus_start_def) (rule bus_inv_emit, simp add: bus_inv_def)
next
  case (BU_stop now)
  then show "bus_inv c s \<Longrightarrow> ?thesis"
    by (simp add: bus_stop_def) (rule bus_inv_emit, simp add: bus_inv_def)
qed (auto simp: bus_inv_def bus_subscribe_def bus_unsubscribe_def subscribeToChannel_def
      unsubscribeFromChannel_def bus_on_def bus_off_def Let_def split: option.split)

interpretation bus_machine: op_machine bus_apply "bus_inv c"
  by unfold_locales (rule bus_inv_step)

lemma bus_inv_new: "bus_inv c (new_bus c)"
  by (simp add: bus_inv_def new_bus_def)

text \<open>Delivering to a list of subscriptions calls each once, in order, whatever the handlers throw.\<close>

lemma deliver_calls: "bu_calls (bus_deliver now m sub s) = bu_calls s @ [(sb_id sub, m)]"
  by (simp add: bus_deliver_def Let_def split: option.split)

lemma deliver_subs [simp]: "bu_subscriptions (bus_deliver now m sub s) = bu_subscriptions s"
  by (simp add: bus_deliver_def Let_def split: option.split)

lemma fold_deliver_calls:
  "bu_calls (fold (bus_deliver now m) subs s) = bu_calls s @ map (\<lambda>sub. (sb_id sub, m)) subs"
  by (induction subs arbitrary: s) (simp_all add: deliver_calls)

subsection \<open>Properties\<close>

text \<open>Publishing. After any sequence of operations, publishing on a running bus calls the handler of
  every subscription whose filter accepts the message once, in the order of subscription, whether
  or not handlers throw, and returns; the events stay within a positive limit. A bus that was not
  started or has been stopped throws and calls nobody.\<close>

lemma publish_calls_each_once:
  "let s = fold bus_apply ops (new_bus c); subs = findMatchingSubscriptions m s; (s', r) = publish now m s in
   distinct (map sb_id subs) \<and>
   (if bu_isRunning s then r = Inr () \<and> bu_calls s' = bu_calls s @ map (\<lambda>sub. (sb_id sub, m)) subs
    else r = Inl NotRunning \<and> s' = s) \<and>
   (bc_maxEventHistory c \<le> 0 \<or> int (length (getEventHistory s' None)) \<le> bc_maxEventHistory c)"
proof -
  define s where "s = fold bus_apply ops (new_bus c)"
  have inv: "bus_inv c s" unfolding s_def by (rule bus_machine.inv_run) (rule bus_inv_new)
  have inv': "bus_inv c (fst (publish now m s))" using bus_inv_step [OF inv, of "BU_publish now m"] by simp
  have "map sb_id (jvals (bu_subscriptions s)) = jkeys (bu_subscriptions s)"
    using inv by (auto simp: bus_inv_def jget_mem [symmetric])
  moreover have "distinct (jkeys (bu_subscriptions s))" using inv by (simp add: bus_inv_def jwf_def)
  ultimately have "distinct (map sb_id (jvals (bu_subscriptions s)))" by (simp only:)
  then have "distinct (map sb_id (findMatchingSubscriptions m s))"
    by (simp add: findMatchingSubscriptions_def distinct_map_filter)
  moreover have "findMatchingSubscriptions m (bus_emitEvent now ty data src s) = findMatchingSubscriptions m s" for ty data src
    by (simp add: findMatchingSubscriptions_def)
  ultimately show ?thesis
    unfolding s_def [symmetric] using inv'
    by (auto simp: Let_def publish_def fold_deliver_calls bus_inv_def getEventHistory_def split: prod.split)
qed

subsection \<open>Corner cases\<close>

text \<open>A subscription that is in a channel and filters for broadcasts gets a broadcast on it twice.\<close>

lemma broadcast_delivered_twice:
  assumes "bu_isRunning s" and "jget (bu_channelSubscribers s) ch = Some [sb_id sub]"
    and "bu_subscriptions s = [(sb_id sub, sub)]" and "is_broadcast_filter sub"
  shows "let m = complete_message (gen_id ''broadcast'' now rnd) sender (One ch) now message in
    bu_calls (fst (bus_broadcast now rnd sender ch message s)) = bu_calls s @ [(sb_id sub, m), (sb_id sub, m)]"
  using assms by (simp add: bus_broadcast_def Let_def deliver_calls)

text \<open>The bus in memory calls every subscription, whatever its filter.\<close>

lemma memory_bus_ignores_filters:
  "im_isRunning s \<Longrightarrow>
   im_calls (fst (im_publish m s)) = im_calls s @ map (\<lambda>sub. (sb_id sub, m)) (jvals (im_subscriptions s))"
  by (simp add: im_publish_def)

text \<open>With a limit of 0 the history is not truncated.\<close>

lemma zero_history_unbounded: "bc_maxEventHistory c = 0 \<Longrightarrow> truncate_history c h = h"
  by (simp add: truncate_history_def slice_neg_def)

end
