(* ===== verification/Coordinator.thy ===== *)
theory Coordinator
  imports OrchTypes
begin

text \<open>
  The coordinator (\<open>src/src/orchestrator/coordinator.ts\<close>): the class \<open>Coordinator\<close>, which registers
  workers and assigns tasks to them, and the default decomposer, worker selector and result
  aggregator that are passed to it.

  The three helpers are parameters of the coordinator, as in the code; they return or, for the
  selector, throw. Load counters are integers that are not negative, averages and scores exact
  rationals. Keys of output objects are in the order in which they were assigned. A task's
  \<open>requiredCapabilities\<close> is a JavaScript value, and an array is the only one with the method
  \<open>every\<close>. Two outputs have the same JSON text when \<open>json_norm\<close> gives the same value. The aggregators are
  applied to lists of at least two results, as \<open>aggregateResults\<close> does.
\<close>

datatype AggregationStrategy = AS_first | AS_all | AS_best | AS_consensus

record CoordinatorConfig =
  cc_maxWorkers :: int
  cc_taskTimeout :: int
  cc_retryAttempts :: int
  cc_retryDelay :: int
  cc_resultAggregationStrategy :: AggregationStrategy

datatype DecomposeStrategy = DT_parallel | DT_sequential | DT_hybrid

record DecomposedTask =
  dt_id :: string
  dt_parentTaskId :: string
  dt_subtasks :: "TaskDefinition list"
  dt_dependencies :: "(string, string list) jsmap"
  dt_strategy :: DecomposeStrategy

datatype AssignmentStatus = AN_pending | AN_running | AN_completed | AN_failed

record WorkerAssignment =
  wa_taskId :: string
  wa_workerId :: string
  wa_assignedAt :: int
  wa_status :: AssignmentStatus
  wa_result :: "TaskResult option"

record CoordinatorState =
  cs_totalTasks :: nat
  cs_pendingTasks :: nat
  cs_runningTasks :: nat
  cs_completedTasks :: nat
  cs_failedTasks :: nat
  cs_activeWorkers :: nat

datatype WorkerInfoStatus = WI_idle | WI_busy | WI_offline

record WorkerPerformance =
  pf_completedTasks :: nat
  pf_failedTasks :: nat
  pf_avgDuration :: rat
  pf_avgTokens :: rat

record WorkerInfo =
  wi_id :: string
  wi_status :: WorkerInfoStatus
  wi_capabilities :: "string list"
  wi_currentTasks :: int
  wi_maxTasks :: int
  wi_lastHeartbeat :: int
  wi_performance :: WorkerPerformance

datatype coordinator_error =
    NoAvailableWorkers
  | NoSuitableWorker
  | WorkerNotFound string
  | NoResults
  | NotAFunction

text \<open>The interfaces \<open>ITaskDecomposer\<close>, \<open>IWorkerSelector\<close> and \<open>IResultAggregator\<close>.\<close>

record coordinator_deps =
  cd_shouldDecompose :: "string \<Rightarrow> bool"
  cd_decompose :: "string \<Rightarrow> js_record option \<Rightarrow> TaskDefinition list"
  cd_selectWorker :: "TaskDefinition \<Rightarrow> WorkerInfo list \<Rightarrow> coordinator_error + string option"
  cd_aggregate :: "TaskResult list \<Rightarrow> AggregationStrategy \<Rightarrow> TaskResult"

record coordinator =
  co_config :: CoordinatorConfig
  co_workers :: "(string, WorkerInfo) jsmap"
  co_assignments :: "(string, WorkerAssignment) jsmap"

definition default_coordinator_config :: CoordinatorConfig where
  "default_coordinator_config =
     \<lparr>cc_maxWorkers = 10, cc_taskTimeout = 300000, cc_retryAttempts = 2, cc_retryDelay = 5000,
      cc_resultAggregationStrategy = AS_best\<rparr>"

definition new_coordinator :: "CoordinatorConfig \<Rightarrow> coordinator" where
  "new_coordinator config = \<lparr>co_config = config, co_workers = [], co_assignments = []\<rparr>"

subsection \<open>Decomposition\<close>

definition chain_dependencies :: "TaskDefinition list \<Rightarrow> (string, string list) jsmap" where
  "chain_dependencies subtasks =
     fold (\<lambda>i m. jset m (td_id (subtasks ! i)) (if i = 0 then [] else [td_id (subtasks ! (i - 1))]))
       [0..<length subtasks] []"

definition decomposeTask :: "coordinator_deps \<Rightarrow> TaskDefinition \<Rightarrow> DecomposedTask" where
  "decomposeTask deps task =
     (if \<not> cd_shouldDecompose deps (td_prompt task)
      then \<lparr>dt_id = ''decomposed-'' @ td_id task, dt_parentTaskId = td_id task, dt_subtasks = [task],
            dt_dependencies = [(td_id task, [])], dt_strategy = DT_sequential\<rparr>
      else let subtasks = cd_decompose deps (td_prompt task) (td_metadata task)
           in \<lparr>dt_id = ''decomposed-'' @ td_id task, dt_parentTaskId = td_id task, dt_subtasks = subtasks,
               dt_dependencies = chain_dependencies subtasks,
               dt_strategy = (if length subtasks > 1 then DT_parallel else DT_sequential)\<rparr>)"

subsection \<open>Workers and assignments\<close>

definition listWorkers :: "coordinator \<Rightarrow> WorkerInfo list" where
  "listWorkers s = jvals (co_workers s)"

definition getWorkerInfo :: "string \<Rightarrow> coordinator \<Rightarrow> WorkerInfo option" where
  "getWorkerInfo workerId s = jget (co_workers s) workerId"

definition worker_available :: "WorkerInfo \<Rightarrow> bool" where
  "worker_available w \<longleftrightarrow>
     wi_status w = WI_idle \<or> (wi_status w = WI_busy \<and> wi_currentTasks w < wi_maxTasks w)"

definition take_task :: "WorkerInfo \<Rightarrow> WorkerInfo" where
  "take_task w =
     (let w' = w\<lparr>wi_currentTasks := wi_currentTasks w + 1\<rparr>
      in if wi_currentTasks w' \<ge> wi_maxTasks w' then w'\<lparr>wi_status := WI_busy\<rparr> else w')"

definition co_assignTask ::
  "coordinator_deps \<Rightarrow> int \<Rightarrow> TaskDefinition \<Rightarrow> string option \<Rightarrow> coordinator \<Rightarrow>
   coordinator \<times> (coordinator_error + WorkerAssignment)" where
  "co_assignTask deps now task workerId s =
     (let availableWorkers = filter worker_available (listWorkers s)
      in if availableWorkers = [] then (s, Inl NoAvailableWorkers)
         else case (case workerId of
                      Some w \<Rightarrow> Inr (Some w)
                    | None \<Rightarrow> cd_selectWorker deps task availableWorkers) of
                Inl e \<Rightarrow> (s, Inl e)
              | Inr None \<Rightarrow> (s, Inl NoSuitableWorker)
              | Inr (Some selectedWorkerId) \<Rightarrow>
                  (if selectedWorkerId = [] then (s, Inl NoSuitableWorker)
                   else case jget (co_workers s) selectedWorkerId of
                          None \<Rightarrow> (s, Inl (WorkerNotFound selectedWorkerId))
                        | Some worker \<Rightarrow>
                            (let assignment = \<lparr>wa_taskId = td_id task, wa_workerId = selectedWorkerId,
                                wa_assignedAt = now, wa_status = AN_pending, wa_result = None\<rparr>
                             in (s\<lparr>co_assignments := jset (co_assignments s) (td_id task) assignment,
                                   co_workers := jset (co_workers s) selectedWorkerId (take_task worker)\<rparr>,
                                 Inr assignment))))"

definition collectResults :: "string \<Rightarrow> coordinator \<Rightarrow> TaskResult list" where
  "collectResults taskId s =
     List.map_filter (\<lambda>(i, a). if i = taskId \<or> wa_status a = AN_completed then wa_result a else None)
       (co_assignments s)"

definition aggregateResults ::
  "coordinator_deps \<Rightarrow> TaskResult list \<Rightarrow> coordinator \<Rightarrow> coordinator_error + TaskResult" where
  "aggregateResults deps results s =
     (case results of
        [] \<Rightarrow> Inl NoResults
      | [r] \<Rightarrow> Inr r
      | _ \<Rightarrow> Inr (cd_aggregate deps results (cc_resultAggregationStrategy (co_config s))))"

definition with_status :: "AssignmentStatus \<Rightarrow> coordinator \<Rightarrow> nat" where
  "with_status st s = length (filter (\<lambda>a. wa_status a = st) (jvals (co_assignments s)))"

definition co_getState :: "coordinator \<Rightarrow> CoordinatorState" where
  "co_getState s =
     \<lparr>cs_totalTasks = length (co_assignments s), cs_pendingTasks = with_status AN_pending s,
      cs_runningTasks = with_status AN_running s, cs_completedTasks = with_status AN_completed s,
      cs_failedTasks = with_status AN_failed s,
      cs_activeWorkers = length (filter (\<lambda>w. wi_status w \<noteq> WI_offline) (listWorkers s))\<rparr>"

definition new_performance :: WorkerPerformance where
  "new_performance = \<lparr>pf_completedTasks = 0, pf_failedTasks = 0, pf_avgDuration = 0, pf_avgTokens = 0\<rparr>"

definition co_registerWorker :: "WorkerInfo \<Rightarrow> coordinator \<Rightarrow> coordinator" where
  "co_registerWorker info s =
     s\<lparr>co_workers := jset (co_workers s) (wi_id info) (info\<lparr>wi_performance := new_performance\<rparr>)\<rparr>"

definition co_unregisterWorker :: "string \<Rightarrow> coordinator \<Rightarrow> coordinator" where
  "co_unregisterWorker workerId s = s\<lparr>co_workers := jdel (co_workers s) workerId\<rparr>"

definition updateWorkerHeartbeat :: "int \<Rightarrow> string \<Rightarrow> coordinator \<Rightarrow> coordinator" where
  "updateWorkerHeartbeat now workerId s =
     s\<lparr>co_workers := jmodify (co_workers s) workerId (\<lambda>w. w\<lparr>wi_lastHeartbeat := now\<rparr>)\<rparr>"

definition release_task :: "WorkerInfo \<Rightarrow> WorkerInfo" where
  "release_task w =
     (let w' = w\<lparr>wi_currentTasks := max 0 (wi_currentTasks w - 1)\<rparr>
      in if wi_currentTasks w' = 0 then w'\<lparr>wi_status := WI_idle\<rparr> else w')"

text \<open>\<open>(prevAvg * (count - 1) + x) / count\<close>, with the count after the completion.\<close>

definition running_average :: "rat \<Rightarrow> nat \<Rightarrow> int \<Rightarrow> rat" where
  "running_average prevAvg count x = (prevAvg * (of_nat count - 1) + of_int x) / of_nat count"

definition note_completion :: "TaskResult \<Rightarrow> WorkerPerformance \<Rightarrow> WorkerPerformance" where
  "note_completion result p =
     (let count = pf_completedTasks p + 1
      in p\<lparr>pf_completedTasks := count,
           pf_avgDuration := (if r_duration result \<noteq> 0
              then running_average (pf_avgDuration p) count (r_duration result) else pf_avgDuration p),
           pf_avgTokens := (case r_tokenUsage result of
              Some u \<Rightarrow> running_average (pf_avgTokens p) count (tu_total u)
            | None \<Rightarrow> pf_avgTokens p)\<rparr>)"

definition co_completeTask :: "string \<Rightarrow> TaskResult \<Rightarrow> coordinator \<Rightarrow> coordinator" where
  "co_completeTask taskId result s =
     (case jget (co_assignments s) taskId of
        None \<Rightarrow> s
      | Some assignment \<Rightarrow>
          s\<lparr>co_assignments := jset (co_assignments s) taskId
              (assignment\<lparr>wa_status := AN_completed, wa_result := Some result\<rparr>),
            co_workers := jmodify (co_workers s) (wa_workerId assignment)
              (\<lambda>w. (release_task w)\<lparr>wi_performance := note_completion result (wi_performance w)\<rparr>)\<rparr>)"

definition co_failTask :: "int \<Rightarrow> string \<Rightarrow> string \<Rightarrow> coordinator \<Rightarrow> coordinator" where
  "co_failTask now taskId err s =
     (case jget (co_assignments s) taskId of
        None \<Rightarrow> s
      | Some assignment \<Rightarrow>
          s\<lparr>co_assignments := jset (co_assignments s) taskId
              (assignment\<lparr>wa_status := AN_failed,
                 wa_result := Some \<lparr>r_taskId = taskId, r_agentId = wa_workerId assignment,
                   r_status = T_failed, r_output = JUndef, r_error = Some err,
                   r_duration = now - wa_assignedAt assignment, r_tokenUsage = None\<rparr>\<rparr>),
            co_workers := jmodify (co_workers s) (wa_workerId assignment)
              (\<lambda>w. (release_task w)\<lparr>wi_performance := (wi_performance w)
                 \<lparr>pf_failedTasks := pf_failedTasks (wi_performance w) + 1\<rparr>\<rparr>)\<rparr>)"

subsection \<open>The default decomposer\<close>

datatype Complexity = CX_low | CX_medium | CX_high

definition step_words :: "string list" where
  "step_words = [''step'', ''phase'', ''stage'', ''then'', ''next'', ''after'', ''finally'']"

definition complex_words :: "string list" where
  "complex_words = [''analyze'', ''design'', ''implement'', ''refactor'', ''optimize'', ''architect'']"

definition estimateComplexity :: "string \<Rightarrow> Complexity" where
  "estimateComplexity prompt =
     (let wordCount = length (split_ws prompt);
          hasMultipleSteps = mentions step_words prompt;
          hasComplexKeywords = mentions complex_words prompt
      in if wordCount > 500 \<or> (hasMultipleSteps \<and> hasComplexKeywords) then CX_high
         else if wordCount > 200 \<or> hasMultipleSteps \<or> hasComplexKeywords then CX_medium
         else CX_low)"

definition shouldDecompose :: "string \<Rightarrow> bool" where
  "shouldDecompose prompt \<longleftrightarrow> estimateComplexity prompt \<noteq> CX_low"

definition co_createTask :: "int \<Rightarrow> string \<Rightarrow> string \<Rightarrow> TaskPriority \<Rightarrow> js_record option \<Rightarrow> TaskDefinition" where
  "co_createTask now rnd prompt priority metadata =
     \<lparr>td_id = gen_id ''task'' now rnd, td_prompt = prompt, td_agentRole = None, td_agentId = None,
      td_priority = priority, td_timeout = None, td_maxRetries = None, td_dependencies = None,
      td_metadata = metadata\<rparr>"

definition decompose ::
  "int \<Rightarrow> (nat \<Rightarrow> string) \<Rightarrow> string \<Rightarrow> js_record option \<Rightarrow> TaskDefinition list" where
  "decompose now rnd prompt context =
     (let complexity = estimateComplexity prompt
      in if complexity = CX_low then [co_createTask now (rnd 0) prompt P_normal None]
         else let subtaskCount = (if complexity = CX_high then 4 else 2) :: nat
              in map (\<lambda>i. co_createTask now (rnd i)
                   (''Subtask '' @ dec_nat (i + 1) @ '' of '' @ dec_nat subtaskCount @ '': '' @ prompt)
                   (if complexity = CX_high then P_high else P_normal)
                   (Some [(''index'', JNum (of_nat i)), (''total'', JNum (of_nat subtaskCount)),
                          (''context'', case context of Some m \<Rightarrow> JObj m | None \<Rightarrow> JUndef)]))
                 [0..<subtaskCount])"

subsection \<open>The default worker selector\<close>

definition co_requiredCapabilities :: "TaskDefinition \<Rightarrow> jsval" where
  "co_requiredCapabilities task =
     (case td_metadata task of
        None \<Rightarrow> JUndef
      | Some m \<Rightarrow> (case jget m ''requiredCapabilities'' of Some v \<Rightarrow> v | None \<Rightarrow> JUndef))"

definition has_capability :: "string list \<Rightarrow> jsval \<Rightarrow> bool" where
  "has_capability caps v = (case v of JStr c \<Rightarrow> c \<in> set caps | _ \<Rightarrow> False)"

definition load_score :: "TaskDefinition \<Rightarrow> WorkerInfo \<Rightarrow> rat" where
  "load_score task worker =
     (let loadFactor = 1 - of_int (wi_currentTasks worker) / of_int (wi_maxTasks worker);
          p = wi_performance worker;
          successRate = (if pf_completedTasks p > 0
            then of_nat (pf_completedTasks p) / of_nat (pf_completedTasks p + pf_failedTasks p) else 1);
          speed = (if pf_avgDuration p > 0 then max 0 (1 - pf_avgDuration p / 60000) * 10 else 0)
      in 100 + loadFactor * 30 + successRate * 20 + speed)"

definition priority_penalty :: "TaskDefinition \<Rightarrow> WorkerInfo \<Rightarrow> rat" where
  "priority_penalty task worker =
     (if td_priority task = P_urgent then (if wi_currentTasks worker > 0 then 20 else 0)
      else if td_priority task = P_high
      then (if of_int (wi_currentTasks worker) > (of_int (wi_maxTasks worker) / 2 :: rat) then 10 else 0)
      else 0)"

definition scoreWorker :: "TaskDefinition \<Rightarrow> WorkerInfo \<Rightarrow> coordinator_error + rat" where
  "scoreWorker task worker =
     (if wi_currentTasks worker \<ge> wi_maxTasks worker then Inr 0
      else let required = co_requiredCapabilities task;
               score = load_score task worker - priority_penalty task worker
           in if \<not> js_truthy required then Inr score
              else case required of
                     JArr caps \<Rightarrow>
                       (if list_all (has_capability (wi_capabilities worker)) caps then Inr score else Inr 0)
                   | _ \<Rightarrow> Inl NotAFunction)"

fun score_workers ::
  "TaskDefinition \<Rightarrow> WorkerInfo list \<Rightarrow> coordinator_error + (WorkerInfo \<times> rat) list" where
  "score_workers task [] = Inr []"
| "score_workers task (w # ws) =
     (case scoreWorker task w of
        Inl e \<Rightarrow> Inl e
      | Inr x \<Rightarrow> (case score_workers task ws of Inl e \<Rightarrow> Inl e | Inr xs \<Rightarrow> Inr ((w, x) # xs)))"

definition co_selectWorker ::
  "TaskDefinition \<Rightarrow> WorkerInfo list \<Rightarrow> coordinator_error + string option" where
  "co_selectWorker task workers =
     (case score_workers task (filter (\<lambda>w. wi_currentTasks w < wi_maxTasks w) workers) of
        Inl e \<Rightarrow> Inl e
      | Inr scored \<Rightarrow>
          (case sort_key (\<lambda>x. - snd x) scored of
             [] \<Rightarrow> Inr None
           | x # _ \<Rightarrow> Inr (Some (wi_id (fst x)))))"

subsection \<open>The default result aggregator\<close>

definition validate :: "TaskResult \<Rightarrow> bool" where
  "validate r \<longleftrightarrow> r_status r = T_completed \<and> (case r_error r of None \<Rightarrow> True | Some e \<Rightarrow> e = [])"

text \<open>\<open>{...(v ?? {})}\<close>\<close>

definition own_props :: "jsval \<Rightarrow> js_record" where
  "own_props v = (case v of
      JObj m \<Rightarrow> m
    | JArr xs \<Rightarrow> zip (map dec_nat [0..<length xs]) xs
    | JStr s \<Rightarrow> zip (map dec_nat [0..<length s]) (map (\<lambda>c. JStr [c]) s)
    | _ \<Rightarrow> [])"

definition usage_field :: "(TokenUsage \<Rightarrow> int) \<Rightarrow> TaskResult \<Rightarrow> int" where
  "usage_field f r = (case r_tokenUsage r of Some u \<Rightarrow> f u | None \<Rightarrow> 0)"

definition co_merge :: "TaskResult \<Rightarrow> TaskResult \<Rightarrow> TaskResult" where
  "co_merge a b =
     \<lparr>r_taskId = r_taskId a @ ''+'' @ r_taskId b, r_agentId = r_agentId a @ '','' @ r_agentId b,
      r_status = (if r_status a = T_completed \<and> r_status b = T_completed then T_completed else T_partial),
      r_output = JObj (js_spread (js_spread [] (own_props (r_output a))) (own_props (r_output b))),
      r_error = None,
      r_duration = r_duration a + r_duration b,
      r_tokenUsage = Some \<lparr>tu_input = usage_field tu_input a + usage_field tu_input b,
        tu_output = usage_field tu_output a + usage_field tu_output b,
        tu_total = usage_field tu_total a + usage_field tu_total b\<rparr>\<rparr>"

definition mergeAll :: "TaskResult list \<Rightarrow> TaskResult" where
  "mergeAll results = foldl co_merge (hd results) (tl results)"

definition scoreResult :: "TaskResult \<Rightarrow> rat" where
  "scoreResult r =
     (if r_status r = T_completed then 50 else 0) +
     (case r_output r of
        JObj m \<Rightarrow> of_nat (length m) * 5
      | JArr xs \<Rightarrow> of_nat (length xs) * 5
      | _ \<Rightarrow> 0) +
     (if r_duration r \<noteq> 0 then max 0 (20 - of_int (r_duration r) / 10000) else 0)"

definition selectBest :: "TaskResult list \<Rightarrow> TaskResult" where
  "selectBest results =
     (case filter validate results of
        [] \<Rightarrow> hd results
      | r # rs \<Rightarrow> reduce_max scoreResult r rs)"

fun json_norm :: "jsval \<Rightarrow> jsval" where
  "json_norm (JArr xs) = JArr (map (\<lambda>x. case json_norm x of JUndef \<Rightarrow> JNull | y \<Rightarrow> y) xs)"
| "json_norm (JObj m) = JObj (filter (\<lambda>(k, v). v \<noteq> JUndef) (map (\<lambda>(k, v). (k, json_norm v)) m))"
| "json_norm v = v"

definition output_text :: "TaskResult \<Rightarrow> jsval" where
  "output_text r = json_norm (r_output r)"

definition tally_one ::
  "TaskResult \<Rightarrow> (jsval, TaskResult \<times> nat) jsmap \<Rightarrow> (jsval, TaskResult \<times> nat) jsmap" where
  "tally_one r counts =
     (case jget counts (output_text r) of
        Some (first, n) \<Rightarrow> jset counts (output_text r) (first, n + 1)
      | None \<Rightarrow> jset counts (output_text r) (r, 1))"

definition findConsensus :: "TaskResult list \<Rightarrow> TaskResult" where
  "findConsensus results =
     (case filter validate results of
        [] \<Rightarrow> hd results
      | r # rs \<Rightarrow>
          (let counts = fold tally_one (r # rs) []
           in snd (fold (\<lambda>(result, count) (maxCount, consensus).
                if count > maxCount then (count, result) else (maxCount, consensus)) (jvals counts) (0, r))))"

definition aggregate :: "TaskResult list \<Rightarrow> AggregationStrategy \<Rightarrow> TaskResult" where
  "aggregate results strategy =
     (case strategy of
        AS_first \<Rightarrow> hd results
      | AS_all \<Rightarrow> mergeAll results
      | AS_best \<Rightarrow> selectBest results
      | AS_consensus \<Rightarrow> findConsensus results)"

definition default_deps :: "int \<Rightarrow> (nat \<Rightarrow> string) \<Rightarrow> coordinator_deps" where
  "default_deps now rnd = \<lparr>cd_shouldDecompose = shouldDecompose, cd_decompose = decompose now rnd,
     cd_selectWorker = co_selectWorker, cd_aggregate = aggregate\<rparr>"

subsection \<open>Loads\<close>

text \<open>An assignment is open until it is completed or failed. The load of a worker is the number of
  its open assignments, as long as callers do not assign a task that is open, settle an assignment twice,
  or replace or remove a worker that has work.\<close>

definition open_at :: "string \<Rightarrow> WorkerAssignment \<Rightarrow> bool" where
  "open_at workerId a \<longleftrightarrow> wa_status a = AN_pending \<and> wa_workerId a = workerId"

definition open_count :: "string \<Rightarrow> coordinator \<Rightarrow> nat" where
  "open_count workerId s = length (filter (open_at workerId) (jvals (co_assignments s)))"

definition is_open :: "string \<Rightarrow> coordinator \<Rightarrow> bool" where
  "is_open taskId s \<longleftrightarrow>
     (case jget (co_assignments s) taskId of Some a \<Rightarrow> wa_status a = AN_pending | None \<Rightarrow> False)"

definition settled_or_new :: "string \<Rightarrow> coordinator \<Rightarrow> bool" where
  "settled_or_new taskId s \<longleftrightarrow> \<not> is_open taskId s"

definition load_ok :: "coordinator \<Rightarrow> string \<Rightarrow> WorkerInfo \<Rightarrow> bool" where
  "load_ok s i w \<longleftrightarrow>
     wi_id w = i \<and> wi_currentTasks w = int (open_count i s) \<and> wi_currentTasks w \<le> wi_maxTasks w"

definition co_inv :: "coordinator \<Rightarrow> bool" where
  "co_inv s \<longleftrightarrow> jwf (co_workers s) \<and> jwf (co_assignments s) \<and>
     (\<forall>k a. jget (co_assignments s) k = Some a \<longrightarrow> wa_status a \<noteq> AN_running) \<and>
     (\<forall>i w. jget (co_workers s) i = Some w \<longrightarrow> load_ok s i w)"

datatype co_op =
    Co_assign int TaskDefinition "string option"
  | Co_complete string TaskResult
  | Co_fail int string string
  | Co_register WorkerInfo
  | Co_unregister string
  | Co_heartbeat int string

fun co_apply :: "coordinator_deps \<Rightarrow> co_op \<Rightarrow> coordinator \<Rightarrow> coordinator" where
  "co_apply deps (Co_assign now t w) s = fst (co_assignTask deps now t w s)"
| "co_apply deps (Co_complete i r) s = co_completeTask i r s"
| "co_apply deps (Co_fail now i e) s = co_failTask now i e s"
| "co_apply deps (Co_register w) s = co_registerWorker w s"
| "co_apply deps (Co_unregister i) s = co_unregisterWorker i s"
| "co_apply deps (Co_heartbeat now i) s = updateWorkerHeartbeat now i s"

definition has_room :: "string \<Rightarrow> coordinator \<Rightarrow> bool" where
  "has_room i s \<longleftrightarrow>
     (case jget (co_workers s) i of Some w \<Rightarrow> wi_currentTasks w < wi_maxTasks w | None \<Rightarrow> True)"

fun co_ok :: "coordinator \<Rightarrow> co_op \<Rightarrow> bool" where
  "co_ok s (Co_assign now t w) \<longleftrightarrow> \<not> is_open (td_id t) s \<and> (case w of Some i \<Rightarrow> has_room i s | None \<Rightarrow> True)"
| "co_ok s (Co_complete i r) \<longleftrightarrow> is_open i s \<or> \<not> jhas (co_assignments s) i"
| "co_ok s (Co_fail now i e) \<longleftrightarrow> is_open i s \<or> \<not> jhas (co_assignments s) i"
| "co_ok s (Co_register w) \<longleftrightarrow> wi_currentTasks w = 0 \<and> 0 \<le> wi_maxTasks w \<and> open_count (wi_id w) s = 0"
| "co_ok s (Co_unregister i) \<longleftrightarrow> True"
| "co_ok s (Co_heartbeat now i) \<longleftrightarrow> True"

lemma filter_jset:
  "jwf m \<Longrightarrow> int (length (filter p (jvals (jset m k v)))) =
     int (length (filter p (jvals m))) + of_bool (p v) -
       (case jget m k of Some u \<Rightarrow> of_bool (p u) | None \<Rightarrow> 0)"
proof (induction m)
  case (Cons ju m)
  obtain j u where ju: "ju = (j, u)" by force
  from Cons.prems ju have "jget m j = None" "jwf m" by (auto simp: jwf_def map_of_eq_None_iff)
  with Cons.IH ju show ?case by auto
qed simp

lemma open_count_jset:
  assumes "jwf (co_assignments s)"
  shows "int (open_count i (s\<lparr>co_assignments := jset (co_assignments s) k v\<rparr>)) =
     int (open_count i s) + of_bool (open_at i v) -
       (case jget (co_assignments s) k of Some u \<Rightarrow> of_bool (open_at i u) | None \<Rightarrow> 0)"
  unfolding open_count_def using filter_jset [OF assms, of "open_at i" k v] by simp

lemma open_count_workers [simp]:
  "open_count i (s\<lparr>co_assignments := m, co_workers := ws\<rparr>) = open_count i (s\<lparr>co_assignments := m\<rparr>)"
  "open_count i (s\<lparr>co_workers := ws\<rparr>) = open_count i s"
  by (simp_all add: open_count_def)

lemma take_task_simps [simp]:
  "wi_id (take_task w) = wi_id w" "wi_currentTasks (take_task w) = wi_currentTasks w + 1"
  "wi_maxTasks (take_task w) = wi_maxTasks w"
  by (simp_all add: take_task_def Let_def)

lemma release_task_simps [simp]:
  "wi_id (release_task w) = wi_id w"
  "wi_currentTasks (release_task w) = max 0 (wi_currentTasks w - 1)"
  "wi_maxTasks (release_task w) = wi_maxTasks w"
  by (simp_all add: release_task_def Let_def)

lemma load_ok_keep: "load_ok s i w \<Longrightarrow> open_count i s' = open_count i s \<Longrightarrow> load_ok s' i w"
  by (simp add: load_ok_def)

lemma load_ok_workers [simp]: "load_ok (s\<lparr>co_workers := ws\<rparr>) i w \<longleftrightarrow> load_ok s i w"
  by (simp add: load_ok_def)

text \<open>What a selector promises: the worker it names is one of those it was given, and has room.\<close>

locale worker_selector =
  fixes select :: "TaskDefinition \<Rightarrow> WorkerInfo list \<Rightarrow> coordinator_error + string option"
  assumes select_room: "select t ws = Inr (Some i) \<Longrightarrow>
      \<exists>w\<in>set ws. wi_id w = i \<and> wi_currentTasks w < wi_maxTasks w"
begin

lemma assign_outcome:
  assumes "co_inv s" and "co_ok s (Co_assign now t w)" and "cd_selectWorker deps = select"
  shows "(\<exists>e. co_assignTask deps now t w s = (s, Inl e)) \<or>
    (\<exists>i x a. co_assignTask deps now t w s =
       (s\<lparr>co_assignments := jset (co_assignments s) (td_id t) a,
          co_workers := jset (co_workers s) i (take_task x)\<rparr>, Inr a) \<and>
       jget (co_workers s) i = Some x \<and> wi_currentTasks x < wi_maxTasks x \<and>
       wa_status a = AN_pending \<and> wa_workerId a = i)"
proof -
  let ?ws = "filter worker_available (listWorkers s)"
  have room: "wi_currentTasks x < wi_maxTasks x"
    if pick: "(case w of Some w \<Rightarrow> Inr (Some w) | None \<Rightarrow> cd_selectWorker deps t ?ws) = Inr (Some i)"
      and x: "jget (co_workers s) i = Some x" for i x
  proof (cases w)
    case (Some j)
    with pick x assms(2) show ?thesis by (auto simp: has_room_def)
  next
    case None
    with pick assms(3) have "select t ?ws = Inr (Some i)" by simp
    from select_room [OF this] obtain y where y: "y \<in> set (listWorkers s)" "wi_id y = i"
      "wi_currentTasks y < wi_maxTasks y" by auto
    from y(1) assms(1) obtain j where j: "jget (co_workers s) j = Some y"
      using jvals_mem [of "co_workers s" y] unfolding listWorkers_def co_inv_def by blast
    with assms(1) have "wi_id y = j" by (auto simp: co_inv_def load_ok_def)
    with j y x show ?thesis by simp
  qed
  show ?thesis
  proof (cases "?ws = []")
    case True
    then show ?thesis by (simp add: co_assignTask_def)
  next
    case False
    show ?thesis
    proof (cases "(case w of Some w \<Rightarrow> Inr (Some w) | None \<Rightarrow> cd_selectWorker deps t ?ws)")
      case (Inl e)
      with False show ?thesis by (simp add: co_assignTask_def Let_def)
    next
      case (Inr p)
      show ?thesis
      proof (cases p)
        case None
        with False Inr show ?thesis by (simp add: co_assignTask_def Let_def)
      next
        case (Some i)
        with False Inr room [of i] show ?thesis
          by (cases "jget (co_workers s) i") (auto simp: co_assignTask_def Let_def)
      qed
    qed
  qed
qed

lemma co_inv_assign:
  assumes inv: "co_inv s" and ok: "co_ok s (Co_assign now t w)" and deps: "cd_selectWorker deps = select"
  shows "co_inv (fst (co_assignTask deps now t w s))"
  using assign_outcome [OF assms]
proof
  assume "\<exists>e. co_assignTask deps now t w s = (s, Inl e)"
  with inv show ?thesis by auto
next
  assume "\<exists>i x a. co_assignTask deps now t w s =
       (s\<lparr>co_assignments := jset (co_assignments s) (td_id t) a,
          co_workers := jset (co_workers s) i (take_task x)\<rparr>, Inr a) \<and>
       jget (co_workers s) i = Some x \<and> wi_currentTasks x < wi_maxTasks x \<and>
       wa_status a = AN_pending \<and> wa_workerId a = i"
  then obtain i x a where eq: "fst (co_assignTask deps now t w s) =
       s\<lparr>co_assignments := jset (co_assignments s) (td_id t) a,
          co_workers := jset (co_workers s) i (take_task x)\<rparr>"
    and x: "jget (co_workers s) i = Some x" "wi_currentTasks x < wi_maxTasks x"
    and a: "wa_status a = AN_pending" "wa_workerId a = i" by auto
  have old: "(case jget (co_assignments s) (td_id t) of Some u \<Rightarrow> of_bool (open_at j u) | None \<Rightarrow> 0) = (0 :: int)" for j
    using ok by (auto simp: is_open_def open_at_def split: option.splits)
  have cnt: "int (open_count j (s\<lparr>co_assignments := jset (co_assignments s) (td_id t) a\<rparr>)) =
      int (open_count j s) + of_bool (j = i)" for j
    using inv open_count_jset [of s j "td_id t" a] old [of j] a by (auto simp: co_inv_def open_at_def)
  show ?thesis
    unfolding eq co_inv_def
  proof (intro conjI allI impI)
    fix j w'
    assume "jget (co_workers (s\<lparr>co_assignments := jset (co_assignments s) (td_id t) a,
      co_workers := jset (co_workers s) i (take_task x)\<rparr>)) j = Some w'"
    then have w': "if j = i then w' = take_task x else jget (co_workers s) j = Some w'" by (auto split: if_splits)
    show "load_ok (s\<lparr>co_assignments := jset (co_assignments s) (td_id t) a,
      co_workers := jset (co_workers s) i (take_task x)\<rparr>) j w'"
    proof (cases "j = i")
      case True
      from inv x have "load_ok s i x" by (simp add: co_inv_def)
      with True w' x cnt [of i] show ?thesis by (simp add: load_ok_def)
    next
      case False
      with w' inv have "load_ok s j w'" by (simp add: co_inv_def)
      with False cnt [of j] show ?thesis by (simp add: load_ok_def)
    qed
  qed (use inv a in \<open>auto simp: co_inv_def split: if_splits\<close>)
qed

end

lemma co_inv_settle:
  assumes inv: "co_inv s" and a: "jget (co_assignments s) k = Some a" "wa_status a = AN_pending"
    and b: "wa_status b \<noteq> AN_pending" "wa_status b \<noteq> AN_running"
    and f: "\<And>w. wi_id (f w) = wi_id w" "\<And>w. wi_currentTasks (f w) = max 0 (wi_currentTasks w - 1)"
      "\<And>w. wi_maxTasks (f w) = wi_maxTasks w"
  shows "co_inv (s\<lparr>co_assignments := jset (co_assignments s) k b,
    co_workers := jmodify (co_workers s) (wa_workerId a) f\<rparr>)"
proof -
  have cnt: "int (open_count j (s\<lparr>co_assignments := jset (co_assignments s) k b\<rparr>)) =
      int (open_count j s) - of_bool (j = wa_workerId a)" for j
    using inv open_count_jset [of s j k b] a b by (auto simp: co_inv_def open_at_def)
  from cnt [of "wa_workerId a"] have pos: "1 \<le> open_count (wa_workerId a) s" by simp
  have "load_ok (s\<lparr>co_assignments := jset (co_assignments s) k b,
      co_workers := jmodify (co_workers s) (wa_workerId a) f\<rparr>) j w'"
    if "jget (jmodify (co_workers s) (wa_workerId a) f) j = Some w'" for j w'
  proof -
    from that obtain w where w: "jget (co_workers s) j = Some w" "w' = (if j = wa_workerId a then f w else w)"
      by (auto split: if_splits)
    with inv have "load_ok s j w" by (simp add: co_inv_def)
    with w(2) pos f cnt [of j] show ?thesis by (auto simp: load_ok_def max_def)
  qed
  with inv b show ?thesis unfolding co_inv_def by auto
qed

lemma co_inv_complete:
  "co_inv s \<Longrightarrow> co_ok s (Co_complete i r) \<Longrightarrow> co_inv (co_completeTask i r s)"
  by (auto simp: co_completeTask_def is_open_def split: option.splits intro!: co_inv_settle)

lemma co_inv_fail:
  "co_inv s \<Longrightarrow> co_ok s (Co_fail now i e) \<Longrightarrow> co_inv (co_failTask now i e s)"
  by (auto simp: co_failTask_def is_open_def split: option.splits intro!: co_inv_settle)

lemma co_inv_register:
  "co_inv s \<Longrightarrow> co_ok s (Co_register w) \<Longrightarrow> co_inv (co_registerWorker w s)"
  by (auto simp: co_registerWorker_def co_inv_def split: if_splits) (simp add: load_ok_def)

lemma co_inv_unregister: "co_inv s \<Longrightarrow> co_inv (co_unregisterWorker i s)"
  by (auto simp: co_unregisterWorker_def co_inv_def split: if_splits)

lemma load_ok_heartbeat: "load_ok s i (w\<lparr>wi_lastHeartbeat := now\<rparr>) \<longleftrightarrow> load_ok s i w"
  by (simp add: load_ok_def)

lemma co_inv_heartbeat: "co_inv s \<Longrightarrow> co_inv (updateWorkerHeartbeat now i s)"
  by (auto simp: updateWorkerHeartbeat_def co_inv_def load_ok_heartbeat split: if_splits)

lemma score_workers_mem:
  "score_workers t ws = Inr xs \<Longrightarrow> map fst xs = ws \<and> (\<forall>(w, x)\<in>set xs. scoreWorker t w = Inr x)"
  by (induction ws arbitrary: xs) (auto split: sum.splits)

lemma sort_key_first:
  "sort_key f xs = x # ys \<Longrightarrow> x \<in> set xs \<and> (\<forall>y\<in>set xs. f x \<le> f y)"
  using sorted_sort_key [of f xs] set_sort [of f xs] by auto

lemma selected_worker:
  assumes "co_selectWorker t ws = Inr (Some i)"
  shows "\<exists>w x. w \<in> set ws \<and> wi_id w = i \<and> wi_currentTasks w < wi_maxTasks w \<and> scoreWorker t w = Inr x \<and>
    (\<forall>w'\<in>set ws. wi_currentTasks w' < wi_maxTasks w' \<longrightarrow> (\<exists>y\<le>x. scoreWorker t w' = Inr y))"
proof -
  let ?ws = "filter (\<lambda>w. wi_currentTasks w < wi_maxTasks w) ws"
  from assms obtain xs p ps where xs: "score_workers t ?ws = Inr xs"
    and sorted: "sort_key (\<lambda>x. - snd x) xs = p # ps" and i: "i = wi_id (fst p)"
    by (auto simp: co_selectWorker_def split: sum.splits list.splits)
  from sort_key_first [OF sorted] have p: "p \<in> set xs" "\<forall>y\<in>set xs. snd y \<le> snd p" by auto
  from score_workers_mem [OF xs] have fst: "map fst xs = ?ws"
    and score: "\<forall>(w, x)\<in>set xs. scoreWorker t w = Inr x" by auto
  have "\<exists>y\<le>snd p. scoreWorker t w' = Inr y" if "w' \<in> set ws" "wi_currentTasks w' < wi_maxTasks w'" for w'
  proof -
    from that have "w' \<in> set (map fst xs)" by (simp only: fst) simp
    then obtain q where "q \<in> set xs" "w' = fst q" by auto
    with p(2) score show ?thesis by (intro exI [of _ "snd q"]) (auto simp: case_prod_beta)
  qed
  moreover from p(1) have "fst p \<in> set (map fst xs)" by simp
  then have "fst p \<in> set ?ws" by (simp only: fst)
  moreover have "scoreWorker t (fst p) = Inr (snd p)" using p(1) score by (cases p) auto
  ultimately show ?thesis using i by auto
qed

lemma nobody_selected:
  assumes "co_selectWorker t ws = Inr None" and "w \<in> set ws"
  shows "wi_maxTasks w \<le> wi_currentTasks w"
proof (rule ccontr)
  assume "\<not> ?thesis"
  with assms(2) have w: "w \<in> set (filter (\<lambda>w. wi_currentTasks w < wi_maxTasks w) ws)" by simp
  from assms(1) obtain xs where xs: "score_workers t (filter (\<lambda>w. wi_currentTasks w < wi_maxTasks w) ws) = Inr xs"
    and "sort_key (\<lambda>x. - snd x) xs = []"
    by (auto simp: co_selectWorker_def split: sum.splits list.splits)
  then have "set xs = {}" using set_sort [of "\<lambda>x. - snd x" xs] by simp
  with score_workers_mem [OF xs] have "filter (\<lambda>w. wi_currentTasks w < wi_maxTasks w) ws = []" by simp
  with w show False by simp
qed

interpretation default_selector: worker_selector co_selectWorker
  by unfold_locales (use selected_worker in blast)

lemma co_inv_step:
  "co_ok s x \<Longrightarrow> co_inv s \<Longrightarrow> cd_selectWorker deps = co_selectWorker \<Longrightarrow> co_inv (co_apply deps x s)"
  by (cases x) (auto intro: default_selector.co_inv_assign co_inv_complete co_inv_fail co_inv_register
      co_inv_unregister co_inv_heartbeat)

interpretation co_machine: guarded_machine co_ok "co_apply (default_deps t rnd)" co_inv for t rnd
  by unfold_locales (simp add: co_inv_step default_deps_def)

lemma co_inv_new: "co_inv (new_coordinator c)"
  by (simp add: new_coordinator_def co_inv_def)

lemma status_partition:
  "(\<forall>k a. jget m k = Some a \<longrightarrow> wa_status a \<noteq> AN_running) \<Longrightarrow> jwf m \<Longrightarrow>
   length (filter (\<lambda>a. wa_status a = AN_pending) (jvals m)) + length (filter (\<lambda>a. wa_status a = AN_completed) (jvals m)) +
   length (filter (\<lambda>a. wa_status a = AN_failed) (jvals m)) = length m \<and>
   filter (\<lambda>a. wa_status a = AN_running) (jvals m) = []"
proof (induction m)
  case (Cons ka m)
  obtain k a where ka: "ka = (k, a)" by force
  from Cons.prems ka have "wa_status a \<noteq> AN_running" by (auto dest: spec [of _ k])
  moreover have "jget m j = Some b \<Longrightarrow> wa_status b \<noteq> AN_running" for j b
    using Cons.prems ka by (cases "j = k") (force simp: jwf_def dest: map_of_SomeD split: if_splits)+
  ultimately show ?case using Cons ka by (cases "wa_status a") (auto simp: jwf_def)
qed simp

definition demo_worker :: "string \<Rightarrow> int \<Rightarrow> WorkerInfo" where
  "demo_worker i n = \<lparr>wi_id = i, wi_status = WI_idle, wi_capabilities = [''ts''], wi_currentTasks = 0,
     wi_maxTasks = n, wi_lastHeartbeat = 0, wi_performance = new_performance\<rparr>"

definition demo_task :: "string \<Rightarrow> TaskDefinition" where
  "demo_task i = \<lparr>td_id = i, td_prompt = ''p'', td_agentRole = None, td_agentId = None,
     td_priority = P_normal, td_timeout = None, td_maxRetries = None, td_dependencies = None,
     td_metadata = None\<rparr>"

definition demo_result :: "string \<Rightarrow> TaskStatus \<Rightarrow> jsval \<Rightarrow> int \<Rightarrow> TaskResult" where
  "demo_result i st out d = \<lparr>r_taskId = i, r_agentId = ''w'', r_status = st, r_output = out,
     r_error = None, r_duration = d, r_tokenUsage = None\<rparr>"

definition demo_co_ops :: "co_op list" where
  "demo_co_ops = [Co_register (demo_worker ''w'' 2), Co_assign 1 (demo_task ''t1'') None,
     Co_assign 2 (demo_task ''t2'') None, Co_complete ''t1'' (demo_result ''t1'' T_completed JNull 5)]"



text \<open>The default selector names a worker exactly when some worker it is given has room, and
  then one with room whose score is the greatest among those with room; it throws only when a worker's
  score does.\<close>

lemma selectWorker_best:
  assumes "co_selectWorker t ws = Inr res"
  shows "(res = None \<longleftrightarrow> (\<forall>w\<in>set ws. wi_maxTasks w \<le> wi_currentTasks w)) \<and>
    (\<forall>i. res = Some i \<longrightarrow> (\<exists>w x. w \<in> set ws \<and> wi_id w = i \<and> wi_currentTasks w < wi_maxTasks w \<and>
       scoreWorker t w = Inr x \<and>
       (\<forall>w'\<in>set ws. wi_currentTasks w' < wi_maxTasks w' \<longrightarrow> (\<exists>y\<le>x. scoreWorker t w' = Inr y))))"
proof (cases res)
  case None
  with assms nobody_selected show ?thesis by blast
next
  case (Some i)
  with assms have "co_selectWorker t ws = Inr (Some i)" by simp
  from selected_worker [OF this] Some show ?thesis by (auto simp: not_le)
qed

text \<open>A worker without a required capability has score 0 and is selected all the same when no other
  worker has room.\<close>

lemma incapable_worker_selected:
  assumes "wi_currentTasks w < wi_maxTasks w" and "co_requiredCapabilities t = JArr caps"
  shows "co_selectWorker t [w] = Inr (Some (wi_id w))"
  using assms by (auto simp: co_selectWorker_def scoreWorker_def Let_def)

text \<open>Completing an assignment a second time frees a place that another task still occupies.\<close>

lemma second_completion_frees_place:
  assumes "jget (co_assignments s) k = Some a" and "jget (co_workers s) (wa_workerId a) = Some w"
    and "2 \<le> wi_currentTasks w"
  shows "map_option wi_currentTasks (getWorkerInfo (wa_workerId a) (co_completeTask k r (co_completeTask k r' s))) =
    Some (wi_currentTasks w - 2)"
  using assms by (simp add: co_completeTask_def getWorkerInfo_def)

text \<open>\<open>collectResults\<close> returns the result of every completed assignment, whichever task was asked for.\<close>

lemma collectResults_all_completed:
  assumes "(j, a) \<in> set (co_assignments s)" and "wa_status a = AN_completed" and "wa_result a = Some r"
  shows "r \<in> set (collectResults i s)"
  using assms by (force simp: collectResults_def List.map_filter_def)

lemma named_worker_may_be_full:
  assumes "jget (co_workers s) i = Some w" and "i \<noteq> []" and "\<exists>v\<in>set (listWorkers s). worker_available v"
  shows "map_option wi_currentTasks (getWorkerInfo i (fst (co_assignTask deps now t (Some i) s))) =
    Some (wi_currentTasks w + 1)"
  using assms by (auto simp: co_assignTask_def getWorkerInfo_def Let_def filter_empty_conv)

subsection \<open>Decomposition and aggregation\<close>

lemma chain_dependencies_upto:
  assumes "distinct (map td_id ts)" and "n \<le> length ts"
  shows "fold (\<lambda>i m. jset m (td_id (ts ! i)) (if i = 0 then [] else [td_id (ts ! (i - 1))])) [0..<n] [] =
    map (\<lambda>i. (td_id (ts ! i), if i = 0 then [] else [td_id (ts ! (i - 1))])) [0..<n]"
  using assms(2)
proof (induction n)
  case (Suc n)
  have "td_id (ts ! n) \<notin> set (map (\<lambda>i. td_id (ts ! i)) [0..<n])"
    using assms(1) Suc.prems by (auto simp: distinct_conv_nth)
  then have "\<not> jhas (map (\<lambda>i. (td_id (ts ! i), if i = 0 then [] else [td_id (ts ! (i - 1))])) [0..<n]) (td_id (ts ! n))"
    by (auto simp: map_of_eq_None_iff)
  with Suc show ?case by (simp add: jset_fresh)
qed simp

text \<open>A task that is decomposed into subtasks with different ids gets a chain as dependencies:
  every subtask depends on the one before it and on nothing else, so the subtasks can only run one after
  the other, although from two subtasks on the strategy is \<open>parallel\<close>.\<close>

lemma decomposeTask_chain:
  assumes "cd_shouldDecompose deps (td_prompt t)"
    and "cd_decompose deps (td_prompt t) (td_metadata t) = ts" and "distinct (map td_id ts)"
  shows "dt_subtasks (decomposeTask deps t) = ts \<and>
    jkeys (dt_dependencies (decomposeTask deps t)) = map td_id ts \<and>
    (\<forall>i<length ts. jget (dt_dependencies (decomposeTask deps t)) (td_id (ts ! i)) =
       Some (if i = 0 then [] else [td_id (ts ! (i - 1))])) \<and>
    (1 < length ts \<longrightarrow> dt_strategy (decomposeTask deps t) = DT_parallel)"
proof -
  let ?m = "dt_dependencies (decomposeTask deps t)"
  have m: "?m = map (\<lambda>i. (td_id (ts ! i), if i = 0 then [] else [td_id (ts ! (i - 1))])) [0..<length ts]"
    using assms chain_dependencies_upto [of ts "length ts"]
    by (simp add: decomposeTask_def Let_def chain_dependencies_def)
  have keys: "jkeys ?m = map td_id ts"
    unfolding m by (rule nth_equalityI) simp_all
  from keys assms(3) have "jwf ?m" by (simp add: jwf_def)
  moreover have "(td_id (ts ! i), if i = 0 then [] else [td_id (ts ! (i - 1))]) \<in> set ?m" if "i < length ts" for i
    using that m by auto
  ultimately have "\<forall>i<length ts. jget ?m (td_id (ts ! i)) = Some (if i = 0 then [] else [td_id (ts ! (i - 1))])"
    by (simp add: jget_mem)
  with keys assms show ?thesis by (simp add: decomposeTask_def Let_def)
qed

definition demo_big_task :: TaskDefinition where
  "demo_big_task = (demo_task ''t'')\<lparr>td_prompt := ''Design the parser, then write it''\<rparr>"

definition demo_rnd :: "nat \<Rightarrow> string" where
  "demo_rnd n = dec_nat n"

lemma decomposeTask_chain_witness:
  "length (dt_subtasks (decomposeTask (default_deps 0 demo_rnd) demo_big_task)) = 4 \<and>
   jget (dt_dependencies (decomposeTask (default_deps 0 demo_rnd) demo_big_task)) ''task-0-3'' = Some [''task-0-2''] \<and>
   dt_strategy (decomposeTask (default_deps 0 demo_rnd) demo_big_task) = DT_parallel"
proof -
  let ?d = "default_deps 0 demo_rnd"
  let ?ts = "cd_decompose ?d (td_prompt demo_big_task) (td_metadata demo_big_task)"
  have "cd_shouldDecompose ?d (td_prompt demo_big_task)" by code_simp
  moreover have ids: "map td_id ?ts = [''task-0-0'', ''task-0-1'', ''task-0-2'', ''task-0-3'']" by code_simp
  moreover have dist: "distinct (map td_id ?ts)" unfolding ids by simp
  ultimately have chain: "dt_subtasks (decomposeTask ?d demo_big_task) = ?ts \<and>
      (\<forall>i<length ?ts. jget (dt_dependencies (decomposeTask ?d demo_big_task)) (td_id (?ts ! i)) =
       Some (if i = 0 then [] else [td_id (?ts ! (i - 1))])) \<and>
      (1 < length ?ts \<longrightarrow> dt_strategy (decomposeTask ?d demo_big_task) = DT_parallel)"
    using decomposeTask_chain [of ?d demo_big_task ?ts] by blast
  have len: "length ?ts = 4" using arg_cong [OF ids, of length] by simp
  have "td_id (?ts ! 3) = ''task-0-3''" "td_id (?ts ! 2) = ''task-0-2''"
    using arg_cong [OF ids, of "\<lambda>xs. xs ! 3"] arg_cong [OF ids, of "\<lambda>xs. xs ! 2"] len by simp_all
  with chain len show ?thesis by (auto dest: spec [of _ 3])
qed

lemma tally_spec:
  "jwf (fold tally_one rs []) \<and>
   jget (fold tally_one rs []) k = (case find (\<lambda>r. output_text r = k) rs of
      None \<Rightarrow> None | Some r \<Rightarrow> Some (r, length (filter (\<lambda>r. output_text r = k) rs)))"
proof (induction rs rule: rev_induct)
  case (snoc r rs)
  have none: "find P rs = None \<Longrightarrow> filter P rs = []" for P :: "TaskResult \<Rightarrow> bool"
    by (auto simp: find_None_iff filter_empty_conv)
  have app: "find P (rs @ [r]) = (case find P rs of Some x \<Rightarrow> Some x | None \<Rightarrow> if P r then Some r else None)"
    for P by (induction rs) auto
  show ?case
  proof (cases "output_text r = k")
    case True
    with snoc show ?thesis
      by (cases "find (\<lambda>q. output_text q = k) rs") (auto simp: tally_one_def app none)
  next
    case False
    with snoc show ?thesis
      by (auto simp: tally_one_def app split: option.splits)
  qed
qed simp

lemma majority_loop:
  "(mx, best) = fold (\<lambda>(result, count) (maxCount, consensus).
      if count > maxCount then (count, result) else (maxCount, consensus)) xs (n, r) \<Longrightarrow>
   (n :: nat) \<le> mx \<and> (\<forall>(q, c)\<in>set xs. c \<le> mx) \<and> ((best, mx) \<in> set xs \<or> (best, mx) = (r, n))"
proof (induction xs arbitrary: n r)
  case (Cons x xs)
  obtain q c where x: "x = (q, c)" by force
  show ?case
    using Cons.prems Cons.IH [of c q] Cons.IH [of n r] x by (auto split: if_splits)
qed auto

text \<open>\<open>findConsensus\<close> returns a valid result whose output occurs at least as often among the valid
  results as any other output, and the first valid result with that output; without valid results it
  returns the first result.\<close>

lemma findConsensus_majority:
  assumes "results \<noteq> []"
  defines "vs \<equiv> filter validate results" and "best \<equiv> findConsensus results"
  shows "(vs = [] \<longrightarrow> best = hd results) \<and>
    (vs \<noteq> [] \<longrightarrow> find (\<lambda>r. output_text r = output_text best) vs = Some best \<and>
      (\<forall>r\<in>set vs. length (filter (\<lambda>q. output_text q = output_text r) vs) \<le>
        length (filter (\<lambda>q. output_text q = output_text best) vs)))"
proof (cases vs)
  case Nil
  then show ?thesis by (simp add: vs_def best_def findConsensus_def)
next
  case (Cons r rs)
  let ?count = "\<lambda>k. length (filter (\<lambda>q. output_text q = k) vs)"
  let ?xs = "jvals (fold tally_one vs [])"
  let ?loop = "fold (\<lambda>(result, count) (maxCount, consensus).
      if count > maxCount then (count, result) else (maxCount, consensus)) ?xs (0, r)"
  define mx b where "mx = fst ?loop" and "b = snd ?loop"
  then have loop: "(mx, b) = ?loop" by simp
  have b: "best = b"
    using Cons by (simp add: best_def findConsensus_def vs_def b_def Let_def)
  have mem: "(q, c) \<in> set ?xs \<longleftrightarrow> find (\<lambda>r. output_text r = output_text q) vs = Some q \<and> c = ?count (output_text q)" for q c
  proof -
    have "(q, c) \<in> set ?xs \<longleftrightarrow> (\<exists>k. jget (fold tally_one vs []) k = Some (q, c))"
      by (rule jvals_mem) (simp add: tally_spec)
    also have "\<dots> \<longleftrightarrow> (\<exists>k. find (\<lambda>r. output_text r = k) vs = Some q \<and> c = ?count k)"
      by (auto simp: tally_spec split: option.splits)
    also have "\<dots> \<longleftrightarrow> find (\<lambda>r. output_text r = output_text q) vs = Some q \<and> c = ?count (output_text q)"
      by (auto dest: find_SomeD)
    finally show ?thesis .
  qed
  have covered: "\<exists>q. (q, ?count (output_text x)) \<in> set ?xs" if "x \<in> set vs" for x
  proof -
    from that obtain q where q: "find (\<lambda>r. output_text r = output_text x) vs = Some q"
      by (cases "find (\<lambda>r. output_text r = output_text x) vs") (auto simp: find_None_iff)
    then have "output_text q = output_text x" by (auto dest: find_SomeD)
    with q show ?thesis using mem [of q "?count (output_text x)"] by auto
  qed
  from majority_loop [OF loop] have max: "\<forall>(q, c)\<in>set ?xs. c \<le> mx" and
    hit: "(b, mx) \<in> set ?xs \<or> (b, mx) = (r, 0)" by auto
  from covered [of r] Cons max have "0 < mx" by fastforce
  with hit have "(b, mx) \<in> set ?xs" by auto
  then have fb: "find (\<lambda>r. output_text r = output_text b) vs = Some b" and "mx = ?count (output_text b)"
    using mem by auto
  moreover have "?count (output_text x) \<le> mx" if "x \<in> set vs" for x
    using covered [OF that] max by auto
  ultimately show ?thesis using b Cons by simp
qed

definition demo_results :: "TaskResult list" where
  "demo_results = [demo_result ''a'' T_completed (JStr ''x'') 5, demo_result ''b'' T_completed (JStr ''y'') 3,
     demo_result ''c'' T_completed (JStr ''y'') 9, demo_result ''d'' T_failed (JStr ''x'') 1]"

lemma findConsensus_majority_witness:
  "find (\<lambda>r. output_text r = output_text (findConsensus demo_results)) (filter validate demo_results) =
     Some (findConsensus demo_results) \<and> r_taskId (findConsensus demo_results) = ''b''"
proof -
  have "demo_results \<noteq> []" "filter validate demo_results \<noteq> []" by code_simp+
  moreover have "r_taskId (findConsensus demo_results) = ''b''" by code_simp
  ultimately show ?thesis using findConsensus_majority [of demo_results] by blast
qed

lemma selectBest_first:
  assumes "filter validate results = r # rs"
  shows "\<exists>a b. filter validate results = a @ selectBest results # b \<and>
    (\<forall>x\<in>set a. scoreResult x < scoreResult (selectBest results)) \<and>
    (\<forall>x\<in>set b. scoreResult x \<le> scoreResult (selectBest results))"
  using reduce_max_first [of "selectBest results" scoreResult r rs] assms by (simp add: selectBest_def)

text \<open>Merging: the status is \<open>completed\<close> when all are, otherwise \<open>partial\<close>; durations and tokens add up.\<close>

lemma merge_fold:
  "rs \<noteq> [] \<Longrightarrow>
   r_status (foldl co_merge r rs) = (if \<forall>x\<in>set (r # rs). r_status x = T_completed then T_completed else T_partial) \<and>
   r_duration (foldl co_merge r rs) = sum_list (map r_duration (r # rs)) \<and>
   usage_field tu_total (foldl co_merge r rs) = sum_list (map (usage_field tu_total) (r # rs))"
proof (induction rs arbitrary: r)
  case (Cons x rs)
  show ?case
  proof (cases "rs = []")
    case True
    then show ?thesis by (simp add: co_merge_def usage_field_def)
  next
    case False
    with Cons.IH [of "co_merge r x"] show ?thesis by (auto simp: co_merge_def usage_field_def)
  qed
qed simp

text \<open>With the strategy \<open>all\<close>, the aggregate of at least two results is completed exactly when all of
  them are and partial otherwise, and its duration and token count are the sums. No results is an error, and
  one result is returned as it is.\<close>

lemma aggregate_all:
  "cc_resultAggregationStrategy (co_config s) = AS_all \<longrightarrow>
   aggregateResults (default_deps t rnd) [] s = Inl NoResults \<and>
   aggregateResults (default_deps t rnd) [r] s = Inr r \<and>
   (\<exists>m. aggregateResults (default_deps t rnd) (r # r' # rs) s = Inr m \<and>
     r_status m = (if \<forall>x\<in>set (r # r' # rs). r_status x = T_completed then T_completed else T_partial) \<and>
     r_duration m = sum_list (map r_duration (r # r' # rs)) \<and>
     usage_field tu_total m = sum_list (map (usage_field tu_total) (r # r' # rs)))"
  using merge_fold [of "r' # rs" r]
  by (simp add: aggregateResults_def default_deps_def aggregate_def mergeAll_def)

end
