(* ===== verification/Worker.thy ===== *)
theory Worker
  imports OrchTypes
begin

text \<open>
  Workers (\<open>src/src/orchestrator/worker.ts\<close>): the classes \<open>Worker\<close> and \<open>WorkerPool\<close>.

  \<open>execute\<close> runs for a long time and other calls arrive meanwhile, so a call of it is an entry of
  \<open>wk_execs\<close> and the code between two suspensions is a step: the call up to the first invocation of
  the executor (\<open>beginExecute\<close>), the settling of the promise of one attempt (\<open>settleAttempt\<close>: the executor's
  result or error, the timeout, or the abort event; the first one wins), the code that follows its \<open>await\<close>
  (\<open>resumeExecute\<close>), and the end of the delay before a retry (\<open>endDelay\<close>). An entry is also the address
  of the progress object and of the abort controller that the call creates, which the maps
  \<open>currentTasks\<close> and \<open>abortControllers\<close> hold. When timers fire is up to the environment.

  A handler returns (\<open>None\<close>) or throws an error with a message; the calls made are recorded in
  \<open>wk_calls\<close>. The heartbeat timer is never set by the code.
\<close>

record WorkerConfig =
  wc_maxConcurrentTasks :: int
  wc_taskTimeout :: int
  wc_heartbeatInterval :: int
  wc_reportProgress :: bool
  wc_retryOnFailure :: bool
  wc_maxRetries :: int

record WorkerCapabilities =
  wp_skills :: "string list"
  wp_tools :: "string list"
  wp_models :: "string list"
  wp_maxTokens :: int
  wp_supportsStreaming :: bool
  wp_supportsAttachments :: bool

datatype WorkerStatus = WS_idle | WS_busy | WS_offline | WS_error

record TaskProgress =
  pg_taskId :: string
  pg_status :: TaskStatus
  pg_progress :: rat
  pg_message :: "string option"
  pg_startedAt :: int
  pg_updatedAt :: int
  pg_estimatedTimeRemaining :: "int option"

record WorkerMetrics =
  mt_tasksCompleted :: nat
  mt_tasksFailed :: nat
  mt_totalDuration :: int
  mt_totalTokens :: int
  mt_avgTaskDuration :: rat
  mt_avgTokensPerTask :: rat
  mt_successRate :: rat
  mt_uptime :: int

record WorkerEventHandler =
  eh_onTaskStart :: "(string \<Rightarrow> string option) option"
  eh_onTaskProgress :: "(TaskProgress \<Rightarrow> string option) option"
  eh_onTaskComplete :: "(TaskResult \<Rightarrow> string option) option"
  eh_onTaskError :: "(string \<Rightarrow> string option \<Rightarrow> string option) option"
  eh_onStatusChange :: "(WorkerStatus \<Rightarrow> string option) option"

datatype worker_call =
    WC_start string
  | WC_progress TaskProgress
  | WC_complete TaskResult
  | WC_error string "string option"
  | WC_status WorkerStatus

text \<open>Where a call of \<open>execute\<close> stands: waiting for an attempt, its promise settled, waiting before a
  retry, or returned (\<open>Inr\<close>) or rejected (\<open>Inl\<close>).\<close>

datatype phase =
    Attempting
  | Settled "string + TaskResult"
  | Delaying
  | Finished "string + TaskResult"

record worker_exec =
  wx_task :: TaskDefinition
  wx_progress :: TaskProgress
  wx_aborted :: bool
  wx_retries :: int
  wx_lastError :: "string option"
  wx_attempts :: nat
  wx_phase :: phase

record worker =
  wk_id :: string
  wk_config :: WorkerConfig
  wk_capabilities :: WorkerCapabilities
  wk_status :: WorkerStatus
  wk_currentTasks :: "(string, nat) jsmap"
  wk_metrics :: WorkerMetrics
  wk_startTime :: int
  wk_handlers :: WorkerEventHandler
  wk_abortControllers :: "(string, nat) jsmap"
  wk_execs :: "worker_exec list"
  wk_calls :: "worker_call list"

definition default_worker_config :: WorkerConfig where
  "default_worker_config =
     \<lparr>wc_maxConcurrentTasks = 3, wc_taskTimeout = 300000, wc_heartbeatInterval = 30000,
      wc_reportProgress = True, wc_retryOnFailure = True, wc_maxRetries = 2\<rparr>"

definition initMetrics :: WorkerMetrics where
  "initMetrics =
     \<lparr>mt_tasksCompleted = 0, mt_tasksFailed = 0, mt_totalDuration = 0, mt_totalTokens = 0,
      mt_avgTaskDuration = 0, mt_avgTokensPerTask = 0, mt_successRate = 1, mt_uptime = 0\<rparr>"

definition wk_no_handlers :: WorkerEventHandler where
  "wk_no_handlers = \<lparr>eh_onTaskStart = None, eh_onTaskProgress = None, eh_onTaskComplete = None,
     eh_onTaskError = None, eh_onStatusChange = None\<rparr>"

definition new_worker :: "int \<Rightarrow> string \<Rightarrow> WorkerConfig \<Rightarrow> WorkerCapabilities \<Rightarrow> worker" where
  "new_worker now i config capabilities =
     \<lparr>wk_id = i, wk_config = config, wk_capabilities = capabilities, wk_status = WS_idle,
      wk_currentTasks = [], wk_metrics = initMetrics, wk_startTime = now, wk_handlers = wk_no_handlers,
      wk_abortControllers = [], wk_execs = [], wk_calls = []\<rparr>"

subsection \<open>Queries\<close>

definition wk_getMetrics :: "int \<Rightarrow> worker \<Rightarrow> WorkerMetrics" where
  "wk_getMetrics now w = (wk_metrics w)\<lparr>mt_uptime := now - wk_startTime w\<rparr>"

definition getCurrentTasks :: "worker \<Rightarrow> string list" where
  "getCurrentTasks w = jkeys (wk_currentTasks w)"

definition canAcceptTask :: "worker \<Rightarrow> bool" where
  "canAcceptTask w \<longleftrightarrow> wk_status w \<noteq> WS_offline \<and> wk_status w \<noteq> WS_error \<and>
     int (length (wk_currentTasks w)) < wc_maxConcurrentTasks (wk_config w)"

definition getProgress :: "string \<Rightarrow> worker \<Rightarrow> TaskProgress option" where
  "getProgress taskId w = map_option (\<lambda>k. wx_progress (wk_execs w ! k)) (jget (wk_currentTasks w) taskId)"

subsection \<open>Handlers, status and metrics\<close>

fun on_call :: "WorkerEventHandler \<Rightarrow> worker_call \<Rightarrow> string option option" where
  "on_call h (WC_start i) = map_option (\<lambda>f. f i) (eh_onTaskStart h)"
| "on_call h (WC_progress p) = map_option (\<lambda>f. f p) (eh_onTaskProgress h)"
| "on_call h (WC_complete r) = map_option (\<lambda>f. f r) (eh_onTaskComplete h)"
| "on_call h (WC_error i e) = map_option (\<lambda>f. f i e) (eh_onTaskError h)"
| "on_call h (WC_status st) = map_option (\<lambda>f. f st) (eh_onStatusChange h)"

definition wk_notify :: "worker_call \<Rightarrow> worker \<Rightarrow> worker \<times> (string + unit)" where
  "wk_notify c w =
     (case on_call (wk_handlers w) c of
        None \<Rightarrow> (w, Inr ())
      | Some r \<Rightarrow> (w\<lparr>wk_calls := wk_calls w @ [c]\<rparr>, case r of None \<Rightarrow> Inr () | Some e \<Rightarrow> Inl e))"

definition setStatus :: "WorkerStatus \<Rightarrow> worker \<Rightarrow> worker \<times> (string + unit)" where
  "setStatus st w =
     (let w' = w\<lparr>wk_status := st\<rparr>
      in if wk_status w \<noteq> st then wk_notify (WC_status st) w' else (w', Inr ()))"

definition metrics_total :: "WorkerMetrics \<Rightarrow> nat" where
  "metrics_total m = mt_tasksCompleted m + mt_tasksFailed m"

definition count_result :: "TaskResult \<Rightarrow> WorkerMetrics \<Rightarrow> WorkerMetrics" where
  "count_result result m =
     (if r_status result = T_completed then m\<lparr>mt_tasksCompleted := mt_tasksCompleted m + 1\<rparr>
      else m\<lparr>mt_tasksFailed := mt_tasksFailed m + 1\<rparr>)"

definition add_duration :: "TaskResult \<Rightarrow> WorkerMetrics \<Rightarrow> WorkerMetrics" where
  "add_duration result m =
     (if r_duration result \<noteq> 0
      then let d = mt_totalDuration m + r_duration result
           in m\<lparr>mt_totalDuration := d, mt_avgTaskDuration := of_int d / of_nat (metrics_total m)\<rparr>
      else m)"

definition add_tokens :: "TaskResult \<Rightarrow> WorkerMetrics \<Rightarrow> WorkerMetrics" where
  "add_tokens result m =
     (case r_tokenUsage result of
        Some u \<Rightarrow> (let t = mt_totalTokens m + tu_total u
                   in m\<lparr>mt_totalTokens := t, mt_avgTokensPerTask := of_int t / of_nat (metrics_total m)\<rparr>)
      | None \<Rightarrow> m)"

definition updateMetrics :: "TaskResult \<Rightarrow> worker \<Rightarrow> worker" where
  "updateMetrics result w =
     (let m = add_tokens result (add_duration result (count_result result (wk_metrics w)))
      in w\<lparr>wk_metrics := m\<lparr>mt_successRate := of_nat (mt_tasksCompleted m) / of_nat (metrics_total m)\<rparr>\<rparr>)"

subsection \<open>Executions\<close>

definition wk_upd_exec :: "nat \<Rightarrow> (worker_exec \<Rightarrow> worker_exec) \<Rightarrow> worker \<Rightarrow> worker" where
  "wk_upd_exec k f w = w\<lparr>wk_execs := (wk_execs w)[k := f (wk_execs w ! k)]\<rparr>"

definition set_phase :: "phase \<Rightarrow> nat \<Rightarrow> worker \<Rightarrow> worker" where
  "set_phase p k = wk_upd_exec k (\<lambda>x. x\<lparr>wx_phase := p\<rparr>)"

definition set_progress :: "(TaskProgress \<Rightarrow> TaskProgress) \<Rightarrow> nat \<Rightarrow> worker \<Rightarrow> worker" where
  "set_progress f k = wk_upd_exec k (\<lambda>x. x\<lparr>wx_progress := f (wx_progress x)\<rparr>)"

definition retry_bound :: "WorkerConfig \<Rightarrow> int" where
  "retry_bound c = (if wc_retryOnFailure c then wc_maxRetries c else 0)"

text \<open>The code after the loop of \<open>execute\<close>.\<close>

definition finishFailed :: "int \<Rightarrow> nat \<Rightarrow> worker \<Rightarrow> worker" where
  "finishFailed now k w =
     (let w = set_progress (\<lambda>p. p\<lparr>pg_status := T_failed, pg_updatedAt := now\<rparr>) k w;
          x = wk_execs w ! k;
          result = \<lparr>r_taskId = td_id (wx_task x), r_agentId = wk_id w, r_status = T_failed,
            r_output = JUndef,
            r_error = Some (case wx_lastError x of Some e \<Rightarrow> e | None \<Rightarrow> ''Unknown error''),
            r_duration = now - pg_startedAt (wx_progress x), r_tokenUsage = None\<rparr>
      in case wk_notify (WC_error (td_id (wx_task x)) (wx_lastError x)) (updateMetrics result w) of
           (w', Inl e) \<Rightarrow> set_phase (Finished (Inl e)) k w'
         | (w', Inr _) \<Rightarrow> set_phase (Finished (Inr result)) k w')"

text \<open>The loop condition: another attempt invokes the executor.\<close>

definition nextAttempt :: "int \<Rightarrow> nat \<Rightarrow> worker \<Rightarrow> worker" where
  "nextAttempt now k w =
     (if wx_retries (wk_execs w ! k) \<le> retry_bound (wk_config w)
      then wk_upd_exec k (\<lambda>x. x\<lparr>wx_attempts := wx_attempts x + 1, wx_phase := Attempting\<rparr>) w
      else finishFailed now k w)"

definition openExec :: "int \<Rightarrow> TaskDefinition \<Rightarrow> worker \<Rightarrow> worker" where
  "openExec now task w =
     (let k = length (wk_execs w);
          progress = \<lparr>pg_taskId = td_id task, pg_status = T_running, pg_progress = 0,
            pg_message = None, pg_startedAt = now, pg_updatedAt = now, pg_estimatedTimeRemaining = None\<rparr>;
          exec = \<lparr>wx_task = task, wx_progress = progress, wx_aborted = False, wx_retries = 0,
            wx_lastError = None, wx_attempts = 0, wx_phase = Delaying\<rparr>
      in w\<lparr>wk_execs := wk_execs w @ [exec],
           wk_abortControllers := jset (wk_abortControllers w) (td_id task) k,
           wk_currentTasks := jset (wk_currentTasks w) (td_id task) k\<rparr>)"

definition beginExecute :: "int \<Rightarrow> TaskDefinition \<Rightarrow> worker \<Rightarrow> worker \<times> (string + nat)" where
  "beginExecute now task w =
     (if \<not> canAcceptTask w then (w, Inl ''Worker cannot accept more tasks'')
      else let k = length (wk_execs w);
               w = openExec now task w
           in case and_then
                (if int (length (wk_currentTasks w)) \<ge> wc_maxConcurrentTasks (wk_config w)
                 then setStatus WS_busy w else (w, Inr ()))
                (\<lambda>_. wk_notify (WC_start (td_id task))) of
                (w', Inl e) \<Rightarrow> (set_phase (Finished (Inl e)) k w', Inr k)
              | (w', Inr _) \<Rightarrow> (nextAttempt now k w', Inr k))"

definition settleAttempt :: "string + TaskResult \<Rightarrow> nat \<Rightarrow> worker \<Rightarrow> worker" where
  "settleAttempt outcome k w =
     (if k < length (wk_execs w) \<and> wx_phase (wk_execs w ! k) = Attempting
      then set_phase (Settled outcome) k w else w)"

text \<open>The \<open>catch\<close> block of \<open>execute\<close>.\<close>

definition catchAttempt :: "int \<Rightarrow> string \<Rightarrow> nat \<Rightarrow> worker \<Rightarrow> worker" where
  "catchAttempt now e k w =
     (let w = wk_upd_exec k (\<lambda>x. x\<lparr>wx_lastError := Some e, wx_retries := wx_retries x + 1\<rparr>) w;
          retries = wx_retries (wk_execs w ! k);
          maxRetries = wc_maxRetries (wk_config w)
      in if retries \<le> maxRetries \<and> wc_retryOnFailure (wk_config w)
         then set_phase Delaying k (set_progress (\<lambda>p. p\<lparr>
                pg_message := Some (''Retrying ('' @ dec_int retries @ ''/'' @ dec_int maxRetries @ '')...''),
                pg_updatedAt := now\<rparr>) k w)
         else nextAttempt now k w)"

definition resumeExecute :: "int \<Rightarrow> nat \<Rightarrow> worker \<Rightarrow> worker" where
  "resumeExecute now k w =
     (if k < length (wk_execs w)
      then case wx_phase (wk_execs w ! k) of
             Settled (Inr result) \<Rightarrow>
               (case wk_notify (WC_complete result) (updateMetrics result
                       (set_progress (\<lambda>p. p\<lparr>pg_status := T_completed, pg_progress := 100,
                          pg_updatedAt := now\<rparr>) k w)) of
                  (w', Inl e) \<Rightarrow> catchAttempt now e k w'
                | (w', Inr _) \<Rightarrow> set_phase (Finished (Inr result)) k w')
           | Settled (Inl e) \<Rightarrow> catchAttempt now e k w
           | _ \<Rightarrow> w
      else w)"

definition endDelay :: "int \<Rightarrow> nat \<Rightarrow> worker \<Rightarrow> worker" where
  "endDelay now k w =
     (if k < length (wk_execs w) \<and> wx_phase (wk_execs w ! k) = Delaying then nextAttempt now k w else w)"

subsection \<open>Cancelling, finishing from outside, shutdown\<close>

definition abortExec :: "nat \<Rightarrow> worker \<Rightarrow> worker" where
  "abortExec k w =
     (if wx_aborted (wk_execs w ! k) then w
      else settleAttempt (Inl ''Task cancelled'') k (wk_upd_exec k (\<lambda>x. x\<lparr>wx_aborted := True\<rparr>) w))"

definition idle_if_room :: "worker \<Rightarrow> worker \<times> (string + unit)" where
  "idle_if_room w =
     (if int (length (wk_currentTasks w)) < wc_maxConcurrentTasks (wk_config w)
      then setStatus WS_idle w else (w, Inr ()))"

definition dropTask :: "string \<Rightarrow> worker \<Rightarrow> worker" where
  "dropTask taskId w = w\<lparr>wk_currentTasks := jdel (wk_currentTasks w) taskId,
     wk_abortControllers := jdel (wk_abortControllers w) taskId\<rparr>"

definition wk_cancel :: "string \<Rightarrow> worker \<Rightarrow> worker \<times> (string + bool)" where
  "wk_cancel taskId w =
     (case jget (wk_abortControllers w) taskId of
        Some k \<Rightarrow> and_then (idle_if_room (dropTask taskId (abortExec k w))) (\<lambda>_ w'. (w', Inr True))
      | None \<Rightarrow> (w, Inr False))"

definition wk_heartbeat :: "worker \<Rightarrow> worker \<times> (string + unit)" where
  "wk_heartbeat w = (if wk_status w = WS_offline then setStatus WS_idle w else (w, Inr ()))"

definition wk_shutdown :: "worker \<Rightarrow> worker \<times> (string + unit)" where
  "wk_shutdown w =
     and_then (setStatus WS_offline w) (\<lambda>_ w.
       ((fold abortExec (jvals (wk_abortControllers w)) w)
          \<lparr>wk_currentTasks := [], wk_abortControllers := []\<rparr>, Inr ()))"

definition override :: "'a option \<Rightarrow> 'a option \<Rightarrow> 'a option" where
  "override old new = (case new of Some x \<Rightarrow> Some x | None \<Rightarrow> old)"

definition setHandlers :: "WorkerEventHandler \<Rightarrow> worker \<Rightarrow> worker" where
  "setHandlers h w = (let g = wk_handlers w in w\<lparr>wk_handlers :=
     \<lparr>eh_onTaskStart = override (eh_onTaskStart g) (eh_onTaskStart h),
      eh_onTaskProgress = override (eh_onTaskProgress g) (eh_onTaskProgress h),
      eh_onTaskComplete = override (eh_onTaskComplete g) (eh_onTaskComplete h),
      eh_onTaskError = override (eh_onTaskError g) (eh_onTaskError h),
      eh_onStatusChange = override (eh_onStatusChange g) (eh_onStatusChange h)\<rparr>\<rparr>)"

definition updateProgress ::
  "int \<Rightarrow> string \<Rightarrow> rat \<Rightarrow> string option \<Rightarrow> worker \<Rightarrow> worker \<times> (string + unit)" where
  "updateProgress now taskId progress message w =
     (case jget (wk_currentTasks w) taskId of
        Some k \<Rightarrow>
          (let w = set_progress (\<lambda>p. p\<lparr>pg_progress := min 100 (max 0 progress), pg_message := message,
                 pg_updatedAt := now\<rparr>) k w
           in wk_notify (WC_progress (wx_progress (wk_execs w ! k))) w)
      | None \<Rightarrow> (w, Inr ()))"

definition touch_progress :: "string \<Rightarrow> (TaskProgress \<Rightarrow> TaskProgress) \<Rightarrow> worker \<Rightarrow> worker" where
  "touch_progress taskId f w =
     (case jget (wk_currentTasks w) taskId of Some k \<Rightarrow> set_progress f k w | None \<Rightarrow> w)"

definition wk_completeTask :: "int \<Rightarrow> string \<Rightarrow> TaskResult \<Rightarrow> worker \<Rightarrow> worker \<times> (string + unit)" where
  "wk_completeTask now taskId result w =
     and_then (wk_notify (WC_complete result) (updateMetrics result (dropTask taskId
         (touch_progress taskId (\<lambda>p. p\<lparr>pg_status := r_status result, pg_progress := 100,
            pg_updatedAt := now\<rparr>) w))))
       (\<lambda>_. idle_if_room)"

definition wk_failTask :: "int \<Rightarrow> string \<Rightarrow> string \<Rightarrow> worker \<Rightarrow> worker \<times> (string + unit)" where
  "wk_failTask now taskId err w =
     (let result = \<lparr>r_taskId = taskId, r_agentId = wk_id w, r_status = T_failed, r_output = JUndef,
          r_error = Some err,
          r_duration = (case getProgress taskId w of Some p \<Rightarrow> now - pg_startedAt p | None \<Rightarrow> 0),
          r_tokenUsage = None\<rparr>
      in and_then (wk_notify (WC_error taskId (Some err)) (updateMetrics result (dropTask taskId
           (touch_progress taskId (\<lambda>p. p\<lparr>pg_status := T_failed, pg_message := Some err,
              pg_updatedAt := now\<rparr>) w))))
         (\<lambda>_. idle_if_room))"

subsection \<open>Pools\<close>

record worker_pool =
  pl_workers :: "(string, worker) jsmap"
  pl_taskAssignments :: "(string, string) jsmap"

definition new_worker_pool :: worker_pool where
  "new_worker_pool = \<lparr>pl_workers = [], pl_taskAssignments = []\<rparr>"

definition addWorker :: "worker \<Rightarrow> worker_pool \<Rightarrow> worker_pool" where
  "addWorker w p = p\<lparr>pl_workers := jset (pl_workers p) (wk_id w) w\<rparr>"

definition removeWorker :: "string \<Rightarrow> worker_pool \<Rightarrow> worker_pool \<times> (string + unit)" where
  "removeWorker workerId p =
     (case jget (pl_workers p) workerId of
        None \<Rightarrow> (p, Inr ())
      | Some w \<Rightarrow>
          (case wk_shutdown w of
             (w', Inl e) \<Rightarrow> (p\<lparr>pl_workers := jset (pl_workers p) workerId w'\<rparr>, Inl e)
           | (w', Inr _) \<Rightarrow>
               (p\<lparr>pl_workers := jdel (pl_workers p) workerId,
                  pl_taskAssignments := jdrop (\<lambda>_ wid. wid = workerId) (pl_taskAssignments p)\<rparr>, Inr ())))"

definition getWorker :: "string \<Rightarrow> worker_pool \<Rightarrow> worker option" where
  "getWorker workerId p = jget (pl_workers p) workerId"

definition getAvailableWorkers :: "worker_pool \<Rightarrow> worker list" where
  "getAvailableWorkers p = filter canAcceptTask (jvals (pl_workers p))"

definition getWorkerForTask :: "string \<Rightarrow> worker_pool \<Rightarrow> worker option" where
  "getWorkerForTask taskId p =
     (case jget (pl_taskAssignments p) taskId of
        Some workerId \<Rightarrow> (if workerId = [] then None else jget (pl_workers p) workerId)
      | None \<Rightarrow> None)"

definition pl_assignTask :: "string \<Rightarrow> string \<Rightarrow> worker_pool \<Rightarrow> worker_pool" where
  "pl_assignTask taskId workerId p =
     p\<lparr>pl_taskAssignments := jset (pl_taskAssignments p) taskId workerId\<rparr>"

definition unassignTask :: "string \<Rightarrow> worker_pool \<Rightarrow> worker_pool" where
  "unassignTask taskId p = p\<lparr>pl_taskAssignments := jdel (pl_taskAssignments p) taskId\<rparr>"

definition pl_getMetrics :: "int \<Rightarrow> worker_pool \<Rightarrow> (string, WorkerMetrics) jsmap" where
  "pl_getMetrics now p = jmap (\<lambda>_ w. wk_getMetrics now w) (pl_workers p)"

definition getTotalMetrics :: "int \<Rightarrow> worker_pool \<Rightarrow> WorkerMetrics" where
  "getTotalMetrics now p =
     (let ms = map (wk_getMetrics now) (jvals (pl_workers p));
          tasksCompleted = sum_list (map mt_tasksCompleted ms);
          tasksFailed = sum_list (map mt_tasksFailed ms);
          totalDuration = sum_list (map mt_totalDuration ms);
          totalTokens = sum_list (map mt_totalTokens ms);
          n = tasksCompleted + tasksFailed
      in \<lparr>mt_tasksCompleted = tasksCompleted, mt_tasksFailed = tasksFailed,
          mt_totalDuration = totalDuration, mt_totalTokens = totalTokens,
          mt_avgTaskDuration = (if n > 0 then of_int totalDuration / of_nat n else 0),
          mt_avgTokensPerTask = (if n > 0 then of_int totalTokens / of_nat n else 0),
          mt_successRate = (if n > 0 then of_nat tasksCompleted / of_nat n else 1),
          mt_uptime = now\<rparr>)"

text \<open>A loop over the workers stops at the first call that throws.\<close>

fun each_worker ::
  "(worker \<Rightarrow> worker \<times> (string + unit)) \<Rightarrow> string list \<Rightarrow> worker_pool \<Rightarrow>
   worker_pool \<times> (string + unit)" where
  "each_worker f [] p = (p, Inr ())"
| "each_worker f (i # ids) p =
     (case jget (pl_workers p) i of
        None \<Rightarrow> each_worker f ids p
      | Some w \<Rightarrow>
          (let (w', r) = f w; p' = p\<lparr>pl_workers := jset (pl_workers p) i w'\<rparr>
           in case r of Inl e \<Rightarrow> (p', Inl e) | Inr _ \<Rightarrow> each_worker f ids p'))"

definition broadcastHeartbeat :: "worker_pool \<Rightarrow> worker_pool \<times> (string + unit)" where
  "broadcastHeartbeat p = each_worker wk_heartbeat (jkeys (pl_workers p)) p"

definition pl_shutdown :: "worker_pool \<Rightarrow> worker_pool \<times> (string + unit)" where
  "pl_shutdown p =
     and_then (each_worker wk_shutdown (jkeys (pl_workers p)) p)
       (\<lambda>_ p. (p\<lparr>pl_workers := [], pl_taskAssignments := []\<rparr>, Inr ()))"

subsection \<open>Frames\<close>

lemma wk_notify_state: "wk_notify c w = (w', r) \<Longrightarrow> \<exists>cs. w' = w\<lparr>wk_calls := cs\<rparr>"
  by (auto simp: wk_notify_def split: option.splits intro: exI [of _ "wk_calls w"])

lemma setStatus_state: "setStatus st w = (w', r) \<Longrightarrow> \<exists>cs. w' = w\<lparr>wk_status := st, wk_calls := cs\<rparr>"
  by (fastforce simp: setStatus_def Let_def split: if_splits dest: wk_notify_state
      intro: exI [of _ "wk_calls w"])

lemma idle_state:
  "idle_if_room w = (w', r) \<Longrightarrow> \<exists>st cs. w' = w\<lparr>wk_status := st, wk_calls := cs\<rparr>"
  by (fastforce simp: idle_if_room_def split: if_splits dest: setStatus_state
      intro: exI [of _ "wk_status w"] exI [of _ "wk_calls w"])

lemma and_then_cases:
  assumes "and_then p f = (s, r)"
  obtains e where "p = (s, Inl e)" "r = Inl e" | x t where "p = (t, Inr x)" "f x t = (s, r)"
  using assms by (cases p; cases "snd p") auto

text \<open>Everything but the executions, the metrics and the calls stays.\<close>

definition same_frame :: "worker \<Rightarrow> worker \<Rightarrow> bool" where
  "same_frame w w' \<longleftrightarrow> wk_id w' = wk_id w \<and> wk_config w' = wk_config w \<and> wk_status w' = wk_status w \<and>
     wk_currentTasks w' = wk_currentTasks w \<and> wk_abortControllers w' = wk_abortControllers w \<and>
     wk_handlers w' = wk_handlers w \<and> map wx_task (wk_execs w') = map wx_task (wk_execs w)"

lemma same_frame_refl [simp]: "same_frame w w"
  by (simp add: same_frame_def)

lemma same_frame_trans [trans]: "same_frame w w' \<Longrightarrow> same_frame w' w'' \<Longrightarrow> same_frame w w''"
  by (simp add: same_frame_def)

lemma same_frame_calls [simp]: "same_frame w (w'\<lparr>wk_calls := cs\<rparr>) \<longleftrightarrow> same_frame w w'"
  by (simp add: same_frame_def)

lemma same_frame_step: "same_frame w' w'' \<Longrightarrow> same_frame w w'' \<longleftrightarrow> same_frame w w'"
  by (simp add: same_frame_def)

lemma same_frame_upd: "(\<And>x. wx_task (f x) = wx_task x) \<Longrightarrow> same_frame w (wk_upd_exec k f w') \<longleftrightarrow> same_frame w w'"
  by (rule same_frame_step)
    (cases "k < length (wk_execs w')"; simp add: same_frame_def wk_upd_exec_def map_update list_update_beyond
      list_update_same_conv)

lemma same_frame_phase [simp]: "same_frame w (set_phase p k w') \<longleftrightarrow> same_frame w w'"
  unfolding set_phase_def by (rule same_frame_upd) simp

lemma same_frame_progress [simp]: "same_frame w (set_progress f k w') \<longleftrightarrow> same_frame w w'"
  unfolding set_progress_def by (rule same_frame_upd) simp

lemma same_frame_metrics [simp]: "same_frame w (updateMetrics r w') \<longleftrightarrow> same_frame w w'"
  by (rule same_frame_step) (simp add: same_frame_def updateMetrics_def Let_def)

lemma same_frame_finish [simp]: "same_frame w (finishFailed now k w') \<longleftrightarrow> same_frame w w'"
  unfolding finishFailed_def Let_def
  by (auto split: prod.splits sum.splits dest!: wk_notify_state)

lemma same_frame_next [simp]: "same_frame w (nextAttempt now k w') \<longleftrightarrow> same_frame w w'"
  by (simp add: nextAttempt_def same_frame_upd)

lemma same_frame_settle [simp]: "same_frame w (settleAttempt r k w') \<longleftrightarrow> same_frame w w'"
  by (simp add: settleAttempt_def)

lemma same_frame_catch [simp]: "same_frame w (catchAttempt now e k w') \<longleftrightarrow> same_frame w w'"
  by (simp add: catchAttempt_def Let_def same_frame_upd)

lemma same_frame_resume [simp]: "same_frame w (resumeExecute now k w') \<longleftrightarrow> same_frame w w'"
  unfolding resumeExecute_def
  by (auto split: phase.splits sum.splits prod.splits dest!: wk_notify_state)

lemma same_frame_delay [simp]: "same_frame w (endDelay now k w') \<longleftrightarrow> same_frame w w'"
  by (simp add: endDelay_def)

lemma same_frame_abort [simp]: "same_frame w (abortExec k w') \<longleftrightarrow> same_frame w w'"
  by (simp add: abortExec_def same_frame_upd)

lemma same_frame_aborts [simp]: "same_frame w (fold abortExec ks w') \<longleftrightarrow> same_frame w w'"
  by (induction ks arbitrary: w') simp_all

subsection \<open>Attempts\<close>

definition exec_ok :: "WorkerConfig \<Rightarrow> worker_exec \<Rightarrow> bool" where
  "exec_ok c x \<longleftrightarrow> (case wx_phase x of
      Attempting \<Rightarrow> int (wx_attempts x) = wx_retries x + 1 \<and> 0 \<le> wx_retries x \<and> wx_retries x \<le> retry_bound c
    | Settled _ \<Rightarrow> int (wx_attempts x) = wx_retries x + 1 \<and> 0 \<le> wx_retries x \<and> wx_retries x \<le> retry_bound c
    | Delaying \<Rightarrow> int (wx_attempts x) = wx_retries x \<and> 0 \<le> wx_retries x \<and> wx_retries x \<le> retry_bound c
    | Finished _ \<Rightarrow> int (wx_attempts x) \<le> max 0 (retry_bound c + 1))"

lemma exec_ok_simps [simp]:
  "exec_ok c (x\<lparr>wx_progress := p\<rparr>) \<longleftrightarrow> exec_ok c x"
  "exec_ok c (x\<lparr>wx_aborted := b\<rparr>) \<longleftrightarrow> exec_ok c x"
  by (cases "wx_phase x"; simp add: exec_ok_def)+

definition others_ok :: "nat \<Rightarrow> worker \<Rightarrow> bool" where
  "others_ok k w \<longleftrightarrow>
     (\<forall>j<length (wk_execs w). j \<noteq> k \<longrightarrow> exec_ok (wk_config w) (wk_execs w ! j))"

definition execs_ok :: "worker \<Rightarrow> bool" where
  "execs_ok w \<longleftrightarrow> (\<forall>j<length (wk_execs w). exec_ok (wk_config w) (wk_execs w ! j))"

lemma execs_others: "execs_ok w \<longleftrightarrow> others_ok k w \<and> (k < length (wk_execs w) \<longrightarrow> exec_ok (wk_config w) (wk_execs w ! k))"
  by (auto simp: execs_ok_def others_ok_def)

lemma wk_upd_exec_simps [simp]:
  "length (wk_execs (wk_upd_exec k f w)) = length (wk_execs w)"
  "wk_config (wk_upd_exec k f w) = wk_config w"
  "wk_id (wk_upd_exec k f w) = wk_id w"
  "wk_handlers (wk_upd_exec k f w) = wk_handlers w"
  "k < length (wk_execs w) \<Longrightarrow> wk_execs (wk_upd_exec k f w) ! k = f (wk_execs w ! k)"
  "j \<noteq> k \<Longrightarrow> wk_execs (wk_upd_exec k f w) ! j = wk_execs w ! j"
  by (simp_all add: wk_upd_exec_def)

lemma updateMetrics_simps [simp]:
  "wk_execs (updateMetrics r w) = wk_execs w" "wk_config (updateMetrics r w) = wk_config w"
  "wk_id (updateMetrics r w) = wk_id w" "wk_handlers (updateMetrics r w) = wk_handlers w"
  by (simp_all add: updateMetrics_def Let_def)

lemma others_upd [simp]: "others_ok k (wk_upd_exec k f w) \<longleftrightarrow> others_ok k w"
  by (simp add: others_ok_def cong: conj_cong)

lemma others_frame [simp]:
  "others_ok k (w\<lparr>wk_calls := cs\<rparr>) \<longleftrightarrow> others_ok k w"
  "others_ok k (w\<lparr>wk_status := st\<rparr>) \<longleftrightarrow> others_ok k w"
  "others_ok k (updateMetrics r w) \<longleftrightarrow> others_ok k w"
  "others_ok k (set_phase p k w) \<longleftrightarrow> others_ok k w"
  "others_ok k (set_progress g k w) \<longleftrightarrow> others_ok k w"
  by (simp_all add: others_ok_def set_phase_def set_progress_def)

lemma execs_frame [simp]:
  "execs_ok (w\<lparr>wk_calls := cs\<rparr>) \<longleftrightarrow> execs_ok w"
  "execs_ok (w\<lparr>wk_status := st\<rparr>) \<longleftrightarrow> execs_ok w"
  "execs_ok (w\<lparr>wk_handlers := h\<rparr>) \<longleftrightarrow> execs_ok w"
  "execs_ok (w\<lparr>wk_currentTasks := m, wk_abortControllers := m'\<rparr>) \<longleftrightarrow> execs_ok w"
  "execs_ok (updateMetrics r w) \<longleftrightarrow> execs_ok w"
  by (simp_all add: execs_ok_def)

lemma exec_phase_at [simp]:
  "k < length (wk_execs w) \<Longrightarrow> wk_execs (set_phase p k w) ! k = (wk_execs w ! k)\<lparr>wx_phase := p\<rparr>"
  "k < length (wk_execs w) \<Longrightarrow>
     wk_execs (set_progress g k w) ! k = (wk_execs w ! k)\<lparr>wx_progress := g (wx_progress (wk_execs w ! k))\<rparr>"
  "length (wk_execs (set_phase p k w)) = length (wk_execs w)"
  "length (wk_execs (set_progress g k w)) = length (wk_execs w)"
  "wk_config (set_phase p k w) = wk_config w" "wk_config (set_progress g k w) = wk_config w"
  "wk_id (set_progress g k w) = wk_id w" "wk_handlers (set_progress g k w) = wk_handlers w"
  by (simp_all add: set_phase_def set_progress_def)

lemma execs_progress [simp]: "execs_ok (set_progress g k w) \<longleftrightarrow> execs_ok w"
  by (simp add: execs_others [of _ k])

definition may_continue :: "nat \<Rightarrow> worker \<Rightarrow> bool" where
  "may_continue k w \<longleftrightarrow> k < length (wk_execs w) \<and> others_ok k w \<and>
     int (wx_attempts (wk_execs w ! k)) = wx_retries (wk_execs w ! k) \<and> 0 \<le> wx_retries (wk_execs w ! k) \<and>
     wx_retries (wk_execs w ! k) \<le> max 0 (retry_bound (wk_config w) + 1)"

lemma finishFailed_ok: "may_continue k w \<Longrightarrow> execs_ok (finishFailed now k w)"
  unfolding finishFailed_def Let_def may_continue_def
  by (auto simp: execs_others [of _ k] exec_ok_def split: prod.splits sum.splits dest!: wk_notify_state)

lemma nextAttempt_ok: "may_continue k w \<Longrightarrow> execs_ok (nextAttempt now k w)"
  by (auto simp: nextAttempt_def finishFailed_ok)
    (auto simp: may_continue_def execs_others [of _ k] exec_ok_def)

lemma settle_ok: "execs_ok w \<Longrightarrow> execs_ok (settleAttempt r k w)"
  by (auto simp: settleAttempt_def execs_others [of _ k] exec_ok_def)

lemma catch_ok:
  assumes "k < length (wk_execs w)" and "others_ok k w" and "0 \<le> wx_retries (wk_execs w ! k)"
    and "int (wx_attempts (wk_execs w ! k)) = wx_retries (wk_execs w ! k) + 1"
    and "wx_retries (wk_execs w ! k) \<le> retry_bound (wk_config w)"
  shows "execs_ok (catchAttempt now e k w)"
proof -
  let ?w = "wk_upd_exec k (\<lambda>x. x\<lparr>wx_lastError := Some e, wx_retries := wx_retries x + 1\<rparr>) w"
  from assms have "may_continue k ?w" by (simp add: may_continue_def)
  then have "execs_ok (nextAttempt now k ?w)" by (rule nextAttempt_ok)
  then show ?thesis
    using assms by (auto simp: catchAttempt_def Let_def execs_others [of _ k] exec_ok_def retry_bound_def)
qed

lemma resume_ok:
  assumes "execs_ok w"
  shows "execs_ok (resumeExecute now k w)"
proof (cases "k < length (wk_execs w)")
  case True
  have ok: "others_ok k w" "exec_ok (wk_config w) (wk_execs w ! k)"
    using assms True by (auto simp: execs_others [of _ k])
  show ?thesis
  proof (cases "wx_phase (wk_execs w ! k)")
    case (Settled o')
    show ?thesis
    proof (cases o')
      case (Inl e)
      then show ?thesis
        using Settled True ok by (simp add: resumeExecute_def exec_ok_def catch_ok)
    next
      case (Inr r)
      let ?w = "updateMetrics r (set_progress (\<lambda>p. p\<lparr>pg_status := T_completed, pg_progress := 100,
        pg_updatedAt := now\<rparr>) k w)"
      obtain w' res where n: "wk_notify (WC_complete r) ?w = (w', res)" by force
      then obtain cs where w': "w' = ?w\<lparr>wk_calls := cs\<rparr>" using wk_notify_state by blast
      have "execs_ok (catchAttempt now e k w')" for e
        using Settled True ok by (intro catch_ok) (simp_all add: w' exec_ok_def)
      moreover have "execs_ok (set_phase (Finished (Inr r)) k w')"
        using Settled True ok by (simp add: w' execs_others [of _ k] exec_ok_def)
      ultimately show ?thesis
        using Settled Inr True n by (simp add: resumeExecute_def split: sum.splits)
    qed
  qed (use assms True in \<open>simp_all add: resumeExecute_def\<close>)
qed (simp add: resumeExecute_def assms)

lemma delay_ok: "execs_ok w \<Longrightarrow> execs_ok (endDelay now k w)"
  by (auto simp: endDelay_def may_continue_def execs_others [of w k] exec_ok_def intro!: nextAttempt_ok)

lemma abort_ok: "execs_ok w \<Longrightarrow> execs_ok (abortExec k w)"
  by (auto simp: abortExec_def intro!: settle_ok) (simp add: execs_others [of _ k])

lemma aborts_ok: "execs_ok w \<Longrightarrow> execs_ok (fold abortExec ks w)"
  by (rule fold_keeps) (rule abort_ok)

subsection \<open>Histories\<close>

datatype wk_op =
    W_execute int TaskDefinition
  | W_settle "string + TaskResult" nat
  | W_resume int nat
  | W_delay int nat
  | W_cancel string
  | W_heartbeat
  | W_shutdown
  | W_handlers WorkerEventHandler
  | W_progress int string rat "string option"
  | W_complete int string TaskResult
  | W_fail int string string

fun wk_apply :: "wk_op \<Rightarrow> worker \<Rightarrow> worker" where
  "wk_apply (W_execute now t) w = fst (beginExecute now t w)"
| "wk_apply (W_settle r k) w = settleAttempt r k w"
| "wk_apply (W_resume now k) w = resumeExecute now k w"
| "wk_apply (W_delay now k) w = endDelay now k w"
| "wk_apply (W_cancel i) w = fst (wk_cancel i w)"
| "wk_apply W_heartbeat w = fst (wk_heartbeat w)"
| "wk_apply W_shutdown w = fst (wk_shutdown w)"
| "wk_apply (W_handlers h) w = setHandlers h w"
| "wk_apply (W_progress now i p m) w = fst (updateProgress now i p m w)"
| "wk_apply (W_complete now i r) w = fst (wk_completeTask now i r w)"
| "wk_apply (W_fail now i e) w = fst (wk_failTask now i e w)"

text \<open>What status changes and handler calls leave alone.\<close>

definition only_status :: "worker \<Rightarrow> worker \<Rightarrow> bool" where
  "only_status w v \<longleftrightarrow> v = w\<lparr>wk_status := wk_status v, wk_calls := wk_calls v\<rparr>"

lemma only_status_simps [simp]:
  "only_status w w"
  "only_status w (v\<lparr>wk_calls := cs\<rparr>) \<longleftrightarrow> only_status w v"
  "only_status w (v\<lparr>wk_status := st\<rparr>) \<longleftrightarrow> only_status w v"
  unfolding only_status_def by (cases w; cases v; auto)+

lemma only_status_notify [simp]: "only_status w (fst (wk_notify c v)) \<longleftrightarrow> only_status w v"
  by (auto simp: wk_notify_def split: option.splits)

lemma only_status_setStatus [simp]: "only_status w (fst (setStatus st v)) \<longleftrightarrow> only_status w v"
  by (auto simp: setStatus_def Let_def)

lemma only_status_idle [simp]: "only_status w (fst (idle_if_room v)) \<longleftrightarrow> only_status w v"
  by (auto simp: idle_if_room_def)

lemma only_status_and_then:
  "only_status w (fst p) \<Longrightarrow> (\<And>x v. only_status w v \<Longrightarrow> only_status w (fst (f x v))) \<Longrightarrow>
   only_status w (fst (and_then p f))"
  by (rule and_then_keeps) auto

lemma only_statusD:
  assumes "only_status w v"
  shows "wk_execs v = wk_execs w" "wk_config v = wk_config w" "wk_currentTasks v = wk_currentTasks w"
    "wk_abortControllers v = wk_abortControllers w" "wk_id v = wk_id w" "wk_handlers v = wk_handlers w"
    "wk_capabilities v = wk_capabilities w"
  by (subst assms [unfolded only_status_def], simp)+

lemma execs_ok_status: "only_status w v \<Longrightarrow> execs_ok v \<longleftrightarrow> execs_ok w"
  by (simp add: execs_ok_def only_statusD)

lemma begin_outcome:
  assumes "canAcceptTask w"
  shows "\<exists>v. only_status (openExec now t w) v \<and>
    (beginExecute now t w = (nextAttempt now (length (wk_execs w)) v, Inr (length (wk_execs w))) \<or>
     (\<exists>e. beginExecute now t w = (set_phase (Finished (Inl e)) (length (wk_execs w)) v, Inr (length (wk_execs w)))))"
proof -
  let ?w = "openExec now t w"
  let ?r = "and_then (if int (length (wk_currentTasks ?w)) \<ge> wc_maxConcurrentTasks (wk_config ?w)
    then setStatus WS_busy ?w else (?w, Inr ())) (\<lambda>_. wk_notify (WC_start (td_id t)))"
  have "only_status ?w (fst ?r)" by (rule only_status_and_then) simp_all
  moreover have "beginExecute now t w = (case ?r of
        (w', Inl e) \<Rightarrow> (set_phase (Finished (Inl e)) (length (wk_execs w)) w', Inr (length (wk_execs w)))
      | (w', Inr _) \<Rightarrow> (nextAttempt now (length (wk_execs w)) w', Inr (length (wk_execs w))))"
    using assms by (simp add: beginExecute_def Let_def)
  ultimately show ?thesis by (cases ?r; cases "snd ?r") auto
qed

lemma openExec_simps [simp]:
  "length (wk_execs (openExec now t w)) = Suc (length (wk_execs w))"
  "wk_config (openExec now t w) = wk_config w" "wk_id (openExec now t w) = wk_id w"
  "map wx_task (wk_execs (openExec now t w)) = map wx_task (wk_execs w) @ [t]"
  "wk_currentTasks (openExec now t w) = jset (wk_currentTasks w) (td_id t) (length (wk_execs w))"
  "wx_attempts (wk_execs (openExec now t w) ! length (wk_execs w)) = 0"
  "wx_retries (wk_execs (openExec now t w) ! length (wk_execs w)) = 0"
  "j < length (wk_execs w) \<Longrightarrow> wk_execs (openExec now t w) ! j = wk_execs w ! j"
  by (simp_all add: openExec_def Let_def nth_append)

lemma begin_ok:
  assumes "execs_ok w"
  shows "execs_ok (fst (beginExecute now t w))"
proof (cases "canAcceptTask w")
  case True
  let ?k = "length (wk_execs w)"
  from begin_outcome [OF True] obtain v where v: "only_status (openExec now t w) v"
    and r: "beginExecute now t w = (nextAttempt now ?k v, Inr ?k) \<or>
     (\<exists>e. beginExecute now t w = (set_phase (Finished (Inl e)) ?k v, Inr ?k))" by blast
  have may: "may_continue ?k v"
    using assms by (auto simp: may_continue_def others_ok_def only_statusD [OF v] execs_ok_def less_Suc_eq)
  then have "execs_ok (set_phase (Finished (Inl e)) ?k v)" for e
    by (simp add: may_continue_def execs_others [of _ ?k] exec_ok_def)
  with r nextAttempt_ok [OF may] show ?thesis by auto
qed (simp add: beginExecute_def assms)

lemma execs_ok_drop [simp]: "execs_ok (dropTask i w) \<longleftrightarrow> execs_ok w"
  by (simp add: dropTask_def)

lemma execs_ok_touch [simp]: "execs_ok (touch_progress i f w) \<longleftrightarrow> execs_ok w"
  by (simp add: touch_progress_def split: option.splits)

lemma execs_ok_calls [simp]:
  "execs_ok (fst (wk_notify c w)) \<longleftrightarrow> execs_ok w"
  "execs_ok (fst (setStatus st w)) \<longleftrightarrow> execs_ok w"
  "execs_ok (fst (idle_if_room w)) \<longleftrightarrow> execs_ok w"
  by (rule execs_ok_status, simp)+

lemma execs_ok_notify_idle:
  "execs_ok w \<Longrightarrow> execs_ok (fst (and_then (wk_notify c w) (\<lambda>_. idle_if_room)))"
  by (rule and_then_keeps [where P = execs_ok]) simp_all

lemma cancel_ok: "execs_ok w \<Longrightarrow> execs_ok (fst (wk_cancel i w))"
  unfolding wk_cancel_def
  by (cases "jget (wk_abortControllers w) i")
    (simp_all add: and_then_keeps [where P = execs_ok] abort_ok)

lemma shutdown_ok: "execs_ok w \<Longrightarrow> execs_ok (fst (wk_shutdown w))"
  unfolding wk_shutdown_def by (rule and_then_keeps [where P = execs_ok]) (simp_all add: aborts_ok)

lemma update_ok: "execs_ok w \<Longrightarrow> execs_ok (fst (updateProgress now i p m w))"
  unfolding updateProgress_def Let_def by (cases "jget (wk_currentTasks w) i") simp_all

lemma execs_ok_step: "execs_ok w \<Longrightarrow> execs_ok (wk_apply x w)"
  by (cases x)
    (simp_all add: begin_ok settle_ok resume_ok delay_ok cancel_ok shutdown_ok update_ok
      wk_heartbeat_def setHandlers_def Let_def wk_completeTask_def wk_failTask_def execs_ok_notify_idle)

interpretation attempt_machine: op_machine wk_apply execs_ok
  by unfold_locales (rule execs_ok_step)

lemma execs_ok_new: "execs_ok (new_worker now i c caps)"
  by (simp add: execs_ok_def new_worker_def)

lemma same_frame_config: "same_frame w w' \<Longrightarrow> wk_config w' = wk_config w"
  by (simp add: same_frame_def)

lemma config_notify_idle [simp]: "wk_config (fst (and_then (wk_notify c w) (\<lambda>_. idle_if_room))) = wk_config w"
  by (rule only_statusD(2)) (rule only_status_and_then, simp_all)

lemma config_calls [simp]:
  "wk_config (fst (wk_notify c w)) = wk_config w" "wk_config (fst (setStatus st w)) = wk_config w"
  "wk_config (fst (idle_if_room w)) = wk_config w" "wk_config (dropTask i w) = wk_config w"
  "wk_config (touch_progress i f w) = wk_config w"
  by (auto intro: only_statusD(2) simp: dropTask_def touch_progress_def split: option.splits)

lemma config_step: "wk_config (wk_apply x w) = wk_config w"
proof (cases x)
  case (W_execute now t)
  show ?thesis
  proof (cases "canAcceptTask w")
    case True
    then obtain v where "only_status (openExec now t w) v"
      "fst (beginExecute now t w) = nextAttempt now (length (wk_execs w)) v \<or>
       (\<exists>e. fst (beginExecute now t w) = set_phase (Finished (Inl e)) (length (wk_execs w)) v)"
      using begin_outcome [OF True, of now t] by fastforce
    moreover have "wk_config (nextAttempt now k v) = wk_config v" for k v
      by (rule same_frame_config) simp
    ultimately show ?thesis using W_execute by (auto simp: only_statusD)
  qed (simp add: W_execute beginExecute_def)
next
  case (W_cancel i)
  have "wk_config (fst (and_then (idle_if_room v) (\<lambda>_ w'. (w', Inr True)))) = wk_config v" for v
    by (rule and_then_keeps [where P = "\<lambda>u. wk_config u = wk_config v"]) simp_all
  moreover have "wk_config (abortExec k w) = wk_config w" for k
    by (rule same_frame_config) simp
  ultimately show ?thesis using W_cancel by (simp add: wk_cancel_def split: option.splits)
next
  case W_shutdown
  have "wk_config (fold abortExec ks v) = wk_config v" for ks v
    by (rule same_frame_config) simp
  then show ?thesis
    using W_shutdown by (simp add: wk_shutdown_def and_then_keeps [where P = "\<lambda>u. wk_config u = wk_config w"])
qed (auto simp: wk_heartbeat_def setHandlers_def Let_def updateProgress_def wk_completeTask_def wk_failTask_def
  intro: same_frame_config split: option.splits)

interpretation config_machine: op_machine wk_apply "\<lambda>w. wk_config w = c" for c
  by unfold_locales (simp add: config_step)

text \<open>One attempt to its end: its promise settles, the code after the \<open>await\<close> runs, and the delay
  before the next attempt, if there is one, is over.\<close>

definition exec_round :: "int \<Rightarrow> nat \<Rightarrow> string + TaskResult \<Rightarrow> worker \<Rightarrow> worker" where
  "exec_round now k outcome w = endDelay now k (resumeExecute now k (settleAttempt outcome k w))"

lemma finishFailed_phase:
  "k < length (wk_execs w) \<Longrightarrow> \<exists>r. wx_phase (wk_execs (finishFailed now k w) ! k) = Finished r"
  unfolding finishFailed_def Let_def
  by (auto split: prod.splits sum.splits dest!: wk_notify_state)

lemma same_frame_length: "same_frame w w' \<Longrightarrow> length (wk_execs w') = length (wk_execs w)"
  by (metis length_map same_frame_def)

lemma round_length [simp]: "length (wk_execs (exec_round now k r w)) = length (wk_execs w)"
  unfolding exec_round_def by (rule same_frame_length) simp

lemma round_finished:
  "wx_phase (wk_execs w ! k) = Finished r \<Longrightarrow> exec_round now k o' w = w"
  by (simp add: exec_round_def settleAttempt_def resumeExecute_def endDelay_def)

definition moved_on :: "nat \<Rightarrow> worker \<Rightarrow> worker \<Rightarrow> bool" where
  "moved_on k w v \<longleftrightarrow> (\<exists>r. wx_phase (wk_execs v ! k) = Finished r) \<or>
     ((wx_phase (wk_execs v ! k) = Attempting \<or> wx_phase (wk_execs v ! k) = Delaying) \<and>
      wx_retries (wk_execs v ! k) = wx_retries (wk_execs w ! k) + 1)"

lemma next_moved:
  assumes "k < length (wk_execs v)" and "wx_retries (wk_execs v ! k) = wx_retries (wk_execs w ! k) + 1"
  shows "moved_on k w (nextAttempt now k v)"
  using assms finishFailed_phase [of k v now] by (auto simp: nextAttempt_def moved_on_def)

lemma catch_moved:
  assumes "k < length (wk_execs v)" and "wx_retries (wk_execs v ! k) = wx_retries (wk_execs w ! k)"
  shows "moved_on k w (catchAttempt now e k v)"
  using assms by (auto simp: catchAttempt_def Let_def intro!: next_moved) (simp_all add: moved_on_def)

lemma resume_moved:
  assumes "k < length (wk_execs v)" and "wx_retries (wk_execs v ! k) = wx_retries (wk_execs w ! k)"
    and "wx_phase (wk_execs v ! k) = Settled o'"
  shows "moved_on k w (resumeExecute now k v)"
proof (cases o')
  case (Inl e)
  with assms catch_moved [OF assms(1,2)] show ?thesis by (simp add: resumeExecute_def)
next
  case (Inr r)
  let ?v = "updateMetrics r (set_progress (\<lambda>p. p\<lparr>pg_status := T_completed, pg_progress := 100,
    pg_updatedAt := now\<rparr>) k v)"
  obtain v' res where n: "wk_notify (WC_complete r) ?v = (v', res)" by force
  then obtain cs where v': "v' = ?v\<lparr>wk_calls := cs\<rparr>" using wk_notify_state by blast
  have "moved_on k w (catchAttempt now e k v')" for e
    using assms by (intro catch_moved) (simp_all add: v')
  moreover have "moved_on k w (set_phase (Finished (Inr r)) k v')"
    using assms by (simp add: moved_on_def v')
  ultimately show ?thesis
    using assms Inr n by (simp add: resumeExecute_def split: sum.splits)
qed

lemma delay_moved:
  assumes "k < length (wk_execs v)" and "moved_on k w v"
  shows "moved_on k w (endDelay now k v) \<and> wx_phase (wk_execs (endDelay now k v) ! k) \<noteq> Delaying"
proof (cases "wx_phase (wk_execs v ! k) = Delaying")
  case True
  with assms have "moved_on k w (nextAttempt now k v)" by (intro next_moved) (auto simp: moved_on_def)
  moreover have "wx_phase (wk_execs (nextAttempt now k v) ! k) \<noteq> Delaying"
    using assms(1) finishFailed_phase [of k v now] by (auto simp: nextAttempt_def)
  ultimately show ?thesis using True assms by (simp add: endDelay_def)
qed (use assms in \<open>simp add: endDelay_def\<close>)

lemma round_moved:
  assumes "k < length (wk_execs w)" and "wx_phase (wk_execs w ! k) = Attempting"
  shows "(\<exists>r. wx_phase (wk_execs (exec_round now k o' w) ! k) = Finished r) \<or>
    (wx_phase (wk_execs (exec_round now k o' w) ! k) = Attempting \<and>
     wx_retries (wk_execs (exec_round now k o' w) ! k) = wx_retries (wk_execs w ! k) + 1)"
proof -
  let ?v = "settleAttempt o' k w"
  have v: "wx_phase (wk_execs ?v ! k) = Settled o'" "wx_retries (wk_execs ?v ! k) = wx_retries (wk_execs w ! k)"
    "k < length (wk_execs ?v)"
    using assms by (simp_all add: settleAttempt_def)
  have "k < length (wk_execs (resumeExecute now k ?v))"
    using assms(1) same_frame_length [of w "resumeExecute now k ?v"] by simp
  from delay_moved [OF this resume_moved [OF v(3,2,1)], where now = now] show ?thesis
    by (auto simp: moved_on_def exec_round_def)
qed

lemma rounds_finish:
  assumes "execs_ok w" and "k < length (wk_execs w)" and "wx_phase (wk_execs w ! k) = Attempting"
    and "retry_bound (wk_config w) - wx_retries (wk_execs w ! k) < int (length os)"
  shows "\<exists>r. wx_phase (wk_execs (fold (exec_round now k) os w) ! k) = Finished r"
  using assms
proof (induction os arbitrary: w)
  case Nil
  then have "exec_ok (wk_config w) (wk_execs w ! k)" by (simp add: execs_ok_def)
  with Nil show ?case by (simp add: exec_ok_def)
next
  case (Cons o' os)
  let ?w = "exec_round now k o' w"
  have ok: "execs_ok ?w" by (simp add: exec_round_def delay_ok resume_ok settle_ok Cons.prems(1))
  have conf: "wk_config ?w = wk_config w"
    by (rule same_frame_config) (simp add: exec_round_def)
  have stay: "wx_phase (wk_execs v ! k) = Finished r \<Longrightarrow> fold (exec_round now k) os v = v" for v r
    by (induction os) (simp_all add: round_finished)
  from round_moved [OF Cons.prems(2,3), of now o'] show ?case
  proof (elim disjE exE conjE)
    fix r
    assume "wx_phase (wk_execs ?w ! k) = Finished r"
    with stay show ?thesis by simp
  next
    assume "wx_phase (wk_execs ?w ! k) = Attempting"
      "wx_retries (wk_execs ?w ! k) = wx_retries (wk_execs w ! k) + 1"
    with Cons.IH [of ?w] Cons.prems ok conf show ?thesis by simp
  qed
qed

definition demo_caps :: WorkerCapabilities where
  "demo_caps = \<lparr>wp_skills = [''ts''], wp_tools = [], wp_models = [], wp_maxTokens = 1000,
     wp_supportsStreaming = False, wp_supportsAttachments = False\<rparr>"

definition demo_wtask :: "string \<Rightarrow> TaskDefinition" where
  "demo_wtask i = \<lparr>td_id = i, td_prompt = ''p'', td_agentRole = None, td_agentId = None,
     td_priority = P_normal, td_timeout = None, td_maxRetries = None, td_dependencies = None,
     td_metadata = None\<rparr>"

definition demo_wresult :: "string \<Rightarrow> TaskResult" where
  "demo_wresult i = \<lparr>r_taskId = i, r_agentId = ''w'', r_status = T_completed, r_output = JNull,
     r_error = None, r_duration = 5, r_tokenUsage = None\<rparr>"

definition demo_new_worker :: "int \<Rightarrow> worker" where
  "demo_new_worker n = new_worker 0 ''w'' (default_worker_config\<lparr>wc_maxConcurrentTasks := n\<rparr>) demo_caps"

text \<open>C24: Whatever calls and events arrive, a call of \<open>execute\<close> invokes the executor at most once plus the
  configured number of retries; and a call that waits for an attempt returns or throws once that many further
  attempts have ended, whatever their outcomes.\<close>

theorem execute_bounded:
  assumes "w = fold wk_apply xs (new_worker t i c caps)" and "k < length (wk_execs w)"
  shows "int (wx_attempts (wk_execs w ! k)) \<le> max 0 (retry_bound c + 1) \<and>
    (wx_phase (wk_execs w ! k) = Attempting \<and> retry_bound c < int (length os) \<longrightarrow>
      (\<exists>r. wx_phase (wk_execs (fold (exec_round now k) os w) ! k) = Finished r))"
proof
  have ok: "execs_ok w" unfolding assms(1) by (rule attempt_machine.inv_run [OF execs_ok_new])
  have conf: "wk_config w = c"
    unfolding assms(1) by (rule config_machine.inv_run) (simp add: new_worker_def)
  from ok conf assms(2) have x: "exec_ok c (wk_execs w ! k)" by (simp add: execs_ok_def)
  then show "int (wx_attempts (wk_execs w ! k)) \<le> max 0 (retry_bound c + 1)"
    by (cases "wx_phase (wk_execs w ! k)") (auto simp: exec_ok_def)
  show "wx_phase (wk_execs w ! k) = Attempting \<and> retry_bound c < int (length os) \<longrightarrow>
      (\<exists>r. wx_phase (wk_execs (fold (exec_round now k) os w) ! k) = Finished r)"
  proof (rule impI)
    assume a: "wx_phase (wk_execs w ! k) = Attempting \<and> retry_bound c < int (length os)"
    with x have "0 \<le> wx_retries (wk_execs w ! k)" by (simp add: exec_ok_def)
    with a show "\<exists>r. wx_phase (wk_execs (fold (exec_round now k) os w) ! k) = Finished r"
      using rounds_finish [OF ok assms(2)] conf by simp
  qed
qed

definition demo_w1 :: worker where
  "demo_w1 = wk_apply (W_execute 1 (demo_wtask ''t'')) (demo_new_worker 1)"

lemma execute_bounded_witness:
  "wx_attempts (wk_execs demo_w1 ! 0) = 1 \<and>
   (\<exists>r. wx_phase (wk_execs (fold (exec_round 9 0) [Inl ''a'', Inl ''b'', Inl ''c''] demo_w1) ! 0) = Finished r)"
proof -
  let ?c = "default_worker_config\<lparr>wc_maxConcurrentTasks := 1\<rparr>"
  have w: "demo_w1 = fold wk_apply [W_execute 1 (demo_wtask ''t'')] (new_worker 0 ''w'' ?c demo_caps)"
    by (simp add: demo_w1_def demo_new_worker_def)
  have "0 < length (wk_execs demo_w1)" "wx_phase (wk_execs demo_w1 ! 0) = Attempting"
    "retry_bound ?c < int (length [Inl ''a'' :: string + TaskResult, Inl ''b'', Inl ''c''])"
    "wx_attempts (wk_execs demo_w1 ! 0) = 1" by code_simp+
  with execute_bounded [OF w, of 0 "[Inl ''a'', Inl ''b'', Inl ''c'']" 9] show ?thesis by blast
qed

subsection \<open>Slots\<close>

text \<open>The operations that do not take a task out of \<open>currentTasks\<close>; the end of an execution is one of
  them.\<close>

fun keeps_slots :: "wk_op \<Rightarrow> bool" where
  "keeps_slots (W_cancel i) = False"
| "keeps_slots W_shutdown = False"
| "keeps_slots (W_complete now i r) = False"
| "keeps_slots (W_fail now i e) = False"
| "keeps_slots _ = True"

definition task_ids :: "worker \<Rightarrow> string set" where
  "task_ids w = set (map (td_id \<circ> wx_task) (wk_execs w))"

definition slots_held :: "int \<Rightarrow> worker \<Rightarrow> bool" where
  "slots_held n w \<longleftrightarrow> jwf (wk_currentTasks w) \<and> set (jkeys (wk_currentTasks w)) = task_ids w \<and>
     wc_maxConcurrentTasks (wk_config w) = n \<and> int (length (wk_currentTasks w)) \<le> max 0 n"

lemma slots_frame: "same_frame w w' \<Longrightarrow> slots_held n w' \<longleftrightarrow> slots_held n w"
  by (simp add: same_frame_def slots_held_def task_ids_def flip: map_map)

lemma slots_status: "only_status w w' \<Longrightarrow> slots_held n w' \<longleftrightarrow> slots_held n w"
  by (simp add: only_statusD slots_held_def task_ids_def)

lemma slots_begin: "slots_held n w \<Longrightarrow> slots_held n (fst (beginExecute now t w))"
proof (cases "canAcceptTask w")
  case True
  assume held: "slots_held n w"
  have "slots_held n (openExec now t w)"
    using held True
    by (auto simp: slots_held_def task_ids_def canAcceptTask_def jkeys_jset length_jset
        simp flip: map_map)
  moreover from begin_outcome [OF True, of now t] obtain v where v: "only_status (openExec now t w) v"
    and r: "beginExecute now t w = (nextAttempt now (length (wk_execs w)) v, Inr (length (wk_execs w))) \<or>
     (\<exists>e. beginExecute now t w = (set_phase (Finished (Inl e)) (length (wk_execs w)) v, Inr (length (wk_execs w))))"
    by blast
  from r have "same_frame v (fst (beginExecute now t w))" by auto
  ultimately show ?thesis using slots_status [OF v] slots_frame by blast
qed (simp add: beginExecute_def)

lemma slots_step:
  assumes "keeps_slots x" and "slots_held n w"
  shows "slots_held n (wk_apply x w)"
proof (cases x)
  case (W_progress now i p m)
  have "slots_held n (fst (wk_notify c (set_progress f k w)))" for c f k
    using assms(2) slots_status [of "set_progress f k w" "fst (wk_notify c (set_progress f k w))" n]
      slots_frame [of w "set_progress f k w" n] by simp
  then show ?thesis using W_progress assms(2) by (simp add: updateProgress_def Let_def split: option.splits)
next
  case W_heartbeat
  have "only_status w (fst (wk_heartbeat w))" by (simp add: wk_heartbeat_def)
  then show ?thesis using W_heartbeat assms(2) by (simp add: slots_status)
next
  case (W_handlers h)
  then show ?thesis using assms(2) by (simp add: slots_held_def task_ids_def setHandlers_def Let_def)
next
  case (W_settle r k)
  then show ?thesis using assms(2) slots_frame [of w "settleAttempt r k w"] by simp
next
  case (W_resume now k)
  then show ?thesis using assms(2) slots_frame [of w "resumeExecute now k w"] by simp
next
  case (W_delay now k)
  then show ?thesis using assms(2) slots_frame [of w "endDelay now k w"] by simp
qed (use assms slots_begin in auto)

interpretation slot_machine: guarded_machine "\<lambda>_. keeps_slots" wk_apply "slots_held n" for n
  by unfold_locales (rule slots_step)

lemma slots_new: "slots_held (wc_maxConcurrentTasks c) (new_worker t i c caps)"
  by (simp add: slots_held_def task_ids_def new_worker_def)

text \<open>The end of an execution frees nothing: as long as nobody calls \<open>cancel\<close>, \<open>completeTask\<close>,
  \<open>failTask\<close> or \<open>shutdown\<close>, every task ever accepted stays a current task. After as many different tasks
  as may run at the same time, \<open>execute\<close> refuses every further task for ever.\<close>

lemma finished_tasks_hold_slots:
  assumes "legal_run (\<lambda>_. keeps_slots) wk_apply (new_worker t i c caps) xs"
    and "w = fold wk_apply xs (new_worker t i c caps)"
  shows "set (getCurrentTasks w) = set (map (td_id \<circ> wx_task) (wk_execs w)) \<and>
    (wc_maxConcurrentTasks c \<le> int (card (set (map (td_id \<circ> wx_task) (wk_execs w)))) \<longrightarrow>
      beginExecute now task w = (w, Inl ''Worker cannot accept more tasks''))"
proof -
  have held: "slots_held (wc_maxConcurrentTasks c) w"
    unfolding assms(2) by (rule slot_machine.inv_legal_run [OF assms(1) slots_new])
  then have "length (wk_currentTasks w) = card (task_ids w)"
    unfolding slots_held_def jwf_def by (metis distinct_card length_map)
  with held show ?thesis
    by (auto simp: slots_held_def task_ids_def getCurrentTasks_def beginExecute_def canAcceptTask_def)
qed

definition demo_wk_ops :: "wk_op list" where
  "demo_wk_ops = [W_execute 1 (demo_wtask ''t''), W_settle (Inr (demo_wresult ''t'')) 0, W_resume 6 0]"

lemma finished_tasks_hold_slots_witness:
  "wx_phase (wk_execs (fold wk_apply demo_wk_ops (demo_new_worker 1)) ! 0) = Finished (Inr (demo_wresult ''t'')) \<and>
   snd (beginExecute 9 (demo_wtask ''u'') (fold wk_apply demo_wk_ops (demo_new_worker 1))) =
     Inl ''Worker cannot accept more tasks''"
proof -
  let ?c = "default_worker_config\<lparr>wc_maxConcurrentTasks := 1\<rparr>"
  have legal: "legal_run (\<lambda>_. keeps_slots) wk_apply (new_worker 0 ''w'' ?c demo_caps) demo_wk_ops"
    by (simp add: demo_wk_ops_def)
  have fin: "wx_phase (wk_execs (fold wk_apply demo_wk_ops (demo_new_worker 1)) ! 0) = Finished (Inr (demo_wresult ''t''))"
    by code_simp
  have "map (td_id \<circ> wx_task) (wk_execs (fold wk_apply demo_wk_ops (new_worker 0 ''w'' ?c demo_caps))) = [''t'']"
    by code_simp
  then have "card (set (map (td_id \<circ> wx_task) (wk_execs (fold wk_apply demo_wk_ops (new_worker 0 ''w'' ?c demo_caps))))) = 1"
    by (simp only:) simp
  then have "snd (beginExecute 9 (demo_wtask ''u'') (fold wk_apply demo_wk_ops (new_worker 0 ''w'' ?c demo_caps))) =
     Inl ''Worker cannot accept more tasks''"
    using finished_tasks_hold_slots [OF legal refl, of 9 "demo_wtask ''u''"] by simp
  with fin show ?thesis by (simp add: demo_new_worker_def)
qed

text \<open>A cancelled task goes on: cancelling while an attempt is awaited removes the task from the
  worker's books and answers true, but with retries left the loop catches the abort like any failure and
  invokes the executor again after the delay.\<close>

lemma cancelled_task_runs_again:
  assumes "jget (wk_abortControllers w) i = Some k" and "k < length (wk_execs w)"
    and "wx_phase (wk_execs w ! k) = Attempting" and "\<not> wx_aborted (wk_execs w ! k)"
    and "wc_retryOnFailure (wk_config w)" and "wx_retries (wk_execs w ! k) < wc_maxRetries (wk_config w)"
  defines "w' \<equiv> fst (wk_cancel i w)"
  shows "i \<notin> set (getCurrentTasks w') \<and> jget (wk_abortControllers w') i = None \<and>
    (let v = endDelay t2 k (resumeExecute t1 k w')
     in wx_phase (wk_execs v ! k) = Attempting \<and>
        wx_attempts (wk_execs v ! k) = wx_attempts (wk_execs w ! k) + 1 \<and> i \<notin> set (getCurrentTasks v))"
proof -
  let ?d = "dropTask i (abortExec k w)"
  have "only_status ?d (fst (and_then (idle_if_room ?d) (\<lambda>_ w'. (w', Inr True :: string + bool))))"
    by (rule only_status_and_then) simp_all
  then have st: "only_status ?d w'" using assms(1) by (simp add: w'_def wk_cancel_def)
  have d: "wk_execs ?d ! k = (wk_execs w ! k)\<lparr>wx_aborted := True, wx_phase := Settled (Inl ''Task cancelled'')\<rparr>"
    "length (wk_execs ?d) = length (wk_execs w)" "wk_config ?d = wk_config w"
    "wk_currentTasks ?d = jdel (wk_currentTasks w) i" "wk_abortControllers ?d = jdel (wk_abortControllers w) i"
    using assms by (simp_all add: dropTask_def abortExec_def settleAttempt_def set_phase_def wk_upd_exec_def)
  note w' = only_statusD [OF st] d
  let ?v = "endDelay t2 k (resumeExecute t1 k w')"
  have "same_frame w' ?v" by simp
  then have cur: "wk_currentTasks ?v = jdel (wk_currentTasks w) i" by (simp add: same_frame_def w')
  have "wx_phase (wk_execs (resumeExecute t1 k w') ! k) = Delaying \<and>
      wx_retries (wk_execs (resumeExecute t1 k w') ! k) = wx_retries (wk_execs w ! k) + 1 \<and>
      wx_attempts (wk_execs (resumeExecute t1 k w') ! k) = wx_attempts (wk_execs w ! k) \<and>
      wk_config (resumeExecute t1 k w') = wk_config w \<and> k < length (wk_execs (resumeExecute t1 k w'))"
    using assms w' by (simp add: resumeExecute_def catchAttempt_def Let_def)
  then have "wx_phase (wk_execs ?v ! k) = Attempting \<and>
      wx_attempts (wk_execs ?v ! k) = wx_attempts (wk_execs w ! k) + 1"
    using assms(5,6) by (simp add: endDelay_def nextAttempt_def retry_bound_def)
  moreover have "i \<notin> set (jkeys (jdel (wk_currentTasks w) i))"
    using jhas_keys [of "jdel (wk_currentTasks w) i" i] by simp
  ultimately show ?thesis using w' cur by (simp add: getCurrentTasks_def Let_def del: set_map)
qed

lemma cancelled_task_runs_again_witness:
  "\<exists>v. wx_phase (wk_execs v ! 0) = Attempting \<and> wx_attempts (wk_execs v ! 0) = 2 \<and> ''t'' \<notin> set (getCurrentTasks v) \<and>
     v = endDelay 9 0 (resumeExecute 2 0 (fst (wk_cancel ''t'' demo_w1)))"
proof -
  have "jget (wk_abortControllers demo_w1) ''t'' = Some 0" "0 < length (wk_execs demo_w1)"
    "wx_phase (wk_execs demo_w1 ! 0) = Attempting" "\<not> wx_aborted (wk_execs demo_w1 ! 0)"
    "wc_retryOnFailure (wk_config demo_w1)" "wx_retries (wk_execs demo_w1 ! 0) < wc_maxRetries (wk_config demo_w1)"
    "wx_attempts (wk_execs demo_w1 ! 0) = 1"
    by code_simp+
  with cancelled_task_runs_again [of demo_w1 "''t''" 0 9 2] show ?thesis by (simp add: Let_def)
qed

text \<open>The total metrics of a pool give the current time as the uptime.\<close>

lemma total_uptime_is_clock: "mt_uptime (getTotalMetrics now p) = now"
  by (simp add: getTotalMetrics_def Let_def)

text \<open>A task that \<open>completeTask\<close> finishes while \<open>execute\<close> goes on is counted twice.\<close>

lemma completion_counted_twice:
  "mt_tasksCompleted (wk_metrics (fold wk_apply [W_execute 1 (demo_wtask ''t''), W_complete 2 ''t'' (demo_wresult ''t''),
     W_settle (Inr (demo_wresult ''t'')) 0, W_resume 6 0] (demo_new_worker 1))) = 2"
  by code_simp

text \<open>A heartbeat brings a worker back that was shut down.\<close>

lemma heartbeat_revives: "wk_status w = WS_offline \<Longrightarrow> wk_status (fst (wk_heartbeat w)) = WS_idle"
  by (simp add: wk_heartbeat_def setStatus_def Let_def wk_notify_def split: option.splits)

lemma removed_worker_has_no_tasks:
  assumes "snd (removeWorker i p) = Inr ()" and "jwf (pl_workers p)" and "jwf (pl_taskAssignments p)"
    and "i \<noteq> []" and "getWorker i p \<noteq> None"
  shows "getWorker i (fst (removeWorker i p)) = None \<and>
    jget (pl_taskAssignments (fst (removeWorker i p))) t \<noteq> Some i"
  using assms by (auto simp: removeWorker_def getWorker_def jget_jdrop split: option.splits prod.splits sum.splits)

text \<open>A completion handler that throws makes \<open>execute\<close> run the completed task again.\<close>

lemma throwing_handler_reruns_task:
  "let w = fold wk_apply [W_handlers (wk_no_handlers\<lparr>eh_onTaskComplete := Some (\<lambda>_. Some ''boom'')\<rparr>),
       W_execute 1 (demo_wtask ''t''), W_settle (Inr (demo_wresult ''t'')) 0, W_resume 6 0, W_delay 9 0]
       (demo_new_worker 1)
   in mt_tasksCompleted (wk_metrics w) = 1 \<and> wx_attempts (wk_execs w ! 0) = 2 \<and>
      wx_phase (wk_execs w ! 0) = Attempting"
  by code_simp

end
