(* ===== verification/Dispatcher.thy ===== *)
theory Dispatcher
  imports Coordinator Worker "HOL-Library.Multiset"
begin

text \<open>
  The task dispatcher (\<open>src/src/orchestrator/dispatcher.ts\<close>, class \<open>TaskDispatcher\<close>): it hands tasks
  to its workers, queues those no worker can take, and hears from the workers through their handlers.

  Workers are objects that running executions go on using after \<open>unregisterWorker\<close>, so the dispatcher
  has a heap of them and its map holds addresses. An event of a worker is a step of that worker
  followed by the dispatcher's handlers for the calls the step made; a handler call is the last thing
  such a step does. A retry waits in \<open>dp_timers\<close>. A queue item is kept by value: the fields of
  an item that \<open>handleTaskError\<close> changes are read only through \<open>pendingTasks\<close>. The configuration of a worker
  is the one with the defaults filled in, with \<open>maxRetries\<close> not negative, so that the part of
  \<open>execute\<close> that runs inside \<open>dispatchToWorker\<close> calls no handler. A worker that is selected accepts the task
  (\<open>selected_accepts\<close>), so \<open>execute\<close> does not reject and the \<open>catch\<close> of \<open>dispatchToWorker\<close> is never
  taken. A task's \<open>requiredCapabilities\<close> is an array, null or missing, its \<open>deadline\<close> a number, null or
  missing.
\<close>

datatype DispatchStrategy = DG_round_robin | DG_least_loaded | DG_capability_based | DG_priority_based

datatype DispatchStatus = DR_dispatched | DR_queued | DR_rejected

record DispatchResult =
  dr_taskId :: string
  dr_workerId :: string
  dr_dispatchedAt :: int
  dr_status :: DispatchStatus
  dr_queuePosition :: "nat option"
  dr_reason :: "string option"

record DispatchConfig =
  dg_strategy :: DispatchStrategy
  dg_maxQueueSize :: int
  dg_retryEnabled :: bool
  dg_retryAttempts :: int
  dg_retryDelay :: int
  dg_timeout :: int
  dg_priorityBoost :: bool

record TaskQueueItem =
  qi_task :: TaskDefinition
  qi_enqueuedAt :: int
  qi_priority :: int
  qi_attempts :: int
  qi_lastAttempt :: "int option"
  qi_error :: "string option"

record RunningTask =
  rt_workerId :: string
  rt_startedAt :: int

record dispatcher =
  dp_coordinator :: coordinator
  dp_workers :: "(string, nat) jsmap"
  dp_heap :: "worker list"
  dp_taskQueue :: "TaskQueueItem list"
  dp_pendingTasks :: "(string, TaskQueueItem) jsmap"
  dp_runningTasks :: "(string, RunningTask) jsmap"
  dp_completedTasks :: "(string, TaskResult) jsmap"
  dp_config :: DispatchConfig
  dp_roundRobinIndex :: nat
  dp_timers :: "TaskQueueItem list"

definition default_dispatch_config :: DispatchConfig where
  "default_dispatch_config =
     \<lparr>dg_strategy = DG_least_loaded, dg_maxQueueSize = 100, dg_retryEnabled = True,
      dg_retryAttempts = 3, dg_retryDelay = 5000, dg_timeout = 300000, dg_priorityBoost = True\<rparr>"

definition new_dispatcher :: "coordinator \<Rightarrow> DispatchConfig \<Rightarrow> dispatcher" where
  "new_dispatcher c config =
     \<lparr>dp_coordinator = c, dp_workers = [], dp_heap = [], dp_taskQueue = [], dp_pendingTasks = [],
      dp_runningTasks = [], dp_completedTasks = [], dp_config = config, dp_roundRobinIndex = 0,
      dp_timers = []\<rparr>"

subsection \<open>Workers\<close>

definition dispatcher_handlers :: WorkerEventHandler where
  "dispatcher_handlers = wk_no_handlers\<lparr>eh_onTaskComplete := Some (\<lambda>_. None),
     eh_onTaskError := Some (\<lambda>_ _. None)\<rparr>"

definition dp_registerWorker ::
  "int \<Rightarrow> string \<Rightarrow> WorkerCapabilities \<Rightarrow> WorkerConfig \<Rightarrow> dispatcher \<Rightarrow> dispatcher" where
  "dp_registerWorker now i capabilities config d =
     d\<lparr>dp_heap := dp_heap d @ [setHandlers dispatcher_handlers (new_worker now i config capabilities)],
       dp_workers := jset (dp_workers d) i (length (dp_heap d)),
       dp_coordinator := co_registerWorker
         \<lparr>wi_id = i, wi_status = WI_idle, wi_capabilities = wp_skills capabilities, wi_currentTasks = 0,
          wi_maxTasks = wc_maxConcurrentTasks config, wi_lastHeartbeat = now,
          wi_performance = new_performance\<rparr> (dp_coordinator d)\<rparr>"

definition dp_unregisterWorker :: "string \<Rightarrow> dispatcher \<Rightarrow> dispatcher" where
  "dp_unregisterWorker workerId d =
     (case jget (dp_workers d) workerId of
        None \<Rightarrow> d
      | Some a \<Rightarrow> d\<lparr>dp_heap := (dp_heap d)[a := fst (wk_shutdown (dp_heap d ! a))],
                     dp_workers := jdel (dp_workers d) workerId,
                     dp_coordinator := co_unregisterWorker workerId (dp_coordinator d)\<rparr>)"

definition task_count :: "dispatcher \<Rightarrow> nat \<Rightarrow> nat" where
  "task_count d a = length (getCurrentTasks (dp_heap d ! a))"

definition selectLeastLoaded :: "dispatcher \<Rightarrow> nat list \<Rightarrow> nat" where
  "selectLeastLoaded d workers = reduce_max (\<lambda>a. - int (task_count d a)) (hd workers) (tl workers)"

definition required_list :: "TaskDefinition \<Rightarrow> jsval list" where
  "required_list task = (case co_requiredCapabilities task of JArr caps \<Rightarrow> caps | _ \<Rightarrow> [])"

definition selectByCapability :: "TaskDefinition \<Rightarrow> dispatcher \<Rightarrow> nat list \<Rightarrow> nat option" where
  "selectByCapability task d workers =
     (let capable = filter (\<lambda>a. list_all (has_capability (wp_skills (wk_capabilities (dp_heap d ! a))))
            (required_list task)) workers
      in if capable = [] then None else Some (selectLeastLoaded d capable))"

definition priorityScore :: "dispatcher \<Rightarrow> nat \<Rightarrow> nat" where
  "priorityScore d a =
     sum_list (map (\<lambda>taskId. case jget (dp_pendingTasks d) taskId of
         Some pending \<Rightarrow> urgency_rank (td_priority (qi_task pending)) | None \<Rightarrow> 0)
       (getCurrentTasks (dp_heap d ! a)))"

definition selectByPriority :: "dispatcher \<Rightarrow> nat list \<Rightarrow> nat" where
  "selectByPriority d workers = hd (sort_key (priorityScore d) workers)"

definition available :: "dispatcher \<Rightarrow> nat list" where
  "available d = filter (\<lambda>a. canAcceptTask (dp_heap d ! a)) (jvals (dp_workers d))"

definition dp_selectWorker :: "TaskDefinition \<Rightarrow> dispatcher \<Rightarrow> dispatcher \<times> nat option" where
  "dp_selectWorker task d =
     (let workers = available d
      in if workers = [] then (d, None)
         else case dg_strategy (dp_config d) of
                DG_round_robin \<Rightarrow>
                  (let i = (dp_roundRobinIndex d + 1) mod length workers
                   in (d\<lparr>dp_roundRobinIndex := i\<rparr>, Some (workers ! i)))
              | DG_least_loaded \<Rightarrow> (d, Some (selectLeastLoaded d workers))
              | DG_capability_based \<Rightarrow> (d, selectByCapability task d workers)
              | DG_priority_based \<Rightarrow> (d, Some (selectByPriority d workers)))"

subsection \<open>The queue\<close>

definition dispatchToWorker :: "int \<Rightarrow> TaskDefinition \<Rightarrow> nat \<Rightarrow> dispatcher \<Rightarrow> dispatcher \<times> DispatchResult" where
  "dispatchToWorker now task a d =
     (let worker = dp_heap d ! a; workerId = wk_id worker
      in (d\<lparr>dp_runningTasks := jset (dp_runningTasks d) (td_id task)
                \<lparr>rt_workerId = workerId, rt_startedAt = now\<rparr>,
            dp_pendingTasks := jdel (dp_pendingTasks d) (td_id task),
            dp_heap := (dp_heap d)[a := fst (beginExecute now task worker)]\<rparr>,
          \<lparr>dr_taskId = td_id task, dr_workerId = workerId, dr_dispatchedAt = now,
           dr_status = DR_dispatched, dr_queuePosition = None, dr_reason = None\<rparr>))"

text \<open>The loop of \<open>processQueue\<close> over the items of the queue.\<close>

fun drain :: "int \<Rightarrow> TaskQueueItem list \<Rightarrow> dispatcher \<Rightarrow> dispatcher" where
  "drain now [] d = d\<lparr>dp_taskQueue := []\<rparr>"
| "drain now (item # rest) d =
     (case dp_selectWorker (qi_task item) d of
        (d', None) \<Rightarrow> d'\<lparr>dp_taskQueue := item # rest\<rparr>
      | (d', Some a) \<Rightarrow>
          drain now rest (fst (dispatchToWorker now (qi_task item) a (d'\<lparr>dp_taskQueue := rest\<rparr>))))"

definition processQueue :: "int \<Rightarrow> dispatcher \<Rightarrow> dispatcher" where
  "processQueue now d = drain now (dp_taskQueue d) d"

fun priority_weight :: "TaskPriority \<Rightarrow> int" where
  "priority_weight P_urgent = 1000"
| "priority_weight P_high = 100"
| "priority_weight P_normal = 10"
| "priority_weight P_low = 1"

definition metadata_field :: "string \<Rightarrow> TaskDefinition \<Rightarrow> jsval" where
  "metadata_field k task =
     (case td_metadata task of
        None \<Rightarrow> JUndef
      | Some m \<Rightarrow> (case jget m k of Some v \<Rightarrow> v | None \<Rightarrow> JUndef))"

definition deadline_boost :: "int \<Rightarrow> TaskDefinition \<Rightarrow> int" where
  "deadline_boost now task =
     (case metadata_field ''deadline'' task of
        JNum deadline \<Rightarrow>
          (if deadline = 0 then 0
           else if deadline - of_int now < 60000 then 500
           else if deadline - of_int now < 300000 then 200
           else 0)
      | _ \<Rightarrow> 0)"

definition calculatePriority :: "int \<Rightarrow> TaskDefinition \<Rightarrow> dispatcher \<Rightarrow> int" where
  "calculatePriority now task d =
     priority_weight (td_priority task) +
     (if dg_priorityBoost (dp_config d) \<and> js_truthy (metadata_field ''priorityBoost'' task) then 50 else 0) +
     deadline_boost now task"

definition enqueueTask :: "int \<Rightarrow> TaskDefinition \<Rightarrow> dispatcher \<Rightarrow> dispatcher \<times> DispatchResult" where
  "enqueueTask now task d =
     (let item = \<lparr>qi_task = task, qi_enqueuedAt = now, qi_priority = calculatePriority now task d,
            qi_attempts = 0, qi_lastAttempt = None, qi_error = None\<rparr>;
          after = (\<lambda>existing. qi_priority existing > qi_priority item);
          insertIndex = find_index after (dp_taskQueue d);
          d' = processQueue now (d\<lparr>dp_pendingTasks := jset (dp_pendingTasks d) (td_id task) item,
                 dp_taskQueue := insert_before after item (dp_taskQueue d)\<rparr>)
      in (d', \<lparr>dr_taskId = td_id task, dr_workerId = [], dr_dispatchedAt = now, dr_status = DR_queued,
               dr_queuePosition = Some (case insertIndex of Some i \<Rightarrow> i + 1 | None \<Rightarrow> length (dp_taskQueue d')),
               dr_reason = None\<rparr>))"

definition dp_dispatch :: "int \<Rightarrow> TaskDefinition \<Rightarrow> dispatcher \<Rightarrow> dispatcher \<times> DispatchResult" where
  "dp_dispatch now task d =
     (if int (length (dp_taskQueue d)) \<ge> dg_maxQueueSize (dp_config d)
      then (d, \<lparr>dr_taskId = td_id task, dr_workerId = [], dr_dispatchedAt = now,
                dr_status = DR_rejected, dr_queuePosition = None, dr_reason = Some ''Queue is full''\<rparr>)
      else case dp_selectWorker task d of
             (d', Some a) \<Rightarrow> dispatchToWorker now task a d'
           | (d', None) \<Rightarrow> enqueueTask now task d')"

definition sortTasksByPriority :: "TaskDefinition list \<Rightarrow> TaskDefinition list" where
  "sortTasksByPriority tasks = sort_key (\<lambda>t. urgency_rank (td_priority t)) tasks"

definition dispatchBatch ::
  "int \<Rightarrow> TaskDefinition list \<Rightarrow> dispatcher \<Rightarrow> dispatcher \<times> DispatchResult list" where
  "dispatchBatch now tasks d =
     fold (\<lambda>task (d, results). let (d', r) = dp_dispatch now task d in (d', results @ [r]))
       (sortTasksByPriority tasks) (d, [])"

subsection \<open>What the workers report\<close>

definition handleTaskComplete :: "int \<Rightarrow> TaskResult \<Rightarrow> dispatcher \<Rightarrow> dispatcher" where
  "handleTaskComplete now result d =
     processQueue now (d\<lparr>dp_runningTasks := jdel (dp_runningTasks d) (r_taskId result),
       dp_completedTasks := jset (dp_completedTasks d) (r_taskId result) result,
       dp_coordinator := co_completeTask (r_taskId result) result (dp_coordinator d)\<rparr>)"

definition handleTaskError :: "int \<Rightarrow> string \<Rightarrow> string \<Rightarrow> dispatcher \<Rightarrow> dispatcher" where
  "handleTaskError now taskId err d =
     (case jget (dp_runningTasks d) taskId of
        None \<Rightarrow> d
      | Some running \<Rightarrow>
          (let d = d\<lparr>dp_runningTasks := jdel (dp_runningTasks d) taskId\<rparr>;
               give_up = processQueue now (d\<lparr>dp_coordinator := co_failTask now taskId err (dp_coordinator d)\<rparr>)
           in if dg_retryEnabled (dp_config d)
              then case jget (dp_pendingTasks d) taskId of
                     Some pending \<Rightarrow>
                       (if qi_attempts pending < dg_retryAttempts (dp_config d)
                        then let pending' = pending\<lparr>qi_attempts := qi_attempts pending + 1,
                                   qi_lastAttempt := Some now, qi_error := Some err\<rparr>
                             in d\<lparr>dp_pendingTasks := jset (dp_pendingTasks d) taskId pending',
                                  dp_timers := dp_timers d @ [pending']\<rparr>
                        else give_up)
                   | None \<Rightarrow> give_up
              else give_up))"

definition retryTimer :: "int \<Rightarrow> nat \<Rightarrow> dispatcher \<Rightarrow> dispatcher" where
  "retryTimer now i d =
     (if i < length (dp_timers d)
      then processQueue now (d\<lparr>dp_timers := remove_at i (dp_timers d),
             dp_taskQueue := dp_taskQueue d @ [dp_timers d ! i]\<rparr>)
      else d)"

fun handle_call :: "int \<Rightarrow> worker_call \<Rightarrow> dispatcher \<Rightarrow> dispatcher" where
  "handle_call now (WC_complete result) d = handleTaskComplete now result d"
| "handle_call now (WC_error taskId (Some e)) d = handleTaskError now taskId e d"
| "handle_call now _ d = d"

definition worker_event :: "int \<Rightarrow> nat \<Rightarrow> (worker \<Rightarrow> worker) \<Rightarrow> dispatcher \<Rightarrow> dispatcher" where
  "worker_event now a step d =
     (if a < length (dp_heap d)
      then let w = dp_heap d ! a; w' = step w
           in fold (handle_call now) (drop (length (wk_calls w)) (wk_calls w'))
                (d\<lparr>dp_heap := (dp_heap d)[a := w']\<rparr>)
      else d)"

subsection \<open>Cancelling and queries\<close>

definition dp_cancel :: "string \<Rightarrow> dispatcher \<Rightarrow> dispatcher \<times> bool" where
  "dp_cancel taskId d =
     (case jget (dp_pendingTasks d) taskId of
        Some pending \<Rightarrow>
          (d\<lparr>dp_pendingTasks := jdel (dp_pendingTasks d) taskId,
             dp_taskQueue := (case find_index (\<lambda>item. td_id (qi_task item) = taskId) (dp_taskQueue d) of
                Some i \<Rightarrow> remove_at i (dp_taskQueue d) | None \<Rightarrow> dp_taskQueue d)\<rparr>, True)
      | None \<Rightarrow>
          (case jget (dp_runningTasks d) taskId of
             Some running \<Rightarrow>
               (case jget (dp_workers d) (rt_workerId running) of
                  Some a \<Rightarrow>
                    (let (w', r) = wk_cancel taskId (dp_heap d ! a)
                     in (d\<lparr>dp_heap := (dp_heap d)[a := w']\<rparr>, case r of Inr b \<Rightarrow> b | Inl _ \<Rightarrow> False))
                | None \<Rightarrow> (d, False))
           | None \<Rightarrow> (d, False)))"

definition dp_getStatus :: "int \<Rightarrow> string \<Rightarrow> dispatcher \<Rightarrow> DispatchResult option" where
  "dp_getStatus now taskId d =
     (case jget (dp_completedTasks d) taskId of
        Some completed \<Rightarrow>
          Some \<lparr>dr_taskId = taskId, dr_workerId = r_agentId completed,
            dr_dispatchedAt = (if r_duration completed \<noteq> 0 then now - r_duration completed else now),
            dr_status = DR_dispatched, dr_queuePosition = None, dr_reason = None\<rparr>
      | None \<Rightarrow>
          (case jget (dp_runningTasks d) taskId of
             Some running \<Rightarrow>
               Some \<lparr>dr_taskId = taskId, dr_workerId = rt_workerId running,
                 dr_dispatchedAt = rt_startedAt running, dr_status = DR_dispatched,
                 dr_queuePosition = None, dr_reason = None\<rparr>
           | None \<Rightarrow>
               (case jget (dp_pendingTasks d) taskId of
                  Some pending \<Rightarrow>
                    Some \<lparr>dr_taskId = taskId, dr_workerId = [], dr_dispatchedAt = qi_enqueuedAt pending,
                      dr_status = DR_queued,
                      dr_queuePosition = map_option Suc
                        (find_index (\<lambda>item. td_id (qi_task item) = taskId) (dp_taskQueue d)),
                      dr_reason = None\<rparr>
                | None \<Rightarrow> None)))"

definition getQueueLength :: "dispatcher \<Rightarrow> nat" where
  "getQueueLength d = length (dp_taskQueue d)"

definition dp_getPendingTasks :: "dispatcher \<Rightarrow> TaskDefinition list" where
  "dp_getPendingTasks d = map qi_task (dp_taskQueue d)"

definition setStrategy :: "DispatchStrategy \<Rightarrow> dispatcher \<Rightarrow> dispatcher" where
  "setStrategy strategy d = d\<lparr>dp_config := (dp_config d)\<lparr>dg_strategy := strategy\<rparr>\<rparr>"

definition getResult :: "string \<Rightarrow> dispatcher \<Rightarrow> TaskResult option" where
  "getResult taskId d = jget (dp_completedTasks d) taskId"

definition dp_getRunningTasks :: "dispatcher \<Rightarrow> string list" where
  "dp_getRunningTasks d = jkeys (dp_runningTasks d)"

subsection \<open>Frames\<close>

lemma selectWorker_state:
  "dp_selectWorker t d = (d', r) \<Longrightarrow> \<exists>i. d' = d\<lparr>dp_roundRobinIndex := i\<rparr>"
  by (auto simp: dp_selectWorker_def Let_def split: if_splits DispatchStrategy.splits
      intro: exI [of _ "dp_roundRobinIndex d"])

lemma reduce_max_mem: "reduce_max f x xs \<in> set (x # xs)"
  using reduce_max_first [OF refl, of x xs f] by (metis in_set_conv_decomp)

lemma leastLoaded_mem: "ws \<noteq> [] \<Longrightarrow> selectLeastLoaded d ws \<in> set ws"
  using reduce_max_mem [of _ "hd ws" "tl ws"] by (simp add: selectLeastLoaded_def)

lemma selected_available: "dp_selectWorker t d = (d', Some a) \<Longrightarrow> a \<in> set (available d)"
proof -
  assume sel: "dp_selectWorker t d = (d', Some a)"
  have cap: "selectByCapability t d ws = Some b \<Longrightarrow> b \<in> set ws" for ws b
    using leastLoaded_mem [of _ d] by (fastforce simp: selectByCapability_def Let_def split: if_splits)
  have prio: "ws \<noteq> [] \<Longrightarrow> selectByPriority d ws \<in> set ws" for ws
    by (metis hd_in_set selectByPriority_def set_empty set_sort)
  show ?thesis
    using sel cap prio leastLoaded_mem [of "available d" d]
    by (auto simp: dp_selectWorker_def Let_def split: if_splits DispatchStrategy.splits)
qed

lemma selected_accepts:
  "dp_selectWorker t d = (d', Some a) \<Longrightarrow> canAcceptTask (dp_heap d ! a) \<and> (\<exists>i. (i, a) \<in> set (dp_workers d))"
  using selected_available [of t d d' a] by (auto simp: available_def)

text \<open>What the loop over the queue leaves alone.\<close>

lemma drain_frame:
  "dp_timers (drain now items d) = dp_timers d \<and> dp_completedTasks (drain now items d) = dp_completedTasks d \<and>
   dp_coordinator (drain now items d) = dp_coordinator d \<and> dp_workers (drain now items d) = dp_workers d \<and>
   length (dp_heap (drain now items d)) = length (dp_heap d) \<and>
   (t \<notin> set (map (td_id \<circ> qi_task) items) \<longrightarrow>
      jget (dp_runningTasks (drain now items d)) t = jget (dp_runningTasks d) t \<and>
      jget (dp_pendingTasks (drain now items d)) t = jget (dp_pendingTasks d) t)"
proof (induction items arbitrary: d)
  case (Cons item rest)
  show ?case
  proof (cases "dp_selectWorker (qi_task item) d")
    case (Pair d' r)
    then obtain i where "d' = d\<lparr>dp_roundRobinIndex := i\<rparr>" using selectWorker_state by blast
    with Pair Cons.IH show ?thesis
      by (cases r) (auto simp: dispatchToWorker_def Let_def)
  qed
qed simp

subsection \<open>The order of the queue\<close>

text \<open>Callers dispatch tasks whose id is neither waiting nor running.\<close>

datatype dp_op =
    D_register int string WorkerCapabilities WorkerConfig
  | D_unregister string
  | D_dispatch int TaskDefinition
  | D_cancel string
  | D_strategy DispatchStrategy
  | D_settle nat "string + TaskResult" nat
  | D_resume int nat nat
  | D_delay int nat nat
  | D_timer int nat

fun dp_apply :: "dp_op \<Rightarrow> dispatcher \<Rightarrow> dispatcher" where
  "dp_apply (D_register now i caps c) d = dp_registerWorker now i caps c d"
| "dp_apply (D_unregister i) d = dp_unregisterWorker i d"
| "dp_apply (D_dispatch now t) d = fst (dp_dispatch now t d)"
| "dp_apply (D_cancel i) d = fst (dp_cancel i d)"
| "dp_apply (D_strategy st) d = setStrategy st d"
| "dp_apply (D_settle a r k) d = worker_event 0 a (settleAttempt r k) d"
| "dp_apply (D_resume now a k) d = worker_event now a (resumeExecute now k) d"
| "dp_apply (D_delay now a k) d = worker_event now a (endDelay now k) d"
| "dp_apply (D_timer now i) d = retryTimer now i d"

fun dp_ok :: "dispatcher \<Rightarrow> dp_op \<Rightarrow> bool" where
  "dp_ok d (D_dispatch now t) \<longleftrightarrow> \<not> jhas (dp_pendingTasks d) (td_id t) \<and> \<not> jhas (dp_runningTasks d) (td_id t)"
| "dp_ok d _ \<longleftrightarrow> True"

definition item_id :: "TaskQueueItem \<Rightarrow> string" where
  "item_id item = td_id (qi_task item)"

definition dp_inv :: "dispatcher \<Rightarrow> bool" where
  "dp_inv d \<longleftrightarrow> dp_timers d = [] \<and>
     (\<forall>t. jhas (dp_pendingTasks d) t \<longleftrightarrow> t \<in> set (map item_id (dp_taskQueue d))) \<and>
     (\<forall>t. jhas (dp_pendingTasks d) t \<longrightarrow> \<not> jhas (dp_runningTasks d) t) \<and>
     distinct (map item_id (dp_taskQueue d)) \<and> sorted (map qi_priority (dp_taskQueue d))"

lemma dp_inv_cong:
  assumes "dp_timers d' = dp_timers d" "dp_taskQueue d' = dp_taskQueue d" "dp_pendingTasks d' = dp_pendingTasks d"
    and "\<And>t. jhas (dp_runningTasks d') t \<Longrightarrow> jhas (dp_runningTasks d) t"
  shows "dp_inv d \<Longrightarrow> dp_inv d'"
  using assms(4) unfolding dp_inv_def assms(1-3) by blast

lemma dp_inv_drain:
  "dp_inv d \<Longrightarrow> dp_taskQueue d = items \<Longrightarrow> dp_inv (drain now items d)"
proof (induction items arbitrary: d)
  case Nil
  have "dp_inv (d\<lparr>dp_taskQueue := []\<rparr>)"
    by (rule dp_inv_cong [OF _ _ _ _ Nil(1)]) (simp_all add: Nil(2))
  then show ?case by simp
next
  case (Cons item rest)
  show ?case
  proof (cases "dp_selectWorker (qi_task item) d")
    case (Pair d' r)
    then obtain i where d': "d' = d\<lparr>dp_roundRobinIndex := i\<rparr>" using selectWorker_state by blast
    show ?thesis
    proof (cases r)
      case None
      have "dp_inv (d'\<lparr>dp_taskQueue := item # rest\<rparr>)"
        by (rule dp_inv_cong [OF _ _ _ _ Cons.prems(1)]) (simp_all add: d' Cons.prems(2))
      with Pair None show ?thesis by simp
    next
      case (Some a)
      let ?d = "fst (dispatchToWorker now (qi_task item) a (d'\<lparr>dp_taskQueue := rest\<rparr>))"
      have "dp_inv ?d"
        using Cons.prems unfolding dp_inv_def
        by (auto simp: dispatchToWorker_def Let_def d' item_id_def)
      moreover have "dp_taskQueue ?d = rest" by (simp add: dispatchToWorker_def Let_def)
      ultimately show ?thesis using Pair Some Cons.IH by simp
    qed
  qed
qed

lemma dp_inv_process: "dp_inv d \<Longrightarrow> dp_inv (processQueue now d)"
  by (simp add: processQueue_def dp_inv_drain)

lemma dp_inv_enqueue:
  assumes "dp_inv d" and "\<not> jhas (dp_pendingTasks d) (td_id t)" and "\<not> jhas (dp_runningTasks d) (td_id t)"
  shows "dp_inv (fst (enqueueTask now t d))"
proof -
  define item where "item = \<lparr>qi_task = t, qi_enqueuedAt = now, qi_priority = calculatePriority now t d,
    qi_attempts = 0, qi_lastAttempt = None, qi_error = None\<rparr>"
  let ?after = "\<lambda>existing. qi_priority existing > qi_priority item"
  let ?d = "d\<lparr>dp_pendingTasks := jset (dp_pendingTasks d) (td_id t) item,
    dp_taskQueue := insert_before ?after item (dp_taskQueue d)\<rparr>"
  have iid: "item_id item = td_id t" by (simp add: item_id_def item_def)
  have fresh: "td_id t \<notin> set (map item_id (dp_taskQueue d))" using assms(1,2) by (simp add: dp_inv_def)
  have "mset (takeWhile P xs) + mset (dropWhile P xs) = mset xs" for P and xs :: "TaskQueueItem list"
    by (metis mset_append takeWhile_dropWhile_id)
  then have "mset (insert_before ?after item (dp_taskQueue d)) = add_mset item (mset (dp_taskQueue d))"
    by (simp add: insert_before_split)
  then have perm: "mset (map item_id (insert_before ?after item (dp_taskQueue d))) =
      mset (td_id t # map item_id (dp_taskQueue d))"
    by (simp add: iid)
  have "dp_inv ?d"
    unfolding dp_inv_def
  proof (intro conjI allI)
    show "distinct (map item_id (dp_taskQueue ?d))"
      using mset_eq_imp_distinct_iff [OF perm] assms(1) fresh by (simp add: dp_inv_def)
    show "sorted (map qi_priority (dp_taskQueue ?d))"
      using assms(1) by (auto simp: dp_inv_def intro!: sorted_insert_before)
  qed (use assms iid in \<open>auto simp: dp_inv_def\<close>)
  then show ?thesis by (simp add: enqueueTask_def Let_def item_def dp_inv_process)
qed

lemma dp_inv_dispatch:
  assumes "dp_inv d" and "\<not> jhas (dp_pendingTasks d) (td_id t)" and "\<not> jhas (dp_runningTasks d) (td_id t)"
  shows "dp_inv (fst (dp_dispatch now t d))"
proof (cases "dp_selectWorker t d")
  case (Pair d' r)
  then obtain i where d': "d' = d\<lparr>dp_roundRobinIndex := i\<rparr>" using selectWorker_state by blast
  then have inv: "dp_inv d'" using assms(1) dp_inv_cong [of d' d] by simp
  have "dp_inv (fst (dispatchToWorker now t a d'))" for a
    using inv assms(2,3) d' by (auto simp: dp_inv_def dispatchToWorker_def Let_def)
  with inv assms d' Pair show ?thesis
    by (cases r) (auto simp: dp_dispatch_def intro!: dp_inv_enqueue)
qed

lemma remove_found:
  "find_index (\<lambda>x. f x = k) xs = Some i \<Longrightarrow> distinct (map f xs) \<Longrightarrow> remove_at i xs = filter (\<lambda>x. f x \<noteq> k) xs"
proof (induction xs arbitrary: i)
  case (Cons x xs)
  show ?case
  proof (cases "f x = k")
    case True
    with Cons.prems have "\<forall>y\<in>set xs. f y \<noteq> k" by (metis distinct.simps(2) image_eqI list.set_map list.simps(9))
    with True Cons.prems show ?thesis by (simp add: remove_at_def filter_id_conv)
  next
    case False
    with Cons show ?thesis by (auto simp: remove_at_def)
  qed
qed simp

lemma dp_inv_cancel:
  assumes "dp_inv d"
  shows "dp_inv (fst (dp_cancel i d))"
proof (cases "jget (dp_pendingTasks d) i")
  case None
  have "dp_inv (d\<lparr>dp_heap := h\<rparr>)" for h by (rule dp_inv_cong [OF _ _ _ _ assms]) simp_all
  with None assms show ?thesis by (auto simp: dp_cancel_def split: option.splits prod.splits)
next
  case (Some p)
  with assms have mem: "i \<in> set (map item_id (dp_taskQueue d))" by (auto simp: dp_inv_def)
  then obtain n where n: "find_index (\<lambda>x. item_id x = i) (dp_taskQueue d) = Some n"
    by (cases "find_index (\<lambda>x. item_id x = i) (dp_taskQueue d)") (auto simp: find_index_None)
  have q: "remove_at n (dp_taskQueue d) = filter (\<lambda>x. item_id x \<noteq> i) (dp_taskQueue d)"
    by (rule remove_found [OF n]) (use assms in \<open>simp add: dp_inv_def\<close>)
  have "fst (dp_cancel i d) = d\<lparr>dp_pendingTasks := jdel (dp_pendingTasks d) i,
      dp_taskQueue := filter (\<lambda>x. item_id x \<noteq> i) (dp_taskQueue d)\<rparr>"
    using Some n q by (simp add: dp_cancel_def item_id_def)
  then show ?thesis
    using assms by (auto simp: dp_inv_def distinct_map_filter sorted_filter)
qed

lemma dp_inv_complete: "dp_inv d \<Longrightarrow> dp_inv (handleTaskComplete now r d)"
  unfolding handleTaskComplete_def
  by (intro dp_inv_process) (erule dp_inv_cong [rotated 4], auto split: if_splits)

lemma error_gives_up:
  assumes "dp_inv d" and "jget (dp_runningTasks d) t = Some r"
  shows "handleTaskError now t e d = processQueue now
    (d\<lparr>dp_runningTasks := jdel (dp_runningTasks d) t, dp_coordinator := co_failTask now t e (dp_coordinator d)\<rparr>)"
proof -
  have "jget (dp_pendingTasks d) t = None"
    using assms by (cases "jget (dp_pendingTasks d) t") (auto simp: dp_inv_def dest: spec [of _ t])
  with assms(2) show ?thesis by (simp add: handleTaskError_def Let_def)
qed

lemma dp_inv_error: 
  assumes "dp_inv d"
  shows "dp_inv (handleTaskError now t e d)"
proof (cases "jget (dp_runningTasks d) t")
  case (Some r)
  show ?thesis
    unfolding error_gives_up [OF assms Some]
    by (intro dp_inv_process) (rule dp_inv_cong [OF _ _ _ _ assms], auto split: if_splits)
qed (simp add: handleTaskError_def assms)

lemma dp_inv_call: "dp_inv d \<Longrightarrow> dp_inv (handle_call now c d)"
  by (cases "(now, c, d)" rule: handle_call.cases) (simp_all add: dp_inv_complete dp_inv_error)

lemma dp_inv_event: "dp_inv d \<Longrightarrow> dp_inv (worker_event now a f d)"
proof -
  assume inv: "dp_inv d"
  have "dp_inv (d\<lparr>dp_heap := h\<rparr>)" for h by (rule dp_inv_cong [OF _ _ _ _ inv]) simp_all
  then show ?thesis
    using inv by (auto simp: worker_event_def Let_def intro!: fold_keeps [where P = dp_inv] dp_inv_call)
qed

lemma dp_inv_step: "dp_ok d x \<Longrightarrow> dp_inv d \<Longrightarrow> dp_inv (dp_apply x d)"
proof (cases x)
  case (D_timer now i)
  assume "dp_inv d"
  with D_timer show ?thesis by (simp add: retryTimer_def dp_inv_def)
next
  case (D_register now i caps c)
  assume "dp_inv d"
  with D_register show ?thesis by (auto simp: dp_registerWorker_def dp_inv_def)
next
  case (D_unregister i)
  assume "dp_inv d"
  with D_unregister show ?thesis by (auto simp: dp_unregisterWorker_def dp_inv_def split: option.splits)
next
  case (D_strategy st)
  assume "dp_inv d"
  with D_strategy show ?thesis by (auto simp: setStrategy_def dp_inv_def)
qed (simp_all add: dp_inv_dispatch dp_inv_cancel dp_inv_event)

interpretation dp_machine: guarded_machine dp_ok dp_apply dp_inv
  by unfold_locales (rule dp_inv_step)

lemma dp_inv_new: "dp_inv (new_dispatcher c cfg)"
  by (simp add: new_dispatcher_def dp_inv_def)

definition demo_dispatcher :: "int \<Rightarrow> dispatcher" where
  "demo_dispatcher n = dp_registerWorker 0 ''w'' demo_caps
     (default_worker_config\<lparr>wc_maxConcurrentTasks := n, wc_retryOnFailure := False\<rparr>)
     (new_dispatcher (new_coordinator default_coordinator_config) default_dispatch_config)"

definition demo_queue_ops :: "dp_op list" where
  "demo_queue_ops = [D_register 0 ''w'' demo_caps (default_worker_config\<lparr>wc_maxConcurrentTasks := 1,
       wc_retryOnFailure := False\<rparr>),
     D_dispatch 1 (demo_wtask ''a''), D_dispatch 2 ((demo_wtask ''b'')\<lparr>td_priority := P_urgent\<rparr>),
     D_dispatch 3 ((demo_wtask ''c'')\<lparr>td_priority := P_low\<rparr>)]"

text \<open>C25: Over histories in which callers dispatch ids that are neither waiting nor running, the queue
  holds every waiting task once, ordered by weight with the smallest weight at the head, although urgent
  tasks have the greatest weight: urgent work is served last. Waiting tasks are exactly the queued ones, no
  task waits and runs, and no retry is ever scheduled.\<close>

theorem dispatch_queue_order:
  assumes "legal_run dp_ok dp_apply (new_dispatcher c cfg) xs"
  defines "d \<equiv> fold dp_apply xs (new_dispatcher c cfg)"
  shows "sorted (map qi_priority (dp_taskQueue d)) \<and> distinct (map (\<lambda>x. td_id (qi_task x)) (dp_taskQueue d)) \<and>
    set (jkeys (dp_pendingTasks d)) = set (map (\<lambda>x. td_id (qi_task x)) (dp_taskQueue d)) \<and>
    set (jkeys (dp_pendingTasks d)) \<inter> set (jkeys (dp_runningTasks d)) = {} \<and> dp_timers d = []"
proof -
  have inv: "dp_inv d" unfolding d_def by (rule dp_machine.inv_legal_run [OF assms(1) dp_inv_new])
  have keys: "t \<in> set (jkeys m) \<longleftrightarrow> jhas m t" for t and m :: "(string, 'b) jsmap"
    using jhas_keys [of m t] by blast
  have item: "item_id = (\<lambda>x. td_id (qi_task x))" by (rule ext) (simp add: item_id_def)
  have "set (jkeys (dp_pendingTasks d)) = set (map (\<lambda>x. td_id (qi_task x)) (dp_taskQueue d))"
    using inv unfolding dp_inv_def item by (intro set_eqI) (simp only: keys)
  moreover have "set (jkeys (dp_pendingTasks d)) \<inter> set (jkeys (dp_runningTasks d)) = {}"
    using inv unfolding dp_inv_def disjoint_iff by (simp only: keys) blast
  ultimately show ?thesis using inv unfolding dp_inv_def item by blast
qed

lemma dispatch_queue_order_witness:
  "legal_run dp_ok dp_apply (new_dispatcher (new_coordinator default_coordinator_config) default_dispatch_config) demo_queue_ops \<and>
   (let q = dp_taskQueue (fold dp_apply demo_queue_ops (new_dispatcher (new_coordinator default_coordinator_config) default_dispatch_config))
    in sorted (map qi_priority q) \<and> map (\<lambda>x. td_id (qi_task x)) q = [''c'', ''b''])"
proof -
  have legal: "legal_run dp_ok dp_apply (new_dispatcher (new_coordinator default_coordinator_config) default_dispatch_config) demo_queue_ops"
    by code_simp
  have "map (\<lambda>x. td_id (qi_task x)) (dp_taskQueue (fold dp_apply demo_queue_ops
    (new_dispatcher (new_coordinator default_coordinator_config) default_dispatch_config))) = [''c'', ''b'']"
    by code_simp
  with legal dispatch_queue_order [OF legal] show ?thesis by (simp add: Let_def)
qed

text \<open>A failed task is forgotten: whatever the retry settings, after the error of a running task
  (which has no result) no retry is scheduled, the task neither waits nor runs, and \<open>getStatus\<close> knows nothing
  of it.\<close>

lemma failed_task_forgotten:
  assumes "legal_run dp_ok dp_apply (new_dispatcher c cfg) xs"
    and "d = fold dp_apply xs (new_dispatcher c cfg)"
    and "t \<in> set (dp_getRunningTasks d)" and "getResult t d = None"
  shows "dp_timers (handleTaskError now t e d) = [] \<and> dp_getStatus later t (handleTaskError now t e d) = None"
proof -
  have inv: "dp_inv d" unfolding assms(2) by (rule dp_machine.inv_legal_run [OF assms(1) dp_inv_new])
  from assms(3) have "jhas (dp_runningTasks d) t"
    unfolding dp_getRunningTasks_def using jhas_keys [of "dp_runningTasks d" t] by blast
  then obtain r where r: "jget (dp_runningTasks d) t = Some r" by blast
  with inv have pend: "\<not> jhas (dp_pendingTasks d) t" unfolding dp_inv_def by (metis option.distinct(1))
  with inv have "t \<notin> set (map item_id (dp_taskQueue d))" unfolding dp_inv_def by blast
  then have q: "t \<notin> set (map (td_id \<circ> qi_task) (dp_taskQueue d))" by (auto simp: item_id_def)
  show ?thesis
    using drain_frame [of now "dp_taskQueue d" "d\<lparr>dp_runningTasks := jdel (dp_runningTasks d) t,
        dp_coordinator := co_failTask now t e (dp_coordinator d)\<rparr>" t] q pend assms(4) inv
    unfolding error_gives_up [OF inv r] processQueue_def
    by (simp add: dp_getStatus_def getResult_def dp_inv_def)
qed

lemma failed_task_forgotten_witness:
  "dg_retryEnabled default_dispatch_config \<and>
   dp_getStatus 9 ''a'' (handleTaskError 5 ''a'' ''boom'' (fold dp_apply demo_queue_ops
     (new_dispatcher (new_coordinator default_coordinator_config) default_dispatch_config))) = None"
proof -
  let ?n = "new_dispatcher (new_coordinator default_coordinator_config) default_dispatch_config"
  have legal: "legal_run dp_ok dp_apply ?n demo_queue_ops" by code_simp
  have "''a'' \<in> set (dp_getRunningTasks (fold dp_apply demo_queue_ops ?n))"
    "getResult ''a'' (fold dp_apply demo_queue_ops ?n) = None" by code_simp+
  from failed_task_forgotten [OF legal refl this, of 5 "''boom''" 9] show ?thesis
    by (simp add: default_dispatch_config_def)
qed

subsection \<open>The coordinator behind the dispatcher\<close>

definition co_unused :: "coordinator \<Rightarrow> bool" where
  "co_unused s \<longleftrightarrow> co_assignments s = [] \<and> list_all (\<lambda>w. wi_currentTasks w = 0) (jvals (co_workers s))"

lemma list_all_jset: "list_all p (jvals m) \<Longrightarrow> p v \<Longrightarrow> list_all p (jvals (jset m k v))"
  by (induction m) auto

lemma list_all_jdel: "list_all p (jvals m) \<Longrightarrow> list_all p (jvals (jdel m k))"
  by (induction m) auto

lemma unused_simps [simp]:
  "co_unused s \<Longrightarrow> co_completeTask i r s = s"
  "co_unused s \<Longrightarrow> co_failTask now i e s = s"
  by (simp_all add: co_unused_def co_completeTask_def co_failTask_def)

definition dp_unused :: "dispatcher \<Rightarrow> bool" where
  "dp_unused d \<longleftrightarrow> co_unused (dp_coordinator d)"

lemma unused_process [simp]: "dp_unused (processQueue now d) \<longleftrightarrow> dp_unused d"
  by (simp add: dp_unused_def processQueue_def drain_frame)

lemma unused_call: "dp_unused d \<Longrightarrow> dp_unused (handle_call now c d)"
  by (cases "(now, c, d)" rule: handle_call.cases)
    (auto simp: handleTaskComplete_def handleTaskError_def Let_def dp_unused_def [of "dispatcher.dp_coordinator_update f d" for f d]
      split: option.splits, auto simp: dp_unused_def)

lemma unused_step: "dp_unused d \<Longrightarrow> dp_unused (dp_apply x d)"
proof (cases x)
  case (D_dispatch now t)
  assume u: "dp_unused d"
  show ?thesis
  proof (cases "dp_selectWorker t d")
    case (Pair d' r)
    then obtain i where "d' = d\<lparr>dp_roundRobinIndex := i\<rparr>" using selectWorker_state by blast
    with u Pair show ?thesis
      unfolding D_dispatch by (cases r)
        (auto simp: dp_dispatch_def dispatchToWorker_def enqueueTask_def Let_def dp_unused_def processQueue_def drain_frame)
  qed
next
  case (D_register now i caps c)
  assume "dp_unused d"
  with D_register show ?thesis
    by (simp add: dp_unused_def dp_registerWorker_def co_registerWorker_def co_unused_def list_all_jset)
next
  case (D_unregister i)
  assume "dp_unused d"
  with D_unregister show ?thesis
    by (simp add: dp_unused_def dp_unregisterWorker_def co_unregisterWorker_def co_unused_def list_all_jdel
        split: option.splits)
next
  case (D_cancel i)
  assume "dp_unused d"
  with D_cancel show ?thesis
    by (auto simp: dp_unused_def dp_cancel_def split: option.splits prod.splits)
next
  case (D_timer now i)
  assume "dp_unused d"
  with D_timer show ?thesis by (simp add: retryTimer_def dp_unused_def processQueue_def drain_frame)
qed (auto simp: worker_event_def Let_def setStrategy_def intro!: fold_keeps [where P = dp_unused] unused_call,
  simp_all add: dp_unused_def)

interpretation unused_machine: op_machine dp_apply dp_unused
  by unfold_locales (rule unused_step)

text \<open>The coordinator behind a dispatcher never hears of a task: after any history its books show no
  assignment and no load, \<open>collectResults\<close> finds nothing, and every counter of tasks in its state is zero,
  however many tasks the dispatcher has dispatched, completed or seen fail.\<close>

lemma coordinator_never_informed:
  "let s = dp_coordinator (fold dp_apply xs (new_dispatcher (new_coordinator c) cfg))
   in collectResults i s = [] \<and> cs_totalTasks (co_getState s) = 0 \<and> cs_completedTasks (co_getState s) = 0 \<and>
      cs_failedTasks (co_getState s) = 0 \<and> sum_list (map wi_currentTasks (listWorkers s)) = 0"
proof -
  let ?d = "fold dp_apply xs (new_dispatcher (new_coordinator c) cfg)"
  have "dp_unused (new_dispatcher (new_coordinator c) cfg)"
    by (simp add: dp_unused_def co_unused_def new_dispatcher_def new_coordinator_def)
  then have "dp_unused ?d" by (rule unused_machine.inv_run)
  then have u: "co_assignments (dp_coordinator ?d) = []"
    and loads: "list_all (\<lambda>w. wi_currentTasks w = 0) (listWorkers (dp_coordinator ?d))"
    by (simp_all add: dp_unused_def co_unused_def listWorkers_def)
  have zero: "list_all (\<lambda>w. wi_currentTasks w = 0) ws \<Longrightarrow> sum_list (map wi_currentTasks ws) = 0" for ws
    by (induction ws) auto
  show ?thesis
    using zero [OF loads] u by (simp add: collectResults_def co_getState_def with_status_def Let_def map_filter_simps)
qed

subsection \<open>Workers of a dispatcher\<close>

text \<open>What every step of a worker keeps, the dispatcher keeps of all its workers.\<close>

definition heap_all :: "(worker \<Rightarrow> bool) \<Rightarrow> dispatcher \<Rightarrow> bool" where
  "heap_all P d \<longleftrightarrow> list_all P (dp_heap d)"

lemma list_all_update: "list_all P xs \<Longrightarrow> (a < length xs \<Longrightarrow> P (xs ! a) \<Longrightarrow> P y) \<Longrightarrow> list_all P (xs[a := y])"
  by (cases "a < length xs") (auto simp: list_all_length nth_list_update list_update_beyond)

lemma heap_all_drain:
  assumes "\<And>t w. P w \<Longrightarrow> P (fst (beginExecute now t w))"
  shows "heap_all P d \<Longrightarrow> heap_all P (drain now items d)"
proof (induction items arbitrary: d)
  case (Cons item rest)
  show ?case
  proof (cases "dp_selectWorker (qi_task item) d")
    case (Pair d' r)
    then obtain i where "d' = d\<lparr>dp_roundRobinIndex := i\<rparr>" using selectWorker_state by blast
    with Pair Cons show ?thesis
      by (cases r) (simp_all add: heap_all_def dispatchToWorker_def Let_def list_all_update assms)
  qed
qed (simp add: heap_all_def)

lemma heap_all_call:
  assumes "\<And>t w. P w \<Longrightarrow> P (fst (beginExecute now t w))"
  shows "heap_all P d \<Longrightarrow> heap_all P (handle_call now c d)"
proof -
  assume d: "heap_all P d"
  have "heap_all P (processQueue now d')" if "heap_all P d'" for d'
    using that heap_all_drain [of P now, OF assms] by (simp add: processQueue_def)
  with d show ?thesis
    by (cases "(now, c, d)" rule: handle_call.cases)
      (simp_all add: handleTaskComplete_def handleTaskError_def Let_def heap_all_def split: option.splits)
qed

lemma heap_all_event:
  assumes "\<And>t w. P w \<Longrightarrow> P (fst (beginExecute now t w))" and "\<And>w. P w \<Longrightarrow> P (f w)"
  shows "heap_all P d \<Longrightarrow> heap_all P (worker_event now a f d)"
proof -
  assume d: "heap_all P d"
  then have "heap_all P (d\<lparr>dp_heap := (dp_heap d)[a := f (dp_heap d ! a)]\<rparr>)"
    by (simp add: heap_all_def list_all_update assms(2))
  then show ?thesis
    using d by (auto simp: worker_event_def Let_def intro!: fold_keeps [where P = "heap_all P"]
        heap_all_call [of P now, OF assms(1)])
qed

lemma heap_all_dispatch:
  assumes "\<And>t w. P w \<Longrightarrow> P (fst (beginExecute now t w))"
  shows "heap_all P d \<Longrightarrow> heap_all P (fst (dp_dispatch now t d))"
proof (cases "dp_selectWorker t d")
  case (Pair d' r)
  assume d: "heap_all P d"
  from Pair obtain i where "d' = d\<lparr>dp_roundRobinIndex := i\<rparr>" using selectWorker_state by blast
  with Pair d heap_all_drain [of P now, OF assms] show ?thesis
    by (cases r) (simp_all add: dp_dispatch_def dispatchToWorker_def enqueueTask_def processQueue_def Let_def
        heap_all_def list_all_update assms)
qed

text \<open>Every registered worker is stored under its id. An operation keeps all workers' ids, and a new worker
  gets the next address.\<close>

definition ids_kept :: "dispatcher \<Rightarrow> dispatcher \<Rightarrow> bool" where
  "ids_kept d d' \<longleftrightarrow> map wk_id (dp_heap d') = map wk_id (dp_heap d) \<and> dp_workers d' = dp_workers d"

lemma id_begin [simp]: "wk_id (fst (beginExecute now t w)) = wk_id w"
proof (cases "canAcceptTask w")
  case True
  then obtain v where v: "only_status (openExec now t w) v"
    "same_frame v (fst (beginExecute now t w))"
    using begin_outcome [OF True, of now t] by fastforce
  then show ?thesis by (simp add: same_frame_def only_statusD(5) [OF v(1)])
qed (simp add: beginExecute_def)

lemma same_frame_id: "same_frame w w' \<Longrightarrow> wk_id w' = wk_id w"
  by (simp add: same_frame_def)

lemma id_cancel: "wk_id (fst (wk_cancel i w)) = wk_id w"
proof (cases "jget (wk_abortControllers w) i")
  case (Some k)
  have "only_status (dropTask i (abortExec k w)) (fst (and_then (idle_if_room (dropTask i (abortExec k w)))
      (\<lambda>_ w'. (w', Inr True :: string + bool))))"
    by (rule only_status_and_then) simp_all
  moreover have "wk_id (dropTask i (abortExec k w)) = wk_id w"
    using same_frame_id [of w "abortExec k w"] by (simp add: dropTask_def)
  ultimately show ?thesis using Some only_statusD(5) by (simp add: wk_cancel_def)
qed (simp add: wk_cancel_def)

lemma id_shutdown: "wk_id (fst (wk_shutdown w)) = wk_id w"
proof -
  have "wk_id (fst (setStatus WS_offline w)) = wk_id w" by (rule only_statusD(5)) simp
  moreover have "wk_id (fold abortExec ks v) = wk_id v" for ks v
    by (rule same_frame_id) simp
  ultimately show ?thesis
    unfolding wk_shutdown_def by (intro and_then_keeps [where P = "\<lambda>u. wk_id u = wk_id w"]) simp_all
qed

definition dp_wf :: "dispatcher \<Rightarrow> bool" where
  "dp_wf d \<longleftrightarrow> jwf (dp_workers d) \<and>
     (\<forall>i a. jget (dp_workers d) i = Some a \<longrightarrow> a < length (dp_heap d) \<and> wk_id (dp_heap d ! a) = i)"

lemma dp_wf_kept:
  assumes "ids_kept d d'"
  shows "dp_wf d \<Longrightarrow> dp_wf d'"
proof -
  assume wf: "dp_wf d"
  have len: "length (dp_heap d') = length (dp_heap d)"
    using assms by (metis ids_kept_def length_map)
  have ids: "map wk_id (dp_heap d') = map wk_id (dp_heap d)" using assms by (simp add: ids_kept_def)
  have "wk_id (dp_heap d' ! a) = wk_id (dp_heap d ! a)" if "a < length (dp_heap d)" for a
    using arg_cong [OF ids, of "\<lambda>xs. xs ! a"] that len by simp
  with wf len assms show ?thesis by (simp add: dp_wf_def ids_kept_def)
qed

lemma ids_update: "wk_id y = wk_id (xs ! a) \<Longrightarrow> map wk_id (xs[a := y]) = map wk_id xs"
  by (cases "a < length xs") (simp_all add: map_update list_update_same_conv list_update_beyond)

lemma ids_drain: "map wk_id (dp_heap (drain now items d)) = map wk_id (dp_heap d)"
proof (induction items arbitrary: d)
  case (Cons item rest)
  show ?case
  proof (cases "dp_selectWorker (qi_task item) d")
    case (Pair d' r)
    then obtain i where "d' = d\<lparr>dp_roundRobinIndex := i\<rparr>" using selectWorker_state by blast
    with Pair Cons show ?thesis
      by (cases r) (simp_all add: dispatchToWorker_def Let_def ids_update)
  qed
qed simp

lemma ids_process: "ids_kept d (processQueue now d') \<longleftrightarrow> ids_kept d d'"
  by (simp add: ids_kept_def processQueue_def ids_drain drain_frame)

lemma ids_call: "ids_kept d d' \<Longrightarrow> ids_kept d (handle_call now c d')"
  by (cases "(now, c, d')" rule: handle_call.cases)
    (simp_all add: handleTaskComplete_def handleTaskError_def Let_def ids_process split: option.splits,
     simp_all add: ids_kept_def)

lemma ids_event: "(\<And>w. wk_id (f w) = wk_id w) \<Longrightarrow> ids_kept d (worker_event now a f d)"
  by (auto simp: worker_event_def Let_def intro!: fold_keeps [where P = "ids_kept d"] ids_call)
    (simp_all add: ids_kept_def ids_update)

lemma ids_dispatch: "ids_kept d (fst (dp_dispatch now t d))"
proof (cases "dp_selectWorker t d")
  case (Pair d' r)
  then obtain i where "d' = d\<lparr>dp_roundRobinIndex := i\<rparr>" using selectWorker_state by blast
  with Pair show ?thesis
    by (cases r) (simp_all add: dp_dispatch_def dispatchToWorker_def enqueueTask_def Let_def ids_process,
      simp_all add: ids_kept_def ids_update)
qed

lemma dp_wf_step: "dp_wf d \<Longrightarrow> dp_wf (dp_apply x d)"
proof -
  assume wf: "dp_wf d"
  show ?thesis
  proof (cases x)
    case (D_register now i caps c)
    with wf show ?thesis
      by (fastforce simp: dp_wf_def dp_registerWorker_def nth_append setHandlers_def new_worker_def Let_def
          split: if_splits)
  next
    case (D_unregister i)
    show ?thesis
    proof (cases "jget (dp_workers d) i")
      case (Some a)
      have "dp_wf (d\<lparr>dp_heap := (dp_heap d)[a := fst (wk_shutdown (dp_heap d ! a))]\<rparr>)"
        by (rule dp_wf_kept [OF _ wf]) (simp add: ids_kept_def ids_update id_shutdown)
      then show ?thesis
        using D_unregister Some by (auto simp: dp_unregisterWorker_def dp_wf_def)
    qed (use wf D_unregister in \<open>simp add: dp_unregisterWorker_def\<close>)
  next
    case (D_cancel i)
    have "ids_kept d (fst (dp_cancel i d))"
      by (auto simp: dp_cancel_def ids_kept_def ids_update split: option.splits prod.splits)
        (metis fst_conv id_cancel ids_update)
    with wf D_cancel dp_wf_kept show ?thesis by simp
  next
    case (D_timer now i)
    have "ids_kept d (retryTimer now i d)"
      by (simp add: retryTimer_def ids_process) (simp add: ids_kept_def)
    with wf D_timer dp_wf_kept show ?thesis by simp
  next
    case (D_strategy st)
    with wf show ?thesis by (simp add: setStrategy_def dp_wf_def)
  next
    case (D_dispatch now t)
    with wf dp_wf_kept [OF ids_dispatch] show ?thesis by simp
  next
    case (D_settle a r k)
    have "ids_kept d (worker_event 0 a (settleAttempt r k) d)" by (rule ids_event, rule same_frame_id) simp
    with wf D_settle dp_wf_kept show ?thesis by simp
  next
    case (D_resume now a k)
    have "ids_kept d (worker_event now a (resumeExecute now k) d)" by (rule ids_event, rule same_frame_id) simp
    with wf D_resume dp_wf_kept show ?thesis by simp
  next
    case (D_delay now a k)
    have "ids_kept d (worker_event now a (endDelay now k) d)" by (rule ids_event, rule same_frame_id) simp
    with wf D_delay dp_wf_kept show ?thesis by simp
  qed
qed

interpretation wf_machine: op_machine dp_apply dp_wf
  by unfold_locales (rule dp_wf_step)

lemma dp_wf_new: "dp_wf (new_dispatcher c cfg)"
  by (simp add: dp_wf_def new_dispatcher_def)

lemma begin_current:
  assumes "canAcceptTask w"
  shows "td_id t \<in> set (getCurrentTasks (fst (beginExecute now t w)))"
proof -
  obtain v where v: "only_status (openExec now t w) v" "same_frame v (fst (beginExecute now t w))"
    using begin_outcome [OF assms, of now t] by fastforce
  then have "wk_currentTasks (fst (beginExecute now t w)) = jset (wk_currentTasks w) (td_id t) (length (wk_execs w))"
    by (simp add: same_frame_def only_statusD)
  then show ?thesis by (simp add: getCurrentTasks_def jkeys_jset)
qed

lemma nobody_available: "available d = [] \<Longrightarrow> dp_selectWorker t d = (d, None)"
  by (simp add: dp_selectWorker_def)

lemma no_selection:
  "dp_selectWorker t d = (d', None) \<Longrightarrow> dg_strategy (dp_config d) \<noteq> DG_capability_based \<Longrightarrow>
   d' = d \<and> available d = []"
  by (auto simp: dp_selectWorker_def Let_def split: if_splits DispatchStrategy.splits)

lemma enqueue_unavailable:
  assumes "available d = []"
  shows "td_id t \<in> set (map td_id (dp_getPendingTasks (fst (enqueueTask now t d)))) \<and>
    length (dp_taskQueue (fst (enqueueTask now t d))) = Suc (length (dp_taskQueue d)) \<and>
    dr_status (snd (enqueueTask now t d)) = DR_queued"
proof -
  define item where "item = \<lparr>qi_task = t, qi_enqueuedAt = now, qi_priority = calculatePriority now t d,
    qi_attempts = 0, qi_lastAttempt = None, qi_error = None\<rparr>"
  let ?q = "insert_before (\<lambda>e. qi_priority e > qi_priority item) item (dp_taskQueue d)"
  let ?d = "d\<lparr>dp_pendingTasks := jset (dp_pendingTasks d) (td_id t) item, dp_taskQueue := ?q\<rparr>"
  have "available ?d = []" using assms by (simp add: available_def)
  then have sel: "dp_selectWorker u ?d = (?d, None)" for u by (rule nobody_available)
  have "dp_taskQueue (drain now qs ?d) = qs" for qs
    by (cases qs) (simp_all add: sel)
  then have "dp_taskQueue (processQueue now ?d) = ?q" by (simp add: processQueue_def)
  moreover have "item \<in> set ?q" by simp
  moreover have "length ?q = Suc (length (dp_taskQueue d))"
    by (simp add: insert_before_split) (metis length_append takeWhile_dropWhile_id)
  ultimately show ?thesis
    by (force simp: enqueueTask_def Let_def item_def dp_getPendingTasks_def)
qed

text \<open>What \<open>dispatch\<close> answers is what happened: it rejects exactly when the queue is full, and then
  changes nothing; \<open>dispatched\<close> names a registered worker that could accept the task and now has it, with
  the task among the running ones and the queue untouched; and \<open>queued\<close> (for the strategies that do not
  look at capabilities) means that no registered worker could accept it, and the task is in the queue.\<close>

lemma dispatch_outcome:
  assumes "d = fold dp_apply xs (new_dispatcher c cfg)" and "dp_dispatch now t d = (d', r)"
  shows "(dr_status r = DR_rejected \<longleftrightarrow> dg_maxQueueSize (dp_config d) \<le> int (length (dp_taskQueue d))) \<and>
    (dr_status r = DR_rejected \<longrightarrow> d' = d) \<and>
    (dr_status r = DR_dispatched \<longrightarrow> (\<exists>a. jget (dp_workers d) (dr_workerId r) = Some a \<and>
       canAcceptTask (dp_heap d ! a) \<and> td_id t \<in> set (getCurrentTasks (dp_heap d' ! a)) \<and>
       jget (dp_runningTasks d') (td_id t) = Some \<lparr>rt_workerId = dr_workerId r, rt_startedAt = now\<rparr> \<and>
       dp_taskQueue d' = dp_taskQueue d)) \<and>
    (dr_status r = DR_queued \<and> dg_strategy (dp_config d) \<noteq> DG_capability_based \<longrightarrow>
       (\<forall>i a. jget (dp_workers d) i = Some a \<longrightarrow> \<not> canAcceptTask (dp_heap d ! a)) \<and>
       td_id t \<in> set (map td_id (dp_getPendingTasks d')))"
proof (cases "dg_maxQueueSize (dp_config d) \<le> int (length (dp_taskQueue d))")
  case True
  with assms(2) show ?thesis by (auto simp: dp_dispatch_def)
next
  case room: False
  have wf: "dp_wf d" unfolding assms(1) by (rule wf_machine.inv_run [OF dp_wf_new])
  show ?thesis
  proof (cases "dp_selectWorker t d")
    case (Pair d1 s)
    then obtain i where d1: "d1 = d\<lparr>dp_roundRobinIndex := i\<rparr>" using selectWorker_state by blast
    show ?thesis
    proof (cases s)
      case None
      have out: "(d', r) = enqueueTask now t d1" using assms(2) room Pair None by (simp add: dp_dispatch_def)
      have st: "dr_status r = DR_queued" using arg_cong [OF out, of snd] by (simp add: enqueueTask_def Let_def)
      have "(\<forall>i a. jget (dp_workers d) i = Some a \<longrightarrow> \<not> canAcceptTask (dp_heap d ! a)) \<and>
          td_id t \<in> set (map td_id (dp_getPendingTasks d'))" if "dg_strategy (dp_config d) \<noteq> DG_capability_based"
      proof -
        from no_selection [OF Pair [unfolded None] that] have av: "d1 = d" "available d = []" by auto
        then have "\<not> canAcceptTask (dp_heap d ! a)" if "jget (dp_workers d) i = Some a" for i a
          using map_of_SomeD [OF that] by (force simp: available_def filter_empty_conv)
        moreover have "d' = fst (enqueueTask now t d)" using out av(1) by (metis fst_conv)
        ultimately show ?thesis using enqueue_unavailable [OF av(2)] by blast
      qed
      with st room show ?thesis by simp
    next
      case (Some a)
      from selected_accepts [OF Pair [unfolded Some]] obtain i where acc: "canAcceptTask (dp_heap d ! a)"
        and "(i, a) \<in> set (dp_workers d)" by blast
      with wf have i: "jget (dp_workers d) i = Some a" "a < length (dp_heap d)" "wk_id (dp_heap d ! a) = i"
        unfolding dp_wf_def using jget_mem [of "dp_workers d" i a] by blast+
      have "(d', r) = dispatchToWorker now t a d1" using assms(2) room Pair Some by (simp add: dp_dispatch_def)
      with i acc begin_current [OF acc, of t now] room show ?thesis
        by (simp add: dispatchToWorker_def Let_def d1)
    qed
  qed
qed

lemma dispatch_outcome_witness:
  "dr_status (snd (dp_dispatch 5 (demo_wtask ''z'') (fold dp_apply demo_queue_ops
     (new_dispatcher (new_coordinator default_coordinator_config) default_dispatch_config)))) = DR_queued \<and>
   ''z'' \<in> set (map td_id (dp_getPendingTasks (fst (dp_dispatch 5 (demo_wtask ''z'') (fold dp_apply demo_queue_ops
     (new_dispatcher (new_coordinator default_coordinator_config) default_dispatch_config))))))"
proof -
  let ?d = "fold dp_apply demo_queue_ops (new_dispatcher (new_coordinator default_coordinator_config) default_dispatch_config)"
  let ?p = "dp_dispatch 5 (demo_wtask ''z'') ?d"
  have st: "dr_status (snd ?p) = DR_queued" by code_simp
  have "dg_strategy (dp_config ?d) \<noteq> DG_capability_based" by code_simp
  with dispatch_outcome [OF refl, of 5 "demo_wtask ''z''" demo_queue_ops "new_coordinator default_coordinator_config"
      default_dispatch_config "fst ?p" "snd ?p"] st show ?thesis by (simp add: demo_wtask_def)
qed

subsection \<open>Starvation\<close>

definition holds_slots :: "worker \<Rightarrow> bool" where
  "holds_slots w \<longleftrightarrow> slots_held (wc_maxConcurrentTasks (wk_config w)) w"

lemma holds_slots_step:
  "slots_held (wc_maxConcurrentTasks (wk_config w)) w' \<Longrightarrow> holds_slots w'"
  by (simp add: holds_slots_def slots_held_def)

fun no_release :: "dp_op \<Rightarrow> bool" where
  "no_release (D_cancel i) = False"
| "no_release (D_unregister i) = False"
| "no_release _ = True"

lemma slots_apply:
  assumes "no_release x" and "heap_all holds_slots d"
  shows "heap_all holds_slots (dp_apply x d)"
proof -
  have start: "holds_slots w \<Longrightarrow> holds_slots (fst (beginExecute now t w))" for w now t
    by (rule holds_slots_step [of w]) (simp add: slots_begin holds_slots_def)
  have frame: "holds_slots w \<Longrightarrow> same_frame w w' \<Longrightarrow> holds_slots w'" for w w'
    by (rule holds_slots_step [of w]) (simp add: slots_frame holds_slots_def)
  show ?thesis
  proof (cases x)
    case (D_register now i caps c)
    have "holds_slots (setHandlers dispatcher_handlers (new_worker now i c caps))"
      by (simp add: holds_slots_def slots_held_def task_ids_def setHandlers_def new_worker_def Let_def)
    with assms D_register show ?thesis by (simp add: heap_all_def dp_registerWorker_def)
  next
    case (D_dispatch now t)
    with heap_all_dispatch [of holds_slots now] start assms(2) show ?thesis by simp
  next
    case (D_settle a r k)
    with heap_all_event [of holds_slots 0 "settleAttempt r k"] start frame assms(2) show ?thesis by simp
  next
    case (D_resume now a k)
    with heap_all_event [of holds_slots now "resumeExecute now k"] start frame assms(2) show ?thesis by simp
  next
    case (D_delay now a k)
    with heap_all_event [of holds_slots now "endDelay now k"] start frame assms(2) show ?thesis by simp
  next
    case (D_timer now i)
    with heap_all_drain [of holds_slots now] start assms(2) show ?thesis
      by (simp add: retryTimer_def processQueue_def heap_all_def)
  qed (use assms in \<open>auto simp: heap_all_def setStrategy_def\<close>)
qed

interpretation starve_machine: guarded_machine "\<lambda>_. no_release" dp_apply "heap_all holds_slots"
  by unfold_locales (rule slots_apply)

text \<open>C26: A dispatcher starves: without cancellations and removals of workers, once every registered worker
  has been given as many different tasks as it may run at the same time, finished or not, no further task
  is ever dispatched; it is queued or rejected.\<close>

theorem dispatcher_starves:
  assumes "legal_run (\<lambda>_. no_release) dp_apply (new_dispatcher c cfg) xs"
    and "d = fold dp_apply xs (new_dispatcher c cfg)"
    and "\<forall>(i, a)\<in>set (dp_workers d). wc_maxConcurrentTasks (wk_config (dp_heap d ! a)) \<le>
      int (card (set (map (td_id \<circ> wx_task) (wk_execs (dp_heap d ! a)))))"
  shows "dr_status (snd (dp_dispatch now t d)) = DR_rejected \<or>
    (dr_status (snd (dp_dispatch now t d)) = DR_queued \<and>
     length (dp_taskQueue (fst (dp_dispatch now t d))) = Suc (length (dp_taskQueue d)))"
proof -
  have wf: "dp_wf d" unfolding assms(2) by (rule wf_machine.inv_run [OF dp_wf_new])
  have "heap_all holds_slots d"
    unfolding assms(2) by (rule starve_machine.inv_legal_run [OF assms(1)]) (simp add: heap_all_def new_dispatcher_def)
  then have slots: "holds_slots (dp_heap d ! a)" if "a < length (dp_heap d)" for a
    using that by (simp add: heap_all_def list_all_length)
  have "\<not> canAcceptTask (dp_heap d ! a)" if "(i, a) \<in> set (dp_workers d)" for i a
  proof -
    let ?w = "dp_heap d ! a"
    from that wf have "a < length (dp_heap d)"
      unfolding dp_wf_def using jget_mem [of "dp_workers d" i a] by blast
    from slots [OF this] have held: "slots_held (wc_maxConcurrentTasks (wk_config ?w)) ?w" by (simp add: holds_slots_def)
    then have "length (wk_currentTasks ?w) = card (task_ids ?w)"
      unfolding slots_held_def jwf_def by (metis distinct_card length_map)
    with assms(3) that show ?thesis by (fastforce simp: canAcceptTask_def task_ids_def)
  qed
  then have av: "available d = []" by (auto simp: available_def filter_empty_conv)
  show ?thesis
    using enqueue_unavailable [OF av, of t now] nobody_available [OF av, of t] by (simp add: dp_dispatch_def)
qed

definition demo_starve_ops :: "dp_op list" where
  "demo_starve_ops = [D_register 0 ''w'' demo_caps (default_worker_config\<lparr>wc_maxConcurrentTasks := 1\<rparr>),
     D_dispatch 1 (demo_wtask ''a''), D_settle 0 (Inr (demo_wresult ''a'')) 0, D_resume 6 0 0]"

lemma dispatcher_starves_witness:
  "dp_getRunningTasks (fold dp_apply demo_starve_ops
     (new_dispatcher (new_coordinator default_coordinator_config) default_dispatch_config)) = [] \<and>
   length (dp_taskQueue (fst (dp_dispatch 9 (demo_wtask ''b'') (fold dp_apply demo_starve_ops
     (new_dispatcher (new_coordinator default_coordinator_config) default_dispatch_config))))) = 1"
proof -
  let ?n = "new_dispatcher (new_coordinator default_coordinator_config) default_dispatch_config"
  let ?d = "fold dp_apply demo_starve_ops ?n"
  have legal: "legal_run (\<lambda>_. no_release) dp_apply ?n demo_starve_ops" by (simp add: demo_starve_ops_def)
  have w: "dp_workers ?d = [(''w'', 0)]" "wc_maxConcurrentTasks (wk_config (dp_heap ?d ! 0)) = 1"
    "map (td_id \<circ> wx_task) (wk_execs (dp_heap ?d ! 0)) = [''a'']" "dp_taskQueue ?d = []"
    "dp_getRunningTasks ?d = []" "dr_status (snd (dp_dispatch 9 (demo_wtask ''b'') ?d)) = DR_queued"
    by code_simp+
  have "\<forall>(i, a)\<in>set (dp_workers ?d). wc_maxConcurrentTasks (wk_config (dp_heap ?d ! a)) \<le>
      int (card (set (map (td_id \<circ> wx_task) (wk_execs (dp_heap ?d ! a)))))"
    using w(1-3) by (simp del: set_map)
  from dispatcher_starves [OF legal refl this, of 9 "demo_wtask ''b''"] w show ?thesis by simp
qed

text \<open>A batch is dispatched most urgent first, task by task.\<close>

lemma dispatchBatch_states:
  "fst (dispatchBatch now ts d) = fold (\<lambda>t d. fst (dp_dispatch now t d)) (sortTasksByPriority ts) d \<and>
   map dr_taskId (snd (dispatchBatch now ts d)) = map td_id (sortTasksByPriority ts)"
proof -
  have tid: "dr_taskId (snd (dp_dispatch now t d)) = td_id t" for t d
    by (auto simp: dp_dispatch_def dispatchToWorker_def enqueueTask_def Let_def split: prod.splits option.splits)
  let ?step = "\<lambda>task (d, results). let (d', r) = dp_dispatch now task d in (d', results @ [r])"
  have loop: "fst (fold ?step ss p) = fold (\<lambda>t d. fst (dp_dispatch now t d)) ss (fst p) \<and>
    map dr_taskId (snd (fold ?step ss p)) = map dr_taskId (snd p) @ map td_id ss" for ss p
    by (induction ss arbitrary: p) (auto simp: case_prod_beta Let_def tid)
  show ?thesis
    using loop [of "sortTasksByPriority ts" "(d, [])"] by (simp add: dispatchBatch_def)
qed

end
