(* ===== verification/ResultCollector.thy ===== *)
theory ResultCollector
  imports OrchTypes
begin

text \<open>
  The result collector (\<open>src/src/orchestrator/dispatcher.ts\<close>, class \<open>ResultCollector\<close>). A promise that
  \<open>waitFor\<close> or \<open>waitForAll\<close> returns is an entry of \<open>rc_waiters\<close>, with the local variables of its
  callbacks; the map \<open>callbacks\<close> holds, for a task id, the entry whose callback is registered. A timer
  fires, when the environment says so, unless the promise was resolved before. The map that \<open>waitForAll\<close>
  resolves with is \<open>rw_results\<close>.
\<close>

datatype waiter_state = Waiting | Resolved | Rejected string

datatype waiter_kind = ForOne string | ForAll

record waiter =
  rw_kind :: waiter_kind
  rw_results :: "(string, TaskResult) jsmap"
  rw_pending :: "string list"
  rw_completed :: nat
  rw_total :: nat
  rw_timer :: bool
  rw_state :: waiter_state

record result_collector =
  rc_results :: "(string, TaskResult) jsmap"
  rc_partialResults :: "(string, TaskResult list) jsmap"
  rc_callbacks :: "(string, nat) jsmap"
  rc_waiters :: "waiter list"

definition new_result_collector :: result_collector where
  "new_result_collector = \<lparr>rc_results = [], rc_partialResults = [], rc_callbacks = [], rc_waiters = []\<rparr>"

definition has_timeout :: "int option \<Rightarrow> bool" where
  "has_timeout timeout = (case timeout of Some t \<Rightarrow> t \<noteq> 0 | None \<Rightarrow> False)"

text \<open>\<open>resolve\<close> and \<open>reject\<close> have no effect on a promise that is settled.\<close>

definition settle_waiter :: "waiter_state \<Rightarrow> waiter \<Rightarrow> waiter" where
  "settle_waiter st w = (if rw_state w = Waiting then w\<lparr>rw_state := st\<rparr> else w)"

text \<open>The callbacks that \<open>waitFor\<close> and \<open>waitForAll\<close> register.\<close>

definition run_callback :: "string \<Rightarrow> TaskResult \<Rightarrow> waiter \<Rightarrow> waiter" where
  "run_callback taskId result w =
     (case rw_kind w of
        ForOne i \<Rightarrow>
          (if rw_state w = Waiting then w\<lparr>rw_results := [(i, result)], rw_state := Resolved, rw_timer := False\<rparr> else w)
      | ForAll \<Rightarrow>
          (let w' = w\<lparr>rw_results := jset (rw_results w) taskId result, rw_completed := rw_completed w + 1\<rparr>
           in if rw_completed w' = rw_total w'
              then (settle_waiter Resolved w')\<lparr>rw_timer := False\<rparr> else w'))"

definition rc_collect :: "TaskResult \<Rightarrow> result_collector \<Rightarrow> result_collector" where
  "rc_collect result s =
     (let s = s\<lparr>rc_results := jset (rc_results s) (r_taskId result) result\<rparr>
      in case jget (rc_callbacks s) (r_taskId result) of
           None \<Rightarrow> s
         | Some k \<Rightarrow>
             s\<lparr>rc_waiters := (rc_waiters s)[k := run_callback (r_taskId result) result (rc_waiters s ! k)],
               rc_callbacks := jdel (rc_callbacks s) (r_taskId result)\<rparr>)"

definition collectPartial :: "string \<Rightarrow> TaskResult \<Rightarrow> result_collector \<Rightarrow> result_collector" where
  "collectPartial parentTaskId result s =
     (let existing = (case jget (rc_partialResults s) parentTaskId of Some rs \<Rightarrow> rs | None \<Rightarrow> [])
      in s\<lparr>rc_partialResults := jset (rc_partialResults s) parentTaskId (existing @ [result])\<rparr>)"

definition rc_get :: "string \<Rightarrow> result_collector \<Rightarrow> TaskResult option" where
  "rc_get taskId s = jget (rc_results s) taskId"

definition getPartial :: "string \<Rightarrow> result_collector \<Rightarrow> TaskResult list" where
  "getPartial parentTaskId s =
     (case jget (rc_partialResults s) parentTaskId of Some rs \<Rightarrow> rs | None \<Rightarrow> [])"

definition rc_getAll :: "result_collector \<Rightarrow> (string, TaskResult) jsmap" where
  "rc_getAll s = rc_results s"

definition rc_waitFor :: "string \<Rightarrow> int option \<Rightarrow> result_collector \<Rightarrow> result_collector" where
  "rc_waitFor taskId timeout s =
     (case jget (rc_results s) taskId of
        Some existing \<Rightarrow>
          s\<lparr>rc_waiters := rc_waiters s @ [\<lparr>rw_kind = ForOne taskId, rw_results = [(taskId, existing)],
              rw_pending = [], rw_completed = 0, rw_total = 0, rw_timer = False, rw_state = Resolved\<rparr>]\<rparr>
      | None \<Rightarrow>
          s\<lparr>rc_waiters := rc_waiters s @ [\<lparr>rw_kind = ForOne taskId, rw_results = [], rw_pending = [],
              rw_completed = 0, rw_total = 0, rw_timer = has_timeout timeout, rw_state = Waiting\<rparr>],
            rc_callbacks := jset (rc_callbacks s) taskId (length (rc_waiters s))\<rparr>)"

definition existing_results :: "string list \<Rightarrow> result_collector \<Rightarrow> (string, TaskResult) jsmap" where
  "existing_results taskIds s =
     fold (\<lambda>i m. case jget (rc_results s) i of Some r \<Rightarrow> jset m i r | None \<Rightarrow> m) taskIds []"

definition pending_ids :: "string list \<Rightarrow> result_collector \<Rightarrow> string list" where
  "pending_ids taskIds s = filter (\<lambda>i. jget (rc_results s) i = None) (rev (remdups (rev taskIds)))"

definition rc_waitForAll :: "string list \<Rightarrow> int option \<Rightarrow> result_collector \<Rightarrow> result_collector" where
  "rc_waitForAll taskIds timeout s =
     (let results = existing_results taskIds s;
          pending = pending_ids taskIds s;
          w = \<lparr>rw_kind = ForAll, rw_results = results, rw_pending = pending,
               rw_completed = length results, rw_total = length taskIds,
               rw_timer = has_timeout timeout, rw_state = Waiting\<rparr>
      in if pending = []
         then s\<lparr>rc_waiters := rc_waiters s @ [w\<lparr>rw_timer := False, rw_state := Resolved\<rparr>]\<rparr>
         else s\<lparr>rc_waiters := rc_waiters s @ [w],
                rc_callbacks := fold (\<lambda>i m. jset m i (length (rc_waiters s))) pending (rc_callbacks s)\<rparr>)"

fun join_ids :: "string list \<Rightarrow> string" where
  "join_ids [] = []"
| "join_ids [i] = i"
| "join_ids (i # ids) = i @ '', '' @ join_ids ids"

text \<open>The timer of the promise \<open>k\<close> fires.\<close>

definition waiter_timeout :: "nat \<Rightarrow> result_collector \<Rightarrow> result_collector" where
  "waiter_timeout k s =
     (if k < length (rc_waiters s) \<and> rw_timer (rc_waiters s ! k)
      then let w = rc_waiters s ! k
           in case rw_kind w of
                ForOne taskId \<Rightarrow>
                  s\<lparr>rc_callbacks := jdel (rc_callbacks s) taskId,
                    rc_waiters := (rc_waiters s)[k :=
                      (settle_waiter (Rejected (''Timeout waiting for task '' @ taskId)) w)\<lparr>rw_timer := False\<rparr>]\<rparr>
              | ForAll \<Rightarrow>
                  s\<lparr>rc_waiters := (rc_waiters s)[k :=
                      (settle_waiter (Rejected (''Timeout waiting for tasks: '' @ join_ids (rw_pending w))) w)
                        \<lparr>rw_timer := False\<rparr>]\<rparr>
      else s)"

definition rc_clear :: "string option \<Rightarrow> result_collector \<Rightarrow> result_collector" where
  "rc_clear taskId s =
     (case taskId of
        Some i \<Rightarrow>
          (if i = [] then s\<lparr>rc_results := [], rc_partialResults := [], rc_callbacks := []\<rparr>
           else s\<lparr>rc_results := jdel (rc_results s) i, rc_partialResults := jdel (rc_partialResults s) i,
                  rc_callbacks := jdel (rc_callbacks s) i\<rparr>)
      | None \<Rightarrow> s\<lparr>rc_results := [], rc_partialResults := [], rc_callbacks := []\<rparr>)"

record collector_stats =
  cl_total :: nat
  cl_completed :: nat
  cl_failed :: nat
  cl_partial :: nat

definition rc_stats :: "result_collector \<Rightarrow> collector_stats" where
  "rc_stats s =
     \<lparr>cl_total = length (rc_results s),
      cl_completed = length (filter (\<lambda>r. r_status r = T_completed) (jvals (rc_results s))),
      cl_failed = length (filter (\<lambda>r. r_status r = T_failed) (jvals (rc_results s))),
      cl_partial = length (rc_partialResults s)\<rparr>"

subsection \<open>Who is waiting\<close>

datatype rc_op =
    R_collect TaskResult
  | R_partial string TaskResult
  | R_waitFor string "int option"
  | R_waitForAll "string list" "int option"
  | R_timeout nat
  | R_clear "string option"

fun rc_apply :: "rc_op \<Rightarrow> result_collector \<Rightarrow> result_collector" where
  "rc_apply (R_collect r) s = rc_collect r s"
| "rc_apply (R_partial i r) s = collectPartial i r s"
| "rc_apply (R_waitFor i t) s = rc_waitFor i t s"
| "rc_apply (R_waitForAll is t) s = rc_waitForAll is t s"
| "rc_apply (R_timeout k) s = waiter_timeout k s"
| "rc_apply (R_clear i) s = rc_clear i s"

text \<open>A waiter without a registered callback stays unresolved.\<close>

definition orphan :: "nat \<Rightarrow> result_collector \<Rightarrow> bool" where
  "orphan k s \<longleftrightarrow> k < length (rc_waiters s) \<and> rw_state (rc_waiters s ! k) \<noteq> Resolved \<and>
     (\<forall>i. jget (rc_callbacks s) i \<noteq> Some k)"

lemma callbacks_fold:
  "jget (fold (\<lambda>i m. jset m i n) is m) j = (if j \<in> set is then Some n else jget m j)"
  by (induction "is" arbitrary: m) auto

lemma settle_not_resolved:
  "rw_state w \<noteq> Resolved \<Longrightarrow> st \<noteq> Resolved \<Longrightarrow> rw_state (settle_waiter st w) \<noteq> Resolved"
  by (simp add: settle_waiter_def)

lemma orphan_step: "orphan k s \<Longrightarrow> orphan k (rc_apply x s)"
proof (cases x)
  case (R_collect r)
  assume o': "orphan k s"
  then have "jget (rc_callbacks s) (r_taskId r) = Some j \<Longrightarrow> j \<noteq> k" for j by (auto simp: orphan_def)
  with o' R_collect show ?thesis
    by (auto simp: orphan_def rc_collect_def Let_def split: option.splits)
next
  case (R_timeout j)
  assume "orphan k s"
  with R_timeout show ?thesis
    by (cases "j = k")
      (auto simp: orphan_def waiter_timeout_def Let_def settle_not_resolved split: waiter_kind.splits)
next
  case (R_waitFor i t)
  assume "orphan k s"
  with R_waitFor show ?thesis
    by (auto simp: orphan_def rc_waitFor_def nth_append split: option.splits)
next
  case (R_waitForAll "is" t)
  assume "orphan k s"
  with R_waitForAll show ?thesis
    by (auto simp: orphan_def rc_waitForAll_def Let_def nth_append callbacks_fold)
next
  case (R_clear i)
  assume "orphan k s"
  with R_clear show ?thesis
    by (auto simp: orphan_def rc_clear_def split: option.splits)
qed (simp add: orphan_def collectPartial_def Let_def)

interpretation orphan_machine: op_machine rc_apply "orphan k" for k
  by unfold_locales (rule orphan_step)

text \<open>What \<open>waitFor\<close> promises: the result that is there, or the one collected next while its callback is the
  registered one.\<close>

lemma waitFor_existing:
  "rc_get i s = Some r \<Longrightarrow> rw_state (last (rc_waiters (rc_waitFor i t s))) = Resolved \<and>
     rw_results (last (rc_waiters (rc_waitFor i t s))) = [(i, r)]"
  by (simp add: rc_waitFor_def rc_get_def)

lemma collect_resolves:
  assumes "jget (rc_callbacks s) (r_taskId r) = Some k" and "k < length (rc_waiters s)"
    and "rw_kind (rc_waiters s ! k) = ForOne i" and "rw_state (rc_waiters s ! k) = Waiting"
  shows "rw_state (rc_waiters (rc_collect r s) ! k) = Resolved \<and>
    rw_results (rc_waiters (rc_collect r s) ! k) = [(i, r)] \<and> rc_get (r_taskId r) (rc_collect r s) = Some r"
  using assms by (simp add: rc_collect_def run_callback_def rc_get_def)

text \<open>A second waiter displaces the first: when a task without a result is waited for again, the
  promise of the waiter whose callback was registered never resolves, whatever is collected afterwards;
  at best its timeout rejects it.\<close>

lemma displaced_waiter_never_resolves:
  assumes "jget (rc_callbacks s) i = Some k" and "rc_get i s = None" and "k < length (rc_waiters s)"
    and "rw_state (rc_waiters s ! k) = Waiting"
    and "\<forall>j. j \<noteq> i \<longrightarrow> jget (rc_callbacks s) j \<noteq> Some k"
  shows "rw_state (rc_waiters (fold rc_apply xs (rc_waitFor i t s)) ! k) \<noteq> Resolved"
proof -
  have "orphan k (rc_waitFor i t s)"
    using assms by (auto simp: orphan_def rc_waitFor_def rc_get_def nth_append)
  then have "orphan k (fold rc_apply xs (rc_waitFor i t s))" by (rule orphan_machine.inv_run)
  then show ?thesis by (simp add: orphan_def)
qed

definition demo_rc_result :: "string \<Rightarrow> TaskResult" where
  "demo_rc_result i = \<lparr>r_taskId = i, r_agentId = ''w'', r_status = T_completed, r_output = JNull,
     r_error = None, r_duration = 5, r_tokenUsage = None\<rparr>"

lemma displaced_waiter_never_resolves_witness:
  "let s = fold rc_apply [R_waitFor ''t'' None, R_waitFor ''t'' None, R_collect (demo_rc_result ''t'')] new_result_collector
   in rw_state (rc_waiters s ! 0) \<noteq> Resolved \<and> rw_state (rc_waiters s ! 1) = Resolved"
proof -
  let ?s = "rc_waitFor ''t'' None new_result_collector"
  have "jget (rc_callbacks ?s) ''t'' = Some 0" "rc_get ''t'' ?s = None" "0 < length (rc_waiters ?s)"
    "rw_state (rc_waiters ?s ! 0) = Waiting" "\<forall>j. j \<noteq> ''t'' \<longrightarrow> jget (rc_callbacks ?s) j \<noteq> Some 0"
    by (simp_all add: rc_waitFor_def new_result_collector_def rc_get_def)
  from displaced_waiter_never_resolves [OF this, of "[R_collect (demo_rc_result ''t'')]" None]
  have "rw_state (rc_waiters (fold rc_apply [R_waitFor ''t'' None, R_waitFor ''t'' None,
      R_collect (demo_rc_result ''t'')] new_result_collector) ! 0) \<noteq> Resolved" by simp
  moreover have "rw_state (rc_waiters (fold rc_apply [R_waitFor ''t'' None, R_waitFor ''t'' None,
      R_collect (demo_rc_result ''t'')] new_result_collector) ! 1) = Resolved" by code_simp
  ultimately show ?thesis by (simp add: Let_def)
qed

subsection \<open>Waiting for several tasks\<close>

definition rc_wf :: "result_collector \<Rightarrow> bool" where
  "rc_wf s \<longleftrightarrow> (\<forall>i k. jget (rc_callbacks s) i = Some k \<longrightarrow> k < length (rc_waiters s))"

lemma rc_wf_step: "rc_wf s \<Longrightarrow> rc_wf (rc_apply x s)"
proof (cases x)
  case (R_collect r)
  assume "rc_wf s"
  with R_collect show ?thesis
    by (auto simp: rc_wf_def rc_collect_def Let_def split: option.splits if_splits)
next
  case (R_waitForAll "is" t)
  assume wf: "rc_wf s"
  show ?thesis
    unfolding rc_wf_def
  proof (intro allI impI)
    fix i k
    assume "jget (rc_callbacks (rc_apply x s)) i = Some k"
    then have "k = length (rc_waiters s) \<and> pending_ids is s \<noteq> [] \<or> jget (rc_callbacks s) i = Some k"
      using R_waitForAll by (auto simp: rc_waitForAll_def Let_def callbacks_fold split: if_splits)
    with wf R_waitForAll show "k < length (rc_waiters (rc_apply x s))"
      by (auto simp: rc_wf_def rc_waitForAll_def Let_def less_Suc_eq)
  qed
next
  case (R_waitFor i t)
  assume "rc_wf s"
  with R_waitFor show ?thesis
    by (auto simp: rc_wf_def rc_waitFor_def less_Suc_eq split: option.splits if_splits)
next
  case (R_timeout j)
  assume "rc_wf s"
  with R_timeout show ?thesis
    by (auto simp: rc_wf_def waiter_timeout_def Let_def split: waiter_kind.splits if_splits)
next
  case (R_clear i)
  assume "rc_wf s"
  with R_clear show ?thesis
    by (auto simp: rc_wf_def rc_clear_def split: option.splits if_splits)
qed (simp add: rc_wf_def collectPartial_def Let_def)

interpretation rc_machine: op_machine rc_apply rc_wf
  by unfold_locales (rule rc_wf_step)

lemma rc_wf_new: "rc_wf new_result_collector"
  by (simp add: rc_wf_def new_result_collector_def)

lemma jget_existing:
  "jget (fold (\<lambda>i m. case jget (rc_results s) i of Some r \<Rightarrow> jset m i r | None \<Rightarrow> m) is m) j =
   (if j \<in> set is \<and> jget (rc_results s) j \<noteq> None then jget (rc_results s) j else jget m j)"
  by (induction "is" arbitrary: m) (auto split: option.splits)

lemma jwf_existing:
  "jwf m \<Longrightarrow> jwf (fold (\<lambda>i m. case jget (rc_results s) i of Some r \<Rightarrow> jset m i r | None \<Rightarrow> m) is m)"
  by (induction "is" arbitrary: m) (auto split: option.splits)

lemma existing_spec:
  "jwf (existing_results is s)"
  "jget (existing_results is s) j = (if j \<in> set is then rc_get j s else None)"
  by (auto simp: existing_results_def jwf_existing jget_existing rc_get_def)

lemma set_pending: "set (pending_ids is s) = {i \<in> set is. rc_get i s = None}"
  by (auto simp: pending_ids_def rc_get_def)

lemma length_jwf: "jwf m \<Longrightarrow> length m = card {i. jhas m i}"
proof -
  assume "jwf m"
  then have "length m = card (set (jkeys m))" by (metis distinct_card jwf_def length_map)
  moreover have "set (jkeys m) = {i. jhas m i}" using jhas_keys [of m] by blast
  ultimately show ?thesis by simp
qed

text \<open>The waiter \<open>k\<close> after results \<open>rs\<close> were collected.\<close>

definition all_progress ::
  "result_collector \<Rightarrow> string list \<Rightarrow> nat \<Rightarrow> TaskResult list \<Rightarrow> result_collector \<Rightarrow> bool" where
  "all_progress s0 ids k rs s \<longleftrightarrow> k < length (rc_waiters s) \<and>
     (let w = rc_waiters s ! k
      in rw_kind w = ForAll \<and> rw_total w = length ids \<and> jwf (rw_results w) \<and>
         rw_completed w = length (rw_results w) \<and>
         (\<forall>i. jget (rc_callbacks s) i = Some k \<longleftrightarrow> i \<in> set (pending_ids ids s0) \<and> i \<notin> r_taskId ` set rs) \<and>
         (\<forall>i. jget (rw_results w) i = (if i \<in> set ids
            then case rc_get i s0 of Some r \<Rightarrow> Some r | None \<Rightarrow> find (\<lambda>r. r_taskId r = i) rs else None)) \<and>
         rw_state w = (if set (pending_ids ids s0) \<subseteq> r_taskId ` set rs then Resolved else Waiting))"

lemma find_snoc:
  "find P (rs @ [r]) = (case find P rs of Some x \<Rightarrow> Some x | None \<Rightarrow> if P r then Some r else None)"
  by (induction rs) auto

lemma find_id: "find (\<lambda>r. r_taskId r = i) rs = None \<longleftrightarrow> i \<notin> r_taskId ` set rs"
  by (auto simp: find_None_iff)

lemma all_progress_collect:
  assumes inv: "all_progress s0 ids k rs s" and dist: "distinct ids"
  shows "all_progress s0 ids k (rs @ [r]) (rc_collect r s)"
proof -
  let ?t = "r_taskId r" and ?w = "rc_waiters s ! k"
  let ?P = "set (pending_ids ids s0)"
  from inv have k: "k < length (rc_waiters s)" and w: "rw_kind ?w = ForAll" "rw_total ?w = length ids" "jwf (rw_results ?w)"
      "rw_completed ?w = length (rw_results ?w)"
    and cb: "\<And>i. jget (rc_callbacks s) i = Some k \<longleftrightarrow> i \<in> ?P \<and> i \<notin> r_taskId ` set rs"
    and res: "\<And>i. jget (rw_results ?w) i = (if i \<in> set ids
            then case rc_get i s0 of Some r \<Rightarrow> Some r | None \<Rightarrow> find (\<lambda>r. r_taskId r = i) rs else None)"
    and st: "rw_state ?w = (if ?P \<subseteq> r_taskId ` set rs then Resolved else Waiting)"
    by (auto simp: all_progress_def Let_def)
  show ?thesis
  proof (cases "jget (rc_callbacks s) ?t = Some k")
    case True
    with cb have t: "?t \<in> ?P" "?t \<notin> r_taskId ` set rs" by auto
    then have t': "?t \<in> set ids" "rc_get ?t s0 = None" by (auto simp: set_pending)
    let ?m = "jset (rw_results ?w) ?t r"
    have m: "jwf ?m" using w(3) by simp
    have old: "jget (rw_results ?w) ?t = None" using t t' by (simp add: res find_id)
    have len: "length ?m = Suc (length (rw_results ?w))" using old by (simp add: length_jset)
    have fresh: "find (\<lambda>q. r_taskId q = ?t) rs = None" using find_id [of ?t rs] t(2) by blast
    have get: "jget ?m i = (if i \<in> set ids
            then case rc_get i s0 of Some r \<Rightarrow> Some r | None \<Rightarrow> find (\<lambda>r. r_taskId r = i) (rs @ [r]) else None)" for i
      using t' fresh by (auto simp: res find_snoc split: option.splits)
    have "jhas ?m i \<longleftrightarrow> i \<in> set ids \<and> (i \<in> ?P \<longrightarrow> i \<in> r_taskId ` set (rs @ [r]))" for i
      unfolding get using find_id [of i "rs @ [r]"] by (auto simp: set_pending split: option.splits)
    then have "{i. jhas ?m i} = {i \<in> set ids. i \<in> ?P \<longrightarrow> i \<in> r_taskId ` set (rs @ [r])}" by simp
    then have "length ?m = card {i \<in> set ids. i \<in> ?P \<longrightarrow> i \<in> r_taskId ` set (rs @ [r])}"
      using length_jwf [OF m] by simp
    moreover have "length ids = card (set ids)" using dist by (simp add: distinct_card)
    moreover have "card {i \<in> set ids. i \<in> ?P \<longrightarrow> i \<in> r_taskId ` set (rs @ [r])} = card (set ids) \<longleftrightarrow>
        ?P \<subseteq> r_taskId ` set (rs @ [r])"
    proof -
      have "card {i \<in> set ids. i \<in> ?P \<longrightarrow> i \<in> r_taskId ` set (rs @ [r])} = card (set ids) \<longleftrightarrow>
          {i \<in> set ids. i \<in> ?P \<longrightarrow> i \<in> r_taskId ` set (rs @ [r])} = set ids"
        by (metis (no_types, lifting) List.finite_set card_subset_eq mem_Collect_eq subsetI)
      also have "\<dots> \<longleftrightarrow> ?P \<subseteq> r_taskId ` set (rs @ [r])" by (auto simp: set_pending)
      finally show ?thesis .
    qed
    ultimately have full: "length ?m = length ids \<longleftrightarrow> ?P \<subseteq> r_taskId ` set (rs @ [r])" by simp
    have wait: "rw_state ?w = Waiting" using st t by auto
    let ?w' = "run_callback ?t r ?w"
    have w': "rw_kind ?w' = ForAll" "rw_total ?w' = length ids" "rw_results ?w' = ?m" "rw_completed ?w' = length ?m"
      "rw_state ?w' = (if ?P \<subseteq> r_taskId ` set (rs @ [r]) then Resolved else Waiting)"
      using w full wait len by (auto simp: run_callback_def Let_def settle_waiter_def)
    have s': "rc_collect r s = s\<lparr>rc_results := jset (rc_results s) ?t r,
        rc_waiters := (rc_waiters s)[k := ?w'], rc_callbacks := jdel (rc_callbacks s) ?t\<rparr>"
      using True by (simp add: rc_collect_def Let_def)
    show ?thesis
      unfolding all_progress_def Let_def s'
      using k m w' get cb by auto
  next
    case False
    then have t: "?t \<notin> ?P \<or> ?t \<in> r_taskId ` set rs" using cb by blast
    have w': "rc_waiters (rc_collect r s) ! k = ?w" "length (rc_waiters (rc_collect r s)) = length (rc_waiters s)"
      using False by (auto simp: rc_collect_def Let_def split: option.splits)
    have cb': "jget (rc_callbacks (rc_collect r s)) i = Some k \<longleftrightarrow> jget (rc_callbacks s) i = Some k" for i
      using False by (auto simp: rc_collect_def Let_def split: option.splits)
    have "find (\<lambda>q. r_taskId q = i) (rs @ [r]) = find (\<lambda>q. r_taskId q = i) rs" if "i \<in> ?P" for i
      using t that find_id [of i rs] by (auto simp: find_snoc split: option.splits)
    then have "(if i \<in> set ids then case rc_get i s0 of Some r \<Rightarrow> Some r | None \<Rightarrow> find (\<lambda>r. r_taskId r = i) (rs @ [r]) else None) =
      (if i \<in> set ids then case rc_get i s0 of Some r \<Rightarrow> Some r | None \<Rightarrow> find (\<lambda>r. r_taskId r = i) rs else None)" for i
      by (auto simp: set_pending split: option.splits)
    moreover have "?P \<subseteq> r_taskId ` set (rs @ [r]) \<longleftrightarrow> ?P \<subseteq> r_taskId ` set rs" using t by auto
    moreover have "i \<in> ?P \<and> i \<notin> r_taskId ` set (rs @ [r]) \<longleftrightarrow> i \<in> ?P \<and> i \<notin> r_taskId ` set rs" for i using t by auto
    ultimately show ?thesis
      unfolding all_progress_def Let_def w' cb' using k w cb res st by simp
  qed
qed

lemma all_progress_start:
  assumes wf: "rc_wf s" and dist: "distinct ids"
  shows "all_progress s ids (length (rc_waiters s)) [] (rc_waitForAll ids t s)"
proof -
  let ?k = "length (rc_waiters s)"
  have "jget (rc_callbacks s) i \<noteq> Some ?k" for i using wf by (auto simp: rc_wf_def)
  then have "jget (rc_callbacks (rc_waitForAll ids t s)) i = Some ?k \<longleftrightarrow> i \<in> set (pending_ids ids s)" for i
    by (auto simp: rc_waitForAll_def Let_def callbacks_fold)
  then show ?thesis
    by (auto simp: all_progress_def rc_waitForAll_def Let_def existing_spec split: option.splits)
qed



subsection \<open>The same id twice\<close>

definition short_of :: "nat \<Rightarrow> nat \<Rightarrow> result_collector \<Rightarrow> bool" where
  "short_of n k s \<longleftrightarrow> k < length (rc_waiters s) \<and> rw_kind (rc_waiters s ! k) = ForAll \<and>
     rw_state (rc_waiters s ! k) \<noteq> Resolved \<and> n < rw_total (rc_waiters s ! k) \<and>
     rw_completed (rc_waiters s ! k) + card {i. jget (rc_callbacks s) i = Some k} \<le> n"

lemma finite_keys: "finite {i. jget m i = Some k}"
  by (rule finite_subset [of _ "dom (jget m)"]) (auto simp: finite_dom_map_of)

lemma short_mono:
  assumes "short_of n k s" and "k < length (rc_waiters s')" and "rw_kind (rc_waiters s' ! k) = ForAll"
    and "rw_state (rc_waiters s' ! k) \<noteq> Resolved" and "rw_total (rc_waiters s' ! k) = rw_total (rc_waiters s ! k)"
    and "rw_completed (rc_waiters s' ! k) = rw_completed (rc_waiters s ! k)"
    and "\<And>i. jget (rc_callbacks s') i = Some k \<Longrightarrow> jget (rc_callbacks s) i = Some k"
  shows "short_of n k s'"
proof -
  have "card {i. jget (rc_callbacks s') i = Some k} \<le> card {i. jget (rc_callbacks s) i = Some k}"
    by (rule card_mono [OF finite_keys]) (use assms(7) in auto)
  with assms show ?thesis by (simp add: short_of_def)
qed

lemma short_collect:
  assumes s: "short_of n k s"
  shows "short_of n k (rc_collect r s)"
proof (cases "jget (rc_callbacks s) (r_taskId r) = Some k")
  case True
  let ?C = "{i. jget (rc_callbacks s) i = Some k}"
  have "{i. jget (jdel (rc_callbacks s) (r_taskId r)) i = Some k} = ?C - {r_taskId r}" by auto
  moreover have "card (?C - {r_taskId r}) = card ?C - 1" using True finite_keys by (simp add: card_Diff_singleton)
  moreover have "0 < card ?C" using True finite_keys by (auto simp: card_gt_0_iff)
  ultimately show ?thesis
    using s True by (simp add: short_of_def rc_collect_def Let_def run_callback_def)
next
  case False
  show ?thesis
    by (rule short_mono [OF s]) (use s False in \<open>auto simp: short_of_def rc_collect_def Let_def split: option.splits if_splits\<close>)
qed

lemma short_step: "short_of n k s \<Longrightarrow> short_of n k (rc_apply x s)"
proof -
  assume s: "short_of n k s"
  then have k: "k < length (rc_waiters s)" by (simp add: short_of_def)
  show ?thesis
  proof (cases x)
    case (R_collect r)
    with short_collect [OF s] show ?thesis by simp
  next
    case (R_waitForAll "is" t)
    show ?thesis
      by (rule short_mono [OF s]) (use s k R_waitForAll in
        \<open>auto simp: short_of_def rc_waitForAll_def Let_def nth_append callbacks_fold split: if_splits\<close>)
  next
    case (R_waitFor i t)
    show ?thesis
      by (rule short_mono [OF s]) (use s k R_waitFor in
        \<open>auto simp: short_of_def rc_waitFor_def nth_append split: option.splits if_splits\<close>)
  next
    case (R_timeout j)
    show ?thesis
      by (rule short_mono [OF s]; cases "j = k") (use s k R_timeout in
        \<open>auto simp: short_of_def waiter_timeout_def Let_def settle_waiter_def split: waiter_kind.splits if_splits\<close>)
  next
    case (R_clear i)
    show ?thesis
      by (rule short_mono [OF s]) (use s k R_clear in
        \<open>auto simp: short_of_def rc_clear_def split: option.splits if_splits\<close>)
  next
    case (R_partial i r)
    show ?thesis
      by (rule short_mono [OF s]) (use s k R_partial in \<open>auto simp: short_of_def collectPartial_def Let_def\<close>)
  qed
qed

interpretation short_machine: op_machine rc_apply "short_of n k" for n k
  by unfold_locales (rule short_step)

text \<open>\<open>waitForAll\<close> with a repeated id never resolves, unless all results are there already: it counts an id
  once and waits for as many as the list is long.\<close>

lemma waitForAll_repeated_id:
  assumes "rc_wf s" and "\<not> distinct ids" and "\<exists>i\<in>set ids. rc_get i s = None"
  shows "rw_state (rc_waiters (fold rc_apply xs (rc_waitForAll ids t s)) ! length (rc_waiters s)) \<noteq> Resolved"
proof -
  let ?k = "length (rc_waiters s)" and ?s = "rc_waitForAll ids t s"
  have pend: "pending_ids ids s \<noteq> []" using assms(3) set_pending [of ids s] by fastforce
  have "jget (rc_callbacks s) i \<noteq> Some ?k" for i using assms(1) by (auto simp: rc_wf_def)
  then have cb: "{i. jget (rc_callbacks ?s) i = Some ?k} = {i \<in> set ids. rc_get i s = None}"
    using pend by (auto simp: rc_waitForAll_def Let_def callbacks_fold set_pending)
  have "length (existing_results ids s) = card {i \<in> set ids. rc_get i s \<noteq> None}"
    by (subst length_jwf [OF existing_spec(1)]) (auto simp: existing_spec(2) intro!: arg_cong [where f = card])
  moreover have "card {i \<in> set ids. rc_get i s \<noteq> None} + card {i \<in> set ids. rc_get i s = None} = card (set ids)"
    by (subst card_Un_disjoint [symmetric]) (auto intro!: arg_cong [where f = card])
  moreover have "card (set ids) < length ids" using assms(2) card_distinct [of ids] card_length [of ids] by force
  ultimately have "short_of (card (set ids)) ?k ?s"
    using pend cb by (simp add: short_of_def rc_waitForAll_def Let_def)
  then have "short_of (card (set ids)) ?k (fold rc_apply xs ?s)" by (rule short_machine.inv_run)
  then show ?thesis by (simp add: short_of_def)
qed

text \<open>The message of a timed-out \<open>waitForAll\<close> names tasks whose results are already there.\<close>

lemma timeout_names_collected_tasks:
  "rw_state (rc_waiters (fold rc_apply [R_waitForAll [''a'', ''b''] (Some 9), R_collect (demo_rc_result ''a''), R_timeout 0]
     new_result_collector) ! 0) = Rejected ''Timeout waiting for tasks: a, b''"
  by code_simp

end
