(* ===== verification/Plugin.thy ===== *)
theory Plugin
  imports Dispatcher ResultCollector TaskQueue
begin

text \<open>
  The orchestrator plugin (\<open>src/src/orchestrator/plugin.ts\<close>, class \<open>OrchestratorPlugin\<close>): it puts
  coordinator, dispatcher, result collector, worker pool and task queue together. The coordinator is
  the one that its dispatcher holds. A spawned worker exists twice: an object in the pool, whose executor is
  \<open>executeTaskOnWorker\<close>, and an object that the dispatcher creates under the same id with an
  executor of its own (\<open>stub_result\<close>). The events of the dispatcher's workers are operations here; the code
  has no call that makes a worker of the pool execute a task. \<open>orchestratorTools\<close>, a table of
  descriptions, is not modelled.
\<close>

record OrchestratorPluginConfig =
  pc_maxWorkers :: int
  pc_defaultTimeout :: int
  pc_taskQueueSize :: int
  pc_dispatchStrategy :: DispatchStrategy
  pc_enableRetry :: bool
  pc_maxRetries :: int

record PluginState =
  ps_isActive :: bool
  ps_totalTasks :: nat
  ps_pendingTasks :: nat
  ps_runningTasks :: nat
  ps_completedTasks :: nat
  ps_failedTasks :: nat
  ps_activeWorkers :: nat
  ps_queueLength :: nat

record TaskSubmitOptions =
  so_priority :: "TaskPriority option"
  so_timeout :: "int option"
  so_retryAttempts :: "int option"
  so_dependencies :: "string list option"
  so_requiredCapabilities :: "string list option"
  so_metadata :: "js_record option"

record SpawnWorkerOptions =
  sw_id :: "string option"
  sw_capabilities :: "string list option"
  sw_maxTasks :: "int option"
  sw_model :: "string option"

record plugin_metrics =
  pm_tasksSubmitted :: nat
  pm_tasksCompleted :: nat
  pm_tasksFailed :: nat
  pm_totalDuration :: int
  pm_totalTokens :: int

record plugin =
  pn_config :: OrchestratorPluginConfig
  pn_dispatcher :: dispatcher
  pn_collector :: result_collector
  pn_workerPool :: worker_pool
  pn_taskQueue :: task_queue
  pn_isActive :: bool
  pn_metrics :: plugin_metrics

definition default_plugin_config :: OrchestratorPluginConfig where
  "default_plugin_config =
     \<lparr>pc_maxWorkers = 10, pc_defaultTimeout = 300000, pc_taskQueueSize = 100,
      pc_dispatchStrategy = DG_least_loaded, pc_enableRetry = True, pc_maxRetries = 3\<rparr>"

definition internal_coordinator :: "int \<Rightarrow> WorkerInfo" where
  "internal_coordinator now =
     \<lparr>wi_id = ''internal-coordinator'', wi_status = WI_idle,
      wi_capabilities = [''coordinate'', ''decompose'', ''aggregate''], wi_currentTasks = 0,
      wi_maxTasks = 100, wi_lastHeartbeat = now, wi_performance = new_performance\<rparr>"

definition setupEventHandlers :: "int \<Rightarrow> coordinator \<Rightarrow> coordinator" where
  "setupEventHandlers now c = co_registerWorker (internal_coordinator now) c"

definition new_plugin :: "int \<Rightarrow> OrchestratorPluginConfig \<Rightarrow> plugin" where
  "new_plugin now config =
     \<lparr>pn_config = config,
      pn_dispatcher = new_dispatcher
        (setupEventHandlers now (new_coordinator
          \<lparr>cc_maxWorkers = pc_maxWorkers config, cc_taskTimeout = pc_defaultTimeout config,
           cc_retryAttempts = pc_maxRetries config, cc_retryDelay = 5000,
           cc_resultAggregationStrategy = AS_best\<rparr>))
        \<lparr>dg_strategy = pc_dispatchStrategy config, dg_maxQueueSize = pc_taskQueueSize config,
         dg_retryEnabled = pc_enableRetry config, dg_retryAttempts = pc_maxRetries config,
         dg_retryDelay = 5000, dg_timeout = pc_defaultTimeout config, dg_priorityBoost = True\<rparr>,
      pn_collector = new_result_collector, pn_workerPool = new_worker_pool,
      pn_taskQueue = new_task_queue, pn_isActive = False,
      pn_metrics = \<lparr>pm_tasksSubmitted = 0, pm_tasksCompleted = 0, pm_tasksFailed = 0,
        pm_totalDuration = 0, pm_totalTokens = 0\<rparr>\<rparr>"

definition pn_start :: "plugin \<Rightarrow> plugin" where
  "pn_start p = p\<lparr>pn_isActive := True\<rparr>"

definition pn_stop :: "plugin \<Rightarrow> plugin" where
  "pn_stop p = p\<lparr>pn_isActive := False, pn_workerPool := fst (pl_shutdown (pn_workerPool p))\<rparr>"

subsection \<open>Tasks\<close>

datatype plugin_error = TaskRejected "string option" | TaskUnknown string

definition submitted_task ::
  "int \<Rightarrow> string \<Rightarrow> string \<Rightarrow> TaskSubmitOptions \<Rightarrow> OrchestratorPluginConfig \<Rightarrow> TaskDefinition" where
  "submitted_task now rnd prompt options config =
     \<lparr>td_id = gen_id ''task'' now rnd, td_prompt = prompt, td_agentRole = None, td_agentId = None,
      td_priority = (case so_priority options of Some x \<Rightarrow> x | None \<Rightarrow> P_normal),
      td_timeout = Some (case so_timeout options of Some t \<Rightarrow> t | None \<Rightarrow> pc_defaultTimeout config),
      td_maxRetries = Some (case so_retryAttempts options of Some n \<Rightarrow> n | None \<Rightarrow> pc_maxRetries config),
      td_dependencies = so_dependencies options,
      td_metadata = Some (jset (case so_metadata options of Some m \<Rightarrow> js_spread [] m | None \<Rightarrow> [])
        ''requiredCapabilities''
        (case so_requiredCapabilities options of Some cs \<Rightarrow> JArr (map JStr cs) | None \<Rightarrow> JUndef))\<rparr>"

definition pn_submitTask ::
  "int \<Rightarrow> string \<Rightarrow> string \<Rightarrow> TaskSubmitOptions \<Rightarrow> plugin \<Rightarrow> plugin \<times> (plugin_error + string)" where
  "pn_submitTask now rnd prompt options p =
     (let task = submitted_task now rnd prompt options (pn_config p);
          p = p\<lparr>pn_taskQueue := fst (enqueue now task (pn_taskQueue p)),
                pn_metrics := (pn_metrics p)\<lparr>pm_tasksSubmitted := pm_tasksSubmitted (pn_metrics p) + 1\<rparr>\<rparr>;
          (d, r) = dp_dispatch now task (pn_dispatcher p);
          p = p\<lparr>pn_dispatcher := d\<rparr>
      in if dr_status r = DR_rejected then (p, Inl (TaskRejected (dr_reason r))) else (p, Inr (td_id task)))"

text \<open>\<open>submitBatch\<close> stops at the first rejected task. The random suffixes are numbered.\<close>

fun pn_submitBatch ::
  "int \<Rightarrow> (nat \<Rightarrow> string) \<Rightarrow> (string \<times> TaskSubmitOptions) list \<Rightarrow> plugin \<Rightarrow>
   plugin \<times> (plugin_error + string list)" where
  "pn_submitBatch now rnd [] p = (p, Inr [])"
| "pn_submitBatch now rnd ((prompt, options) # tasks) p =
     and_then (pn_submitTask now (rnd 0) prompt options p)
       (\<lambda>taskId p. and_then (pn_submitBatch now (\<lambda>n. rnd (Suc n)) tasks p)
          (\<lambda>taskIds p. (p, Inr (taskId # taskIds))))"

record plugin_task_status =
  pt_status :: TaskStatus
  pt_result :: "TaskResult option"
  pt_queuePosition :: "nat option"
  pt_workerId :: "string option"

definition getQueuePosition :: "string \<Rightarrow> plugin \<Rightarrow> nat" where
  "getQueuePosition taskId p =
     (case find_index (\<lambda>t. td_id t = taskId) (dp_getPendingTasks (pn_dispatcher p)) of
        Some i \<Rightarrow> i + 1 | None \<Rightarrow> 0)"

definition pn_getTaskStatus :: "int \<Rightarrow> string \<Rightarrow> plugin \<Rightarrow> plugin_error + plugin_task_status" where
  "pn_getTaskStatus now taskId p =
     (case get_task (pn_taskQueue p) taskId of
        Some task \<Rightarrow> Inr \<lparr>pt_status = t_status task, pt_result = None,
            pt_queuePosition = Some (getQueuePosition taskId p), pt_workerId = None\<rparr>
      | None \<Rightarrow>
          (case rc_get taskId (pn_collector p) of
             Some result \<Rightarrow> Inr \<lparr>pt_status = r_status result, pt_result = Some result,
                 pt_queuePosition = None, pt_workerId = Some (r_agentId result)\<rparr>
           | None \<Rightarrow>
               (case dp_getStatus now taskId (pn_dispatcher p) of
                  Some st \<Rightarrow> Inr \<lparr>pt_status = (if dr_status st = DR_queued then T_pending else T_running),
                      pt_result = None, pt_queuePosition = dr_queuePosition st,
                      pt_workerId = (if dr_workerId st = [] then None else Some (dr_workerId st))\<rparr>
                | None \<Rightarrow> Inl (TaskUnknown taskId))))"

definition pn_cancelTask :: "string \<Rightarrow> plugin \<Rightarrow> plugin \<times> bool" where
  "pn_cancelTask taskId p =
     (let (d, b) = dp_cancel taskId (pn_dispatcher p)
      in (p\<lparr>pn_taskQueue := remove_task taskId (pn_taskQueue p), pn_dispatcher := d\<rparr>, b))"

definition timeout_or_default :: "int option \<Rightarrow> plugin \<Rightarrow> int option" where
  "timeout_or_default timeout p =
     Some (case timeout of Some t \<Rightarrow> t | None \<Rightarrow> pc_defaultTimeout (pn_config p))"

definition pn_waitForTask :: "string \<Rightarrow> int option \<Rightarrow> plugin \<Rightarrow> plugin" where
  "pn_waitForTask taskId timeout p =
     p\<lparr>pn_collector := rc_waitFor taskId (timeout_or_default timeout p) (pn_collector p)\<rparr>"

definition pn_waitForAll :: "string list \<Rightarrow> int option \<Rightarrow> plugin \<Rightarrow> plugin" where
  "pn_waitForAll taskIds timeout p =
     p\<lparr>pn_collector := rc_waitForAll taskIds (timeout_or_default timeout p) (pn_collector p)\<rparr>"

subsection \<open>Workers\<close>

text \<open>What the executor of the dispatcher's worker returns.\<close>

definition stub_result :: "string \<Rightarrow> TaskResult" where
  "stub_result workerId = \<lparr>r_taskId = [], r_agentId = workerId, r_status = T_completed,
     r_output = JUndef, r_error = None, r_duration = 0, r_tokenUsage = None\<rparr>"

definition spawn_capabilities :: "SpawnWorkerOptions \<Rightarrow> WorkerCapabilities" where
  "spawn_capabilities options =
     \<lparr>wp_skills = (case sw_capabilities options of Some cs \<Rightarrow> cs | None \<Rightarrow> [''general'']), wp_tools = [],
      wp_models = (case sw_model options of Some m \<Rightarrow> (if m = [] then [] else [m]) | None \<Rightarrow> []),
      wp_maxTokens = 4096, wp_supportsStreaming = True, wp_supportsAttachments = False\<rparr>"

definition spawnWorker :: "int \<Rightarrow> string \<Rightarrow> SpawnWorkerOptions \<Rightarrow> plugin \<Rightarrow> plugin \<times> string" where
  "spawnWorker now rnd options p =
     (let workerId = (case sw_id options of Some i \<Rightarrow> i | None \<Rightarrow> gen_id ''worker'' now rnd);
          maxTasks = (case sw_maxTasks options of Some n \<Rightarrow> n | None \<Rightarrow> 3);
          caps = spawn_capabilities options;
          worker = new_worker now workerId (default_worker_config\<lparr>wc_maxConcurrentTasks := maxTasks,
            wc_taskTimeout := pc_defaultTimeout (pn_config p)\<rparr>) caps
      in (p\<lparr>pn_workerPool := addWorker worker (pn_workerPool p),
            pn_dispatcher := dp_registerWorker now workerId caps
              (default_worker_config\<lparr>wc_maxConcurrentTasks := maxTasks\<rparr>) (pn_dispatcher p)\<rparr>, workerId))"

definition terminateWorker :: "string \<Rightarrow> plugin \<Rightarrow> plugin" where
  "terminateWorker workerId p =
     p\<lparr>pn_workerPool := fst (removeWorker workerId (pn_workerPool p)),
       pn_dispatcher := dp_unregisterWorker workerId (pn_dispatcher p)\<rparr>"

definition getWorkerIds :: "plugin \<Rightarrow> string list" where
  "getWorkerIds p = jkeys (pl_getMetrics 0 (pn_workerPool p))"

definition executeTaskOnWorker ::
  "int \<Rightarrow> int \<Rightarrow> string \<Rightarrow> TaskDefinition \<Rightarrow> plugin \<Rightarrow> plugin \<times> TaskResult" where
  "executeTaskOnWorker startTime now workerId task p =
     (case getWorker workerId (pn_workerPool p) of
        Some worker \<Rightarrow>
          (let result = \<lparr>r_taskId = td_id task, r_agentId = workerId, r_status = T_completed,
                 r_output = JObj [(''prompt'', JStr (td_prompt task)), (''processed'', JBool True)],
                 r_error = None, r_duration = now - startTime, r_tokenUsage = None\<rparr>;
               m = pn_metrics p
           in (p\<lparr>pn_collector := rc_collect result (pn_collector p),
                 pn_metrics := m\<lparr>pm_tasksCompleted := pm_tasksCompleted m + 1,
                   pm_totalDuration := pm_totalDuration m + r_duration result\<rparr>\<rparr>, result))
      | None \<Rightarrow>
          (let result = \<lparr>r_taskId = td_id task, r_agentId = workerId, r_status = T_failed,
                 r_output = JUndef, r_error = Some (''Worker '' @ workerId @ '' not found''),
                 r_duration = now - startTime, r_tokenUsage = None\<rparr>;
               m = pn_metrics p
           in (p\<lparr>pn_collector := rc_collect result (pn_collector p),
                 pn_metrics := m\<lparr>pm_tasksFailed := pm_tasksFailed m + 1\<rparr>\<rparr>, result)))"

subsection \<open>State and metrics\<close>

definition pn_getState :: "plugin \<Rightarrow> PluginState" where
  "pn_getState p =
     (let c = co_getState (dp_coordinator (pn_dispatcher p))
      in \<lparr>ps_isActive = pn_isActive p, ps_totalTasks = cs_totalTasks c, ps_pendingTasks = cs_pendingTasks c,
          ps_runningTasks = cs_runningTasks c, ps_completedTasks = cs_completedTasks c,
          ps_failedTasks = cs_failedTasks c, ps_activeWorkers = cs_activeWorkers c,
          ps_queueLength = getQueueLength (pn_dispatcher p)\<rparr>)"

definition pn_getMetrics :: "plugin \<Rightarrow> plugin_metrics \<times> rat \<times> rat \<times> rat" where
  "pn_getMetrics p =
     (let m = pn_metrics p; n = pm_tasksCompleted m + pm_tasksFailed m
      in (m, if n > 0 then of_int (pm_totalDuration m) / of_nat n else 0,
          if n > 0 then of_int (pm_totalTokens m) / of_nat n else 0,
          if n > 0 then of_nat (pm_tasksCompleted m) / of_nat n else 0))"

definition getWorkerMetrics :: "int \<Rightarrow> plugin \<Rightarrow> (string, WorkerMetrics) jsmap" where
  "getWorkerMetrics now p = pl_getMetrics now (pn_workerPool p)"

subsection \<open>What becomes of submitted tasks\<close>

datatype pn_op =
    N_start
  | N_stop
  | N_submit int string string TaskSubmitOptions
  | N_cancel string
  | N_waitFor string "int option"
  | N_waitForAll "string list" "int option"
  | N_waiterTimeout nat
  | N_spawn int string SpawnWorkerOptions
  | N_terminate string
  | N_executor nat nat
  | N_attemptTimeout nat nat
  | N_resume int nat nat
  | N_delay int nat nat
  | N_retryTimer int nat

text \<open>\<open>N_executor a k\<close>: the executor of the dispatcher's worker \<open>a\<close> returns for its execution \<open>k\<close>.\<close>

fun pn_apply :: "pn_op \<Rightarrow> plugin \<Rightarrow> plugin" where
  "pn_apply N_start p = pn_start p"
| "pn_apply N_stop p = pn_stop p"
| "pn_apply (N_submit now rnd prompt options) p = fst (pn_submitTask now rnd prompt options p)"
| "pn_apply (N_cancel i) p = fst (pn_cancelTask i p)"
| "pn_apply (N_waitFor i t) p = pn_waitForTask i t p"
| "pn_apply (N_waitForAll is t) p = pn_waitForAll is t p"
| "pn_apply (N_waiterTimeout k) p = p\<lparr>pn_collector := waiter_timeout k (pn_collector p)\<rparr>"
| "pn_apply (N_spawn now rnd options) p = fst (spawnWorker now rnd options p)"
| "pn_apply (N_terminate i) p = terminateWorker i p"
| "pn_apply (N_executor a k) p = p\<lparr>pn_dispatcher := dp_apply
     (D_settle a (Inr (stub_result (wk_id (dp_heap (pn_dispatcher p) ! a)))) k) (pn_dispatcher p)\<rparr>"
| "pn_apply (N_attemptTimeout a k) p = p\<lparr>pn_dispatcher := dp_apply (D_settle a (Inl ''Task timeout'') k) (pn_dispatcher p)\<rparr>"
| "pn_apply (N_resume now a k) p = p\<lparr>pn_dispatcher := dp_apply (D_resume now a k) (pn_dispatcher p)\<rparr>"
| "pn_apply (N_delay now a k) p = p\<lparr>pn_dispatcher := dp_apply (D_delay now a k) (pn_dispatcher p)\<rparr>"
| "pn_apply (N_retryTimer now i) p = p\<lparr>pn_dispatcher := dp_apply (D_timer now i) (pn_dispatcher p)\<rparr>"

text \<open>What no operation changes: nothing is collected, nothing is counted as completed or failed, the tasks of
  the plugin's own queue stay pending, and the coordinator is not told of any task.\<close>

definition waiter_unserved :: "waiter \<Rightarrow> bool" where
  "waiter_unserved w \<longleftrightarrow> (rw_state w = Resolved \<longrightarrow> rw_kind w = ForAll \<and> rw_total w = 0)"

definition collector_idle :: "result_collector \<Rightarrow> bool" where
  "collector_idle s \<longleftrightarrow> rc_results s = [] \<and> list_all waiter_unserved (rc_waiters s)"

definition queue_pending :: "task_queue \<Rightarrow> bool" where
  "queue_pending q \<longleftrightarrow> (\<forall>k t. jget (tq_tasks q) k = Some t \<longrightarrow> t_status t = T_pending)"

definition plugin_idle :: "plugin \<Rightarrow> bool" where
  "plugin_idle p \<longleftrightarrow> collector_idle (pn_collector p) \<and> queue_pending (pn_taskQueue p) \<and>
     dp_unused (pn_dispatcher p) \<and> pm_tasksCompleted (pn_metrics p) = 0 \<and> pm_tasksFailed (pn_metrics p) = 0 \<and>
     pm_totalDuration (pn_metrics p) = 0"

lemma idle_waitFor: "collector_idle s \<Longrightarrow> collector_idle (rc_waitFor i t s)"
  by (simp add: collector_idle_def rc_waitFor_def waiter_unserved_def)

lemma pending_ids_Nil: "rc_results s = [] \<Longrightarrow> pending_ids ids s = [] \<longleftrightarrow> ids = []"
  by (simp add: pending_ids_def filter_empty_conv)

lemma idle_waitForAll: "collector_idle s \<Longrightarrow> collector_idle (rc_waitForAll ids t s)"
  by (auto simp: collector_idle_def rc_waitForAll_def Let_def waiter_unserved_def pending_ids_Nil)

lemma idle_timeout: "collector_idle s \<Longrightarrow> collector_idle (waiter_timeout k s)"
  by (auto simp: collector_idle_def waiter_timeout_def Let_def waiter_unserved_def settle_waiter_def list_all_length
      nth_list_update split: waiter_kind.splits)

lemma pending_enqueue: "queue_pending q \<Longrightarrow> queue_pending (fst (enqueue now t q))"
  by (simp add: queue_pending_def enqueue_def Let_def)

lemma pending_remove: "queue_pending q \<Longrightarrow> queue_pending (remove_task i q)"
  by (simp add: queue_pending_def remove_task_def)

lemma unused_dispatch: "dp_unused d \<Longrightarrow> dp_unused (fst (dp_dispatch now t d))"
  using unused_step [of d "D_dispatch now t"] by simp

lemma unused_register: "dp_unused d \<Longrightarrow> dp_unused (dp_registerWorker now i caps c d)"
  using unused_step [of d "D_register now i caps c"] by simp

lemma unused_unregister: "dp_unused d \<Longrightarrow> dp_unused (dp_unregisterWorker i d)"
  using unused_step [of d "D_unregister i"] by simp

lemma unused_cancel: "dp_unused d \<Longrightarrow> dp_unused (fst (dp_cancel i d))"
  using unused_step [of d "D_cancel i"] by simp

lemmas idle_parts = idle_waitFor idle_waitForAll idle_timeout pending_enqueue pending_remove unused_dispatch
  unused_register unused_unregister unused_cancel unused_step

lemma submit_state:
  "fst (pn_submitTask now rnd prompt options p) =
     (let task = submitted_task now rnd prompt options (pn_config p)
      in p\<lparr>pn_taskQueue := fst (enqueue now task (pn_taskQueue p)),
           pn_metrics := (pn_metrics p)\<lparr>pm_tasksSubmitted := pm_tasksSubmitted (pn_metrics p) + 1\<rparr>,
           pn_dispatcher := fst (dp_dispatch now task (pn_dispatcher p))\<rparr>)"
  by (simp add: pn_submitTask_def Let_def split: prod.split)

lemma cancel_state:
  "fst (pn_cancelTask i p) = p\<lparr>pn_taskQueue := remove_task i (pn_taskQueue p),
     pn_dispatcher := fst (dp_cancel i (pn_dispatcher p))\<rparr>"
  by (simp add: pn_cancelTask_def split: prod.split)

lemma idle_step: "plugin_idle p \<Longrightarrow> plugin_idle (pn_apply x p)"
  by (cases x) (auto simp: plugin_idle_def submit_state cancel_state pn_start_def pn_stop_def pn_waitForTask_def
      pn_waitForAll_def spawnWorker_def terminateWorker_def Let_def idle_parts
      simp del: dp_apply.simps)

interpretation idle_machine: op_machine pn_apply plugin_idle
  by unfold_locales (rule idle_step)

lemma idle_new: "plugin_idle (new_plugin now config)"
  by (simp add: plugin_idle_def collector_idle_def queue_pending_def dp_unused_def co_unused_def new_plugin_def
      new_result_collector_def new_task_queue_def new_dispatcher_def setupEventHandlers_def co_registerWorker_def
      new_coordinator_def internal_coordinator_def)


text \<open>C28: Tasks submitted through the plugin never get a result: after any history, however often the
  dispatcher's workers have executed them, the plugin counts no completed and no failed task,
  \<open>getTaskStatus\<close> answers \<open>pending\<close> or \<open>running\<close> without a result, and no promise of \<open>waitForTask\<close> or
  \<open>waitForAll\<close> has resolved, save one for the empty list.\<close>

theorem submitted_tasks_never_finish:
  assumes "p = fold pn_apply xs (new_plugin t0 config)"
  shows "pm_tasksCompleted (fst (pn_getMetrics p)) = 0 \<and> pm_tasksFailed (fst (pn_getMetrics p)) = 0 \<and>
    (case pn_getTaskStatus now i p of Inl e \<Rightarrow> e = TaskUnknown i
       | Inr st \<Rightarrow> pt_result st = None \<and> pt_status st \<in> {T_pending, T_running}) \<and>
    (\<forall>w\<in>set (rc_waiters (pn_collector p)). rw_state w = Resolved \<longrightarrow> rw_kind w = ForAll \<and> rw_total w = 0)"
proof -
  have inv: "plugin_idle p" unfolding assms by (rule idle_machine.inv_run [OF idle_new])
  then have "case pn_getTaskStatus now i p of Inl e \<Rightarrow> e = TaskUnknown i
       | Inr st \<Rightarrow> pt_result st = None \<and> pt_status st \<in> {T_pending, T_running}"
    by (auto simp: plugin_idle_def pn_getTaskStatus_def queue_pending_def collector_idle_def rc_get_def
        split: option.split)
  with inv show ?thesis
    by (auto simp: plugin_idle_def pn_getMetrics_def Let_def collector_idle_def waiter_unserved_def list_all_iff)
qed

definition demo_submit :: TaskSubmitOptions where
  "demo_submit = \<lparr>so_priority = None, so_timeout = None, so_retryAttempts = None, so_dependencies = None,
     so_requiredCapabilities = None, so_metadata = None\<rparr>"

definition demo_spawn :: SpawnWorkerOptions where
  "demo_spawn = \<lparr>sw_id = Some ''w'', sw_capabilities = None, sw_maxTasks = None, sw_model = None\<rparr>"

text \<open>A worker is spawned, a task submitted and executed, its result awaited.\<close>

definition demo_plugin_ops :: "pn_op list" where
  "demo_plugin_ops = [N_start, N_spawn 1 ''r'' demo_spawn, N_submit 2 ''x'' ''do'' demo_submit,
     N_waitFor ''task-2-x'' None, N_executor 0 0, N_resume 7 0 0]"

lemma submitted_tasks_never_finish_witness:
  "let p = fold pn_apply demo_plugin_ops (new_plugin 0 default_plugin_config)
   in map rw_state (rc_waiters (pn_collector p)) = [Waiting] \<and>
      map (map wx_phase \<circ> wk_execs) (dp_heap (pn_dispatcher p)) = [[Finished (Inr (stub_result ''w''))]] \<and>
      pm_tasksCompleted (fst (pn_getMetrics p)) = 0"
proof -
  let ?p = "fold pn_apply demo_plugin_ops (new_plugin 0 default_plugin_config)"
  have "map rw_state (rc_waiters (pn_collector ?p)) = [Waiting] \<and>
      map (map wx_phase \<circ> wk_execs) (dp_heap (pn_dispatcher ?p)) = [[Finished (Inr (stub_result ''w''))]]"
    by code_simp
  then show ?thesis
    using submitted_tasks_never_finish [OF refl, of demo_plugin_ops 0 default_plugin_config] by (simp add: Let_def)
qed

subsection \<open>Submission\<close>

lemma submit_result:
  "snd (pn_submitTask now rnd prompt options p) =
     (if int (length (dp_taskQueue (pn_dispatcher p))) \<ge> dg_maxQueueSize (dp_config (pn_dispatcher p))
      then Inl (TaskRejected (Some ''Queue is full'')) else Inr (gen_id ''task'' now rnd))"
proof -
  have [simp]: "td_id (submitted_task now rnd prompt options (pn_config p)) = gen_id ''task'' now rnd"
    by (simp add: submitted_task_def)
  show ?thesis
  proof (cases "dp_selectWorker (submitted_task now rnd prompt options (pn_config p)) (pn_dispatcher p)")
    case (Pair d r)
    then show ?thesis
      by (cases r) (simp_all add: pn_submitTask_def Let_def dp_dispatch_def dispatchToWorker_def enqueueTask_def)
  qed
qed

text \<open>A rejected task stays in the queue of the plugin: its caller gets an exception, \<open>getTaskStatus\<close> answers
  that it is pending.\<close>

lemma rejected_task_reported_pending:
  assumes "dp_taskQueue (pn_dispatcher p) = q" and "dg_maxQueueSize (dp_config (pn_dispatcher p)) \<le> int (length q)"
  shows "\<exists>p'. pn_submitTask now rnd prompt options p = (p', Inl (TaskRejected (Some ''Queue is full''))) \<and>
    map_option t_status (get_task (pn_taskQueue p') (gen_id ''task'' now rnd)) = Some T_pending \<and>
    dp_taskQueue (pn_dispatcher p') = q"
proof -
  have "fst (dp_dispatch now (submitted_task now rnd prompt options (pn_config p)) (pn_dispatcher p)) = pn_dispatcher p"
    using assms by (simp add: dp_dispatch_def)
  then show ?thesis
    using assms submit_result [of now rnd prompt options p] submit_state [of now rnd prompt options p]
    by (intro exI [of _ "fst (pn_submitTask now rnd prompt options p)"] conjI)
      (simp_all add: prod_eq_iff Let_def enqueue_def submitted_task_def)
qed

text \<open>A batch that is accepted has submitted every task, in order; one that is not has submitted the tasks up to
  the first rejected one, which counts as submitted.\<close>

lemma submit_counts:
  "pm_tasksSubmitted (pn_metrics (fst (pn_submitTask now rnd prompt options p))) =
     pm_tasksSubmitted (pn_metrics p) + 1"
  by (simp add: submit_state Let_def)

lemma submitBatch_accepted:
  "snd (pn_submitBatch now rnd tasks p) = Inr ids \<Longrightarrow>
     ids = map (\<lambda>k. gen_id ''task'' now (rnd k)) [0..<length tasks] \<and>
     pm_tasksSubmitted (pn_metrics (fst (pn_submitBatch now rnd tasks p))) =
       pm_tasksSubmitted (pn_metrics p) + length tasks"
proof (induction tasks arbitrary: rnd p ids)
  case (Cons task tasks)
  obtain prompt options where task: "task = (prompt, options)" by (cases task)
  obtain p' r where sub: "pn_submitTask now (rnd 0) prompt options p = (p', r)" by fastforce
  then obtain i where r: "r = Inr i" using Cons.prems task by (cases r) auto
  then have i: "i = gen_id ''task'' now (rnd 0)"
    using submit_result [of now "rnd 0" prompt options p] sub by (simp split: if_splits)
  obtain p'' r' where rest: "pn_submitBatch now (\<lambda>n. rnd (Suc n)) tasks p' = (p'', r')" by fastforce
  then obtain ids' where r': "r' = Inr ids'" using Cons.prems task sub r by (cases r') auto
  have "ids' = map (\<lambda>k. gen_id ''task'' now (rnd (Suc k))) [0..<length tasks] \<and>
      pm_tasksSubmitted (pn_metrics p'') = pm_tasksSubmitted (pn_metrics p') + length tasks"
    using Cons.IH [of "\<lambda>n. rnd (Suc n)" p' ids'] rest r' by simp
  moreover have "pm_tasksSubmitted (pn_metrics p') = pm_tasksSubmitted (pn_metrics p) + 1"
    using submit_counts [of now "rnd 0" prompt options p] sub by simp
  moreover have "ids = i # ids'" using Cons.prems task sub r rest r' by simp
  ultimately show ?case
    using i task sub r rest r' by (simp add: upt_conv_Cons map_Suc_upt [symmetric] del: upt_Suc)
qed simp

lemma submitBatch_counts:
  "pm_tasksSubmitted (pn_metrics (fst (pn_submitBatch now rnd tasks p))) \<le> pm_tasksSubmitted (pn_metrics p) + length tasks"
proof (induction tasks arbitrary: rnd p)
  case (Cons task tasks)
  obtain prompt options where task: "task = (prompt, options)" by (cases task)
  obtain p' r where sub: "pn_submitTask now (rnd 0) prompt options p = (p', r)" by fastforce
  have "pm_tasksSubmitted (pn_metrics p') = pm_tasksSubmitted (pn_metrics p) + 1"
    using submit_counts [of now "rnd 0" prompt options p] sub by simp
  then show ?case
    using Cons.IH [of "\<lambda>n. rnd (Suc n)" p'] task sub
    by (cases r) (auto simp: and_then_def split: prod.split sum.split)
qed simp

subsection \<open>Workers\<close>

text \<open>A spawned worker is in the pool and, as an object of its own, in the dispatcher; \<open>terminateWorker\<close>
  takes it out of both.\<close>

lemma spawn_registers:
  assumes "spawnWorker now rnd options p = (p', i)"
  shows "getWorker i (pn_workerPool p') \<noteq> None \<and>
    jget (dp_workers (pn_dispatcher p')) i = Some (length (dp_heap (pn_dispatcher p))) \<and>
    i \<in> set (getWorkerIds p')"
proof -
  have "jget (jset m k v) k \<noteq> None" for m :: "(string, worker) jsmap" and k v by simp
  moreover have "k \<in> set (jkeys (jmap f (jset m k v)))" for m :: "(string, worker) jsmap" and f :: "string \<Rightarrow> worker \<Rightarrow> WorkerMetrics" and k v
    by (simp add: jkeys_jset)
  ultimately show ?thesis
    using assms unfolding spawnWorker_def Let_def
    by (auto simp: addWorker_def getWorker_def dp_registerWorker_def getWorkerIds_def pl_getMetrics_def new_worker_def)
qed

lemma terminate_unregisters:
  "jget (dp_workers (pn_dispatcher (terminateWorker i p))) i = None"
  by (simp add: terminateWorker_def dp_unregisterWorker_def split: option.split)

end
