(* ===== verification/TaskTypes.thy ===== *)
theory TaskTypes
  imports Prelude
begin

text \<open>
  The records of background tasks and of the flows that group them
  (\<open>src/src/tasks/task-registry.types.ts\<close>, \<open>task-flow-registry.types.ts\<close>), and the normalisations of text
  that both registries use. An optional field is an \<open>option\<close>; a field of a patch that may also be
  \<open>undefined\<close> or \<open>null\<close> is an option of an option.
\<close>

datatype TaskRuntime = RT_subagent | RT_acp | RT_cli | RT_cron

datatype BgTaskStatus = BT_queued | BT_running | BT_succeeded | BT_failed | BT_timed_out | BT_cancelled | BT_lost

datatype TaskDeliveryStatus =
    DV_pending
  | DV_delivered
  | DV_session_queued
  | DV_failed
  | DV_parent_missing
  | DV_not_applicable

datatype TaskNotifyPolicy = NP_done_only | NP_state_changes | NP_silent

datatype TaskTerminalOutcome = TO_succeeded | TO_blocked

datatype TaskScopeKind = SK_session | SK_system

text \<open>A thread id is a number or a string.\<close>

datatype thread_id = ThreadNum int | ThreadStr string

record DeliveryContext =
  dx_channel :: "string option"
  dx_to :: "string option"
  dx_accountId :: "string option"
  dx_threadId :: "thread_id option"

datatype TaskEventKind = EK_status BgTaskStatus | EK_progress

record TaskEventRecord =
  te_at :: int
  te_kind :: TaskEventKind
  te_summary :: "string option"

record TaskDeliveryState =
  ds_taskId :: string
  ds_requesterOrigin :: "DeliveryContext option"
  ds_lastNotifiedEventAt :: "int option"

record TaskRecord =
  tr_taskId :: string
  tr_runtime :: TaskRuntime
  tr_sourceId :: "string option"
  tr_requesterSessionKey :: string
  tr_ownerKey :: string
  tr_scopeKind :: TaskScopeKind
  tr_childSessionKey :: "string option"
  tr_parentFlowId :: "string option"
  tr_parentTaskId :: "string option"
  tr_agentId :: "string option"
  tr_runId :: "string option"
  tr_label :: "string option"
  tr_task :: string
  tr_status :: BgTaskStatus
  tr_deliveryStatus :: TaskDeliveryStatus
  tr_notifyPolicy :: TaskNotifyPolicy
  tr_createdAt :: int
  tr_startedAt :: "int option"
  tr_endedAt :: "int option"
  tr_lastEventAt :: "int option"
  tr_cleanupAfter :: "int option"
  tr_error :: "string option"
  tr_progressSummary :: "string option"
  tr_terminalSummary :: "string option"
  tr_terminalOutcome :: "TaskTerminalOutcome option"

datatype TaskFlowSyncMode = SM_task_mirrored | SM_managed

datatype TaskFlowStatus =
    FS_queued
  | FS_running
  | FS_waiting
  | FS_blocked
  | FS_succeeded
  | FS_failed
  | FS_cancelled
  | FS_lost

record TaskFlowRecord =
  tf_flowId :: string
  tf_syncMode :: TaskFlowSyncMode
  tf_ownerKey :: string
  tf_requesterOrigin :: "DeliveryContext option"
  tf_controllerId :: "string option"
  tf_revision :: int
  tf_status :: TaskFlowStatus
  tf_notifyPolicy :: TaskNotifyPolicy
  tf_goal :: string
  tf_currentStep :: "string option"
  tf_blockedTaskId :: "string option"
  tf_blockedSummary :: "string option"
  tf_stateJson :: "jsval option"
  tf_waitJson :: "jsval option"
  tf_cancelRequestedAt :: "int option"
  tf_createdAt :: int
  tf_updatedAt :: int
  tf_endedAt :: "int option"

subsection \<open>Text\<close>

text \<open>\<open>value?.trim()\<close> with the empty text as \<open>undefined\<close>.\<close>

definition trimmed :: "string \<Rightarrow> string option" where
  "trimmed s = (let t = js_trim s in if t = [] then None else Some t)"

definition normalizeText :: "string option \<Rightarrow> string option" where
  "normalizeText v = (case v of Some s \<Rightarrow> trimmed s | None \<Rightarrow> None)"

text \<open>\<open>a || b\<close> and \<open>a ?? b\<close>.\<close>

definition or_else :: "'a option \<Rightarrow> 'a option \<Rightarrow> 'a option" where
  "or_else a b = (case a of Some x \<Rightarrow> Some x | None \<Rightarrow> b)"

definition or_value :: "'a option \<Rightarrow> 'a \<Rightarrow> 'a" where
  "or_value a b = (case a of Some x \<Rightarrow> x | None \<Rightarrow> b)"

text \<open>A key of a patch: the old value if the key is missing.\<close>

definition patched :: "'a option \<Rightarrow> 'a \<Rightarrow> 'a" where
  "patched p old = (case p of Some v \<Rightarrow> v | None \<Rightarrow> old)"

lemma or_simps [simp]:
  "or_else (Some x) b = Some x" "or_else None b = b"
  "or_value (Some x) y = x" "or_value None y = y"
  "patched None old = old" "patched (Some v) old = v"
  by (simp_all add: or_else_def or_value_def patched_def)

text \<open>Trimming is idempotent.\<close>

lemma dropWhile_hd: "xs = dropWhile p ys \<Longrightarrow> xs \<noteq> [] \<Longrightarrow> \<not> p (hd xs)"
  using hd_dropWhile by blast

lemma js_trim_ends:
  "js_trim s = [] \<or> (\<not> js_space (hd (js_trim s)) \<and> \<not> js_space (last (js_trim s)))"
proof (cases "js_trim s = []")
  case False
  let ?a = "dropWhile js_space s"
  let ?b = "dropWhile js_space (rev ?a)"
  have b: "?b \<noteq> []" using False by (simp add: js_trim_def)
  have "last (js_trim s) = hd ?b" using b by (simp add: js_trim_def last_rev)
  moreover have "\<not> js_space (hd ?b)" using b by (rule hd_dropWhile)
  moreover have "hd (js_trim s) = hd ?a"
  proof -
    obtain pre where pre: "rev ?a = pre @ ?b" by (metis takeWhile_dropWhile_id)
    then have "?a = rev ?b @ rev pre" by (metis rev_append rev_rev_ident)
    moreover have "hd (rev ?b @ rev pre) = hd (rev ?b)" using b by (intro hd_append2) simp
    ultimately show ?thesis unfolding js_trim_def by metis
  qed
  moreover have "?a \<noteq> []" using b by (metis dropWhile.simps(1) rev.simps(1))
  ultimately show ?thesis using hd_dropWhile [of js_space s] by simp
qed simp

lemma dropWhile_hd_id: "xs = [] \<or> \<not> p (hd xs) \<Longrightarrow> dropWhile p xs = xs"
  by (cases xs) auto

lemma js_trim_idem [simp]: "js_trim (js_trim s) = js_trim s"
proof -
  have a: "dropWhile js_space (js_trim s) = js_trim s"
    using js_trim_ends [of s] by (intro dropWhile_hd_id) auto
  have "dropWhile js_space (rev (js_trim s)) = rev (js_trim s)"
    using js_trim_ends [of s] by (intro dropWhile_hd_id) (auto simp: hd_rev)
  with a show ?thesis by (simp add: js_trim_def [of "js_trim s"])
qed

definition tidy :: "string option \<Rightarrow> bool" where
  "tidy v \<longleftrightarrow> normalizeText v = v"

lemma trimmed_tidy: "trimmed s = Some t \<Longrightarrow> trimmed t = Some t"
  by (auto simp: trimmed_def Let_def split: if_splits)

lemma trimmed_nonempty: "trimmed s = Some t \<Longrightarrow> t \<noteq> []"
  by (auto simp: trimmed_def Let_def split: if_splits)

lemma tidy_normalize [simp, intro]: "tidy (normalizeText v)"
  by (auto simp: tidy_def normalizeText_def trimmed_tidy split: option.splits)

lemma tidy_None [simp]: "tidy None"
  by (simp add: tidy_def normalizeText_def)

lemma tidy_eq: "tidy v \<Longrightarrow> normalizeText v = v"
  by (simp add: tidy_def)

lemma tidy_Some: "tidy (Some t) \<longleftrightarrow> trimmed t = Some t"
  by (simp add: tidy_def normalizeText_def)

lemma trimmed_idem: "js_trim t = t \<Longrightarrow> t \<noteq> [] \<Longrightarrow> trimmed t = Some t"
  by (simp add: trimmed_def)

end
