(* ===== verification/TaskFlow.thy ===== *)
theory TaskFlow
  imports TaskTypes "HOL-Library.Multiset" "HOL-Library.List_Lexorder" "HOL-Library.Char_ord"
begin

text \<open>
  The registry of task flows (\<open>src/src/tasks/task-flow-registry.ts\<close>) over its SQLite store
  (\<open>task-flow-registry.store.sqlite.ts\<close>), and the access checks of \<open>task-flow-owner-access.ts\<close>. The module
  variables are a record; the table \<open>flow_runs\<close> is a map from the primary key to rows. A column of JSON
  text holds the value it parses to, \<open>None\<close> for \<open>NULL\<close> and for text that does not parse. Opening or reading
  the database may fail (\<open>fr_loadError\<close>); writes to an open database succeed. Every event that a configured
  observer is told of is in \<open>fr_events\<close>.
\<close>

datatype flow_error = OwnerKeyRequired | ControllerIdRequired

definition flow_message :: "flow_error \<Rightarrow> string" where
  "flow_message e = (case e of OwnerKeyRequired \<Rightarrow> ''Flow ownerKey is required.''
     | ControllerIdRequired \<Rightarrow> ''Managed flow controllerId is required.'')"

subsection \<open>Rows of the table\<close>

record FlowRegistryRow =
  fw_flow_id :: string
  fw_sync_mode :: "TaskFlowSyncMode option"
  fw_shape :: "string option"
  fw_owner_key :: string
  fw_requester_origin_json :: "DeliveryContext option"
  fw_controller_id :: "string option"
  fw_revision :: "int option"
  fw_status :: TaskFlowStatus
  fw_notify_policy :: TaskNotifyPolicy
  fw_goal :: string
  fw_current_step :: "string option"
  fw_blocked_task_id :: "string option"
  fw_blocked_summary :: "string option"
  fw_state_json :: "jsval option"
  fw_wait_json :: "jsval option"
  fw_cancel_requested_at :: "int option"
  fw_created_at :: int
  fw_updated_at :: int
  fw_ended_at :: "int option"

definition rowToSyncMode :: "FlowRegistryRow \<Rightarrow> TaskFlowSyncMode" where
  "rowToSyncMode row =
     (case fw_sync_mode row of Some m \<Rightarrow> m
      | None \<Rightarrow> if fw_shape row = Some ''single_task'' then SM_task_mirrored else SM_managed)"

text \<open>\<open>row.x ? { x } : {}\<close> for a column of text: the empty text counts as missing.\<close>

definition nonempty_text :: "string option \<Rightarrow> string option" where
  "nonempty_text v = (case v of Some s \<Rightarrow> if s = [] then None else Some s | None \<Rightarrow> None)"

definition rowToFlowRecord :: "FlowRegistryRow \<Rightarrow> TaskFlowRecord" where
  "rowToFlowRecord row =
     \<lparr>tf_flowId = fw_flow_id row, tf_syncMode = rowToSyncMode row, tf_ownerKey = fw_owner_key row,
      tf_requesterOrigin = fw_requester_origin_json row,
      tf_controllerId = nonempty_text (fw_controller_id row),
      tf_revision = or_value (fw_revision row) 0, tf_status = fw_status row,
      tf_notifyPolicy = fw_notify_policy row, tf_goal = fw_goal row,
      tf_currentStep = nonempty_text (fw_current_step row),
      tf_blockedTaskId = nonempty_text (fw_blocked_task_id row),
      tf_blockedSummary = nonempty_text (fw_blocked_summary row),
      tf_stateJson = fw_state_json row, tf_waitJson = fw_wait_json row,
      tf_cancelRequestedAt = fw_cancel_requested_at row, tf_createdAt = fw_created_at row,
      tf_updatedAt = fw_updated_at row, tf_endedAt = fw_ended_at row\<rparr>"

text \<open>The statement does not name the column \<open>shape\<close>: a new row has \<open>NULL\<close> there, an old one keeps it.\<close>

definition bindFlowRecord :: "string option \<Rightarrow> TaskFlowRecord \<Rightarrow> FlowRegistryRow" where
  "bindFlowRecord shape r =
     \<lparr>fw_flow_id = tf_flowId r, fw_sync_mode = Some (tf_syncMode r), fw_shape = shape,
      fw_owner_key = tf_ownerKey r, fw_requester_origin_json = tf_requesterOrigin r,
      fw_controller_id = tf_controllerId r, fw_revision = Some (tf_revision r), fw_status = tf_status r,
      fw_notify_policy = tf_notifyPolicy r, fw_goal = tf_goal r, fw_current_step = tf_currentStep r,
      fw_blocked_task_id = tf_blockedTaskId r, fw_blocked_summary = tf_blockedSummary r,
      fw_state_json = tf_stateJson r, fw_wait_json = tf_waitJson r,
      fw_cancel_requested_at = tf_cancelRequestedAt r, fw_created_at = tf_createdAt r,
      fw_updated_at = tf_updatedAt r, fw_ended_at = tf_endedAt r\<rparr>"

type_synonym flow_table = "(string, FlowRegistryRow) jsmap"

definition upsertFlowRow :: "TaskFlowRecord \<Rightarrow> flow_table \<Rightarrow> flow_table" where
  "upsertFlowRow flow rows =
     jset rows (tf_flowId flow)
       (bindFlowRecord (case jget rows (tf_flowId flow) of Some old \<Rightarrow> fw_shape old | None \<Rightarrow> None) flow)"

definition deleteFlowRow :: "string \<Rightarrow> flow_table \<Rightarrow> flow_table" where
  "deleteFlowRow flowId rows = jdel rows flowId"

text \<open>\<open>ORDER BY created_at ASC, flow_id ASC\<close>.\<close>

definition selectAllFlows :: "flow_table \<Rightarrow> FlowRegistryRow list" where
  "selectAllFlows rows = sort_key fw_created_at (sort_key fw_flow_id (jvals rows))"

definition loadFlowState :: "flow_table \<Rightarrow> (string, TaskFlowRecord) jsmap" where
  "loadFlowState rows =
     fold (\<lambda>row m. jset m (fw_flow_id row) (rowToFlowRecord row)) (selectAllFlows rows) []"

definition saveFlowState :: "(string, TaskFlowRecord) jsmap \<Rightarrow> flow_table" where
  "saveFlowState flows = fold upsertFlowRow (jvals flows) []"

subsection \<open>State and restore\<close>

datatype TaskFlowRegistryObserverEvent =
    FE_restored "TaskFlowRecord list"
  | FE_upserted TaskFlowRecord "TaskFlowRecord option"
  | FE_deleted string TaskFlowRecord

record flow_registry =
  fr_flows :: "(string, TaskFlowRecord) jsmap"
  fr_restoreAttempted :: bool
  fr_restoreFailure :: "string option"
  fr_table :: flow_table
  fr_loadError :: "string option"
  fr_events :: "TaskFlowRegistryObserverEvent list"

definition fresh_flow_process :: "flow_table \<Rightarrow> string option \<Rightarrow> flow_registry" where
  "fresh_flow_process rows err =
     \<lparr>fr_flows = [], fr_restoreAttempted = False, fr_restoreFailure = None, fr_table = rows,
      fr_loadError = err, fr_events = []\<rparr>"

definition emitFlowEvent :: "TaskFlowRegistryObserverEvent \<Rightarrow> flow_registry \<Rightarrow> flow_registry" where
  "emitFlowEvent e s = s\<lparr>fr_events := fr_events s @ [e]\<rparr>"

definition assertFlowOwnerKey :: "string \<Rightarrow> flow_error + string" where
  "assertFlowOwnerKey ownerKey =
     (case trimmed ownerKey of Some k \<Rightarrow> Inr k | None \<Rightarrow> Inl OwnerKeyRequired)"

definition assertControllerId :: "string option \<Rightarrow> flow_error + string" where
  "assertControllerId controllerId =
     (case normalizeText controllerId of Some c \<Rightarrow> Inr c | None \<Rightarrow> Inl ControllerIdRequired)"

definition normalizeRestoredFlowRecord :: "TaskFlowRecord \<Rightarrow> flow_error + TaskFlowRecord" where
  "normalizeRestoredFlowRecord r =
     (let controllerId = (if tf_syncMode r = SM_managed
            then Some (or_value (normalizeText (tf_controllerId r)) ''core/legacy-restored'') else None)
      in case assertFlowOwnerKey (tf_ownerKey r) of
           Inl e \<Rightarrow> Inl e
         | Inr ownerKey \<Rightarrow> Inr (r\<lparr>tf_ownerKey := ownerKey,
             tf_controllerId := or_else controllerId (tf_controllerId r),
             tf_currentStep := normalizeText (tf_currentStep r),
             tf_blockedTaskId := normalizeText (tf_blockedTaskId r),
             tf_blockedSummary := normalizeText (tf_blockedSummary r),
             tf_revision := max 0 (tf_revision r)\<rparr>))"

fun restore_flows ::
  "(string \<times> TaskFlowRecord) list \<Rightarrow> (string, TaskFlowRecord) jsmap \<Rightarrow>
   flow_error + (string, TaskFlowRecord) jsmap" where
  "restore_flows [] flows = Inr flows"
| "restore_flows ((flowId, flow) # rest) flows =
     (case normalizeRestoredFlowRecord flow of
        Inl e \<Rightarrow> Inl e
      | Inr f \<Rightarrow> restore_flows rest (jset flows flowId f))"

definition ensureFlowRegistryReady :: "flow_registry \<Rightarrow> flow_registry" where
  "ensureFlowRegistryReady s =
     (if fr_restoreAttempted s then s
      else let s = s\<lparr>fr_restoreAttempted := True\<rparr>
           in case fr_loadError s of
                Some e \<Rightarrow> s\<lparr>fr_flows := [], fr_restoreFailure := Some e\<rparr>
              | None \<Rightarrow>
                  (case restore_flows (loadFlowState (fr_table s)) [] of
                     Inl e \<Rightarrow> s\<lparr>fr_flows := [], fr_restoreFailure := Some (flow_message e)\<rparr>
                   | Inr flows \<Rightarrow> emitFlowEvent (FE_restored (jvals flows))
                       (s\<lparr>fr_flows := flows, fr_restoreFailure := None\<rparr>)))"

definition getTaskFlowRegistryRestoreFailure :: "flow_registry \<Rightarrow> flow_registry \<times> string option" where
  "getTaskFlowRegistryRestoreFailure s =
     (let s = ensureFlowRegistryReady s in (s, fr_restoreFailure s))"

subsection \<open>Records and patches\<close>

text \<open>The parameters of \<open>createFlowRecord\<close>.\<close>

record FlowParams =
  cp_syncMode :: "TaskFlowSyncMode option"
  cp_ownerKey :: string
  cp_requesterOrigin :: "DeliveryContext option"
  cp_controllerId :: "string option"
  cp_revision :: "int option"
  cp_status :: "TaskFlowStatus option"
  cp_notifyPolicy :: "TaskNotifyPolicy option"
  cp_goal :: string
  cp_currentStep :: "string option"
  cp_blockedTaskId :: "string option"
  cp_blockedSummary :: "string option"
  cp_stateJson :: "jsval option"
  cp_waitJson :: "jsval option"
  cp_cancelRequestedAt :: "int option"
  cp_createdAt :: "int option"
  cp_updatedAt :: "int option"
  cp_endedAt :: "int option"

text \<open>\<open>None\<close> is a missing key or \<open>undefined\<close>; \<open>Some None\<close> is \<open>null\<close>.\<close>

record FlowRecordPatch =
  fp_status :: "TaskFlowStatus option"
  fp_notifyPolicy :: "TaskNotifyPolicy option"
  fp_goal :: "string option"
  fp_currentStep :: "string option option"
  fp_blockedTaskId :: "string option option"
  fp_blockedSummary :: "string option option"
  fp_controllerId :: "string option option"
  fp_stateJson :: "jsval option"
  fp_waitJson :: "jsval option"
  fp_cancelRequestedAt :: "int option option"
  fp_updatedAt :: "int option"
  fp_endedAt :: "int option option"

definition no_patch :: FlowRecordPatch where
  "no_patch = \<lparr>fp_status = None, fp_notifyPolicy = None, fp_goal = None, fp_currentStep = None,
     fp_blockedTaskId = None, fp_blockedSummary = None, fp_controllerId = None, fp_stateJson = None,
     fp_waitJson = None, fp_cancelRequestedAt = None, fp_updatedAt = None, fp_endedAt = None\<rparr>"

datatype TaskFlowUpdateResult =
    FU_applied TaskFlowRecord
  | FU_not_found
  | FU_conflict TaskFlowRecord

definition buildFlowRecord :: "int \<Rightarrow> string \<Rightarrow> FlowParams \<Rightarrow> flow_error + TaskFlowRecord" where
  "buildFlowRecord clock uuid p =
     (let now = or_value (cp_createdAt p) clock;
          syncMode = or_value (cp_syncMode p) SM_managed;
          controller = (if syncMode = SM_managed
            then (case assertControllerId (cp_controllerId p) of Inl e \<Rightarrow> Inl e | Inr c \<Rightarrow> Inr (Some c))
            else Inr None)
      in case controller of
           Inl e \<Rightarrow> Inl e
         | Inr controllerId \<Rightarrow>
             (case assertFlowOwnerKey (cp_ownerKey p) of
                Inl e \<Rightarrow> Inl e
              | Inr ownerKey \<Rightarrow> Inr \<lparr>tf_flowId = uuid, tf_syncMode = syncMode, tf_ownerKey = ownerKey,
                  tf_requesterOrigin = cp_requesterOrigin p, tf_controllerId = controllerId,
                  tf_revision = max 0 (or_value (cp_revision p) 0),
                  tf_status = or_value (cp_status p) FS_queued,
                  tf_notifyPolicy = or_value (cp_notifyPolicy p) NP_done_only, tf_goal = cp_goal p,
                  tf_currentStep = normalizeText (cp_currentStep p),
                  tf_blockedTaskId = normalizeText (cp_blockedTaskId p),
                  tf_blockedSummary = normalizeText (cp_blockedSummary p),
                  tf_stateJson = cp_stateJson p, tf_waitJson = cp_waitJson p,
                  tf_cancelRequestedAt = cp_cancelRequestedAt p, tf_createdAt = now,
                  tf_updatedAt = or_value (cp_updatedAt p) now, tf_endedAt = cp_endedAt p\<rparr>))"

text \<open>\<open>patch.x === undefined ? current.x : normalizeText(patch.x)\<close>.\<close>

definition patched_text :: "string option option \<Rightarrow> string option \<Rightarrow> string option" where
  "patched_text p old = (case p of None \<Rightarrow> old | Some v \<Rightarrow> normalizeText v)"

definition patched_flow :: "int \<Rightarrow> TaskFlowRecord \<Rightarrow> FlowRecordPatch \<Rightarrow> TaskFlowRecord" where
  "patched_flow now current p =
     current\<lparr>
       tf_status := or_value (fp_status p) (tf_status current),
       tf_notifyPolicy := or_value (fp_notifyPolicy p) (tf_notifyPolicy current),
       tf_goal := or_value (nonempty_text (fp_goal p)) (tf_goal current),
       tf_controllerId := patched_text (fp_controllerId p) (tf_controllerId current),
       tf_currentStep := patched_text (fp_currentStep p) (tf_currentStep current),
       tf_blockedTaskId := patched_text (fp_blockedTaskId p) (tf_blockedTaskId current),
       tf_blockedSummary := patched_text (fp_blockedSummary p) (tf_blockedSummary current),
       tf_stateJson := or_else (fp_stateJson p) (tf_stateJson current),
       tf_waitJson := or_else (fp_waitJson p) (tf_waitJson current),
       tf_cancelRequestedAt := patched (fp_cancelRequestedAt p) (tf_cancelRequestedAt current),
       tf_revision := tf_revision current + 1,
       tf_updatedAt := or_value (fp_updatedAt p) now,
       tf_endedAt := patched (fp_endedAt p) (tf_endedAt current)\<rparr>"

definition applyFlowPatch :: "int \<Rightarrow> TaskFlowRecord \<Rightarrow> FlowRecordPatch \<Rightarrow> flow_error + TaskFlowRecord" where
  "applyFlowPatch now current p =
     (if tf_syncMode current = SM_managed
      then (case assertControllerId (patched_text (fp_controllerId p) (tf_controllerId current)) of
              Inl e \<Rightarrow> Inl e | Inr _ \<Rightarrow> Inr (patched_flow now current p))
      else Inr (patched_flow now current p))"

subsection \<open>Operations\<close>

definition writeFlowRecord ::
  "TaskFlowRecord \<Rightarrow> TaskFlowRecord option \<Rightarrow> flow_registry \<Rightarrow> flow_registry \<times> TaskFlowRecord" where
  "writeFlowRecord next previous s =
     (emitFlowEvent (FE_upserted next previous)
        (s\<lparr>fr_flows := jset (fr_flows s) (tf_flowId next) next, fr_table := upsertFlowRow next (fr_table s)\<rparr>),
      next)"

definition createFlowRecord ::
  "int \<Rightarrow> string \<Rightarrow> FlowParams \<Rightarrow> flow_registry \<Rightarrow> flow_registry \<times> (flow_error + TaskFlowRecord)" where
  "createFlowRecord now uuid params s =
     (let s = ensureFlowRegistryReady s
      in case buildFlowRecord now uuid params of
           Inl e \<Rightarrow> (s, Inl e)
         | Inr flow \<Rightarrow> (let (s, f) = writeFlowRecord flow None s in (s, Inr f)))"

definition createManagedTaskFlow ::
  "int \<Rightarrow> string \<Rightarrow> FlowParams \<Rightarrow> flow_registry \<Rightarrow> flow_registry \<times> (flow_error + TaskFlowRecord)" where
  "createManagedTaskFlow now uuid params s =
     (case assertControllerId (cp_controllerId params) of
        Inl e \<Rightarrow> (s, Inl e)
      | Inr c \<Rightarrow> createFlowRecord now uuid (params\<lparr>cp_syncMode := Some SM_managed, cp_controllerId := Some c\<rparr>) s)"

definition deriveTaskFlowStatusFromTask :: "TaskRecord \<Rightarrow> TaskFlowStatus" where
  "deriveTaskFlowStatusFromTask task =
     (case tr_status task of
        BT_queued \<Rightarrow> FS_queued
      | BT_running \<Rightarrow> FS_running
      | BT_succeeded \<Rightarrow> if tr_terminalOutcome task = Some TO_blocked then FS_blocked else FS_succeeded
      | BT_cancelled \<Rightarrow> FS_cancelled
      | BT_lost \<Rightarrow> FS_lost
      | _ \<Rightarrow> FS_failed)"

text \<open>The statuses that the two functions below treat as terminal; \<open>blocked\<close> is among them.\<close>

definition ends_flow :: "TaskFlowStatus \<Rightarrow> bool" where
  "ends_flow st \<longleftrightarrow> st \<in> {FS_succeeded, FS_blocked, FS_failed, FS_cancelled, FS_lost}"

definition resolveFlowGoal :: "TaskRecord \<Rightarrow> string" where
  "resolveFlowGoal task =
     or_value (or_else (normalizeText (tr_label task)) (trimmed (tr_task task))) ''Background task''"

definition resolveFlowBlockedSummary :: "TaskRecord \<Rightarrow> string option" where
  "resolveFlowBlockedSummary task =
     (if tr_status task \<noteq> BT_succeeded \<or> tr_terminalOutcome task \<noteq> Some TO_blocked then None
      else or_else (normalizeText (tr_terminalSummary task)) (normalizeText (tr_progressSummary task)))"

definition createTaskFlowForTask ::
  "int \<Rightarrow> string \<Rightarrow> TaskRecord \<Rightarrow> DeliveryContext option \<Rightarrow> flow_registry \<Rightarrow>
   flow_registry \<times> (flow_error + TaskFlowRecord)" where
  "createTaskFlowForTask now uuid task requesterOrigin s =
     (let st = deriveTaskFlowStatusFromTask task
      in createFlowRecord now uuid
        \<lparr>cp_syncMode = Some SM_task_mirrored, cp_ownerKey = tr_ownerKey task, cp_requesterOrigin = requesterOrigin,
         cp_controllerId = None, cp_revision = None, cp_status = Some st,
         cp_notifyPolicy = Some (tr_notifyPolicy task), cp_goal = resolveFlowGoal task, cp_currentStep = None,
         cp_blockedTaskId = (if st = FS_blocked then trimmed (tr_taskId task) else None),
         cp_blockedSummary = resolveFlowBlockedSummary task, cp_stateJson = None, cp_waitJson = None,
         cp_cancelRequestedAt = None, cp_createdAt = Some (tr_createdAt task),
         cp_updatedAt = Some (or_value (tr_lastEventAt task) (tr_createdAt task)),
         cp_endedAt = (if ends_flow st
           then Some (or_value (or_else (tr_endedAt task) (tr_lastEventAt task)) (tr_createdAt task)) else None)\<rparr> s)"

definition updateFlowRecordByIdUnchecked ::
  "int \<Rightarrow> string \<Rightarrow> FlowRecordPatch \<Rightarrow> flow_registry \<Rightarrow>
   flow_registry \<times> (flow_error + TaskFlowRecord option)" where
  "updateFlowRecordByIdUnchecked now flowId patch s =
     (let s = ensureFlowRegistryReady s
      in case jget (fr_flows s) flowId of
           None \<Rightarrow> (s, Inr None)
         | Some current \<Rightarrow>
             (case applyFlowPatch now current patch of
                Inl e \<Rightarrow> (s, Inl e)
              | Inr f \<Rightarrow> (let (s, f) = writeFlowRecord f (Some current) s in (s, Inr (Some f)))))"

definition updateFlowRecordByIdExpectedRevision ::
  "int \<Rightarrow> string \<Rightarrow> int \<Rightarrow> FlowRecordPatch \<Rightarrow> flow_registry \<Rightarrow>
   flow_registry \<times> (flow_error + TaskFlowUpdateResult)" where
  "updateFlowRecordByIdExpectedRevision now flowId expectedRevision patch s =
     (let s = ensureFlowRegistryReady s
      in case jget (fr_flows s) flowId of
           None \<Rightarrow> (s, Inr FU_not_found)
         | Some current \<Rightarrow>
             (if tf_revision current \<noteq> expectedRevision then (s, Inr (FU_conflict current))
              else case applyFlowPatch now current patch of
                     Inl e \<Rightarrow> (s, Inl e)
                   | Inr f \<Rightarrow> (let (s, f) = writeFlowRecord f (Some current) s in (s, Inr (FU_applied f)))))"

text \<open>The parameters that the five named updates share.\<close>

record FlowUpdateParams =
  up_flowId :: string
  up_expectedRevision :: int
  up_currentStep :: "string option option"
  up_stateJson :: "jsval option"
  up_waitJson :: "jsval option"
  up_blockedTaskId :: "string option option"
  up_blockedSummary :: "string option option"
  up_updatedAt :: "int option"
  up_endedAt :: "int option"

abbreviation given :: "string option option \<Rightarrow> string option" where
  "given v \<equiv> (case v of Some w \<Rightarrow> w | None \<Rightarrow> None)"

definition setFlowWaiting ::
  "int \<Rightarrow> FlowUpdateParams \<Rightarrow> flow_registry \<Rightarrow> flow_registry \<times> (flow_error + TaskFlowUpdateResult)" where
  "setFlowWaiting now p =
     updateFlowRecordByIdExpectedRevision now (up_flowId p) (up_expectedRevision p)
       (no_patch\<lparr>fp_status := Some
          (if normalizeText (given (up_blockedTaskId p)) \<noteq> None \<or> normalizeText (given (up_blockedSummary p)) \<noteq> None
           then FS_blocked else FS_waiting),
         fp_currentStep := up_currentStep p, fp_stateJson := up_stateJson p, fp_waitJson := up_waitJson p,
         fp_blockedTaskId := up_blockedTaskId p, fp_blockedSummary := up_blockedSummary p,
         fp_endedAt := Some None, fp_updatedAt := up_updatedAt p\<rparr>)"

text \<open>\<open>null\<close> for \<open>waitJson\<close> is a JSON value: it is stored, not removed.\<close>

definition resumeFlow ::
  "int \<Rightarrow> TaskFlowStatus option \<Rightarrow> FlowUpdateParams \<Rightarrow> flow_registry \<Rightarrow>
   flow_registry \<times> (flow_error + TaskFlowUpdateResult)" where
  "resumeFlow now status p =
     updateFlowRecordByIdExpectedRevision now (up_flowId p) (up_expectedRevision p)
       (no_patch\<lparr>fp_status := Some (or_value status FS_queued),
         fp_currentStep := up_currentStep p, fp_stateJson := up_stateJson p, fp_waitJson := Some JNull,
         fp_blockedTaskId := Some None, fp_blockedSummary := Some None,
         fp_endedAt := Some None, fp_updatedAt := up_updatedAt p\<rparr>)"

definition finishFlow ::
  "int \<Rightarrow> FlowUpdateParams \<Rightarrow> flow_registry \<Rightarrow> flow_registry \<times> (flow_error + TaskFlowUpdateResult)" where
  "finishFlow now p =
     (let endedAt = or_value (or_else (up_endedAt p) (up_updatedAt p)) now
      in updateFlowRecordByIdExpectedRevision now (up_flowId p) (up_expectedRevision p)
           (no_patch\<lparr>fp_status := Some FS_succeeded,
             fp_currentStep := up_currentStep p, fp_stateJson := up_stateJson p, fp_waitJson := Some JNull,
             fp_blockedTaskId := Some None, fp_blockedSummary := Some None,
             fp_endedAt := Some (Some endedAt), fp_updatedAt := Some (or_value (up_updatedAt p) endedAt)\<rparr>))"

definition failFlow ::
  "int \<Rightarrow> FlowUpdateParams \<Rightarrow> flow_registry \<Rightarrow> flow_registry \<times> (flow_error + TaskFlowUpdateResult)" where
  "failFlow now p =
     (let endedAt = or_value (or_else (up_endedAt p) (up_updatedAt p)) now
      in updateFlowRecordByIdExpectedRevision now (up_flowId p) (up_expectedRevision p)
           (no_patch\<lparr>fp_status := Some FS_failed,
             fp_currentStep := up_currentStep p, fp_stateJson := up_stateJson p, fp_waitJson := Some JNull,
             fp_blockedTaskId := up_blockedTaskId p, fp_blockedSummary := up_blockedSummary p,
             fp_endedAt := Some (Some endedAt), fp_updatedAt := Some (or_value (up_updatedAt p) endedAt)\<rparr>))"

definition requestFlowCancel ::
  "int \<Rightarrow> string \<Rightarrow> int \<Rightarrow> int option \<Rightarrow> int option \<Rightarrow> flow_registry \<Rightarrow>
   flow_registry \<times> (flow_error + TaskFlowUpdateResult)" where
  "requestFlowCancel now flowId expectedRevision cancelRequestedAt updatedAt =
     updateFlowRecordByIdExpectedRevision now flowId expectedRevision
       (no_patch\<lparr>fp_cancelRequestedAt := Some (Some (or_value (or_else cancelRequestedAt updatedAt) now)),
         fp_updatedAt := updatedAt\<rparr>)"

definition getTaskFlowById :: "string \<Rightarrow> flow_registry \<Rightarrow> flow_registry \<times> TaskFlowRecord option" where
  "getTaskFlowById flowId s = (let s = ensureFlowRegistryReady s in (s, jget (fr_flows s) flowId))"

definition syncFlowFromTask ::
  "int \<Rightarrow> TaskRecord \<Rightarrow> flow_registry \<Rightarrow> flow_registry \<times> (flow_error + TaskFlowRecord option)" where
  "syncFlowFromTask now task s =
     (case normalizeText (tr_parentFlowId task) of
        None \<Rightarrow> (s, Inr None)
      | Some flowId \<Rightarrow>
          (case getTaskFlowById flowId s of
             (s, None) \<Rightarrow> (s, Inr None)
           | (s, Some flow) \<Rightarrow>
               (if tf_syncMode flow \<noteq> SM_task_mirrored then (s, Inr (Some flow))
                else let st = deriveTaskFlowStatusFromTask task
                     in updateFlowRecordByIdUnchecked now flowId
                       (no_patch\<lparr>fp_status := Some st, fp_notifyPolicy := Some (tr_notifyPolicy task),
                         fp_goal := Some (resolveFlowGoal task),
                         fp_blockedTaskId := Some (if st = FS_blocked then trimmed (tr_taskId task) else None),
                         fp_blockedSummary := Some (if st = FS_blocked then resolveFlowBlockedSummary task else None),
                         fp_waitJson := Some JNull,
                         fp_updatedAt := Some (or_value (tr_lastEventAt task) now),
                         fp_endedAt := Some (if ends_flow st
                           then Some (or_value (or_else (tr_endedAt task) (tr_lastEventAt task)) now) else None)\<rparr>) s)))"

definition listTaskFlowsForOwnerKey :: "string \<Rightarrow> flow_registry \<Rightarrow> flow_registry \<times> TaskFlowRecord list" where
  "listTaskFlowsForOwnerKey ownerKey s =
     (let s = ensureFlowRegistryReady s
      in case trimmed ownerKey of
           None \<Rightarrow> (s, [])
         | Some k \<Rightarrow> (s, sort_key (\<lambda>f. - tf_createdAt f)
             (filter (\<lambda>f. js_trim (tf_ownerKey f) = k) (jvals (fr_flows s)))))"

definition first_of :: "'a list \<Rightarrow> 'a option" where
  "first_of xs = (case xs of [] \<Rightarrow> None | x # _ \<Rightarrow> Some x)"

definition findLatestTaskFlowForOwnerKey ::
  "string \<Rightarrow> flow_registry \<Rightarrow> flow_registry \<times> TaskFlowRecord option" where
  "findLatestTaskFlowForOwnerKey ownerKey s =
     (let (s, fs) = listTaskFlowsForOwnerKey ownerKey s in (s, first_of fs))"

definition resolveTaskFlowForLookupToken ::
  "string \<Rightarrow> flow_registry \<Rightarrow> flow_registry \<times> TaskFlowRecord option" where
  "resolveTaskFlowForLookupToken token s =
     (case trimmed token of
        None \<Rightarrow> (s, None)
      | Some lookup \<Rightarrow>
          (case getTaskFlowById lookup s of
             (s, Some f) \<Rightarrow> (s, Some f)
           | (s, None) \<Rightarrow> findLatestTaskFlowForOwnerKey lookup s))"

definition listTaskFlowRecords :: "flow_registry \<Rightarrow> flow_registry \<times> TaskFlowRecord list" where
  "listTaskFlowRecords s =
     (let s = ensureFlowRegistryReady s in (s, sort_key (\<lambda>f. - tf_createdAt f) (jvals (fr_flows s))))"

definition deleteTaskFlowRecordById :: "string \<Rightarrow> flow_registry \<Rightarrow> flow_registry \<times> bool" where
  "deleteTaskFlowRecordById flowId s =
     (let s = ensureFlowRegistryReady s
      in case jget (fr_flows s) flowId of
           None \<Rightarrow> (s, False)
         | Some current \<Rightarrow>
             (emitFlowEvent (FE_deleted flowId current)
                (s\<lparr>fr_flows := jdel (fr_flows s) flowId, fr_table := deleteFlowRow flowId (fr_table s)\<rparr>), True))"

definition resetTaskFlowRegistryForTests :: "bool \<Rightarrow> flow_registry \<Rightarrow> flow_registry" where
  "resetTaskFlowRegistryForTests persist s =
     (let s = s\<lparr>fr_flows := [], fr_restoreAttempted := False, fr_restoreFailure := None\<rparr>
      in if persist then s\<lparr>fr_table := saveFlowState (fr_flows s)\<rparr> else s)"

subsection \<open>Access for an owner\<close>

definition canOwnerAccessFlow :: "TaskFlowRecord \<Rightarrow> string \<Rightarrow> bool" where
  "canOwnerAccessFlow flow callerOwnerKey \<longleftrightarrow> trimmed (tf_ownerKey flow) = trimmed callerOwnerKey"

definition getTaskFlowByIdForOwner ::
  "string \<Rightarrow> string \<Rightarrow> flow_registry \<Rightarrow> flow_registry \<times> TaskFlowRecord option" where
  "getTaskFlowByIdForOwner flowId callerOwnerKey s =
     (case getTaskFlowById flowId s of
        (s, Some flow) \<Rightarrow> (s, if canOwnerAccessFlow flow callerOwnerKey then Some flow else None)
      | (s, None) \<Rightarrow> (s, None))"

definition listTaskFlowsForOwner :: "string \<Rightarrow> flow_registry \<Rightarrow> flow_registry \<times> TaskFlowRecord list" where
  "listTaskFlowsForOwner callerOwnerKey s =
     (case trimmed callerOwnerKey of
        Some k \<Rightarrow> listTaskFlowsForOwnerKey k s | None \<Rightarrow> (s, []))"

definition findLatestTaskFlowForOwner ::
  "string \<Rightarrow> flow_registry \<Rightarrow> flow_registry \<times> TaskFlowRecord option" where
  "findLatestTaskFlowForOwner callerOwnerKey s =
     (case trimmed callerOwnerKey of
        Some k \<Rightarrow> findLatestTaskFlowForOwnerKey k s | None \<Rightarrow> (s, None))"

definition resolveTaskFlowForLookupTokenForOwner ::
  "string \<Rightarrow> string \<Rightarrow> flow_registry \<Rightarrow> flow_registry \<times> TaskFlowRecord option" where
  "resolveTaskFlowForLookupTokenForOwner token callerOwnerKey s =
     (case getTaskFlowByIdForOwner token callerOwnerKey s of
        (s, Some direct) \<Rightarrow> (s, Some direct)
      | (s, None) \<Rightarrow>
          (case trimmed token of
             None \<Rightarrow> (s, None)
           | Some t \<Rightarrow> if trimmed callerOwnerKey \<noteq> Some t then (s, None)
               else findLatestTaskFlowForOwner t s))"

subsection \<open>Well-formed flows and rows\<close>

definition flow_wf :: "TaskFlowRecord \<Rightarrow> bool" where
  "flow_wf f \<longleftrightarrow> trimmed (tf_ownerKey f) = Some (tf_ownerKey f) \<and> 0 \<le> tf_revision f \<and>
     tidy (tf_controllerId f) \<and> (tf_syncMode f = SM_managed \<longrightarrow> tf_controllerId f \<noteq> None) \<and>
     tidy (tf_currentStep f) \<and> tidy (tf_blockedTaskId f) \<and> tidy (tf_blockedSummary f)"

lemma nonempty_tidy: "tidy v \<Longrightarrow> nonempty_text v = v"
  by (auto simp: tidy_def nonempty_text_def normalizeText_def trimmed_def Let_def split: option.splits if_splits)

lemma row_roundtrip: "flow_wf f \<Longrightarrow> rowToFlowRecord (bindFlowRecord sh f) = f"
  by (simp add: rowToFlowRecord_def bindFlowRecord_def rowToSyncMode_def flow_wf_def nonempty_tidy)

lemma restore_wf: "flow_wf f \<Longrightarrow> normalizeRestoredFlowRecord f = Inr f"
  by (auto simp: normalizeRestoredFlowRecord_def flow_wf_def assertFlowOwnerKey_def tidy_eq max_def)

lemma tidy_patched [simp]: "tidy old \<Longrightarrow> tidy (patched_text p old)"
  by (simp add: patched_text_def split: option.split)

lemma controller_Inr: "assertControllerId v = Inr c \<longleftrightarrow> normalizeText v = Some c"
  by (simp add: assertControllerId_def split: option.split)

lemma owner_Inr: "assertFlowOwnerKey k = Inr t \<longleftrightarrow> trimmed k = Some t"
  by (simp add: assertFlowOwnerKey_def split: option.split)

lemma build_wf:
  assumes "buildFlowRecord now uuid p = Inr f"
  shows "flow_wf f \<and> tf_flowId f = uuid"
proof -
  have c: "tidy (Some c)" if "normalizeText v = Some c" for c v using tidy_normalize [of v] that by simp
  show ?thesis
    using assms
    by (auto simp: buildFlowRecord_def Let_def controller_Inr owner_Inr flow_wf_def trimmed_tidy c
        split: if_splits sum.splits dest: sym [of "Some _"])
qed

lemma patch_Inr:
  "applyFlowPatch now cur p = Inr f \<longleftrightarrow> f = patched_flow now cur p \<and>
     (tf_syncMode cur = SM_managed \<longrightarrow> normalizeText (patched_text (fp_controllerId p) (tf_controllerId cur)) \<noteq> None)"
  by (auto simp: applyFlowPatch_def assertControllerId_def split: option.split)

lemma patch_wf:
  assumes "flow_wf cur" and "applyFlowPatch now cur p = Inr f"
  shows "flow_wf f \<and> tf_flowId f = tf_flowId cur \<and> tf_revision f = tf_revision cur + 1"
proof -
  have "normalizeText v \<noteq> None \<Longrightarrow> v \<noteq> None" for v by (cases v) (simp_all add: normalizeText_def)
  with assms show ?thesis unfolding patch_Inr by (simp add: patched_flow_def flow_wf_def)
qed

definition table_wf :: "flow_table \<Rightarrow> bool" where
  "table_wf rows \<longleftrightarrow> jwf rows \<and>
     (\<forall>i row. jget rows i = Some row \<longrightarrow> fw_flow_id row = i \<and> flow_wf (rowToFlowRecord row))"

definition stored_flow :: "flow_table \<Rightarrow> string \<Rightarrow> TaskFlowRecord option" where
  "stored_flow rows i = map_option rowToFlowRecord (jget rows i)"

lemma stored_upsert:
  "flow_wf f \<Longrightarrow> stored_flow (upsertFlowRow f rows) i = (if i = tf_flowId f then Some f else stored_flow rows i)"
  by (simp add: stored_flow_def upsertFlowRow_def row_roundtrip)

lemma stored_delete: "stored_flow (deleteFlowRow j rows) i = (if i = j then None else stored_flow rows i)"
  by (simp add: stored_flow_def deleteFlowRow_def)

lemma table_wf_upsert: "table_wf rows \<Longrightarrow> flow_wf f \<Longrightarrow> table_wf (upsertFlowRow f rows)"
  by (simp add: table_wf_def upsertFlowRow_def row_roundtrip, simp add: bindFlowRecord_def)

lemma table_wf_delete: "table_wf rows \<Longrightarrow> table_wf (deleteFlowRow i rows)"
  by (simp add: table_wf_def deleteFlowRow_def)

lemma stored_wf: "table_wf rows \<Longrightarrow> stored_flow rows i = Some f \<Longrightarrow> flow_wf f \<and> tf_flowId f = i"
  by (auto simp: stored_flow_def table_wf_def rowToFlowRecord_def)

text \<open>Loading: the order of the rows does not matter, as their keys differ.\<close>

lemma fold_jset_other:
  "j \<notin> key ` set xs \<Longrightarrow> jget (fold (\<lambda>x m. jset m (key x) (g x)) xs acc) j = jget acc j"
  by (induction xs arbitrary: acc) auto

lemma fold_jset_get:
  "distinct (map key xs) \<Longrightarrow> x \<in> set xs \<Longrightarrow> jget (fold (\<lambda>x m. jset m (key x) (g x)) xs acc) (key x) = Some (g x)"
proof (induction xs arbitrary: acc)
  case (Cons y ys)
  then show ?case using fold_jset_other [of "key y" key ys g] by auto
qed simp

lemma fold_jset_wf: "jwf acc \<Longrightarrow> jwf (fold (\<lambda>x m. jset m (key x) (g x)) xs acc)"
  by (rule fold_keeps) simp_all

lemma keys_of_wf:
  assumes "jwf m" and "\<And>k v. jget m k = Some v \<Longrightarrow> key v = k"
  shows "map key (jvals m) = jkeys m"
  using assms by (auto simp flip: jget_mem)

lemma load_get:
  assumes "table_wf rows"
  shows "jget (loadFlowState rows) i = stored_flow rows i" and "jwf (loadFlowState rows)"
proof -
  let ?L = "selectAllFlows rows"
  have wf: "jwf rows" and key: "\<And>k v. jget rows k = Some v \<Longrightarrow> fw_flow_id v = k"
    using assms by (auto simp: table_wf_def)
  have set: "set ?L = set (jvals rows)" by (simp add: selectAllFlows_def)
  have "mset ?L = mset (jvals rows)" by (simp add: selectAllFlows_def)
  then have "mset (map fw_flow_id ?L) = mset (map fw_flow_id (jvals rows))" by (simp only: mset_map)
  moreover have "distinct (map fw_flow_id (jvals rows))"
  proof -
    have "map fw_flow_id (jvals rows) = jkeys rows" using wf key by (rule keys_of_wf)
    moreover have "distinct (jkeys rows)" using wf unfolding jwf_def .
    ultimately show ?thesis by (simp only:)
  qed
  ultimately have dist: "distinct (map fw_flow_id ?L)" by (rule mset_eq_imp_distinct_iff [THEN iffD2])
  show "jget (loadFlowState rows) i = stored_flow rows i"
  proof (cases "jget rows i")
    case (Some row)
    then have "row \<in> set ?L" and "fw_flow_id row = i" using jvals_mem [OF wf] key unfolding set by blast+
    with fold_jset_get [OF dist, of row rowToFlowRecord "[]"] Some show ?thesis
      by (simp add: loadFlowState_def stored_flow_def)
  next
    case None
    then have "i \<notin> fw_flow_id ` set ?L" using jvals_mem [OF wf] key unfolding set by fastforce
    with fold_jset_other [of i fw_flow_id ?L rowToFlowRecord "[]"] None show ?thesis
      by (simp add: loadFlowState_def stored_flow_def)
  qed
  show "jwf (loadFlowState rows)" by (simp add: loadFlowState_def fold_jset_wf)
qed

lemma restore_all:
  "\<forall>(i, f)\<in>set m. flow_wf f \<Longrightarrow> restore_flows m acc = Inr (js_spread acc m)"
  by (induction m arbitrary: acc) (auto simp: js_spread_def restore_wf)

lemma restore_table:
  assumes "table_wf rows"
  shows "\<exists>flows. restore_flows (loadFlowState rows) [] = Inr flows \<and> jwf flows \<and>
    (\<forall>i. jget flows i = stored_flow rows i)"
proof -
  let ?m = "loadFlowState rows"
  have "\<forall>(i, f)\<in>set ?m. flow_wf f"
    using assms load_get [OF assms] stored_wf [OF assms] by (auto simp: jget_mem)
  from restore_all [OF this, of "[]"] load_get [OF assms] show ?thesis
    by (simp add: jget_js_spread split: option.split)
qed

subsection \<open>Histories\<close>

text \<open>The flows in memory are the stored ones, all of them unless the restore has failed.\<close>

definition flow_inv :: "flow_registry \<Rightarrow> bool" where
  "flow_inv s \<longleftrightarrow> table_wf (fr_table s) \<and> jwf (fr_flows s) \<and>
     (\<forall>i f. jget (fr_flows s) i = Some f \<longrightarrow> stored_flow (fr_table s) i = Some f) \<and>
     (fr_restoreAttempted s \<longrightarrow> fr_restoreFailure s = None \<longrightarrow>
        (\<forall>i. jget (fr_flows s) i = stored_flow (fr_table s) i))"

lemma ready_table [simp]: "fr_table (ensureFlowRegistryReady s) = fr_table s"
  by (auto simp: ensureFlowRegistryReady_def Let_def emitFlowEvent_def split: option.split sum.split)

lemma ready_attempted [simp]: "fr_restoreAttempted (ensureFlowRegistryReady s)"
  by (auto simp: ensureFlowRegistryReady_def Let_def emitFlowEvent_def split: option.split sum.split)

lemma ready_idem [simp]: "ensureFlowRegistryReady (ensureFlowRegistryReady s) = ensureFlowRegistryReady s"
  by (simp add: ensureFlowRegistryReady_def [of "ensureFlowRegistryReady s"])

lemma ready_id: "fr_restoreAttempted s \<Longrightarrow> ensureFlowRegistryReady s = s"
  by (simp add: ensureFlowRegistryReady_def)

lemma ready_inv:
  assumes "flow_inv s"
  shows "flow_inv (ensureFlowRegistryReady s)"
proof (cases "fr_restoreAttempted s")
  case False
  from assms have t: "table_wf (fr_table s)" by (simp add: flow_inv_def)
  from restore_table [OF t] obtain flows where "restore_flows (loadFlowState (fr_table s)) [] = Inr flows"
    "jwf flows" "\<forall>i. jget flows i = stored_flow (fr_table s) i" by blast
  with False t show ?thesis
    by (simp add: flow_inv_def ensureFlowRegistryReady_def Let_def emitFlowEvent_def split: option.split)
qed (simp add: ready_id assms)

text \<open>What an operation may do; the label is the id of a flow it creates.\<close>

inductive flow_step :: "string option \<Rightarrow> flow_registry \<Rightarrow> flow_registry \<Rightarrow> bool" where
  idle: "flow_step None s s"
| ready: "flow_step None s (ensureFlowRegistryReady s)"
| create: "flow_wf f \<Longrightarrow>
    flow_step (Some (tf_flowId f)) s (fst (writeFlowRecord f None (ensureFlowRegistryReady s)))"
| update: "jget (fr_flows (ensureFlowRegistryReady s)) (tf_flowId f) = Some cur \<Longrightarrow> flow_wf f \<Longrightarrow>
    tf_revision f = tf_revision cur + 1 \<Longrightarrow>
    flow_step None s (fst (writeFlowRecord f (Some cur) (ensureFlowRegistryReady s)))"
| delete: "flow_step None s (fst (deleteTaskFlowRecordById i s))"
| restart: "flow_step None s (fresh_flow_process (fr_table s) err)"

inductive_cases flow_stepE: "flow_step c s s'"

datatype flow_op =
    FL_create int string FlowParams
  | FL_createManaged int string FlowParams
  | FL_createForTask int string TaskRecord "DeliveryContext option"
  | FL_update int string int FlowRecordPatch
  | FL_sync int TaskRecord
  | FL_delete string
  | FL_read
  | FL_restart "string option"

fun flow_apply :: "flow_op \<Rightarrow> flow_registry \<Rightarrow> flow_registry" where
  "flow_apply (FL_create now uuid p) s = fst (createFlowRecord now uuid p s)"
| "flow_apply (FL_createManaged now uuid p) s = fst (createManagedTaskFlow now uuid p s)"
| "flow_apply (FL_createForTask now uuid t org) s = fst (createTaskFlowForTask now uuid t org s)"
| "flow_apply (FL_update now i n p) s = fst (updateFlowRecordByIdExpectedRevision now i n p s)"
| "flow_apply (FL_sync now t) s = fst (syncFlowFromTask now t s)"
| "flow_apply (FL_delete i) s = fst (deleteTaskFlowRecordById i s)"
| "flow_apply FL_read s = ensureFlowRegistryReady s"
| "flow_apply (FL_restart err) s = fresh_flow_process (fr_table s) err"

fun flow_creates :: "flow_op \<Rightarrow> string option" where
  "flow_creates (FL_create now uuid p) = Some uuid"
| "flow_creates (FL_createManaged now uuid p) = Some uuid"
| "flow_creates (FL_createForTask now uuid t org) = Some uuid"
| "flow_creates _ = None"

text \<open>\<open>crypto.randomUUID()\<close> gives an id that no stored flow has.\<close>

definition flow_ok :: "flow_registry \<Rightarrow> flow_op \<Rightarrow> bool" where
  "flow_ok s x \<longleftrightarrow> (case flow_creates x of Some i \<Rightarrow> \<not> jhas (fr_table s) i | None \<Rightarrow> True)"

definition step_of :: "string option \<Rightarrow> flow_registry \<Rightarrow> flow_registry \<Rightarrow> bool" where
  "step_of c s s' \<longleftrightarrow> (\<exists>c'. flow_step c' s s' \<and> (c' = None \<or> c' = c))"

lemma step_create: "step_of (Some uuid) s (fst (createFlowRecord now uuid p s))"
proof (cases "buildFlowRecord now uuid p")
  case (Inl e)
  then show ?thesis by (auto simp: step_of_def createFlowRecord_def Let_def intro: flow_step.ready)
next
  case (Inr f)
  from build_wf [OF this] have f: "flow_wf f" "tf_flowId f = uuid" by auto
  have "fst (createFlowRecord now uuid p s) = fst (writeFlowRecord f None (ensureFlowRegistryReady s))"
    using Inr by (simp add: createFlowRecord_def Let_def split: prod.split)
  with flow_step.create [OF f(1), of s] f(2) show ?thesis unfolding step_of_def by metis
qed

lemma current_wf:
  assumes "flow_inv s" and "jget (fr_flows s) i = Some cur"
  shows "flow_wf cur \<and> tf_flowId cur = i"
  using assms stored_wf by (metis flow_inv_def)

lemma step_write:
  assumes "flow_inv s" and "jget (fr_flows (ensureFlowRegistryReady s)) i = Some cur"
    and "applyFlowPatch now cur p = Inr f"
  shows "flow_step None s (fst (writeFlowRecord f (Some cur) (ensureFlowRegistryReady s)))"
proof -
  have cur: "flow_wf cur" "tf_flowId cur = i" using current_wf [OF ready_inv [OF assms(1)] assms(2)] by auto
  from patch_wf [OF cur(1) assms(3)] assms(2) cur(2) show ?thesis by (intro flow_step.update) auto
qed

lemma step_unchecked:
  assumes "flow_inv s"
  shows "flow_step None s (fst (updateFlowRecordByIdUnchecked now i p s))"
proof (cases "jget (fr_flows (ensureFlowRegistryReady s)) i")
  case None
  then show ?thesis by (simp add: updateFlowRecordByIdUnchecked_def Let_def flow_step.ready)
next
  case (Some cur)
  show ?thesis
  proof (cases "applyFlowPatch now cur p")
    case (Inr f)
    with step_write [OF assms Some] Some show ?thesis
      by (simp add: updateFlowRecordByIdUnchecked_def Let_def split: prod.split) (metis fst_conv)
  qed (use Some in \<open>simp add: updateFlowRecordByIdUnchecked_def Let_def flow_step.ready\<close>)
qed

lemma step_expected:
  assumes "flow_inv s"
  shows "flow_step None s (fst (updateFlowRecordByIdExpectedRevision now i n p s))"
proof (cases "jget (fr_flows (ensureFlowRegistryReady s)) i")
  case None
  then show ?thesis by (simp add: updateFlowRecordByIdExpectedRevision_def Let_def flow_step.ready)
next
  case (Some cur)
  show ?thesis
  proof (cases "applyFlowPatch now cur p")
    case (Inr f)
    with step_write [OF assms Some] Some show ?thesis
      by (simp add: updateFlowRecordByIdExpectedRevision_def Let_def flow_step.ready split: prod.split)
        (metis fst_conv)
  qed (use Some in \<open>simp add: updateFlowRecordByIdExpectedRevision_def Let_def flow_step.ready\<close>)
qed

lemma step_sync:
  assumes "flow_inv s"
  shows "flow_step None s (fst (syncFlowFromTask now t s))"
proof (cases "normalizeText (tr_parentFlowId t)")
  case None
  then show ?thesis by (simp add: syncFlowFromTask_def flow_step.idle)
next
  case (Some i)
  have eq: "updateFlowRecordByIdUnchecked now i p (ensureFlowRegistryReady s) = updateFlowRecordByIdUnchecked now i p s" for p
    by (simp add: updateFlowRecordByIdUnchecked_def)
  show ?thesis
    using Some by (auto simp: syncFlowFromTask_def getTaskFlowById_def Let_def eq flow_step.ready step_unchecked [OF assms]
        split: option.split)
qed

lemma flow_apply_step: "flow_inv s \<Longrightarrow> step_of (flow_creates x) s (flow_apply x s)"
proof (cases x)
  case (FL_createManaged now uuid p)
  then show ?thesis using step_create
    by (auto simp: createManagedTaskFlow_def step_of_def intro: flow_step.idle split: sum.split)
next
  case (FL_createForTask now uuid t org)
  then show ?thesis using step_create by (simp add: createTaskFlowForTask_def Let_def)
next
  case (FL_create now uuid p)
  then show ?thesis using step_create by simp
qed (auto simp: step_of_def intro: step_expected step_sync flow_step.delete flow_step.ready flow_step.restart)

lemma write_frame [simp]:
  "fr_table (fst (writeFlowRecord f prev s)) = upsertFlowRow f (fr_table s)"
  "fr_flows (fst (writeFlowRecord f prev s)) = jset (fr_flows s) (tf_flowId f) f"
  "fr_restoreAttempted (fst (writeFlowRecord f prev s)) = fr_restoreAttempted s"
  "fr_restoreFailure (fst (writeFlowRecord f prev s)) = fr_restoreFailure s"
  by (simp_all add: writeFlowRecord_def emitFlowEvent_def)

lemma delete_frame [simp]:
  "fr_restoreAttempted (fst (deleteTaskFlowRecordById i s))"
  "fr_restoreFailure (fst (deleteTaskFlowRecordById i s)) = fr_restoreFailure (ensureFlowRegistryReady s)"
  by (simp_all add: deleteTaskFlowRecordById_def Let_def emitFlowEvent_def split: option.split)

lemma delete_maps:
  assumes "r = ensureFlowRegistryReady s"
  shows "fr_table (fst (deleteTaskFlowRecordById i s)) =
      (if jget (fr_flows r) i = None then fr_table r else deleteFlowRow i (fr_table r))"
    and "fr_flows (fst (deleteTaskFlowRecordById i s)) =
      (if jget (fr_flows r) i = None then fr_flows r else jdel (fr_flows r) i)"
  using assms by (auto simp: deleteTaskFlowRecordById_def Let_def emitFlowEvent_def split: option.split)

lemma flow_invI:
  assumes "table_wf (fr_table s)" and "jwf (fr_flows s)"
    and "\<And>i f. jget (fr_flows s) i = Some f \<Longrightarrow> stored_flow (fr_table s) i = Some f"
    and "\<And>i. fr_restoreAttempted s \<Longrightarrow> fr_restoreFailure s = None \<Longrightarrow> jget (fr_flows s) i = stored_flow (fr_table s) i"
  shows "flow_inv s"
  using assms unfolding flow_inv_def by blast

lemma flow_invD:
  assumes "flow_inv s"
  shows "table_wf (fr_table s)" and "jwf (fr_flows s)"
    and "jget (fr_flows s) i = Some f \<Longrightarrow> stored_flow (fr_table s) i = Some f"
    and "fr_restoreAttempted s \<Longrightarrow> fr_restoreFailure s = None \<Longrightarrow> jget (fr_flows s) i = stored_flow (fr_table s) i"
  using assms unfolding flow_inv_def by blast+

lemma write_inv:
  assumes "flow_inv s" and "flow_wf f"
  shows "flow_inv (fst (writeFlowRecord f prev s))"
  by (rule flow_invI)
    (use flow_invD [OF assms(1)] assms(2) in \<open>simp_all add: table_wf_upsert stored_upsert split: if_splits\<close>)

lemma delete_inv:
  assumes "flow_inv s"
  shows "flow_inv (fst (deleteTaskFlowRecordById i s))"
proof -
  define r where "r = ensureFlowRegistryReady s"
  have inv: "flow_inv r" unfolding r_def by (rule ready_inv [OF assms])
  show ?thesis
  proof (cases "jget (fr_flows r) i")
    case None
    with inv show ?thesis by (simp add: deleteTaskFlowRecordById_def Let_def r_def)
  next
    case (Some c)
    then have eq: "fst (deleteTaskFlowRecordById i s) = emitFlowEvent (FE_deleted i c)
        (r\<lparr>fr_flows := jdel (fr_flows r) i, fr_table := deleteFlowRow i (fr_table r)\<rparr>)"
      by (simp add: deleteTaskFlowRecordById_def Let_def r_def)
    show ?thesis
      unfolding eq
    proof (rule flow_invI, goal_cases)
      case 1
      show ?case using flow_invD(1) [OF inv] by (simp add: emitFlowEvent_def table_wf_delete)
    next
      case 2
      show ?case using flow_invD(2) [OF inv] by (simp add: emitFlowEvent_def)
    next
      case (3 j f)
      then show ?case using flow_invD(3) [OF inv, of j f] by (simp add: emitFlowEvent_def stored_delete split: if_splits)
    next
      case (4 j)
      then show ?case using flow_invD(4) [OF inv, of j] by (simp add: emitFlowEvent_def stored_delete)
    qed
  qed
qed

lemma flow_step_inv: "flow_step c s s' \<Longrightarrow> flow_inv s \<Longrightarrow> flow_inv s'"
proof (induction rule: flow_step.induct)
  case (restart s err)
  then show ?case by (simp add: flow_inv_def fresh_flow_process_def)
qed (auto simp: ready_inv delete_inv intro: write_inv ready_inv)

lemma flow_apply_inv: "flow_inv s \<Longrightarrow> flow_inv (flow_apply x s)"
  using flow_apply_step [of s x] flow_step_inv by (auto simp: step_of_def)

interpretation flow_machine: op_machine flow_apply flow_inv
  by unfold_locales (rule flow_apply_inv)

lemma flow_inv_fresh: "table_wf rows \<Longrightarrow> flow_inv (fresh_flow_process rows err)"
  by (simp add: flow_inv_def fresh_flow_process_def)

lemma table_wf_Nil [simp]: "table_wf []"
  by (simp add: table_wf_def)

text \<open>The stored record of a flow changes only together with its revision.\<close>

definition moved_on :: "string \<Rightarrow> TaskFlowRecord \<Rightarrow> flow_registry \<Rightarrow> bool" where
  "moved_on i f s \<longleftrightarrow> flow_inv s \<and>
     (\<forall>g. stored_flow (fr_table s) i = Some g \<longrightarrow> g = f \<or> tf_revision f < tf_revision g)"

lemma moved_write:
  assumes "moved_on i f s" and "flow_wf g"
    and "tf_flowId g = i \<longrightarrow> (\<exists>cur. jget (fr_flows s) i = Some cur \<and> tf_revision g = tf_revision cur + 1)"
  shows "moved_on i f (fst (writeFlowRecord g prev s))"
proof -
  have inv: "flow_inv s" using assms(1) by (simp add: moved_on_def)
  have cur: "stored_flow (fr_table s) i = Some cur" if "jget (fr_flows s) i = Some cur" for cur
    using inv that by (simp add: flow_inv_def)
  show ?thesis
    unfolding moved_on_def
  proof (intro conjI allI impI)
    show "flow_inv (fst (writeFlowRecord g prev s))" by (rule write_inv [OF inv assms(2)])
    fix h
    assume h: "stored_flow (fr_table (fst (writeFlowRecord g prev s))) i = Some h"
    show "h = f \<or> tf_revision f < tf_revision h"
    proof (cases "tf_flowId g = i")
      case True
      with assms(3) obtain c where c: "jget (fr_flows s) i = Some c" "tf_revision g = tf_revision c + 1" by blast
      from cur [OF c(1)] assms(1) have "c = f \<or> tf_revision f < tf_revision c" by (simp add: moved_on_def)
      moreover have "h = g" using h True assms(2) by (simp add: writeFlowRecord_def emitFlowEvent_def stored_upsert)
      ultimately show ?thesis using c(2) by auto
    next
      case False
      then show ?thesis
        using h assms(1,2) by (simp add: writeFlowRecord_def emitFlowEvent_def stored_upsert moved_on_def)
    qed
  qed
qed

lemma moved_ready: "moved_on i f s \<Longrightarrow> moved_on i f (ensureFlowRegistryReady s)"
  by (simp add: moved_on_def ready_inv)

lemma moved_step:
  assumes "flow_step c s s'" and "moved_on i f s" and "c \<noteq> Some i"
  shows "moved_on i f s'"
  using assms
proof (induction rule: flow_step.induct)
  case (create g s)
  then show ?case by (intro moved_write moved_ready) auto
next
  case (update s g cur)
  then show ?case by (intro moved_write moved_ready) auto
next
  case (delete s j)
  then have m: "moved_on i f (ensureFlowRegistryReady s)" by (intro moved_ready)
  have inv: "flow_inv (fst (deleteTaskFlowRecordById j s))" using delete by (simp add: delete_inv moved_on_def)
  have "stored_flow (fr_table (fst (deleteTaskFlowRecordById j s))) i = Some g \<Longrightarrow>
      stored_flow (fr_table (ensureFlowRegistryReady s)) i = Some g" for g
    by (auto simp: deleteTaskFlowRecordById_def Let_def emitFlowEvent_def stored_delete split: option.splits if_splits)
  with m inv show ?case by (simp add: moved_on_def)
next
  case (restart s err)
  then show ?case by (simp add: moved_on_def flow_inv_def fresh_flow_process_def)
qed (simp_all add: moved_ready)

definition never_creates :: "string \<Rightarrow> flow_registry \<Rightarrow> flow_op \<Rightarrow> bool" where
  "never_creates i s x \<longleftrightarrow> flow_creates x \<noteq> Some i"

lemma moved_apply: "never_creates i s x \<Longrightarrow> moved_on i f s \<Longrightarrow> moved_on i f (flow_apply x s)"
  using flow_apply_step [of s x] moved_step [of _ s "flow_apply x s" i f]
  by (auto simp: step_of_def never_creates_def moved_on_def)

interpretation moved_machine: guarded_machine "never_creates i" flow_apply "moved_on i f" for i f
  by unfold_locales (rule moved_apply)

lemma legal_never: "legal_run (never_creates i) g s xs \<longleftrightarrow> (\<forall>x\<in>set xs. flow_creates x \<noteq> Some i)"
  by (induction xs arbitrary: s) (auto simp: never_creates_def)

lemma get_stored:
  assumes "flow_inv s" and "snd (getTaskFlowById i s) = Some f"
  shows "stored_flow (fr_table s) i = Some f"
  using ready_inv [OF assms(1)] assms(2) by (auto simp: getTaskFlowById_def Let_def flow_inv_def)


definition demo_flow_params :: FlowParams where
  "demo_flow_params = \<lparr>cp_syncMode = None, cp_ownerKey = '' main '', cp_requesterOrigin = None,
     cp_controllerId = Some ''ctl'', cp_revision = None, cp_status = None, cp_notifyPolicy = None,
     cp_goal = ''ship'', cp_currentStep = None, cp_blockedTaskId = None, cp_blockedSummary = None,
     cp_stateJson = None, cp_waitJson = None, cp_cancelRequestedAt = None, cp_createdAt = None,
     cp_updatedAt = None, cp_endedAt = None\<rparr>"

definition demo_flow :: TaskFlowRecord where
  "demo_flow = \<lparr>tf_flowId = ''f'', tf_syncMode = SM_managed, tf_ownerKey = ''main'', tf_requesterOrigin = None,
     tf_controllerId = Some ''ctl'', tf_revision = 0, tf_status = FS_queued, tf_notifyPolicy = NP_done_only,
     tf_goal = ''ship'', tf_currentStep = None, tf_blockedTaskId = None, tf_blockedSummary = None,
     tf_stateJson = None, tf_waitJson = None, tf_cancelRequestedAt = None, tf_createdAt = 5, tf_updatedAt = 5,
     tf_endedAt = None\<rparr>"


text \<open>Of two clients that read the same revision only one is applied; the other is told so.\<close>

lemma second_update_conflicts:
  assumes "updateFlowRecordByIdExpectedRevision now i rv p s = (s', Inr (FU_applied f))"
    and "flow_inv s"
  shows "updateFlowRecordByIdExpectedRevision now' i rv q s' = (s', Inr (FU_conflict f))"
proof -
  from assms(1) obtain cur where cur: "jget (fr_flows (ensureFlowRegistryReady s)) i = Some cur"
    and rev: "tf_revision cur = rv" and f: "applyFlowPatch now cur p = Inr f"
    and s': "s' = fst (writeFlowRecord f (Some cur) (ensureFlowRegistryReady s))"
    by (auto simp: updateFlowRecordByIdExpectedRevision_def Let_def writeFlowRecord_def
        split: option.splits if_splits sum.splits)
  from current_wf [OF ready_inv [OF assms(2)] cur] have c: "flow_wf cur" "tf_flowId cur = i" by auto
  from patch_wf [OF c(1) f] c(2) rev have fi: "tf_flowId f = i" "tf_revision f \<noteq> rv" by auto
  have r: "fr_restoreAttempted s'" by (simp add: s' writeFlowRecord_def emitFlowEvent_def)
  have "jget (fr_flows s') i = Some f" using fi by (simp add: s' writeFlowRecord_def emitFlowEvent_def)
  with r fi show ?thesis by (simp add: updateFlowRecordByIdExpectedRevision_def Let_def ready_id)
qed

text \<open>C30: After any history in which the restores succeeded, a new process reads back every flow exactly as it
  was, and no other.\<close>

theorem flows_survive_restart:
  assumes "s = fold flow_apply xs (fresh_flow_process [] None)"
    and "snd (getTaskFlowRegistryRestoreFailure s) = None"
  shows "snd (getTaskFlowById i (fresh_flow_process (fr_table s) None)) = snd (getTaskFlowById i s)"
proof -
  have inv: "flow_inv s" unfolding assms(1) by (rule flow_machine.inv_run) (simp add: flow_inv_fresh)
  from assms(2) have "jget (fr_flows (ensureFlowRegistryReady s)) i = stored_flow (fr_table s) i"
    using flow_invD(4) [OF ready_inv [OF inv]] by (simp add: getTaskFlowRegistryRestoreFailure_def Let_def)
  moreover have "jget (fr_flows (ensureFlowRegistryReady (fresh_flow_process (fr_table s) None))) i =
      stored_flow (fr_table s) i"
  proof -
    from inv have t: "table_wf (fr_table s)" by (simp add: flow_inv_def)
    from restore_table [OF t] show ?thesis
      by (auto simp: ensureFlowRegistryReady_def Let_def emitFlowEvent_def fresh_flow_process_def)
  qed
  ultimately show ?thesis by (simp add: getTaskFlowById_def Let_def)
qed

lemma flows_survive_restart_witness:
  "let s = fold flow_apply [FL_create 5 ''f'' demo_flow_params,
       FL_update 6 ''f'' 0 (no_patch\<lparr>fp_status := Some FS_running\<rparr>)] (fresh_flow_process [] None)
   in snd (getTaskFlowById ''f'' (fresh_flow_process (fr_table s) None)) =
      Some (demo_flow\<lparr>tf_status := FS_running, tf_revision := 1, tf_updatedAt := 6\<rparr>)"
proof -
  let ?xs = "[FL_create 5 ''f'' demo_flow_params, FL_update 6 ''f'' 0 (no_patch\<lparr>fp_status := Some FS_running\<rparr>)]"
  let ?s = "fold flow_apply ?xs (fresh_flow_process [] None)"
  have "snd (getTaskFlowRegistryRestoreFailure ?s) = None" by code_simp
  moreover have "snd (getTaskFlowById ''f'' ?s) =
      Some (demo_flow\<lparr>tf_status := FS_running, tf_revision := 1, tf_updatedAt := 6\<rparr>)" by code_simp
  ultimately show ?thesis using flows_survive_restart [OF refl, of ?xs "''f''"] by (simp add: Let_def)
qed

text \<open>One stored row without an owner makes the restore fail as a whole: the registry is empty.\<close>

lemma one_bad_row_hides_all:
  "let good = bindFlowRecord None demo_flow;
       bad = (bindFlowRecord None (demo_flow\<lparr>tf_flowId := ''g''\<rparr>))\<lparr>fw_owner_key := '' ''\<rparr>;
       s = fresh_flow_process [(''f'', good), (''g'', bad)] None
   in snd (listTaskFlowRecords s) = [] \<and>
      snd (getTaskFlowRegistryRestoreFailure s) = Some ''Flow ownerKey is required.''"
  by code_simp

subsection \<open>Lookups\<close>

lemma sorted_newest: "sorted (map (\<lambda>f. - tf_createdAt f) (sort_key (\<lambda>f. - tf_createdAt f) fs))"
  by simp

lemma first_of_in: "first_of xs = Some x \<Longrightarrow> x \<in> set xs"
  by (cases xs) (auto simp: first_of_def)

lemma list_owner:
  "f \<in> set (snd (listTaskFlowsForOwnerKey k s)) \<Longrightarrow> trimmed (tf_ownerKey f) = trimmed k"
  by (auto simp: listTaskFlowsForOwnerKey_def Let_def trimmed_def split: if_splits)

text \<open>What a caller finds through the owner's access functions, by id or by token, belongs to that
  caller: the flow's owner key is, after trimming, the caller's.\<close>

lemma owner_lookup_isolated:
  "(case snd (resolveTaskFlowForLookupTokenForOwner token caller s) of
      Some f \<Rightarrow> canOwnerAccessFlow f caller | None \<Rightarrow> True) \<and>
   (case snd (getTaskFlowByIdForOwner i caller s) of
      Some f \<Rightarrow> canOwnerAccessFlow f caller | None \<Rightarrow> True) \<and>
   (case snd (findLatestTaskFlowForOwner caller s) of
      Some f \<Rightarrow> canOwnerAccessFlow f caller | None \<Rightarrow> True) \<and>
   list_all (\<lambda>f. canOwnerAccessFlow f caller) (snd (listTaskFlowsForOwner caller s))"
proof -
  have tt: "trimmed k = Some t \<Longrightarrow> trimmed t = trimmed k" for k t by (simp add: trimmed_tidy)
  have byId: "case snd (getTaskFlowByIdForOwner i caller s) of Some f \<Rightarrow> canOwnerAccessFlow f caller | None \<Rightarrow> True"
    for i s by (auto simp: getTaskFlowByIdForOwner_def split: prod.split option.split)
  have latest: "case snd (findLatestTaskFlowForOwner k s) of Some f \<Rightarrow> canOwnerAccessFlow f k | None \<Rightarrow> True" for k s
  proof (cases "trimmed k")
    case (Some t)
    show ?thesis
    proof (cases "first_of (snd (listTaskFlowsForOwnerKey t s))")
      case None
      with Some show ?thesis
        by (simp add: findLatestTaskFlowForOwner_def findLatestTaskFlowForOwnerKey_def case_prod_beta)
    next
      case (Some f)
      from list_owner [OF first_of_in [OF this]] tt [OF \<open>trimmed k = Some t\<close>] Some \<open>trimmed k = Some t\<close>
      show ?thesis
        by (simp add: findLatestTaskFlowForOwner_def findLatestTaskFlowForOwnerKey_def canOwnerAccessFlow_def case_prod_beta)
    qed
  qed (simp add: findLatestTaskFlowForOwner_def)
  have token: "case snd (resolveTaskFlowForLookupTokenForOwner token caller s) of
      Some f \<Rightarrow> canOwnerAccessFlow f caller | None \<Rightarrow> True"
  proof (cases "getTaskFlowByIdForOwner token caller s")
    case (Pair s' r)
    show ?thesis
    proof (cases r)
      case (Some f)
      with Pair byId [of token s] show ?thesis by (simp add: resolveTaskFlowForLookupTokenForOwner_def)
    next
      case None
      show ?thesis
      proof (cases "trimmed token")
        case (Some t)
        with Pair None latest [of t s'] tt show ?thesis
          by (auto simp: resolveTaskFlowForLookupTokenForOwner_def canOwnerAccessFlow_def split: option.splits)
      qed (use Pair None in \<open>simp add: resolveTaskFlowForLookupTokenForOwner_def\<close>)
    qed
  qed
  have "list_all (\<lambda>f. canOwnerAccessFlow f caller) (snd (listTaskFlowsForOwner caller s))"
    using tt list_owner by (fastforce simp: listTaskFlowsForOwner_def list_all_iff canOwnerAccessFlow_def split: option.split)
  with token byId latest show ?thesis by blast
qed

end
