(* ===== verification/TaskRegistry.thy ===== *)
theory TaskRegistry
  imports TaskFlow
begin

text \<open>
  The registry of background tasks, first part (\<open>src/src/tasks/task-registry.ts\<close> over
  \<open>task-registry.store.sqlite.ts\<close>): the module variables, the four indices, restore and persistence, the
  links to flows, and \<open>updateTask\<close>, through which every later change of a task goes. A JavaScript \<open>Set\<close> is
  the list of its elements in insertion order. What the module calls outside (channel plugins, text
  sanitising) is the record \<open>task_env\<close> of functions; messages and system events that it sends out are
  collected in \<open>tg_events\<close> and \<open>tg_deliveries\<close>.
\<close>

record task_env =
  ev_normalizeChannel :: "string \<Rightarrow> string option"
  ev_normalizeAccountId :: "string option \<Rightarrow> string option"
  ev_deliverable :: "string \<Rightarrow> bool"
  ev_sanitize :: "bool \<Rightarrow> string option \<Rightarrow> string"
  ev_title :: "string \<Rightarrow> string"

subsection \<open>Rows\<close>

record TaskRegistryRow =
  rw_task_id :: string
  rw_runtime :: TaskRuntime
  rw_source_id :: "string option"
  rw_owner_key :: string
  rw_scope_kind :: TaskScopeKind
  rw_child_session_key :: "string option"
  rw_parent_flow_id :: "string option"
  rw_parent_task_id :: "string option"
  rw_agent_id :: "string option"
  rw_run_id :: "string option"
  rw_label :: "string option"
  rw_task :: string
  rw_status :: BgTaskStatus
  rw_delivery_status :: TaskDeliveryStatus
  rw_notify_policy :: TaskNotifyPolicy
  rw_created_at :: int
  rw_started_at :: "int option"
  rw_ended_at :: "int option"
  rw_last_event_at :: "int option"
  rw_cleanup_after :: "int option"
  rw_error :: "string option"
  rw_progress_summary :: "string option"
  rw_terminal_summary :: "string option"
  rw_terminal_outcome :: "TaskTerminalOutcome option"

definition rowToTaskRecord :: "TaskRegistryRow \<Rightarrow> TaskRecord" where
  "rowToTaskRecord row =
     \<lparr>tr_taskId = rw_task_id row, tr_runtime = rw_runtime row, tr_sourceId = nonempty_text (rw_source_id row),
      tr_requesterSessionKey = (if rw_scope_kind row = SK_system then [] else rw_owner_key row),
      tr_ownerKey = rw_owner_key row, tr_scopeKind = rw_scope_kind row,
      tr_childSessionKey = nonempty_text (rw_child_session_key row),
      tr_parentFlowId = nonempty_text (rw_parent_flow_id row),
      tr_parentTaskId = nonempty_text (rw_parent_task_id row), tr_agentId = nonempty_text (rw_agent_id row),
      tr_runId = nonempty_text (rw_run_id row), tr_label = nonempty_text (rw_label row), tr_task = rw_task row,
      tr_status = rw_status row, tr_deliveryStatus = rw_delivery_status row,
      tr_notifyPolicy = rw_notify_policy row, tr_createdAt = rw_created_at row,
      tr_startedAt = rw_started_at row, tr_endedAt = rw_ended_at row, tr_lastEventAt = rw_last_event_at row,
      tr_cleanupAfter = rw_cleanup_after row, tr_error = nonempty_text (rw_error row),
      tr_progressSummary = nonempty_text (rw_progress_summary row),
      tr_terminalSummary = nonempty_text (rw_terminal_summary row),
      tr_terminalOutcome = rw_terminal_outcome row\<rparr>"

definition bindTaskRecord :: "TaskRecord \<Rightarrow> TaskRegistryRow" where
  "bindTaskRecord t =
     \<lparr>rw_task_id = tr_taskId t, rw_runtime = tr_runtime t, rw_source_id = tr_sourceId t,
      rw_owner_key = tr_ownerKey t, rw_scope_kind = tr_scopeKind t, rw_child_session_key = tr_childSessionKey t,
      rw_parent_flow_id = tr_parentFlowId t, rw_parent_task_id = tr_parentTaskId t, rw_agent_id = tr_agentId t,
      rw_run_id = tr_runId t, rw_label = tr_label t, rw_task = tr_task t, rw_status = tr_status t,
      rw_delivery_status = tr_deliveryStatus t, rw_notify_policy = tr_notifyPolicy t,
      rw_created_at = tr_createdAt t, rw_started_at = tr_startedAt t, rw_ended_at = tr_endedAt t,
      rw_last_event_at = tr_lastEventAt t, rw_cleanup_after = tr_cleanupAfter t, rw_error = tr_error t,
      rw_progress_summary = tr_progressSummary t, rw_terminal_summary = tr_terminalSummary t,
      rw_terminal_outcome = tr_terminalOutcome t\<rparr>"

text \<open>The rows of \<open>task_delivery_state\<close> hold the fields of the state; JSON text is the value it parses to.\<close>

type_synonym task_table = "(string, TaskRegistryRow) jsmap"
type_synonym delivery_table = "(string, TaskDeliveryState) jsmap"

definition loadTaskRows :: "task_table \<Rightarrow> (string, TaskRecord) jsmap" where
  "loadTaskRows rows =
     fold (\<lambda>row m. jset m (rw_task_id row) (rowToTaskRecord row))
       (sort_key rw_created_at (sort_key rw_task_id (jvals rows))) []"

definition loadDeliveryRows :: "delivery_table \<Rightarrow> (string, TaskDeliveryState) jsmap" where
  "loadDeliveryRows rows =
     fold (\<lambda>st m. jset m (ds_taskId st) st) (sort_key ds_taskId (jvals rows)) []"

subsection \<open>State\<close>

type_synonym task_index = "(string, string list) jsmap"

record TaskDeliveryOwner =
  ow_sessionKey :: "string option"
  ow_requesterOrigin :: "DeliveryContext option"
  ow_flowId :: "string option"

text \<open>A call of \<open>sendMessage\<close>: the delivery waits for the delivery runtime to load, then for the message to
  be sent. \<open>dl_event\<close> is the event of a state change, \<open>None\<close> for a terminal update.\<close>

datatype delivery_phase = DL_loading | DL_sending string | DL_sent string | DL_failed

record task_delivery =
  dl_task :: TaskRecord
  dl_owner :: TaskDeliveryOwner
  dl_sessionKey :: string
  dl_text :: string
  dl_event :: "TaskEventRecord option"
  dl_origin :: "DeliveryContext option"
  dl_phase :: delivery_phase

record system_event =
  se_text :: string
  se_sessionKey :: string
  se_contextKey :: string
  se_deliveryContext :: "DeliveryContext option"
  se_heartbeat :: string

record task_registry =
  tg_env :: task_env
  tg_tasks :: "(string, TaskRecord) jsmap"
  tg_deliveryStates :: "(string, TaskDeliveryState) jsmap"
  tg_byRunId :: task_index
  tg_byOwnerKey :: task_index
  tg_byParentFlowId :: task_index
  tg_byRelatedSessionKey :: task_index
  tg_pendingDelivery :: "string list"
  tg_listening :: bool
  tg_restoreAttempted :: bool
  tg_loadFails :: bool
  tg_taskTable :: task_table
  tg_deliveryTable :: delivery_table
  tg_flows :: flow_registry
  tg_events :: "system_event list"
  tg_deliveries :: "task_delivery list"

definition fresh_task_process :: "task_env \<Rightarrow> task_table \<Rightarrow> delivery_table \<Rightarrow> bool \<Rightarrow> flow_registry \<Rightarrow> task_registry" where
  "fresh_task_process env rows drows fails flows =
     \<lparr>tg_env = env, tg_tasks = [], tg_deliveryStates = [], tg_byRunId = [], tg_byOwnerKey = [],
      tg_byParentFlowId = [], tg_byRelatedSessionKey = [], tg_pendingDelivery = [], tg_listening = False,
      tg_restoreAttempted = False, tg_loadFails = fails, tg_taskTable = rows, tg_deliveryTable = drows,
      tg_flows = flows, tg_events = [], tg_deliveries = []\<rparr>"

datatype ParentFlowLinkErrorCode =
    LE_scope_kind_not_session
  | LE_parent_flow_not_found
  | LE_owner_key_mismatch
  | LE_cancel_requested
  | LE_terminal

datatype task_error =
    TaskOwnerKeyRequired
  | ParentFlowLinkError ParentFlowLinkErrorCode string "TaskFlowStatus option"

subsection \<open>Indices\<close>

definition addIndexedKey :: "string \<Rightarrow> string \<Rightarrow> task_index \<Rightarrow> task_index" where
  "addIndexedKey key taskId index =
     (let ids = (case jget index key of Some ids \<Rightarrow> ids | None \<Rightarrow> [])
      in jset index key (if taskId \<in> set ids then ids else ids @ [taskId]))"

definition deleteIndexedKey :: "string \<Rightarrow> string \<Rightarrow> task_index \<Rightarrow> task_index" where
  "deleteIndexedKey key taskId index =
     (case jget index key of
        None \<Rightarrow> index
      | Some ids \<Rightarrow>
          (let ids' = remove1 taskId ids in if ids' = [] then jdel index key else jset index key ids'))"

definition opt_list :: "'a option \<Rightarrow> 'a list" where
  "opt_list v = (case v of Some x \<Rightarrow> [x] | None \<Rightarrow> [])"

text \<open>The keys under which a task is found in each index.\<close>

definition run_keys :: "TaskRecord \<Rightarrow> string list" where
  "run_keys t = opt_list (normalizeText (tr_runId t))"

definition owner_keys :: "TaskRecord \<Rightarrow> string list" where
  "owner_keys t = opt_list (trimmed (tr_ownerKey t))"

definition flow_keys :: "TaskRecord \<Rightarrow> string list" where
  "flow_keys t = opt_list (normalizeText (tr_parentFlowId t))"

definition getTaskRelatedSessionIndexKeys :: "TaskRecord \<Rightarrow> string list" where
  "getTaskRelatedSessionIndexKeys t =
     remdups (opt_list (trimmed (tr_ownerKey t)) @ opt_list (normalizeText (tr_childSessionKey t)))"

definition index_add :: "(TaskRecord \<Rightarrow> string list) \<Rightarrow> string \<Rightarrow> TaskRecord \<Rightarrow> task_index \<Rightarrow> task_index" where
  "index_add keys taskId t index = fold (\<lambda>k. addIndexedKey k taskId) (keys t) index"

definition index_delete :: "(TaskRecord \<Rightarrow> string list) \<Rightarrow> string \<Rightarrow> TaskRecord \<Rightarrow> task_index \<Rightarrow> task_index" where
  "index_delete keys taskId t index = fold (\<lambda>k. deleteIndexedKey k taskId) (keys t) index"

definition rebuild_index :: "(TaskRecord \<Rightarrow> string list) \<Rightarrow> (string, TaskRecord) jsmap \<Rightarrow> task_index" where
  "rebuild_index keys tasks = fold (\<lambda>(taskId, t). index_add keys taskId t) tasks []"

subsection \<open>Restore\<close>

definition restoreTaskRegistryOnce :: "task_registry \<Rightarrow> task_registry" where
  "restoreTaskRegistryOnce s =
     (if tg_restoreAttempted s then s
      else let s = s\<lparr>tg_restoreAttempted := True\<rparr>;
               restored = loadTaskRows (tg_taskTable s);
               restoredStates = loadDeliveryRows (tg_deliveryTable s)
           in if tg_loadFails s \<or> (restored = [] \<and> restoredStates = []) then s
              else let tasks = js_spread (tg_tasks s) restored
                   in s\<lparr>tg_tasks := tasks,
                        tg_deliveryStates := js_spread (tg_deliveryStates s) restoredStates,
                        tg_byRunId := rebuild_index run_keys tasks,
                        tg_byOwnerKey := rebuild_index owner_keys tasks,
                        tg_byParentFlowId := rebuild_index flow_keys tasks,
                        tg_byRelatedSessionKey := rebuild_index getTaskRelatedSessionIndexKeys tasks\<rparr>)"

definition ensureTaskRegistryReady :: "task_registry \<Rightarrow> task_registry" where
  "ensureTaskRegistryReady s = (restoreTaskRegistryOnce s)\<lparr>tg_listening := True\<rparr>"

subsection \<open>Persistence\<close>

definition persistTaskUpsert :: "TaskRecord \<Rightarrow> task_registry \<Rightarrow> task_registry" where
  "persistTaskUpsert task s =
     s\<lparr>tg_taskTable := jset (tg_taskTable s) (tr_taskId task) (bindTaskRecord task),
       tg_deliveryTable :=
         (case jget (tg_deliveryStates s) (tr_taskId task) of
            Some st \<Rightarrow> jset (tg_deliveryTable s) (ds_taskId st) st
          | None \<Rightarrow> jdel (tg_deliveryTable s) (tr_taskId task))\<rparr>"

definition persistTaskDelete :: "string \<Rightarrow> task_registry \<Rightarrow> task_registry" where
  "persistTaskDelete taskId s =
     s\<lparr>tg_taskTable := jdel (tg_taskTable s) taskId, tg_deliveryTable := jdel (tg_deliveryTable s) taskId\<rparr>"

definition persistTaskDeliveryStateUpsert :: "TaskDeliveryState \<Rightarrow> task_registry \<Rightarrow> task_registry" where
  "persistTaskDeliveryStateUpsert st s =
     s\<lparr>tg_deliveryTable := jset (tg_deliveryTable s) (ds_taskId st) st\<rparr>"

definition persistTaskDeliveryStateDelete :: "string \<Rightarrow> task_registry \<Rightarrow> task_registry" where
  "persistTaskDeliveryStateDelete taskId s = s\<lparr>tg_deliveryTable := jdel (tg_deliveryTable s) taskId\<rparr>"

subsection \<open>Statuses and normalisation\<close>

definition isTerminalTaskStatus :: "BgTaskStatus \<Rightarrow> bool" where
  "isTerminalTaskStatus st \<longleftrightarrow> st \<in> {BT_succeeded, BT_failed, BT_timed_out, BT_cancelled, BT_lost}"

definition isActiveTaskStatus :: "BgTaskStatus \<Rightarrow> bool" where
  "isActiveTaskStatus st \<longleftrightarrow> st \<in> {BT_queued, BT_running}"

definition isTerminalFlowStatus :: "TaskFlowStatus \<Rightarrow> bool" where
  "isTerminalFlowStatus st \<longleftrightarrow> st \<in> {FS_succeeded, FS_failed, FS_cancelled, FS_lost}"

definition DEFAULT_TASK_RETENTION_MS :: int where
  "DEFAULT_TASK_RETENTION_MS = 7 * 24 * 60 * 60000"

fun join_words :: "string list \<Rightarrow> string" where
  "join_words [] = []"
| "join_words [w] = w"
| "join_words (w # ws) = w @ '' '' @ join_words ws"

text \<open>\<open>value.replace(/\s+/g, " ").trim() || undefined\<close>.\<close>

definition normalizeTaskSummary :: "string option \<Rightarrow> string option" where
  "normalizeTaskSummary v = (case v of None \<Rightarrow> None | Some s \<Rightarrow> trimmed (join_words (split_ws s)))"

definition normalizeDeliveryContext :: "task_env \<Rightarrow> DeliveryContext option \<Rightarrow> DeliveryContext option" where
  "normalizeDeliveryContext env context =
     (case context of
        None \<Rightarrow> None
      | Some c \<Rightarrow>
          (let channel = map_option (\<lambda>x. or_value (ev_normalizeChannel env x) (js_trim x)) (dx_channel c);
               to = map_option js_trim (dx_to c);
               accountId = ev_normalizeAccountId env (dx_accountId c);
               threadId = (case dx_threadId c of
                   Some (ThreadStr x) \<Rightarrow> map_option ThreadStr (trimmed x) | other \<Rightarrow> other)
           in if nonempty_text channel = None \<and> nonempty_text to = None \<and> nonempty_text accountId = None \<and>
                 threadId = None
              then None
              else Some \<lparr>dx_channel = nonempty_text channel, dx_to = nonempty_text to,
                         dx_accountId = accountId, dx_threadId = threadId\<rparr>))"

subsection \<open>Lookups\<close>

definition tasks_of_ids :: "string list \<Rightarrow> task_registry \<Rightarrow> TaskRecord list" where
  "tasks_of_ids ids s = List.map_filter (\<lambda>i. jget (tg_tasks s) i) ids"

definition getTasksByRunId :: "string \<Rightarrow> task_registry \<Rightarrow> TaskRecord list" where
  "getTasksByRunId runId s =
     (case jget (tg_byRunId s) (js_trim runId) of None \<Rightarrow> [] | Some ids \<Rightarrow> tasks_of_ids ids s)"

definition normalizeComparableText :: "string option \<Rightarrow> string" where
  "normalizeComparableText v = (case v of Some x \<Rightarrow> js_trim x | None \<Rightarrow> [])"

text \<open>The components of \<open>taskRunScopeKey\<close>; the code joins them with a NUL character.\<close>

definition taskRunScopeKey :: "TaskRecord \<Rightarrow> TaskRuntime \<times> TaskScopeKind \<times> string \<times> string" where
  "taskRunScopeKey t =
     (tr_runtime t, tr_scopeKind t, js_trim (tr_ownerKey t), normalizeComparableText (tr_childSessionKey t))"

definition getTasksByRunScope ::
  "string \<Rightarrow> TaskRuntime option \<Rightarrow> string option \<Rightarrow> task_registry \<Rightarrow> TaskRecord list" where
  "getTasksByRunScope runId runtime session s =
     (let matches = filter (\<lambda>t. runtime = None \<or> runtime = Some (tr_runtime t)) (getTasksByRunId runId s)
      in case normalizeText session of
           Some sessionKey \<Rightarrow>
             (let childMatches = filter (\<lambda>t. normalizeText (tr_childSessionKey t) = Some sessionKey) matches
              in if childMatches \<noteq> [] then childMatches
                 else filter (\<lambda>t. tr_scopeKind t = SK_session \<and> trimmed (tr_ownerKey t) = Some sessionKey) matches)
         | None \<Rightarrow> if length (remdups (map taskRunScopeKey matches)) \<le> 1 then matches else [])"

definition getPeerTasksForDelivery :: "TaskRecord \<Rightarrow> task_registry \<Rightarrow> TaskRecord list" where
  "getPeerTasksForDelivery task s =
     (case tr_runId task of
        None \<Rightarrow> []
      | Some runId \<Rightarrow>
          (if trimmed runId = None then []
           else filter (\<lambda>c. taskRunScopeKey c = taskRunScopeKey task) (getTasksByRunId runId s)))"

definition taskLookupPriority :: "TaskRecord \<Rightarrow> int" where
  "taskLookupPriority t = (if tr_runtime t = RT_cli then 1 else 0)"

definition pickPreferredRunIdTask :: "TaskRecord list \<Rightarrow> TaskRecord option" where
  "pickPreferredRunIdTask ts = first_of (sort_key taskLookupPriority (sort_key tr_createdAt ts))"

text \<open>\<open>compareTasksNewestFirst\<close> on tasks with their position: among tasks created at the same time the
  later one is first.\<close>

definition newest_first :: "TaskRecord list \<Rightarrow> TaskRecord list" where
  "newest_first ts = sort_key (\<lambda>t. - tr_createdAt t) (rev ts)"

definition listTasksFromIndex :: "task_index \<Rightarrow> string \<Rightarrow> task_registry \<Rightarrow> TaskRecord list" where
  "listTasksFromIndex index key s =
     (case jget index key of None \<Rightarrow> [] | Some ids \<Rightarrow> newest_first (tasks_of_ids ids s))"

definition tasks_for_flow :: "string \<Rightarrow> task_registry \<Rightarrow> TaskRecord list" where
  "tasks_for_flow flowId s =
     (case trimmed flowId of None \<Rightarrow> [] | Some key \<Rightarrow> listTasksFromIndex (tg_byParentFlowId s) key s)"

definition listTasksForFlowId :: "string \<Rightarrow> task_registry \<Rightarrow> task_registry \<times> TaskRecord list" where
  "listTasksForFlowId flowId s = (let s = ensureTaskRegistryReady s in (s, tasks_for_flow flowId s))"

subsection \<open>Links to flows\<close>

definition lookup_flow :: "string \<Rightarrow> task_registry \<Rightarrow> task_registry \<times> TaskFlowRecord option" where
  "lookup_flow flowId s = (case getTaskFlowById flowId (tg_flows s) of (fs, f) \<Rightarrow> (s\<lparr>tg_flows := fs\<rparr>, f))"

definition assertParentFlowLinkAllowed ::
  "string \<Rightarrow> TaskScopeKind \<Rightarrow> string option \<Rightarrow> task_registry \<Rightarrow> task_registry \<times> (task_error + unit)" where
  "assertParentFlowLinkAllowed ownerKey scopeKind parentFlowId s =
     (case normalizeText parentFlowId of
        None \<Rightarrow> (s, Inr ())
      | Some flowId \<Rightarrow>
          (if scopeKind \<noteq> SK_session then (s, Inl (ParentFlowLinkError LE_scope_kind_not_session flowId None))
           else case lookup_flow flowId s of
                  (s, None) \<Rightarrow> (s, Inl (ParentFlowLinkError LE_parent_flow_not_found flowId None))
                | (s, Some flow) \<Rightarrow>
                    (s, if trimmed (tf_ownerKey flow) \<noteq> trimmed ownerKey
                        then Inl (ParentFlowLinkError LE_owner_key_mismatch flowId None)
                        else if tf_cancelRequestedAt flow \<noteq> None
                        then Inl (ParentFlowLinkError LE_cancel_requested flowId (Some (tf_status flow)))
                        else if isTerminalFlowStatus (tf_status flow)
                        then Inl (ParentFlowLinkError LE_terminal flowId (Some (tf_status flow)))
                        else Inr ())))"

definition cancel_patch :: "int \<Rightarrow> FlowRecordPatch" where
  "cancel_patch endedAt =
     no_patch\<lparr>fp_status := Some FS_cancelled, fp_blockedTaskId := Some None, fp_blockedSummary := Some None,
       fp_waitJson := Some JNull, fp_endedAt := Some (Some endedAt), fp_updatedAt := Some endedAt\<rparr>"

definition awaits_cancel :: "TaskFlowRecord \<Rightarrow> bool" where
  "awaits_cancel flow \<longleftrightarrow> tf_syncMode flow = SM_managed \<and> tf_cancelRequestedAt flow \<noteq> None \<and>
     \<not> isTerminalFlowStatus (tf_status flow)"

definition has_active_tasks :: "string \<Rightarrow> task_registry \<Rightarrow> bool" where
  "has_active_tasks flowId s \<longleftrightarrow> list_ex (\<lambda>t. isActiveTaskStatus (tr_status t)) (tasks_for_flow flowId s)"

text \<open>The loop of at most \<open>n\<close> attempts; an error of the update is logged by the caller.\<close>

fun cancel_attempts :: "nat \<Rightarrow> int \<Rightarrow> int \<Rightarrow> string \<Rightarrow> TaskFlowRecord \<Rightarrow> task_registry \<Rightarrow> task_registry" where
  "cancel_attempts 0 now endedAt flowId flow s = s"
| "cancel_attempts (Suc n) now endedAt flowId flow s =
     (case updateFlowRecordByIdExpectedRevision now flowId (tf_revision flow) (cancel_patch endedAt) (tg_flows s) of
        (fs, Inr (FU_conflict current)) \<Rightarrow>
          (let s = s\<lparr>tg_flows := fs\<rparr>
           in if awaits_cancel current \<and> \<not> has_active_tasks flowId s
              then cancel_attempts n now endedAt flowId current s else s)
      | (fs, _) \<Rightarrow> s\<lparr>tg_flows := fs\<rparr>)"

definition syncManagedFlowCancellationFromTask :: "int \<Rightarrow> TaskRecord \<Rightarrow> task_registry \<Rightarrow> task_registry" where
  "syncManagedFlowCancellationFromTask now task s =
     (case normalizeText (tr_parentFlowId task) of
        None \<Rightarrow> s
      | Some flowId \<Rightarrow>
          (case lookup_flow flowId s of
             (s, None) \<Rightarrow> s
           | (s, Some flow) \<Rightarrow>
               (if \<not> awaits_cancel flow \<or> has_active_tasks flowId s then s
                else cancel_attempts 2 now (or_value (or_else (tr_endedAt task) (tr_lastEventAt task)) now) flowId flow s)))"

subsection \<open>Updates of a task\<close>

text \<open>A patch: \<open>None\<close> is a missing key; for an optional field \<open>Some None\<close> sets it to \<open>undefined\<close>.\<close>

record TaskPatch =
  pa_sourceId :: "string option option"
  pa_ownerKey :: "string option"
  pa_childSessionKey :: "string option option"
  pa_parentFlowId :: "string option option"
  pa_parentTaskId :: "string option option"
  pa_agentId :: "string option option"
  pa_runId :: "string option option"
  pa_label :: "string option option"
  pa_task :: "string option"
  pa_status :: "BgTaskStatus option"
  pa_deliveryStatus :: "TaskDeliveryStatus option"
  pa_notifyPolicy :: "TaskNotifyPolicy option"
  pa_startedAt :: "int option option"
  pa_endedAt :: "int option option"
  pa_lastEventAt :: "int option option"
  pa_cleanupAfter :: "int option option"
  pa_error :: "string option option"
  pa_progressSummary :: "string option option"
  pa_terminalSummary :: "string option option"
  pa_terminalOutcome :: "TaskTerminalOutcome option option"

definition empty_patch :: TaskPatch where
  "empty_patch = \<lparr>pa_sourceId = None, pa_ownerKey = None, pa_childSessionKey = None, pa_parentFlowId = None,
     pa_parentTaskId = None, pa_agentId = None, pa_runId = None, pa_label = None, pa_task = None, pa_status = None,
     pa_deliveryStatus = None, pa_notifyPolicy = None, pa_startedAt = None, pa_endedAt = None,
     pa_lastEventAt = None, pa_cleanupAfter = None, pa_error = None, pa_progressSummary = None,
     pa_terminalSummary = None, pa_terminalOutcome = None\<rparr>"

definition patch_task :: "TaskPatch \<Rightarrow> TaskRecord \<Rightarrow> TaskRecord" where
  "patch_task p t =
     t\<lparr>tr_sourceId := patched (pa_sourceId p) (tr_sourceId t),
       tr_ownerKey := patched (pa_ownerKey p) (tr_ownerKey t),
       tr_childSessionKey := patched (pa_childSessionKey p) (tr_childSessionKey t),
       tr_parentFlowId := patched (pa_parentFlowId p) (tr_parentFlowId t),
       tr_parentTaskId := patched (pa_parentTaskId p) (tr_parentTaskId t),
       tr_agentId := patched (pa_agentId p) (tr_agentId t), tr_runId := patched (pa_runId p) (tr_runId t),
       tr_label := patched (pa_label p) (tr_label t), tr_task := patched (pa_task p) (tr_task t),
       tr_status := patched (pa_status p) (tr_status t),
       tr_deliveryStatus := patched (pa_deliveryStatus p) (tr_deliveryStatus t),
       tr_notifyPolicy := patched (pa_notifyPolicy p) (tr_notifyPolicy t),
       tr_startedAt := patched (pa_startedAt p) (tr_startedAt t),
       tr_endedAt := patched (pa_endedAt p) (tr_endedAt t),
       tr_lastEventAt := patched (pa_lastEventAt p) (tr_lastEventAt t),
       tr_cleanupAfter := patched (pa_cleanupAfter p) (tr_cleanupAfter t),
       tr_error := patched (pa_error p) (tr_error t),
       tr_progressSummary := patched (pa_progressSummary p) (tr_progressSummary t),
       tr_terminalSummary := patched (pa_terminalSummary p) (tr_terminalSummary t),
       tr_terminalOutcome := patched (pa_terminalOutcome p) (tr_terminalOutcome t)\<rparr>"

definition stamp_cleanup :: "int \<Rightarrow> TaskRecord \<Rightarrow> TaskRecord" where
  "stamp_cleanup now t =
     (if isTerminalTaskStatus (tr_status t) \<and> tr_cleanupAfter t = None
      then t\<lparr>tr_cleanupAfter :=
        Some (or_value (or_else (tr_endedAt t) (tr_lastEventAt t)) now + DEFAULT_TASK_RETENTION_MS)\<rparr>
      else t)"

definition reindex_task :: "TaskPatch \<Rightarrow> string \<Rightarrow> TaskRecord \<Rightarrow> TaskRecord \<Rightarrow> task_registry \<Rightarrow> task_registry" where
  "reindex_task patch taskId current next s =
     (let s = s\<lparr>tg_tasks := jset (tg_tasks s) taskId next\<rparr>;
          s = (if nonempty_text (patched (pa_runId patch) None) \<noteq> None \<and>
                  patched (pa_runId patch) None \<noteq> tr_runId current
               then s\<lparr>tg_byRunId := rebuild_index run_keys (tg_tasks s)\<rparr> else s);
          s = (if trimmed (tr_ownerKey current) \<noteq> trimmed (tr_ownerKey next) \<or>
                  normalizeText (tr_childSessionKey current) \<noteq> normalizeText (tr_childSessionKey next)
               then s\<lparr>tg_byOwnerKey :=
                        index_add owner_keys taskId next (index_delete owner_keys taskId current (tg_byOwnerKey s)),
                      tg_byRelatedSessionKey :=
                        index_add getTaskRelatedSessionIndexKeys taskId next
                          (index_delete getTaskRelatedSessionIndexKeys taskId current (tg_byRelatedSessionKey s))\<rparr>
               else s)
      in if map_option js_trim (tr_parentFlowId current) \<noteq> map_option js_trim (tr_parentFlowId next)
         then s\<lparr>tg_byParentFlowId :=
                  index_add flow_keys taskId next (index_delete flow_keys taskId current (tg_byParentFlowId s))\<rparr>
         else s)"

text \<open>Errors of the synchronisation with the flow are logged, not thrown.\<close>

definition updateTask :: "int \<Rightarrow> string \<Rightarrow> TaskPatch \<Rightarrow> task_registry \<Rightarrow> task_registry \<times> TaskRecord option" where
  "updateTask now taskId patch s =
     (case jget (tg_tasks s) taskId of
        None \<Rightarrow> (s, None)
      | Some current \<Rightarrow>
          (let next = stamp_cleanup now (patch_task patch current);
               s = persistTaskUpsert next (reindex_task patch taskId current next s);
               s = s\<lparr>tg_flows := fst (syncFlowFromTask now next (tg_flows s))\<rparr>;
               s = syncManagedFlowCancellationFromTask now next s
           in (s, Some next)))"

definition upsertTaskDeliveryState ::
  "string \<Rightarrow> DeliveryContext option \<Rightarrow> int option \<Rightarrow> task_registry \<Rightarrow> task_registry" where
  "upsertTaskDeliveryState taskId requesterOrigin lastNotifiedEventAt s =
     (let next = \<lparr>ds_taskId = taskId, ds_requesterOrigin = normalizeDeliveryContext (tg_env s) requesterOrigin,
            ds_lastNotifiedEventAt = lastNotifiedEventAt\<rparr>
      in if ds_requesterOrigin next = None \<and> lastNotifiedEventAt = None \<and> jget (tg_deliveryStates s) taskId = None
         then s
         else persistTaskDeliveryStateUpsert next (s\<lparr>tg_deliveryStates := jset (tg_deliveryStates s) taskId next\<rparr>))"

subsection \<open>Indices are exact\<close>

definition members :: "task_index \<Rightarrow> string \<Rightarrow> string set" where
  "members index k = set (case jget index k of Some ids \<Rightarrow> ids | None \<Rightarrow> [])"

definition index_shape :: "task_index \<Rightarrow> bool" where
  "index_shape index \<longleftrightarrow> (\<forall>k ids. jget index k = Some ids \<longrightarrow> distinct ids \<and> ids \<noteq> [])"

lemma shapeD: "index_shape index \<Longrightarrow> jget index k = Some ids \<Longrightarrow> distinct ids \<and> ids \<noteq> []"
  unfolding index_shape_def by blast

lemma shapeI: "(\<And>k ids. jget index k = Some ids \<Longrightarrow> distinct ids \<and> ids \<noteq> []) \<Longrightarrow> index_shape index"
  unfolding index_shape_def by blast

lemma shape_set:
  assumes "index_shape index" and "distinct ids" and "ids \<noteq> []"
  shows "index_shape (jset index k ids)"
proof (rule shapeI)
  fix j js
  assume "jget (jset index k ids) j = Some js"
  with assms(2,3) shapeD [OF assms(1), of j js] show "distinct js \<and> js \<noteq> []" by (cases "j = k") auto
qed

lemma shape_del:
  assumes "index_shape index"
  shows "index_shape (jdel index k)"
proof (rule shapeI)
  fix j js
  assume "jget (jdel index k) j = Some js"
  with shapeD [OF assms, of j js] show "distinct js \<and> js \<noteq> []" by (cases "j = k") auto
qed

lemma members_addKey:
  "members (addIndexedKey k i index) j = (if j = k then insert i (members index k) else members index j)"
  by (cases "jget index k") (auto simp: members_def addIndexedKey_def Let_def)

lemma shape_addKey:
  assumes "index_shape index"
  shows "index_shape (addIndexedKey k i index)"
proof (cases "jget index k")
  case None
  with assms show ?thesis by (simp add: addIndexedKey_def Let_def shape_set)
next
  case (Some ids)
  with shapeD [OF assms Some] assms show ?thesis by (simp add: addIndexedKey_def Let_def shape_set)
qed

lemma members_deleteKey:
  assumes "index_shape index"
  shows "members (deleteIndexedKey k i index) j = (if j = k then members index k - {i} else members index j)"
proof (cases "jget index k")
  case None
  then show ?thesis by (simp add: members_def deleteIndexedKey_def)
next
  case (Some ids)
  then have "set (remove1 i ids) = set ids - {i}" using shapeD [OF assms Some] by simp
  with Some show ?thesis
    by (cases "remove1 i ids = []") (auto simp: members_def deleteIndexedKey_def Let_def)
qed

lemma shape_deleteKey:
  assumes "index_shape index"
  shows "index_shape (deleteIndexedKey k i index)"
proof (cases "jget index k")
  case None
  with assms show ?thesis by (simp add: deleteIndexedKey_def)
next
  case (Some ids)
  with shapeD [OF assms Some] assms show ?thesis by (simp add: deleteIndexedKey_def Let_def shape_set shape_del)
qed

lemma shape_add [simp]: "index_shape index \<Longrightarrow> index_shape (index_add keys i t index)"
  unfolding index_add_def by (rule fold_keeps [where P = index_shape]) (simp_all add: shape_addKey)

lemma shape_delete [simp]: "index_shape index \<Longrightarrow> index_shape (index_delete keys i t index)"
  unfolding index_delete_def by (rule fold_keeps [where P = index_shape]) (simp_all add: shape_deleteKey)

lemma members_add [simp]:
  "members (index_add keys i t index) j = (if j \<in> set (keys t) then insert i (members index j) else members index j)"
proof -
  have "members (fold (\<lambda>k. addIndexedKey k i) ks index) j =
      (if j \<in> set ks then insert i (members index j) else members index j)" for ks
    by (induction ks arbitrary: index) (auto simp: members_addKey)
  then show ?thesis by (simp add: index_add_def)
qed

lemma members_delete [simp]:
  assumes "index_shape index"
  shows "members (index_delete keys i t index) j =
    (if j \<in> set (keys t) then members index j - {i} else members index j)"
proof -
  have "index_shape index \<Longrightarrow> members (fold (\<lambda>k. deleteIndexedKey k i) ks index) j =
      (if j \<in> set ks then members index j - {i} else members index j)" for ks
    by (induction ks arbitrary: index) (auto simp: members_deleteKey shape_deleteKey)
  with assms show ?thesis by (simp add: index_delete_def)
qed

definition index_ok :: "(TaskRecord \<Rightarrow> string list) \<Rightarrow> (string, TaskRecord) jsmap \<Rightarrow> task_index \<Rightarrow> bool" where
  "index_ok keys tasks index \<longleftrightarrow> index_shape index \<and>
     (\<forall>k i. i \<in> members index k \<longleftrightarrow> (\<exists>t. jget tasks i = Some t \<and> k \<in> set (keys t)))"

lemma index_ok_insert:
  "index_ok keys tasks index \<Longrightarrow> jget tasks i = None \<Longrightarrow>
   index_ok keys (jset tasks i t) (index_add keys i t index)"
  by (auto simp: index_ok_def)

lemma index_ok_replace:
  "index_ok keys tasks index \<Longrightarrow> jget tasks i = Some c \<Longrightarrow>
   index_ok keys (jset tasks i t) (index_add keys i t (index_delete keys i c index))"
  by (auto simp: index_ok_def)

lemma index_ok_same:
  "index_ok keys tasks index \<Longrightarrow> jget tasks i = Some c \<Longrightarrow> keys t = keys c \<Longrightarrow>
   index_ok keys (jset tasks i t) index"
  by (auto simp: index_ok_def)

lemma index_ok_delete:
  "index_ok keys tasks index \<Longrightarrow> jget tasks i = Some c \<Longrightarrow>
   index_ok keys (jdel tasks i) (index_delete keys i c index)"
  by (auto simp: index_ok_def)

lemma index_ok_rebuild:
  assumes "jwf tasks"
  shows "index_ok keys tasks (rebuild_index keys tasks)"
proof -
  have "distinct (jkeys (pre @ rest)) \<Longrightarrow> index_ok keys pre index \<Longrightarrow>
      index_ok keys (pre @ rest) (fold (\<lambda>(i, t). index_add keys i t) rest index)" for pre rest index
  proof (induction rest arbitrary: pre index)
    case (Cons kv rest)
    obtain i t where kv: "kv = (i, t)" by force
    have fresh: "jget pre i = None" using Cons.prems(1) kv by (auto simp: map_of_eq_None_iff)
    then have "jset pre i t = pre @ [(i, t)]" by (simp add: jset_fresh)
    with index_ok_insert [OF Cons.prems(2) fresh, of t] Cons.IH [of "pre @ [(i, t)]"] Cons.prems(1) kv
    show ?case by simp
  qed simp
  moreover have "index_shape []" by (rule shapeI) simp
  then have "index_ok keys [] []" by (simp add: index_ok_def members_def)
  moreover have "distinct (jkeys tasks)" using assms unfolding jwf_def .
  ultimately show ?thesis unfolding rebuild_index_def by (metis append_Nil)
qed

subsection \<open>The registry's invariant\<close>

text \<open>The part of the state that the indices concern.\<close>

definition core :: "task_registry \<Rightarrow> (string, TaskRecord) jsmap \<times> task_index \<times> task_index \<times> task_index \<times> task_index \<times> task_table" where
  "core s = (tg_tasks s, tg_byRunId s, tg_byOwnerKey s, tg_byParentFlowId s, tg_byRelatedSessionKey s, tg_taskTable s)"

fun core_ok :: "(string, TaskRecord) jsmap \<times> task_index \<times> task_index \<times> task_index \<times> task_index \<times> task_table \<Rightarrow> bool" where
  "core_ok (tasks, run, own, flow, rel, table) \<longleftrightarrow>
     jwf tasks \<and> (\<forall>i t. jget tasks i = Some t \<longrightarrow> tr_taskId t = i) \<and>
     index_ok run_keys tasks run \<and> index_ok owner_keys tasks own \<and> index_ok flow_keys tasks flow \<and>
     index_ok getTaskRelatedSessionIndexKeys tasks rel \<and>
     jwf table \<and> (\<forall>i row. jget table i = Some row \<longrightarrow> rw_task_id row = i)"

definition reg_inv :: "task_registry \<Rightarrow> bool" where
  "reg_inv s \<longleftrightarrow> core_ok (core s)"

lemma reg_inv_cong: "core s' = core s \<Longrightarrow> reg_inv s' \<longleftrightarrow> reg_inv s"
  by (simp add: reg_inv_def)

lemma core_lookup_flow [simp]: "core (fst (lookup_flow i s)) = core s"
  by (simp add: lookup_flow_def core_def split: prod.split)

lemma core_flows [simp]: "core (s\<lparr>tg_flows := fs\<rparr>) = core s"
  by (simp add: core_def)

lemma core_link [simp]: "core (fst (assertParentFlowLinkAllowed k sc p s)) = core s"
proof (cases "normalizeText p")
  case (Some i)
  show ?thesis
  proof (cases "lookup_flow i s")
    case (Pair s' r)
    with core_lookup_flow [of i s] Some show ?thesis
      by (cases r) (simp_all add: assertParentFlowLinkAllowed_def)
  qed
qed (simp add: assertParentFlowLinkAllowed_def)

lemma core_attempts [simp]: "core (cancel_attempts n now e i f s) = core s"
proof (induction n arbitrary: f s)
  case (Suc n)
  obtain fs r where u: "updateFlowRecordByIdExpectedRevision now i (tf_revision f) (cancel_patch e) (tg_flows s) = (fs, r)"
    by fastforce
  show ?case
  proof (cases r)
    case (Inr q)
    with u Suc show ?thesis by (cases q) (simp_all add: Let_def)
  qed (use u in simp)
qed simp

lemma core_syncManaged [simp]: "core (syncManagedFlowCancellationFromTask now t s) = core s"
proof (cases "normalizeText (tr_parentFlowId t)")
  case (Some i)
  show ?thesis
  proof (cases "lookup_flow i s")
    case (Pair s' r)
    with core_lookup_flow [of i s] Some show ?thesis
      by (cases r) (simp_all add: syncManagedFlowCancellationFromTask_def)
  qed
qed (simp add: syncManagedFlowCancellationFromTask_def)

lemma core_deliveryState [simp]: "core (upsertTaskDeliveryState i org n s) = core s"
  by (simp add: upsertTaskDeliveryState_def Let_def persistTaskDeliveryStateUpsert_def core_def)

lemma loadTaskRows_get:
  assumes "jwf rows" and "\<And>i row. jget rows i = Some row \<Longrightarrow> rw_task_id row = i"
  shows "jget (loadTaskRows rows) i = map_option rowToTaskRecord (jget rows i)" and "jwf (loadTaskRows rows)"
proof -
  let ?L = "sort_key rw_created_at (sort_key rw_task_id (jvals rows))"
  have set: "set ?L = set (jvals rows)" by simp
  have "mset ?L = mset (jvals rows)" by simp
  then have "mset (map rw_task_id ?L) = mset (map rw_task_id (jvals rows))" by (simp only: mset_map)
  moreover have "distinct (map rw_task_id (jvals rows))"
  proof -
    have "map rw_task_id (jvals rows) = jkeys rows" using assms by (rule keys_of_wf)
    moreover have "distinct (jkeys rows)" using assms(1) unfolding jwf_def .
    ultimately show ?thesis by (simp only:)
  qed
  ultimately have dist: "distinct (map rw_task_id ?L)" by (rule mset_eq_imp_distinct_iff [THEN iffD2])
  show "jget (loadTaskRows rows) i = map_option rowToTaskRecord (jget rows i)"
  proof (cases "jget rows i")
    case (Some row)
    then have "row \<in> set ?L" and "rw_task_id row = i" using jvals_mem [OF assms(1)] assms(2) unfolding set by blast+
    with fold_jset_get [OF dist, of row rowToTaskRecord "[]"] Some show ?thesis by (simp add: loadTaskRows_def)
  next
    case None
    then have "i \<notin> rw_task_id ` set ?L" using jvals_mem [OF assms(1)] assms(2) unfolding set by fastforce
    with fold_jset_other [of i rw_task_id ?L rowToTaskRecord "[]"] None show ?thesis by (simp add: loadTaskRows_def)
  qed
  show "jwf (loadTaskRows rows)" by (simp add: loadTaskRows_def fold_jset_wf)
qed

lemma restore_inv:
  assumes "reg_inv s"
  shows "reg_inv (restoreTaskRegistryOnce s)"
proof -
  let ?r = "loadTaskRows (tg_taskTable s)" let ?t = "js_spread (tg_tasks s) ?r"
  have inv: "jwf (tg_tasks s)" "\<forall>i t. jget (tg_tasks s) i = Some t \<longrightarrow> tr_taskId t = i"
    "jwf (tg_taskTable s)" "\<And>i row. jget (tg_taskTable s) i = Some row \<Longrightarrow> rw_task_id row = i"
    using assms by (simp_all add: reg_inv_def core_def)
  note load = loadTaskRows_get [OF inv(3,4)]
  have "jget ?t i = Some t \<Longrightarrow> tr_taskId t = i" for i t
    using load inv(2,4) by (auto simp: jget_js_spread rowToTaskRecord_def split: option.splits)
  moreover have "jwf ?t" using inv(1) by simp
  ultimately show ?thesis
    using assms inv(3,4) index_ok_rebuild [of ?t]
    by (auto simp: restoreTaskRegistryOnce_def Let_def reg_inv_def core_def)
qed

lemma ready_reg_inv: "reg_inv s \<Longrightarrow> reg_inv (ensureTaskRegistryReady s)"
  using restore_inv [of s] by (simp add: ensureTaskRegistryReady_def reg_inv_def core_def)

text \<open>A patch does not remove the run id of a task.\<close>

definition patch_ok :: "TaskPatch \<Rightarrow> bool" where
  "patch_ok p \<longleftrightarrow> (case pa_runId p of None \<Rightarrow> True | Some v \<Rightarrow> nonempty_text v \<noteq> None)"

lemma normalize_trim_eq: "map_option js_trim v = map_option js_trim w \<Longrightarrow> normalizeText v = normalizeText w"
  by (cases v; cases w) (auto simp: normalizeText_def trimmed_def)

lemma nonempty_Some: "nonempty_text v \<noteq> None \<Longrightarrow> \<exists>x. v = Some x \<and> x \<noteq> []"
  by (cases v) (auto simp: nonempty_text_def split: if_splits)

lemma reindex_ok:
  assumes inv: "reg_inv s" and cur: "jget (tg_tasks s) i = Some c" and p: "patch_ok p"
    and run: "tr_runId n = patched (pa_runId p) (tr_runId c)" and id: "tr_taskId n = i"
  shows "reg_inv (reindex_task p i c n s)"
proof -
  let ?t = "jset (tg_tasks s) i n"
  have old: "jwf (tg_tasks s)" "index_ok run_keys (tg_tasks s) (tg_byRunId s)"
    "index_ok owner_keys (tg_tasks s) (tg_byOwnerKey s)" "index_ok flow_keys (tg_tasks s) (tg_byParentFlowId s)"
    "index_ok getTaskRelatedSessionIndexKeys (tg_tasks s) (tg_byRelatedSessionKey s)"
    using inv by (simp_all add: reg_inv_def core_def)
  let ?rr = "nonempty_text (patched (pa_runId p) None) \<noteq> None \<and> patched (pa_runId p) None \<noteq> tr_runId c"
  have "\<not> ?rr \<Longrightarrow> run_keys n = run_keys c"
    using p run by (cases "pa_runId p") (auto simp: patch_ok_def run_keys_def)
  then have 1: "index_ok run_keys ?t (if ?rr then rebuild_index run_keys ?t else tg_byRunId s)"
    using index_ok_rebuild [of ?t] index_ok_same [OF old(2) cur, of n] old(1) by auto
  let ?so = "trimmed (tr_ownerKey c) \<noteq> trimmed (tr_ownerKey n) \<or>
    normalizeText (tr_childSessionKey c) \<noteq> normalizeText (tr_childSessionKey n)"
  have 2: "index_ok owner_keys ?t (if ?so then index_add owner_keys i n (index_delete owner_keys i c (tg_byOwnerKey s))
      else tg_byOwnerKey s)"
    using index_ok_replace [OF old(3) cur] index_ok_same [OF old(3) cur, of n] by (auto simp: owner_keys_def)
  have 3: "index_ok getTaskRelatedSessionIndexKeys ?t (if ?so then index_add getTaskRelatedSessionIndexKeys i n
      (index_delete getTaskRelatedSessionIndexKeys i c (tg_byRelatedSessionKey s)) else tg_byRelatedSessionKey s)"
    using index_ok_replace [OF old(5) cur] index_ok_same [OF old(5) cur, of n]
    by (auto simp: getTaskRelatedSessionIndexKeys_def)
  let ?f = "map_option js_trim (tr_parentFlowId c) \<noteq> map_option js_trim (tr_parentFlowId n)"
  have "\<not> ?f \<Longrightarrow> flow_keys n = flow_keys c"
    using normalize_trim_eq [of "tr_parentFlowId c" "tr_parentFlowId n"] by (simp add: flow_keys_def)
  then have 4: "index_ok flow_keys ?t (if ?f then index_add flow_keys i n (index_delete flow_keys i c (tg_byParentFlowId s))
      else tg_byParentFlowId s)"
    using index_ok_replace [OF old(4) cur] index_ok_same [OF old(4) cur, of n] by auto
  have c: "core (reindex_task p i c n s) =
      (?t, (if ?rr then rebuild_index run_keys ?t else tg_byRunId s),
       (if ?so then index_add owner_keys i n (index_delete owner_keys i c (tg_byOwnerKey s)) else tg_byOwnerKey s),
       (if ?f then index_add flow_keys i n (index_delete flow_keys i c (tg_byParentFlowId s)) else tg_byParentFlowId s),
       (if ?so then index_add getTaskRelatedSessionIndexKeys i n
          (index_delete getTaskRelatedSessionIndexKeys i c (tg_byRelatedSessionKey s)) else tg_byRelatedSessionKey s),
       tg_taskTable s)"
    by (simp add: reindex_task_def Let_def core_def)
  show ?thesis
    unfolding reg_inv_def c core_ok.simps using 1 2 3 4 inv id by (auto simp: reg_inv_def core_def)
qed

lemma persist_inv: "reg_inv s \<Longrightarrow> reg_inv (persistTaskUpsert t s)"
  by (auto simp: reg_inv_def core_def persistTaskUpsert_def bindTaskRecord_def)

lemma stamp_simps [simp]:
  "tr_taskId (stamp_cleanup now t) = tr_taskId t" "tr_runId (stamp_cleanup now t) = tr_runId t"
  "tr_status (stamp_cleanup now t) = tr_status t" "tr_deliveryStatus (stamp_cleanup now t) = tr_deliveryStatus t"
  "tr_parentFlowId (stamp_cleanup now t) = tr_parentFlowId t"
  by (simp_all add: stamp_cleanup_def)

lemma patch_simps [simp]:
  "tr_taskId (patch_task p t) = tr_taskId t"
  "tr_runId (patch_task p t) = patched (pa_runId p) (tr_runId t)"
  "tr_status (patch_task p t) = patched (pa_status p) (tr_status t)"
  "tr_deliveryStatus (patch_task p t) = patched (pa_deliveryStatus p) (tr_deliveryStatus t)"
  by (simp_all add: patch_task_def)

lemma updateTask_inv:
  assumes "reg_inv s" and "patch_ok p"
  shows "reg_inv (fst (updateTask now i p s))"
proof (cases "jget (tg_tasks s) i")
  case (Some c)
  have "tr_taskId c = i" using assms(1) Some by (simp add: reg_inv_def core_def)
  then have "reg_inv (reindex_task p i c (stamp_cleanup now (patch_task p c)) s)"
    by (intro reindex_ok [OF assms(1) Some assms(2)]) simp_all
  from persist_inv [OF this] Some show ?thesis
    by (simp add: updateTask_def Let_def reg_inv_def)
qed (use assms in \<open>simp add: updateTask_def\<close>)

text \<open>The tasks after an update.\<close>

lemma reindex_tasks [simp]: "tg_tasks (reindex_task p i c n s) = jset (tg_tasks s) i n"
  by (simp add: reindex_task_def Let_def)

lemma tasks_core: "core s = core s' \<Longrightarrow> tg_tasks s = tg_tasks s'"
  by (simp add: core_def)

lemma persist_tasks [simp]: "tg_tasks (persistTaskUpsert t s) = tg_tasks s"
  by (simp add: persistTaskUpsert_def)

lemma updateTask_tasks:
  "tg_tasks (fst (updateTask now i p s)) = (case jget (tg_tasks s) i of
     None \<Rightarrow> tg_tasks s | Some c \<Rightarrow> jset (tg_tasks s) i (stamp_cleanup now (patch_task p c)))"
  using tasks_core [OF core_syncManaged] by (simp add: updateTask_def Let_def split: option.split)

end
