(* ===== verification/TaskDelivery.thy ===== *)
theory TaskDelivery
  imports TaskRegistry
begin

text \<open>
  Telling the owner of a task about it (\<open>src/src/tasks/task-registry.ts\<close>, \<open>task-executor-policy.ts\<close>): who
  is told, which text, over a channel or as a system event of the owner's session, and the flag that keeps
  a terminal update from being delivered twice at a time. A delivery over a channel is split at its two
  awaits: the call up to the first (\<open>maybeDeliverTaskTerminalUpdate\<close>, \<open>maybeDeliverTaskStateChangeUpdate\<close>),
  the sending (\<open>delivery_loaded\<close>) and its end (\<open>delivery_sent\<close>, \<open>delivery_failed\<close>).
\<close>

subsection \<open>Policy\<close>

definition shouldAutoDeliverTaskTerminalUpdate :: "TaskRecord \<Rightarrow> bool" where
  "shouldAutoDeliverTaskTerminalUpdate t \<longleftrightarrow>
     tr_notifyPolicy t \<noteq> NP_silent \<and> \<not> (tr_runtime t = RT_subagent \<and> tr_status t \<noteq> BT_cancelled) \<and>
     isTerminalTaskStatus (tr_status t) \<and> tr_deliveryStatus t = DV_pending"

definition shouldAutoDeliverTaskStateChange :: "TaskRecord \<Rightarrow> bool" where
  "shouldAutoDeliverTaskStateChange t \<longleftrightarrow>
     tr_notifyPolicy t = NP_state_changes \<and> tr_deliveryStatus t = DV_pending \<and>
     \<not> isTerminalTaskStatus (tr_status t)"

definition shouldSuppressDuplicateTerminalDelivery :: "TaskRecord \<Rightarrow> string option \<Rightarrow> bool" where
  "shouldSuppressDuplicateTerminalDelivery t preferredTaskId \<longleftrightarrow>
     \<not> (tr_runtime t \<noteq> RT_acp \<or> normalizeText (tr_runId t) = None) \<and>
     nonempty_text preferredTaskId \<noteq> None \<and> preferredTaskId \<noteq> Some (tr_taskId t)"

definition resolveTaskDisplayTitle :: "task_env \<Rightarrow> TaskRecord \<Rightarrow> string" where
  "resolveTaskDisplayTitle env t =
     ev_title env (case normalizeText (tr_label t) of
         Some l \<Rightarrow> l
       | None \<Rightarrow>
           (case tr_runtime t of
              RT_acp \<Rightarrow> ''ACP background task''
            | RT_subagent \<Rightarrow> ''Subagent task''
            | _ \<Rightarrow> or_value (trimmed (tr_task t)) ''Background task''))"

definition resolveTaskRunLabel :: "TaskRecord \<Rightarrow> string" where
  "resolveTaskRunLabel t =
     (case nonempty_text (tr_runId t) of Some r \<Rightarrow> '' (run '' @ take 8 r @ '')'' | None \<Rightarrow> [])"

text \<open>\<open>`...${title}${runLabel}.`\<close>, followed by the detail if there is one.\<close>

definition sentence :: "string \<Rightarrow> string \<Rightarrow> string \<Rightarrow> string" where
  "sentence start subject detail = start @ subject @ ''.'' @ (if detail = [] then [] else '' '' @ detail)"

definition formatTaskTerminalMessage :: "task_env \<Rightarrow> TaskRecord \<Rightarrow> string" where
  "formatTaskTerminalMessage env t =
     (let subject = resolveTaskDisplayTitle env t @ resolveTaskRunLabel t;
          blocked = (tr_terminalOutcome t = Some TO_blocked);
          summary = ev_sanitize env (tr_status t \<noteq> BT_succeeded \<or> blocked) (tr_terminalSummary t);
          err = ev_sanitize env True (tr_error t);
          fallback = ev_sanitize env True (tr_terminalSummary t)
      in case tr_status t of
           BT_succeeded \<Rightarrow>
             sentence (if blocked then ''Background task blocked: '' else ''Background task done: '') subject summary
         | BT_timed_out \<Rightarrow> sentence ''Background task timed out: '' subject []
         | BT_lost \<Rightarrow> sentence ''Background task lost: '' subject
             (if err \<noteq> [] then err else if fallback \<noteq> [] then fallback else ''Backing session disappeared.'')
         | BT_cancelled \<Rightarrow> sentence ''Background task cancelled: '' subject []
         | _ \<Rightarrow> sentence ''Background task failed: '' subject (if err \<noteq> [] then err else fallback))"

definition formatTaskBlockedFollowupMessage :: "task_env \<Rightarrow> TaskRecord \<Rightarrow> string option" where
  "formatTaskBlockedFollowupMessage env t =
     (if tr_status t \<noteq> BT_succeeded \<or> tr_terminalOutcome t \<noteq> Some TO_blocked then None
      else let summary = ev_sanitize env True (tr_terminalSummary t)
           in Some (sentence ''Task needs follow-up: '' (resolveTaskDisplayTitle env t @ resolveTaskRunLabel t)
                (if summary \<noteq> [] then summary else ''Task is blocked and needs follow-up.'')))"

definition formatTaskStateChangeMessage :: "task_env \<Rightarrow> TaskRecord \<Rightarrow> TaskEventRecord \<Rightarrow> string option" where
  "formatTaskStateChangeMessage env t e =
     (let title = resolveTaskDisplayTitle env t
      in case te_kind e of
           EK_status BT_running \<Rightarrow> Some (sentence ''Background task started: '' title [])
         | EK_progress \<Rightarrow>
             (let summary = ev_sanitize env False (te_summary e)
              in if summary \<noteq> [] then Some (sentence ''Background task update: '' title summary) else None)
         | _ \<Rightarrow> None)"

subsection \<open>Owners and keys\<close>

definition getLinkedFlowForDelivery :: "TaskRecord \<Rightarrow> task_registry \<Rightarrow> task_registry \<times> TaskFlowRecord option" where
  "getLinkedFlowForDelivery t s =
     (case normalizeText (tr_parentFlowId t) of
        None \<Rightarrow> (s, None)
      | Some flowId \<Rightarrow>
          (if tr_scopeKind t \<noteq> SK_session then (s, None)
           else case lookup_flow flowId s of
                  (s, None) \<Rightarrow> (s, None)
                | (s, Some flow) \<Rightarrow>
                    (s, if trimmed (tf_ownerKey flow) \<noteq> trimmed (tr_ownerKey t) then None else Some flow)))"

definition own_origin :: "string \<Rightarrow> task_registry \<Rightarrow> DeliveryContext option" where
  "own_origin taskId s =
     (case jget (tg_deliveryStates s) taskId of Some st \<Rightarrow> ds_requesterOrigin st | None \<Rightarrow> None)"

definition resolveTaskDeliveryOwner :: "TaskRecord \<Rightarrow> task_registry \<Rightarrow> task_registry \<times> TaskDeliveryOwner" where
  "resolveTaskDeliveryOwner t s =
     (case getLinkedFlowForDelivery t s of
        (s, Some flow) \<Rightarrow> (s, \<lparr>ow_sessionKey = Some (js_trim (tf_ownerKey flow)),
            ow_requesterOrigin = normalizeDeliveryContext (tg_env s)
              (or_else (tf_requesterOrigin flow) (own_origin (tr_taskId t) s)),
            ow_flowId = Some (tf_flowId flow)\<rparr>)
      | (s, None) \<Rightarrow>
          (s, if tr_scopeKind t \<noteq> SK_session then \<lparr>ow_sessionKey = None, ow_requesterOrigin = None, ow_flowId = None\<rparr>
              else \<lparr>ow_sessionKey = Some (js_trim (tr_ownerKey t)),
                    ow_requesterOrigin = normalizeDeliveryContext (tg_env s) (own_origin (tr_taskId t) s),
                    ow_flowId = None\<rparr>))"

definition status_text :: "BgTaskStatus \<Rightarrow> string" where
  "status_text st = (case st of BT_queued \<Rightarrow> ''queued'' | BT_running \<Rightarrow> ''running'' | BT_succeeded \<Rightarrow> ''succeeded''
     | BT_failed \<Rightarrow> ''failed'' | BT_timed_out \<Rightarrow> ''timed_out'' | BT_cancelled \<Rightarrow> ''cancelled'' | BT_lost \<Rightarrow> ''lost'')"

definition outcome_text :: "TaskRecord \<Rightarrow> string" where
  "outcome_text t =
     (if tr_status t = BT_succeeded
      then (case tr_terminalOutcome t of Some TO_succeeded \<Rightarrow> ''succeeded'' | Some TO_blocked \<Rightarrow> ''blocked''
            | None \<Rightarrow> ''default'')
      else ''default'')"

definition taskTerminalDeliveryIdempotencyKey :: "TaskRecord \<Rightarrow> string" where
  "taskTerminalDeliveryIdempotencyKey t =
     ''task-terminal:'' @ tr_taskId t @ '':'' @ status_text (tr_status t) @ '':'' @ outcome_text t"

definition resolveTaskTerminalIdempotencyKey :: "TaskRecord \<Rightarrow> task_registry \<Rightarrow> task_registry \<times> string" where
  "resolveTaskTerminalIdempotencyKey t s =
     (case resolveTaskDeliveryOwner t s of
        (s, owner) \<Rightarrow>
          (s, case nonempty_text (ow_flowId owner) of
                Some flowId \<Rightarrow> ''flow-terminal:'' @ flowId @ '':'' @ tr_taskId t @ '':'' @ status_text (tr_status t)
                  @ '':'' @ outcome_text t
              | None \<Rightarrow> taskTerminalDeliveryIdempotencyKey t))"

definition kind_text :: "TaskEventKind \<Rightarrow> string" where
  "kind_text k = (case k of EK_status st \<Rightarrow> status_text st | EK_progress \<Rightarrow> ''progress'')"

definition resolveTaskStateChangeIdempotencyKey :: "TaskRecord \<Rightarrow> TaskEventRecord \<Rightarrow> TaskDeliveryOwner \<Rightarrow> string" where
  "resolveTaskStateChangeIdempotencyKey t e owner =
     (case nonempty_text (ow_flowId owner) of
        Some flowId \<Rightarrow> ''flow-event:'' @ flowId @ '':'' @ tr_taskId t
      | None \<Rightarrow> ''task-event:'' @ tr_taskId t) @ '':'' @ dec_int (te_at e) @ '':'' @ kind_text (te_kind e)"

definition canDeliverTaskToRequesterOrigin :: "TaskDeliveryOwner \<Rightarrow> task_registry \<Rightarrow> bool" where
  "canDeliverTaskToRequesterOrigin owner s =
     (case ow_requesterOrigin owner of
        None \<Rightarrow> False
      | Some origin \<Rightarrow>
          (case (normalizeText (dx_channel origin), normalizeText (dx_to origin)) of
             (Some channel, Some _) \<Rightarrow> ev_deliverable (tg_env s) channel
           | _ \<Rightarrow> False))"

definition resolveMissingOwnerDeliveryStatus :: "TaskRecord \<Rightarrow> TaskDeliveryStatus" where
  "resolveMissingOwnerDeliveryStatus t =
     (if tr_scopeKind t = SK_system then DV_not_applicable else DV_parent_missing)"

definition add_event :: "system_event \<Rightarrow> task_registry \<Rightarrow> task_registry" where
  "add_event e s = s\<lparr>tg_events := tg_events s @ [e]\<rparr>"

definition queueTaskSystemEvent :: "TaskRecord \<Rightarrow> string \<Rightarrow> task_registry \<Rightarrow> task_registry" where
  "queueTaskSystemEvent t msg s =
     (case resolveTaskDeliveryOwner t s of
        (s, owner) \<Rightarrow>
          (case normalizeText (ow_sessionKey owner) of
             None \<Rightarrow> s
           | Some ownerKey \<Rightarrow> add_event \<lparr>se_text = msg, se_sessionKey = ownerKey,
               se_contextKey = ''task:'' @ tr_taskId t, se_deliveryContext = ow_requesterOrigin owner,
               se_heartbeat = ''background-task''\<rparr> s))"

definition queueBlockedTaskFollowup :: "TaskRecord \<Rightarrow> task_registry \<Rightarrow> task_registry" where
  "queueBlockedTaskFollowup t s =
     (case formatTaskBlockedFollowupMessage (tg_env s) t of
        None \<Rightarrow> s
      | Some msg \<Rightarrow>
          (case resolveTaskDeliveryOwner t s of
             (s, owner) \<Rightarrow>
               (case normalizeText (ow_sessionKey owner) of
                  None \<Rightarrow> s
                | Some ownerKey \<Rightarrow> add_event \<lparr>se_text = msg, se_sessionKey = ownerKey,
                    se_contextKey = ''task:'' @ tr_taskId t @ '':blocked-followup'',
                    se_deliveryContext = ow_requesterOrigin owner, se_heartbeat = ''background-task-blocked''\<rparr> s)))"

definition followup_if_blocked :: "TaskRecord \<Rightarrow> task_registry \<Rightarrow> task_registry" where
  "followup_if_blocked t s =
     (if tr_terminalOutcome t = Some TO_blocked then queueBlockedTaskFollowup t s else s)"

subsection \<open>Terminal updates\<close>

definition set_delivery :: "int \<Rightarrow> TaskDeliveryStatus \<Rightarrow> TaskPatch" where
  "set_delivery now st = empty_patch\<lparr>pa_deliveryStatus := Some st, pa_lastEventAt := Some (Some now)\<rparr>"

definition done_pending :: "string \<Rightarrow> task_registry \<Rightarrow> task_registry" where
  "done_pending taskId s = s\<lparr>tg_pendingDelivery := remove1 taskId (tg_pendingDelivery s)\<rparr>"

text \<open>The call up to its first await; where it returns before one, the \<open>finally\<close> clause has run.\<close>

definition deliver_terminal :: "int \<Rightarrow> string \<Rightarrow> TaskRecord \<Rightarrow> task_registry \<Rightarrow> task_registry" where
  "deliver_terminal now taskId latest s =
     (let preferred = (if nonempty_text (tr_runId latest) \<noteq> None
            then pickPreferredRunIdTask (getPeerTasksForDelivery latest s) else None)
      in if shouldSuppressDuplicateTerminalDelivery latest (map_option tr_taskId preferred)
         then done_pending taskId (fst (updateTask now taskId (set_delivery now DV_not_applicable) s))
         else case resolveTaskDeliveryOwner latest s of
           (s, owner) \<Rightarrow>
             (case normalizeText (ow_sessionKey owner) of
                None \<Rightarrow> done_pending taskId
                  (fst (updateTask now taskId (set_delivery now (resolveMissingOwnerDeliveryStatus latest)) s))
              | Some ownerSessionKey \<Rightarrow>
                  (let msg = formatTaskTerminalMessage (tg_env s) latest
                   in if \<not> canDeliverTaskToRequesterOrigin owner s
                      then done_pending taskId (fst (updateTask now taskId (set_delivery now DV_session_queued)
                             (followup_if_blocked latest (queueTaskSystemEvent latest msg s))))
                      else s\<lparr>tg_deliveries := tg_deliveries s @ [\<lparr>dl_task = latest, dl_owner = owner,
                             dl_sessionKey = ownerSessionKey, dl_text = msg, dl_event = None, dl_origin = None,
                             dl_phase = DL_loading\<rparr>]\<rparr>)))"

definition maybeDeliverTaskTerminalUpdate :: "int \<Rightarrow> string \<Rightarrow> task_registry \<Rightarrow> task_registry" where
  "maybeDeliverTaskTerminalUpdate now taskId s =
     (let s = ensureTaskRegistryReady s
      in case jget (tg_tasks s) taskId of
           None \<Rightarrow> s
         | Some current \<Rightarrow>
             (if \<not> shouldAutoDeliverTaskTerminalUpdate current \<or> taskId \<in> set (tg_pendingDelivery s) then s
              else deliver_terminal now taskId current
                     (s\<lparr>tg_pendingDelivery := tg_pendingDelivery s @ [taskId]\<rparr>)))"

subsection \<open>State changes\<close>

definition maybeDeliverTaskStateChangeUpdate ::
  "int \<Rightarrow> string \<Rightarrow> TaskEventRecord option \<Rightarrow> task_registry \<Rightarrow> task_registry" where
  "maybeDeliverTaskStateChangeUpdate now taskId latestEvent s =
     (let s = ensureTaskRegistryReady s
      in case (jget (tg_tasks s) taskId, latestEvent) of
           (Some current, Some e) \<Rightarrow>
             (let st = jget (tg_deliveryStates s) taskId;
                  notified = or_value (case st of Some x \<Rightarrow> ds_lastNotifiedEventAt x | None \<Rightarrow> None) 0;
                  origin = (case st of Some x \<Rightarrow> ds_requesterOrigin x | None \<Rightarrow> None)
              in if \<not> shouldAutoDeliverTaskStateChange current \<or> notified \<ge> te_at e then s
                 else case formatTaskStateChangeMessage (tg_env s) current e of
                   None \<Rightarrow> s
                 | Some msg \<Rightarrow>
                     (case resolveTaskDeliveryOwner current s of
                        (s, owner) \<Rightarrow>
                          (case normalizeText (ow_sessionKey owner) of
                             None \<Rightarrow> fst (updateTask now taskId
                                 (set_delivery now (resolveMissingOwnerDeliveryStatus current)) s)
                           | Some ownerSessionKey \<Rightarrow>
                               (if \<not> canDeliverTaskToRequesterOrigin owner s
                                then fst (updateTask now taskId (empty_patch\<lparr>pa_lastEventAt := Some (Some now)\<rparr>)
                                       (upsertTaskDeliveryState taskId origin (Some (te_at e))
                                          (queueTaskSystemEvent current msg s)))
                                else s\<lparr>tg_deliveries := tg_deliveries s @ [\<lparr>dl_task = current, dl_owner = owner,
                                       dl_sessionKey = ownerSessionKey, dl_text = msg, dl_event = Some e,
                                       dl_origin = origin, dl_phase = DL_loading\<rparr>]\<rparr>))))
         | _ \<Rightarrow> s)"

subsection \<open>After the awaits\<close>

definition set_delivery_phase :: "nat \<Rightarrow> delivery_phase \<Rightarrow> task_registry \<Rightarrow> task_registry" where
  "set_delivery_phase k ph s = s\<lparr>tg_deliveries := (tg_deliveries s)[k := (tg_deliveries s ! k)\<lparr>dl_phase := ph\<rparr>]\<rparr>"

text \<open>The delivery runtime is loaded: the idempotency key is built and \<open>sendMessage\<close> called.\<close>

definition delivery_loaded :: "nat \<Rightarrow> task_registry \<Rightarrow> task_registry" where
  "delivery_loaded k s =
     (if k < length (tg_deliveries s) \<and> dl_phase (tg_deliveries s ! k) = DL_loading
      then let d = tg_deliveries s ! k
           in case dl_event d of
                Some e \<Rightarrow> set_delivery_phase k
                  (DL_sending (resolveTaskStateChangeIdempotencyKey (dl_task d) e (dl_owner d))) s
              | None \<Rightarrow>
                  (case resolveTaskTerminalIdempotencyKey (dl_task d) s of
                     (s, key) \<Rightarrow> set_delivery_phase k (DL_sending key) s)
      else s)"

text \<open>\<open>sendMessage\<close> returns.\<close>

definition delivery_sent :: "int \<Rightarrow> nat \<Rightarrow> task_registry \<Rightarrow> task_registry" where
  "delivery_sent now k s =
     (if k < length (tg_deliveries s)
      then let d = tg_deliveries s ! k; taskId = tr_taskId (dl_task d)
           in case dl_phase d of
                DL_sending key \<Rightarrow>
                  (let s = set_delivery_phase k (DL_sent key) s
                   in case dl_event d of
                        Some e \<Rightarrow> fst (updateTask now taskId (empty_patch\<lparr>pa_lastEventAt := Some (Some now)\<rparr>)
                          (upsertTaskDeliveryState taskId (dl_origin d) (Some (te_at e)) s))
                      | None \<Rightarrow> done_pending taskId
                          (fst (updateTask now taskId (set_delivery now DV_delivered) (followup_if_blocked (dl_task d) s))))
              | _ \<Rightarrow> s
      else s)"

text \<open>Loading or sending throws.\<close>

definition delivery_failed :: "int \<Rightarrow> nat \<Rightarrow> task_registry \<Rightarrow> task_registry" where
  "delivery_failed now k s =
     (if k < length (tg_deliveries s)
      then let d = tg_deliveries s ! k; taskId = tr_taskId (dl_task d);
               failed = (let s = set_delivery_phase k DL_failed s
                   in case dl_event d of
                        Some e \<Rightarrow> s
                      | None \<Rightarrow> done_pending taskId
                          (fst (updateTask now taskId (set_delivery now DV_failed)
                             (followup_if_blocked (dl_task d) (queueTaskSystemEvent (dl_task d) (dl_text d) s)))))
           in case dl_phase d of
                DL_loading \<Rightarrow> failed
              | DL_sending _ \<Rightarrow> failed
              | _ \<Rightarrow> s
      else s)"

subsection \<open>Deliveries keep the indices exact\<close>

lemma core_pending [simp]:
  "core (s\<lparr>tg_pendingDelivery := x\<rparr>) = core s" "core (s\<lparr>tg_deliveries := y\<rparr>) = core s"
  "core (s\<lparr>tg_deliveryStates := z\<rparr>) = core s" "core (s\<lparr>tg_deliveryTable := w\<rparr>) = core s"
  "core (done_pending i s) = core s" "core (add_event e s) = core s" "core (set_delivery_phase k ph s) = core s"
  by (simp_all add: core_def done_pending_def add_event_def set_delivery_phase_def)

lemma core_linked [simp]: "core (fst (getLinkedFlowForDelivery t s)) = core s"
proof (cases "normalizeText (tr_parentFlowId t)")
  case (Some i)
  show ?thesis
  proof (cases "lookup_flow i s")
    case (Pair s' r)
    with core_lookup_flow [of i s] Some show ?thesis by (cases r) (simp_all add: getLinkedFlowForDelivery_def)
  qed
qed (simp add: getLinkedFlowForDelivery_def)

lemma core_owner [simp]: "core (fst (resolveTaskDeliveryOwner t s)) = core s"
proof (cases "getLinkedFlowForDelivery t s")
  case (Pair s' r)
  with core_linked [of t s] show ?thesis by (cases r) (simp_all add: resolveTaskDeliveryOwner_def)
qed

lemma core_key [simp]: "core (fst (resolveTaskTerminalIdempotencyKey t s)) = core s"
  using core_owner [of t s] by (simp add: resolveTaskTerminalIdempotencyKey_def case_prod_beta)

lemma core_queue [simp]: "core (queueTaskSystemEvent t msg s) = core s"
  using core_owner [of t s] by (simp add: queueTaskSystemEvent_def case_prod_beta split: option.split)

lemma core_followup [simp]: "core (followup_if_blocked t s) = core s"
  using core_owner [of t s]
  by (simp add: followup_if_blocked_def queueBlockedTaskFollowup_def case_prod_beta split: option.split)

lemma set_delivery_ok [simp]: "patch_ok (set_delivery now st)" "patch_ok (empty_patch\<lparr>pa_lastEventAt := v\<rparr>)"
  by (simp_all add: patch_ok_def set_delivery_def empty_patch_def)

lemma inv_frames [simp]:
  "reg_inv (done_pending i s) \<longleftrightarrow> reg_inv s" "reg_inv (set_delivery_phase k ph s) \<longleftrightarrow> reg_inv s"
  "reg_inv (queueTaskSystemEvent t msg s) \<longleftrightarrow> reg_inv s" "reg_inv (followup_if_blocked t s) \<longleftrightarrow> reg_inv s"
  "reg_inv (upsertTaskDeliveryState i org n s) \<longleftrightarrow> reg_inv s" "reg_inv (s\<lparr>tg_deliveries := ds\<rparr>) \<longleftrightarrow> reg_inv s"
  "reg_inv (s\<lparr>tg_pendingDelivery := is\<rparr>) \<longleftrightarrow> reg_inv s"
  by (simp_all add: reg_inv_def)

lemma inv_owner: "resolveTaskDeliveryOwner t s = (s', owner) \<Longrightarrow> reg_inv s' \<longleftrightarrow> reg_inv s"
  using core_owner [of t s] by (simp add: reg_inv_def)

lemma deliver_terminal_inv:
  assumes "reg_inv s"
  shows "reg_inv (deliver_terminal now i t s)"
proof (cases "resolveTaskDeliveryOwner t s")
  case (Pair s' owner)
  then have "reg_inv s'" using inv_owner assms by blast
  with assms Pair show ?thesis
    by (simp add: deliver_terminal_def Let_def updateTask_inv split: option.split)
qed

lemma terminal_update_inv: "reg_inv s \<Longrightarrow> reg_inv (maybeDeliverTaskTerminalUpdate now i s)"
  by (simp add: maybeDeliverTaskTerminalUpdate_def Let_def ready_reg_inv deliver_terminal_inv split: option.split)

lemma state_change_inv:
  assumes "reg_inv s"
  shows "reg_inv (maybeDeliverTaskStateChangeUpdate now i e s)"
proof -
  let ?s = "ensureTaskRegistryReady s"
  have inv: "reg_inv ?s" using assms by (rule ready_reg_inv)
  show ?thesis
  proof (cases "jget (tg_tasks ?s) i")
    case (Some t)
    show ?thesis
    proof (cases "resolveTaskDeliveryOwner t ?s")
      case (Pair s' owner)
      then have "reg_inv s'" using inv_owner inv by blast
      with inv Some Pair show ?thesis
        by (cases e) (simp_all add: maybeDeliverTaskStateChangeUpdate_def Let_def updateTask_inv split: option.split)
    qed
  qed (simp add: maybeDeliverTaskStateChangeUpdate_def Let_def inv)
qed

lemma loaded_inv: "reg_inv s \<Longrightarrow> reg_inv (delivery_loaded k s)"
  using core_key by (auto simp: delivery_loaded_def Let_def case_prod_beta reg_inv_def split: option.split)

lemma sent_inv: "reg_inv s \<Longrightarrow> reg_inv (delivery_sent now k s)"
  by (auto simp: delivery_sent_def Let_def updateTask_inv split: option.split delivery_phase.split)

lemma failed_inv: "reg_inv s \<Longrightarrow> reg_inv (delivery_failed now k s)"
  by (auto simp: delivery_failed_def Let_def updateTask_inv split: option.split delivery_phase.split)

end
