(* ===== verification/TaskRuns.thy ===== *)
theory TaskRuns
  imports TaskDelivery
begin

text \<open>
  The operations of the task registry (\<open>src/src/tasks/task-registry.ts\<close>): creation with its
  de-duplication by run, updates by id and by run, the listener for agent events, linking to flows,
  cancellation (split at its await), deletion and the lookups, with the owner's view of them
  (\<open>task-owner-access.ts\<close>) and the summary (\<open>task-registry.summary.ts\<close>).
\<close>

subsection \<open>Creation\<close>

record TaskParams =
  kp_runtime :: TaskRuntime
  kp_sourceId :: "string option"
  kp_requesterSessionKey :: "string option"
  kp_ownerKey :: "string option"
  kp_scopeKind :: "TaskScopeKind option"
  kp_requesterOrigin :: "DeliveryContext option"
  kp_childSessionKey :: "string option"
  kp_parentFlowId :: "string option"
  kp_parentTaskId :: "string option"
  kp_agentId :: "string option"
  kp_runId :: "string option"
  kp_label :: "string option"
  kp_task :: string
  kp_preferMetadata :: bool
  kp_status :: "BgTaskStatus option"
  kp_deliveryStatus :: "TaskDeliveryStatus option"
  kp_notifyPolicy :: "TaskNotifyPolicy option"
  kp_startedAt :: "int option"
  kp_lastEventAt :: "int option"
  kp_cleanupAfter :: "int option"
  kp_progressSummary :: "string option"
  kp_terminalSummary :: "string option"
  kp_terminalOutcome :: "TaskTerminalOutcome option"

definition ensureDeliveryStatus :: "string \<Rightarrow> TaskScopeKind \<Rightarrow> TaskDeliveryStatus" where
  "ensureDeliveryStatus ownerKey scopeKind =
     (if scopeKind = SK_system then DV_not_applicable
      else if trimmed ownerKey \<noteq> None then DV_pending else DV_parent_missing)"

definition ensureNotifyPolicy ::
  "TaskNotifyPolicy option \<Rightarrow> TaskDeliveryStatus option \<Rightarrow> string \<Rightarrow> TaskScopeKind \<Rightarrow> TaskNotifyPolicy" where
  "ensureNotifyPolicy notifyPolicy deliveryStatus ownerKey scopeKind =
     (case notifyPolicy of
        Some p \<Rightarrow> p
      | None \<Rightarrow> if or_value deliveryStatus (ensureDeliveryStatus ownerKey scopeKind) = DV_not_applicable
          then NP_silent else NP_done_only)"

definition resolveTaskRequesterSessionKey :: "TaskParams \<Rightarrow> string" where
  "resolveTaskRequesterSessionKey p =
     (case normalizeText (kp_requesterSessionKey p) of
        Some k \<Rightarrow> k
      | None \<Rightarrow> if kp_scopeKind p = Some SK_system then [] else normalizeComparableText (kp_ownerKey p))"

definition resolveTaskScopeKind :: "TaskScopeKind option \<Rightarrow> string \<Rightarrow> TaskScopeKind" where
  "resolveTaskScopeKind scopeKind requesterSessionKey =
     (case scopeKind of
        Some k \<Rightarrow> k | None \<Rightarrow> if trimmed requesterSessionKey \<noteq> None then SK_session else SK_system)"

definition resolveTaskOwnerKey :: "string \<Rightarrow> string option \<Rightarrow> string" where
  "resolveTaskOwnerKey requesterSessionKey ownerKey =
     or_value (normalizeText ownerKey) (js_trim requesterSessionKey)"

definition resolveTaskTerminalOutcome ::
  "BgTaskStatus \<Rightarrow> TaskTerminalOutcome option \<Rightarrow> TaskTerminalOutcome option" where
  "resolveTaskTerminalOutcome status outcome =
     or_else outcome (if status = BT_succeeded then Some TO_succeeded else None)"

definition findExistingTaskForCreate ::
  "string \<Rightarrow> TaskScopeKind \<Rightarrow> TaskParams \<Rightarrow> task_registry \<Rightarrow> TaskRecord option" where
  "findExistingTaskForCreate ownerKey scopeKind p s =
     (case normalizeText (kp_runId p) of
        None \<Rightarrow> None
      | Some runId \<Rightarrow>
          (let runScopeMatches = filter (\<lambda>t. tr_runtime t = kp_runtime p \<and> tr_scopeKind t = scopeKind \<and>
                 js_trim (tr_ownerKey t) = js_trim ownerKey \<and>
                 normalizeComparableText (tr_childSessionKey t) = normalizeComparableText (kp_childSessionKey p) \<and>
                 normalizeComparableText (tr_parentFlowId t) = normalizeComparableText (kp_parentFlowId p))
               (getTasksByRunId runId s)
           in case find (\<lambda>t. normalizeComparableText (tr_label t) = normalizeComparableText (kp_label p) \<and>
                  js_trim (tr_task t) = js_trim (kp_task p)) runScopeMatches of
                Some exact \<Rightarrow> Some exact
              | None \<Rightarrow> if kp_runtime p \<noteq> RT_acp then None else pickPreferredRunIdTask runScopeMatches))"

text \<open>The key is set when the parameter has text and the task has none.\<close>

definition fill_text :: "string option \<Rightarrow> string option \<Rightarrow> string option option" where
  "fill_text new old =
     (case normalizeText new of
        Some v \<Rightarrow> if normalizeText old = None then Some (Some v) else None | None \<Rightarrow> None)"

definition merge_patch :: "TaskRecord \<Rightarrow> TaskParams \<Rightarrow> TaskPatch" where
  "merge_patch existing p =
     (let nextLabel = normalizeText (kp_label p);
          notifyPolicy = ensureNotifyPolicy (kp_notifyPolicy p) (kp_deliveryStatus p) (tr_ownerKey existing)
            (tr_scopeKind existing)
      in empty_patch\<lparr>
           pa_sourceId := fill_text (kp_sourceId p) (tr_sourceId existing),
           pa_parentFlowId := fill_text (kp_parentFlowId p) (tr_parentFlowId existing),
           pa_parentTaskId := fill_text (kp_parentTaskId p) (tr_parentTaskId existing),
           pa_agentId := fill_text (kp_agentId p) (tr_agentId existing),
           pa_label :=
             (if kp_preferMetadata p
              then (case nextLabel of
                      Some l \<Rightarrow> if normalizeComparableText (tr_label existing) \<noteq> l then Some (Some l) else None
                    | None \<Rightarrow> None)
              else fill_text (kp_label p) (tr_label existing)),
           pa_task :=
             (if kp_preferMetadata p
              then (case trimmed (kp_task p) of
                      Some t \<Rightarrow> if js_trim (tr_task existing) \<noteq> t then Some t else None | None \<Rightarrow> None)
              else None),
           pa_deliveryStatus :=
             (if kp_deliveryStatus p = Some DV_pending \<and> tr_deliveryStatus existing \<noteq> DV_delivered
              then Some DV_pending else None),
           pa_notifyPolicy :=
             (if notifyPolicy \<noteq> tr_notifyPolicy existing \<and> tr_notifyPolicy existing = NP_silent
              then Some notifyPolicy else None)\<rparr>)"

definition mergeExistingTaskForCreate ::
  "int \<Rightarrow> TaskRecord \<Rightarrow> TaskParams \<Rightarrow> task_registry \<Rightarrow> task_registry \<times> (task_error + TaskRecord)" where
  "mergeExistingTaskForCreate now existing p s =
     (let requesterOrigin = normalizeDeliveryContext (tg_env s) (kp_requesterOrigin p);
          current = jget (tg_deliveryStates s) (tr_taskId existing);
          s = (if requesterOrigin \<noteq> None \<and> (case current of Some st \<Rightarrow> ds_requesterOrigin st | None \<Rightarrow> None) = None
               then upsertTaskDeliveryState (tr_taskId existing) requesterOrigin
                      (case current of Some st \<Rightarrow> ds_lastNotifiedEventAt st | None \<Rightarrow> None) s
               else s);
          patch = merge_patch existing p
      in and_then
           (if pa_parentFlowId patch \<noteq> None
            then assertParentFlowLinkAllowed (tr_ownerKey existing) (tr_scopeKind existing) (kp_parentFlowId p) s
            else (s, Inr ()))
           (\<lambda>_ s. if patch = empty_patch then (s, Inr existing)
                  else (case updateTask now (tr_taskId existing) patch s of
                          (s, t) \<Rightarrow> (s, Inr (or_value t existing)))))"

definition new_task_record ::
  "int \<Rightarrow> string \<Rightarrow> string \<Rightarrow> TaskScopeKind \<Rightarrow> string \<Rightarrow> TaskParams \<Rightarrow> TaskRecord" where
  "new_task_record now taskId requesterSessionKey scopeKind ownerKey p =
     (let status = or_value (kp_status p) BT_queued;
          deliveryStatus = or_value (kp_deliveryStatus p) (ensureDeliveryStatus ownerKey scopeKind);
          r = \<lparr>tr_taskId = taskId, tr_runtime = kp_runtime p, tr_sourceId = normalizeText (kp_sourceId p),
               tr_requesterSessionKey = requesterSessionKey, tr_ownerKey = ownerKey, tr_scopeKind = scopeKind,
               tr_childSessionKey = kp_childSessionKey p, tr_parentFlowId = normalizeText (kp_parentFlowId p),
               tr_parentTaskId = normalizeText (kp_parentTaskId p), tr_agentId = normalizeText (kp_agentId p),
               tr_runId = normalizeText (kp_runId p), tr_label = normalizeText (kp_label p),
               tr_task = kp_task p, tr_status = status, tr_deliveryStatus = deliveryStatus,
               tr_notifyPolicy = ensureNotifyPolicy (kp_notifyPolicy p) (Some deliveryStatus) ownerKey scopeKind,
               tr_createdAt = now, tr_startedAt = kp_startedAt p, tr_endedAt = None,
               tr_lastEventAt = Some (or_value (or_else (kp_lastEventAt p) (kp_startedAt p)) now),
               tr_cleanupAfter = kp_cleanupAfter p, tr_error = None,
               tr_progressSummary = normalizeTaskSummary (kp_progressSummary p),
               tr_terminalSummary = normalizeTaskSummary (kp_terminalSummary p),
               tr_terminalOutcome = resolveTaskTerminalOutcome status (kp_terminalOutcome p)\<rparr>
      in stamp_cleanup now r)"

definition insert_task :: "int \<Rightarrow> TaskRecord \<Rightarrow> DeliveryContext option \<Rightarrow> task_registry \<Rightarrow> task_registry" where
  "insert_task now r requesterOrigin s =
     (let taskId = tr_taskId r;
          s = s\<lparr>tg_tasks := jset (tg_tasks s) taskId r\<rparr>;
          s = upsertTaskDeliveryState taskId (normalizeDeliveryContext (tg_env s) requesterOrigin) None s;
          s = s\<lparr>tg_byRunId := index_add run_keys taskId r (tg_byRunId s),
                tg_byOwnerKey := index_add owner_keys taskId r (tg_byOwnerKey s),
                tg_byParentFlowId := index_add flow_keys taskId r (tg_byParentFlowId s),
                tg_byRelatedSessionKey :=
                  index_add getTaskRelatedSessionIndexKeys taskId r (tg_byRelatedSessionKey s)\<rparr>;
          s = persistTaskUpsert r s
      in s\<lparr>tg_flows := fst (syncFlowFromTask now r (tg_flows s))\<rparr>)"

definition createTaskRecord ::
  "int \<Rightarrow> string \<Rightarrow> TaskParams \<Rightarrow> task_registry \<Rightarrow> task_registry \<times> (task_error + TaskRecord)" where
  "createTaskRecord now uuid p s =
     (let s = ensureTaskRegistryReady s;
          requesterSessionKey = resolveTaskRequesterSessionKey p;
          scopeKind = resolveTaskScopeKind (kp_scopeKind p) requesterSessionKey;
          ownerKey = resolveTaskOwnerKey requesterSessionKey (kp_ownerKey p)
      in if trimmed ownerKey = None \<and> scopeKind \<noteq> SK_system then (s, Inl TaskOwnerKeyRequired)
         else and_then (assertParentFlowLinkAllowed ownerKey scopeKind (kp_parentFlowId p) s)
           (\<lambda>_ s. case findExistingTaskForCreate ownerKey scopeKind p s of
              Some existing \<Rightarrow> mergeExistingTaskForCreate now existing p s
            | None \<Rightarrow>
                (let r = new_task_record now uuid requesterSessionKey scopeKind ownerKey p;
                     s = insert_task now r (kp_requesterOrigin p) s;
                     s = (if isTerminalTaskStatus (tr_status r) then maybeDeliverTaskTerminalUpdate now uuid s else s)
                 in (s, Inr r))))"

subsection \<open>Updates by id\<close>

definition update_by_id :: "int \<Rightarrow> string \<Rightarrow> TaskPatch \<Rightarrow> task_registry \<Rightarrow> task_registry \<times> TaskRecord option" where
  "update_by_id now taskId patch s = updateTask now taskId patch (ensureTaskRegistryReady s)"

definition set_some :: "'a option \<Rightarrow> 'a option option" where
  "set_some v = (case v of Some x \<Rightarrow> Some (Some x) | None \<Rightarrow> None)"

text \<open>\<open>progressSummary\<close>: \<open>None\<close> is \<open>undefined\<close>, \<open>Some None\<close> is \<open>null\<close>.\<close>

definition summary_patch :: "string option option \<Rightarrow> string option option" where
  "summary_patch v = map_option normalizeTaskSummary v"

definition setTaskProgressById ::
  "int \<Rightarrow> string \<Rightarrow> string option option \<Rightarrow> int option \<Rightarrow> task_registry \<Rightarrow> task_registry \<times> TaskRecord option" where
  "setTaskProgressById now taskId progressSummary lastEventAt =
     update_by_id now taskId (empty_patch\<lparr>pa_progressSummary := summary_patch progressSummary,
       pa_lastEventAt := set_some lastEventAt\<rparr>)"

definition setTaskTimingById ::
  "int \<Rightarrow> string \<Rightarrow> int option \<Rightarrow> int option \<Rightarrow> int option \<Rightarrow> task_registry \<Rightarrow> task_registry \<times> TaskRecord option" where
  "setTaskTimingById now taskId startedAt endedAt lastEventAt =
     update_by_id now taskId (empty_patch\<lparr>pa_startedAt := set_some startedAt, pa_endedAt := set_some endedAt,
       pa_lastEventAt := set_some lastEventAt\<rparr>)"

definition setTaskCleanupAfterById ::
  "int \<Rightarrow> string \<Rightarrow> int \<Rightarrow> task_registry \<Rightarrow> task_registry \<times> TaskRecord option" where
  "setTaskCleanupAfterById now taskId cleanupAfter =
     update_by_id now taskId (empty_patch\<lparr>pa_cleanupAfter := Some (Some cleanupAfter)\<rparr>)"

text \<open>The optional parameters of the updates; \<open>terminalOutcome\<close> as \<open>progressSummary\<close> above.\<close>

record TaskStateParams =
  sp_status :: "BgTaskStatus option"
  sp_startedAt :: "int option"
  sp_endedAt :: "int option"
  sp_lastEventAt :: "int option"
  sp_error :: "string option"
  sp_progressSummary :: "string option option"
  sp_terminalSummary :: "string option option"
  sp_terminalOutcome :: "TaskTerminalOutcome option option"
  sp_eventSummary :: "string option"

definition no_state_params :: TaskStateParams where
  "no_state_params = \<lparr>sp_status = None, sp_startedAt = None, sp_endedAt = None, sp_lastEventAt = None,
     sp_error = None, sp_progressSummary = None, sp_terminalSummary = None, sp_terminalOutcome = None,
     sp_eventSummary = None\<rparr>"

definition markTaskTerminalById ::
  "int \<Rightarrow> string \<Rightarrow> BgTaskStatus \<Rightarrow> int \<Rightarrow> TaskStateParams \<Rightarrow> task_registry \<Rightarrow> task_registry \<times> TaskRecord option" where
  "markTaskTerminalById now taskId status endedAt p =
     update_by_id now taskId (empty_patch\<lparr>pa_status := Some status, pa_endedAt := Some (Some endedAt),
       pa_lastEventAt := Some (Some (or_value (sp_lastEventAt p) endedAt)), pa_error := set_some (sp_error p),
       pa_terminalSummary := summary_patch (sp_terminalSummary p),
       pa_terminalOutcome := map_option (resolveTaskTerminalOutcome status) (sp_terminalOutcome p)\<rparr>)"

definition markTaskLostById ::
  "int \<Rightarrow> string \<Rightarrow> int \<Rightarrow> int option \<Rightarrow> string option \<Rightarrow> int option \<Rightarrow> task_registry \<Rightarrow>
   task_registry \<times> TaskRecord option" where
  "markTaskLostById now taskId endedAt lastEventAt err cleanupAfter =
     update_by_id now taskId (empty_patch\<lparr>pa_status := Some BT_lost, pa_endedAt := Some (Some endedAt),
       pa_lastEventAt := Some (Some (or_value lastEventAt endedAt)), pa_error := set_some err,
       pa_cleanupAfter := set_some cleanupAfter\<rparr>)"

definition updateTaskNotifyPolicyById ::
  "int \<Rightarrow> string \<Rightarrow> TaskNotifyPolicy \<Rightarrow> task_registry \<Rightarrow> task_registry \<times> TaskRecord option" where
  "updateTaskNotifyPolicyById now taskId policy =
     update_by_id now taskId (empty_patch\<lparr>pa_notifyPolicy := Some policy, pa_lastEventAt := Some (Some now)\<rparr>)"

definition linkTaskToFlowById ::
  "int \<Rightarrow> string \<Rightarrow> string \<Rightarrow> task_registry \<Rightarrow> task_registry \<times> (task_error + TaskRecord option)" where
  "linkTaskToFlowById now taskId flowId s =
     (let s = ensureTaskRegistryReady s
      in case trimmed flowId of
           None \<Rightarrow> (s, Inr None)
         | Some f \<Rightarrow>
             (case jget (tg_tasks s) taskId of
                None \<Rightarrow> (s, Inr None)
              | Some current \<Rightarrow>
                  (if normalizeText (tr_parentFlowId current) \<noteq> None then (s, Inr (Some current))
                   else and_then
                     (assertParentFlowLinkAllowed (tr_ownerKey current) (tr_scopeKind current) (Some f) s)
                     (\<lambda>_ s. (case updateTask now taskId (empty_patch\<lparr>pa_parentFlowId := Some (Some f)\<rparr>) s of
                        (s, t) \<Rightarrow> (s, Inr t))))))"

subsection \<open>Updates by run\<close>

definition appendTaskEvent :: "int \<Rightarrow> TaskEventKind \<Rightarrow> string option \<Rightarrow> TaskEventRecord" where
  "appendTaskEvent time kind summary = \<lparr>te_at = time, te_kind = kind, te_summary = normalizeTaskSummary summary\<rparr>"

text \<open>One pass of the loops: the update, then the two notifications, if the task is there.\<close>

definition update_and_notify ::
  "int \<Rightarrow> string \<Rightarrow> TaskPatch \<Rightarrow> TaskEventRecord option \<Rightarrow> task_registry \<Rightarrow> task_registry \<times> TaskRecord list" where
  "update_and_notify now taskId patch e s =
     (case updateTask now taskId patch s of
        (s, None) \<Rightarrow> (s, [])
      | (s, Some t) \<Rightarrow>
          (maybeDeliverTaskTerminalUpdate now taskId (maybeDeliverTaskStateChangeUpdate now taskId e s), [t]))"

fun for_each_task ::
  "(TaskRecord \<Rightarrow> task_registry \<Rightarrow> task_registry \<times> TaskRecord list) \<Rightarrow> TaskRecord list \<Rightarrow> task_registry \<Rightarrow>
   task_registry \<times> TaskRecord list" where
  "for_each_task f [] s = (s, [])"
| "for_each_task f (t # ts) s =
     (case f t s of (s, us) \<Rightarrow> (case for_each_task f ts s of (s, vs) \<Rightarrow> (s, us @ vs)))"

definition state_patch :: "TaskStateParams \<Rightarrow> TaskRecord \<Rightarrow> TaskPatch" where
  "state_patch p current =
     empty_patch\<lparr>pa_status := sp_status p, pa_startedAt := set_some (sp_startedAt p),
       pa_endedAt := set_some (sp_endedAt p), pa_lastEventAt := set_some (sp_lastEventAt p),
       pa_error := set_some (sp_error p), pa_progressSummary := summary_patch (sp_progressSummary p),
       pa_terminalSummary := summary_patch (sp_terminalSummary p),
       pa_terminalOutcome :=
         map_option (resolveTaskTerminalOutcome (or_value (sp_status p) (tr_status current))) (sp_terminalOutcome p)\<rparr>"

definition state_event :: "int \<Rightarrow> TaskStateParams \<Rightarrow> TaskRecord \<Rightarrow> TaskEventRecord option" where
  "state_event now p current =
     (let nextStatus = or_value (sp_status p) (tr_status current);
          changed = (sp_status p \<noteq> None \<and> sp_status p \<noteq> Some (tr_status current));
          given = normalizeTaskSummary (sp_eventSummary p);
          terminalSummary = or_else (case sp_terminalSummary p of Some v \<Rightarrow> v | None \<Rightarrow> None) (tr_terminalSummary current);
          summary = or_else given
            (if nextStatus = BT_failed then normalizeTaskSummary (or_else (sp_error p) (tr_error current))
             else if nextStatus = BT_succeeded then normalizeTaskSummary terminalSummary else None)
      in if changed \<or> given \<noteq> None
         then Some (appendTaskEvent (or_value (or_else (sp_lastEventAt p) (sp_endedAt p)) now)
                (if changed then EK_status nextStatus else EK_progress) summary)
         else None)"

definition updateTaskStateByRunId ::
  "int \<Rightarrow> string \<Rightarrow> TaskRuntime option \<Rightarrow> string option \<Rightarrow> TaskStateParams \<Rightarrow> task_registry \<Rightarrow>
   task_registry \<times> TaskRecord list" where
  "updateTaskStateByRunId now runId runtime session p s =
     (let s = ensureTaskRegistryReady s
      in for_each_task (\<lambda>t. update_and_notify now (tr_taskId t) (state_patch p t) (state_event now p t))
           (getTasksByRunScope runId runtime session s) s)"

definition setTaskRunDeliveryStatusByRunId ::
  "int \<Rightarrow> string \<Rightarrow> TaskRuntime option \<Rightarrow> string option \<Rightarrow> TaskDeliveryStatus \<Rightarrow> task_registry \<Rightarrow>
   task_registry \<times> TaskRecord list" where
  "setTaskRunDeliveryStatusByRunId now runId runtime session st s =
     (let s = ensureTaskRegistryReady s
      in for_each_task (\<lambda>t s. case updateTask now (tr_taskId t) (empty_patch\<lparr>pa_deliveryStatus := Some st\<rparr>) s of
             (s, r) \<Rightarrow> (s, opt_list r)) (getTasksByRunScope runId runtime session s) s)"

definition markTaskRunningByRunId ::
  "int \<Rightarrow> string \<Rightarrow> TaskRuntime option \<Rightarrow> string option \<Rightarrow> TaskStateParams \<Rightarrow> task_registry \<Rightarrow>
   task_registry \<times> TaskRecord list" where
  "markTaskRunningByRunId now runId runtime session p =
     updateTaskStateByRunId now runId runtime session
       (no_state_params\<lparr>sp_status := Some BT_running, sp_startedAt := sp_startedAt p,
         sp_lastEventAt := sp_lastEventAt p, sp_progressSummary := sp_progressSummary p,
         sp_eventSummary := sp_eventSummary p\<rparr>)"

definition recordTaskProgressByRunId ::
  "int \<Rightarrow> string \<Rightarrow> TaskRuntime option \<Rightarrow> string option \<Rightarrow> TaskStateParams \<Rightarrow> task_registry \<Rightarrow>
   task_registry \<times> TaskRecord list" where
  "recordTaskProgressByRunId now runId runtime session p =
     updateTaskStateByRunId now runId runtime session
       (no_state_params\<lparr>sp_lastEventAt := sp_lastEventAt p, sp_progressSummary := sp_progressSummary p,
         sp_eventSummary := sp_eventSummary p\<rparr>)"

definition markTaskTerminalByRunId ::
  "int \<Rightarrow> string \<Rightarrow> TaskRuntime option \<Rightarrow> string option \<Rightarrow> BgTaskStatus \<Rightarrow> int \<Rightarrow> TaskStateParams \<Rightarrow> task_registry \<Rightarrow>
   task_registry \<times> TaskRecord list" where
  "markTaskTerminalByRunId now runId runtime session status endedAt p =
     updateTaskStateByRunId now runId runtime session
       (p\<lparr>sp_status := Some status, sp_endedAt := Some endedAt, sp_eventSummary := None\<rparr>)"

subsection \<open>Agent events\<close>

datatype agent_stream = EV_lifecycle | EV_error | EV_other

record AgentEvent =
  ae_runId :: string
  ae_sessionKey :: "string option"
  ae_ts :: int
  ae_stream :: agent_stream
  ae_phase :: "string option"
  ae_startedAt :: "int option"
  ae_endedAt :: "int option"
  ae_aborted :: bool
  ae_error :: "string option"

definition event_patch :: "int \<Rightarrow> AgentEvent \<Rightarrow> TaskRecord \<Rightarrow> TaskPatch" where
  "event_patch now e current =
     (let base = empty_patch\<lparr>pa_lastEventAt := Some (Some now)\<rparr>;
          err = Some (or_else (ae_error e) (tr_error current));
          startedAt = or_else (ae_startedAt e) (tr_startedAt current);
          started = base\<lparr>pa_startedAt := (case startedAt of Some x \<Rightarrow> if x \<noteq> 0 then Some (Some x) else None
                                         | None \<Rightarrow> None)\<rparr>;
          endedAt = Some (Some (or_value (ae_endedAt e) now))
      in case ae_stream e of
           EV_lifecycle \<Rightarrow>
             (if ae_phase e = Some ''start'' then started\<lparr>pa_status := Some BT_running\<rparr>
              else if ae_phase e = Some ''end''
              then started\<lparr>pa_status := Some (if ae_aborted e then BT_timed_out else BT_succeeded), pa_endedAt := endedAt\<rparr>
              else if ae_phase e = Some ''error''
              then started\<lparr>pa_status := Some BT_failed, pa_endedAt := endedAt, pa_error := err\<rparr>
              else started)
         | EV_error \<Rightarrow> base\<lparr>pa_error := err\<rparr>
         | EV_other \<Rightarrow> base)"

definition event_record :: "int \<Rightarrow> TaskPatch \<Rightarrow> TaskRecord \<Rightarrow> TaskEventRecord option" where
  "event_record now patch current =
     (case pa_status patch of
        Some st \<Rightarrow>
          (if st \<noteq> tr_status current
           then Some (appendTaskEvent now (EK_status st)
             (if st = BT_failed
              then or_else (case pa_error patch of Some v \<Rightarrow> v | None \<Rightarrow> None) (tr_error current)
              else if st = BT_succeeded then tr_terminalSummary current else None))
           else None)
      | None \<Rightarrow> None)"

definition onAgentEvent :: "int \<Rightarrow> AgentEvent \<Rightarrow> task_registry \<Rightarrow> task_registry" where
  "onAgentEvent clock e s =
     (if \<not> tg_listening s then s
      else let s = restoreTaskRegistryOnce s;
               now = (if ae_ts e \<noteq> 0 then ae_ts e else clock)
           in fst (for_each_task (\<lambda>t. let patch = event_patch now e t
                     in update_and_notify now (tr_taskId t) patch (event_record now patch t))
                (getTasksByRunScope (ae_runId e) None (ae_sessionKey e) s) s))"

subsection \<open>Cancellation and deletion\<close>

datatype cancel_call = CC_acp string | CC_subagent string

record CancelResult =
  cr_found :: bool
  cr_cancelled :: bool
  cr_reason :: "string option"
  cr_task :: "TaskRecord option"

text \<open>\<open>cancelTaskById\<close> up to its await: it returns, or it calls the session manager.\<close>

definition cancel_refused :: "string \<Rightarrow> TaskRecord \<Rightarrow> CancelResult" where
  "cancel_refused reason t = \<lparr>cr_found = True, cr_cancelled = False, cr_reason = Some reason, cr_task = Some t\<rparr>"

definition cancelTaskById :: "string \<Rightarrow> task_registry \<Rightarrow> task_registry \<times> (CancelResult + cancel_call \<times> TaskRecord)" where
  "cancelTaskById taskId s =
     (let s = ensureTaskRegistryReady s
      in (s, case jget (tg_tasks s) (js_trim taskId) of
               None \<Rightarrow> Inl \<lparr>cr_found = False, cr_cancelled = False, cr_reason = Some ''Task not found.'', cr_task = None\<rparr>
             | Some t \<Rightarrow>
                 (if isTerminalTaskStatus (tr_status t) then Inl (cancel_refused ''Task is already terminal.'' t)
                  else case normalizeText (tr_childSessionKey t) of
                         None \<Rightarrow> Inl (cancel_refused ''Task has no cancellable child session.'' t)
                       | Some child \<Rightarrow>
                           (case tr_runtime t of
                              RT_acp \<Rightarrow> Inr (CC_acp child, t)
                            | RT_subagent \<Rightarrow> Inr (CC_subagent child, t)
                            | _ \<Rightarrow> Inl (cancel_refused ''Task runtime does not support cancellation yet.'' t)))))"

text \<open>What the awaited call gives: the session is cancelled, a report on the subagent, or an error.\<close>

datatype control_outcome = CO_cancelled | CO_subagent bool bool | CO_threw string

definition finish_cancel ::
  "int \<Rightarrow> TaskRecord \<Rightarrow> control_outcome \<Rightarrow> task_registry \<Rightarrow> task_registry \<times> CancelResult" where
  "finish_cancel now t outcome s =
     (let refuse = (\<lambda>reason. (s, cancel_refused reason t));
          apply = (case updateTask now (tr_taskId t) (empty_patch\<lparr>pa_status := Some BT_cancelled,
                pa_endedAt := Some (Some now), pa_lastEventAt := Some (Some now),
                pa_error := Some (Some ''Cancelled by operator.'')\<rparr>) s of
              (s, Some u) \<Rightarrow> (maybeDeliverTaskTerminalUpdate now (tr_taskId u) s,
                 \<lparr>cr_found = True, cr_cancelled = True, cr_reason = None, cr_task = Some u\<rparr>)
            | (s, None) \<Rightarrow> (s, \<lparr>cr_found = True, cr_cancelled = True, cr_reason = None, cr_task = Some t\<rparr>))
      in case outcome of
           CO_threw e \<Rightarrow> refuse e
         | CO_subagent found killed \<Rightarrow>
             (if \<not> found \<or> \<not> killed
              then refuse (if found then ''Subagent was not running.'' else ''Subagent task not found.'') else apply)
         | CO_cancelled \<Rightarrow> apply)"

definition deleteTaskRecordById :: "string \<Rightarrow> task_registry \<Rightarrow> task_registry \<times> bool" where
  "deleteTaskRecordById taskId s =
     (let s = ensureTaskRegistryReady s
      in case jget (tg_tasks s) taskId of
           None \<Rightarrow> (s, False)
         | Some current \<Rightarrow>
             (let s = s\<lparr>tg_byOwnerKey := index_delete owner_keys taskId current (tg_byOwnerKey s),
                        tg_byParentFlowId := index_delete flow_keys taskId current (tg_byParentFlowId s),
                        tg_byRelatedSessionKey :=
                          index_delete getTaskRelatedSessionIndexKeys taskId current (tg_byRelatedSessionKey s),
                        tg_tasks := jdel (tg_tasks s) taskId,
                        tg_deliveryStates := jdel (tg_deliveryStates s) taskId\<rparr>;
                  s = s\<lparr>tg_byRunId := rebuild_index run_keys (tg_tasks s)\<rparr>
              in (persistTaskDeliveryStateDelete taskId (persistTaskDelete taskId s), True)))"

text \<open>The delivery runtime's promise and the listener are gone; sends that are under way go on.\<close>

definition resetTaskRegistryForTests :: "bool \<Rightarrow> task_registry \<Rightarrow> task_registry" where
  "resetTaskRegistryForTests persist s =
     (let s = s\<lparr>tg_tasks := [], tg_deliveryStates := [], tg_byRunId := [], tg_byOwnerKey := [], tg_byParentFlowId := [],
            tg_byRelatedSessionKey := [], tg_pendingDelivery := [], tg_restoreAttempted := False, tg_listening := False\<rparr>
      in if persist then s\<lparr>tg_taskTable := [], tg_deliveryTable := []\<rparr> else s)"

subsection \<open>Lookups\<close>

definition listTaskRecords :: "task_registry \<Rightarrow> task_registry \<times> TaskRecord list" where
  "listTaskRecords s = (let s = ensureTaskRegistryReady s in (s, newest_first (jvals (tg_tasks s))))"

definition getTaskById :: "string \<Rightarrow> task_registry \<Rightarrow> task_registry \<times> TaskRecord option" where
  "getTaskById taskId s = (let s = ensureTaskRegistryReady s in (s, jget (tg_tasks s) (js_trim taskId)))"

definition findTaskByRunId :: "string \<Rightarrow> task_registry \<Rightarrow> task_registry \<times> TaskRecord option" where
  "findTaskByRunId runId s =
     (let s = ensureTaskRegistryReady s in (s, pickPreferredRunIdTask (getTasksByRunId runId s)))"

definition listTasksForOwnerKey :: "string \<Rightarrow> task_registry \<Rightarrow> task_registry \<times> TaskRecord list" where
  "listTasksForOwnerKey ownerKey s =
     (let s = ensureTaskRegistryReady s
      in (s, case trimmed ownerKey of None \<Rightarrow> [] | Some k \<Rightarrow> listTasksFromIndex (tg_byOwnerKey s) k s))"

definition listTasksForRelatedSessionKey :: "string \<Rightarrow> task_registry \<Rightarrow> task_registry \<times> TaskRecord list" where
  "listTasksForRelatedSessionKey sessionKey s =
     (let s = ensureTaskRegistryReady s
      in (s, case trimmed sessionKey of None \<Rightarrow> [] | Some k \<Rightarrow> listTasksFromIndex (tg_byRelatedSessionKey s) k s))"

definition listTasksForSessionKey :: "string \<Rightarrow> task_registry \<Rightarrow> task_registry \<times> TaskRecord list" where
  "listTasksForSessionKey sessionKey s =
     (let s = ensureTaskRegistryReady s
      in (s, case trimmed sessionKey of None \<Rightarrow> [] | Some k \<Rightarrow> listTasksFromIndex (tg_byRelatedSessionKey s) k s))"

definition findLatestTaskForSessionKey :: "string \<Rightarrow> task_registry \<Rightarrow> task_registry \<times> TaskRecord option" where
  "findLatestTaskForSessionKey k s = (case listTasksForSessionKey k s of (s, ts) \<Rightarrow> (s, first_of ts))"

definition getTaskRegistrySnapshot ::
  "task_registry \<Rightarrow> task_registry \<times> TaskRecord list \<times> TaskDeliveryState list" where
  "getTaskRegistrySnapshot s = (case listTaskRecords s of (s, ts) \<Rightarrow> (s, ts, jvals (tg_deliveryStates s)))"

definition listTasksForAgentId :: "string \<Rightarrow> task_registry \<Rightarrow> task_registry \<times> TaskRecord list" where
  "listTasksForAgentId agentId s =
     (let s = ensureTaskRegistryReady s
      in (s, case trimmed agentId of
               None \<Rightarrow> []
             | Some a \<Rightarrow> sort_key (\<lambda>t. - tr_createdAt t)
                 (filter (\<lambda>t. normalizeText (tr_agentId t) = Some a) (jvals (tg_tasks s)))))"

definition findLatestTaskForFlowId :: "string \<Rightarrow> task_registry \<Rightarrow> task_registry \<times> TaskRecord option" where
  "findLatestTaskForFlowId flowId s = (case listTasksForFlowId flowId s of (s, ts) \<Rightarrow> (s, first_of ts))"

definition findLatestTaskForOwnerKey :: "string \<Rightarrow> task_registry \<Rightarrow> task_registry \<times> TaskRecord option" where
  "findLatestTaskForOwnerKey ownerKey s = (case listTasksForOwnerKey ownerKey s of (s, ts) \<Rightarrow> (s, first_of ts))"

definition findLatestTaskForRelatedSessionKey ::
  "string \<Rightarrow> task_registry \<Rightarrow> task_registry \<times> TaskRecord option" where
  "findLatestTaskForRelatedSessionKey k s =
     (case listTasksForRelatedSessionKey k s of (s, ts) \<Rightarrow> (s, first_of ts))"

definition resolveTaskForLookupToken :: "string \<Rightarrow> task_registry \<Rightarrow> task_registry \<times> TaskRecord option" where
  "resolveTaskForLookupToken token s =
     (case trimmed token of
        None \<Rightarrow> (s, None)
      | Some lookup \<Rightarrow>
          (case getTaskById lookup s of
             (s, Some t) \<Rightarrow> (s, Some t)
           | (s, None) \<Rightarrow>
               (case findTaskByRunId lookup s of
                  (s, Some t) \<Rightarrow> (s, Some t)
                | (s, None) \<Rightarrow> findLatestTaskForRelatedSessionKey lookup s)))"

subsection \<open>Access for an owner\<close>

definition canOwnerAccessTask :: "string \<Rightarrow> TaskRecord \<Rightarrow> bool" where
  "canOwnerAccessTask callerOwnerKey t \<longleftrightarrow>
     tr_scopeKind t = SK_session \<and> trimmed (tr_ownerKey t) = trimmed callerOwnerKey"

definition accessible :: "string \<Rightarrow> TaskRecord option \<Rightarrow> TaskRecord option" where
  "accessible caller t = (case t of Some x \<Rightarrow> if canOwnerAccessTask caller x then Some x else None | None \<Rightarrow> None)"

definition getTaskByIdForOwner :: "string \<Rightarrow> string \<Rightarrow> task_registry \<Rightarrow> task_registry \<times> TaskRecord option" where
  "getTaskByIdForOwner taskId caller s = (case getTaskById taskId s of (s, t) \<Rightarrow> (s, accessible caller t))"

definition findTaskByRunIdForOwner :: "string \<Rightarrow> string \<Rightarrow> task_registry \<Rightarrow> task_registry \<times> TaskRecord option" where
  "findTaskByRunIdForOwner runId caller s = (case findTaskByRunId runId s of (s, t) \<Rightarrow> (s, accessible caller t))"

definition listTasksForRelatedSessionKeyForOwner ::
  "string \<Rightarrow> string \<Rightarrow> task_registry \<Rightarrow> task_registry \<times> TaskRecord list" where
  "listTasksForRelatedSessionKeyForOwner k caller s =
     (case listTasksForRelatedSessionKey k s of (s, ts) \<Rightarrow> (s, filter (canOwnerAccessTask caller) ts))"

definition findLatestTaskForRelatedSessionKeyForOwner ::
  "string \<Rightarrow> string \<Rightarrow> task_registry \<Rightarrow> task_registry \<times> TaskRecord option" where
  "findLatestTaskForRelatedSessionKeyForOwner k caller s =
     (case listTasksForRelatedSessionKeyForOwner k caller s of (s, ts) \<Rightarrow> (s, first_of ts))"

definition resolveTaskForLookupTokenForOwner ::
  "string \<Rightarrow> string \<Rightarrow> task_registry \<Rightarrow> task_registry \<times> TaskRecord option" where
  "resolveTaskForLookupTokenForOwner token caller s =
     (case getTaskByIdForOwner token caller s of
        (s, Some t) \<Rightarrow> (s, Some t)
      | (s, None) \<Rightarrow>
          (case findTaskByRunIdForOwner token caller s of
             (s, Some t) \<Rightarrow> (s, Some t)
           | (s, None) \<Rightarrow>
               (case findLatestTaskForRelatedSessionKeyForOwner token caller s of
                  (s, Some t) \<Rightarrow> (s, Some t)
                | (s, None) \<Rightarrow>
                    (case resolveTaskForLookupToken token s of (s, t) \<Rightarrow> (s, accessible caller t)))))"

subsection \<open>Summary\<close>

record TaskRegistrySummary =
  sm_total :: nat
  sm_active :: nat
  sm_terminal :: nat
  sm_failures :: nat
  sm_byStatus :: "BgTaskStatus \<Rightarrow> nat"
  sm_byRuntime :: "TaskRuntime \<Rightarrow> nat"

definition summarizeTaskRecords :: "TaskRecord list \<Rightarrow> TaskRegistrySummary" where
  "summarizeTaskRecords ts =
     fold (\<lambda>t sm. \<lparr>sm_total = sm_total sm + 1,
         sm_active = (if isActiveTaskStatus (tr_status t) then sm_active sm + 1 else sm_active sm),
         sm_terminal = (if isActiveTaskStatus (tr_status t) then sm_terminal sm else sm_terminal sm + 1),
         sm_failures = (if tr_status t \<in> {BT_failed, BT_timed_out, BT_lost} then sm_failures sm + 1 else sm_failures sm),
         sm_byStatus = (sm_byStatus sm)(tr_status t := sm_byStatus sm (tr_status t) + 1),
         sm_byRuntime = (sm_byRuntime sm)(tr_runtime t := sm_byRuntime sm (tr_runtime t) + 1)\<rparr>)
       ts \<lparr>sm_total = 0, sm_active = 0, sm_terminal = 0, sm_failures = 0, sm_byStatus = (\<lambda>_. 0), sm_byRuntime = (\<lambda>_. 0)\<rparr>"

definition getTaskRegistrySummary :: "task_registry \<Rightarrow> task_registry \<times> TaskRegistrySummary" where
  "getTaskRegistrySummary s =
     (let s = ensureTaskRegistryReady s in (s, summarizeTaskRecords (jvals (tg_tasks s))))"

subsection \<open>Histories\<close>

datatype task_op =
    K_create int string TaskParams
  | K_progress int string "string option option" "int option"
  | K_timing int string "int option" "int option" "int option"
  | K_cleanup int string int
  | K_terminal int string BgTaskStatus int TaskStateParams
  | K_lost int string int "int option" "string option" "int option"
  | K_notify int string TaskNotifyPolicy
  | K_link int string string
  | K_state int string "TaskRuntime option" "string option" TaskStateParams
  | K_deliveryStatus int string "TaskRuntime option" "string option" TaskDeliveryStatus
  | K_event int AgentEvent
  | K_finishCancel int TaskRecord control_outcome
  | K_delete string
  | K_flow flow_op
  | K_deliver int string
  | K_loaded nat
  | K_sent int nat
  | K_failed int nat
  | K_ready

text \<open>\<open>K_flow\<close> is a call of the flow registry by another module; \<open>K_state\<close> stands for the four named updates
  by run, \<open>K_finishCancel\<close> for the end of a cancellation of the task that was read at its beginning.\<close>

fun task_apply :: "task_op \<Rightarrow> task_registry \<Rightarrow> task_registry" where
  "task_apply (K_create now uuid p) s = fst (createTaskRecord now uuid p s)"
| "task_apply (K_progress now i v t) s = fst (setTaskProgressById now i v t s)"
| "task_apply (K_timing now i a b c) s = fst (setTaskTimingById now i a b c s)"
| "task_apply (K_cleanup now i c) s = fst (setTaskCleanupAfterById now i c s)"
| "task_apply (K_terminal now i st e p) s = fst (markTaskTerminalById now i st e p s)"
| "task_apply (K_lost now i e l err c) s = fst (markTaskLostById now i e l err c s)"
| "task_apply (K_notify now i p) s = fst (updateTaskNotifyPolicyById now i p s)"
| "task_apply (K_link now i f) s = fst (linkTaskToFlowById now i f s)"
| "task_apply (K_state now r rt k p) s = fst (updateTaskStateByRunId now r rt k p s)"
| "task_apply (K_deliveryStatus now r rt k st) s = fst (setTaskRunDeliveryStatusByRunId now r rt k st s)"
| "task_apply (K_event now e) s = onAgentEvent now e s"
| "task_apply (K_finishCancel now t out) s = fst (finish_cancel now t out s)"
| "task_apply (K_delete i) s = fst (deleteTaskRecordById i s)"
| "task_apply (K_flow x) s = s\<lparr>tg_flows := flow_apply x (tg_flows s)\<rparr>"
| "task_apply (K_deliver now i) s = maybeDeliverTaskTerminalUpdate now i s"
| "task_apply (K_loaded k) s = delivery_loaded k s"
| "task_apply (K_sent now k) s = delivery_sent now k s"
| "task_apply (K_failed now k) s = delivery_failed now k s"
| "task_apply K_ready s = ensureTaskRegistryReady s"

text \<open>\<open>crypto.randomUUID()\<close> gives an id that no task has.\<close>

fun task_ok :: "task_registry \<Rightarrow> task_op \<Rightarrow> bool" where
  "task_ok s (K_create now uuid p) \<longleftrightarrow> jget (tg_tasks (ensureTaskRegistryReady s)) uuid = None"
| "task_ok s _ \<longleftrightarrow> True"

subsection \<open>Every operation keeps the indices exact\<close>

lemma patch_ok_run: "pa_runId p = None \<Longrightarrow> patch_ok p"
  by (simp add: patch_ok_def)

lemma update_by_id_inv: "reg_inv s \<Longrightarrow> pa_runId p = None \<Longrightarrow> reg_inv (fst (update_by_id now i p s))"
  by (simp add: update_by_id_def updateTask_inv ready_reg_inv patch_ok_run)

lemma no_run_id [simp]:
  "pa_runId empty_patch = None" "pa_runId (merge_patch t p) = None" "pa_runId (state_patch q t) = None"
  "pa_runId (event_patch now e t) = None" "pa_runId (set_delivery now st) = None"
  by (simp_all add: empty_patch_def merge_patch_def state_patch_def event_patch_def set_delivery_def Let_def
      split: agent_stream.split)

lemma for_each_inv:
  assumes "\<And>t s. P s \<Longrightarrow> P (fst (f t s))"
  shows "P s \<Longrightarrow> P (fst (for_each_task f ts s))"
proof (induction ts arbitrary: s)
  case (Cons t ts)
  obtain s' us where f: "f t s = (s', us)" by fastforce
  obtain s'' vs where rest: "for_each_task f ts s' = (s'', vs)" by fastforce
  have "P s'" using assms [OF Cons.prems, of t] f by simp
  from Cons.IH [OF this] show ?case by (simp add: f rest)
qed simp

lemma update_and_notify_inv:
  assumes "reg_inv s" and "pa_runId p = None"
  shows "reg_inv (fst (update_and_notify now i p e s))"
proof (cases "updateTask now i p s")
  case (Pair s' r)
  then have "reg_inv s'" using updateTask_inv [OF assms(1) patch_ok_run [OF assms(2)], of now i] by simp
  with Pair show ?thesis
    by (cases r) (simp_all add: update_and_notify_def terminal_update_inv state_change_inv)
qed

lemma merge_inv:
  assumes "reg_inv s"
  shows "reg_inv (fst (mergeExistingTaskForCreate now t p s))"
proof -
  have up: "reg_inv (fst (case updateTask now (tr_taskId t) (merge_patch t p) s' of (s, r) \<Rightarrow> (s, Inr (or_value r t))))"
    if "reg_inv s'" for s'
    using updateTask_inv [OF that patch_ok_run, of "merge_patch t p" now "tr_taskId t"] by (simp add: case_prod_beta)
  have link: "reg_inv (fst (assertParentFlowLinkAllowed a b c s'))" if "reg_inv s'" for a b c s'
    using that by (simp add: reg_inv_def)
  show ?thesis
    unfolding mergeExistingTaskForCreate_def Let_def
    by (rule and_then_keeps [where P = reg_inv]) (simp_all add: assms link up)
qed

lemma insert_inv:
  assumes "reg_inv s" and "jget (tg_tasks s) (tr_taskId r) = None"
  shows "reg_inv (insert_task now r org s)"
proof -
  let ?s1 = "upsertTaskDeliveryState (tr_taskId r) (normalizeDeliveryContext (tg_env s) org) None
    (s\<lparr>tg_tasks := jset (tg_tasks s) (tr_taskId r) r\<rparr>)"
  have "core ?s1 = core (s\<lparr>tg_tasks := jset (tg_tasks s) (tr_taskId r) r\<rparr>)" by simp
  then have c: "tg_tasks ?s1 = jset (tg_tasks s) (tr_taskId r) r" "tg_byRunId ?s1 = tg_byRunId s"
    "tg_byOwnerKey ?s1 = tg_byOwnerKey s" "tg_byParentFlowId ?s1 = tg_byParentFlowId s"
    "tg_byRelatedSessionKey ?s1 = tg_byRelatedSessionKey s" "tg_taskTable ?s1 = tg_taskTable s"
    by (simp_all add: core_def)
  have "reg_inv (?s1\<lparr>tg_byRunId := index_add run_keys (tr_taskId r) r (tg_byRunId ?s1),
      tg_byOwnerKey := index_add owner_keys (tr_taskId r) r (tg_byOwnerKey ?s1),
      tg_byParentFlowId := index_add flow_keys (tr_taskId r) r (tg_byParentFlowId ?s1),
      tg_byRelatedSessionKey := index_add getTaskRelatedSessionIndexKeys (tr_taskId r) r (tg_byRelatedSessionKey ?s1)\<rparr>)"
    using assms index_ok_insert by (auto simp: reg_inv_def core_def c)
  from persist_inv [OF this, of r] show ?thesis by (simp add: insert_task_def Let_def reg_inv_def)
qed

lemma new_record_id [simp]: "tr_taskId (new_task_record now i rk sc ok p) = i"
  by (simp add: new_task_record_def Let_def)

lemma create_inv:
  assumes "reg_inv s" and "jget (tg_tasks (ensureTaskRegistryReady s)) uuid = None"
  shows "reg_inv (fst (createTaskRecord now uuid p s))"
proof -
  let ?s = "ensureTaskRegistryReady s"
  have inv: "reg_inv ?s" using assms(1) by (rule ready_reg_inv)
  have link: "core (fst (assertParentFlowLinkAllowed a b c ?s)) = core ?s" for a b c by simp
  have new: "reg_inv (insert_task now (new_task_record now uuid rk sc ow p) org s')"
    if "core s' = core ?s" for s' rk sc ow org
  proof (rule insert_inv)
    show "reg_inv s'" using inv that by (simp add: reg_inv_def)
    show "jget (tg_tasks s') (tr_taskId (new_task_record now uuid rk sc ow p)) = None"
      using assms(2) tasks_core [OF that] by simp
  qed
  have step: "reg_inv (fst (case findExistingTaskForCreate ow sc p s' of
      Some existing \<Rightarrow> mergeExistingTaskForCreate now existing p s'
    | None \<Rightarrow> (let r = new_task_record now uuid rk sc ow p;
                  s = insert_task now r (kp_requesterOrigin p) s';
                  s = (if isTerminalTaskStatus (tr_status r) then maybeDeliverTaskTerminalUpdate now uuid s else s)
              in (s, Inr r))))"
    if "core s' = core ?s" for s' ow sc rk
  proof -
    have "reg_inv s'" using inv that by (simp add: reg_inv_def)
    then show ?thesis
      using new [OF that] by (simp add: Let_def merge_inv terminal_update_inv split: option.split)
  qed
  have after: "reg_inv (fst (and_then (assertParentFlowLinkAllowed a b c ?s) f))"
    if "\<And>s'. core s' = core ?s \<Longrightarrow> reg_inv (fst (f () s'))" for a b c and f :: "unit \<Rightarrow> task_registry \<Rightarrow> task_registry \<times> (task_error + TaskRecord)"
  proof (cases "assertParentFlowLinkAllowed a b c ?s")
    case (Pair s' r)
    with link [of a b c] have "core s' = core ?s" by simp
    with that [OF this] Pair inv show ?thesis by (cases r) (simp_all add: reg_inv_def)
  qed
  show ?thesis
    unfolding createTaskRecord_def Let_def
    by (rule if_split [THEN iffD2], intro conjI impI)
      (simp add: inv, rule after, rule step [unfolded Let_def])
qed

lemma link_inv:
  assumes "reg_inv s"
  shows "reg_inv (fst (linkTaskToFlowById now i f s))"
proof -
  let ?s = "ensureTaskRegistryReady s"
  have inv: "reg_inv ?s" using assms by (rule ready_reg_inv)
  have up: "reg_inv (fst (case updateTask now i (empty_patch\<lparr>pa_parentFlowId := v\<rparr>) s' of (s, t) \<Rightarrow> (s, Inr t)))"
    if "reg_inv s'" for s' v
    using updateTask_inv [OF that patch_ok_run, of "empty_patch\<lparr>pa_parentFlowId := v\<rparr>" now i] by (simp add: case_prod_beta)
  have "reg_inv (fst (and_then (assertParentFlowLinkAllowed a b c ?s)
      (\<lambda>_ s. case updateTask now i (empty_patch\<lparr>pa_parentFlowId := v\<rparr>) s of (s, t) \<Rightarrow> (s, Inr t))))" for a b c v
    by (rule and_then_keeps [where P = reg_inv]) (use inv up in \<open>simp_all add: reg_inv_def\<close>)
  with inv show ?thesis by (simp add: linkTaskToFlowById_def Let_def split: option.split)
qed

lemma delete_task_inv:
  assumes "reg_inv s"
  shows "reg_inv (fst (deleteTaskRecordById i s))"
proof -
  let ?s = "ensureTaskRegistryReady s"
  have inv: "reg_inv ?s" using assms by (rule ready_reg_inv)
  show ?thesis
  proof (cases "jget (tg_tasks ?s) i")
    case (Some c)
    have "jwf (jdel (tg_tasks ?s) i)" using inv by (simp add: reg_inv_def core_def)
    from index_ok_rebuild [OF this, of run_keys] inv Some index_ok_delete show ?thesis
      by (auto simp: deleteTaskRecordById_def Let_def persistTaskDelete_def persistTaskDeliveryStateDelete_def
          reg_inv_def core_def)
  qed (simp add: deleteTaskRecordById_def Let_def inv)
qed

lemma finish_cancel_inv:
  assumes "reg_inv s"
  shows "reg_inv (fst (finish_cancel now t out s))"
proof (cases "updateTask now (tr_taskId t) (empty_patch\<lparr>pa_status := Some BT_cancelled, pa_endedAt := Some (Some now),
    pa_lastEventAt := Some (Some now), pa_error := Some (Some ''Cancelled by operator.'')\<rparr>) s")
  case (Pair s' r)
  then have "reg_inv s'"
    using updateTask_inv [OF assms patch_ok_run, of "empty_patch\<lparr>pa_status := Some BT_cancelled, pa_endedAt := Some (Some now),
    pa_lastEventAt := Some (Some now), pa_error := Some (Some ''Cancelled by operator.'')\<rparr>" now "tr_taskId t"]
    by (simp add: empty_patch_def)
  with assms Pair show ?thesis
    by (cases r; cases out) (simp_all add: finish_cancel_def Let_def terminal_update_inv)
qed

lemma task_apply_inv: "task_ok s x \<Longrightarrow> reg_inv s \<Longrightarrow> reg_inv (task_apply x s)"
proof (cases x)
  case (K_state now r rt k p)
  assume "reg_inv s"
  then have "reg_inv (ensureTaskRegistryReady s)" by (rule ready_reg_inv)
  with K_state show ?thesis
    by (simp add: updateTaskStateByRunId_def Let_def for_each_inv [where P = reg_inv] update_and_notify_inv)
next
  case (K_deliveryStatus now r rt k st)
  assume "reg_inv s"
  then have "reg_inv (ensureTaskRegistryReady s)" by (rule ready_reg_inv)
  moreover have "reg_inv s' \<Longrightarrow> reg_inv (fst (case updateTask now i (empty_patch\<lparr>pa_deliveryStatus := v\<rparr>) s' of
      (s, r) \<Rightarrow> (s, opt_list r)))" for i v s'
    using updateTask_inv [OF _ patch_ok_run, of s' "empty_patch\<lparr>pa_deliveryStatus := v\<rparr>" now i] by (simp add: case_prod_beta)
  ultimately show ?thesis
    using K_deliveryStatus
    by (simp add: setTaskRunDeliveryStatusByRunId_def Let_def for_each_inv [where P = reg_inv])
next
  case (K_event now e)
  assume "reg_inv s"
  then have "reg_inv (restoreTaskRegistryOnce s)" by (rule restore_inv)
  with K_event \<open>reg_inv s\<close> show ?thesis
    by (simp add: onAgentEvent_def Let_def for_each_inv [where P = reg_inv] update_and_notify_inv)
next
  case (K_create now uuid p)
  assume "task_ok s x" "reg_inv s"
  with K_create show ?thesis by (simp add: create_inv)
qed (simp_all add: setTaskProgressById_def setTaskTimingById_def setTaskCleanupAfterById_def markTaskTerminalById_def
    markTaskLostById_def updateTaskNotifyPolicyById_def update_by_id_inv link_inv finish_cancel_inv delete_task_inv
    terminal_update_inv loaded_inv sent_inv failed_inv ready_reg_inv, simp_all add: reg_inv_def)

interpretation task_machine: guarded_machine task_ok task_apply reg_inv
  by unfold_locales (rule task_apply_inv)

lemma reg_inv_fresh:
  assumes "jwf rows" and "\<And>i row. jget rows i = Some row \<Longrightarrow> rw_task_id row = i"
  shows "reg_inv (fresh_task_process env rows drows fails fs)"
proof -
  have "index_shape []" by (rule shapeI) simp
  with assms show ?thesis by (simp add: reg_inv_def core_def fresh_task_process_def index_ok_def members_def)
qed

subsection \<open>Lookups\<close>

lemma tasks_of_ids_set: "set (tasks_of_ids ids s) = {t. \<exists>i\<in>set ids. jget (tg_tasks s) i = Some t}"
  by (induction ids) (auto simp: tasks_of_ids_def List.map_filter_simps split: option.splits)

lemma newest_set [simp]: "set (newest_first ts) = set ts"
  by (simp add: newest_first_def)

lemma newest_sorted: "sorted (map (\<lambda>t. - tr_createdAt t) (newest_first ts))"
  by (simp add: newest_first_def)

lemma index_lookup:
  assumes "index_ok keys (tg_tasks s) index"
  shows "set (listTasksFromIndex index k s) = {t. \<exists>i. jget (tg_tasks s) i = Some t \<and> k \<in> set (keys t)} \<and>
    sorted (map (\<lambda>t. - tr_createdAt t) (listTasksFromIndex index k s))"
proof -
  have "i \<in> members index k \<longleftrightarrow> (\<exists>t. jget (tg_tasks s) i = Some t \<and> k \<in> set (keys t))" for i
    using assms by (simp add: index_ok_def)
  then show ?thesis
    by (auto simp: listTasksFromIndex_def members_def tasks_of_ids_set newest_sorted split: option.splits)
qed



text \<open>Channels are taken as they are, every channel delivers, texts are kept.\<close>

definition demo_env :: task_env where
  "demo_env = \<lparr>ev_normalizeChannel = Some, ev_normalizeAccountId = (\<lambda>v. v), ev_deliverable = (\<lambda>_. True),
     ev_sanitize = (\<lambda>_ v. or_value v []), ev_title = (\<lambda>v. v)\<rparr>"

definition demo_params :: "string \<Rightarrow> TaskParams" where
  "demo_params run = \<lparr>kp_runtime = RT_acp, kp_sourceId = None, kp_requesterSessionKey = Some '' main '',
     kp_ownerKey = None, kp_scopeKind = None, kp_requesterOrigin = None, kp_childSessionKey = Some ''child'',
     kp_parentFlowId = None, kp_parentTaskId = None, kp_agentId = None, kp_runId = Some run, kp_label = None,
     kp_task = ''do'', kp_preferMetadata = False, kp_status = Some BT_running, kp_deliveryStatus = None,
     kp_notifyPolicy = None, kp_startedAt = None, kp_lastEventAt = None, kp_cleanupAfter = None,
     kp_progressSummary = None, kp_terminalSummary = None, kp_terminalOutcome = None\<rparr>"

definition demo_world :: task_registry where
  "demo_world = fresh_task_process demo_env [] [] False (fresh_flow_process [] None)"


end
