(* ===== verification/TaskOnce.thy ===== *)
theory TaskOnce
  imports TaskRuns
begin

text \<open>
  A terminal update of a task reaches its owner's channel at most once
  (\<open>maybeDeliverTaskTerminalUpdate\<close> of \<open>src/src/tasks/task-registry.ts\<close>): the set of pending deliveries
  keeps two sends from being under way, the delivery status keeps a second one from starting.
\<close>

definition view :: "task_registry \<Rightarrow> (string, TaskRecord) jsmap \<times> string list \<times> task_delivery list \<times> bool" where
  "view s = (tg_tasks s, tg_pendingDelivery s, tg_deliveries s, tg_restoreAttempted s)"

subsection \<open>What leaves tasks and deliveries alone\<close>

lemma view_fields [simp]:
  "view (s\<lparr>tg_flows := a\<rparr>) = view s" "view (s\<lparr>tg_events := b\<rparr>) = view s"
  "view (s\<lparr>tg_deliveryStates := c\<rparr>) = view s" "view (s\<lparr>tg_deliveryTable := d\<rparr>) = view s"
  "view (s\<lparr>tg_taskTable := t\<rparr>) = view s" "view (s\<lparr>tg_listening := l\<rparr>) = view s"
  "view (s\<lparr>tg_byRunId := e\<rparr>) = view s" "view (s\<lparr>tg_byOwnerKey := f\<rparr>) = view s"
  "view (s\<lparr>tg_byParentFlowId := g\<rparr>) = view s" "view (s\<lparr>tg_byRelatedSessionKey := h\<rparr>) = view s"
  by (simp_all add: view_def)

lemma view_lookup_flow [simp]: "view (fst (lookup_flow i s)) = view s"
  by (simp add: lookup_flow_def split: prod.split)

lemma view_link [simp]: "view (fst (assertParentFlowLinkAllowed k sc p s)) = view s"
proof (cases "normalizeText p")
  case (Some i)
  show ?thesis
  proof (cases "lookup_flow i s")
    case (Pair s' r)
    with view_lookup_flow [of i s] Some show ?thesis by (cases r) (simp_all add: assertParentFlowLinkAllowed_def)
  qed
qed (simp add: assertParentFlowLinkAllowed_def)

lemma view_attempts [simp]: "view (cancel_attempts n now e i f s) = view s"
proof (induction n arbitrary: f s)
  case (Suc n)
  obtain fs r where u: "updateFlowRecordByIdExpectedRevision now i (tf_revision f) (cancel_patch e) (tg_flows s) = (fs, r)"
    by fastforce
  show ?case
  proof (cases r)
    case (Inr q)
    with u Suc show ?thesis by (cases q) (simp_all add: Let_def)
  qed (use u in simp)
qed simp

lemma view_syncManaged [simp]: "view (syncManagedFlowCancellationFromTask now t s) = view s"
proof (cases "normalizeText (tr_parentFlowId t)")
  case (Some i)
  show ?thesis
  proof (cases "lookup_flow i s")
    case (Pair s' r)
    with view_lookup_flow [of i s] Some show ?thesis by (cases r) (simp_all add: syncManagedFlowCancellationFromTask_def)
  qed
qed (simp add: syncManagedFlowCancellationFromTask_def)

lemma view_deliveryState [simp]: "view (upsertTaskDeliveryState i org n s) = view s"
  by (simp add: upsertTaskDeliveryState_def Let_def persistTaskDeliveryStateUpsert_def)

lemma view_linked [simp]: "view (fst (getLinkedFlowForDelivery t s)) = view s"
proof (cases "normalizeText (tr_parentFlowId t)")
  case (Some i)
  show ?thesis
  proof (cases "lookup_flow i s")
    case (Pair s' r)
    with view_lookup_flow [of i s] Some show ?thesis by (cases r) (simp_all add: getLinkedFlowForDelivery_def)
  qed
qed (simp add: getLinkedFlowForDelivery_def)

lemma view_owner [simp]: "view (fst (resolveTaskDeliveryOwner t s)) = view s"
proof (cases "getLinkedFlowForDelivery t s")
  case (Pair s' r)
  with view_linked [of t s] show ?thesis by (cases r) (simp_all add: resolveTaskDeliveryOwner_def)
qed

lemma view_key [simp]: "view (fst (resolveTaskTerminalIdempotencyKey t s)) = view s"
  using view_owner [of t s] by (simp add: resolveTaskTerminalIdempotencyKey_def case_prod_beta)

lemma view_queue [simp]: "view (queueTaskSystemEvent t msg s) = view s"
  using view_owner [of t s] by (simp add: queueTaskSystemEvent_def add_event_def case_prod_beta split: option.split)

lemma view_followup [simp]: "view (followup_if_blocked t s) = view s"
  using view_owner [of t s]
  by (simp add: followup_if_blocked_def queueBlockedTaskFollowup_def add_event_def case_prod_beta split: option.split)

lemma view_persist [simp]: "view (persistTaskUpsert t s) = view s"
  by (simp add: persistTaskUpsert_def)

lemma view_reindex: "view (reindex_task p i c n s) = view (s\<lparr>tg_tasks := jset (tg_tasks s) i n\<rparr>)"
  by (simp add: reindex_task_def Let_def)

lemma view_updateTask:
  "view (fst (updateTask now i p s)) = (case jget (tg_tasks s) i of
     None \<Rightarrow> view s | Some c \<Rightarrow> view (s\<lparr>tg_tasks := jset (tg_tasks s) i (stamp_cleanup now (patch_task p c))\<rparr>))"
  by (simp add: updateTask_def Let_def view_reindex split: option.split)

subsection \<open>The invariant\<close>

definition under_way :: "task_delivery \<Rightarrow> bool" where
  "under_way d \<longleftrightarrow> (case dl_phase d of DL_loading \<Rightarrow> True | DL_sending _ \<Rightarrow> True | _ \<Rightarrow> False)"

definition sent_out :: "task_delivery \<Rightarrow> bool" where
  "sent_out d \<longleftrightarrow> (case dl_phase d of DL_sent _ \<Rightarrow> True | _ \<Rightarrow> False)"

definition own :: "string \<Rightarrow> task_delivery \<Rightarrow> bool" where
  "own i d \<longleftrightarrow> dl_event d = None \<and> tr_taskId (dl_task d) = i"

definition busy :: "string \<Rightarrow> task_delivery \<Rightarrow> bool" where
  "busy i d \<longleftrightarrow> own i d \<and> under_way d"

definition spent :: "string \<Rightarrow> task_delivery \<Rightarrow> bool" where
  "spent i d \<longleftrightarrow> own i d \<and> sent_out d"

text \<open>At most one delivery of the task is under way or sent; while one is under way the task is marked as
  pending; when one was sent the task, if it is still there, is marked as delivered.\<close>

fun once_view :: "string \<Rightarrow> (string, TaskRecord) jsmap \<times> string list \<times> task_delivery list \<times> bool \<Rightarrow> bool" where
  "once_view i (tasks, pend, ds, attempted) \<longleftrightarrow>
     length (filter (\<lambda>d. busy i d \<or> spent i d) ds) \<le> 1 \<and>
     ((\<exists>d\<in>set ds. busy i d) \<longrightarrow> i \<in> set pend) \<and>
     ((\<exists>d\<in>set ds. spent i d) \<longrightarrow>
        (case jget tasks i of None \<Rightarrow> True | Some t \<Rightarrow> tr_deliveryStatus t = DV_delivered)) \<and>
     (\<not> attempted \<longrightarrow> ds = [])"

definition once :: "string \<Rightarrow> task_registry \<Rightarrow> bool" where
  "once i s \<longleftrightarrow> once_view i (view s)"

lemma once_cong: "view s' = view s \<Longrightarrow> once i s' \<longleftrightarrow> once i s"
  by (simp add: once_def)

text \<open>A patch that does not take a delivered status back.\<close>

definition keeps_delivered :: "string \<Rightarrow> TaskPatch \<Rightarrow> task_registry \<Rightarrow> bool" where
  "keeps_delivered i p s \<longleftrightarrow> (case jget (tg_tasks s) i of None \<Rightarrow> True
     | Some t \<Rightarrow> tr_deliveryStatus t = DV_delivered \<longrightarrow> patched (pa_deliveryStatus p) DV_delivered = DV_delivered)"

lemma once_update:
  assumes "once i s" and "keeps_delivered j p s"
  shows "once i (fst (updateTask now j p s))"
proof (cases "jget (tg_tasks s) j")
  case None
  with assms(1) show ?thesis using once_cong [of "fst (updateTask now j p s)" s i] by (simp add: view_updateTask)
next
  case (Some c)
  have v: "view (fst (updateTask now j p s)) =
      (jset (tg_tasks s) j (stamp_cleanup now (patch_task p c)), tg_pendingDelivery s, tg_deliveries s, tg_restoreAttempted s)"
    using Some by (simp add: view_updateTask) (simp add: view_def)
  show ?thesis
    using assms Some unfolding once_def v
    by (auto simp: view_def Let_def keeps_delivered_def split: option.splits)
qed

lemma once_add_pending: "once i s \<Longrightarrow> once i (s\<lparr>tg_pendingDelivery := tg_pendingDelivery s @ [j]\<rparr>)"
  by (auto simp: once_def view_def)

lemma once_restore:
  assumes "once i s"
  shows "once i (restoreTaskRegistryOnce s)"
proof (cases "tg_restoreAttempted s")
  case True
  with assms show ?thesis by (simp add: restoreTaskRegistryOnce_def)
next
  case False
  with assms have "tg_deliveries s = []" by (simp add: once_def view_def Let_def)
  with False show ?thesis by (simp add: once_def view_def restoreTaskRegistryOnce_def Let_def)
qed

lemma once_ready: "once i s \<Longrightarrow> once i (ensureTaskRegistryReady s)"
  using once_restore [of i s] once_cong [of "ensureTaskRegistryReady s" "restoreTaskRegistryOnce s" i]
  by (simp add: ensureTaskRegistryReady_def)

lemma ready_restored: "tg_restoreAttempted (ensureTaskRegistryReady s)"
  by (simp add: ensureTaskRegistryReady_def restoreTaskRegistryOnce_def Let_def)


subsection \<open>Deliveries\<close>

definition quiet :: "string \<Rightarrow> task_registry \<Rightarrow> bool" where
  "quiet i s \<longleftrightarrow> (\<forall>d\<in>set (tg_deliveries s). \<not> busy i d)"

lemma quiet_pending: "once i s \<Longrightarrow> i \<notin> set (tg_pendingDelivery s) \<Longrightarrow> quiet i s"
  by (auto simp: once_def view_def quiet_def)

lemma view_deliveries: "view s' = view s \<Longrightarrow> tg_deliveries s' = tg_deliveries s"
  by (simp add: view_def)

lemma view_tasks: "view s' = view s \<Longrightarrow> tg_tasks s' = tg_tasks s"
  by (simp add: view_def)

lemma update_deliveries [simp]: "tg_deliveries (fst (updateTask now j p s)) = tg_deliveries s"
proof -
  have "view (fst (updateTask now j p s)) = view s \<or> (\<exists>ts. view (fst (updateTask now j p s)) = view (s\<lparr>tg_tasks := ts\<rparr>))"
    by (auto simp: view_updateTask split: option.split)
  then show ?thesis by (auto simp: view_def)
qed

lemma once_settle:
  assumes "once i s" and "keeps_delivered j p s" and "j = i \<Longrightarrow> quiet i s"
  shows "once i (done_pending j (fst (updateTask now j p s)))"
proof -
  let ?u = "fst (updateTask now j p s)"
  have u: "once i ?u" by (rule once_update [OF assms(1,2)])
  have q: "j = i \<Longrightarrow> \<forall>d\<in>set (tg_deliveries ?u). \<not> busy i d" using assms(3) by (simp add: quiet_def)
  have "view (done_pending j ?u) = (tg_tasks ?u, remove1 j (tg_pendingDelivery ?u), tg_deliveries ?u, tg_restoreAttempted ?u)"
    by (simp add: view_def done_pending_def)
  with u q show ?thesis unfolding once_def by (cases "j = i") (auto simp: view_def)
qed

lemma once_deliver_terminal:
  assumes o': "once i s" and t: "jget (tg_tasks s) j = Some t" "tr_deliveryStatus t = DV_pending" "tr_taskId t = j"
    and p: "j \<notin> set (tg_pendingDelivery s)" and att: "tg_restoreAttempted s"
  shows "once i (deliver_terminal now j t (s\<lparr>tg_pendingDelivery := tg_pendingDelivery s @ [j]\<rparr>))"
proof -
  let ?s = "s\<lparr>tg_pendingDelivery := tg_pendingDelivery s @ [j]\<rparr>"
  have o1: "once i ?s" by (rule once_add_pending [OF o'])
  have q: "j = i \<Longrightarrow> quiet i ?s" using quiet_pending [OF o'] p by (simp add: quiet_def)
  have settle: "once i (done_pending j (fst (updateTask now j (set_delivery now st) s')))" if "view s' = view ?s" for s' st
  proof (rule once_settle)
    show "once i s'" using o1 once_cong [OF that] by simp
    show "keeps_delivered j (set_delivery now st) s'" using view_tasks [OF that] t by (simp add: keeps_delivered_def)
    show "j = i \<Longrightarrow> quiet i s'" using view_deliveries [OF that] q by (simp add: quiet_def)
  qed
  have add: "once i (s'\<lparr>tg_deliveries := tg_deliveries s' @ [d]\<rparr>)"
    if v: "view s' = view ?s" and d: "dl_task d = t" "dl_phase d = DL_loading" for s' d
  proof -
    have fields: "tg_tasks s' = tg_tasks s" "tg_pendingDelivery s' = tg_pendingDelivery s @ [j]"
      "tg_deliveries s' = tg_deliveries s" "tg_restoreAttempted s' = tg_restoreAttempted s"
      using v by (simp_all add: view_def)
    have "own i d \<Longrightarrow> j = i" using d t by (simp add: own_def)
    moreover have "j = i \<Longrightarrow> \<forall>x\<in>set (tg_deliveries s). \<not> busy i x" using q by (simp add: quiet_def)
    moreover have "j = i \<Longrightarrow> \<forall>x\<in>set (tg_deliveries s). \<not> spent i x"
      using o' t by (auto simp: once_def view_def)
    ultimately have none: "own i d \<Longrightarrow> filter (\<lambda>x. busy i x \<or> spent i x) (tg_deliveries s) = []"
      by (simp add: filter_empty_conv)
    show ?thesis
      using o' none d t att \<open>own i d \<Longrightarrow> j = i\<close>
      by (cases "own i d") (auto simp: once_def view_def fields busy_def spent_def under_way_def sent_out_def)
  qed
  show ?thesis
  proof (cases "resolveTaskDeliveryOwner t ?s")
    case (Pair s' owner)
    with view_owner [of t ?s] have v: "view s' = view ?s" by simp
    then have v': "view (followup_if_blocked t (queueTaskSystemEvent t msg s')) = view ?s" for msg by simp
    show ?thesis
      unfolding deliver_terminal_def Let_def Pair prod.case
      by (auto simp: settle v v' add split: option.split)
  qed
qed

lemma once_terminal_update:
  assumes "once i s" and "reg_inv s"
  shows "once i (maybeDeliverTaskTerminalUpdate now j s)"
proof -
  let ?s = "ensureTaskRegistryReady s"
  have o1: "once i ?s" by (rule once_ready [OF assms(1)])
  show ?thesis
  proof (cases "jget (tg_tasks ?s) j")
    case (Some t)
    have "tr_taskId t = j" using ready_reg_inv [OF assms(2)] Some by (simp add: reg_inv_def core_def)
    with once_deliver_terminal [OF o1 Some] Some o1 show ?thesis
      by (simp add: maybeDeliverTaskTerminalUpdate_def Let_def shouldAutoDeliverTaskTerminalUpdate_def ready_restored)
  qed (simp add: maybeDeliverTaskTerminalUpdate_def Let_def o1)
qed

lemma keeps_None: "pa_deliveryStatus p = None \<Longrightarrow> keeps_delivered j p s"
  by (simp add: keeps_delivered_def split: option.split)

lemma status_empty [simp]: "pa_deliveryStatus (empty_patch\<lparr>pa_lastEventAt := v\<rparr>) = None"
  by (simp add: empty_patch_def)

lemma once_add_change:
  assumes "once i s" and "dl_event d \<noteq> None" and "tg_restoreAttempted s"
  shows "once i (s\<lparr>tg_deliveries := tg_deliveries s @ [d]\<rparr>)"
  using assms by (auto simp: once_def view_def busy_def spent_def own_def)

lemma once_state_change:
  assumes "once i s"
  shows "once i (maybeDeliverTaskStateChangeUpdate now j e s)"
proof -
  let ?s = "ensureTaskRegistryReady s"
  have o1: "once i ?s" by (rule once_ready [OF assms])
  show ?thesis
  proof (cases "jget (tg_tasks ?s) j")
    case (Some t)
    show ?thesis
    proof (cases "resolveTaskDeliveryOwner t ?s")
      case (Pair s' owner)
      with view_owner [of t ?s] have v: "view s' = view ?s" by simp
      then have o2: "once i s'" using o1 once_cong by blast
      have att: "tg_restoreAttempted s'" using v ready_restored [of s] by (simp add: view_def)
      have st: "once i (fst (updateTask now j (set_delivery now x) s'))" if "tr_deliveryStatus t = DV_pending" for x
        by (rule once_update [OF o2]) (use view_tasks [OF v] Some that in \<open>simp add: keeps_delivered_def\<close>)
      have quiet_patch: "once i (fst (updateTask now j (empty_patch\<lparr>pa_lastEventAt := w\<rparr>) s''))" if "view s'' = view s'" for w s''
        by (rule once_update) (use o2 once_cong [OF that] in \<open>simp_all add: keeps_None\<close>)
      show ?thesis
        using Some Pair o1 st quiet_patch once_add_change [OF o2 _ att]
        by (cases e) (simp_all add: maybeDeliverTaskStateChangeUpdate_def Let_def shouldAutoDeliverTaskStateChange_def
            split: option.split)
    qed
  qed (simp add: maybeDeliverTaskStateChangeUpdate_def Let_def o1)
qed

lemma count_update:
  "k < length xs \<Longrightarrow> length (filter P (xs[k := y])) + (if P (xs ! k) then 1 else 0) =
     length (filter P xs) + (if P y then 1 else 0)"
proof (induction xs arbitrary: k)
  case (Cons x xs)
  then show ?case by (cases k) auto
qed simp

lemma count_one: "length (filter P xs) \<le> 1 \<Longrightarrow> x \<in> set xs \<Longrightarrow> y \<in> set xs \<Longrightarrow> P x \<Longrightarrow> P y \<Longrightarrow> x = y"
proof (induction xs)
  case (Cons z zs)
  then show ?case by (auto split: if_splits simp: filter_empty_conv)
qed simp

lemma once_loaded:
  assumes "once i s"
  shows "once i (delivery_loaded k s)"
proof (cases "k < length (tg_deliveries s) \<and> dl_phase (tg_deliveries s ! k) = DL_loading")
  case True
  let ?d = "tg_deliveries s ! k"
  have phase: "once i (set_delivery_phase k (DL_sending key) s')" if v: "view s' = view s" for s' key
  proof -
    let ?n = "?d\<lparr>dl_phase := DL_sending key\<rparr>"
    have same: "busy i ?n = busy i ?d" "spent i ?n = spent i ?d"
      using True by (simp_all add: busy_def spent_def own_def under_way_def sent_out_def)
    have f: "tg_tasks s' = tg_tasks s" "tg_pendingDelivery s' = tg_pendingDelivery s"
      "tg_deliveries s' = tg_deliveries s" "tg_restoreAttempted s' = tg_restoreAttempted s"
      using v by (simp_all add: view_def)
    have mem: "?d \<in> set (tg_deliveries s)" using True by simp
    have cnt: "length (filter (\<lambda>d. busy i d \<or> spent i d) ((tg_deliveries s)[k := ?n])) =
        length (filter (\<lambda>d. busy i d \<or> spent i d) (tg_deliveries s))"
      using count_update [of k "tg_deliveries s" "\<lambda>d. busy i d \<or> spent i d" ?n] True same by (simp split: if_splits)
    have sub: "(\<exists>d\<in>set ((tg_deliveries s)[k := ?n]). Q d) \<Longrightarrow> Q ?n = Q ?d \<Longrightarrow> \<exists>d\<in>set (tg_deliveries s). Q d" for Q
      using mem set_update_subset_insert [of "tg_deliveries s" k ?n] by blast
    show ?thesis
      using assms cnt sub [of "busy i"] sub [of "spent i"] same True
      by (auto simp: once_def view_def set_delivery_phase_def f)
  qed
  show ?thesis
  proof (cases "dl_event ?d")
    case (Some e)
    with True phase show ?thesis by (simp add: delivery_loaded_def Let_def)
  next
    case None
    with True phase [OF view_key] show ?thesis
      by (simp add: delivery_loaded_def Let_def case_prod_beta)
  qed
next
  case False
  then have "delivery_loaded k s = s" unfolding delivery_loaded_def by presburger
  with assms show ?thesis by simp
qed

lemma status_of_set_delivery: "pa_deliveryStatus (set_delivery now st) = Some st"
  by (simp add: set_delivery_def)

text \<open>A delivery ends, well or badly: the state before its clean-up, and after it.\<close>

lemma once_end:
  assumes o': "once i s" and k: "k < length (tg_deliveries s)" and way: "under_way (tg_deliveries s ! k)"
    and ev: "dl_event (tg_deliveries s ! k) = None" and j: "j = tr_taskId (dl_task (tg_deliveries s ! k))"
    and ph: "(\<exists>key. ph = DL_sent key) \<and> st = DV_delivered \<or> ph = DL_failed"
    and v: "view s' = view (set_delivery_phase k ph s)"
  shows "once i (done_pending j (fst (updateTask now j (set_delivery now st) s')))"
proof -
  let ?ds = "tg_deliveries s" let ?d = "?ds ! k" let ?n = "?d\<lparr>dl_phase := ph\<rparr>" let ?ds' = "?ds[k := ?n]"
  let ?P = "\<lambda>d. busy i d \<or> spent i d"
  let ?u = "fst (updateTask now j (set_delivery now st) s')"
  have f: "tg_tasks s' = tg_tasks s" "tg_pendingDelivery s' = tg_pendingDelivery s"
    "tg_deliveries s' = ?ds'" "tg_restoreAttempted s' = tg_restoreAttempted s"
    using v by (simp_all add: view_def set_delivery_phase_def)
  have u: "tg_pendingDelivery ?u = tg_pendingDelivery s" "tg_restoreAttempted ?u = tg_restoreAttempted s"
    "tg_deliveries ?u = ?ds'"
    "tg_tasks ?u = (case jget (tg_tasks s) j of None \<Rightarrow> tg_tasks s
       | Some c \<Rightarrow> jset (tg_tasks s) j (stamp_cleanup now (patch_task (set_delivery now st) c)))"
    using view_updateTask [of now j "set_delivery now st" s'] f
    by (auto simp: view_def updateTask_tasks split: option.splits)
  have mem: "?d \<in> set ?ds" "?n \<in> set ?ds'" using k by (simp_all add: set_update_memI)
  have old: "length (filter ?P ?ds) \<le> 1" "(\<exists>d\<in>set ?ds. busy i d) \<longrightarrow> i \<in> set (tg_pendingDelivery s)"
    "(\<exists>d\<in>set ?ds. spent i d) \<longrightarrow> (case jget (tg_tasks s) i of None \<Rightarrow> True | Some t \<Rightarrow> tr_deliveryStatus t = DV_delivered)"
    "\<not> tg_restoreAttempted s \<longrightarrow> ?ds = []"
    using o' by (simp_all add: once_def view_def)
  have cnt: "length (filter ?P ?ds') + (if ?P ?d then 1 else 0) = length (filter ?P ?ds) + (if ?P ?n then 1 else 0)"
    by (rule count_update [OF k])
  have sub: "x \<in> set ?ds' \<Longrightarrow> x = ?n \<or> x \<in> set ?ds" for x
    using set_update_subset_insert [of ?ds k ?n] by blast
  have notbusy: "\<not> busy i ?n" using ph by (auto simp: busy_def under_way_def)
  have V: "view (done_pending j ?u) = (tg_tasks ?u, remove1 j (tg_pendingDelivery s), ?ds', tg_restoreAttempted s)"
    using u(1-3) by (simp add: view_def done_pending_def)
  have "once_view i (view (done_pending j ?u))"
  proof (cases "j = i")
    case True
    then have P: "busy i ?d" using way ev j by (simp add: busy_def own_def)
    show ?thesis
      using ph
    proof
      assume s: "(\<exists>key. ph = DL_sent key) \<and> st = DV_delivered"
      then have n: "spent i ?n" using ev j True by (auto simp: spent_def own_def sent_out_def)
      then have c: "length (filter ?P ?ds') \<le> 1" using cnt old(1) P by simp
      have nb: "\<not> busy i x" if "x \<in> set ?ds'" for x
        using count_one [OF c that mem(2)] n notbusy by auto
      have "case jget (tg_tasks ?u) i of None \<Rightarrow> True | Some t \<Rightarrow> tr_deliveryStatus t = DV_delivered"
        unfolding u(4) using s True by (simp add: status_of_set_delivery split: option.split)
      with c nb old(4) show ?thesis unfolding V by (simp del: update_deliveries)
    next
      assume "ph = DL_failed"
      then have "\<not> ?P ?n" by (simp add: busy_def spent_def under_way_def sent_out_def)
      then have "length (filter ?P ?ds') = 0" using cnt old(1) P by (simp del: length_0_conv)
      then have "filter ?P ?ds' = []" by (rule length_0_conv [THEN iffD1])
      then have "\<forall>x\<in>set ?ds'. \<not> busy i x \<and> \<not> spent i x" by (auto simp: filter_empty_conv)
      with old(4) \<open>filter ?P ?ds' = []\<close> show ?thesis unfolding V by simp
    qed
  next
    case False
    then have "\<not> own i ?d" "\<not> own i ?n" using j by (simp_all add: own_def)
    then have P: "\<not> ?P ?d" "\<not> ?P ?n" by (simp_all add: busy_def spent_def)
    have "jget (tg_tasks ?u) i = jget (tg_tasks s) i" using False by (simp add: u split: option.split)
    moreover have "(\<exists>x\<in>set ?ds'. busy i x) \<longrightarrow> (\<exists>x\<in>set ?ds. busy i x)" "(\<exists>x\<in>set ?ds'. spent i x) \<longrightarrow> (\<exists>x\<in>set ?ds. spent i x)"
      using sub P by blast+
    ultimately show ?thesis
      unfolding V using old cnt P False by (simp add: in_set_remove1)
  qed
  then show ?thesis by (simp add: once_def)
qed

lemma once_phase_change:
  assumes "once i s" and "k < length (tg_deliveries s)" and "dl_event (tg_deliveries s ! k) = Some e"
  shows "once i (set_delivery_phase k ph s)"
proof -
  let ?ds = "tg_deliveries s" let ?n = "(?ds ! k)\<lparr>dl_phase := ph\<rparr>"
  have no: "\<not> busy i ?n" "\<not> spent i ?n" "\<not> busy i (?ds ! k)" "\<not> spent i (?ds ! k)"
    using assms(3) by (simp_all add: busy_def spent_def own_def)
  have "length (filter (\<lambda>d. busy i d \<or> spent i d) (?ds[k := ?n])) = length (filter (\<lambda>d. busy i d \<or> spent i d) ?ds)"
    using count_update [OF assms(2), of "\<lambda>d. busy i d \<or> spent i d" ?n] no by simp
  moreover have "x \<in> set (?ds[k := ?n]) \<Longrightarrow> x = ?n \<or> x \<in> set ?ds" for x
    using set_update_subset_insert [of ?ds k ?n] by blast
  ultimately show ?thesis
    using assms(1,2) no by (auto simp: once_def view_def set_delivery_phase_def)
qed

lemma once_sent:
  assumes "once i s"
  shows "once i (delivery_sent now k s)"
proof (cases "k < length (tg_deliveries s)")
  case True
  let ?d = "tg_deliveries s ! k"
  show ?thesis
  proof (cases "dl_phase ?d")
    case (DL_sending key)
    then have way: "under_way ?d" by (simp add: under_way_def)
    show ?thesis
    proof (cases "dl_event ?d")
      case None
      have "once i (done_pending (tr_taskId (dl_task ?d)) (fst (updateTask now (tr_taskId (dl_task ?d))
          (set_delivery now DV_delivered) (followup_if_blocked (dl_task ?d) (set_delivery_phase k (DL_sent key) s)))))"
        by (rule once_end [OF assms True way None refl, of "DL_sent key"]) simp_all
      with None DL_sending True show ?thesis by (simp add: delivery_sent_def Let_def)
    next
      case (Some e)
      have "once i (fst (updateTask now j (empty_patch\<lparr>pa_lastEventAt := v\<rparr>)
          (upsertTaskDeliveryState j' org n (set_delivery_phase k (DL_sent key) s))))" for j v j' org n
        by (rule once_update)
          (use once_phase_change [OF assms True Some] once_cong [OF view_deliveryState] in \<open>simp_all add: keeps_None\<close>)
      with Some DL_sending True show ?thesis by (simp add: delivery_sent_def Let_def)
    qed
  qed (use assms True in \<open>simp_all add: delivery_sent_def Let_def\<close>)
qed (use assms in \<open>simp add: delivery_sent_def\<close>)

lemma once_failed:
  assumes "once i s"
  shows "once i (delivery_failed now k s)"
proof (cases "k < length (tg_deliveries s)")
  case True
  let ?d = "tg_deliveries s ! k"
  have fail: "once i (case dl_event ?d of Some e \<Rightarrow> set_delivery_phase k DL_failed s
      | None \<Rightarrow> done_pending (tr_taskId (dl_task ?d)) (fst (updateTask now (tr_taskId (dl_task ?d)) (set_delivery now DV_failed)
          (followup_if_blocked (dl_task ?d) (queueTaskSystemEvent (dl_task ?d) (dl_text ?d) (set_delivery_phase k DL_failed s))))))"
    if "under_way ?d"
  proof (cases "dl_event ?d")
    case None
    have "once i (done_pending (tr_taskId (dl_task ?d)) (fst (updateTask now (tr_taskId (dl_task ?d)) (set_delivery now DV_failed)
          (followup_if_blocked (dl_task ?d) (queueTaskSystemEvent (dl_task ?d) (dl_text ?d) (set_delivery_phase k DL_failed s))))))"
      by (rule once_end [OF assms True that None refl, of DL_failed]) simp_all
    with None show ?thesis by simp
  qed (simp add: once_phase_change [OF assms True])
  then show ?thesis
    using assms True by (auto simp: delivery_failed_def Let_def under_way_def split: delivery_phase.split)
qed (use assms in \<open>simp add: delivery_failed_def\<close>)

subsection \<open>The operations\<close>

lemma once_by_id: "once i s \<Longrightarrow> pa_deliveryStatus p = None \<Longrightarrow> once i (fst (update_by_id now j p s))"
  unfolding update_by_id_def by (intro once_update once_ready keeps_None)

lemma no_delivery_status [simp]:
  "pa_deliveryStatus empty_patch = None" "pa_deliveryStatus (state_patch q t) = None"
  "pa_deliveryStatus (event_patch now e t) = None"
  by (simp_all add: empty_patch_def state_patch_def event_patch_def Let_def split: agent_stream.split)

lemma once_notify:
  assumes "once i s" and "reg_inv s" and "pa_deliveryStatus p = None" and "pa_runId p = None"
  shows "once i (fst (update_and_notify now j p e s))"
proof (cases "updateTask now j p s")
  case (Pair s' r)
  have "once i s'" using once_update [OF assms(1) keeps_None [OF assms(3)], of now j] Pair by simp
  moreover have "reg_inv s'" using updateTask_inv [OF assms(2) patch_ok_run [OF assms(4)], of now j] Pair by simp
  ultimately show ?thesis
    using Pair by (cases r) (simp_all add: update_and_notify_def once_terminal_update once_state_change state_change_inv)
qed

lemma once_for_each:
  assumes "\<And>t s. once i s \<Longrightarrow> reg_inv s \<Longrightarrow> once i (fst (f t s)) \<and> reg_inv (fst (f t s))"
    and "once i s" and "reg_inv s"
  shows "once i (fst (for_each_task f ts s))"
  using for_each_inv [where P = "\<lambda>s. once i s \<and> reg_inv s" and f = f] assms by blast

lemma once_merge:
  assumes o': "once i s" and t: "jget (tg_tasks s) (tr_taskId t) = Some t"
  shows "once i (fst (mergeExistingTaskForCreate now t p s))"
proof -
  let ?P = "\<lambda>s'. once i s' \<and> jget (tg_tasks s') (tr_taskId t) = Some t"
  have keep: "?P s' \<Longrightarrow> once i (fst (case updateTask now (tr_taskId t) (merge_patch t p) s' of (s, r) \<Rightarrow> (s, Inr (or_value r t) :: task_error + TaskRecord)))" for s'
    using once_update [of i s' "tr_taskId t" "merge_patch t p" now]
    by (simp add: case_prod_beta keeps_delivered_def merge_patch_def Let_def empty_patch_def)
  have start: "?P (if c then upsertTaskDeliveryState a b d s else s)" for c a b d
    using o' t once_cong [OF view_deliveryState] view_tasks [OF view_deliveryState] by simp
  have link: "?P s' \<Longrightarrow> ?P (fst (assertParentFlowLinkAllowed a b c s'))" for a b c s'
    using once_cong [OF view_link] view_tasks [OF view_link] by simp
  have cont: "once i (fst (and_then x f))" if "?P (fst x)" "\<And>s'. ?P s' \<Longrightarrow> once i (fst (f () s'))"
    for x :: "task_registry \<times> (task_error + unit)" and f :: "unit \<Rightarrow> task_registry \<Rightarrow> task_registry \<times> (task_error + TaskRecord)"
    using that by (cases x; cases "snd x") auto
  show ?thesis
    unfolding mergeExistingTaskForCreate_def Let_def
    by (rule cont) (use start link keep in \<open>auto split: if_splits\<close>)
qed

lemma filter_own_fresh: "\<forall>d\<in>set ds. tr_taskId (dl_task d) \<noteq> i \<Longrightarrow> \<forall>d\<in>set ds. \<not> busy i d \<and> \<not> spent i d"
  by (simp add: busy_def spent_def own_def)

definition fresh_id :: "string \<Rightarrow> task_registry \<Rightarrow> bool" where
  "fresh_id i s \<longleftrightarrow> jget (tg_tasks (ensureTaskRegistryReady s)) i = None \<and>
     (\<forall>d\<in>set (tg_deliveries s). tr_taskId (dl_task d) \<noteq> i)"

lemma ready_view: "tg_deliveries (ensureTaskRegistryReady s) = tg_deliveries s"
  by (simp add: ensureTaskRegistryReady_def restoreTaskRegistryOnce_def Let_def)

lemma view_insert:
  "view (insert_task now r org s) = view (s\<lparr>tg_tasks := jset (tg_tasks s) (tr_taskId r) r\<rparr>)"
proof -
  have "view (upsertTaskDeliveryState a b c (s\<lparr>tg_tasks := ts\<rparr>)) = view (s\<lparr>tg_tasks := ts\<rparr>)" for a b c ts by simp
  then show ?thesis by (simp add: insert_task_def Let_def)
qed

lemma once_insert:
  assumes "once i s" and "\<forall>d\<in>set (tg_deliveries s). tr_taskId (dl_task d) \<noteq> tr_taskId r"
  shows "once i (insert_task now r org s)"
proof (cases "tr_taskId r = i")
  case True
  then have none: "\<forall>d\<in>set (tg_deliveries s). \<not> busy i d \<and> \<not> spent i d"
    using assms(2) by (intro filter_own_fresh) simp
  then have "filter (\<lambda>d. busy i d \<or> spent i d) (tg_deliveries s) = []" by (simp add: filter_empty_conv)
  with none assms(1) show ?thesis unfolding once_def view_insert by (simp add: view_def)
next
  case False
  with assms(1) show ?thesis unfolding once_def view_insert by (simp add: view_def)
qed

lemma found_is_stored:
  assumes "reg_inv s" and "findExistingTaskForCreate ok sc p s = Some t"
  shows "jget (tg_tasks s) (tr_taskId t) = Some t"
proof -
  have ids: "jget (tg_tasks s) j = Some t' \<Longrightarrow> tr_taskId t' = j" for j t'
    using assms(1) unfolding reg_inv_def core_def core_ok.simps by blast
  have sub: "jget (tg_tasks s) (tr_taskId t') = Some t'" if mem: "t' \<in> set (getTasksByRunId r s)" for t' r
  proof -
    obtain ks where "t' \<in> set (tasks_of_ids ks s)"
      using mem by (cases "jget (tg_byRunId s) (js_trim r)") (simp_all add: getTasksByRunId_def)
    then have "\<exists>j. jget (tg_tasks s) j = Some t'" unfolding tasks_of_ids_set by blast
    with ids show ?thesis by blast
  qed
  have pref: "pickPreferredRunIdTask ts = Some t' \<Longrightarrow> t' \<in> set ts" for ts t'
    using first_of_in [of "sort_key taskLookupPriority (sort_key tr_createdAt ts)" t'] by (simp add: pickPreferredRunIdTask_def)
  have find: "find Q ts = Some t' \<Longrightarrow> t' \<in> set ts" for Q ts t'
    by (induction ts) (auto split: if_splits)
  obtain r where r: "normalizeText (kp_runId p) = Some r"
    using assms(2) by (cases "normalizeText (kp_runId p)") (simp_all add: findExistingTaskForCreate_def)
  let ?ms = "filter (\<lambda>t. tr_runtime t = kp_runtime p \<and> tr_scopeKind t = sc \<and> js_trim (tr_ownerKey t) = js_trim ok \<and>
    normalizeComparableText (tr_childSessionKey t) = normalizeComparableText (kp_childSessionKey p) \<and>
    normalizeComparableText (tr_parentFlowId t) = normalizeComparableText (kp_parentFlowId p)) (getTasksByRunId r s)"
  let ?e = "find (\<lambda>t. normalizeComparableText (tr_label t) = normalizeComparableText (kp_label p) \<and>
    js_trim (tr_task t) = js_trim (kp_task p)) ?ms"
  have "t \<in> set ?ms"
  proof (cases ?e)
    case None
    then have "pickPreferredRunIdTask ?ms = Some t"
      using assms(2) r unfolding findExistingTaskForCreate_def by (simp add: Let_def split: if_splits)
    then show ?thesis by (rule pref)
  next
    case (Some u)
    then have "u = t" using assms(2) r unfolding findExistingTaskForCreate_def by (simp add: Let_def)
    with find [OF Some] show ?thesis by simp
  qed
  then have "t \<in> set (getTasksByRunId r s)" by simp
  then show ?thesis by (rule sub)
qed

lemma once_create:
  assumes o': "once i s" and inv: "reg_inv s" and fresh: "fresh_id uuid s"
  shows "once i (fst (createTaskRecord now uuid p s))"
proof -
  let ?s = "ensureTaskRegistryReady s"
  have o1: "once i ?s" by (rule once_ready [OF o'])
  have inv1: "reg_inv ?s" by (rule ready_reg_inv [OF inv])
  have fr: "\<forall>d\<in>set (tg_deliveries ?s). tr_taskId (dl_task d) \<noteq> uuid" "jget (tg_tasks ?s) uuid = None"
    using fresh by (simp_all add: fresh_id_def ready_view)
  have step: "once i (fst (case findExistingTaskForCreate ow sc p s' of
      Some existing \<Rightarrow> mergeExistingTaskForCreate now existing p s'
    | None \<Rightarrow> (let r = new_task_record now uuid rk sc ow p;
                  s = insert_task now r (kp_requesterOrigin p) s';
                  s = (if isTerminalTaskStatus (tr_status r) then maybeDeliverTaskTerminalUpdate now uuid s else s)
              in (s, Inr r))))"
    if v: "view s' = view ?s" and c: "core s' = core ?s" for s' ow sc rk
  proof -
    have o2: "once i s'" using once_cong [OF v] o1 by simp
    have inv2: "reg_inv s'" using inv1 c by (simp add: reg_inv_def)
    have f2: "\<forall>d\<in>set (tg_deliveries s'). tr_taskId (dl_task d) \<noteq> uuid" "jget (tg_tasks s') uuid = None"
      using fr view_deliveries [OF v] view_tasks [OF v] by simp_all
    show ?thesis
    proof (cases "findExistingTaskForCreate ow sc p s'")
      case (Some t)
      with once_merge [OF o2 found_is_stored [OF inv2 Some]] show ?thesis by simp
    next
      case None
      let ?r = "new_task_record now uuid rk sc ow p" let ?n = "insert_task now ?r (kp_requesterOrigin p) s'"
      have "once i ?n" by (rule once_insert [OF o2]) (use f2 in simp)
      moreover have "reg_inv ?n" by (rule insert_inv [OF inv2]) (use f2 in simp)
      ultimately show ?thesis using None by (simp add: Let_def once_terminal_update)
    qed
  qed
  have after: "once i (fst (and_then (assertParentFlowLinkAllowed a b c ?s) f))"
    if "\<And>s'. view s' = view ?s \<Longrightarrow> core s' = core ?s \<Longrightarrow> once i (fst (f () s'))"
    for a b c and f :: "unit \<Rightarrow> task_registry \<Rightarrow> task_registry \<times> (task_error + TaskRecord)"
  proof (cases "assertParentFlowLinkAllowed a b c ?s")
    case (Pair s' r)
    with view_link [of a b c ?s] core_link [of a b c ?s] have "view s' = view ?s" "core s' = core ?s" by simp_all
    with that [OF this] Pair o1 once_cong [OF \<open>view s' = view ?s\<close>] show ?thesis by (cases r) simp_all
  qed
  show ?thesis
    unfolding createTaskRecord_def Let_def
    by (rule if_split [THEN iffD2], intro conjI impI)
      (simp add: o1, rule after, rule step [unfolded Let_def])
qed

lemma once_link:
  assumes "once i s"
  shows "once i (fst (linkTaskToFlowById now j f s))"
proof -
  let ?s = "ensureTaskRegistryReady s"
  have o1: "once i ?s" by (rule once_ready [OF assms])
  have up: "once i (fst (case updateTask now j (empty_patch\<lparr>pa_parentFlowId := v\<rparr>) s' of (s, t) \<Rightarrow> (s, Inr t)))"
    if "once i s'" for s' v
    using once_update [OF that keeps_None, of "empty_patch\<lparr>pa_parentFlowId := v\<rparr>" now j]
    by (simp add: case_prod_beta empty_patch_def)
  have "once i (fst (and_then (assertParentFlowLinkAllowed a b c ?s)
      (\<lambda>_ s. case updateTask now j (empty_patch\<lparr>pa_parentFlowId := v\<rparr>) s of (s, t) \<Rightarrow> (s, Inr t))))" for a b c v
    by (rule and_then_keeps [where P = "once i"]) (use o1 once_cong [OF view_link] up in simp_all)
  with o1 show ?thesis by (simp add: linkTaskToFlowById_def Let_def split: option.split)
qed

lemma once_delete:
  assumes "once i s"
  shows "once i (fst (deleteTaskRecordById j s))"
proof -
  let ?s = "ensureTaskRegistryReady s"
  have o1: "once i ?s" by (rule once_ready [OF assms])
  show ?thesis
  proof (cases "jget (tg_tasks ?s) j")
    case (Some c)
    have "view (fst (deleteTaskRecordById j s)) =
        (jdel (tg_tasks ?s) j, tg_pendingDelivery ?s, tg_deliveries ?s, tg_restoreAttempted ?s)"
      using Some by (simp add: deleteTaskRecordById_def Let_def view_def persistTaskDelete_def persistTaskDeliveryStateDelete_def)
    with o1 show ?thesis by (cases "j = i") (simp_all add: once_def view_def)
  qed (simp add: deleteTaskRecordById_def Let_def o1)
qed

lemma once_finish_cancel:
  assumes "once i s" and "reg_inv s"
  shows "once i (fst (finish_cancel now t out s))"
proof -
  let ?p = "empty_patch\<lparr>pa_status := Some BT_cancelled, pa_endedAt := Some (Some now),
    pa_lastEventAt := Some (Some now), pa_error := Some (Some ''Cancelled by operator.'')\<rparr>"
  have p: "pa_deliveryStatus ?p = None" "pa_runId ?p = None" by (simp_all add: empty_patch_def)
  have upd: "once i (fst (updateTask now (tr_taskId t) ?p s))"
    by (rule once_update [OF assms(1) keeps_None [OF p(1)]])
  have inv: "reg_inv (fst (updateTask now (tr_taskId t) ?p s))"
    by (rule updateTask_inv [OF assms(2) patch_ok_run [OF p(2)]])
  show ?thesis
  proof (cases "updateTask now (tr_taskId t) ?p s")
    case (Pair s' r)
    with upd inv assms(1) show ?thesis
      by (cases r; cases out) (simp_all add: finish_cancel_def Let_def once_terminal_update)
  qed
qed

text \<open>Legal histories for this property: a new task gets an id that neither a task nor a delivery has, and the
  delivery status is not set from outside (\<open>setTaskRunDeliveryStatusByRunId\<close>), which may ask for a second update.\<close>

fun once_ok :: "task_registry \<Rightarrow> task_op \<Rightarrow> bool" where
  "once_ok s (K_create now uuid p) \<longleftrightarrow> fresh_id uuid s"
| "once_ok s (K_deliveryStatus now r rt k st) \<longleftrightarrow> False"
| "once_ok s _ \<longleftrightarrow> True"

lemma once_ok_ok: "once_ok s x \<Longrightarrow> task_ok s x"
  by (cases x) (simp_all add: fresh_id_def)

lemma once_apply: "once_ok s x \<Longrightarrow> reg_inv s \<Longrightarrow> once i s \<Longrightarrow> once i (task_apply x s)"
proof (cases x)
  case (K_state now r rt k p)
  assume "reg_inv s" "once i s"
  with K_state show ?thesis
    by (simp add: updateTaskStateByRunId_def Let_def)
      (rule once_for_each, simp_all add: once_notify update_and_notify_inv once_ready ready_reg_inv)
next
  case (K_event now e)
  assume "reg_inv s" "once i s"
  with K_event show ?thesis
    by (simp add: onAgentEvent_def Let_def)
      (intro conjI impI once_for_each; simp add: once_notify update_and_notify_inv once_restore restore_inv)
next
  case (K_flow y)
  assume "once i s"
  with K_flow show ?thesis using once_cong [of "s\<lparr>tg_flows := flow_apply y (tg_flows s)\<rparr>" s i] by simp
qed (simp_all add: setTaskProgressById_def setTaskTimingById_def setTaskCleanupAfterById_def markTaskTerminalById_def
    markTaskLostById_def updateTaskNotifyPolicyById_def once_by_id once_link once_finish_cancel once_delete
    once_terminal_update once_loaded once_sent once_failed once_ready once_create empty_patch_def)

interpretation once_machine: guarded_machine once_ok task_apply "\<lambda>s. reg_inv s \<and> once i s"
  by unfold_locales (simp add: once_apply task_apply_inv once_ok_ok)


definition demo_origin :: DeliveryContext where
  "demo_origin = \<lparr>dx_channel = Some ''chat'', dx_to = Some ''me'', dx_accountId = None, dx_threadId = None\<rparr>"

definition demo_once :: "task_op list" where
  "demo_once = [K_create 1 ''a'' ((demo_params ''r1'')\<lparr>kp_requesterOrigin := Some demo_origin\<rparr>),
     K_terminal 2 ''a'' BT_succeeded 2 no_state_params, K_deliver 3 ''a'', K_deliver 4 ''a'', K_loaded 0, K_deliver 5 ''a'',
     K_sent 6 0, K_deliver 7 ''a'']"


end
