(* ===== verification/TaskMaintenance.thy ===== *)
theory TaskMaintenance
  imports TaskOnce
begin

text \<open>
  The sweep over the background tasks (\<open>src/src/tasks/task-registry.maintenance.ts\<close>,
  \<open>task-registry.reconcile.ts\<close>): an active task whose session is gone becomes lost, a terminal task is
  given a time for its removal, and is removed when that time has come. The session stores are the record
  \<open>session_env\<close>. The sweep yields to the event loop after every 25 tasks; what other code does then is the
  argument \<open>yields\<close>, a list of registry operations for each such moment.
\<close>

subsection \<open>Backing sessions\<close>

text \<open>\<open>sx_acpEntry\<close>: \<open>None\<close> when there is nothing to read or reading the store fails, otherwise whether the entry
  is there. \<open>sx_store\<close>: the session store of the agent that the key names, with the truth value of each entry.\<close>

record session_env =
  sx_acpEntry :: "string \<Rightarrow> bool option"
  sx_store :: "string \<Rightarrow> (string, bool) jsmap"

definition findSessionEntryByKey :: "(string, bool) jsmap \<Rightarrow> string \<Rightarrow> bool" where
  "findSessionEntryByKey store sessionKey =
     (if jget store sessionKey = Some True then True
      else case find (\<lambda>(k, _). map ascii_lower k = map ascii_lower sessionKey) store of
             Some (_, entry) \<Rightarrow> entry | None \<Rightarrow> False)"

definition hasBackingSession :: "session_env \<Rightarrow> TaskRecord \<Rightarrow> bool" where
  "hasBackingSession env t \<longleftrightarrow>
     (case normalizeText (tr_childSessionKey t) of
        None \<Rightarrow> True
      | Some child \<Rightarrow>
          (case tr_runtime t of
             RT_acp \<Rightarrow> (case sx_acpEntry env child of None \<Rightarrow> True | Some entry \<Rightarrow> entry)
           | RT_cron \<Rightarrow> True
           | _ \<Rightarrow> findSessionEntryByKey (sx_store env child) child))"

subsection \<open>Decisions\<close>

definition TASK_RECONCILE_GRACE_MS :: int where "TASK_RECONCILE_GRACE_MS = 5 * 60000"
definition TASK_RETENTION_MS :: int where "TASK_RETENTION_MS = 7 * 24 * 60 * 60000"
definition SWEEP_YIELD_BATCH_SIZE :: nat where "SWEEP_YIELD_BATCH_SIZE = 25"

definition isActiveTask :: "TaskRecord \<Rightarrow> bool" where
  "isActiveTask t \<longleftrightarrow> tr_status t = BT_queued \<or> tr_status t = BT_running"

definition hasLostGraceExpired :: "TaskRecord \<Rightarrow> int \<Rightarrow> bool" where
  "hasLostGraceExpired t now \<longleftrightarrow>
     now - or_value (or_else (tr_lastEventAt t) (tr_startedAt t)) (tr_createdAt t) \<ge> TASK_RECONCILE_GRACE_MS"

definition shouldMarkLost :: "session_env \<Rightarrow> TaskRecord \<Rightarrow> int \<Rightarrow> bool" where
  "shouldMarkLost env t now \<longleftrightarrow> isActiveTask t \<and> hasLostGraceExpired t now \<and> \<not> hasBackingSession env t"

definition terminal_time :: "TaskRecord \<Rightarrow> int" where
  "terminal_time t = or_value (or_else (tr_endedAt t) (tr_lastEventAt t)) (tr_createdAt t)"

definition shouldPruneTerminalTask :: "TaskRecord \<Rightarrow> int \<Rightarrow> bool" where
  "shouldPruneTerminalTask t now \<longleftrightarrow> \<not> isActiveTask t \<and>
     (case tr_cleanupAfter t of Some c \<Rightarrow> now \<ge> c | None \<Rightarrow> now - terminal_time t \<ge> TASK_RETENTION_MS)"

definition shouldStampCleanupAfter :: "TaskRecord \<Rightarrow> bool" where
  "shouldStampCleanupAfter t \<longleftrightarrow> \<not> isActiveTask t \<and> tr_cleanupAfter t = None"

definition resolveCleanupAfter :: "TaskRecord \<Rightarrow> int" where
  "resolveCleanupAfter t = terminal_time t + TASK_RETENTION_MS"

definition projectTaskLost :: "TaskRecord \<Rightarrow> int \<Rightarrow> TaskRecord" where
  "projectTaskLost t now =
     (let projected = t\<lparr>tr_status := BT_lost, tr_endedAt := Some (or_value (tr_endedAt t) now),
            tr_lastEventAt := Some now, tr_error := Some (or_value (tr_error t) ''backing session missing'')\<rparr>
      in case tr_cleanupAfter projected of
           Some _ \<Rightarrow> projected
         | None \<Rightarrow> projected\<lparr>tr_cleanupAfter := Some (resolveCleanupAfter projected)\<rparr>)"

definition reconcileTaskRecordForOperatorInspection :: "session_env \<Rightarrow> int \<Rightarrow> TaskRecord \<Rightarrow> TaskRecord" where
  "reconcileTaskRecordForOperatorInspection env now t =
     (if shouldMarkLost env t now then projectTaskLost t now else t)"

subsection \<open>Inspection\<close>

definition reconcileInspectableTasks :: "session_env \<Rightarrow> int \<Rightarrow> task_registry \<Rightarrow> task_registry \<times> TaskRecord list" where
  "reconcileInspectableTasks env now s =
     (case listTaskRecords (ensureTaskRegistryReady s) of
        (s, ts) \<Rightarrow> (s, map (reconcileTaskRecordForOperatorInspection env now) ts))"

definition getInspectableTaskRegistrySummary ::
  "session_env \<Rightarrow> int \<Rightarrow> task_registry \<Rightarrow> task_registry \<times> TaskRegistrySummary" where
  "getInspectableTaskRegistrySummary env now s =
     (case reconcileInspectableTasks env now s of (s, ts) \<Rightarrow> (s, summarizeTaskRecords ts))"

definition reconcileTaskLookupToken ::
  "session_env \<Rightarrow> int \<Rightarrow> string \<Rightarrow> task_registry \<Rightarrow> task_registry \<times> TaskRecord option" where
  "reconcileTaskLookupToken env now token s =
     (case resolveTaskForLookupToken token (ensureTaskRegistryReady s) of
        (s, t) \<Rightarrow> (s, map_option (reconcileTaskRecordForOperatorInspection env now) t))"

definition getReconciledTaskById ::
  "session_env \<Rightarrow> int \<Rightarrow> string \<Rightarrow> task_registry \<Rightarrow> task_registry \<times> TaskRecord option" where
  "getReconciledTaskById env now taskId s =
     (case getTaskById taskId s of
        (s, t) \<Rightarrow> (s, map_option (reconcileTaskRecordForOperatorInspection env now) t))"

subsection \<open>The sweep\<close>

definition markTaskLost :: "int \<Rightarrow> TaskRecord \<Rightarrow> int \<Rightarrow> task_registry \<Rightarrow> task_registry \<times> TaskRecord" where
  "markTaskLost clock t now s =
     (case markTaskLostById clock (tr_taskId t) (or_value (tr_endedAt t) now) (Some now)
         (Some (or_value (tr_error t) ''backing session missing''))
         (or_else (tr_cleanupAfter t) (tr_cleanupAfter (projectTaskLost t now))) s of
        (s, u) \<Rightarrow>
          (let updated = or_value u t in (maybeDeliverTaskTerminalUpdate clock (tr_taskId updated) s, updated)))"

datatype sweep_effect = SW_gone | SW_reconciled | SW_pruned | SW_stamped | SW_none

record TaskRegistryMaintenanceSummary =
  mt_reconciled :: nat
  mt_cleanupStamped :: nat
  mt_pruned :: nat

definition no_maintenance :: TaskRegistryMaintenanceSummary where
  "no_maintenance = \<lparr>mt_reconciled = 0, mt_cleanupStamped = 0, mt_pruned = 0\<rparr>"

definition count_effect :: "sweep_effect \<Rightarrow> TaskRegistryMaintenanceSummary \<Rightarrow> TaskRegistryMaintenanceSummary" where
  "count_effect e m =
     (case e of
        SW_reconciled \<Rightarrow> m\<lparr>mt_reconciled := mt_reconciled m + 1\<rparr>
      | SW_pruned \<Rightarrow> m\<lparr>mt_pruned := mt_pruned m + 1\<rparr>
      | SW_stamped \<Rightarrow> m\<lparr>mt_cleanupStamped := mt_cleanupStamped m + 1\<rparr>
      | _ \<Rightarrow> m)"

text \<open>One pass of the loop: \<open>now\<close> is the time the sweep began, \<open>clock\<close> what the registry's own calls read.\<close>

definition sweep_task ::
  "session_env \<Rightarrow> int \<Rightarrow> int \<Rightarrow> string \<Rightarrow> task_registry \<Rightarrow> task_registry \<times> sweep_effect" where
  "sweep_task env clock now taskId s =
     (case getTaskById taskId s of
        (s, None) \<Rightarrow> (s, SW_gone)
      | (s, Some current) \<Rightarrow>
          (if shouldMarkLost env current now
           then (case markTaskLost clock current now s of
                   (s, t) \<Rightarrow> (s, if tr_status t = BT_lost then SW_reconciled else SW_none))
           else case (if shouldPruneTerminalTask current now then deleteTaskRecordById (tr_taskId current) s
                      else (s, False)) of
                  (s, True) \<Rightarrow> (s, SW_pruned)
                | (s, False) \<Rightarrow>
                    (if shouldStampCleanupAfter current
                     then (case setTaskCleanupAfterById clock (tr_taskId current) (resolveCleanupAfter current) s of
                             (s, Some _) \<Rightarrow> (s, SW_stamped) | (s, None) \<Rightarrow> (s, SW_none))
                     else (s, SW_none))))"

fun sweep_loop ::
  "session_env \<Rightarrow> int \<Rightarrow> int \<Rightarrow> (nat \<Rightarrow> task_op list) \<Rightarrow> TaskRecord list \<Rightarrow> nat \<Rightarrow>
   TaskRegistryMaintenanceSummary \<Rightarrow> task_registry \<Rightarrow> task_registry \<times> TaskRegistryMaintenanceSummary" where
  "sweep_loop env clock now yields [] processed m s = (s, m)"
| "sweep_loop env clock now yields (t # ts) processed m s =
     (case sweep_task env clock now (tr_taskId t) s of
        (s, SW_gone) \<Rightarrow> sweep_loop env clock now yields ts processed m s
      | (s, e) \<Rightarrow>
          (let processed = processed + 1;
               s = (if processed mod SWEEP_YIELD_BATCH_SIZE = 0 then fold task_apply (yields processed) s else s)
           in sweep_loop env clock now yields ts processed (count_effect e m) s))"

definition runTaskRegistryMaintenance ::
  "session_env \<Rightarrow> int \<Rightarrow> int \<Rightarrow> (nat \<Rightarrow> task_op list) \<Rightarrow> task_registry \<Rightarrow>
   task_registry \<times> TaskRegistryMaintenanceSummary" where
  "runTaskRegistryMaintenance env clock now yields s =
     (case listTaskRecords (ensureTaskRegistryReady s) of
        (s, ts) \<Rightarrow> sweep_loop env clock now yields ts 0 no_maintenance s)"

definition sweepTaskRegistry ::
  "session_env \<Rightarrow> int \<Rightarrow> int \<Rightarrow> (nat \<Rightarrow> task_op list) \<Rightarrow> task_registry \<Rightarrow>
   task_registry \<times> TaskRegistryMaintenanceSummary" where
  "sweepTaskRegistry = runTaskRegistryMaintenance"

definition preview_step ::
  "session_env \<Rightarrow> int \<Rightarrow> TaskRecord \<Rightarrow> TaskRegistryMaintenanceSummary \<Rightarrow> TaskRegistryMaintenanceSummary" where
  "preview_step env now t m =
     (if shouldMarkLost env t now then m\<lparr>mt_reconciled := mt_reconciled m + 1\<rparr>
      else if shouldPruneTerminalTask t now then m\<lparr>mt_pruned := mt_pruned m + 1\<rparr>
      else if shouldStampCleanupAfter t then m\<lparr>mt_cleanupStamped := mt_cleanupStamped m + 1\<rparr>
      else m)"

definition previewTaskRegistryMaintenance ::
  "session_env \<Rightarrow> int \<Rightarrow> task_registry \<Rightarrow> task_registry \<times> TaskRegistryMaintenanceSummary" where
  "previewTaskRegistryMaintenance env now s =
     (case listTaskRecords (ensureTaskRegistryReady s) of (s, ts) \<Rightarrow> (s, fold (preview_step env now) ts no_maintenance))"

subsection \<open>The timers of the sweep\<close>

text \<open>Timers are numbered; \<open>sw_timeouts\<close> and \<open>sw_intervals\<close> are those that are set.\<close>

record sweep_timers =
  sw_sweeper :: "nat option"
  sw_deferredSweep :: "nat option"
  sw_sweepInProgress :: bool
  sw_timeouts :: "nat list"
  sw_intervals :: "nat list"
  sw_nextTimer :: nat

definition no_timers :: sweep_timers where
  "no_timers = \<lparr>sw_sweeper = None, sw_deferredSweep = None, sw_sweepInProgress = False, sw_timeouts = [],
     sw_intervals = [], sw_nextTimer = 0\<rparr>"

text \<open>The second component: whether a sweep begins.\<close>

definition startScheduledSweep :: "sweep_timers \<Rightarrow> sweep_timers \<times> bool" where
  "startScheduledSweep w = (if sw_sweepInProgress w then (w, False) else (w\<lparr>sw_sweepInProgress := True\<rparr>, True))"

definition sweep_finished :: "sweep_timers \<Rightarrow> sweep_timers" where
  "sweep_finished w = w\<lparr>sw_sweepInProgress := False\<rparr>"

definition deferred_fires :: "nat \<Rightarrow> sweep_timers \<Rightarrow> sweep_timers \<times> bool" where
  "deferred_fires k w =
     (if k \<in> set (sw_timeouts w)
      then startScheduledSweep (w\<lparr>sw_timeouts := remove1 k (sw_timeouts w), sw_deferredSweep := None\<rparr>)
      else (w, False))"

definition interval_fires :: "nat \<Rightarrow> sweep_timers \<Rightarrow> sweep_timers \<times> bool" where
  "interval_fires k w = (if k \<in> set (sw_intervals w) then startScheduledSweep w else (w, False))"

definition startTaskRegistryMaintenance :: "sweep_timers \<Rightarrow> sweep_timers" where
  "startTaskRegistryMaintenance w =
     (let k = sw_nextTimer w;
          w = w\<lparr>sw_deferredSweep := Some k, sw_timeouts := sw_timeouts w @ [k], sw_nextTimer := k + 1\<rparr>
      in if sw_sweeper w \<noteq> None then w
         else w\<lparr>sw_sweeper := Some (k + 1), sw_intervals := sw_intervals w @ [k + 1], sw_nextTimer := k + 2\<rparr>)"

definition stopTaskRegistryMaintenanceForTests :: "sweep_timers \<Rightarrow> sweep_timers" where
  "stopTaskRegistryMaintenanceForTests w =
     (let w = (case sw_deferredSweep w of
                 Some k \<Rightarrow> w\<lparr>sw_timeouts := remove1 k (sw_timeouts w), sw_deferredSweep := None\<rparr> | None \<Rightarrow> w);
          w = (case sw_sweeper w of
                 Some k \<Rightarrow> w\<lparr>sw_intervals := remove1 k (sw_intervals w), sw_sweeper := None\<rparr> | None \<Rightarrow> w)
      in w\<lparr>sw_sweepInProgress := False\<rparr>)"

text \<open>A second start forgets the timeout of the first: stopping leaves it set.\<close>

lemma second_start_survives_stop:
  "sw_timeouts (stopTaskRegistryMaintenanceForTests
     (startTaskRegistryMaintenance (startTaskRegistryMaintenance no_timers))) = [0]"
  by (simp add: no_timers_def startTaskRegistryMaintenance_def stopTaskRegistryMaintenanceForTests_def Let_def)

subsection \<open>What one pass does\<close>

lemma updateTask_other: "j \<noteq> i \<Longrightarrow> jget (tg_tasks (fst (updateTask now i p s))) j = jget (tg_tasks s) j"
  by (simp add: updateTask_tasks split: option.split)

lemma updateTask_restored: "tg_restoreAttempted (fst (updateTask now i p s)) = tg_restoreAttempted s"
proof -
  have "view (fst (updateTask now i p s)) = view s \<or> (\<exists>ts. view (fst (updateTask now i p s)) = view (s\<lparr>tg_tasks := ts\<rparr>))"
    by (auto simp: view_updateTask split: option.split)
  then show ?thesis by (auto simp: view_def)
qed

text \<open>A lost task at \<open>i\<close>, every other task as in \<open>m\<close>: deliveries about \<open>i\<close> keep this.\<close>

fun swept_view :: "string \<Rightarrow> (string, TaskRecord) jsmap \<Rightarrow>
    (string, TaskRecord) jsmap \<times> string list \<times> task_delivery list \<times> bool \<Rightarrow> bool" where
  "swept_view i m (tasks, pend, ds, attempted) \<longleftrightarrow> attempted \<and> (\<forall>j. j \<noteq> i \<longrightarrow> jget tasks j = jget m j) \<and>
     (\<exists>t. jget tasks i = Some t \<and> tr_status t = BT_lost \<and> tr_cleanupAfter t \<noteq> None)"

definition swept :: "string \<Rightarrow> (string, TaskRecord) jsmap \<Rightarrow> task_registry \<Rightarrow> bool" where
  "swept i m s \<longleftrightarrow> swept_view i m (view s)"

lemma swept_cong: "view s' = view s \<Longrightarrow> swept i m s' \<longleftrightarrow> swept i m s"
  by (simp add: swept_def)

lemma swept_pending: "swept i m (s\<lparr>tg_pendingDelivery := x\<rparr>) \<longleftrightarrow> swept i m s" "swept i m (s\<lparr>tg_deliveries := y\<rparr>) \<longleftrightarrow> swept i m s"
  "swept i m (done_pending k s) \<longleftrightarrow> swept i m s" "swept i m (s\<lparr>tg_listening := l\<rparr>) \<longleftrightarrow> swept i m s"
  by (simp_all add: swept_def view_def done_pending_def)

lemma stamp_keeps: "tr_cleanupAfter t \<noteq> None \<Longrightarrow> stamp_cleanup now t = t"
  by (simp add: stamp_cleanup_def)

lemma swept_update:
  assumes "swept i m s" and "pa_status p = None" and "pa_cleanupAfter p = None"
  shows "swept i m (fst (updateTask now i p s))"
proof -
  obtain t where t: "jget (tg_tasks s) i = Some t" "tr_status t = BT_lost" "tr_cleanupAfter t \<noteq> None"
    using assms(1) by (auto simp: swept_def view_def)
  have c: "tr_cleanupAfter (patch_task p t) \<noteq> None" using t(3) assms(3) by (simp add: patch_task_def)
  have "tg_tasks (fst (updateTask now i p s)) = jset (tg_tasks s) i (patch_task p t)"
    by (simp add: updateTask_tasks t(1) stamp_keeps [OF c])
  with assms t c updateTask_restored [of now i p s] show ?thesis
    by (simp add: swept_def view_def)
qed

lemma delivery_patch [simp]: "pa_status (set_delivery now st) = None" "pa_cleanupAfter (set_delivery now st) = None"
  by (simp_all add: set_delivery_def empty_patch_def)

lemma swept_deliver:
  assumes "swept i m s"
  shows "swept i m (maybeDeliverTaskTerminalUpdate now i s)"
proof -
  have r: "ensureTaskRegistryReady s = s\<lparr>tg_listening := True\<rparr>"
    using assms by (simp add: swept_def view_def ensureTaskRegistryReady_def restoreTaskRegistryOnce_def)
  have dt: "swept i m (deliver_terminal now i t s')" if s': "swept i m s'" for t s'
  proof (cases "resolveTaskDeliveryOwner t s'")
    case (Pair s'' owner)
    with view_owner [of t s'] have v: "view s'' = view s'" by simp
    have q: "swept i m s''" using s' swept_cong [OF v] by simp
    have "swept i m (followup_if_blocked t (queueTaskSystemEvent t msg s''))" for msg
      using q swept_cong [of "followup_if_blocked t (queueTaskSystemEvent t msg s'')" s''] by simp
    with s' q Pair show ?thesis
      by (simp add: deliver_terminal_def Let_def swept_pending swept_update split: option.split)
  qed
  show ?thesis
    using assms by (simp add: maybeDeliverTaskTerminalUpdate_def Let_def r swept_pending dt split: option.split)
qed

definition effect_of :: "session_env \<Rightarrow> int \<Rightarrow> TaskRecord \<Rightarrow> sweep_effect" where
  "effect_of env now t =
     (if shouldMarkLost env t now then SW_reconciled else if shouldPruneTerminalTask t now then SW_pruned
      else if shouldStampCleanupAfter t then SW_stamped else SW_none)"

text \<open>Nothing is left to reconcile or to stamp.\<close>

definition settled :: "session_env \<Rightarrow> int \<Rightarrow> TaskRecord \<Rightarrow> bool" where
  "settled env now t \<longleftrightarrow> \<not> shouldMarkLost env t now \<and> \<not> shouldStampCleanupAfter t"

definition passed :: "session_env \<Rightarrow> int \<Rightarrow> TaskRecord \<Rightarrow> string \<Rightarrow> task_registry \<Rightarrow> task_registry \<Rightarrow> bool" where
  "passed env now t i s s' \<longleftrightarrow> reg_inv s' \<and> tg_restoreAttempted s' \<and>
     (\<forall>j. j \<noteq> i \<longrightarrow> jget (tg_tasks s') j = jget (tg_tasks s) j) \<and>
     (case jget (tg_tasks s') i of
        None \<Rightarrow> effect_of env now t = SW_pruned | Some u \<Rightarrow> effect_of env now t \<noteq> SW_pruned \<and> settled env now u)"

lemma ready_restored_id: "tg_restoreAttempted s \<Longrightarrow> ensureTaskRegistryReady s = s\<lparr>tg_listening := True\<rparr>"
  by (simp add: ensureTaskRegistryReady_def restoreTaskRegistryOnce_def)

lemma listening_inv [simp]: "reg_inv (s\<lparr>tg_listening := l\<rparr>) \<longleftrightarrow> reg_inv s"
  by (simp add: reg_inv_def core_def)

lemma inactive_lost: "tr_status t = BT_lost \<Longrightarrow> \<not> isActiveTask t"
  by (simp add: isActiveTask_def)

lemma mark_lost_passed:
  assumes inv: "reg_inv s" and att: "tg_restoreAttempted s" and t: "jget (tg_tasks s) i = Some t"
    and lost: "shouldMarkLost env t now"
  shows "passed env now t i s (fst (markTaskLost clock t now s)) \<and> tr_status (snd (markTaskLost clock t now s)) = BT_lost"
proof -
  let ?r = "s\<lparr>tg_listening := True\<rparr>"
  let ?cl = "or_else (tr_cleanupAfter t) (tr_cleanupAfter (projectTaskLost t now))"
  let ?p = "empty_patch\<lparr>pa_status := Some BT_lost, pa_endedAt := Some (Some (or_value (tr_endedAt t) now)),
    pa_lastEventAt := Some (Some now), pa_error := Some (Some (or_value (tr_error t) ''backing session missing'')),
    pa_cleanupAfter := set_some ?cl\<rparr>"
  let ?u = "stamp_cleanup clock (patch_task ?p t)"
  let ?s1 = "fst (updateTask clock i ?p ?r)"
  have id: "tr_taskId t = i" using inv t by (simp add: reg_inv_def core_def)
  have cl: "?cl \<noteq> None"
    by (cases "tr_cleanupAfter t") (simp_all add: projectTaskLost_def Let_def)
  have mark: "markTaskLostById clock i (or_value (tr_endedAt t) now) (Some now)
      (Some (or_value (tr_error t) ''backing session missing'')) ?cl s = updateTask clock i ?p ?r"
    by (simp add: markTaskLostById_def update_by_id_def ready_restored_id [OF att] set_some_def)
  have res: "snd (updateTask clock i ?p ?r) = Some ?u"
    using t by (simp add: updateTask_def Let_def)
  have uid: "tr_taskId ?u = i" and ust: "tr_status ?u = BT_lost" and ucl: "tr_cleanupAfter ?u \<noteq> None"
    using id cl by (auto simp: empty_patch_def patch_task_def set_some_def stamp_cleanup_def)
  have tasks: "tg_tasks ?s1 = jset (tg_tasks s) i ?u" using t by (simp add: updateTask_tasks)
  have "swept i (tg_tasks s) ?s1"
    using tasks ust ucl att updateTask_restored [of clock i ?p ?r] by (simp add: swept_def view_def)
  from swept_deliver [OF this, of clock]
  have sw: "swept i (tg_tasks s) (maybeDeliverTaskTerminalUpdate clock i ?s1)" .
  have "reg_inv ?r" using inv by simp
  then have "reg_inv ?s1" by (rule updateTask_inv) (simp add: patch_ok_run empty_patch_def)
  then have i1: "reg_inv (maybeDeliverTaskTerminalUpdate clock i ?s1)" by (rule terminal_update_inv)
  have eq: "markTaskLost clock t now s = (maybeDeliverTaskTerminalUpdate clock i ?s1, ?u)"
    using res uid by (simp add: markTaskLost_def Let_def id mark case_prod_beta)
  have eff: "effect_of env now t \<noteq> SW_pruned" using lost by (simp add: effect_of_def)
  obtain v where v: "jget (tg_tasks (maybeDeliverTaskTerminalUpdate clock i ?s1)) i = Some v" "tr_status v = BT_lost"
    "tr_cleanupAfter v \<noteq> None"
    using sw by (auto simp: swept_def view_def)
  then have "settled env now v"
    by (simp add: settled_def shouldMarkLost_def shouldStampCleanupAfter_def inactive_lost)
  with sw i1 eff v ust show ?thesis unfolding eq by (simp add: passed_def swept_def view_def)
qed

lemma sweep_task_passed:
  assumes inv: "reg_inv s" and att: "tg_restoreAttempted s" and t: "jget (tg_tasks s) i = Some t" and trim: "js_trim i = i"
  shows "passed env now t i s (fst (sweep_task env clock now i s)) \<and> snd (sweep_task env clock now i s) = effect_of env now t"
proof -
  let ?r = "s\<lparr>tg_listening := True\<rparr>"
  have id: "tr_taskId t = i" using inv t by (simp add: reg_inv_def core_def)
  have get: "getTaskById i s = (?r, Some t)" using t by (simp add: getTaskById_def Let_def ready_restored_id [OF att] trim)
  have r: "reg_inv ?r" "tg_restoreAttempted ?r" "jget (tg_tasks ?r) i = Some t" using inv att t by simp_all
  have pr: "passed env now t i ?r s' \<Longrightarrow> passed env now t i s s'" for s' by (simp add: passed_def)
  consider (lost) "shouldMarkLost env t now" | (prune) "\<not> shouldMarkLost env t now" "shouldPruneTerminalTask t now"
    | (stamp) "\<not> shouldMarkLost env t now" "\<not> shouldPruneTerminalTask t now" "shouldStampCleanupAfter t"
    | (none) "\<not> shouldMarkLost env t now" "\<not> shouldPruneTerminalTask t now" "\<not> shouldStampCleanupAfter t" by blast
  then show ?thesis
  proof cases
    case lost
    with mark_lost_passed [OF r lost, of clock] get show ?thesis
      by (simp add: sweep_task_def case_prod_beta effect_of_def pr)
  next
    case prune
    have d: "snd (deleteTaskRecordById i ?r)" "tg_tasks (fst (deleteTaskRecordById i ?r)) = jdel (tg_tasks s) i"
      "tg_restoreAttempted (fst (deleteTaskRecordById i ?r))"
      using t att by (simp_all add: deleteTaskRecordById_def Let_def ready_restored_id persistTaskDelete_def
          persistTaskDeliveryStateDelete_def)
    have "reg_inv (fst (deleteTaskRecordById i ?r))" by (rule delete_task_inv [OF r(1)])
    moreover obtain s' where "deleteTaskRecordById i ?r = (s', True)" using d(1) by (cases "deleteTaskRecordById i ?r") auto
    ultimately show ?thesis using prune d(2,3) get id by (simp add: sweep_task_def passed_def effect_of_def)
  next
    case stamp
    let ?p = "empty_patch\<lparr>pa_cleanupAfter := Some (Some (resolveCleanupAfter t))\<rparr>"
    let ?u = "stamp_cleanup clock (patch_task ?p t)"
    have set: "setTaskCleanupAfterById clock i (resolveCleanupAfter t) ?r = updateTask clock i ?p ?r"
      using att by (simp add: setTaskCleanupAfterById_def update_by_id_def ready_restored_id)
    have res: "snd (updateTask clock i ?p ?r) = Some ?u" using t by (simp add: updateTask_def Let_def)
    have tasks: "tg_tasks (fst (updateTask clock i ?p ?r)) = jset (tg_tasks s) i ?u" using t by (simp add: updateTask_tasks)
    have "reg_inv (fst (updateTask clock i ?p ?r))"
      by (rule updateTask_inv [OF r(1)]) (simp add: patch_ok_run empty_patch_def)
    moreover have "tg_restoreAttempted (fst (updateTask clock i ?p ?r))" using updateTask_restored att by simp
    moreover have "settled env now ?u"
      using stamp by (auto simp: settled_def shouldMarkLost_def shouldStampCleanupAfter_def isActiveTask_def
          stamp_cleanup_def patch_task_def empty_patch_def)
    moreover obtain s' where "updateTask clock i ?p ?r = (s', Some ?u)" using res by (cases "updateTask clock i ?p ?r") auto
    ultimately show ?thesis using stamp get id set tasks by (simp add: sweep_task_def passed_def effect_of_def)
  next
    case none
    with get r t att inv show ?thesis by (simp add: sweep_task_def passed_def effect_of_def settled_def)
  qed
qed

subsection \<open>The whole sweep\<close>

abbreviation no_yields :: "nat \<Rightarrow> task_op list" where
  "no_yields \<equiv> \<lambda>_. []"

lemma effect_not_gone: "effect_of env now t \<noteq> SW_gone"
  by (simp add: effect_of_def)

lemma preview_effect: "preview_step env now t m = count_effect (effect_of env now t) m"
  by (simp add: preview_step_def count_effect_def effect_of_def)

lemma sweep_loop_passed:
  assumes "reg_inv s" and "tg_restoreAttempted s" and "distinct (map tr_taskId ts)"
    and "\<And>t. t \<in> set ts \<Longrightarrow> jget (tg_tasks s) (tr_taskId t) = Some t \<and> js_trim (tr_taskId t) = tr_taskId t"
  shows "snd (sweep_loop env clock now no_yields ts k m s) = fold (preview_step env now) ts m \<and>
    reg_inv (fst (sweep_loop env clock now no_yields ts k m s)) \<and>
    tg_restoreAttempted (fst (sweep_loop env clock now no_yields ts k m s)) \<and>
    (\<forall>t\<in>set ts. case jget (tg_tasks (fst (sweep_loop env clock now no_yields ts k m s))) (tr_taskId t) of
        None \<Rightarrow> effect_of env now t = SW_pruned
      | Some u \<Rightarrow> effect_of env now t \<noteq> SW_pruned \<and> settled env now u) \<and>
    (\<forall>j. j \<notin> tr_taskId ` set ts \<longrightarrow>
       jget (tg_tasks (fst (sweep_loop env clock now no_yields ts k m s))) j = jget (tg_tasks s) j)"
  using assms
proof (induction ts arbitrary: k m s)
  case (Cons t ts)
  let ?i = "tr_taskId t"
  obtain s' e where st: "sweep_task env clock now ?i s = (s', e)" by fastforce
  have here: "jget (tg_tasks s) ?i = Some t" "js_trim ?i = ?i" using Cons.prems(4) by simp_all
  from sweep_task_passed [OF Cons.prems(1,2) here, of env now clock] st
  have p: "passed env now t ?i s s'" and e: "e = effect_of env now t" by simp_all
  have step: "sweep_loop env clock now no_yields (t # ts) k m s =
      sweep_loop env clock now no_yields ts (k + 1) (preview_step env now t m) s'"
    using e effect_not_gone [of env now t] by (cases e) (simp_all add: st preview_effect Let_def)
  have dist: "?i \<notin> tr_taskId ` set ts" "distinct (map tr_taskId ts)" using Cons.prems(3) by simp_all
  have rest: "jget (tg_tasks s') (tr_taskId u) = Some u \<and> js_trim (tr_taskId u) = tr_taskId u" if "u \<in> set ts" for u
  proof -
    have "tr_taskId u \<noteq> ?i" using dist(1) that by (metis image_eqI)
    then have "jget (tg_tasks s') (tr_taskId u) = jget (tg_tasks s) (tr_taskId u)" using p by (simp add: passed_def)
    with Cons.prems(4) [of u] that show ?thesis by simp
  qed
  have inv: "reg_inv s'" "tg_restoreAttempted s'" using p by (simp_all add: passed_def)
  note IH = Cons.IH [OF inv dist(2) rest, of "k + 1" "preview_step env now t m"]
  have "jget (tg_tasks (fst (sweep_loop env clock now no_yields (t # ts) k m s))) ?i = jget (tg_tasks s') ?i"
    using IH dist(1) unfolding step by blast
  moreover have "jget (tg_tasks s') j = jget (tg_tasks s) j" if "j \<noteq> ?i" for j using p that by (simp add: passed_def)
  ultimately show ?case
    using IH p unfolding step by (auto simp: passed_def)
qed simp

lemma listed_tasks:
  assumes "reg_inv s"
  shows "distinct (map tr_taskId (snd (listTaskRecords s)))"
    and "t \<in> set (snd (listTaskRecords s)) \<longleftrightarrow> jget (tg_tasks (ensureTaskRegistryReady s)) (tr_taskId t) = Some t"
proof -
  let ?r = "ensureTaskRegistryReady s" let ?m = "tg_tasks ?r"
  have inv: "reg_inv ?r" by (rule ready_reg_inv [OF assms])
  then have wf: "jwf ?m" and ids: "\<And>k v. jget ?m k = Some v \<Longrightarrow> tr_taskId v = k"
    unfolding reg_inv_def core_def core_ok.simps by blast+
  have list: "snd (listTaskRecords s) = newest_first (jvals ?m)" by (simp add: listTaskRecords_def Let_def)
  have "mset (newest_first (jvals ?m)) = mset (jvals ?m)" by (simp add: newest_first_def)
  then have "mset (map tr_taskId (newest_first (jvals ?m))) = mset (map tr_taskId (jvals ?m))" by (simp only: mset_map)
  moreover have "map tr_taskId (jvals ?m) = jkeys ?m" using wf ids by (rule keys_of_wf)
  moreover have "distinct (jkeys ?m)" using wf unfolding jwf_def .
  ultimately show "distinct (map tr_taskId (snd (listTaskRecords s)))"
    unfolding list using mset_eq_imp_distinct_iff by metis
  show "t \<in> set (snd (listTaskRecords s)) \<longleftrightarrow> jget ?m (tr_taskId t) = Some t"
    unfolding list newest_set using jvals_mem [OF wf, of t] ids by blast
qed

lemma settled_preview:
  "\<forall>t\<in>set ts. settled env now t \<Longrightarrow> mt_reconciled (fold (preview_step env now) ts m) = mt_reconciled m \<and>
     mt_cleanupStamped (fold (preview_step env now) ts m) = mt_cleanupStamped m"
  by (induction ts arbitrary: m) (simp_all add: settled_def preview_step_def)

lemma run_facts:
  assumes inv: "reg_inv s" and trim: "\<forall>t\<in>set (snd (listTaskRecords s)). js_trim (tr_taskId t) = tr_taskId t"
    and s'_def: "s' = fst (runTaskRegistryMaintenance env clock now no_yields s)"
  shows "snd (runTaskRegistryMaintenance env clock now no_yields s) = snd (previewTaskRegistryMaintenance env now s)"
    and "reg_inv s'" and "\<forall>t\<in>set (snd (listTaskRecords s')). settled env now t"
    and "tr_taskId ` set (snd (listTaskRecords s')) =
      tr_taskId ` {t \<in> set (snd (listTaskRecords s)). effect_of env now t \<noteq> SW_pruned}"
proof -
  let ?r = "ensureTaskRegistryReady s" let ?ts = "snd (listTaskRecords s)"
  have ri: "reg_inv ?r" by (rule ready_reg_inv [OF inv])
  have rr: "ensureTaskRegistryReady ?r = ?r"
    using ready_restored_id [OF ready_restored [of s]] by (simp add: ensureTaskRegistryReady_def)
  have list: "listTaskRecords ?r = (?r, ?ts)" by (simp add: listTaskRecords_def Let_def rr)
  have run: "runTaskRegistryMaintenance env clock now no_yields s = sweep_loop env clock now no_yields ?ts 0 no_maintenance ?r"
    by (simp add: runTaskRegistryMaintenance_def list)
  have mem: "jget (tg_tasks ?r) (tr_taskId t) = Some t \<and> js_trim (tr_taskId t) = tr_taskId t" if "t \<in> set ?ts" for t
    using that trim listed_tasks(2) [OF inv] by blast
  note loop = sweep_loop_passed [OF ri ready_restored listed_tasks(1) [OF inv] mem, of env clock now 0 no_maintenance, folded run s'_def]
  show "snd (runTaskRegistryMaintenance env clock now no_yields s) = snd (previewTaskRegistryMaintenance env now s)"
    using loop by (simp add: previewTaskRegistryMaintenance_def list)
  show i': "reg_inv s'" using loop by blast
  have ids: "tr_taskId t = j" if "jget (tg_tasks s') j = Some t" for t j
    using i' that by (simp add: reg_inv_def core_def)
  have rids: "tr_taskId t = j" if "jget (tg_tasks ?r) j = Some t" for t j
    using ri that by (simp add: reg_inv_def core_def)
  have same: "tg_tasks (ensureTaskRegistryReady s') = tg_tasks s'"
    using loop by (simp add: ready_restored_id)
  have in': "t \<in> set (snd (listTaskRecords s')) \<longleftrightarrow> jget (tg_tasks s') (tr_taskId t) = Some t" for t
    using listed_tasks(2) [OF i', of t] same by simp
  have src: "\<exists>u\<in>set ?ts. tr_taskId u = j" if "jget (tg_tasks s') j = Some t" for j t
  proof (rule ccontr)
    assume n: "\<not> (\<exists>u\<in>set ?ts. tr_taskId u = j)"
    then have "j \<notin> tr_taskId ` set ?ts" by blast
    then have "jget (tg_tasks s') j = jget (tg_tasks ?r) j" using loop by blast
    then have "jget (tg_tasks ?r) j = Some t" using that by simp
    with n listed_tasks(2) [OF inv, of t] rids [OF this] show False by blast
  qed
  have fate: "case jget (tg_tasks s') (tr_taskId u) of None \<Rightarrow> effect_of env now u = SW_pruned
      | Some v \<Rightarrow> effect_of env now u \<noteq> SW_pruned \<and> settled env now v" if "u \<in> set ?ts" for u
    using loop that by blast
  show "\<forall>t\<in>set (snd (listTaskRecords s')). settled env now t"
  proof
    fix t assume "t \<in> set (snd (listTaskRecords s'))"
    then have t: "jget (tg_tasks s') (tr_taskId t) = Some t" using in' by blast
    from src [OF this] obtain u where "u \<in> set ?ts" "tr_taskId u = tr_taskId t" by blast
    with fate [of u] t show "settled env now t" by simp
  qed
  show "tr_taskId ` set (snd (listTaskRecords s')) = tr_taskId ` {t \<in> set ?ts. effect_of env now t \<noteq> SW_pruned}"
  proof (intro set_eqI iffI)
    fix j assume "j \<in> tr_taskId ` set (snd (listTaskRecords s'))"
    then obtain t where t: "jget (tg_tasks s') j = Some t" using in' by blast
    from src [OF this] obtain u where "u \<in> set ?ts" "tr_taskId u = j" by blast
    with fate [of u] t show "j \<in> tr_taskId ` {t \<in> set ?ts. effect_of env now t \<noteq> SW_pruned}" by auto
  next
    fix j assume "j \<in> tr_taskId ` {t \<in> set ?ts. effect_of env now t \<noteq> SW_pruned}"
    then obtain u where u: "u \<in> set ?ts" "effect_of env now u \<noteq> SW_pruned" "tr_taskId u = j" by blast
    with fate [of u] obtain t where "jget (tg_tasks s') j = Some t" by (auto split: option.splits)
    with ids in' show "j \<in> tr_taskId ` set (snd (listTaskRecords s'))" by blast
  qed
qed

text \<open>C35: The maintenance does what its preview announces. On a registry restored from any well-formed table and
  changed by any history of operations, a sweep during which nothing else runs reports the counts of the preview;
  afterwards nothing is left to reconcile or to stamp; and the tasks that are gone are exactly those whose removal was
  due: terminal tasks past their time, and no task that was just found lost.\<close>

theorem maintenance_as_previewed:
  assumes "jwf rows" and "\<And>i row. jget rows i = Some row \<Longrightarrow> rw_task_id row = i"
    and "legal_run task_ok task_apply (fresh_task_process tenv rows drows fails fs) xs"
    and "s = fold task_apply xs (fresh_task_process tenv rows drows fails fs)"
    and "\<forall>t\<in>set (snd (listTaskRecords s)). js_trim (tr_taskId t) = tr_taskId t"
    and "s' = fst (runTaskRegistryMaintenance env clock now (\<lambda>_. []) s)"
  shows "snd (runTaskRegistryMaintenance env clock now (\<lambda>_. []) s) = snd (previewTaskRegistryMaintenance env now s) \<and>
    mt_reconciled (snd (previewTaskRegistryMaintenance env now s')) = 0 \<and>
    mt_cleanupStamped (snd (previewTaskRegistryMaintenance env now s')) = 0 \<and>
    tr_taskId ` set (snd (listTaskRecords s')) =
      tr_taskId ` {t \<in> set (snd (listTaskRecords s)). shouldMarkLost env t now \<or> \<not> shouldPruneTerminalTask t now}"
proof -
  have "reg_inv (fresh_task_process tenv rows drows fails fs)" using assms(1,2) by (rule reg_inv_fresh)
  then have inv: "reg_inv s" unfolding assms(4) using assms(3) by (intro task_machine.inv_legal_run)
  note facts = run_facts [OF inv assms(5,6)]
  have "effect_of env now t \<noteq> SW_pruned \<longleftrightarrow> shouldMarkLost env t now \<or> \<not> shouldPruneTerminalTask t now" for t
    by (simp add: effect_of_def)
  with facts(1,4) settled_preview [OF facts(3), of no_maintenance]
  show ?thesis by (simp add: previewTaskRegistryMaintenance_def listTaskRecords_def Let_def no_maintenance_def
      ready_restored_id ready_restored)
qed

definition demo_task_row :: "string \<Rightarrow> BgTaskStatus \<Rightarrow> int \<Rightarrow> int option \<Rightarrow> TaskRegistryRow" where
  "demo_task_row i st created cleanup =
     (bindTaskRecord (new_task_record created i ''main'' SK_session ''main'' ((demo_params i)\<lparr>kp_status := Some st\<rparr>)))
       \<lparr>rw_cleanup_after := cleanup\<rparr>"

definition demo_rows :: task_table where
  "demo_rows = [(''a'', demo_task_row ''a'' BT_running 0 None), (''b'', demo_task_row ''b'' BT_failed 999990 None),
     (''c'', demo_task_row ''c'' BT_succeeded 0 (Some 500)), (''d'', demo_task_row ''d'' BT_running 999999 None)]"

definition demo_sessions :: session_env where
  "demo_sessions = \<lparr>sx_acpEntry = (\<lambda>_. Some False), sx_store = (\<lambda>_. [])\<rparr>"

lemma maintenance_as_previewed_witness:
  "snd (runTaskRegistryMaintenance demo_sessions 1000001 1000000 (\<lambda>_. [])
      (fresh_task_process demo_env demo_rows [] False (fresh_flow_process [] None))) =
    \<lparr>mt_reconciled = 1, mt_cleanupStamped = 1, mt_pruned = 1\<rparr>"
proof -
  let ?w = "fresh_task_process demo_env demo_rows [] False (fresh_flow_process [] None)"
  have rows: "jwf demo_rows" by code_simp
  have keys: "rw_task_id row = i" if "jget demo_rows i = Some row" for i row
    using that by (auto simp: demo_rows_def demo_task_row_def bindTaskRecord_def split: if_splits)
  have ids: "list_all (\<lambda>t. js_trim (tr_taskId t) = tr_taskId t) (snd (listTaskRecords ?w))" by code_simp
  have "legal_run task_ok task_apply ?w []" by simp
  from maintenance_as_previewed [OF rows keys this _ _ refl, of ?w demo_sessions 1000001 1000000] ids
  have "snd (runTaskRegistryMaintenance demo_sessions 1000001 1000000 (\<lambda>_. []) ?w) =
      snd (previewTaskRegistryMaintenance demo_sessions 1000000 ?w)"
    by (simp add: list_all_iff)
  moreover have "snd (previewTaskRegistryMaintenance demo_sessions 1000000 ?w) =
      \<lparr>mt_reconciled = 1, mt_cleanupStamped = 1, mt_pruned = 1\<rparr>" by code_simp
  ultimately show ?thesis by simp
qed

end
