(* ===== verification/TaskFlowSync.thy ===== *)
theory TaskFlowSync
  imports TaskMaintenance
begin

text \<open>
  Tasks and flows together: the task registry (\<open>src/src/tasks/task-registry.ts\<close>) changes flows only through the
  operations of the flow registry (\<open>task-flow-registry.ts\<close>), so every history of tasks projects to a history of
  flows.
\<close>

subsection \<open>Flows change only through their interface\<close>

named_theorems flow_runs

text \<open>A run of flow operations that creates no flow.\<close>

definition flow_run :: "flow_registry \<Rightarrow> flow_registry \<Rightarrow> bool" where
  "flow_run a b \<longleftrightarrow> (\<exists>ys. b = fold flow_apply ys a \<and> (\<forall>y\<in>set ys. flow_creates y = None))"

lemma run_refl [simp, intro]: "flow_run a a"
  unfolding flow_run_def by (rule exI [of _ "[]"]) simp

lemma run_step: "flow_run a b \<Longrightarrow> flow_creates y = None \<Longrightarrow> c = flow_apply y b \<Longrightarrow> flow_run a c"
proof -
  assume "flow_run a b" "flow_creates y = None" "c = flow_apply y b"
  then obtain ys where "b = fold flow_apply ys a" "\<forall>y\<in>set ys. flow_creates y = None" unfolding flow_run_def by blast
  with \<open>flow_creates y = None\<close> \<open>c = flow_apply y b\<close> show ?thesis
    unfolding flow_run_def by (intro exI [of _ "ys @ [y]"]) simp
qed

text \<open>The flows of a registry are reached from \<open>a\<close>.\<close>

definition from_flows :: "flow_registry \<Rightarrow> task_registry \<Rightarrow> bool" where
  "from_flows a s \<longleftrightarrow> flow_run a (tg_flows s)"

lemma from_same: "tg_flows s' = tg_flows s \<Longrightarrow> from_flows a s' \<longleftrightarrow> from_flows a s"
  by (simp add: from_flows_def)

lemma from_fields [simp]:
  "from_flows a (s\<lparr>tg_tasks := b\<rparr>) \<longleftrightarrow> from_flows a s" "from_flows a (s\<lparr>tg_events := e\<rparr>) \<longleftrightarrow> from_flows a s"
  "from_flows a (s\<lparr>tg_deliveries := d\<rparr>) \<longleftrightarrow> from_flows a s" "from_flows a (s\<lparr>tg_pendingDelivery := p\<rparr>) \<longleftrightarrow> from_flows a s"
  "from_flows a (s\<lparr>tg_listening := l\<rparr>) \<longleftrightarrow> from_flows a s" "from_flows a (done_pending i s) \<longleftrightarrow> from_flows a s"
  "from_flows a (add_event ev s) \<longleftrightarrow> from_flows a s" "from_flows a (set_delivery_phase k ph s) \<longleftrightarrow> from_flows a s"
  "from_flows a (persistTaskUpsert t s) \<longleftrightarrow> from_flows a s" "from_flows a (reindex_task pt i c n s) \<longleftrightarrow> from_flows a s"
  "from_flows a (upsertTaskDeliveryState i org n' s) \<longleftrightarrow> from_flows a s"
  by (simp_all add: from_flows_def done_pending_def add_event_def set_delivery_phase_def persistTaskUpsert_def
      reindex_task_def upsertTaskDeliveryState_def persistTaskDeliveryStateUpsert_def Let_def)

lemma from_restore [simp]: "from_flows a (restoreTaskRegistryOnce s) \<longleftrightarrow> from_flows a s"
  by (simp add: from_flows_def restoreTaskRegistryOnce_def Let_def)

lemma from_ready [simp]: "from_flows a (ensureTaskRegistryReady s) \<longleftrightarrow> from_flows a s"
  by (simp add: ensureTaskRegistryReady_def)

lemma from_read: "from_flows a s \<Longrightarrow> from_flows a (s\<lparr>tg_flows := ensureFlowRegistryReady (tg_flows s)\<rparr>)"
  unfolding from_flows_def by (erule run_step [of _ _ FL_read]) simp_all

lemma from_sync: "from_flows a s \<Longrightarrow> from_flows a (s\<lparr>tg_flows := fst (syncFlowFromTask now t (tg_flows s))\<rparr>)"
  unfolding from_flows_def by (erule run_step [of _ _ "FL_sync now t"]) simp_all

lemma from_expected:
  "from_flows a s \<Longrightarrow> from_flows a (s\<lparr>tg_flows := fst (updateFlowRecordByIdExpectedRevision now i n p (tg_flows s))\<rparr>)"
  unfolding from_flows_def by (erule run_step [of _ _ "FL_update now i n p"]) simp_all

lemma from_lookup [flow_runs]: "from_flows a s \<Longrightarrow> from_flows a (fst (lookup_flow i s))"
  using from_read [of a s] by (simp add: lookup_flow_def getTaskFlowById_def Let_def)

lemma from_link [flow_runs]: "from_flows a s \<Longrightarrow> from_flows a (fst (assertParentFlowLinkAllowed k sc p s))"
proof (cases "normalizeText p")
  case (Some i)
  assume f: "from_flows a s"
  show ?thesis
  proof (cases "lookup_flow i s")
    case (Pair s' r)
    with from_lookup [OF f, of i] f Some show ?thesis by (cases r) (simp_all add: assertParentFlowLinkAllowed_def)
  qed
qed (simp add: assertParentFlowLinkAllowed_def)

lemma from_attempts [flow_runs]: "from_flows a s \<Longrightarrow> from_flows a (cancel_attempts n now e i f s)"
proof (induction n arbitrary: f s)
  case (Suc n)
  obtain fs r where u: "updateFlowRecordByIdExpectedRevision now i (tf_revision f) (cancel_patch e) (tg_flows s) = (fs, r)"
    by fastforce
  have "from_flows a (s\<lparr>tg_flows := fs\<rparr>)"
    using from_expected [OF Suc.prems, of now i "tf_revision f" "cancel_patch e"] u by simp
  with u Suc.IH show ?case
    by (cases r) (auto simp: Let_def split: TaskFlowUpdateResult.split)
qed simp

lemma from_managed [flow_runs]: "from_flows a s \<Longrightarrow> from_flows a (syncManagedFlowCancellationFromTask now t s)"
proof (cases "normalizeText (tr_parentFlowId t)")
  case (Some i)
  assume f: "from_flows a s"
  show ?thesis
  proof (cases "lookup_flow i s")
    case (Pair s' r)
    with from_lookup [OF f, of i] have "from_flows a s'" by simp
    with Some Pair show ?thesis
      by (cases r) (simp_all add: syncManagedFlowCancellationFromTask_def from_attempts)
  qed
qed (simp add: syncManagedFlowCancellationFromTask_def)

lemma from_update [flow_runs]: "from_flows a s \<Longrightarrow> from_flows a (fst (updateTask now i p s))"
proof (cases "jget (tg_tasks s) i")
  case (Some c)
  assume f: "from_flows a s"
  let ?n = "stamp_cleanup now (patch_task p c)" let ?s = "persistTaskUpsert ?n (reindex_task p i c ?n s)"
  have "from_flows a ?s" using f by simp
  from from_managed [OF from_sync [OF this, of now ?n], of now ?n] Some show ?thesis
    by (simp add: updateTask_def Let_def)
qed (simp add: updateTask_def)

lemma from_linked [flow_runs]: "from_flows a s \<Longrightarrow> from_flows a (fst (getLinkedFlowForDelivery t s))"
proof (cases "normalizeText (tr_parentFlowId t)")
  case (Some i)
  assume f: "from_flows a s"
  show ?thesis
  proof (cases "lookup_flow i s")
    case (Pair s' r)
    with from_lookup [OF f, of i] f Some show ?thesis by (cases r) (simp_all add: getLinkedFlowForDelivery_def)
  qed
qed (simp add: getLinkedFlowForDelivery_def)

lemma from_owner [flow_runs]: "from_flows a s \<Longrightarrow> from_flows a (fst (resolveTaskDeliveryOwner t s))"
proof -
  assume f: "from_flows a s"
  show ?thesis
  proof (cases "getLinkedFlowForDelivery t s")
    case (Pair s' r)
    with from_linked [OF f, of t] show ?thesis by (cases r) (simp_all add: resolveTaskDeliveryOwner_def)
  qed
qed

lemma from_key [flow_runs]: "from_flows a s \<Longrightarrow> from_flows a (fst (resolveTaskTerminalIdempotencyKey t s))"
  using from_owner [of a s t] by (simp add: resolveTaskTerminalIdempotencyKey_def case_prod_beta)

lemma from_queue [flow_runs]: "from_flows a s \<Longrightarrow> from_flows a (queueTaskSystemEvent t msg s)"
  using from_owner [of a s t] by (simp add: queueTaskSystemEvent_def case_prod_beta split: option.split)

lemma from_followup [flow_runs]: "from_flows a s \<Longrightarrow> from_flows a (followup_if_blocked t s)"
  using from_owner [of a s t]
  by (simp add: followup_if_blocked_def queueBlockedTaskFollowup_def case_prod_beta split: option.split)

subsection \<open>Every task operation\<close>

lemma from_terminal [flow_runs]: "from_flows a s \<Longrightarrow> from_flows a (maybeDeliverTaskTerminalUpdate now i s)"
proof -
  have dt: "from_flows a s' \<Longrightarrow> from_flows a (deliver_terminal now i t s')" for t s'
  proof -
    assume f: "from_flows a s'"
    show ?thesis
    proof (cases "resolveTaskDeliveryOwner t s'")
      case (Pair s'' owner)
      with from_owner [OF f, of t] have "from_flows a s''" by simp
      with f Pair show ?thesis by (simp add: deliver_terminal_def Let_def flow_runs split: option.split)
    qed
  qed
  assume "from_flows a s"
  then show ?thesis by (simp add: maybeDeliverTaskTerminalUpdate_def Let_def dt split: option.split)
qed

lemma from_state [flow_runs]: "from_flows a s \<Longrightarrow> from_flows a (maybeDeliverTaskStateChangeUpdate now i e s)"
proof -
  assume "from_flows a s"
  then have f: "from_flows a (ensureTaskRegistryReady s)" by simp
  let ?s = "ensureTaskRegistryReady s"
  show ?thesis
  proof (cases "jget (tg_tasks ?s) i")
    case (Some t)
    show ?thesis
    proof (cases "resolveTaskDeliveryOwner t ?s")
      case (Pair s' owner)
      with from_owner [OF f, of t] have "from_flows a s'" by simp
      with f Some Pair show ?thesis
        by (cases e) (simp_all add: maybeDeliverTaskStateChangeUpdate_def Let_def flow_runs split: option.split)
    qed
  qed (use f in \<open>simp add: maybeDeliverTaskStateChangeUpdate_def Let_def\<close>)
qed

lemma from_loaded [flow_runs]: "from_flows a s \<Longrightarrow> from_flows a (delivery_loaded k s)"
  by (auto simp: delivery_loaded_def Let_def case_prod_beta flow_runs split: option.split)

lemma from_sent [flow_runs]: "from_flows a s \<Longrightarrow> from_flows a (delivery_sent now k s)"
  by (auto simp: delivery_sent_def Let_def flow_runs split: option.split delivery_phase.split)

lemma from_failed [flow_runs]: "from_flows a s \<Longrightarrow> from_flows a (delivery_failed now k s)"
  by (auto simp: delivery_failed_def Let_def flow_runs split: option.split delivery_phase.split)

lemma from_by_id [flow_runs]: "from_flows a s \<Longrightarrow> from_flows a (fst (update_by_id now i p s))"
  by (simp add: update_by_id_def flow_runs)

lemma from_notify [flow_runs]: "from_flows a s \<Longrightarrow> from_flows a (fst (update_and_notify now i p e s))"
proof (cases "updateTask now i p s")
  case (Pair s' r)
  assume f: "from_flows a s"
  have "from_flows a s'" using from_update [OF f, of now i p] Pair by simp
  with Pair show ?thesis by (cases r) (simp_all add: update_and_notify_def flow_runs)
qed

lemma from_merge [flow_runs]: "from_flows a s \<Longrightarrow> from_flows a (fst (mergeExistingTaskForCreate now t p s))"
proof -
  assume f: "from_flows a s"
  have up: "from_flows a (fst (case updateTask now (tr_taskId t) (merge_patch t p) s' of
      (s, r) \<Rightarrow> (s, Inr (or_value r t) :: task_error + TaskRecord)))" if "from_flows a s'" for s'
    using from_update [OF that, of now "tr_taskId t" "merge_patch t p"] by (simp add: case_prod_beta)
  show ?thesis
    unfolding mergeExistingTaskForCreate_def Let_def
    by (rule and_then_keeps [where P = "from_flows a"]) (simp_all add: f flow_runs up)
qed

lemma from_insert [flow_runs]: "from_flows a s \<Longrightarrow> from_flows a (insert_task now r org s)"
proof -
  assume f: "from_flows a s"
  have "tg_flows (upsertTaskDeliveryState i o' n s) = tg_flows s" for i o' n s
    by (simp add: upsertTaskDeliveryState_def persistTaskDeliveryStateUpsert_def Let_def)
  then have "tg_flows (insert_task now r org s) = fst (syncFlowFromTask now r (tg_flows s))"
    by (simp add: insert_task_def Let_def persistTaskUpsert_def)
  with from_sync [OF f, of now r] show ?thesis by (simp add: from_flows_def)
qed

lemma from_create [flow_runs]: "from_flows a s \<Longrightarrow> from_flows a (fst (createTaskRecord now uuid p s))"
proof -
  assume f: "from_flows a s"
  show ?thesis
    unfolding createTaskRecord_def Let_def
    by (rule if_split [THEN iffD2], intro conjI impI, simp add: f)
      (rule and_then_keeps [where P = "from_flows a"], simp_all add: f flow_runs split: option.split)
qed

lemma from_link_op [flow_runs]: "from_flows a s \<Longrightarrow> from_flows a (fst (linkTaskToFlowById now i f s))"
proof -
  assume fr: "from_flows a s"
  have up: "from_flows a (fst (case updateTask now i (empty_patch\<lparr>pa_parentFlowId := v\<rparr>) s' of
      (s, t) \<Rightarrow> (s, Inr t :: task_error + TaskRecord option)))" if "from_flows a s'" for s' v
    using from_update [OF that, of now i "empty_patch\<lparr>pa_parentFlowId := v\<rparr>"] by (simp add: case_prod_beta)
  have "from_flows a (fst (and_then (assertParentFlowLinkAllowed b c d (ensureTaskRegistryReady s))
      (\<lambda>_ s. case updateTask now i (empty_patch\<lparr>pa_parentFlowId := v\<rparr>) s of (s, t) \<Rightarrow> (s, Inr t))))" for b c d v
    by (rule and_then_keeps [where P = "from_flows a"]) (simp_all add: fr flow_runs up)
  with fr show ?thesis by (simp add: linkTaskToFlowById_def Let_def split: option.split)
qed

lemma from_delete [flow_runs]: "from_flows a s \<Longrightarrow> from_flows a (fst (deleteTaskRecordById i s))"
proof -
  assume "from_flows a s"
  then have "from_flows a (ensureTaskRegistryReady s)" by simp
  then show ?thesis
    by (simp add: deleteTaskRecordById_def Let_def from_flows_def persistTaskDelete_def persistTaskDeliveryStateDelete_def
        split: option.split)
qed

lemma from_finish [flow_runs]: "from_flows a s \<Longrightarrow> from_flows a (fst (finish_cancel now t out s))"
proof (cases "updateTask now (tr_taskId t) (empty_patch\<lparr>pa_status := Some BT_cancelled, pa_endedAt := Some (Some now),
    pa_lastEventAt := Some (Some now), pa_error := Some (Some ''Cancelled by operator.'')\<rparr>) s")
  case (Pair s' r)
  assume f: "from_flows a s"
  with from_update [OF f, of now "tr_taskId t" "empty_patch\<lparr>pa_status := Some BT_cancelled, pa_endedAt := Some (Some now),
    pa_lastEventAt := Some (Some now), pa_error := Some (Some ''Cancelled by operator.'')\<rparr>"] Pair
  have "from_flows a s'" by simp
  with f Pair show ?thesis by (cases r; cases out) (simp_all add: finish_cancel_def Let_def flow_runs)
qed

fun calls_flows :: "task_op \<Rightarrow> bool" where
  "calls_flows (K_flow y) = True"
| "calls_flows x = False"

lemma calls_flowsE: "calls_flows x \<Longrightarrow> (\<And>y. x = K_flow y \<Longrightarrow> P) \<Longrightarrow> P"
  by (cases x) auto

lemma from_apply: "from_flows a s \<Longrightarrow> \<not> calls_flows x \<Longrightarrow> from_flows a (task_apply x s)"
proof (cases x)
  case (K_state now r rt k p)
  assume "from_flows a s"
  with K_state show ?thesis
    by (simp add: updateTaskStateByRunId_def Let_def for_each_inv [where P = "from_flows a"] flow_runs)
next
  case (K_deliveryStatus now r rt k st)
  have up: "from_flows a s' \<Longrightarrow> from_flows a (fst (case updateTask now i (empty_patch\<lparr>pa_deliveryStatus := v\<rparr>) s' of
      (s, r) \<Rightarrow> (s, opt_list r)))" for i v s'
    using from_update [of a s' now i] by (simp add: case_prod_beta)
  assume "from_flows a s"
  with K_deliveryStatus up show ?thesis
    by (simp add: setTaskRunDeliveryStatusByRunId_def Let_def for_each_inv [where P = "from_flows a"])
next
  case (K_event now e)
  assume "from_flows a s"
  with K_event show ?thesis
    by (simp add: onAgentEvent_def Let_def for_each_inv [where P = "from_flows a"] flow_runs)
qed (simp_all add: setTaskProgressById_def setTaskTimingById_def setTaskCleanupAfterById_def markTaskTerminalById_def
    markTaskLostById_def updateTaskNotifyPolicyById_def flow_runs)


text \<open>So the invariant of the flows holds after any history of tasks.\<close>

lemma flows_kept: "from_flows (tg_flows s) s' \<Longrightarrow> flow_inv (tg_flows s) \<Longrightarrow> flow_inv (tg_flows s')"
  unfolding from_flows_def flow_run_def by (elim exE conjE, simp only:, rule flow_machine.inv_run)

lemma flow_inv_task_apply: "flow_inv (tg_flows s) \<Longrightarrow> flow_inv (tg_flows (task_apply x s))"
proof (cases "calls_flows x")
  case True
  assume "flow_inv (tg_flows s)"
  moreover from True obtain y where "x = K_flow y" by (rule calls_flowsE)
  ultimately show ?thesis by (simp add: flow_apply_inv)
next
  case False
  assume inv: "flow_inv (tg_flows s)"
  have "from_flows (tg_flows s) (task_apply x s)" by (rule from_apply [OF _ False]) (simp add: from_flows_def)
  then show ?thesis using inv by (rule flows_kept)
qed

interpretation both_machine: guarded_machine task_ok task_apply "\<lambda>s. reg_inv s \<and> flow_inv (tg_flows s)"
  by unfold_locales (simp add: task_apply_inv flow_inv_task_apply)

interpretation flows_of_tasks: op_machine task_apply "\<lambda>s. flow_inv (tg_flows s)"
  by unfold_locales (rule flow_inv_task_apply)

end
