(* ===== verification/TaskFlowMaintenance.thy ===== *)
theory TaskFlowMaintenance
  imports TaskFlowSync
begin

text \<open>
  The sweep over the task flows (\<open>src/src/tasks/task-flow-registry.maintenance.ts\<close>): a managed flow whose
  cancellation was requested becomes cancelled once none of its tasks is active, and a flow that ended a week ago is
  removed. The sweep has no await, so nothing runs in between.
\<close>

subsection \<open>Decisions\<close>

definition TASK_FLOW_RETENTION_MS :: int where "TASK_FLOW_RETENTION_MS = 7 * 24 * 60 * 60000"

record TaskFlowRegistryMaintenanceSummary =
  fm_reconciled :: nat
  fm_pruned :: nat

definition isTerminalFlow :: "TaskFlowRecord \<Rightarrow> bool" where
  "isTerminalFlow flow \<longleftrightarrow> tf_status flow = FS_succeeded \<or> tf_status flow = FS_failed \<or>
     tf_status flow = FS_cancelled \<or> tf_status flow = FS_lost"

definition hasActiveLinkedTasks :: "string \<Rightarrow> task_registry \<Rightarrow> task_registry \<times> bool" where
  "hasActiveLinkedTasks flowId s =
     (case listTasksForFlowId flowId s of
        (s, ts) \<Rightarrow> (s, list_ex (\<lambda>t. tr_status t = BT_queued \<or> tr_status t = BT_running) ts))"

definition resolveTerminalAt :: "TaskFlowRecord \<Rightarrow> int" where
  "resolveTerminalAt flow = or_value (tf_endedAt flow) (tf_updatedAt flow)"

definition shouldPruneFlow :: "int \<Rightarrow> TaskFlowRecord \<Rightarrow> task_registry \<Rightarrow> task_registry \<times> bool" where
  "shouldPruneFlow now flow s =
     (if \<not> isTerminalFlow flow then (s, False)
      else case hasActiveLinkedTasks (tf_flowId flow) s of
             (s, True) \<Rightarrow> (s, False)
           | (s, False) \<Rightarrow> (s, now - resolveTerminalAt flow \<ge> TASK_FLOW_RETENTION_MS))"

definition shouldFinalizeCancelledFlow :: "TaskFlowRecord \<Rightarrow> task_registry \<Rightarrow> task_registry \<times> bool" where
  "shouldFinalizeCancelledFlow flow s =
     (if tf_syncMode flow \<noteq> SM_managed then (s, False)
      else if tf_cancelRequestedAt flow = None \<or> isTerminalFlow flow then (s, False)
      else case hasActiveLinkedTasks (tf_flowId flow) s of (s, active) \<Rightarrow> (s, \<not> active))"

subsection \<open>The sweep\<close>

text \<open>The loop of at most \<open>n\<close> attempts; \<open>clock\<close> is what the flow registry reads, \<open>now\<close> the time the sweep began.\<close>

fun finalize_attempts ::
  "nat \<Rightarrow> int \<Rightarrow> int \<Rightarrow> TaskFlowRecord \<Rightarrow> task_registry \<Rightarrow> task_registry \<times> (flow_error + bool)" where
  "finalize_attempts 0 clock now current s = (s, Inr False)"
| "finalize_attempts (Suc n) clock now current s =
     (let endedAt = max (max now (tf_updatedAt current)) (or_value (tf_cancelRequestedAt current) now)
      in case updateFlowRecordByIdExpectedRevision clock (tf_flowId current) (tf_revision current)
             (cancel_patch endedAt) (tg_flows s) of
           (fs, Inl e) \<Rightarrow> (s\<lparr>tg_flows := fs\<rparr>, Inl e)
         | (fs, Inr (FU_applied f)) \<Rightarrow> (s\<lparr>tg_flows := fs\<rparr>, Inr True)
         | (fs, Inr FU_not_found) \<Rightarrow> (s\<lparr>tg_flows := fs\<rparr>, Inr False)
         | (fs, Inr (FU_conflict current')) \<Rightarrow>
             (case shouldFinalizeCancelledFlow current' (s\<lparr>tg_flows := fs\<rparr>) of
                (s, False) \<Rightarrow> (s, Inr False)
              | (s, True) \<Rightarrow> finalize_attempts n clock now current' s))"

definition finalizeCancelledFlow ::
  "int \<Rightarrow> int \<Rightarrow> TaskFlowRecord \<Rightarrow> task_registry \<Rightarrow> task_registry \<times> (flow_error + bool)" where
  "finalizeCancelledFlow clock now flow s = finalize_attempts 2 clock now flow s"

definition list_flows :: "task_registry \<Rightarrow> task_registry \<times> TaskFlowRecord list" where
  "list_flows s = (case listTaskFlowRecords (tg_flows s) of (fs, l) \<Rightarrow> (s\<lparr>tg_flows := fs\<rparr>, l))"

fun flow_preview_loop ::
  "int \<Rightarrow> TaskFlowRecord list \<Rightarrow> TaskFlowRegistryMaintenanceSummary \<Rightarrow> task_registry \<Rightarrow>
   task_registry \<times> TaskFlowRegistryMaintenanceSummary" where
  "flow_preview_loop now [] m s = (s, m)"
| "flow_preview_loop now (f # fs) m s =
     (case shouldFinalizeCancelledFlow f s of
        (s, True) \<Rightarrow> flow_preview_loop now fs (m\<lparr>fm_reconciled := fm_reconciled m + 1\<rparr>) s
      | (s, False) \<Rightarrow>
          (case shouldPruneFlow now f s of
             (s, True) \<Rightarrow> flow_preview_loop now fs (m\<lparr>fm_pruned := fm_pruned m + 1\<rparr>) s
           | (s, False) \<Rightarrow> flow_preview_loop now fs m s))"

definition previewTaskFlowRegistryMaintenance ::
  "int \<Rightarrow> task_registry \<Rightarrow> task_registry \<times> TaskFlowRegistryMaintenanceSummary" where
  "previewTaskFlowRegistryMaintenance now s =
     (case list_flows s of (s, l) \<Rightarrow> flow_preview_loop now l \<lparr>fm_reconciled = 0, fm_pruned = 0\<rparr> s)"

fun flow_sweep_loop ::
  "int \<Rightarrow> int \<Rightarrow> TaskFlowRecord list \<Rightarrow> TaskFlowRegistryMaintenanceSummary \<Rightarrow> task_registry \<Rightarrow>
   task_registry \<times> (flow_error + TaskFlowRegistryMaintenanceSummary)" where
  "flow_sweep_loop clock now [] m s = (s, Inr m)"
| "flow_sweep_loop clock now (f # fs) m s =
     (case lookup_flow (tf_flowId f) s of
        (s, None) \<Rightarrow> flow_sweep_loop clock now fs m s
      | (s, Some current) \<Rightarrow>
          (case shouldFinalizeCancelledFlow current s of
             (s, True) \<Rightarrow>
               (case finalizeCancelledFlow clock now current s of
                  (s, Inl e) \<Rightarrow> (s, Inl e)
                | (s, Inr True) \<Rightarrow> flow_sweep_loop clock now fs (m\<lparr>fm_reconciled := fm_reconciled m + 1\<rparr>) s
                | (s, Inr False) \<Rightarrow> flow_sweep_loop clock now fs m s)
           | (s, False) \<Rightarrow>
               (case shouldPruneFlow now current s of
                  (s, False) \<Rightarrow> flow_sweep_loop clock now fs m s
                | (s, True) \<Rightarrow>
                    (case deleteTaskFlowRecordById (tf_flowId current) (tg_flows s) of
                       (gs, deleted) \<Rightarrow> flow_sweep_loop clock now fs
                         (if deleted then m\<lparr>fm_pruned := fm_pruned m + 1\<rparr> else m) (s\<lparr>tg_flows := gs\<rparr>)))))"

definition runTaskFlowRegistryMaintenance ::
  "int \<Rightarrow> int \<Rightarrow> task_registry \<Rightarrow> task_registry \<times> (flow_error + TaskFlowRegistryMaintenanceSummary)" where
  "runTaskFlowRegistryMaintenance clock now s =
     (case list_flows s of (s, l) \<Rightarrow> flow_sweep_loop clock now l \<lparr>fm_reconciled = 0, fm_pruned = 0\<rparr> s)"

subsection \<open>The decisions depend on the tasks alone\<close>

definition active_in :: "task_registry \<Rightarrow> string \<Rightarrow> bool" where
  "active_in s flowId = snd (hasActiveLinkedTasks flowId s)"

definition to_finalize :: "(string \<Rightarrow> bool) \<Rightarrow> TaskFlowRecord \<Rightarrow> bool" where
  "to_finalize act f \<longleftrightarrow> tf_syncMode f = SM_managed \<and> tf_cancelRequestedAt f \<noteq> None \<and> \<not> isTerminalFlow f \<and>
     \<not> act (tf_flowId f)"

definition to_prune :: "int \<Rightarrow> (string \<Rightarrow> bool) \<Rightarrow> TaskFlowRecord \<Rightarrow> bool" where
  "to_prune now act f \<longleftrightarrow> isTerminalFlow f \<and> \<not> act (tf_flowId f) \<and> now - resolveTerminalAt f \<ge> TASK_FLOW_RETENTION_MS"

lemma ready_tasks_flows [simp]:
  "ensureTaskRegistryReady (s\<lparr>tg_flows := x\<rparr>) = (ensureTaskRegistryReady s)\<lparr>tg_flows := x\<rparr>"
  "tg_flows (ensureTaskRegistryReady s) = tg_flows s"
  by (simp_all add: ensureTaskRegistryReady_def restoreTaskRegistryOnce_def Let_def)

lemma ready_tasks_idem [simp]: "ensureTaskRegistryReady (ensureTaskRegistryReady s) = ensureTaskRegistryReady s"
  using ready_restored_id [OF ready_restored [of s]] by (simp add: ensureTaskRegistryReady_def)

lemma tasks_for_flow_flows [simp]: "tasks_for_flow i (s\<lparr>tg_flows := x\<rparr>) = tasks_for_flow i s"
  by (simp add: tasks_for_flow_def tasks_of_ids_def listTasksFromIndex_def split: option.split)

lemma has_active_eq: "hasActiveLinkedTasks i s = (ensureTaskRegistryReady s, active_in s i)"
  by (simp add: active_in_def hasActiveLinkedTasks_def listTasksForFlowId_def Let_def)

lemma active_frame [simp]:
  "active_in (s\<lparr>tg_flows := x\<rparr>) = active_in s" "active_in (ensureTaskRegistryReady s) = active_in s"
  by (rule ext, simp add: active_in_def hasActiveLinkedTasks_def listTasksForFlowId_def Let_def)+

text \<open>Asking makes the task registry ready at most.\<close>

definition same_tasks :: "task_registry \<Rightarrow> task_registry \<Rightarrow> bool" where
  "same_tasks s s' \<longleftrightarrow> s' = s \<or> s' = ensureTaskRegistryReady s"

lemma finalize_eq:
  "\<exists>s'. shouldFinalizeCancelledFlow f s = (s', to_finalize (active_in s) f) \<and> same_tasks s s'"
  by (simp add: shouldFinalizeCancelledFlow_def has_active_eq to_finalize_def same_tasks_def)

lemma prune_eq: "\<exists>s'. shouldPruneFlow now f s = (s', to_prune now (active_in s) f) \<and> same_tasks s s'"
  by (cases "active_in s (tf_flowId f)") (simp_all add: shouldPruneFlow_def has_active_eq to_prune_def same_tasks_def)

lemma same_tasks_frame: "same_tasks s s' \<Longrightarrow> active_in s' = active_in s \<and> tg_flows s' = tg_flows s"
  by (auto simp: same_tasks_def)

subsection \<open>One pass\<close>

definition rested :: "int \<Rightarrow> (string \<Rightarrow> bool) \<Rightarrow> TaskFlowRecord \<Rightarrow> bool" where
  "rested now act f \<longleftrightarrow> \<not> to_finalize act f \<and> \<not> to_prune now act f"

text \<open>The flow registry is ready and consistent; \<open>m\<close> are its flows.\<close>

definition flows_at :: "(string, TaskFlowRecord) jsmap \<Rightarrow> task_registry \<Rightarrow> bool" where
  "flows_at m s \<longleftrightarrow> flow_inv (tg_flows s) \<and> fr_restoreAttempted (tg_flows s) \<and> fr_flows (tg_flows s) = m"

lemma flows_at_same: "same_tasks s s' \<Longrightarrow> flows_at m s' \<longleftrightarrow> flows_at m s"
  using same_tasks_frame [of s s'] by (simp add: flows_at_def)

lemma lookup_at: "flows_at m s \<Longrightarrow> lookup_flow i s = (s, jget m i)"
  by (simp add: flows_at_def lookup_flow_def getTaskFlowById_def Let_def ready_id)

lemma list_at: "flows_at m s \<Longrightarrow> list_flows s = (s, sort_key (\<lambda>f. - tf_createdAt f) (jvals m))"
  by (simp add: flows_at_def list_flows_def listTaskFlowRecords_def Let_def ready_id)

lemma wf_at: "flows_at m s \<Longrightarrow> jget m i = Some f \<Longrightarrow> flow_wf f \<and> tf_flowId f = i"
  unfolding flows_at_def using current_wf [of "tg_flows s" i f] by blast

lemma cancelled_rested:
  assumes "now \<le> e" and "g = patched_flow clock f (cancel_patch e)"
  shows "rested now act g"
proof -
  have st: "tf_status g = FS_cancelled" and e: "tf_endedAt g = Some e"
    using assms(2) by (simp_all add: patched_flow_def cancel_patch_def no_patch_def)
  have "isTerminalFlow g" using st by (simp add: isTerminalFlow_def)
  moreover have "resolveTerminalAt g = e" by (simp add: resolveTerminalAt_def e)
  ultimately show ?thesis using assms(1) by (simp add: rested_def to_finalize_def to_prune_def TASK_FLOW_RETENTION_MS_def)
qed

text \<open>An update with the revision that was just read is applied.\<close>

lemma expected_at:
  assumes at: "flows_at m s" and f: "jget m (tf_flowId f) = Some f" and ctl: "fp_controllerId p = None"
  shows "\<exists>fs. updateFlowRecordByIdExpectedRevision clock (tf_flowId f) (tf_revision f) p (tg_flows s) =
      (fs, Inr (FU_applied (patched_flow clock f p))) \<and> flows_at (jset m (tf_flowId f) (patched_flow clock f p)) (s\<lparr>tg_flows := fs\<rparr>)"
proof -
  let ?g = "patched_flow clock f p"
  let ?w = "writeFlowRecord ?g (Some f) (tg_flows s)"
  have inv: "flow_inv (tg_flows s)" and att: "fr_restoreAttempted (tg_flows s)" and m: "fr_flows (tg_flows s) = m"
    using at by (simp_all add: flows_at_def)
  have wf: "flow_wf f" using wf_at [OF at f] by simp
  have "tf_syncMode f = SM_managed \<longrightarrow> normalizeText (tf_controllerId f) \<noteq> None"
    using wf by (auto simp: flow_wf_def tidy_def)
  then have ap: "applyFlowPatch clock f p = Inr ?g" by (simp add: patch_Inr ctl patched_text_def)
  have g: "flow_wf ?g" "tf_flowId ?g = tf_flowId f" using patch_wf [OF wf ap] by simp_all
  have w: "?w = (fst ?w, ?g)" by (simp add: writeFlowRecord_def)
  have "updateFlowRecordByIdExpectedRevision clock (tf_flowId f) (tf_revision f) p (tg_flows s) = (fst ?w, Inr (FU_applied ?g))"
    using f m att ap by (subst w) (simp add: updateFlowRecordByIdExpectedRevision_def Let_def ready_id case_prod_beta, simp add: writeFlowRecord_def)
  moreover have "flows_at (jset m (tf_flowId f) ?g) (s\<lparr>tg_flows := fst ?w\<rparr>)"
    using write_inv [OF inv g(1), of "Some f"] att m g(2) by (simp add: flows_at_def)
  ultimately show ?thesis by blast
qed

lemma finalize_at:
  assumes at: "flows_at m s" and f: "jget m (tf_flowId f) = Some f"
  shows "\<exists>g s'. finalizeCancelledFlow clock now f s = (s', Inr True) \<and> flows_at (jset m (tf_flowId f) g) s' \<and>
    active_in s' = active_in s \<and> rested now act g"
proof -
  let ?e = "max (max now (tf_updatedAt f)) (or_value (tf_cancelRequestedAt f) now)"
  let ?g = "patched_flow clock f (cancel_patch ?e)"
  have "fp_controllerId (cancel_patch ?e) = None" by (simp add: cancel_patch_def no_patch_def)
  from expected_at [OF at f this] obtain fs where
    up: "updateFlowRecordByIdExpectedRevision clock (tf_flowId f) (tf_revision f) (cancel_patch ?e) (tg_flows s) =
      (fs, Inr (FU_applied ?g))" and at': "flows_at (jset m (tf_flowId f) ?g) (s\<lparr>tg_flows := fs\<rparr>)" by blast
  have "finalizeCancelledFlow clock now f s = (s\<lparr>tg_flows := fs\<rparr>, Inr True)"
    by (simp add: finalizeCancelledFlow_def eval_nat_numeral Let_def up)
  moreover have "rested now act ?g" by (rule cancelled_rested [OF _ refl]) simp
  ultimately show ?thesis using at' by (metis active_frame(1))
qed

lemma delete_at:
  assumes at: "flows_at m s" and f: "jget m i = Some f"
  shows "\<exists>gs. deleteTaskFlowRecordById i (tg_flows s) = (gs, True) \<and> flows_at (jdel m i) (s\<lparr>tg_flows := gs\<rparr>)"
proof -
  have inv: "flow_inv (tg_flows s)" and att: "fr_restoreAttempted (tg_flows s)" and m: "fr_flows (tg_flows s) = m"
    using at by (simp_all add: flows_at_def)
  have "snd (deleteTaskFlowRecordById i (tg_flows s))" using f m att by (simp add: deleteTaskFlowRecordById_def Let_def ready_id)
  moreover have "fr_flows (fst (deleteTaskFlowRecordById i (tg_flows s))) = jdel m i"
    using delete_maps(2) [OF refl, of i "tg_flows s"] f m att by (simp add: ready_id)
  ultimately show ?thesis
    using delete_inv [OF inv, of i] by (cases "deleteTaskFlowRecordById i (tg_flows s)") (simp add: flows_at_def, use delete_frame(1) [of i "tg_flows s"] in simp)
qed

text \<open>What one pass makes of a flow: nothing is left to do for it.\<close>

definition fated :: "int \<Rightarrow> (string \<Rightarrow> bool) \<Rightarrow> TaskFlowRecord \<Rightarrow> TaskFlowRecord option \<Rightarrow> bool" where
  "fated now act f v \<longleftrightarrow> (case v of
      None \<Rightarrow> to_prune now act f
    | Some g \<Rightarrow> \<not> to_prune now act f \<and> rested now act g \<and> (to_finalize act f \<or> g = f))"

definition preview_flow ::
  "int \<Rightarrow> (string \<Rightarrow> bool) \<Rightarrow> TaskFlowRecord \<Rightarrow> TaskFlowRegistryMaintenanceSummary \<Rightarrow> TaskFlowRegistryMaintenanceSummary" where
  "preview_flow now act f m =
     (if to_finalize act f then m\<lparr>fm_reconciled := fm_reconciled m + 1\<rparr>
      else if to_prune now act f then m\<lparr>fm_pruned := fm_pruned m + 1\<rparr> else m)"

lemma not_both: "to_finalize act f \<Longrightarrow> \<not> to_prune now act f"
  by (simp add: to_finalize_def to_prune_def)

lemma preview_loop:
  "snd (flow_preview_loop now fs m s) = fold (preview_flow now (active_in s)) fs m \<and>
   same_tasks s (fst (flow_preview_loop now fs m s))"
proof (induction fs arbitrary: m s)
  case (Cons f fs)
  obtain s1 where s1: "shouldFinalizeCancelledFlow f s = (s1, to_finalize (active_in s) f)" "same_tasks s s1"
    using finalize_eq by blast
  obtain s2 where s2: "shouldPruneFlow now f s1 = (s2, to_prune now (active_in s1) f)" "same_tasks s1 s2"
    using prune_eq by blast
  have act: "active_in s1 = active_in s" "active_in s2 = active_in s"
    using same_tasks_frame [OF s1(2)] same_tasks_frame [OF s2(2)] by simp_all
  have st: "same_tasks s1 s' \<Longrightarrow> same_tasks s s'" "same_tasks s2 s' \<Longrightarrow> same_tasks s s'" for s'
    using s1(2) s2(2) by (auto simp: same_tasks_def)
  show ?case
    using Cons.IH [of _ s1] Cons.IH [of _ s2] s1(1) s2(1) act st
    by (cases "to_finalize (active_in s) f"; cases "to_prune now (active_in s) f") (simp_all add: preview_flow_def)
qed (simp add: same_tasks_def)

lemma sweep_pass:
  assumes at: "flows_at m s" and f: "jget m (tf_flowId f) = Some f"
  shows "\<exists>s' m'. (\<forall>fs k. flow_sweep_loop clock now (f # fs) k s =
        flow_sweep_loop clock now fs (preview_flow now (active_in s) f k) s') \<and>
    flows_at m' s' \<and> active_in s' = active_in s \<and> fated now (active_in s) f (jget m' (tf_flowId f)) \<and>
    (\<forall>j. j \<noteq> tf_flowId f \<longrightarrow> jget m' j = jget m j)"
proof -
  let ?i = "tf_flowId f" let ?act = "active_in s"
  note look = lookup_at [OF at, of ?i, unfolded f]
  obtain s1 where s1: "shouldFinalizeCancelledFlow f s = (s1, to_finalize ?act f)" "same_tasks s s1"
    using finalize_eq by blast
  have at1: "flows_at m s1" and act1: "active_in s1 = ?act" "tg_flows s1 = tg_flows s"
    using flows_at_same [OF s1(2)] at same_tasks_frame [OF s1(2)] by simp_all
  obtain s2 where s2: "shouldPruneFlow now f s1 = (s2, to_prune now ?act f)" "same_tasks s1 s2"
    using prune_eq [of now f s1] act1 by auto
  have at2: "flows_at m s2" and act2: "active_in s2 = ?act"
    using flows_at_same [OF s2(2)] at1 same_tasks_frame [OF s2(2)] act1 by simp_all
  consider (fin) "to_finalize ?act f" | (prune) "\<not> to_finalize ?act f" "to_prune now ?act f"
    | (none) "\<not> to_finalize ?act f" "\<not> to_prune now ?act f" by blast
  then show ?thesis
  proof cases
    case fin
    from finalize_at [OF at1 f, of clock now] obtain g s' where
      g: "finalizeCancelledFlow clock now f s1 = (s', Inr True)" "flows_at (jset m ?i g) s'" "active_in s' = active_in s1"
      "rested now (active_in s1) g" by blast
    have "flow_sweep_loop clock now (f # fs) k s = flow_sweep_loop clock now fs (preview_flow now ?act f k) s'" for fs k
      using look s1(1) g(1) fin by (simp add: preview_flow_def)
    moreover have "fated now ?act f (jget (jset m ?i g) ?i)"
      using g(4) fin not_both [OF fin] act1 by (simp add: fated_def)
    moreover have "\<forall>j. j \<noteq> ?i \<longrightarrow> jget (jset m ?i g) j = jget m j" by simp
    ultimately show ?thesis using g(2,3) act1(1) by metis
  next
    case prune
    from delete_at [OF at2 f] obtain gs where
      gs: "deleteTaskFlowRecordById ?i (tg_flows s2) = (gs, True)" "flows_at (jdel m ?i) (s2\<lparr>tg_flows := gs\<rparr>)" by blast
    have "flow_sweep_loop clock now (f # fs) k s =
        flow_sweep_loop clock now fs (preview_flow now ?act f k) (s2\<lparr>tg_flows := gs\<rparr>)" for fs k
      using look s1(1) s2(1) gs(1) prune by (simp add: preview_flow_def)
    moreover have "fated now ?act f (jget (jdel m ?i) ?i)" using prune by (simp add: fated_def)
    moreover have "\<forall>j. j \<noteq> ?i \<longrightarrow> jget (jdel m ?i) j = jget m j" by simp
    moreover have "active_in (s2\<lparr>tg_flows := gs\<rparr>) = ?act" using act2 by simp
    ultimately show ?thesis using gs(2) by metis
  next
    case none
    have "flow_sweep_loop clock now (f # fs) k s = flow_sweep_loop clock now fs (preview_flow now ?act f k) s2" for fs k
      using look s1(1) s2(1) none by (simp add: preview_flow_def)
    moreover have "fated now ?act f (jget m ?i)" using none f by (simp add: fated_def rested_def)
    ultimately show ?thesis using at2 act2 by metis
  qed
qed

subsection \<open>The whole sweep\<close>

lemma sweep_loop_settles:
  assumes "flows_at m s" and "distinct (map tf_flowId fs)" and "\<And>f. f \<in> set fs \<Longrightarrow> jget m (tf_flowId f) = Some f"
  shows "\<exists>s' m'. flow_sweep_loop clock now fs k s = (s', Inr (fold (preview_flow now (active_in s)) fs k)) \<and>
    flows_at m' s' \<and> active_in s' = active_in s \<and>
    (\<forall>f\<in>set fs. fated now (active_in s) f (jget m' (tf_flowId f))) \<and>
    (\<forall>j. j \<notin> tf_flowId ` set fs \<longrightarrow> jget m' j = jget m j)"
  using assms
proof (induction fs arbitrary: m s k)
  case (Cons f fs)
  have f: "jget m (tf_flowId f) = Some f" using Cons.prems(3) by simp
  from sweep_pass [OF Cons.prems(1) f, of clock now] obtain s1 m1 where
    step: "\<And>fs k. flow_sweep_loop clock now (f # fs) k s = flow_sweep_loop clock now fs (preview_flow now (active_in s) f k) s1"
    and at1: "flows_at m1 s1" and act1: "active_in s1 = active_in s"
    and own: "fated now (active_in s) f (jget m1 (tf_flowId f))"
    and other: "\<And>j. j \<noteq> tf_flowId f \<Longrightarrow> jget m1 j = jget m j" by blast
  have d: "tf_flowId f \<notin> tf_flowId ` set fs" "distinct (map tf_flowId fs)" using Cons.prems(2) by simp_all
  have rest: "jget m1 (tf_flowId g) = Some g" if "g \<in> set fs" for g
  proof -
    have "tf_flowId g \<noteq> tf_flowId f" using d(1) that by (metis image_eqI)
    with other [of "tf_flowId g"] Cons.prems(3) [of g] that show ?thesis by simp
  qed
  from Cons.IH [OF at1 d(2) rest, of "preview_flow now (active_in s) f k"] obtain s' m' where
    ih: "flow_sweep_loop clock now fs (preview_flow now (active_in s) f k) s1 =
        (s', Inr (fold (preview_flow now (active_in s)) fs (preview_flow now (active_in s) f k)))"
      "flows_at m' s'" "active_in s' = active_in s"
      "\<forall>g\<in>set fs. fated now (active_in s) g (jget m' (tf_flowId g))"
      "\<forall>j. j \<notin> tf_flowId ` set fs \<longrightarrow> jget m' j = jget m1 j"
    unfolding act1 by blast
  have "fated now (active_in s) f (jget m' (tf_flowId f))" using ih(5) d(1) own by simp
  moreover have "jget m' j = jget m j" if "j \<notin> tf_flowId ` set (f # fs)" for j using ih(5) other [of j] that by simp
  ultimately show ?case using ih step [of fs k] by (intro exI [of _ s'] exI [of _ m']) simp
qed auto

lemma listed_flows:
  assumes "flows_at m s" and "(s1, l) = list_flows s"
  shows "distinct (map tf_flowId l)" and "f \<in> set l \<longleftrightarrow> jget m (tf_flowId f) = Some f"
proof -
  have wf: "jwf m" using assms(1) by (auto simp: flows_at_def flow_inv_def)
  have ids: "\<And>k v. jget m k = Some v \<Longrightarrow> tf_flowId v = k" using wf_at [OF assms(1)] by blast
  have l: "l = sort_key (\<lambda>f. - tf_createdAt f) (jvals m)" using assms(2) list_at [OF assms(1)] by simp
  have "mset l = mset (jvals m)" by (simp add: l)
  then have "mset (map tf_flowId l) = mset (map tf_flowId (jvals m))" by (simp only: mset_map)
  moreover have "map tf_flowId (jvals m) = jkeys m" using wf ids by (rule keys_of_wf)
  moreover have "distinct (jkeys m)" using wf unfolding jwf_def .
  ultimately show "distinct (map tf_flowId l)" using mset_eq_imp_distinct_iff by metis
  show "f \<in> set l \<longleftrightarrow> jget m (tf_flowId f) = Some f"
    unfolding l set_sort using jvals_mem [OF wf, of f] ids by blast
qed

lemma list_ready:
  assumes "flow_inv (tg_flows s)"
  shows "\<exists>s1 m. flows_at m s1 \<and> active_in s1 = active_in s \<and> list_flows s = list_flows s1 \<and> fst (list_flows s) = s1"
proof -
  let ?s = "s\<lparr>tg_flows := ensureFlowRegistryReady (tg_flows s)\<rparr>"
  have "flows_at (fr_flows (tg_flows ?s)) ?s" using ready_inv [OF assms] by (simp add: flows_at_def)
  moreover have "list_flows s = list_flows ?s" "fst (list_flows s) = ?s"
    by (simp_all add: list_flows_def listTaskFlowRecords_def Let_def)
  ultimately show ?thesis by (metis active_frame(1))
qed

lemma rested_preview: "\<forall>f\<in>set fs. rested now act f \<Longrightarrow> fold (preview_flow now act) fs k = k"
  by (induction fs arbitrary: k) (simp_all add: rested_def preview_flow_def)

lemma flow_run_facts:
  assumes "flow_inv (tg_flows s)"
  shows "\<exists>s'. runTaskFlowRegistryMaintenance clock now s = (s', Inr (snd (previewTaskFlowRegistryMaintenance now s))) \<and>
    snd (previewTaskFlowRegistryMaintenance now s') = \<lparr>fm_reconciled = 0, fm_pruned = 0\<rparr> \<and>
    set (snd (list_flows s')) \<inter> Collect (to_prune now (active_in s)) = {} \<and>
    {f \<in> set (snd (list_flows s)). \<not> to_finalize (active_in s) f \<and> \<not> to_prune now (active_in s) f} \<subseteq> set (snd (list_flows s')) \<and>
    tf_flowId ` set (snd (list_flows s')) = tf_flowId ` {f \<in> set (snd (list_flows s)). \<not> to_prune now (active_in s) f}"
proof -
  let ?none = "\<lparr>fm_reconciled = 0, fm_pruned = 0\<rparr>" let ?act = "active_in s"
  from list_ready [OF assms] obtain s1 m where s1: "flows_at m s1" "active_in s1 = ?act" "list_flows s = list_flows s1"
    "fst (list_flows s) = s1" by blast
  obtain l where l: "list_flows s = (s1, l)" using s1(4) by (cases "list_flows s") auto
  note mem = listed_flows [OF s1(1), of s1 l, unfolded s1(3) [symmetric] l, OF refl]
  have mem': "\<And>f. f \<in> set l \<Longrightarrow> jget m (tf_flowId f) = Some f" using mem(2) by blast
  from sweep_loop_settles [OF s1(1) mem(1) mem', of clock now ?none] obtain s' m' where
    run: "flow_sweep_loop clock now l ?none s1 = (s', Inr (fold (preview_flow now ?act) l ?none))"
    and at': "flows_at m' s'" and act': "active_in s' = ?act"
    and fate: "\<And>f. f \<in> set l \<Longrightarrow> fated now ?act f (jget m' (tf_flowId f))"
    and other: "\<And>j. j \<notin> tf_flowId ` set l \<Longrightarrow> jget m' j = jget m j"
    unfolding s1(2) by blast
  obtain s2 l' where l': "list_flows s' = (s2, l')" by fastforce
  have s2: "s2 = s'" using l' list_at [OF at'] by simp
  note mem2 = listed_flows [OF at', of s2 l', unfolded l', OF refl]
  have src: "\<exists>f\<in>set l. tf_flowId f = j" if "jget m' j = Some g" for j g
  proof (rule ccontr)
    assume n: "\<not> (\<exists>f\<in>set l. tf_flowId f = j)"
    then have "jget m j = Some g" using other [of j] that by (metis imageE)
    with wf_at [OF s1(1) this] mem(2) [of g] n show False by metis
  qed
  have rest: "rested now ?act g" if "g \<in> set l'" for g
  proof -
    have g: "jget m' (tf_flowId g) = Some g" using mem2(2) that by blast
    from src [OF g] obtain f where "f \<in> set l" "tf_flowId f = tf_flowId g" by blast
    with fate [of f] g show ?thesis by (simp add: fated_def)
  qed
  have kept: "f \<in> set l'" if "f \<in> set l" "\<not> to_finalize ?act f" "\<not> to_prune now ?act f" for f
    using fate [OF that(1)] that mem2(2) [of f] by (simp add: fated_def split: option.splits)
  have "tf_flowId ` set l' = tf_flowId ` {f \<in> set l. \<not> to_prune now ?act f}"
  proof (intro set_eqI iffI)
    fix j assume "j \<in> tf_flowId ` set l'"
    then obtain g where g: "jget m' j = Some g" using mem2(2) by auto
    from src [OF this] obtain f where "f \<in> set l" "tf_flowId f = j" by blast
    with fate [of f] g show "j \<in> tf_flowId ` {f \<in> set l. \<not> to_prune now ?act f}" by (auto simp: fated_def)
  next
    fix j assume "j \<in> tf_flowId ` {f \<in> set l. \<not> to_prune now ?act f}"
    then obtain f where f: "f \<in> set l" "\<not> to_prune now ?act f" "tf_flowId f = j" by blast
    with fate [of f] obtain g where g: "jget m' j = Some g" by (auto simp: fated_def split: option.splits)
    with wf_at [OF at' g] mem2(2) [of g] show "j \<in> tf_flowId ` set l'" by (metis image_eqI)
  qed
  moreover have "snd (previewTaskFlowRegistryMaintenance now s') = ?none"
    using preview_loop [of now l' ?none s'] rested_preview [of l' now ?act ?none] rest act'
    by (simp add: previewTaskFlowRegistryMaintenance_def l' s2)
  moreover have "runTaskFlowRegistryMaintenance clock now s = (s', Inr (snd (previewTaskFlowRegistryMaintenance now s)))"
    using run preview_loop [of now l ?none s1] s1(2)
    by (simp add: previewTaskFlowRegistryMaintenance_def runTaskFlowRegistryMaintenance_def l)
  moreover have "set l' \<inter> Collect (to_prune now ?act) = {}" using rest by (auto simp: rested_def)
  moreover have "{f \<in> set l. \<not> to_finalize ?act f \<and> \<not> to_prune now ?act f} \<subseteq> set l'" using kept by blast
  ultimately show ?thesis using l' l by (intro exI [of _ s']) simp
qed

text \<open>C36: The sweep over the flows leaves nothing to sweep. After any history of tasks and flows on a restored
  registry, the sweep does not fail and reports the counts of its preview; a preview right after it reports none; the
  flows that are gone are exactly the ones whose removal was due, and a flow that was neither to be cancelled nor to be
  removed is unchanged.\<close>

theorem flow_maintenance_settles:
  assumes "table_wf frows"
    and "s = fold task_apply xs (fresh_task_process tenv rows drows fails (fresh_flow_process frows err))"
  shows "\<exists>s'. runTaskFlowRegistryMaintenance clock now s = (s', Inr (snd (previewTaskFlowRegistryMaintenance now s))) \<and>
    snd (previewTaskFlowRegistryMaintenance now s') = \<lparr>fm_reconciled = 0, fm_pruned = 0\<rparr> \<and>
    tf_flowId ` set (snd (list_flows s')) = tf_flowId ` {f \<in> set (snd (list_flows s)). \<not> snd (shouldPruneFlow now f s)} \<and>
    {f \<in> set (snd (list_flows s)). \<not> snd (shouldFinalizeCancelledFlow f s) \<and> \<not> snd (shouldPruneFlow now f s)}
      \<subseteq> set (snd (list_flows s'))"
proof -
  have "flow_inv (fresh_flow_process frows err)" using assms(1) by (rule flow_inv_fresh)
  then have "flow_inv (tg_flows s)"
    unfolding assms(2) by (intro flows_of_tasks.inv_run) (simp add: fresh_task_process_def)
  from flow_run_facts [OF this, of clock now] obtain s' where
    "runTaskFlowRegistryMaintenance clock now s = (s', Inr (snd (previewTaskFlowRegistryMaintenance now s)))"
    "snd (previewTaskFlowRegistryMaintenance now s') = \<lparr>fm_reconciled = 0, fm_pruned = 0\<rparr>"
    "{f \<in> set (snd (list_flows s)). \<not> to_finalize (active_in s) f \<and> \<not> to_prune now (active_in s) f} \<subseteq> set (snd (list_flows s'))"
    "tf_flowId ` set (snd (list_flows s')) = tf_flowId ` {f \<in> set (snd (list_flows s)). \<not> to_prune now (active_in s) f}"
    by blast
  moreover have "snd (shouldPruneFlow now f s) = to_prune now (active_in s) f" for f
    using prune_eq [of now f s] by auto
  moreover have "snd (shouldFinalizeCancelledFlow f s) = to_finalize (active_in s) f" for f
    using finalize_eq [of f s] by auto
  ultimately show ?thesis by auto
qed

definition demo_flow_ops :: "task_op list" where
  "demo_flow_ops =
     [K_flow (FL_create 1 ''old'' (demo_flow_params\<lparr>cp_status := Some FS_succeeded, cp_endedAt := Some 1\<rparr>)),
      K_flow (FL_create 2 ''stuck'' (demo_flow_params\<lparr>cp_cancelRequestedAt := Some 3\<rparr>)),
      K_flow (FL_create 4 ''kept'' demo_flow_params)]"

lemma flow_maintenance_settles_witness:
  "\<exists>s'. runTaskFlowRegistryMaintenance 700000000 700000000 (fold task_apply demo_flow_ops demo_world) =
     (s', Inr \<lparr>fm_reconciled = 1, fm_pruned = 1\<rparr>) \<and>
   tf_flowId ` set (snd (list_flows s')) = {''stuck'', ''kept''}"
proof -
  let ?s = "fold task_apply demo_flow_ops demo_world"
  have "table_wf []" by simp
  from flow_maintenance_settles [OF this, of ?s demo_flow_ops demo_env "[]" "[]" False None 700000000 700000000]
  obtain s' where s': "runTaskFlowRegistryMaintenance 700000000 700000000 ?s =
      (s', Inr (snd (previewTaskFlowRegistryMaintenance 700000000 ?s)))"
    "tf_flowId ` set (snd (list_flows s')) =
      tf_flowId ` {f \<in> set (snd (list_flows ?s)). \<not> snd (shouldPruneFlow 700000000 f ?s)}"
    by (auto simp: demo_world_def)
  have p: "snd (previewTaskFlowRegistryMaintenance 700000000 ?s) = \<lparr>fm_reconciled = 1, fm_pruned = 1\<rparr>" by code_simp
  have "map tf_flowId (filter (\<lambda>f. \<not> snd (shouldPruneFlow 700000000 f ?s)) (snd (list_flows ?s))) = [''kept'', ''stuck'']"
    by code_simp
  from arg_cong [OF this, of set]
  have "tf_flowId ` {f \<in> set (snd (list_flows ?s)). \<not> snd (shouldPruneFlow 700000000 f ?s)} = {''stuck'', ''kept''}"
    by auto
  with s' p show ?thesis by metis
qed

subsection \<open>Flows are well-formed\<close>

text \<open>C33: Every flow is well-formed, whatever happens to tasks and flows. On registries restored from a well-formed
  table, after any history of calls of both registries, with restarts of the flow registry and failing reads among
  them: every listed flow is the one found under its id, ids are listed once, the owner is a trimmed text that is not
  empty, the revision is not negative, a managed flow has a controller, and the optional texts are trimmed and not
  empty.\<close>

theorem flows_well_typed:
  assumes "table_wf frows"
    and "s = fold task_apply xs (fresh_task_process tenv rows drows fails (fresh_flow_process frows err))"
    and "list_flows s = (s', l)"
  shows "distinct (map tf_flowId l) \<and>
    (\<forall>f\<in>set l. snd (lookup_flow (tf_flowId f) s) = Some f \<and>
       tf_ownerKey f \<noteq> [] \<and> js_trim (tf_ownerKey f) = tf_ownerKey f \<and> 0 \<le> tf_revision f \<and>
       (tf_syncMode f = SM_managed \<longrightarrow> tf_controllerId f \<noteq> None) \<and>
       (\<forall>v\<in>{tf_controllerId f, tf_currentStep f, tf_blockedTaskId f, tf_blockedSummary f}. normalizeText v = v))"
proof -
  have "flow_inv (fresh_flow_process frows err)" using assms(1) by (rule flow_inv_fresh)
  then have inv: "flow_inv (tg_flows s)"
    unfolding assms(2) by (intro flows_of_tasks.inv_run) (simp add: fresh_task_process_def)
  let ?s = "s\<lparr>tg_flows := ensureFlowRegistryReady (tg_flows s)\<rparr>" let ?m = "fr_flows (tg_flows ?s)"
  have at: "flows_at ?m ?s" using ready_inv [OF inv] by (simp add: flows_at_def)
  have l: "(s', l) = list_flows ?s"
    using assms(3) by (auto simp: list_flows_def listTaskFlowRecords_def Let_def)
  have look: "snd (lookup_flow i s) = jget ?m i" for i by (simp add: lookup_flow_def getTaskFlowById_def Let_def)
  have wf: "flow_wf f" if "f \<in> set l" for f using listed_flows(2) [OF at l] wf_at [OF at] that by blast
  have "tf_ownerKey f \<noteq> [] \<and> js_trim (tf_ownerKey f) = tf_ownerKey f \<and> 0 \<le> tf_revision f \<and>
      (tf_syncMode f = SM_managed \<longrightarrow> tf_controllerId f \<noteq> None) \<and>
      (\<forall>v\<in>{tf_controllerId f, tf_currentStep f, tf_blockedTaskId f, tf_blockedSummary f}. normalizeText v = v)"
    if "f \<in> set l" for f
    using wf [OF that] trimmed_nonempty [of "tf_ownerKey f" "tf_ownerKey f"]
    by (auto simp: flow_wf_def tidy_def trimmed_def Let_def split: if_splits)
  then show ?thesis using listed_flows [OF at l] look by auto
qed

lemma flows_well_typed_witness:
  "list_all (\<lambda>f. tf_ownerKey f \<noteq> []) (snd (list_flows (fold task_apply demo_flow_ops demo_world)))"
proof -
  let ?s = "fold task_apply demo_flow_ops demo_world"
  have t: "table_wf []" by simp
  have s: "?s = fold task_apply demo_flow_ops (fresh_task_process demo_env [] [] False (fresh_flow_process [] None))"
    by (simp only: demo_world_def)
  obtain s' l where l: "list_flows ?s = (s', l)" by fastforce
  from flows_well_typed [OF t s l] l show ?thesis unfolding list_all_iff by auto
qed

end
