(* ===== verification/TaskExecutor.thy ===== *)
theory TaskExecutor
  imports TaskFlowMaintenance
begin

text \<open>
  The entry points of background tasks for the rest of the program (\<open>src/src/tasks/task-executor.ts\<close>): a detached
  run creates a task and, for an agent's session, a flow of its own that mirrors it; a managed flow starts tasks under
  it, retries one that is blocked, and is cancelled together with its tasks. \<open>now\<close> is what the registries read from
  the clock, \<open>uuid\<close> and \<open>fuuid\<close> are the ids that \<open>crypto.randomUUID()\<close> gives to a new task and a new flow.
  \<open>cancelFlowById\<close> awaits the cancellation of each task; what runs meanwhile is an argument.
\<close>

subsection \<open>Runs\<close>

definition isOneTaskFlowEligible :: "TaskRecord \<Rightarrow> bool" where
  "isOneTaskFlowEligible task \<longleftrightarrow>
     (if normalizeText (tr_parentFlowId task) \<noteq> None \<or> tr_scopeKind task \<noteq> SK_session then False
      else if tr_deliveryStatus task = DV_not_applicable then False
      else tr_runtime task = RT_acp \<or> tr_runtime task = RT_subagent)"

definition create_flow_for ::
  "int \<Rightarrow> string \<Rightarrow> TaskRecord \<Rightarrow> DeliveryContext option \<Rightarrow> task_registry \<Rightarrow>
   task_registry \<times> (flow_error + TaskFlowRecord)" where
  "create_flow_for now fuuid task origin s =
     (case createTaskFlowForTask now fuuid task origin (tg_flows s) of (fs, r) \<Rightarrow> (s\<lparr>tg_flows := fs\<rparr>, r))"

definition delete_flow :: "string \<Rightarrow> task_registry \<Rightarrow> task_registry" where
  "delete_flow flowId s = s\<lparr>tg_flows := fst (deleteTaskFlowRecordById flowId (tg_flows s))\<rparr>"

text \<open>An error of either call is logged and the task returned as it was.\<close>

definition ensureSingleTaskFlow ::
  "int \<Rightarrow> string \<Rightarrow> TaskRecord \<Rightarrow> DeliveryContext option \<Rightarrow> task_registry \<Rightarrow> task_registry \<times> TaskRecord" where
  "ensureSingleTaskFlow now fuuid task origin s =
     (if \<not> isOneTaskFlowEligible task then (s, task)
      else case create_flow_for now fuuid task origin s of
             (s, Inl e) \<Rightarrow> (s, task)
           | (s, Inr flow) \<Rightarrow>
               (case linkTaskToFlowById now (tr_taskId task) (tf_flowId flow) s of
                  (s, Inl e) \<Rightarrow> (s, task)
                | (s, Inr None) \<Rightarrow> (delete_flow (tf_flowId flow) s, task)
                | (s, Inr (Some linked)) \<Rightarrow>
                    (if tr_parentFlowId linked \<noteq> Some (tf_flowId flow)
                     then (delete_flow (tf_flowId flow) s, linked) else (s, linked))))"

definition create_run ::
  "BgTaskStatus \<Rightarrow> int \<Rightarrow> string \<Rightarrow> string \<Rightarrow> TaskParams \<Rightarrow> task_registry \<Rightarrow> task_registry \<times> (task_error + TaskRecord)" where
  "create_run status now uuid fuuid p s =
     (case createTaskRecord now uuid (p\<lparr>kp_status := Some status\<rparr>) s of
        (s, Inl e) \<Rightarrow> (s, Inl e)
      | (s, Inr task) \<Rightarrow>
          (case ensureSingleTaskFlow now fuuid task (kp_requesterOrigin p) s of (s, t) \<Rightarrow> (s, Inr t)))"

definition createQueuedTaskRun ::
  "int \<Rightarrow> string \<Rightarrow> string \<Rightarrow> TaskParams \<Rightarrow> task_registry \<Rightarrow> task_registry \<times> (task_error + TaskRecord)" where
  "createQueuedTaskRun = create_run BT_queued"

definition createRunningTaskRun ::
  "int \<Rightarrow> string \<Rightarrow> string \<Rightarrow> TaskParams \<Rightarrow> task_registry \<Rightarrow> task_registry \<times> (task_error + TaskRecord)" where
  "createRunningTaskRun = create_run BT_running"

definition getFlowTaskSummary :: "string \<Rightarrow> task_registry \<Rightarrow> task_registry \<times> TaskRegistrySummary" where
  "getFlowTaskSummary flowId s = (case listTasksForFlowId flowId s of (s, ts) \<Rightarrow> (s, summarizeTaskRecords ts))"

text \<open>The named updates of a run pass the keys that their own parameters have.\<close>

definition startTaskRunByRunId ::
  "int \<Rightarrow> string \<Rightarrow> TaskRuntime option \<Rightarrow> string option \<Rightarrow> TaskStateParams \<Rightarrow> task_registry \<Rightarrow>
   task_registry \<times> TaskRecord list" where
  "startTaskRunByRunId = markTaskRunningByRunId"

definition recordTaskRunProgressByRunId ::
  "int \<Rightarrow> string \<Rightarrow> TaskRuntime option \<Rightarrow> string option \<Rightarrow> TaskStateParams \<Rightarrow> task_registry \<Rightarrow>
   task_registry \<times> TaskRecord list" where
  "recordTaskRunProgressByRunId = recordTaskProgressByRunId"

definition completeTaskRunByRunId ::
  "int \<Rightarrow> string \<Rightarrow> TaskRuntime option \<Rightarrow> string option \<Rightarrow> int \<Rightarrow> TaskStateParams \<Rightarrow> task_registry \<Rightarrow>
   task_registry \<times> TaskRecord list" where
  "completeTaskRunByRunId now runId runtime session endedAt p =
     markTaskTerminalByRunId now runId runtime session BT_succeeded endedAt
       (no_state_params\<lparr>sp_lastEventAt := sp_lastEventAt p, sp_progressSummary := sp_progressSummary p,
         sp_terminalSummary := sp_terminalSummary p, sp_terminalOutcome := sp_terminalOutcome p\<rparr>)"

definition failTaskRunByRunId ::
  "int \<Rightarrow> string \<Rightarrow> TaskRuntime option \<Rightarrow> string option \<Rightarrow> BgTaskStatus option \<Rightarrow> int \<Rightarrow> TaskStateParams \<Rightarrow>
   task_registry \<Rightarrow> task_registry \<times> TaskRecord list" where
  "failTaskRunByRunId now runId runtime session status endedAt p =
     markTaskTerminalByRunId now runId runtime session (or_value status BT_failed) endedAt
       (no_state_params\<lparr>sp_lastEventAt := sp_lastEventAt p, sp_error := sp_error p,
         sp_progressSummary := sp_progressSummary p, sp_terminalSummary := sp_terminalSummary p\<rparr>)"

definition markTaskRunLostById ::
  "int \<Rightarrow> string \<Rightarrow> int \<Rightarrow> int option \<Rightarrow> string option \<Rightarrow> int option \<Rightarrow> task_registry \<Rightarrow>
   task_registry \<times> TaskRecord option" where
  "markTaskRunLostById = markTaskLostById"

definition setDetachedTaskDeliveryStatusByRunId ::
  "int \<Rightarrow> string \<Rightarrow> TaskRuntime option \<Rightarrow> string option \<Rightarrow> TaskDeliveryStatus \<Rightarrow> task_registry \<Rightarrow>
   task_registry \<times> TaskRecord list" where
  "setDetachedTaskDeliveryStatusByRunId = setTaskRunDeliveryStatusByRunId"

subsection \<open>Retrying a blocked flow\<close>

record RetryBlockedFlowResult =
  rb_found :: bool
  rb_retried :: bool
  rb_reason :: "string option"
  rb_previousTask :: "TaskRecord option"
  rb_task :: "TaskRecord option"

text \<open>\<open>Inr\<close>: the latest task, which may be retried.\<close>

definition resolveRetryableBlockedFlowTask ::
  "string \<Rightarrow> task_registry \<Rightarrow> task_registry \<times> ((bool \<times> string) + TaskRecord)" where
  "resolveRetryableBlockedFlowTask flowId s =
     (case lookup_flow flowId s of
        (s, None) \<Rightarrow> (s, Inl (False, ''Flow not found.''))
      | (s, Some flow) \<Rightarrow>
          (case findLatestTaskForFlowId flowId s of
             (s, None) \<Rightarrow> (s, Inl (True, ''Flow has no retryable task.''))
           | (s, Some latest) \<Rightarrow>
               (if tf_status flow \<noteq> FS_blocked then (s, Inl (True, ''Flow is not blocked.''))
                else if tr_status latest \<noteq> BT_succeeded \<or> tr_terminalOutcome latest \<noteq> Some TO_blocked
                then (s, Inl (True, ''Latest TaskFlow task is not blocked.''))
                else (s, Inr latest))))"

text \<open>The parameters; the keys \<open>task\<close> and the rest are optional here.\<close>

record RetryBlockedFlowParams =
  rp_flowId :: string
  rp_sourceId :: "string option"
  rp_requesterOrigin :: "DeliveryContext option"
  rp_childSessionKey :: "string option"
  rp_agentId :: "string option"
  rp_runId :: "string option"
  rp_label :: "string option"
  rp_task :: "string option"
  rp_preferMetadata :: bool
  rp_notifyPolicy :: "TaskNotifyPolicy option"
  rp_deliveryStatus :: "TaskDeliveryStatus option"
  rp_status :: BgTaskStatus
  rp_startedAt :: "int option"
  rp_lastEventAt :: "int option"
  rp_progressSummary :: "string option"

definition retry_params :: "RetryBlockedFlowParams \<Rightarrow> TaskRecord \<Rightarrow> TaskFlowRecord \<Rightarrow> TaskParams" where
  "retry_params p latest flow =
     \<lparr>kp_runtime = tr_runtime latest, kp_sourceId = or_else (rp_sourceId p) (tr_sourceId latest),
      kp_requesterSessionKey = None, kp_ownerKey = Some (tf_ownerKey flow), kp_scopeKind = Some SK_session,
      kp_requesterOrigin = or_else (rp_requesterOrigin p) (tf_requesterOrigin flow),
      kp_childSessionKey = rp_childSessionKey p, kp_parentFlowId = Some (tf_flowId flow),
      kp_parentTaskId = Some (tr_taskId latest), kp_agentId = or_else (rp_agentId p) (tr_agentId latest),
      kp_runId = rp_runId p, kp_label = or_else (rp_label p) (tr_label latest),
      kp_task = or_value (rp_task p) (tr_task latest), kp_preferMetadata = rp_preferMetadata p,
      kp_status = Some (rp_status p), kp_deliveryStatus = Some (or_value (rp_deliveryStatus p) DV_pending),
      kp_notifyPolicy = Some (or_value (rp_notifyPolicy p) (tr_notifyPolicy latest)),
      kp_startedAt = rp_startedAt p, kp_lastEventAt = rp_lastEventAt p, kp_cleanupAfter = None,
      kp_progressSummary = rp_progressSummary p, kp_terminalSummary = None, kp_terminalOutcome = None\<rparr>"

definition retryBlockedFlowTask ::
  "int \<Rightarrow> string \<Rightarrow> RetryBlockedFlowParams \<Rightarrow> task_registry \<Rightarrow> task_registry \<times> (task_error + RetryBlockedFlowResult)" where
  "retryBlockedFlowTask now uuid p s =
     (case resolveRetryableBlockedFlowTask (rp_flowId p) s of
        (s, Inl (found, reason)) \<Rightarrow>
          (s, Inr \<lparr>rb_found = found, rb_retried = False, rb_reason = Some reason, rb_previousTask = None, rb_task = None\<rparr>)
      | (s, Inr latest) \<Rightarrow>
          (case lookup_flow (rp_flowId p) s of
             (s, None) \<Rightarrow> (s, Inr \<lparr>rb_found = False, rb_retried = False, rb_reason = Some ''Flow not found.'',
                rb_previousTask = Some latest, rb_task = None\<rparr>)
           | (s, Some flow) \<Rightarrow>
               (case createTaskRecord now uuid (retry_params p latest flow) s of
                  (s, Inl e) \<Rightarrow> (s, Inl e)
                | (s, Inr task) \<Rightarrow> (s, Inr \<lparr>rb_found = True, rb_retried = True, rb_reason = None,
                    rb_previousTask = Some latest, rb_task = Some task\<rparr>))))"

definition retryBlockedFlowAsQueuedTaskRun ::
  "int \<Rightarrow> string \<Rightarrow> RetryBlockedFlowParams \<Rightarrow> task_registry \<Rightarrow> task_registry \<times> (task_error + RetryBlockedFlowResult)" where
  "retryBlockedFlowAsQueuedTaskRun now uuid p = retryBlockedFlowTask now uuid (p\<lparr>rp_status := BT_queued\<rparr>)"

definition retryBlockedFlowAsRunningTaskRun ::
  "int \<Rightarrow> string \<Rightarrow> RetryBlockedFlowParams \<Rightarrow> task_registry \<Rightarrow> task_registry \<times> (task_error + RetryBlockedFlowResult)" where
  "retryBlockedFlowAsRunningTaskRun now uuid p = retryBlockedFlowTask now uuid (p\<lparr>rp_status := BT_running\<rparr>)"


subsection \<open>Tasks in a managed flow\<close>

definition flow_status_text :: "TaskFlowStatus \<Rightarrow> string" where
  "flow_status_text st = (case st of FS_queued \<Rightarrow> ''queued'' | FS_running \<Rightarrow> ''running'' | FS_waiting \<Rightarrow> ''waiting''
     | FS_blocked \<Rightarrow> ''blocked'' | FS_succeeded \<Rightarrow> ''succeeded'' | FS_failed \<Rightarrow> ''failed''
     | FS_cancelled \<Rightarrow> ''cancelled'' | FS_lost \<Rightarrow> ''lost'')"

definition already :: "string \<Rightarrow> string" where
  "already st = ''Flow is already '' @ st @ ''.''"

record RunTaskInFlowResult =
  rf_found :: bool
  rf_created :: bool
  rf_reason :: "string option"
  rf_flow :: "TaskFlowRecord option"
  rf_task :: "TaskRecord option"

definition refuse_run :: "bool \<Rightarrow> string \<Rightarrow> TaskFlowRecord option \<Rightarrow> RunTaskInFlowResult" where
  "refuse_run found reason flow =
     \<lparr>rf_found = found, rf_created = False, rf_reason = Some reason, rf_flow = flow, rf_task = None\<rparr>"

definition mapRunTaskInFlowCreateError ::
  "task_error \<Rightarrow> string \<Rightarrow> task_registry \<Rightarrow> task_registry \<times> (task_error + RunTaskInFlowResult)" where
  "mapRunTaskInFlowCreateError e flowId s =
     (case lookup_flow flowId s of
        (s, flow) \<Rightarrow>
          (s, case e of
                ParentFlowLinkError LE_cancel_requested _ _ \<Rightarrow>
                  Inr (refuse_run True ''Flow cancellation has already been requested.'' flow)
              | ParentFlowLinkError LE_terminal _ st \<Rightarrow>
                  Inr (refuse_run True (already (or_value (map_option flow_status_text
                    (or_else (map_option tf_status flow) st)) ''terminal'')) flow)
              | ParentFlowLinkError LE_parent_flow_not_found _ _ \<Rightarrow> Inr (refuse_run False ''Flow not found.'' None)
              | _ \<Rightarrow> Inl e))"

text \<open>The parameters; \<open>rq_running\<close> is \<open>status === "running"\<close>.\<close>

record RunTaskInFlowParams =
  rq_runtime :: TaskRuntime
  rq_sourceId :: "string option"
  rq_childSessionKey :: "string option"
  rq_parentTaskId :: "string option"
  rq_agentId :: "string option"
  rq_runId :: "string option"
  rq_label :: "string option"
  rq_task :: string
  rq_preferMetadata :: bool
  rq_notifyPolicy :: "TaskNotifyPolicy option"
  rq_deliveryStatus :: "TaskDeliveryStatus option"
  rq_running :: bool
  rq_startedAt :: "int option"
  rq_lastEventAt :: "int option"
  rq_progressSummary :: "string option"

definition flow_task_params :: "RunTaskInFlowParams \<Rightarrow> TaskFlowRecord \<Rightarrow> TaskParams" where
  "flow_task_params p flow =
     \<lparr>kp_runtime = rq_runtime p, kp_sourceId = rq_sourceId p, kp_requesterSessionKey = None,
      kp_ownerKey = Some (tf_ownerKey flow), kp_scopeKind = Some SK_session,
      kp_requesterOrigin = tf_requesterOrigin flow, kp_childSessionKey = rq_childSessionKey p,
      kp_parentFlowId = Some (tf_flowId flow), kp_parentTaskId = rq_parentTaskId p, kp_agentId = rq_agentId p,
      kp_runId = rq_runId p, kp_label = rq_label p, kp_task = rq_task p, kp_preferMetadata = rq_preferMetadata p,
      kp_status = None, kp_deliveryStatus = Some (or_value (rq_deliveryStatus p) DV_pending),
      kp_notifyPolicy = rq_notifyPolicy p, kp_startedAt = (if rq_running p then rq_startedAt p else None),
      kp_lastEventAt = (if rq_running p then rq_lastEventAt p else None), kp_cleanupAfter = None,
      kp_progressSummary = (if rq_running p then rq_progressSummary p else None),
      kp_terminalSummary = None, kp_terminalOutcome = None\<rparr>"

definition runTaskInFlow ::
  "int \<Rightarrow> string \<Rightarrow> string \<Rightarrow> string \<Rightarrow> RunTaskInFlowParams \<Rightarrow> task_registry \<Rightarrow>
   task_registry \<times> (task_error + RunTaskInFlowResult)" where
  "runTaskInFlow now uuid fuuid flowId p s =
     (case lookup_flow flowId s of
        (s, None) \<Rightarrow> (s, Inr (refuse_run False ''Flow not found.'' None))
      | (s, Some flow) \<Rightarrow>
          (if tf_syncMode flow \<noteq> SM_managed
           then (s, Inr (refuse_run True ''Flow does not accept managed child tasks.'' (Some flow)))
           else if tf_cancelRequestedAt flow \<noteq> None
           then (s, Inr (refuse_run True ''Flow cancellation has already been requested.'' (Some flow)))
           else if isTerminalFlowStatus (tf_status flow)
           then (s, Inr (refuse_run True (already (flow_status_text (tf_status flow))) (Some flow)))
           else case (if rq_running p then createRunningTaskRun now uuid fuuid (flow_task_params p flow) s
                      else createQueuedTaskRun now uuid fuuid (flow_task_params p flow) s) of
                  (s, Inl e) \<Rightarrow> mapRunTaskInFlowCreateError e (tf_flowId flow) s
                | (s, Inr task) \<Rightarrow>
                    (case lookup_flow (tf_flowId flow) s of
                       (s, after) \<Rightarrow> (s, Inr \<lparr>rf_found = True, rf_created = True, rf_reason = None,
                          rf_flow = Some (or_value after flow), rf_task = Some task\<rparr>))))"

definition flow_for_owner :: "string \<Rightarrow> string \<Rightarrow> task_registry \<Rightarrow> task_registry \<times> TaskFlowRecord option" where
  "flow_for_owner flowId caller s =
     (case getTaskFlowByIdForOwner flowId caller (tg_flows s) of (fs, f) \<Rightarrow> (s\<lparr>tg_flows := fs\<rparr>, f))"

definition runTaskInFlowForOwner ::
  "int \<Rightarrow> string \<Rightarrow> string \<Rightarrow> string \<Rightarrow> string \<Rightarrow> RunTaskInFlowParams \<Rightarrow> task_registry \<Rightarrow>
   task_registry \<times> (task_error + RunTaskInFlowResult)" where
  "runTaskInFlowForOwner now uuid fuuid flowId caller p s =
     (case flow_for_owner flowId caller s of
        (s, None) \<Rightarrow> (s, Inr (refuse_run False ''Flow not found.'' None))
      | (s, Some flow) \<Rightarrow> runTaskInFlow now uuid fuuid (tf_flowId flow) p s)"

subsection \<open>Cancelling a flow\<close>

record CancelFlowResult =
  cf_found :: bool
  cf_cancelled :: bool
  cf_reason :: "string option"
  cf_flow :: "TaskFlowRecord option"
  cf_tasks :: "TaskRecord list option"

record FlowUpdateFailure =
  ff_reason :: string
  ff_flow :: "TaskFlowRecord option"

text \<open>What the two updates below return; the outer \<open>Inl\<close> is an error that is thrown.\<close>

definition update_outcome ::
  "string \<Rightarrow> flow_registry \<times> (flow_error + TaskFlowUpdateResult) \<Rightarrow> task_registry \<Rightarrow>
   task_registry \<times> (flow_error + (FlowUpdateFailure + TaskFlowRecord))" where
  "update_outcome flowId u s =
     (case u of
        (fs, Inl e) \<Rightarrow> (s\<lparr>tg_flows := fs\<rparr>, Inl e)
      | (fs, Inr (FU_applied f)) \<Rightarrow> (s\<lparr>tg_flows := fs\<rparr>, Inr (Inr f))
      | (fs, Inr (FU_conflict current)) \<Rightarrow> (s\<lparr>tg_flows := fs\<rparr>,
          Inr (Inl \<lparr>ff_reason = ''Flow changed while cancellation was in progress.'', ff_flow = Some current\<rparr>))
      | (fs, Inr FU_not_found) \<Rightarrow>
          (case lookup_flow flowId (s\<lparr>tg_flows := fs\<rparr>) of
             (s, f) \<Rightarrow> (s, Inr (Inl \<lparr>ff_reason = ''Flow not found.'', ff_flow = f\<rparr>))))"

definition markFlowCancelRequested ::
  "int \<Rightarrow> TaskFlowRecord \<Rightarrow> task_registry \<Rightarrow> task_registry \<times> (flow_error + (FlowUpdateFailure + TaskFlowRecord))" where
  "markFlowCancelRequested now flow s =
     (if tf_cancelRequestedAt flow \<noteq> None then (s, Inr (Inr flow))
      else update_outcome (tf_flowId flow)
             (requestFlowCancel now (tf_flowId flow) (tf_revision flow) None None (tg_flows s)) s)"

definition cancelManagedFlowAfterChildrenSettle ::
  "int \<Rightarrow> TaskFlowRecord \<Rightarrow> int \<Rightarrow> task_registry \<Rightarrow>
   task_registry \<times> (flow_error + (FlowUpdateFailure + TaskFlowRecord))" where
  "cancelManagedFlowAfterChildrenSettle now flow endedAt s =
     update_outcome (tf_flowId flow)
       (updateFlowRecordByIdExpectedRevision now (tf_flowId flow) (tf_revision flow) (cancel_patch endedAt) (tg_flows s)) s"

text \<open>\<open>cancelFlowById\<close> up to its first await: it returns, throws, or goes on with the flow and its active tasks.\<close>

definition refuse_cancel :: "string \<Rightarrow> TaskFlowRecord option \<Rightarrow> TaskRecord list \<Rightarrow> CancelFlowResult" where
  "refuse_cancel reason flow ts =
     \<lparr>cf_found = True, cf_cancelled = False, cf_reason = Some reason, cf_flow = flow, cf_tasks = Some ts\<rparr>"

definition cancel_flow_begin ::
  "int \<Rightarrow> string \<Rightarrow> task_registry \<Rightarrow>
   task_registry \<times> (flow_error + (CancelFlowResult + TaskFlowRecord \<times> TaskRecord list))" where
  "cancel_flow_begin now flowId s =
     (case lookup_flow flowId s of
        (s, None) \<Rightarrow> (s, Inr (Inl \<lparr>cf_found = False, cf_cancelled = False, cf_reason = Some ''Flow not found.'',
           cf_flow = None, cf_tasks = None\<rparr>))
      | (s, Some flow) \<Rightarrow>
          (if isTerminalFlowStatus (tf_status flow)
           then (case listTasksForFlowId (tf_flowId flow) s of
                   (s, ts) \<Rightarrow> (s, Inr (Inl (refuse_cancel (already (flow_status_text (tf_status flow))) (Some flow) ts))))
           else case markFlowCancelRequested now flow s of
                  (s, Inl e) \<Rightarrow> (s, Inl e)
                | (s, Inr (Inl failed)) \<Rightarrow>
                    (case listTasksForFlowId (tf_flowId flow) s of
                       (s, ts) \<Rightarrow> (s, Inr (Inl (refuse_cancel (ff_reason failed) (ff_flow failed) ts))))
                | (s, Inr (Inr requested)) \<Rightarrow>
                    (case listTasksForFlowId (tf_flowId flow) s of
                       (s, ts) \<Rightarrow> (s, Inr (Inr (requested, filter (\<lambda>t. isActiveTaskStatus (tr_status t)) ts))))))"

text \<open>The loop over the active tasks. For each, what the call for its session gives, and what other code does
  while it is awaited.\<close>

fun cancel_children ::
  "int \<Rightarrow> (string \<Rightarrow> task_op list) \<Rightarrow> (string \<Rightarrow> control_outcome) \<Rightarrow> TaskRecord list \<Rightarrow> task_registry \<Rightarrow> task_registry" where
  "cancel_children now others outcome [] s = s"
| "cancel_children now others outcome (t # ts) s =
     (case cancelTaskById (tr_taskId t) s of
        (s, Inl r) \<Rightarrow> cancel_children now others outcome ts (fold task_apply (others (tr_taskId t)) s)
      | (s, Inr (call, current)) \<Rightarrow>
          cancel_children now others outcome ts
            (fst (finish_cancel now current (outcome (tr_taskId t)) (fold task_apply (others (tr_taskId t)) s))))"

definition cancel_flow_end ::
  "int \<Rightarrow> TaskFlowRecord \<Rightarrow> task_registry \<Rightarrow> task_registry \<times> (flow_error + CancelFlowResult)" where
  "cancel_flow_end now requested s =
     (case listTasksForFlowId (tf_flowId requested) s of
        (s, refreshed) \<Rightarrow>
          (case lookup_flow (tf_flowId requested) s of
             (s, f) \<Rightarrow>
               (let flow = or_value f requested
                in if list_ex (\<lambda>t. isActiveTaskStatus (tr_status t)) refreshed
                   then (s, Inr (refuse_cancel ''One or more child tasks are still active.'' (Some flow) refreshed))
                   else if isTerminalFlowStatus (tf_status flow)
                   then (s, Inr \<lparr>cf_found = True, cf_cancelled = (tf_status flow = FS_cancelled),
                      cf_reason = (if tf_status flow = FS_cancelled then None
                                   else Some (already (flow_status_text (tf_status flow)))),
                      cf_flow = Some flow, cf_tasks = Some refreshed\<rparr>)
                   else case cancelManagedFlowAfterChildrenSettle now flow now s of
                          (s, Inl e) \<Rightarrow> (s, Inl e)
                        | (s, Inr (Inl failed)) \<Rightarrow>
                            (s, Inr (refuse_cancel (ff_reason failed) (ff_flow failed) refreshed))
                        | (s, Inr (Inr updated)) \<Rightarrow>
                            (s, Inr \<lparr>cf_found = True, cf_cancelled = True, cf_reason = None,
                               cf_flow = Some updated, cf_tasks = Some refreshed\<rparr>))))"

definition cancelFlowById ::
  "int \<Rightarrow> int \<Rightarrow> (string \<Rightarrow> task_op list) \<Rightarrow> (string \<Rightarrow> control_outcome) \<Rightarrow> string \<Rightarrow> task_registry \<Rightarrow>
   task_registry \<times> (flow_error + CancelFlowResult)" where
  "cancelFlowById now later others outcome flowId s =
     (case cancel_flow_begin now flowId s of
        (s, Inl e) \<Rightarrow> (s, Inl e)
      | (s, Inr (Inl r)) \<Rightarrow> (s, Inr r)
      | (s, Inr (Inr (requested, active))) \<Rightarrow>
          cancel_flow_end later requested (cancel_children later others outcome active s))"

definition cancelFlowByIdForOwner ::
  "int \<Rightarrow> int \<Rightarrow> (string \<Rightarrow> task_op list) \<Rightarrow> (string \<Rightarrow> control_outcome) \<Rightarrow> string \<Rightarrow> string \<Rightarrow> task_registry \<Rightarrow>
   task_registry \<times> (flow_error + CancelFlowResult)" where
  "cancelFlowByIdForOwner now later others outcome flowId caller s =
     (case flow_for_owner flowId caller s of
        (s, None) \<Rightarrow> (s, Inr \<lparr>cf_found = False, cf_cancelled = False, cf_reason = Some ''Flow not found.'',
           cf_flow = None, cf_tasks = None\<rparr>)
      | (s, Some flow) \<Rightarrow> cancelFlowById now later others outcome (tf_flowId flow) s)"

definition cancelDetachedTaskRunById ::
  "string \<Rightarrow> task_registry \<Rightarrow> task_registry \<times> (CancelResult + cancel_call \<times> TaskRecord)" where
  "cancelDetachedTaskRunById = cancelTaskById"

subsection \<open>Cancelling a flow is sound\<close>

lemma flows_at_ready_tasks [simp]: "flows_at m (ensureTaskRegistryReady s) \<longleftrightarrow> flows_at m s"
  by (simp add: flows_at_def)

lemma ready_at:
  assumes "flow_inv (tg_flows s)"
  shows "flows_at (fr_flows (ensureFlowRegistryReady (tg_flows s))) (s\<lparr>tg_flows := ensureFlowRegistryReady (tg_flows s)\<rparr>)"
  using ready_inv [OF assms] by (simp add: flows_at_def)

lemma lookup_ready: "lookup_flow i s = (s\<lparr>tg_flows := ensureFlowRegistryReady (tg_flows s)\<rparr>,
    jget (fr_flows (ensureFlowRegistryReady (tg_flows s))) i)"
  by (simp add: lookup_flow_def getTaskFlowById_def Let_def)

lemma linked_ready: "listTasksForFlowId i s = (ensureTaskRegistryReady s, snd (listTasksForFlowId i s))"
  by (simp add: listTasksForFlowId_def Let_def)

lemma linked_frame [simp]:
  "snd (listTasksForFlowId i (s\<lparr>tg_flows := x\<rparr>)) = snd (listTasksForFlowId i s)"
  "snd (listTasksForFlowId i (ensureTaskRegistryReady s)) = snd (listTasksForFlowId i s)"
  by (simp_all add: listTasksForFlowId_def Let_def)

lemma flow_inv_children: "flow_inv (tg_flows s) \<Longrightarrow> flow_inv (tg_flows (cancel_children now others outcome ts s))"
proof (induction ts arbitrary: s)
  case (Cons t ts)
  let ?i = "tr_taskId t"
  obtain s1 r where c: "cancelTaskById ?i s = (s1, r)" by fastforce
  have "tg_flows s1 = tg_flows s" using c by (auto simp: cancelTaskById_def Let_def)
  then have i1: "flow_inv (tg_flows s1)" using Cons.prems by simp
  let ?s2 = "fold task_apply (others ?i) s1"
  have i2: "flow_inv (tg_flows ?s2)" using flows_of_tasks.inv_run [OF i1] .
  show ?case
  proof (cases r)
    case (Inl x)
    with c Cons.IH [OF i2] show ?thesis by simp
  next
    case (Inr q)
    obtain call current where q: "q = (call, current)" by force
    have "flow_inv (tg_flows (fst (finish_cancel now current (outcome ?i) ?s2)))"
      using flow_inv_task_apply [OF i2, of "K_finishCancel now current (outcome ?i)"] by simp
    from Cons.IH [OF this] c Inr q show ?thesis by simp
  qed
qed simp

lemma requested_flow:
  assumes inv: "flow_inv (tg_flows s)" and b: "cancel_flow_begin now flowId s = (s', Inr (Inr (requested, active)))"
  shows "tf_flowId requested = flowId \<and> \<not> isTerminalFlowStatus (tf_status requested) \<and> flow_inv (tg_flows s')"
proof -
  let ?m = "fr_flows (ensureFlowRegistryReady (tg_flows s))"
  let ?s = "s\<lparr>tg_flows := ensureFlowRegistryReady (tg_flows s)\<rparr>"
  note at = ready_at [OF inv]
  from b obtain f where f: "jget ?m flowId = Some f" by (cases "jget ?m flowId") (auto simp: cancel_flow_begin_def lookup_ready)
  have id: "tf_flowId f = flowId" using wf_at [OF at f] by simp
  have nt: "\<not> isTerminalFlowStatus (tf_status f)"
    using b f by (auto simp: cancel_flow_begin_def lookup_ready split: prod.splits if_splits)
  show ?thesis
  proof (cases "tf_cancelRequestedAt f")
    case (Some c)
    then have "markFlowCancelRequested now f ?s = (?s, Inr (Inr f))" by (simp add: markFlowCancelRequested_def)
    with b f nt have "requested = f \<and> s' = ensureTaskRegistryReady ?s"
      by (subst (asm) cancel_flow_begin_def, subst (asm) linked_ready) (simp add: lookup_ready)
    with id nt at show ?thesis by (simp add: flows_at_def)
  next
    case None
    let ?p = "no_patch\<lparr>fp_cancelRequestedAt := Some (Some now), fp_updatedAt := None\<rparr>"
    have f': "jget ?m (tf_flowId f) = Some f" using f id by simp
    have "fp_controllerId ?p = None" by (simp add: no_patch_def)
    from expected_at [OF at f' this, of now] obtain fs where
      up: "updateFlowRecordByIdExpectedRevision now (tf_flowId f) (tf_revision f) ?p (tg_flows ?s) =
        (fs, Inr (FU_applied (patched_flow now f ?p)))"
      and at': "flows_at (jset ?m (tf_flowId f) (patched_flow now f ?p)) (?s\<lparr>tg_flows := fs\<rparr>)" by blast
    have "markFlowCancelRequested now f ?s = (?s\<lparr>tg_flows := fs\<rparr>, Inr (Inr (patched_flow now f ?p)))"
      using None up by (simp add: markFlowCancelRequested_def requestFlowCancel_def update_outcome_def)
    with b f nt have "requested = patched_flow now f ?p \<and> s' = ensureTaskRegistryReady (?s\<lparr>tg_flows := fs\<rparr>)"
      by (subst (asm) cancel_flow_begin_def, subst (asm) linked_ready) (simp add: lookup_ready)
    moreover have "tf_flowId (patched_flow now f ?p) = tf_flowId f" "tf_status (patched_flow now f ?p) = tf_status f"
      by (simp_all add: patched_flow_def no_patch_def)
    ultimately show ?thesis using id nt at' by (simp add: flows_at_def)
  qed
qed

lemma ended_flow:
  assumes inv: "flow_inv (tg_flows s)" and nt: "\<not> isTerminalFlowStatus (tf_status requested)"
    and e: "cancel_flow_end now requested s = (s', Inr r)" and c: "cf_cancelled r"
  shows "\<exists>f. snd (lookup_flow (tf_flowId requested) s') = Some f \<and> cf_flow r = Some f \<and> tf_status f = FS_cancelled \<and>
    cf_tasks r = Some (snd (listTasksForFlowId (tf_flowId requested) s')) \<and>
    list_all (\<lambda>t. \<not> isActiveTaskStatus (tr_status t)) (snd (listTasksForFlowId (tf_flowId requested) s'))"
proof -
  let ?i = "tf_flowId requested" let ?ts = "snd (listTasksForFlowId ?i s)"
  let ?fs = "ensureFlowRegistryReady (tg_flows s)" let ?m = "fr_flows ?fs"
  let ?s = "(ensureTaskRegistryReady s)\<lparr>tg_flows := ?fs\<rparr>"
  have at: "flows_at ?m ?s" using ready_inv [OF inv] by (simp add: flows_at_def)
  have unf: "cancel_flow_end now requested s =
     (let flow = or_value (jget ?m ?i) requested
      in if list_ex (\<lambda>t. isActiveTaskStatus (tr_status t)) ?ts
         then (?s, Inr (refuse_cancel ''One or more child tasks are still active.'' (Some flow) ?ts))
         else if isTerminalFlowStatus (tf_status flow)
         then (?s, Inr \<lparr>cf_found = True, cf_cancelled = (tf_status flow = FS_cancelled),
            cf_reason = (if tf_status flow = FS_cancelled then None
                         else Some (already (flow_status_text (tf_status flow)))),
            cf_flow = Some flow, cf_tasks = Some ?ts\<rparr>)
         else case cancelManagedFlowAfterChildrenSettle now flow now ?s of
                (s, Inl e) \<Rightarrow> (s, Inl e)
              | (s, Inr (Inl failed)) \<Rightarrow> (s, Inr (refuse_cancel (ff_reason failed) (ff_flow failed) ?ts))
              | (s, Inr (Inr updated)) \<Rightarrow> (s, Inr \<lparr>cf_found = True, cf_cancelled = True, cf_reason = None,
                     cf_flow = Some updated, cf_tasks = Some ?ts\<rparr>))"
    unfolding cancel_flow_end_def by (subst linked_ready) (simp only: prod.case lookup_ready ready_tasks_flows)
  have quiet: "\<not> list_ex (\<lambda>t. isActiveTaskStatus (tr_status t)) ?ts"
    using e c unfolding unf by (auto simp: Let_def refuse_cancel_def split: if_splits)
  then have quiet': "list_all (\<lambda>t. \<not> isActiveTaskStatus (tr_status t)) ?ts" by (simp add: list_ex_iff list_all_iff)
  show ?thesis
  proof (cases "jget ?m ?i")
    case None
    have "updateFlowRecordByIdExpectedRevision now ?i (tf_revision requested) (cancel_patch now) ?fs = (?fs, Inr FU_not_found)"
      using None by (simp add: updateFlowRecordByIdExpectedRevision_def Let_def)
    then have "\<exists>s1 x. cancelManagedFlowAfterChildrenSettle now requested now ?s = (s1, Inr (Inl x))"
      by (simp add: cancelManagedFlowAfterChildrenSettle_def update_outcome_def lookup_ready)
    with e c quiet nt None show ?thesis unfolding unf by (auto simp: refuse_cancel_def)
  next
    case (Some f)
    have id: "tf_flowId f = ?i" using wf_at [OF at Some] by simp
    show ?thesis
    proof (cases "isTerminalFlowStatus (tf_status f)")
      case True
      with e quiet Some have "s' = ?s" and r: "cf_cancelled r = (tf_status f = FS_cancelled)" "cf_flow r = Some f"
        "cf_tasks r = Some ?ts" unfolding unf by auto
      with c quiet' Some lookup_at [OF at, of ?i] show ?thesis by simp
    next
      case False
      let ?g = "patched_flow now f (cancel_patch now)"
      have f': "jget ?m (tf_flowId f) = Some f" using Some id by simp
      have "fp_controllerId (cancel_patch now) = None" by (simp add: cancel_patch_def no_patch_def)
      from expected_at [OF at f' this, of now] obtain gs where
        up: "updateFlowRecordByIdExpectedRevision now (tf_flowId f) (tf_revision f) (cancel_patch now) (tg_flows ?s) =
          (gs, Inr (FU_applied ?g))"
        and at': "flows_at (jset ?m (tf_flowId f) ?g) (?s\<lparr>tg_flows := gs\<rparr>)" by blast
      have "cancelManagedFlowAfterChildrenSettle now f now ?s = (?s\<lparr>tg_flows := gs\<rparr>, Inr (Inr ?g))"
        using up by (simp add: cancelManagedFlowAfterChildrenSettle_def update_outcome_def)
      with e quiet Some False have s': "s' = ?s\<lparr>tg_flows := gs\<rparr>" and r: "cf_flow r = Some ?g" "cf_tasks r = Some ?ts"
        unfolding unf by auto
      have "tf_status ?g = FS_cancelled" by (simp add: patched_flow_def cancel_patch_def no_patch_def)
      with s' r quiet' lookup_at [OF at', of ?i] id show ?thesis by simp
    qed
  qed
qed

text \<open>C37: A flow that is reported cancelled is cancelled. Whatever other code does while the cancellation of the
  tasks is awaited, and whatever the calls for their sessions give: if \<open>cancelFlowById\<close> reports success, the flow
  it returns is the stored one, it is cancelled, and none of its tasks is active.\<close>

theorem cancel_flow_sound:
  assumes "table_wf frows"
    and "s = fold task_apply xs (fresh_task_process tenv rows drows fails (fresh_flow_process frows err))"
    and "cancelFlowById now later others outcome flowId s = (s', Inr r)" and "cf_cancelled r"
  shows "\<exists>f. snd (lookup_flow flowId s') = Some f \<and> cf_flow r = Some f \<and> tf_status f = FS_cancelled \<and>
    cf_tasks r = Some (snd (listTasksForFlowId flowId s')) \<and>
    list_all (\<lambda>t. \<not> isActiveTaskStatus (tr_status t)) (snd (listTasksForFlowId flowId s'))"
proof -
  have "flow_inv (fresh_flow_process frows err)" using assms(1) by (rule flow_inv_fresh)
  then have inv: "flow_inv (tg_flows s)"
    unfolding assms(2) by (intro flows_of_tasks.inv_run) (simp add: fresh_task_process_def)
  obtain s1 b where b: "cancel_flow_begin now flowId s = (s1, b)" by fastforce
  have early: "\<not> cf_cancelled r" if "b = Inr (Inl r)" for r
    using b that by (auto simp: cancel_flow_begin_def refuse_cancel_def split: prod.splits option.splits sum.splits if_splits)
  from assms(3,4) b early obtain requested active where
    r: "b = Inr (Inr (requested, active))" and
    e: "cancel_flow_end later requested (cancel_children later others outcome active s1) = (s', Inr r)"
    by (cases b) (auto simp: cancelFlowById_def split: sum.splits)
  from requested_flow [OF inv, of now flowId s1 requested active] b r
  have q: "tf_flowId requested = flowId" "\<not> isTerminalFlowStatus (tf_status requested)" "flow_inv (tg_flows s1)" by simp_all
  from ended_flow [OF flow_inv_children [OF q(3)] q(2) e assms(4)] q(1) show ?thesis by simp
qed

definition demo_children :: "task_op list" where
  "demo_children = [K_flow (FL_create 1 ''f'' demo_flow_params),
     K_create 2 ''a'' (demo_params ''r1''\<lparr>kp_parentFlowId := Some ''f''\<rparr>)]"

text \<open>While the session of the task is being closed, which fails, other code removes the task.\<close>

definition demo_others :: "string \<Rightarrow> task_op list" where
  "demo_others i = [K_delete i]"

lemma cancel_flow_sound_witness:
  "\<exists>s' r f. cancelFlowById 5 7 demo_others (\<lambda>_. CO_threw ''gone'') ''f'' (fold task_apply demo_children demo_world) = (s', Inr r) \<and>
     cf_cancelled r \<and> snd (lookup_flow ''f'' s') = Some f \<and> tf_status f = FS_cancelled"
proof -
  let ?s = "fold task_apply demo_children demo_world"
  let ?c = "cancelFlowById 5 7 demo_others (\<lambda>_. CO_threw ''gone'') ''f'' ?s"
  have "let s = ?s; c = cancelFlowById 5 7 demo_others (\<lambda>_. CO_threw ''gone'') ''f'' s in
      case c of (_, Inr r) \<Rightarrow> cf_cancelled r | _ \<Rightarrow> False" by code_simp
  then have "case ?c of (_, Inr r) \<Rightarrow> cf_cancelled r | _ \<Rightarrow> False" unfolding Let_def .
  then obtain s' r where c: "?c = (s', Inr r)" "cf_cancelled r" by (cases ?c) (metis (no_types, lifting) old.sum.simps prod.case sum.exhaust)
  have w: "table_wf []" by simp
  have "?s = fold task_apply demo_children (fresh_task_process demo_env [] [] False (fresh_flow_process [] None))"
    by (simp only: demo_world_def)
  from cancel_flow_sound [OF w this c] obtain f where "snd (lookup_flow ''f'' s') = Some f" "tf_status f = FS_cancelled" by blast
  with c show ?thesis by blast
qed

subsection \<open>The flow of a detached run\<close>

lemma merge_result:
  assumes "mergeExistingTaskForCreate now x p s = (s', Inr t)" and "jget (tg_tasks s) (tr_taskId x) = Some x"
  shows "jget (tg_tasks s') (tr_taskId x) = Some t \<and> (t = x \<or> t = stamp_cleanup now (patch_task (merge_patch x p) x))"
proof -
  let ?o = "normalizeDeliveryContext (tg_env s) (kp_requesterOrigin p)"
  let ?cur = "jget (tg_deliveryStates s) (tr_taskId x)"
  let ?s1 = "if ?o \<noteq> None \<and> (case ?cur of Some st \<Rightarrow> ds_requesterOrigin st | None \<Rightarrow> None) = None
    then upsertTaskDeliveryState (tr_taskId x) ?o (case ?cur of Some st \<Rightarrow> ds_lastNotifiedEventAt st | None \<Rightarrow> None) s else s"
  let ?q = "merge_patch x p"
  obtain s2 l where l: "(if pa_parentFlowId ?q \<noteq> None
      then assertParentFlowLinkAllowed (tr_ownerKey x) (tr_scopeKind x) (kp_parentFlowId p) ?s1 else (?s1, Inr ())) = (s2, l)"
    by fastforce
  have "core ?s1 = core s" by simp
  then have "core (fst (if pa_parentFlowId ?q \<noteq> None
      then assertParentFlowLinkAllowed (tr_ownerKey x) (tr_scopeKind x) (kp_parentFlowId p) ?s1 else (?s1, Inr ()))) = core s"
    by (cases "pa_parentFlowId ?q = None") (simp_all only: if_True if_False core_link fst_conv simp_thms)
  then have "core s2 = core s" unfolding l by simp
  then have x: "jget (tg_tasks s2) (tr_taskId x) = Some x" using assms(2) tasks_core by metis
  have m: "mergeExistingTaskForCreate now x p s =
      and_then (s2, l) (\<lambda>_ s. if ?q = empty_patch then (s, Inr x)
        else (case updateTask now (tr_taskId x) ?q s of (s, t) \<Rightarrow> (s, Inr (or_value t x))))"
    unfolding mergeExistingTaskForCreate_def Let_def l ..
  show ?thesis
  proof (cases "?q = empty_patch")
    case True
    with m assms(1) x show ?thesis by (cases l) simp_all
  next
    case False
    have snd: "snd (updateTask now (tr_taskId x) ?q s2) = Some (stamp_cleanup now (patch_task ?q x))"
      using x by (simp add: updateTask_def Let_def)
    have tasks: "jget (tg_tasks (fst (updateTask now (tr_taskId x) ?q s2))) (tr_taskId x) =
        Some (stamp_cleanup now (patch_task ?q x))"
      using x by (simp add: updateTask_tasks)
    from m False assms(1) snd tasks show ?thesis by (cases l) (auto simp: case_prod_beta)
  qed
qed

lemma create_new:
  assumes new: "jget (tg_tasks (ensureTaskRegistryReady s)) uuid = None" and inv: "reg_inv s"
    and c: "createTaskRecord now uuid p s = (s', Inr t)" and id: "tr_taskId t = uuid"
    and st: "kp_status p = Some st" "\<not> isTerminalTaskStatus st"
  shows "jget (tg_tasks s') uuid = Some t \<and> tg_restoreAttempted s' \<and> tr_status t = st \<and>
    (tr_scopeKind t = SK_system \<or> trimmed (tr_ownerKey t) \<noteq> None)"
proof -
  let ?r = "ensureTaskRegistryReady s"
  let ?k = "resolveTaskRequesterSessionKey p" let ?sc = "resolveTaskScopeKind (kp_scopeKind p) ?k"
  let ?ow = "resolveTaskOwnerKey ?k (kp_ownerKey p)"
  have own: "trimmed ?ow \<noteq> None \<or> ?sc = SK_system"
    using c by (auto simp: createTaskRecord_def Let_def split: if_splits)
  then have blank: "\<not> (trimmed ?ow = None \<and> ?sc \<noteq> SK_system)" by blast
  obtain s1 l where l: "assertParentFlowLinkAllowed ?ow ?sc (kp_parentFlowId p) ?r = (s1, l)" by fastforce
  have v1: "view s1 = view ?r" using view_link [of ?ow ?sc "kp_parentFlowId p" ?r] l by simp
  have "core s1 = core ?r" using core_link [of ?ow ?sc "kp_parentFlowId p" ?r] l by simp
  then have inv1: "reg_inv s1" using ready_reg_inv [OF inv] reg_inv_cong by blast
  have new1: "jget (tg_tasks s1) uuid = None" using new view_tasks [OF v1] by simp
  from c l blank have body: "(case findExistingTaskForCreate ?ow ?sc p s1 of
      Some existing \<Rightarrow> mergeExistingTaskForCreate now existing p s1
    | None \<Rightarrow> (let r = new_task_record now uuid ?k ?sc ?ow p;
                 s = insert_task now r (kp_requesterOrigin p) s1;
                 s = (if isTerminalTaskStatus (tr_status r) then maybeDeliverTaskTerminalUpdate now uuid s else s)
             in (s, Inr r))) = (s', Inr t)"
    by (cases l) (simp_all add: createTaskRecord_def Let_def)
  have "findExistingTaskForCreate ?ow ?sc p s1 = None"
  proof (rule ccontr)
    assume "findExistingTaskForCreate ?ow ?sc p s1 \<noteq> None"
    then obtain x where x: "findExistingTaskForCreate ?ow ?sc p s1 = Some x" by blast
    have "jget (tg_tasks s1) (tr_taskId x) = Some x" using found_is_stored [OF inv1 x] by simp
    moreover have "mergeExistingTaskForCreate now x p s1 = (s', Inr t)" using body x by simp
    ultimately have "t = x \<or> t = stamp_cleanup now (patch_task (merge_patch x p) x)" using merge_result by blast
    then have "tr_taskId t = tr_taskId x" by (auto simp: stamp_cleanup_def patch_task_def)
    with \<open>jget (tg_tasks s1) (tr_taskId x) = Some x\<close> show False using id new1 by simp
  qed
  moreover have new: "tr_status (new_task_record now uuid ?k ?sc ?ow p) = st"
    using st by (simp add: new_task_record_def Let_def stamp_cleanup_def)
  ultimately have t: "t = new_task_record now uuid ?k ?sc ?ow p" and s': "s' = insert_task now t (kp_requesterOrigin p) s1"
    using body st by (auto simp: Let_def split: if_splits)
  have "view (insert_task now t (kp_requesterOrigin p) s1) = view (s1\<lparr>tg_tasks := jset (tg_tasks s1) uuid t\<rparr>)"
    using view_insert [of now t "kp_requesterOrigin p" s1] id by simp
  moreover have "tg_restoreAttempted s1" using v1 ready_restored [of s] by (simp add: view_def)
  moreover have "tr_scopeKind t = ?sc" "tr_ownerKey t = ?ow" unfolding t by (simp_all add: new_task_record_def Let_def stamp_cleanup_def)
  ultimately show ?thesis using own new [folded t] unfolding s' by (auto simp: view_def)
qed

text \<open>A mirrored flow takes over the status of its task.\<close>

lemma mirrored_sync:
  assumes at: "flows_at m s" and f: "jget m i = Some f" "tf_syncMode f = SM_task_mirrored"
    and i: "normalizeText (tr_parentFlowId t) = Some i"
  shows "\<exists>fs r g. syncFlowFromTask now t (tg_flows s) = (fs, r) \<and> flows_at (jset m i g) (s\<lparr>tg_flows := fs\<rparr>) \<and>
    tf_syncMode g = SM_task_mirrored \<and> tf_status g = deriveTaskFlowStatusFromTask t \<and> tf_ownerKey g = tf_ownerKey f"
proof -
  have inv: "flow_inv (tg_flows s)" and att: "fr_restoreAttempted (tg_flows s)" and m: "fr_flows (tg_flows s) = m"
    using at by (simp_all add: flows_at_def)
  have wf: "flow_wf f" "tf_flowId f = i" using wf_at [OF at f(1)] by simp_all
  have up: "\<exists>fs r. updateFlowRecordByIdUnchecked now i p (tg_flows s) = (fs, r) \<and>
      flows_at (jset m i (patched_flow now f p)) (s\<lparr>tg_flows := fs\<rparr>)" for p
  proof -
    let ?g = "patched_flow now f p" let ?w = "writeFlowRecord ?g (Some f) (tg_flows s)"
    have ap: "applyFlowPatch now f p = Inr ?g" using f(2) by (simp add: applyFlowPatch_def)
    have g: "flow_wf ?g" "tf_flowId ?g = i" using patch_wf [OF wf(1) ap] wf(2) by simp_all
    have "updateFlowRecordByIdUnchecked now i p (tg_flows s) = (fst ?w, Inr (Some (snd ?w)))"
      using f(1) m att ap by (simp add: updateFlowRecordByIdUnchecked_def Let_def ready_id case_prod_beta)
    moreover have "flows_at (jset m i ?g) (s\<lparr>tg_flows := fst ?w\<rparr>)"
      using write_inv [OF inv g(1), of "Some f"] att m g(2) by (simp add: flows_at_def)
    ultimately show ?thesis by blast
  qed
  have get: "getTaskFlowById i (tg_flows s) = (tg_flows s, Some f)"
    using f(1) m att by (simp add: getTaskFlowById_def Let_def ready_id)
  let ?st = "deriveTaskFlowStatusFromTask t"
  let ?p = "no_patch\<lparr>fp_status := Some ?st, fp_notifyPolicy := Some (tr_notifyPolicy t), fp_goal := Some (resolveFlowGoal t),
    fp_blockedTaskId := Some (if ?st = FS_blocked then trimmed (tr_taskId t) else None),
    fp_blockedSummary := Some (if ?st = FS_blocked then resolveFlowBlockedSummary t else None), fp_waitJson := Some JNull,
    fp_updatedAt := Some (or_value (tr_lastEventAt t) now),
    fp_endedAt := Some (if ends_flow ?st then Some (or_value (or_else (tr_endedAt t) (tr_lastEventAt t)) now) else None)\<rparr>"
  from up [of ?p] obtain fs r where u: "updateFlowRecordByIdUnchecked now i ?p (tg_flows s) = (fs, r)"
    "flows_at (jset m i (patched_flow now f ?p)) (s\<lparr>tg_flows := fs\<rparr>)" by blast
  have "syncFlowFromTask now t (tg_flows s) = (fs, r)"
    using i get f(2) u(1) by (simp add: syncFlowFromTask_def Let_def)
  moreover have "tf_syncMode (patched_flow now f ?p) = SM_task_mirrored" "tf_status (patched_flow now f ?p) = ?st"
    "tf_ownerKey (patched_flow now f ?p) = tf_ownerKey f" using f(2) by (simp_all add: patched_flow_def)
  ultimately show ?thesis using u(2) by blast
qed

lemma flow_for_task:
  assumes inv: "flow_inv (tg_flows s)" and own: "trimmed (tr_ownerKey t) = Some k"
  shows "\<exists>m f s'. create_flow_for now i t org s = (s', Inr f) \<and> s' = s\<lparr>tg_flows := tg_flows s'\<rparr> \<and> flows_at (jset m i f) s' \<and>
    tf_flowId f = i \<and> tf_syncMode f = SM_task_mirrored \<and> tf_status f = deriveTaskFlowStatusFromTask t \<and> tf_ownerKey f = k \<and>
    tf_cancelRequestedAt f = None"
proof -
  let ?st = "deriveTaskFlowStatusFromTask t" let ?r = "ensureFlowRegistryReady (tg_flows s)"
  let ?p = "\<lparr>cp_syncMode = Some SM_task_mirrored, cp_ownerKey = tr_ownerKey t, cp_requesterOrigin = org,
    cp_controllerId = None, cp_revision = None, cp_status = Some ?st, cp_notifyPolicy = Some (tr_notifyPolicy t),
    cp_goal = resolveFlowGoal t, cp_currentStep = None,
    cp_blockedTaskId = (if ?st = FS_blocked then trimmed (tr_taskId t) else None),
    cp_blockedSummary = resolveFlowBlockedSummary t, cp_stateJson = None, cp_waitJson = None, cp_cancelRequestedAt = None,
    cp_createdAt = Some (tr_createdAt t), cp_updatedAt = Some (or_value (tr_lastEventAt t) (tr_createdAt t)),
    cp_endedAt = (if ends_flow ?st then Some (or_value (or_else (tr_endedAt t) (tr_lastEventAt t)) (tr_createdAt t)) else None)\<rparr>"
  obtain f where f: "buildFlowRecord now i ?p = Inr f" and f': "tf_syncMode f = SM_task_mirrored" "tf_status f = ?st"
    "tf_ownerKey f = k" "tf_cancelRequestedAt f = None"
    using own by (simp add: buildFlowRecord_def Let_def assertFlowOwnerKey_def)
  have wf: "flow_wf f" "tf_flowId f = i" using build_wf [OF f] by simp_all
  let ?w = "writeFlowRecord f None ?r"
  have w: "?w = (fst ?w, f)" by (simp add: writeFlowRecord_def)
  have "createTaskFlowForTask now i t org (tg_flows s) = (fst ?w, Inr f)"
    unfolding createTaskFlowForTask_def Let_def createFlowRecord_def f by (simp add: case_prod_beta, simp add: writeFlowRecord_def)
  then have "create_flow_for now i t org s = (s\<lparr>tg_flows := fst ?w\<rparr>, Inr f)" by (simp add: create_flow_for_def)
  moreover have "flows_at (jset (fr_flows ?r) i f) (s\<lparr>tg_flows := fst ?w\<rparr>)"
    using write_inv [OF ready_inv [OF inv] wf(1), of None] wf(2) by (simp add: flows_at_def)
  ultimately show ?thesis using f' wf(2) by (intro exI [of _ "fr_flows ?r"] exI [of _ f] exI [of _ "s\<lparr>tg_flows := fst ?w\<rparr>"]) simp
qed

lemma reindex_flows [simp]: "tg_flows (persistTaskUpsert n (reindex_task p i c n' s)) = tg_flows s"
  by (simp add: persistTaskUpsert_def reindex_task_def Let_def)

lemma linked_update:
  assumes at: "flows_at m s" and f: "jget m i = Some f" "tf_syncMode f = SM_task_mirrored"
    and t: "jget (tg_tasks s) u = Some t" and live: "\<not> isTerminalTaskStatus (tr_status t)" and i: "trimmed i = Some i"
  shows "\<exists>m' g s'. updateTask now u (empty_patch\<lparr>pa_parentFlowId := Some (Some i)\<rparr>) s = (s', Some (t\<lparr>tr_parentFlowId := Some i\<rparr>)) \<and>
    jget (tg_tasks s') u = Some (t\<lparr>tr_parentFlowId := Some i\<rparr>) \<and> flows_at m' s' \<and> jget m' i = Some g \<and>
    tf_syncMode g = SM_task_mirrored \<and> tf_status g = deriveTaskFlowStatusFromTask t \<and> tf_ownerKey g = tf_ownerKey f"
proof -
  let ?q = "empty_patch\<lparr>pa_parentFlowId := Some (Some i)\<rparr>" let ?n = "t\<lparr>tr_parentFlowId := Some i\<rparr>"
  have n: "stamp_cleanup now (patch_task ?q t) = ?n"
    using live by (simp add: stamp_cleanup_def patch_task_def empty_patch_def)
  let ?s1 = "persistTaskUpsert ?n (reindex_task ?q u t ?n s)"
  have at1: "flows_at m ?s1" using at by (simp add: flows_at_def)
  have i': "normalizeText (tr_parentFlowId ?n) = Some i" using i by (simp add: normalizeText_def)
  from mirrored_sync [OF at1 f i', of now] obtain fs r g where
    sync: "syncFlowFromTask now ?n (tg_flows ?s1) = (fs, r)" and at2: "flows_at (jset m i g) (?s1\<lparr>tg_flows := fs\<rparr>)"
    and g: "tf_syncMode g = SM_task_mirrored" "tf_status g = deriveTaskFlowStatusFromTask ?n" "tf_ownerKey g = tf_ownerKey f" by blast
  have man: "syncManagedFlowCancellationFromTask now ?n (?s1\<lparr>tg_flows := fs\<rparr>) = ?s1\<lparr>tg_flows := fs\<rparr>"
    using i' g(1) lookup_at [OF at2, of i] by (simp add: syncManagedFlowCancellationFromTask_def awaits_cancel_def)
  have "updateTask now u ?q s = (?s1\<lparr>tg_flows := fs\<rparr>, Some ?n)"
    using t n sync man by (simp add: updateTask_def Let_def)
  moreover have "jget (tg_tasks (?s1\<lparr>tg_flows := fs\<rparr>)) u = Some ?n" by simp
  moreover have "deriveTaskFlowStatusFromTask ?n = deriveTaskFlowStatusFromTask t"
    by (simp add: deriveTaskFlowStatusFromTask_def)
  moreover have "jget (jset m i g) i = Some g" by simp
  ultimately show ?thesis using at2 g by metis
qed

lemma ensure_links:
  assumes inv: "flow_inv (tg_flows s)" and att: "tg_restoreAttempted s" and t: "jget (tg_tasks s) (tr_taskId t) = Some t"
    and live: "\<not> isTerminalTaskStatus (tr_status t)" and own: "trimmed (tr_ownerKey t) \<noteq> None"
    and el: "isOneTaskFlowEligible t" and i: "trimmed i = Some i"
  shows "\<exists>s' g. ensureSingleTaskFlow now i t org s = (s', t\<lparr>tr_parentFlowId := Some i\<rparr>) \<and>
    jget (tg_tasks s') (tr_taskId t) = Some (t\<lparr>tr_parentFlowId := Some i\<rparr>) \<and> snd (lookup_flow i s') = Some g \<and>
    tf_syncMode g = SM_task_mirrored \<and> tf_status g = deriveTaskFlowStatusFromTask t \<and>
    trimmed (tr_ownerKey t) = Some (tf_ownerKey g)"
proof -
  let ?q = "empty_patch\<lparr>pa_parentFlowId := Some (Some i)\<rparr>" let ?n = "t\<lparr>tr_parentFlowId := Some i\<rparr>"
  obtain k where k: "trimmed (tr_ownerKey t) = Some k" using own by blast
  from flow_for_task [OF inv k, of now i org] obtain m f s1 where
    c: "create_flow_for now i t org s = (s1, Inr f)" "s1 = s\<lparr>tg_flows := tg_flows s1\<rparr>" and at: "flows_at (jset m i f) s1"
    and f: "tf_flowId f = i" "tf_syncMode f = SM_task_mirrored" "tf_status f = deriveTaskFlowStatusFromTask t" "tf_ownerKey f = k"
      "tf_cancelRequestedAt f = None" by blast
  have s1: "tg_tasks s1 = tg_tasks s" "tg_restoreAttempted s1 = tg_restoreAttempted s"
    by (subst c(2), simp)+
  let ?s2 = "s1\<lparr>tg_listening := True\<rparr>"
  have r: "ensureTaskRegistryReady s1 = ?s2" using s1 att by (simp add: ready_restored_id)
  have at2: "flows_at (jset m i f) ?s2" using at by (simp add: flows_at_def)
  have none: "normalizeText (tr_parentFlowId t) = None" and sess: "tr_scopeKind t = SK_session"
    using el by (auto simp: isOneTaskFlowEligible_def split: if_splits)
  have nt: "\<not> isTerminalFlowStatus (deriveTaskFlowStatusFromTask t)"
    using live by (auto simp: isTerminalTaskStatus_def isTerminalFlowStatus_def deriveTaskFlowStatusFromTask_def
        split: BgTaskStatus.splits)
  have ok: "assertParentFlowLinkAllowed (tr_ownerKey t) (tr_scopeKind t) (Some i) ?s2 = (?s2, Inr ())"
    using i sess lookup_at [OF at2, of i] f nt k trimmed_tidy [OF k]
    by (simp add: assertParentFlowLinkAllowed_def normalizeText_def)
  have t2: "jget (tg_tasks ?s2) (tr_taskId t) = Some t" using t s1 by simp
  from linked_update [OF at2 _ f(2) t2 live i, of now] obtain m' g s' where
    u: "updateTask now (tr_taskId t) ?q ?s2 = (s', Some ?n)" "jget (tg_tasks s') (tr_taskId t) = Some ?n"
    and at': "flows_at m' s'" "jget m' i = Some g"
    and g: "tf_syncMode g = SM_task_mirrored" "tf_status g = deriveTaskFlowStatusFromTask t" "tf_ownerKey g = tf_ownerKey f"
    by auto
  have "linkTaskToFlowById now (tr_taskId t) i s1 = (s', Inr (Some ?n))"
    using t2 none i ok u(1) by (simp add: linkTaskToFlowById_def Let_def r)
  with c(1) el f(1) have "ensureSingleTaskFlow now i t org s = (s', ?n)" by (simp add: ensureSingleTaskFlow_def)
  moreover have "snd (lookup_flow i s') = Some g" using lookup_at [OF at'(1), of i] at'(2) by simp
  ultimately show ?thesis using u(2) g f(4) k by auto
qed

text \<open>C38: A detached run gets a flow of its own. After any history of tasks and flows: when a run is created, queued
  or running, as a new task of an agent's session that has no parent flow and whose end is to be delivered, the task
  that is returned and stored is linked to the new flow, which exists, mirrors the task's status and has its owner.\<close>

theorem single_task_flow:
  assumes "jwf rows" and "\<And>i row. jget rows i = Some row \<Longrightarrow> rw_task_id row = i" and "table_wf frows"
    and "legal_run task_ok task_apply (fresh_task_process tenv rows drows fails (fresh_flow_process frows err)) xs"
    and "s = fold task_apply xs (fresh_task_process tenv rows drows fails (fresh_flow_process frows err))"
    and "st = BT_queued \<or> st = BT_running" and "task_ok s (K_create now uuid p)" and "trimmed fuuid = Some fuuid"
    and "createTaskRecord now uuid (p\<lparr>kp_status := Some st\<rparr>) s = (s1, Inr t0)" and "tr_taskId t0 = uuid"
    and "isOneTaskFlowEligible t0"
  shows "\<exists>s' t f. create_run st now uuid fuuid p s = (s', Inr t) \<and> t = t0\<lparr>tr_parentFlowId := Some fuuid\<rparr> \<and>
    jget (tg_tasks s') uuid = Some t \<and> snd (lookup_flow fuuid s') = Some f \<and> tf_syncMode f = SM_task_mirrored \<and>
    tf_status f = deriveTaskFlowStatusFromTask t \<and> trimmed (tr_ownerKey t) = Some (tf_ownerKey f)"
proof -
  have "reg_inv (fresh_task_process tenv rows drows fails (fresh_flow_process frows err))"
    using assms(1,2) by (rule reg_inv_fresh)
  then have inv: "reg_inv s" unfolding assms(5) using assms(4) by (intro task_machine.inv_legal_run)
  have "flow_inv (fresh_flow_process frows err)" using assms(3) by (rule flow_inv_fresh)
  then have finv: "flow_inv (tg_flows s)"
    unfolding assms(5) by (intro flows_of_tasks.inv_run) (simp add: fresh_task_process_def)
  have live: "\<not> isTerminalTaskStatus st" using assms(6) by (auto simp: isTerminalTaskStatus_def)
  have new: "jget (tg_tasks (ensureTaskRegistryReady s)) uuid = None" using assms(7) by simp
  have kp: "kp_status (p\<lparr>kp_status := Some st\<rparr>) = Some st" by simp
  note c = create_new [OF new inv assms(9,10) kp live]
  have sess: "tr_scopeKind t0 = SK_session" using assms(11) by (auto simp: isOneTaskFlowEligible_def split: if_splits)
  have finv1: "flow_inv (tg_flows s1)"
    using flow_inv_task_apply [OF finv, of "K_create now uuid (p\<lparr>kp_status := Some st\<rparr>)"] assms(9) by simp
  have t0: "jget (tg_tasks s1) (tr_taskId t0) = Some t0" "tg_restoreAttempted s1" "\<not> isTerminalTaskStatus (tr_status t0)"
    "trimmed (tr_ownerKey t0) \<noteq> None" using c assms(10) live sess by auto
  from ensure_links [OF finv1 t0(2,1,3,4) assms(11,8), of now "kp_requesterOrigin p"] obtain s' g where
    e: "ensureSingleTaskFlow now fuuid t0 (kp_requesterOrigin p) s1 = (s', t0\<lparr>tr_parentFlowId := Some fuuid\<rparr>)"
    "jget (tg_tasks s') (tr_taskId t0) = Some (t0\<lparr>tr_parentFlowId := Some fuuid\<rparr>)" "snd (lookup_flow fuuid s') = Some g"
    "tf_syncMode g = SM_task_mirrored" "tf_status g = deriveTaskFlowStatusFromTask t0"
    "trimmed (tr_ownerKey t0) = Some (tf_ownerKey g)" by blast
  have "create_run st now uuid fuuid p s = (s', Inr (t0\<lparr>tr_parentFlowId := Some fuuid\<rparr>))"
    using assms(9) e(1) by (simp add: create_run_def)
  moreover have "deriveTaskFlowStatusFromTask (t0\<lparr>tr_parentFlowId := Some fuuid\<rparr>) = deriveTaskFlowStatusFromTask t0"
    by (simp add: deriveTaskFlowStatusFromTask_def)
  ultimately show ?thesis using e assms(10) by auto
qed

lemma single_task_flow_witness:
  "\<exists>s' t f. createRunningTaskRun 1 ''u'' ''f'' (demo_params ''r'') demo_world = (s', Inr t) \<and>
     tr_parentFlowId t = Some ''f'' \<and> snd (lookup_flow ''f'' s') = Some f \<and> tf_status f = FS_running"
proof -
  let ?c = "createTaskRecord 1 ''u'' (demo_params ''r''\<lparr>kp_status := Some BT_running\<rparr>) demo_world"
  have "case ?c of (_, Inr t) \<Rightarrow> tr_taskId t = ''u'' \<and> isOneTaskFlowEligible t \<and> tr_status t = BT_running | _ \<Rightarrow> False"
    by code_simp
  then obtain s1 t0 where c: "?c = (s1, Inr t0)" "tr_taskId t0 = ''u''" "isOneTaskFlowEligible t0" "tr_status t0 = BT_running"
    by (cases ?c) (auto split: sum.splits)
  have ok: "task_ok demo_world (K_create 1 ''u'' (demo_params ''r''))" by code_simp
  have f: "trimmed ''f'' = Some ''f''" by code_simp
  have l: "legal_run task_ok task_apply (fresh_task_process demo_env [] [] False (fresh_flow_process [] None)) []" by simp
  have w: "demo_world = fold task_apply [] (fresh_task_process demo_env [] [] False (fresh_flow_process [] None))"
    by (simp add: demo_world_def)
  have r: "jwf ([] :: task_table)" and k: "\<And>i row. jget ([] :: task_table) i = Some row \<Longrightarrow> rw_task_id row = i"
    and t: "table_wf []" and st: "BT_running = BT_queued \<or> BT_running = BT_running" by simp_all
  from single_task_flow [OF r k t l w st ok f c(1-3)] obtain s' t g where
    "create_run BT_running 1 ''u'' ''f'' (demo_params ''r'') demo_world = (s', Inr t)"
    "t = t0\<lparr>tr_parentFlowId := Some ''f''\<rparr>" "snd (lookup_flow ''f'' s') = Some g"
    "tf_status g = deriveTaskFlowStatusFromTask t" by blast
  with c(4) show ?thesis by (auto simp: createRunningTaskRun_def deriveTaskFlowStatusFromTask_def)
qed

text \<open>A run id that ended before comes back: the old task is returned, its flow is created as ended, linking the task
  to an ended flow is refused, and the flow stays behind without a task.\<close>

lemma duplicate_leaves_orphan_flow:
  "let s = fst (createRunningTaskRun 5 ''u'' ''f'' (demo_params ''a'')
     (fresh_task_process demo_env [(''a'', demo_task_row ''a'' BT_succeeded 0 (Some 900000))] [] False (fresh_flow_process [] None)))
   in map_option tf_status (snd (lookup_flow ''f'' s)) = Some FS_succeeded \<and> snd (listTasksForFlowId ''f'' s) = []"
  by code_simp

subsection \<open>Which flows take a task\<close>

definition takes_tasks :: "TaskFlowRecord \<Rightarrow> bool" where
  "takes_tasks f \<longleftrightarrow> tf_cancelRequestedAt f = None \<and> \<not> isTerminalFlowStatus (tf_status f)"

lemma comparable_tidy: "trimmed i = Some i \<Longrightarrow> normalizeComparableText v = js_trim i \<Longrightarrow> normalizeText v = Some i"
  by (cases v) (auto simp: normalizeComparableText_def normalizeText_def trimmed_def Let_def split: if_splits)

lemma merge_in_flow:
  assumes x: "normalizeText (tr_parentFlowId x) \<noteq> None" and st: "jget (tg_tasks s) (tr_taskId x) = Some x"
  shows "\<exists>s' t. mergeExistingTaskForCreate now x p s = (s', Inr t) \<and> jget (tg_tasks s') (tr_taskId t) = Some t \<and>
    tr_parentFlowId t = tr_parentFlowId x"
proof -
  have q: "pa_parentFlowId (merge_patch x p) = None"
    using x by (auto simp: merge_patch_def Let_def fill_text_def split: option.split)
  have "\<exists>s' t. mergeExistingTaskForCreate now x p s = (s', Inr t)"
    unfolding mergeExistingTaskForCreate_def Let_def q by (simp add: case_prod_beta)
  then obtain s' t where m: "mergeExistingTaskForCreate now x p s = (s', Inr t)" by blast
  from merge_result [OF m st] have t: "jget (tg_tasks s') (tr_taskId x) = Some t"
    "t = x \<or> t = stamp_cleanup now (patch_task (merge_patch x p) x)" by simp_all
  from t(2) q have "tr_taskId t = tr_taskId x \<and> tr_parentFlowId t = tr_parentFlowId x"
    by (auto simp: stamp_cleanup_def patch_task_def)
  with m t(1) show ?thesis by auto
qed

lemma found_parent:
  assumes "findExistingTaskForCreate ok sc p s = Some x"
  shows "normalizeComparableText (tr_parentFlowId x) = normalizeComparableText (kp_parentFlowId p)"
proof -
  obtain r where r: "normalizeText (kp_runId p) = Some r"
    using assms by (cases "normalizeText (kp_runId p)") (simp_all add: findExistingTaskForCreate_def)
  let ?ms = "filter (\<lambda>t. tr_runtime t = kp_runtime p \<and> tr_scopeKind t = sc \<and> js_trim (tr_ownerKey t) = js_trim ok \<and>
    normalizeComparableText (tr_childSessionKey t) = normalizeComparableText (kp_childSessionKey p) \<and>
    normalizeComparableText (tr_parentFlowId t) = normalizeComparableText (kp_parentFlowId p)) (getTasksByRunId r s)"
  have pick: "pickPreferredRunIdTask ts = Some t \<Longrightarrow> t \<in> set ts" for ts t
    using first_of_in [of "sort_key taskLookupPriority (sort_key tr_createdAt ts)" t] by (simp add: pickPreferredRunIdTask_def)
  have find: "find Q ts = Some t \<Longrightarrow> t \<in> set ts" for Q ts t
    by (induction ts) (auto split: if_splits)
  have "x \<in> set ?ms"
  proof (cases "find (\<lambda>t. normalizeComparableText (tr_label t) = normalizeComparableText (kp_label p) \<and>
      js_trim (tr_task t) = js_trim (kp_task p)) ?ms")
    case None
    then have "pickPreferredRunIdTask ?ms = Some x"
      using assms r unfolding findExistingTaskForCreate_def by (simp add: Let_def split: if_splits)
    then show ?thesis by (rule pick)
  next
    case (Some u)
    then have "u = x" using assms r unfolding findExistingTaskForCreate_def by (simp add: Let_def)
    with find [OF Some] show ?thesis by simp
  qed
  then show ?thesis by simp
qed

lemma create_in_flow:
  assumes at: "flows_at m s" and f: "jget m i = Some f" "takes_tasks f" and i: "trimmed i = Some i"
    and inv: "reg_inv s" and new: "jget (tg_tasks (ensureTaskRegistryReady s)) uuid = None"
    and p: "kp_ownerKey p = Some (tf_ownerKey f)" "kp_scopeKind p = Some SK_session" "kp_requesterSessionKey p = None"
      "kp_parentFlowId p = Some i" "kp_status p = Some st" "\<not> isTerminalTaskStatus st"
  shows "\<exists>s' t. createTaskRecord now uuid p s = (s', Inr t) \<and> jget (tg_tasks s') (tr_taskId t) = Some t \<and>
    normalizeText (tr_parentFlowId t) = Some i"
proof -
  let ?r = "ensureTaskRegistryReady s" let ?ow = "tf_ownerKey f"
  have own: "trimmed ?ow = Some ?ow" using wf_at [OF at f(1)] by (simp add: flow_wf_def)
  have tr: "js_trim ?ow = ?ow" "?ow \<noteq> []" using own by (auto simp: trimmed_def Let_def split: if_splits)
  have args: "resolveTaskRequesterSessionKey p = ?ow" "resolveTaskScopeKind (kp_scopeKind p) ?ow = SK_session"
    "resolveTaskOwnerKey ?ow (kp_ownerKey p) = ?ow"
    using p(1-3) tr own by (simp_all add: resolveTaskRequesterSessionKey_def resolveTaskScopeKind_def resolveTaskOwnerKey_def
        normalizeText_def normalizeComparableText_def)
  have at': "flows_at m ?r" using at by simp
  have link: "assertParentFlowLinkAllowed ?ow SK_session (kp_parentFlowId p) ?r = (?r, Inr ())"
    using p(4) i lookup_at [OF at', of i] f by (simp add: assertParentFlowLinkAllowed_def normalizeText_def takes_tasks_def)
  let ?new = "new_task_record now uuid ?ow SK_session ?ow p"
  have c: "createTaskRecord now uuid p s = (case findExistingTaskForCreate ?ow SK_session p ?r of
      Some existing \<Rightarrow> mergeExistingTaskForCreate now existing p ?r
    | None \<Rightarrow> (insert_task now ?new (kp_requesterOrigin p) ?r, Inr ?new))"
    using own args link p(5,6)
    by (simp add: createTaskRecord_def Let_def new_task_record_def stamp_cleanup_def split: option.split)
  show ?thesis
  proof (cases "findExistingTaskForCreate ?ow SK_session p ?r")
    case (Some x)
    have ri: "reg_inv ?r" using inv by (rule ready_reg_inv)
    have par: "normalizeText (tr_parentFlowId x) = Some i"
      using found_parent [OF Some] p(4) by (intro comparable_tidy [OF i]) (simp add: normalizeComparableText_def)
    from merge_in_flow [OF _ found_is_stored [OF ri Some], of now p] par c Some show ?thesis by auto
  next
    case None
    have "view (insert_task now ?new (kp_requesterOrigin p) ?r) = view (?r\<lparr>tg_tasks := jset (tg_tasks ?r) uuid ?new\<rparr>)"
      using view_insert [of now ?new "kp_requesterOrigin p" ?r] by simp
    then have "jget (tg_tasks (insert_task now ?new (kp_requesterOrigin p) ?r)) (tr_taskId ?new) = Some ?new"
      by (simp add: view_def)
    moreover have "normalizeText (tr_parentFlowId ?new) = Some i"
      using p(4) i by (simp add: new_task_record_def Let_def stamp_cleanup_def normalizeText_def)
    ultimately show ?thesis using c None by auto
  qed
qed


text \<open>A task with a parent flow gets no flow of its own.\<close>

lemma run_in_flow_created:
  assumes at: "flows_at m s" and f: "jget m i = Some f" "takes_tasks f" and i: "trimmed i = Some i"
    and inv: "reg_inv s" and new: "jget (tg_tasks (ensureTaskRegistryReady s)) uuid = None"
    and st: "\<not> isTerminalTaskStatus st"
  shows "\<exists>s' t. create_run st now uuid fuuid (flow_task_params p f) s = (s', Inr t) \<and>
    jget (tg_tasks s') (tr_taskId t) = Some t \<and> normalizeText (tr_parentFlowId t) = Some i"
proof -
  have id: "tf_flowId f = i" using wf_at [OF at f(1)] by simp
  from create_in_flow [OF at f i inv new, of "flow_task_params p f\<lparr>kp_status := Some st\<rparr>" st now] st id
  obtain s' t where t: "createTaskRecord now uuid (flow_task_params p f\<lparr>kp_status := Some st\<rparr>) s = (s', Inr t)"
    "jget (tg_tasks s') (tr_taskId t) = Some t" "normalizeText (tr_parentFlowId t) = Some i"
    by (auto simp: flow_task_params_def)
  have "\<not> isOneTaskFlowEligible t" using t(3) by (simp add: isOneTaskFlowEligible_def)
  with t show ?thesis by (simp add: create_run_def ensureSingleTaskFlow_def)
qed

text \<open>C39: Tasks start only in flows that take them. After any history of tasks and flows, \<open>runTaskInFlow\<close> does not
  throw; it creates a task exactly if the flow exists, is managed, has not been asked to cancel and has not ended; the
  task it returns is stored and linked to the flow; and when it refuses, it says why and no task is changed.\<close>

theorem tasks_start_in_open_flows:
  assumes "jwf rows" and "\<And>i row. jget rows i = Some row \<Longrightarrow> rw_task_id row = i" and "table_wf frows"
    and "legal_run task_ok task_apply (fresh_task_process tenv rows drows fails (fresh_flow_process frows err)) xs"
    and "s = fold task_apply xs (fresh_task_process tenv rows drows fails (fresh_flow_process frows err))"
    and "jget (tg_tasks (ensureTaskRegistryReady s)) uuid = None" and "trimmed flowId = Some flowId"
  shows "\<exists>s' q. runTaskInFlow now uuid fuuid flowId p s = (s', Inr q) \<and>
    rf_created q = (case snd (lookup_flow flowId s) of None \<Rightarrow> False
      | Some f \<Rightarrow> tf_syncMode f = SM_managed \<and> tf_cancelRequestedAt f = None \<and> \<not> isTerminalFlowStatus (tf_status f)) \<and>
    (if rf_created q
     then \<exists>t. rf_task q = Some t \<and> jget (tg_tasks s') (tr_taskId t) = Some t \<and> normalizeText (tr_parentFlowId t) = Some flowId
     else rf_reason q \<noteq> None \<and> tg_tasks s' = tg_tasks s)"
proof -
  have "reg_inv (fresh_task_process tenv rows drows fails (fresh_flow_process frows err))"
    using assms(1,2) by (rule reg_inv_fresh)
  then have inv: "reg_inv s" unfolding assms(5) using assms(4) by (intro task_machine.inv_legal_run)
  have "flow_inv (fresh_flow_process frows err)" using assms(3) by (rule flow_inv_fresh)
  then have finv: "flow_inv (tg_flows s)"
    unfolding assms(5) by (intro flows_of_tasks.inv_run) (simp add: fresh_task_process_def)
  let ?m = "fr_flows (ensureFlowRegistryReady (tg_flows s))"
  let ?s = "s\<lparr>tg_flows := ensureFlowRegistryReady (tg_flows s)\<rparr>"
  have at: "flows_at ?m ?s" using ready_inv [OF finv] by (simp add: flows_at_def)
  show ?thesis
  proof (cases "jget ?m flowId")
    case None
    then show ?thesis by (simp add: runTaskInFlow_def lookup_ready refuse_run_def)
  next
    case (Some f)
    show ?thesis
    proof (cases "tf_syncMode f = SM_managed \<and> takes_tasks f")
      case True
      have inv': "reg_inv ?s" using inv by (simp add: reg_inv_def)
      have new: "jget (tg_tasks (ensureTaskRegistryReady ?s)) uuid = None" using assms(6) by simp
      let ?st = "if rq_running p then BT_running else BT_queued"
      have st: "\<not> isTerminalTaskStatus ?st" by (simp add: isTerminalTaskStatus_def)
      from True have tk: "takes_tasks f" by simp
      from run_in_flow_created [OF at Some tk assms(7) inv' new st, of now fuuid p] obtain s' t where
        t: "create_run ?st now uuid fuuid (flow_task_params p f) ?s = (s', Inr t)"
        "jget (tg_tasks s') (tr_taskId t) = Some t" "normalizeText (tr_parentFlowId t) = Some flowId" by blast
      have run: "(if rq_running p then createRunningTaskRun now uuid fuuid (flow_task_params p f) ?s
          else createQueuedTaskRun now uuid fuuid (flow_task_params p f) ?s) = (s', Inr t)"
        using t(1) by (simp add: createRunningTaskRun_def createQueuedTaskRun_def split: if_splits)
      obtain s2 g where lk: "lookup_flow (tf_flowId f) s' = (s2, g)" by fastforce
      have "runTaskInFlow now uuid fuuid flowId p s = (s2, Inr \<lparr>rf_found = True, rf_created = True, rf_reason = None,
             rf_flow = Some (or_value g f), rf_task = Some t\<rparr>)"
        using True run lk by (cases "rq_running p") (simp_all add: runTaskInFlow_def lookup_ready [of flowId s] Some takes_tasks_def)
      moreover have "tg_tasks s2 = tg_tasks s'" using lk by (auto simp: lookup_ready)
      moreover have "snd (lookup_flow flowId s) = Some f" by (simp add: lookup_ready Some)
      ultimately show ?thesis using t(2,3) True by (simp add: takes_tasks_def)
    next
      case False
      then show ?thesis
        using Some by (auto simp: runTaskInFlow_def lookup_ready refuse_run_def takes_tasks_def)
    qed
  qed
qed

definition demo_run :: RunTaskInFlowParams where
  "demo_run = \<lparr>rq_runtime = RT_acp, rq_sourceId = None, rq_childSessionKey = Some ''child'', rq_parentTaskId = None,
     rq_agentId = None, rq_runId = Some ''r1'', rq_label = None, rq_task = ''do'', rq_preferMetadata = False,
     rq_notifyPolicy = None, rq_deliveryStatus = None, rq_running = True, rq_startedAt = None, rq_lastEventAt = None,
     rq_progressSummary = None\<rparr>"

lemma tasks_start_in_open_flows_witness:
  "\<exists>s' q t. runTaskInFlow 2 ''u'' ''g'' ''f'' demo_run (fold task_apply [K_flow (FL_create 1 ''f'' demo_flow_params)] demo_world) =
     (s', Inr q) \<and> rf_task q = Some t \<and> normalizeText (tr_parentFlowId t) = Some ''f''"
proof -
  let ?xs = "[K_flow (FL_create 1 ''f'' demo_flow_params)]" let ?s = "fold task_apply ?xs demo_world"
  have f: "case snd (lookup_flow ''f'' ?s) of None \<Rightarrow> False
      | Some f \<Rightarrow> tf_syncMode f = SM_managed \<and> tf_cancelRequestedAt f = None \<and> \<not> isTerminalFlowStatus (tf_status f)" by code_simp
  have new: "jget (tg_tasks (ensureTaskRegistryReady ?s)) ''u'' = None" by code_simp
  have i: "trimmed ''f'' = Some ''f''" by code_simp
  have r: "jwf ([] :: task_table)" and k: "\<And>i row. jget ([] :: task_table) i = Some row \<Longrightarrow> rw_task_id row = i"
    and t: "table_wf []" by simp_all
  have l: "legal_run task_ok task_apply (fresh_task_process demo_env [] [] False (fresh_flow_process [] None)) ?xs" by simp
  have w: "?s = fold task_apply ?xs (fresh_task_process demo_env [] [] False (fresh_flow_process [] None))"
    by (simp only: demo_world_def)
  from tasks_start_in_open_flows [OF r k t l w new i, of 2 "''g''" demo_run] f show ?thesis by auto
qed

end
