(* ===== verification/TaskAudit.thy ===== *)
theory TaskAudit
  imports TaskExecutor
begin

text \<open>
  The audits of tasks and flows (\<open>src/src/tasks/task-registry.audit.ts\<close>, \<open>task-registry.audit.shared.ts\<close>,
  \<open>task-flow-registry.audit.ts\<close>): the findings about each record, their order and their summaries. The options that
  are not given have the defaults below; \<open>now\<close> is the time of the audit.
\<close>

subsection \<open>Findings about tasks\<close>

datatype audit_severity = AU_warn | AU_error

datatype TaskAuditCode =
    AC_stale_queued
  | AC_stale_running
  | AC_lost
  | AC_delivery_failed
  | AC_missing_cleanup
  | AC_inconsistent_timestamps

record TaskAuditFinding =
  au_severity :: audit_severity
  au_code :: TaskAuditCode
  au_task :: TaskRecord
  au_ageMs :: "int option"
  au_detail :: string

definition DEFAULT_STALE_QUEUED_MS :: int where "DEFAULT_STALE_QUEUED_MS = 10 * 60000"
definition DEFAULT_STALE_RUNNING_MS :: int where "DEFAULT_STALE_RUNNING_MS = 30 * 60000"

definition taskReferenceAt :: "TaskRecord \<Rightarrow> int" where
  "taskReferenceAt t = or_value (or_else (tr_lastEventAt t) (tr_startedAt t)) (tr_createdAt t)"

text \<open>A time counts as given if it is there and not 0.\<close>

definition truthy_time :: "int option \<Rightarrow> bool" where
  "truthy_time v \<longleftrightarrow> (case v of Some x \<Rightarrow> x \<noteq> 0 | None \<Rightarrow> False)"

definition find_task_inconsistency :: "TaskRecord \<Rightarrow> string option" where
  "find_task_inconsistency t =
     (if truthy_time (tr_startedAt t) \<and> the (tr_startedAt t) < tr_createdAt t
      then Some ''startedAt is earlier than createdAt''
      else if truthy_time (tr_endedAt t) \<and> truthy_time (tr_startedAt t) \<and> the (tr_endedAt t) < the (tr_startedAt t)
      then Some ''endedAt is earlier than startedAt''
      else if (tr_status t = BT_queued \<or> tr_status t = BT_running) \<and> truthy_time (tr_endedAt t)
      then Some (status_text (tr_status t) @ '' task should not already have endedAt'')
      else None)"

definition finding_when ::
  "bool \<Rightarrow> audit_severity \<Rightarrow> TaskAuditCode \<Rightarrow> TaskRecord \<Rightarrow> int option \<Rightarrow> string \<Rightarrow> TaskAuditFinding list" where
  "finding_when c severity code t age detail =
     (if c then [\<lparr>au_severity = severity, au_code = code, au_task = t, au_ageMs = age, au_detail = detail\<rparr>] else [])"

definition audit_task :: "int \<Rightarrow> int \<Rightarrow> int \<Rightarrow> TaskRecord \<Rightarrow> TaskAuditFinding list" where
  "audit_task now staleQueuedMs staleRunningMs t =
     (let ageMs = max 0 (now - taskReferenceAt t)
      in finding_when (tr_status t = BT_queued \<and> ageMs \<ge> staleQueuedMs) AU_warn AC_stale_queued t (Some ageMs)
           ''queued task has not advanced recently'' @
         finding_when (tr_status t = BT_running \<and> ageMs \<ge> staleRunningMs) AU_error AC_stale_running t (Some ageMs)
           ''running task appears stuck'' @
         finding_when (tr_status t = BT_lost) AU_error AC_lost t (Some ageMs)
           (or_value (normalizeText (tr_error t)) ''task lost its backing session'') @
         finding_when (tr_deliveryStatus t = DV_failed \<and> tr_notifyPolicy t \<noteq> NP_silent) AU_warn AC_delivery_failed t
           (Some ageMs) ''terminal update delivery failed'' @
         finding_when (tr_status t \<noteq> BT_lost \<and> tr_status t \<noteq> BT_queued \<and> tr_status t \<noteq> BT_running \<and>
             tr_cleanupAfter t = None) AU_warn AC_missing_cleanup t (Some ageMs)
           ''terminal task is missing cleanupAfter'' @
         (case find_task_inconsistency t of
            Some detail \<Rightarrow> finding_when True AU_warn AC_inconsistent_timestamps t None detail | None \<Rightarrow> []))"

text \<open>\<open>compareFindings\<close>: errors first, then the oldest, then the first created; the sort is stable.\<close>

definition severity_rank :: "audit_severity \<Rightarrow> int" where
  "severity_rank v = (if v = AU_error then 0 else 1)"

definition sort_findings :: "TaskAuditFinding list \<Rightarrow> TaskAuditFinding list" where
  "sort_findings fs =
     sort_key (\<lambda>f. severity_rank (au_severity f))
       (sort_key (\<lambda>f. - or_value (au_ageMs f) (-1)) (sort_key (\<lambda>f. tr_createdAt (au_task f)) fs))"

definition listTaskAuditFindings ::
  "session_env \<Rightarrow> int \<Rightarrow> TaskRecord list option \<Rightarrow> int option \<Rightarrow> int option \<Rightarrow> task_registry \<Rightarrow>
   task_registry \<times> TaskAuditFinding list" where
  "listTaskAuditFindings env now tasks staleQueuedMs staleRunningMs s =
     (case (case tasks of Some ts \<Rightarrow> (s, ts) | None \<Rightarrow> reconcileInspectableTasks env now s) of
        (s, ts) \<Rightarrow> (s, sort_findings (concat (map (audit_task now (or_value staleQueuedMs DEFAULT_STALE_QUEUED_MS)
           (or_value staleRunningMs DEFAULT_STALE_RUNNING_MS)) ts))))"

record 'c audit_summary =
  as_total :: nat
  as_warnings :: nat
  as_errors :: nat
  as_byCode :: "'c \<Rightarrow> nat"

definition createEmptyTaskAuditSummary :: "TaskAuditCode audit_summary" where
  "createEmptyTaskAuditSummary = \<lparr>as_total = 0, as_warnings = 0, as_errors = 0, as_byCode = (\<lambda>_. 0)\<rparr>"

definition count_finding :: "audit_severity \<Rightarrow> 'c \<Rightarrow> 'c audit_summary \<Rightarrow> 'c audit_summary" where
  "count_finding severity code m =
     (let m = m\<lparr>as_total := as_total m + 1, as_byCode := (as_byCode m)(code := as_byCode m code + 1)\<rparr>
      in if severity = AU_error then m\<lparr>as_errors := as_errors m + 1\<rparr> else m\<lparr>as_warnings := as_warnings m + 1\<rparr>)"

definition summarizeTaskAuditFindings :: "TaskAuditFinding list \<Rightarrow> TaskAuditCode audit_summary" where
  "summarizeTaskAuditFindings fs =
     fold (\<lambda>f. count_finding (au_severity f) (au_code f)) fs createEmptyTaskAuditSummary"

definition getInspectableTaskAuditSummary ::
  "session_env \<Rightarrow> int \<Rightarrow> task_registry \<Rightarrow> task_registry \<times> TaskAuditCode audit_summary" where
  "getInspectableTaskAuditSummary env now s =
     (case reconcileInspectableTasks env now s of
        (s, ts) \<Rightarrow> (case listTaskAuditFindings env now (Some ts) None None s of
                      (s, fs) \<Rightarrow> (s, summarizeTaskAuditFindings fs)))"

subsection \<open>Findings about flows\<close>

datatype TaskFlowAuditCode =
    FC_restore_failed
  | FC_stale_running
  | FC_stale_waiting
  | FC_stale_blocked
  | FC_cancel_stuck
  | FC_missing_linked_tasks
  | FC_blocked_task_missing
  | FC_inconsistent_timestamps

record TaskFlowAuditFinding =
  fa_severity :: audit_severity
  fa_code :: TaskFlowAuditCode
  fa_detail :: string
  fa_ageMs :: "int option"
  fa_flow :: "TaskFlowRecord option"

record TaskFlowAuditOptions =
  fo_flows :: "TaskFlowRecord list option"
  fo_staleRunningMs :: "int option"
  fo_staleWaitingMs :: "int option"
  fo_staleBlockedMs :: "int option"
  fo_cancelStuckMs :: "int option"

definition DEFAULT_STALE_FLOW_MS :: int where "DEFAULT_STALE_FLOW_MS = 30 * 60000"
definition DEFAULT_CANCEL_STUCK_MS :: int where "DEFAULT_CANCEL_STUCK_MS = 5 * 60000"

definition sort_flow_findings :: "TaskFlowAuditFinding list \<Rightarrow> TaskFlowAuditFinding list" where
  "sort_flow_findings fs =
     sort_key (\<lambda>f. severity_rank (fa_severity f))
       (sort_key (\<lambda>f. - or_value (fa_ageMs f) (-1))
         (sort_key (\<lambda>f. case fa_flow f of Some w \<Rightarrow> tf_createdAt w | None \<Rightarrow> 0) fs))"

text \<open>\<open>waitJson != null\<close> fails for a stored JSON \<open>null\<close> too.\<close>

definition hasBlockingMetadata :: "TaskFlowRecord \<Rightarrow> bool" where
  "hasBlockingMetadata flow \<longleftrightarrow> normalizeText (tf_blockedTaskId flow) \<noteq> None \<or>
     normalizeText (tf_blockedSummary flow) \<noteq> None \<or>
     (case tf_waitJson flow of None \<Rightarrow> False | Some v \<Rightarrow> v \<noteq> JNull)"

definition find_flow_inconsistency :: "TaskFlowRecord \<Rightarrow> string option" where
  "find_flow_inconsistency flow =
     (if tf_updatedAt flow < tf_createdAt flow then Some ''updatedAt is earlier than createdAt''
      else if truthy_time (tf_endedAt flow) \<and> the (tf_endedAt flow) < tf_createdAt flow
      then Some ''endedAt is earlier than createdAt''
      else if truthy_time (tf_endedAt flow) \<and> the (tf_endedAt flow) < tf_updatedAt flow
      then Some ''endedAt is earlier than updatedAt''
      else None)"

definition flow_finding_when ::
  "bool \<Rightarrow> audit_severity \<Rightarrow> TaskFlowAuditCode \<Rightarrow> TaskFlowRecord \<Rightarrow> int option \<Rightarrow> string \<Rightarrow> TaskFlowAuditFinding list" where
  "flow_finding_when c severity code flow age detail =
     (if c then [\<lparr>fa_severity = severity, fa_code = code, fa_detail = detail, fa_ageMs = age, fa_flow = Some flow\<rparr>] else [])"

definition audit_flow :: "int \<Rightarrow> TaskFlowAuditOptions \<Rightarrow> TaskRecord list \<Rightarrow> TaskFlowRecord \<Rightarrow> TaskFlowAuditFinding list" where
  "audit_flow now opts linkedTasks flow =
     (let running = or_value (fo_staleRunningMs opts) DEFAULT_STALE_FLOW_MS;
          waiting = or_value (fo_staleWaitingMs opts) DEFAULT_STALE_FLOW_MS;
          blocked = or_value (fo_staleBlockedMs opts) DEFAULT_STALE_FLOW_MS;
          stuck = or_value (fo_cancelStuckMs opts) DEFAULT_CANCEL_STUCK_MS;
          ageMs = max 0 (now - tf_updatedAt flow); st = tf_status flow;
          active = filter (\<lambda>t. tr_status t = BT_queued \<or> tr_status t = BT_running) linkedTasks
      in flow_finding_when (st = FS_running \<and> ageMs \<ge> running) AU_error FC_stale_running flow (Some ageMs)
           ''running TaskFlow has not advanced recently'' @
         flow_finding_when (st = FS_waiting \<and> ageMs \<ge> waiting) AU_warn FC_stale_waiting flow (Some ageMs)
           ''waiting TaskFlow has not advanced recently'' @
         flow_finding_when (st = FS_blocked \<and> ageMs \<ge> blocked) AU_warn FC_stale_blocked flow (Some ageMs)
           ''blocked TaskFlow has not advanced recently'' @
         (case tf_cancelRequestedAt flow of
            None \<Rightarrow> []
          | Some requested \<Rightarrow>
              flow_finding_when (st \<noteq> FS_cancelled \<and> st \<noteq> FS_failed \<and> st \<noteq> FS_succeeded \<and> st \<noteq> FS_lost \<and>
                  active = [] \<and> now - requested \<ge> stuck) AU_warn FC_cancel_stuck flow (Some (max 0 (now - requested)))
                ''cancel-requested TaskFlow has no active child tasks but is still nonterminal'') @
         flow_finding_when (tf_syncMode flow = SM_managed \<and> (st = FS_running \<or> st = FS_waiting \<or> st = FS_blocked) \<and>
             ageMs \<ge> (if st = FS_running then running else if st = FS_waiting then waiting else blocked) \<and>
             linkedTasks = [] \<and> \<not> hasBlockingMetadata flow)
           (if st = FS_running then AU_error else AU_warn) FC_missing_linked_tasks flow (Some ageMs)
           ''managed TaskFlow has no linked tasks or wait state'' @
         (case normalizeText (tf_blockedTaskId flow) of
            None \<Rightarrow> []
          | Some blockedTaskId \<Rightarrow>
              flow_finding_when (\<not> list_ex (\<lambda>t. tr_taskId t = blockedTaskId) linkedTasks) AU_warn FC_blocked_task_missing
                flow (Some ageMs) (''blocked TaskFlow points at missing task '' @ blockedTaskId)) @
         (case find_flow_inconsistency flow of
            Some detail \<Rightarrow> flow_finding_when True AU_warn FC_inconsistent_timestamps flow None detail | None \<Rightarrow> []))"

fun audit_flows ::
  "int \<Rightarrow> TaskFlowAuditOptions \<Rightarrow> TaskFlowRecord list \<Rightarrow> task_registry \<Rightarrow> task_registry \<times> TaskFlowAuditFinding list" where
  "audit_flows now opts [] s = (s, [])"
| "audit_flows now opts (f # fs) s =
     (case listTasksForFlowId (tf_flowId f) s of
        (s, linked) \<Rightarrow> (case audit_flows now opts fs s of (s, found) \<Rightarrow> (s, audit_flow now opts linked f @ found)))"

definition listTaskFlowAuditFindings ::
  "int \<Rightarrow> TaskFlowAuditOptions \<Rightarrow> task_registry \<Rightarrow> task_registry \<times> TaskFlowAuditFinding list" where
  "listTaskFlowAuditFindings now opts s =
     (case (case fo_flows opts of Some fs \<Rightarrow> (s, fs) | None \<Rightarrow> list_flows s) of
        (s, flows) \<Rightarrow>
          (case getTaskFlowRegistryRestoreFailure (tg_flows s) of
             (gs, failure) \<Rightarrow>
               (case audit_flows now opts flows (s\<lparr>tg_flows := gs\<rparr>) of
                  (s, found) \<Rightarrow> (s, sort_flow_findings
                    ((case failure of
                        None \<Rightarrow> []
                      | Some e \<Rightarrow> if e = [] then []
                          else [\<lparr>fa_severity = AU_error, fa_code = FC_restore_failed,
                                 fa_detail = ''task-flow registry restore failed: '' @ e, fa_ageMs = None, fa_flow = None\<rparr>])
                     @ found)))))"

definition createEmptyTaskFlowAuditSummary :: "TaskFlowAuditCode audit_summary" where
  "createEmptyTaskFlowAuditSummary = \<lparr>as_total = 0, as_warnings = 0, as_errors = 0, as_byCode = (\<lambda>_. 0)\<rparr>"

definition summarizeTaskFlowAuditFindings :: "TaskFlowAuditFinding list \<Rightarrow> TaskFlowAuditCode audit_summary" where
  "summarizeTaskFlowAuditFindings fs =
     fold (\<lambda>f. count_finding (fa_severity f) (fa_code f)) fs createEmptyTaskFlowAuditSummary"

definition default_flow_audit :: TaskFlowAuditOptions where
  "default_flow_audit = \<lparr>fo_flows = None, fo_staleRunningMs = None, fo_staleWaitingMs = None, fo_staleBlockedMs = None,
     fo_cancelStuckMs = None\<rparr>"

definition getInspectableTaskFlowAuditSummary :: "int \<Rightarrow> task_registry \<Rightarrow> task_registry \<times> TaskFlowAuditCode audit_summary" where
  "getInspectableTaskFlowAuditSummary now s =
     (case listTaskFlowAuditFindings now default_flow_audit s of (s, fs) \<Rightarrow> (s, summarizeTaskFlowAuditFindings fs))"

subsection \<open>What the sweeps leave for the audits\<close>

lemma from_sweep_task: "from_flows a s \<Longrightarrow> from_flows a (fst (sweep_task env clock now i s))"
proof -
  assume f: "from_flows a s"
  obtain s1 t where g: "getTaskById i s = (s1, t)" by fastforce
  then have f1: "from_flows a s1" using f by (auto simp: getTaskById_def Let_def)
  have lost: "from_flows a (fst (markTaskLost clock u now s1))" for u
    using from_by_id [OF f1] by (simp add: markTaskLost_def markTaskLostById_def case_prod_beta Let_def from_terminal)
  have del: "from_flows a (fst (deleteTaskRecordById j s1))" for j using from_delete [OF f1] .
  have stamp: "from_flows a (fst (setTaskCleanupAfterById clock j c s'))" if "from_flows a s'" for j c s'
    using from_by_id [OF that] by (simp add: setTaskCleanupAfterById_def)
  show ?thesis
  proof (cases t)
    case (Some u)
    obtain s2 d where d: "(if shouldPruneTerminalTask u now then deleteTaskRecordById (tr_taskId u) s1 else (s1, False)) = (s2, d)"
      by fastforce
    have f2: "from_flows a s2" using d f1 del [of "tr_taskId u"] by (cases "shouldPruneTerminalTask u now") simp_all
    obtain s3 v where v: "setTaskCleanupAfterById clock (tr_taskId u) (resolveCleanupAfter u) s2 = (s3, v)" by fastforce
    have f3: "from_flows a s3" using stamp [OF f2, of "tr_taskId u" "resolveCleanupAfter u"] v by simp
    obtain s4 w where w: "markTaskLost clock u now s1 = (s4, w)" by fastforce
    have f4: "from_flows a s4" using lost [of u] w by simp
    show ?thesis
      using g Some d f2 v f3 w f4
      by (cases "shouldMarkLost env u now"; cases d; cases "shouldStampCleanupAfter u"; cases v)
        (simp_all add: sweep_task_def)
  qed (use g f1 in \<open>simp add: sweep_task_def\<close>)
qed

lemma flow_inv_sweep_loop: "flow_inv (tg_flows s) \<Longrightarrow> flow_inv (tg_flows (fst (sweep_loop env clock now yields ts k m s)))"
proof (induction ts arbitrary: k m s)
  case (Cons t ts)
  obtain s1 e where e: "sweep_task env clock now (tr_taskId t) s = (s1, e)" by fastforce
  have "from_flows (tg_flows s) (fst (sweep_task env clock now (tr_taskId t) s))"
    by (rule from_sweep_task) (simp add: from_flows_def)
  then have i1: "flow_inv (tg_flows s1)" using flows_kept [OF _ Cons.prems, of s1] e by simp
  have i2: "flow_inv (tg_flows (fold task_apply xs s1))" for xs using flows_of_tasks.inv_run [OF i1] .
  show ?case using Cons.IH [OF i1] Cons.IH [OF i2] e by (cases e) (simp_all add: Let_def)
qed simp

lemma flow_inv_task_sweep:
  "flow_inv (tg_flows s) \<Longrightarrow> flow_inv (tg_flows (fst (runTaskRegistryMaintenance env clock now yields s)))"
proof -
  assume inv: "flow_inv (tg_flows s)"
  obtain s1 ts where l: "listTaskRecords (ensureTaskRegistryReady s) = (s1, ts)" by fastforce
  then have "tg_flows s1 = tg_flows s" by (auto simp: listTaskRecords_def Let_def)
  with flow_inv_sweep_loop [of s1 env clock now yields ts 0 no_maintenance] inv l show ?thesis
    by (simp add: runTaskRegistryMaintenance_def)
qed

text \<open>The sweep over the flows does not touch a task.\<close>

definition kept_tasks :: "task_registry \<Rightarrow> task_registry \<Rightarrow> bool" where
  "kept_tasks s s' \<longleftrightarrow> tg_tasks (ensureTaskRegistryReady s') = tg_tasks (ensureTaskRegistryReady s)"

lemma kept_refl [simp]: "kept_tasks s s"
  by (simp add: kept_tasks_def)

lemma kept_trans: "kept_tasks s s' \<Longrightarrow> kept_tasks s' s'' \<Longrightarrow> kept_tasks s s''"
  by (simp add: kept_tasks_def)

lemma kept_same: "same_tasks s s' \<Longrightarrow> kept_tasks s s'"
  by (auto simp: same_tasks_def kept_tasks_def)

lemma kept_flows [simp]: "kept_tasks s (s'\<lparr>tg_flows := x\<rparr>) \<longleftrightarrow> kept_tasks s s'"
  by (simp add: kept_tasks_def)

lemma kept_lookup: "lookup_flow i s = (s', f) \<Longrightarrow> kept_tasks s s'"
  by (auto simp: lookup_ready)

lemma kept_finalize: "kept_tasks s (fst (finalize_attempts n clock now f s))"
proof (induction n arbitrary: f s)
  case (Suc n)
  let ?e = "max (max now (tf_updatedAt f)) (or_value (tf_cancelRequestedAt f) now)"
  obtain fs r where u: "updateFlowRecordByIdExpectedRevision clock (tf_flowId f) (tf_revision f) (cancel_patch ?e) (tg_flows s) = (fs, r)"
    by fastforce
  have conf: "kept_tasks s (fst (finalize_attempts (Suc n) clock now f s))" if r: "r = Inr (FU_conflict g)" for g
  proof -
    obtain s1 where s1: "shouldFinalizeCancelledFlow g (s\<lparr>tg_flows := fs\<rparr>) = (s1, to_finalize (active_in (s\<lparr>tg_flows := fs\<rparr>)) g)"
      "same_tasks (s\<lparr>tg_flows := fs\<rparr>) s1" using finalize_eq by blast
    have k1: "kept_tasks s s1" using kept_trans [OF _ kept_same [OF s1(2)], of s] by simp
    show ?thesis
      using u r s1(1) k1 kept_trans [OF k1 Suc.IH] by (cases "to_finalize (active_in (s\<lparr>tg_flows := fs\<rparr>)) g") (simp_all add: Let_def)
  qed
  show ?case
  proof (cases r)
    case (Inr q)
    show ?thesis
    proof (cases q)
      case (FU_conflict g)
      with conf Inr show ?thesis by blast
    qed (use u Inr in \<open>simp_all add: Let_def\<close>)
  qed (use u in \<open>simp add: Let_def\<close>)
qed simp

lemma kept_flow_sweep: "kept_tasks s (fst (flow_sweep_loop clock now fs m s))"
proof (induction fs arbitrary: m s)
  case (Cons f fs)
  obtain s1 c where l: "lookup_flow (tf_flowId f) s = (s1, c)" by fastforce
  note k1 = kept_lookup [OF l]
  show ?case
  proof (cases c)
    case None
    with l kept_trans [OF k1 Cons.IH] show ?thesis by simp
  next
    case (Some g)
    obtain s2 where s2: "shouldFinalizeCancelledFlow g s1 = (s2, to_finalize (active_in s1) g)" "same_tasks s1 s2"
      using finalize_eq by blast
    have k2: "kept_tasks s s2" using kept_trans [OF k1 kept_same [OF s2(2)]] .
    obtain s3 r where s3: "finalizeCancelledFlow clock now g s2 = (s3, r)" by fastforce
    have k3: "kept_tasks s s3" using kept_trans [OF k2 kept_finalize [of s2 2 clock now g]] s3 by (simp add: finalizeCancelledFlow_def)
    obtain s4 where s4: "shouldPruneFlow now g s2 = (s4, to_prune now (active_in s2) g)" "same_tasks s2 s4"
      using prune_eq by blast
    have k4: "kept_tasks s s4" using kept_trans [OF k2 kept_same [OF s4(2)]] .
    obtain gs d where d: "deleteTaskFlowRecordById (tf_flowId g) (tg_flows s4) = (gs, d)" by fastforce
    have k5: "kept_tasks s (s4\<lparr>tg_flows := gs\<rparr>)" using k4 by simp
    note ks = kept_trans [OF k3 Cons.IH] kept_trans [OF k4 Cons.IH] kept_trans [OF k5 Cons.IH]
    show ?thesis
      using l Some s2(1) s3 s4(1) d k3 ks
      by (cases "to_finalize (active_in s1) g"; cases r; cases "to_prune now (active_in s2) g") (auto split: bool.split)
  qed
qed simp

lemma findings_set [simp]: "set (sort_findings fs) = set fs" "set (sort_flow_findings gs) = set gs"
  by (simp_all add: sort_findings_def sort_flow_findings_def)

lemma audit_flows_eq:
  "\<exists>s'. audit_flows now opts fs s =
    (s', concat (map (\<lambda>f. audit_flow now opts (snd (listTasksForFlowId (tf_flowId f) s)) f) fs))"
proof (induction fs arbitrary: s)
  case (Cons f fs)
  from Cons.IH [of "ensureTaskRegistryReady s"] show ?case by (subst audit_flows.simps, subst linked_ready) auto
qed simp

lemma stuck_to_finalize:
  assumes "x \<in> set (audit_flow now opts ts f)" and "fa_code x = FC_cancel_stuck"
  shows "fa_flow x = Some f \<and> tf_cancelRequestedAt f \<noteq> None \<and> \<not> isTerminalFlow f \<and>
    filter (\<lambda>t. tr_status t = BT_queued \<or> tr_status t = BT_running) ts = []"
  using assms
  by (cases "tf_cancelRequestedAt f")
    (auto simp: audit_flow_def Let_def flow_finding_when_def isTerminalFlow_def split: option.splits if_splits)

lemma missing_cleanup_task:
  assumes "x \<in> set (audit_task now a b t)" and "au_code x = AC_missing_cleanup"
  shows "\<not> isActiveTask t \<and> tr_status t \<noteq> BT_lost \<and> tr_cleanupAfter t = None"
  using assms by (auto simp: audit_task_def Let_def finding_when_def isActiveTask_def split: option.splits if_splits)

lemma none_reconciled:
  "fm_reconciled (fold (preview_flow now act) fs m) = fm_reconciled m + length (filter (to_finalize act) fs)"
  by (induction fs arbitrary: m) (simp_all add: preview_flow_def)

lemma none_to_finalize:
  assumes "snd (previewTaskFlowRegistryMaintenance now s) = \<lparr>fm_reconciled = 0, fm_pruned = 0\<rparr>"
    and "f \<in> set (snd (list_flows s))"
  shows "\<not> to_finalize (active_in s) f"
proof -
  obtain s1 l where l: "list_flows s = (s1, l)" by fastforce
  then have act: "active_in s1 = active_in s" by (auto simp: list_flows_def split: prod.splits)
  have "fm_reconciled (fold (preview_flow now (active_in s)) l \<lparr>fm_reconciled = 0, fm_pruned = 0\<rparr>) = 0"
    using assms(1) preview_loop [of now l "\<lparr>fm_reconciled = 0, fm_pruned = 0\<rparr>" s1] l act
    by (simp add: previewTaskFlowRegistryMaintenance_def)
  then have "filter (to_finalize (active_in s)) l = []" by (simp add: none_reconciled)
  with assms(2) l show ?thesis by (simp add: filter_empty_conv)
qed

lemma active_filter:
  "active_in s i = (filter (\<lambda>t. tr_status t = BT_queued \<or> tr_status t = BT_running) (snd (listTasksForFlowId i s)) \<noteq> [])"
  by (simp add: active_in_def hasActiveLinkedTasks_def case_prod_beta list_ex_iff filter_empty_conv)

lemma stuck_only_mirrored:
  assumes p: "snd (previewTaskFlowRegistryMaintenance now s) = \<lparr>fm_reconciled = 0, fm_pruned = 0\<rparr>"
    and o': "fo_flows opts = None" and x: "x \<in> set (snd (listTaskFlowAuditFindings t opts s))" "fa_code x = FC_cancel_stuck"
  shows "\<exists>w. fa_flow x = Some w \<and> tf_syncMode w = SM_task_mirrored"
proof -
  obtain s1 l where l: "list_flows s = (s1, l)" by fastforce
  then obtain fs where s1: "s1 = s\<lparr>tg_flows := fs\<rparr>" by (auto simp: list_flows_def split: prod.splits)
  obtain gs e where g: "getTaskFlowRegistryRestoreFailure fs = (gs, e)" by fastforce
  let ?all = "concat (map (\<lambda>f. audit_flow t opts (snd (listTasksForFlowId (tf_flowId f) s)) f) l)"
  obtain s2 where a: "audit_flows t opts l (s\<lparr>tg_flows := gs\<rparr>) = (s2, ?all)"
    using audit_flows_eq [of t opts l "s\<lparr>tg_flows := gs\<rparr>"] by auto
  have "x \<in> set ?all"
    using x by (auto simp: listTaskFlowAuditFindings_def o' l g a s1 split: option.splits if_splits)
  then obtain f where f: "f \<in> set l" "x \<in> set (audit_flow t opts (snd (listTasksForFlowId (tf_flowId f) s)) f)" by auto
  note st = stuck_to_finalize [OF f(2) x(2)]
  have "\<not> to_finalize (active_in s) f" using none_to_finalize [OF p, of f] f(1) l by simp
  with st have "tf_syncMode f \<noteq> SM_managed" by (simp add: to_finalize_def active_filter)
  then have "tf_syncMode f = SM_task_mirrored" by (cases "tf_syncMode f") simp_all
  with st show ?thesis by simp
qed

lemma cleanup_everywhere:
  assumes "\<forall>u\<in>set (snd (listTaskRecords s)). settled env now u"
    and "x \<in> set (snd (listTaskAuditFindings env' t None a b s))"
  shows "au_code x \<noteq> AC_missing_cleanup"
proof
  assume c: "au_code x = AC_missing_cleanup"
  have l: "listTaskRecords (ensureTaskRegistryReady s) = listTaskRecords s" by (simp add: listTaskRecords_def Let_def)
  let ?f = "reconcileTaskRecordForOperatorInspection env' t"
  let ?a = "audit_task t (or_value a DEFAULT_STALE_QUEUED_MS) (or_value b DEFAULT_STALE_RUNNING_MS)"
  have "set (snd (listTaskAuditFindings env' t None a b s)) = (\<Union>u\<in>set (snd (listTaskRecords s)). set (?a (?f u)))"
    by (simp add: listTaskAuditFindings_def reconcileInspectableTasks_def l case_prod_beta)
  with assms(2) obtain u where u: "u \<in> set (snd (listTaskRecords s))" "x \<in> set (?a (?f u))" by blast
  note m = missing_cleanup_task [OF u(2) c]
  have "tr_status (projectTaskLost u t) = BT_lost" by (simp add: projectTaskLost_def Let_def split: option.split)
  then have "?f u = u" using m by (cases "shouldMarkLost env' u t") (simp_all add: reconcileTaskRecordForOperatorInspection_def)
  with m have "shouldStampCleanupAfter u" by (simp add: shouldStampCleanupAfter_def)
  with assms(1) u(1) show False by (simp add: settled_def)
qed

text \<open>C40: The sweeps clear what the audits would report about them. On registries restored from well-formed tables and
  changed by any history of tasks and flows, after a sweep over the tasks and a sweep over the flows: at whatever time
  and with whatever limits the audits then run, no task is reported without a time for its removal, and a flow is
  reported as stuck in its cancellation only if it mirrors a task; managed flows never are.\<close>

theorem sweeps_settle_audits:
  assumes "jwf rows" and "\<And>i row. jget rows i = Some row \<Longrightarrow> rw_task_id row = i" and "table_wf frows"
    and "legal_run task_ok task_apply (fresh_task_process tenv rows drows fails (fresh_flow_process frows err)) xs"
    and "s = fold task_apply xs (fresh_task_process tenv rows drows fails (fresh_flow_process frows err))"
    and "\<forall>t\<in>set (snd (listTaskRecords s)). js_trim (tr_taskId t) = tr_taskId t"
    and "s1 = fst (runTaskRegistryMaintenance env clock now (\<lambda>_. []) s)"
    and "s2 = fst (runTaskFlowRegistryMaintenance clock' now' s1)" and "fo_flows opts = None"
  shows "(\<forall>x\<in>set (snd (listTaskAuditFindings env' t None a b s2)). au_code x \<noteq> AC_missing_cleanup) \<and>
    (\<forall>x\<in>set (snd (listTaskFlowAuditFindings t' opts s2)). fa_code x = FC_cancel_stuck \<longrightarrow>
       (\<exists>w. fa_flow x = Some w \<and> tf_syncMode w = SM_task_mirrored))"
proof -
  have "reg_inv (fresh_task_process tenv rows drows fails (fresh_flow_process frows err))"
    using assms(1,2) by (rule reg_inv_fresh)
  then have inv: "reg_inv s" unfolding assms(5) using assms(4) by (intro task_machine.inv_legal_run)
  have "flow_inv (fresh_flow_process frows err)" using assms(3) by (rule flow_inv_fresh)
  then have finv: "flow_inv (tg_flows s)"
    unfolding assms(5) by (intro flows_of_tasks.inv_run) (simp add: fresh_task_process_def)
  have settled: "\<forall>u\<in>set (snd (listTaskRecords s1)). settled env now u" using run_facts(3) [OF inv assms(6,7)] .
  have "flow_inv (tg_flows s1)" unfolding assms(7) using finv by (rule flow_inv_task_sweep)
  from flow_run_facts [OF this, of clock' now'] assms(8)
  have p: "snd (previewTaskFlowRegistryMaintenance now' s2) = \<lparr>fm_reconciled = 0, fm_pruned = 0\<rparr>" by auto
  obtain s3 l where "list_flows s1 = (s3, l)" by fastforce
  moreover from this have "kept_tasks s1 s3" by (auto simp: list_flows_def split: prod.splits)
  ultimately have "kept_tasks s1 s2"
    using kept_trans [OF _ kept_flow_sweep] by (simp add: assms(8) runTaskFlowRegistryMaintenance_def)
  then have "snd (listTaskRecords s2) = snd (listTaskRecords s1)" by (simp add: kept_tasks_def listTaskRecords_def Let_def)
  with settled have "\<forall>u\<in>set (snd (listTaskRecords s2)). settled env now u" by simp
  from cleanup_everywhere [OF this] stuck_only_mirrored [OF p assms(9)] show ?thesis by blast
qed

definition demo_stuck :: "TaskFlowSyncMode \<Rightarrow> flow_table" where
  "demo_stuck mode = [(''f'', bindFlowRecord None (demo_flow\<lparr>tf_syncMode := mode, tf_cancelRequestedAt := Some 5\<rparr>))]"

definition stuck_in :: "task_registry \<Rightarrow> bool" where
  "stuck_in s \<longleftrightarrow> list_ex (\<lambda>x. fa_code x = FC_cancel_stuck) (snd (listTaskFlowAuditFindings 1000000 default_flow_audit s))"

lemma sweeps_settle_audits_witness:
  "let s = fresh_task_process demo_env demo_rows [] False (fresh_flow_process (demo_stuck SM_managed) None);
       s1 = fst (runTaskRegistryMaintenance demo_sessions 1000001 1000000 (\<lambda>_. []) s);
       s2 = fst (runTaskFlowRegistryMaintenance 1000001 1000000 s1)
   in stuck_in s \<and>
      list_all (\<lambda>x. au_code x \<noteq> AC_missing_cleanup) (snd (listTaskAuditFindings demo_sessions 1000000 None None None s2)) \<and>
      list_all (\<lambda>x. fa_code x \<noteq> FC_cancel_stuck \<or> (\<exists>w. fa_flow x = Some w \<and> tf_syncMode w = SM_task_mirrored))
        (snd (listTaskFlowAuditFindings 1000000 default_flow_audit s2))"
proof -
  let ?w = "fresh_task_process demo_env demo_rows [] False (fresh_flow_process (demo_stuck SM_managed) None)"
  have rows: "jwf demo_rows" by code_simp
  have keys: "rw_task_id row = i" if "jget demo_rows i = Some row" for i row
    using that by (auto simp: demo_rows_def demo_task_row_def bindTaskRecord_def split: if_splits)
  have "flow_wf (demo_flow\<lparr>tf_syncMode := SM_managed, tf_cancelRequestedAt := Some 5\<rparr>)" by code_simp
  then have "table_wf (upsertFlowRow (demo_flow\<lparr>tf_syncMode := SM_managed, tf_cancelRequestedAt := Some 5\<rparr>) [])"
    by (intro table_wf_upsert) simp_all
  then have t: "table_wf (demo_stuck SM_managed)" by (simp add: demo_stuck_def upsertFlowRow_def demo_flow_def)
  have l: "legal_run task_ok task_apply ?w []" by simp
  have ids: "list_all (\<lambda>t. js_trim (tr_taskId t) = tr_taskId t) (snd (listTaskRecords ?w))" by code_simp
  then have ids': "\<forall>t\<in>set (snd (listTaskRecords ?w)). js_trim (tr_taskId t) = tr_taskId t" by (simp add: list_all_iff)
  have o': "fo_flows default_flow_audit = None" by (simp add: default_flow_audit_def)
  have w: "?w = fold task_apply [] ?w" by simp
  have "stuck_in ?w" by code_simp
  with sweeps_settle_audits [where env = demo_sessions and clock = 1000001 and now = 1000000 and clock' = 1000001
      and now' = 1000000 and env' = demo_sessions and t = 1000000 and t' = 1000000 and a = None and b = None,
      OF rows keys t l w ids' refl refl o'] show ?thesis unfolding Let_def list_all_iff by blast
qed

text \<open>A flow that mirrors a task stays reported: the sweep finishes the cancellation of managed flows only, and removes
  only flows that have ended.\<close>

lemma mirrored_flow_stays_stuck:
  "stuck_in (fst (runTaskFlowRegistryMaintenance 1000001 1000000
     (fresh_task_process demo_env [] [] False (fresh_flow_process (demo_stuck SM_task_mirrored) None))))"
  by code_simp

end
