(* ===== verification/TaskStatus.thy ===== *)
theory TaskStatus
  imports TaskAudit
begin

text \<open>
  What is shown of tasks and flows: the snapshot for the status line (\<open>src/src/tasks/task-status.ts\<close>, without the
  texts, which another module cleans) and the views for plugins (\<open>task-domain-views.ts\<close>).
\<close>

subsection \<open>The snapshot\<close>

definition TASK_STATUS_RECENT_WINDOW_MS :: int where "TASK_STATUS_RECENT_WINDOW_MS = 5 * 60000"

definition isFailureTask :: "TaskRecord \<Rightarrow> bool" where
  "isFailureTask t \<longleftrightarrow> tr_status t \<in> {BT_failed, BT_timed_out, BT_lost}"

definition resolveTaskReferenceAt :: "TaskRecord \<Rightarrow> int" where
  "resolveTaskReferenceAt t =
     (if isActiveTask t then or_value (or_else (tr_lastEventAt t) (tr_startedAt t)) (tr_createdAt t)
      else or_value (or_else (or_else (tr_endedAt t) (tr_lastEventAt t)) (tr_startedAt t)) (tr_createdAt t))"

definition isExpiredTask :: "int \<Rightarrow> TaskRecord \<Rightarrow> bool" where
  "isExpiredTask now t \<longleftrightarrow> (case tr_cleanupAfter t of Some c \<Rightarrow> c \<le> now | None \<Rightarrow> False)"

definition isRecentTerminalTask :: "int \<Rightarrow> TaskRecord \<Rightarrow> bool" where
  "isRecentTerminalTask now t \<longleftrightarrow> \<not> isActiveTask t \<and> now - resolveTaskReferenceAt t \<le> TASK_STATUS_RECENT_WINDOW_MS"

record TaskStatusSnapshot =
  sn_latest :: "TaskRecord option"
  sn_focus :: "TaskRecord option"
  sn_visible :: "TaskRecord list"
  sn_active :: "TaskRecord list"
  sn_recentTerminal :: "TaskRecord list"
  sn_activeCount :: nat
  sn_totalCount :: nat
  sn_recentFailureCount :: nat

definition buildTaskStatusSnapshot :: "int \<Rightarrow> TaskRecord list \<Rightarrow> TaskStatusSnapshot" where
  "buildTaskStatusSnapshot now ts =
     (let candidates = filter (\<lambda>t. \<not> isExpiredTask now t) ts;
          active = filter isActiveTask candidates;
          recentTerminal = filter (isRecentTerminalTask now) candidates;
          visible = (if length active > 0 then active @ recentTerminal else recentTerminal)
      in \<lparr>sn_latest = or_else (first_of active) (first_of recentTerminal),
          sn_focus = or_else (or_else (first_of active) (find isFailureTask recentTerminal)) (first_of recentTerminal),
          sn_visible = visible, sn_active = active, sn_recentTerminal = recentTerminal,
          sn_activeCount = length active, sn_totalCount = length visible,
          sn_recentFailureCount = length (filter isFailureTask recentTerminal)\<rparr>)"

text \<open>Something is in focus exactly if something is shown, and it is among what is shown.\<close>

lemma find_member: "find Q xs = Some t \<Longrightarrow> t \<in> set xs"
  by (induction xs) (auto split: if_splits)

lemma focus_of:
  "or_else (or_else (first_of a) (find Q r)) (first_of r) = None \<longleftrightarrow> (if length a > 0 then a @ r else r) = []"
  "or_else (or_else (first_of a) (find Q r)) (first_of r) = Some t \<Longrightarrow> t \<in> set (if length a > 0 then a @ r else r)"
proof -
  show "or_else (or_else (first_of a) (find Q r)) (first_of r) = None \<longleftrightarrow> (if length a > 0 then a @ r else r) = []"
    by (cases a; cases "find Q r"; cases r) (simp_all add: first_of_def)
  assume f: "or_else (or_else (first_of a) (find Q r)) (first_of r) = Some t"
  show "t \<in> set (if length a > 0 then a @ r else r)"
  proof (cases a)
    case Nil
    show ?thesis
    proof (cases "find Q r")
      case None
      with f Nil show ?thesis using first_of_in [of r t] by (simp add: first_of_def)
    next
      case (Some u)
      with f Nil show ?thesis using find_member [OF Some] by (simp add: first_of_def)
    qed
  qed (use f in \<open>simp add: first_of_def\<close>)
qed

lemma focus_is_shown:
  assumes "sn = buildTaskStatusSnapshot now ts"
  shows "sn_focus sn = None \<longleftrightarrow> sn_visible sn = []"
    and "sn_focus sn = Some t \<Longrightarrow> t \<in> set (sn_visible sn)"
    and "t \<in> set (sn_visible sn) \<Longrightarrow> t \<in> set ts \<and> \<not> isExpiredTask now t"
proof -
  let ?c = "filter (\<lambda>t. \<not> isExpiredTask now t) ts"
  let ?a = "filter isActiveTask ?c" let ?r = "filter (isRecentTerminalTask now) ?c"
  have s: "sn_focus sn = or_else (or_else (first_of ?a) (find isFailureTask ?r)) (first_of ?r)"
    "sn_visible sn = (if length ?a > 0 then ?a @ ?r else ?r)"
    unfolding assms buildTaskStatusSnapshot_def Let_def by (simp_all only: TaskStatusSnapshot.simps)
  show "sn_focus sn = None \<longleftrightarrow> sn_visible sn = []" unfolding s by (rule focus_of(1))
  show "sn_focus sn = Some t \<Longrightarrow> t \<in> set (sn_visible sn)" unfolding s by (rule focus_of(2))
  have "set (if length ?a > 0 then ?a @ ?r else ?r) \<subseteq> set ?c" by (simp only: set_append set_filter split: if_split) blast
  then show "t \<in> set (sn_visible sn) \<Longrightarrow> t \<in> set ts \<and> \<not> isExpiredTask now t"
    unfolding s by (auto simp only: set_filter)
qed

subsection \<open>Views\<close>

record TaskRunView =
  vw_id :: string
  vw_runtime :: TaskRuntime
  vw_sourceId :: "string option"
  vw_sessionKey :: string
  vw_ownerKey :: string
  vw_scope :: TaskScopeKind
  vw_childSessionKey :: "string option"
  vw_flowId :: "string option"
  vw_parentTaskId :: "string option"
  vw_agentId :: "string option"
  vw_runId :: "string option"
  vw_label :: "string option"
  vw_title :: string
  vw_status :: BgTaskStatus
  vw_deliveryStatus :: TaskDeliveryStatus
  vw_notifyPolicy :: TaskNotifyPolicy
  vw_createdAt :: int
  vw_startedAt :: "int option"
  vw_endedAt :: "int option"
  vw_lastEventAt :: "int option"
  vw_cleanupAfter :: "int option"
  vw_error :: "string option"
  vw_progressSummary :: "string option"
  vw_terminalSummary :: "string option"
  vw_terminalOutcome :: "TaskTerminalOutcome option"

definition mapTaskRunView :: "TaskRecord \<Rightarrow> TaskRunView" where
  "mapTaskRunView t =
     \<lparr>vw_id = tr_taskId t, vw_runtime = tr_runtime t, vw_sourceId = nonempty_text (tr_sourceId t),
      vw_sessionKey = tr_requesterSessionKey t, vw_ownerKey = tr_ownerKey t, vw_scope = tr_scopeKind t,
      vw_childSessionKey = nonempty_text (tr_childSessionKey t), vw_flowId = nonempty_text (tr_parentFlowId t),
      vw_parentTaskId = nonempty_text (tr_parentTaskId t), vw_agentId = nonempty_text (tr_agentId t),
      vw_runId = nonempty_text (tr_runId t), vw_label = nonempty_text (tr_label t), vw_title = tr_task t,
      vw_status = tr_status t, vw_deliveryStatus = tr_deliveryStatus t, vw_notifyPolicy = tr_notifyPolicy t,
      vw_createdAt = tr_createdAt t, vw_startedAt = tr_startedAt t, vw_endedAt = tr_endedAt t,
      vw_lastEventAt = tr_lastEventAt t, vw_cleanupAfter = tr_cleanupAfter t, vw_error = nonempty_text (tr_error t),
      vw_progressSummary = nonempty_text (tr_progressSummary t),
      vw_terminalSummary = nonempty_text (tr_terminalSummary t), vw_terminalOutcome = tr_terminalOutcome t\<rparr>"

definition mapTaskRunDetail :: "TaskRecord \<Rightarrow> TaskRunView" where
  "mapTaskRunDetail = mapTaskRunView"

definition mapTaskRunAggregateSummary :: "TaskRegistrySummary \<Rightarrow> TaskRegistrySummary" where
  "mapTaskRunAggregateSummary m =
     \<lparr>sm_total = sm_total m, sm_active = sm_active m, sm_terminal = sm_terminal m, sm_failures = sm_failures m,
      sm_byStatus = sm_byStatus m, sm_byRuntime = sm_byRuntime m\<rparr>"

record TaskFlowView =
  vf_id :: string
  vf_ownerKey :: string
  vf_requesterOrigin :: "DeliveryContext option"
  vf_status :: TaskFlowStatus
  vf_notifyPolicy :: TaskNotifyPolicy
  vf_goal :: string
  vf_currentStep :: "string option"
  vf_cancelRequestedAt :: "int option"
  vf_createdAt :: int
  vf_updatedAt :: int
  vf_endedAt :: "int option"

definition mapTaskFlowView :: "TaskFlowRecord \<Rightarrow> TaskFlowView" where
  "mapTaskFlowView f =
     \<lparr>vf_id = tf_flowId f, vf_ownerKey = tf_ownerKey f, vf_requesterOrigin = tf_requesterOrigin f,
      vf_status = tf_status f, vf_notifyPolicy = tf_notifyPolicy f, vf_goal = tf_goal f,
      vf_currentStep = nonempty_text (tf_currentStep f), vf_cancelRequestedAt = tf_cancelRequestedAt f,
      vf_createdAt = tf_createdAt f, vf_updatedAt = tf_updatedAt f, vf_endedAt = tf_endedAt f\<rparr>"

text \<open>The detail adds to the view; \<open>vd_blocked\<close> is the pair of the blocked task and the summary.\<close>

record TaskFlowDetail =
  vd_view :: TaskFlowView
  vd_state :: "jsval option"
  vd_wait :: "jsval option"
  vd_blocked :: "(string option \<times> string option) option"
  vd_tasks :: "TaskRunView list"
  vd_taskSummary :: TaskRegistrySummary

definition mapTaskFlowDetail :: "TaskFlowRecord \<Rightarrow> TaskRecord list \<Rightarrow> TaskRegistrySummary option \<Rightarrow> TaskFlowDetail" where
  "mapTaskFlowDetail flow ts summary =
     (let blockedTask = nonempty_text (tf_blockedTaskId flow); blockedSummary = nonempty_text (tf_blockedSummary flow)
      in \<lparr>vd_view = mapTaskFlowView flow, vd_state = tf_stateJson flow, vd_wait = tf_waitJson flow,
          vd_blocked = (if blockedTask \<noteq> None \<or> blockedSummary \<noteq> None then Some (blockedTask, blockedSummary) else None),
          vd_tasks = map mapTaskRunView ts,
          vd_taskSummary = mapTaskRunAggregateSummary (or_value summary (summarizeTaskRecords ts))\<rparr>)"

end
