(* ===== verification/Spec2Isabelle.thy ===== *)
theory Spec2Isabelle
  imports Orchestrator CheckpointManager WorkflowEngine Team TimedScheduler CronScheduler IdleDetector
    MailboxManager MessageBus Plugin TaskTypes TaskFlow TaskRegistry TaskDelivery TaskRuns TaskOnce TaskMaintenance
    TaskFlowSync TaskFlowMaintenance TaskExecutor TaskAudit TaskStatus
begin

text \<open>
  A model of the multi-agent core of the repository, in the order orchestrator, workflow,
  persistence, scheduler, mailbox, and of the registries of background tasks, tasks (directories of
  \<open>src/src/\<close>).

  \<^bold>\<open>The program and its parts.\<close> An \<open>Orchestrator\<close> owns a registry of agents, a priority queue of
  tasks, a scheduler that works on both, and a registry of teams; it saves them through a
  \<open>FileStateStore\<close> and loads them back, and a \<open>RecoveryManager\<close> set on it takes snapshots of that
  store. Beside it stands a second, independent way of running tasks: an \<open>OrchestratorPlugin\<close> hands
  tasks to a \<open>TaskDispatcher\<close>, which gives them to \<open>Worker\<close> objects and tells a \<open>Coordinator\<close>, and
  lets callers wait for results in a \<open>ResultCollector\<close>. A \<open>Team\<close> is a group of agents that share context and vote. A \<open>WorkflowEngine\<close> runs the
  nodes of a workflow in dependency order, calling handlers, and a \<open>CheckpointManager\<close> keeps its
  checkpoints. Three schedulers run tasks at times: \<open>TaskScheduler\<close> (timed), \<open>CronScheduler\<close> and
  \<open>IdleDetector\<close>. Agents exchange messages through the files of a \<open>FileMailboxManager\<close> or over a
  \<open>MessageBus\<close>.

  Independent of these, \<open>tasks/\<close> records the background tasks of the gateway. A registry of tasks (a map with four
  indices, written through to a table) tracks each detached run; a registry of flows, whose updates name the revision
  they expect, groups tasks. A change of a task changes the flow that mirrors it, ends a managed flow that was asked to
  cancel, and may deliver a message to the owner's channel. The executor starts, retries and cancels runs for the rest
  of the program, two sweeps repair and remove old records, and two audits report what looks wrong.

  \<^bold>\<open>Which theory models what.\<close>
  \<^item> \<open>Prelude\<close>: JavaScript maps as association lists in insertion order, JavaScript values,
    generated ids, and the locales \<open>guarded_machine\<close>, \<open>op_machine\<close> (an operation type, its
    semantics and an invariant), \<open>entity_store\<close> (objects stored under their own ids) and
    \<open>namespace_store\<close>, which the components interpret.
  \<^item> \<open>OrchTypes\<close>: \<open>orchestrator/types.ts\<close>. \<open>AgentManager\<close>: \<open>agent-manager.ts\<close>. \<open>TaskQueue\<close>:
    \<open>task-queue.ts\<close>. \<open>OrchScheduler\<close>: \<open>task-scheduler.ts\<close>. \<open>TeamManager\<close>: \<open>team-manager.ts\<close>.
    \<open>Team\<close>: \<open>team.ts\<close>. \<open>OrchJson\<close> and \<open>Orchestrator\<close>: \<open>orchestrator.ts\<close> (the first holds the
    records as the JavaScript values that are saved).
  \<^item> \<open>Coordinator\<close>: \<open>coordinator.ts\<close>. \<open>Worker\<close>: \<open>worker.ts\<close> (\<open>Worker\<close>, \<open>WorkerPool\<close>). \<open>Dispatcher\<close> and
    \<open>ResultCollector\<close>: the two classes of \<open>dispatcher.ts\<close>. \<open>Plugin\<close>: \<open>plugin.ts\<close>.
  \<^item> \<open>StateStore\<close>, \<open>CheckpointManager\<close>, \<open>RecoveryManager\<close>: the files of the same names in
    \<open>persistence/\<close>. A file is a value of its parsed content, \<open>None\<close> where the text does not parse.
  \<^item> \<open>WorkflowTypes\<close>, \<open>WorkflowGraph\<close>, \<open>WorkflowEngine\<close>: \<open>workflow/types.ts\<close> and
    \<open>workflow-engine.ts\<close>; the second is \<open>topologicalSort\<close>.
  \<^item> \<open>ScheduleTypes\<close>, \<open>TimedScheduler\<close>, \<open>CronScheduler\<close>, \<open>IdleDetector\<close>: \<open>scheduler/types.ts\<close>,
    \<open>task-scheduler.ts\<close>, \<open>cron-scheduler.ts\<close>, \<open>idle-detector.ts\<close>.
  \<^item> \<open>MailboxTypes\<close>, \<open>MailboxManager\<close>, \<open>MessageBus\<close>: \<open>mailbox/types.ts\<close>, \<open>mailbox-manager.ts\<close>,
    \<open>message-bus.ts\<close>.
  \<^item> \<open>TaskTypes\<close>: \<open>tasks/task-registry.types.ts\<close>, \<open>task-flow-registry.types.ts\<close>. \<open>TaskFlow\<close>:
    \<open>task-flow-registry.ts\<close>, the rows of its store and \<open>task-flow-owner-access.ts\<close>. \<open>TaskRegistry\<close>,
    \<open>TaskDelivery\<close>, \<open>TaskRuns\<close>: \<open>task-registry.ts\<close> in three parts (state, indices and \<open>updateTask\<close>; messages to
    owners; operations and lookups), with the rows of its store, \<open>task-executor-policy.ts\<close>,
    \<open>task-registry.summary.ts\<close> and \<open>task-owner-access.ts\<close>. \<open>TaskOnce\<close>: a terminal update is sent once.
  \<^item> \<open>TaskMaintenance\<close>: \<open>task-registry.maintenance.ts\<close>. \<open>TaskFlowSync\<close>: how the two registries act together.
    \<open>TaskFlowMaintenance\<close>: \<open>task-flow-registry.maintenance.ts\<close>. \<open>TaskExecutor\<close>: \<open>task-executor.ts\<close>.
    \<open>TaskAudit\<close>: \<open>task-registry.audit.ts\<close>, \<open>task-flow-registry.audit.ts\<close>. \<open>TaskStatus\<close>: the snapshot of
    \<open>task-status.ts\<close> and \<open>task-domain-views.ts\<close>.

  Each class is a record of its private fields, each method a definition of the same name that takes
  the state and returns the new state with the method's result or the error it throws. \<open>Date.now()\<close> is
  an argument \<open>now\<close>, the random part of a generated id an argument \<open>rnd\<close>. Records of a class carry a
  prefix of two letters, the constructors of an enumeration a capital prefix.

  \<^bold>\<open>What the lemmas show.\<close> For each component: an invariant of its state and that every operation
  keeps it, lifted to all histories through \<open>op_machine\<close> or \<open>guarded_machine\<close>; the effect of each
  operation on every branch, errors included; and the contract that its callers rely on: the queue is
  sorted by urgency and serves the first task that may run; task records move only along the life
  cycle; what a store, a checkpoint manager or a mailbox manager has written is what a new one reads
  back; the topological sort is correct and complete; a sound workflow runs to the end and an
  unsound one waits for ever; the next run of an interval, a cron expression; the votes of a team. For the task
  registries: no update of a flow is lost, both registries survive a restart, the indices are exact, tasks change flows
  only through the operations of the flow registry, a flow that is reported cancelled is cancelled with its tasks,
  tasks start only in flows that take them, and the sweeps do what their previews say and settle what the audits report.
  Some properties record how the code departs from what it says it does, for example that a retried
  task is never served again or that a second mailbox manager overwrites the first one's messages;
  the manifest lists these as findings.

  \<^bold>\<open>Bounds and fuel.\<close>
  \<^item> \<open>topologicalSort\<close> recurses with a measure (nodes not yet on the path), without fuel.
  \<^item> \<open>waitForDependencies\<close> polls without a bound in the code. A run is sequential and only the calls of
    the script can change what it polls, so a poll that the script can no longer end has the value
    \<open>None\<close>: the run does not return. \<open>WorkflowEngine.execute_completes\<close> states that it does return.
  \<^item> The recursive computation of a next run in \<open>TimedScheduler\<close> is a \<open>partial_function\<close>, so that not
    returning is \<open>None\<close>.
  \<^item> The search for the next cron run is bounded in the code by the minutes of 366 days; the
    definition recurses over the same count.
  \<^item> The two attempts to finish the cancellation of a flow are a recursion over that number, as in the code.
  \<^item> Waiting for a lock is bounded by the configured time limit and advances the clock by exactly
    the retry delay.
  \<^item> Numbers are integers, and exact rationals where the code divides; rounding and overflow of
    doubles beyond \<open>2^53\<close> are not modelled. The places where \<open>NaN\<close> arises (an interval of 0, a field that
    \<open>parseInt\<close> rejects) are modelled as such.

  \<^bold>\<open>Abstractions.\<close>
  \<^item> A call of an asynchronous method is one step that no other call interrupts, except where a theory
    splits it: the turns of \<open>assignTask\<close> (\<open>OrchScheduler\<close>), the beginning and the settling of a
    schedule's execution (\<open>TimedScheduler\<close>, \<open>CronScheduler\<close>, \<open>IdleDetector\<close>), the awaits of an execution
    of a \<open>Worker\<close>, the delivery of a terminal update (\<open>TaskDelivery\<close>), the cancellation of a task and of a flow
    (\<open>TaskRuns\<close>, \<open>TaskExecutor\<close>), the yields of a sweep (\<open>TaskMaintenance\<close>), and pause, resume and cancel calls
    that arrive between the steps of a workflow run.
  \<^item> In the task registries, what other modules give (the plugins of channels, the cleaning of texts, the session
    stores) is a record of functions, \<open>task_env\<close> and \<open>session_env\<close>. Writing to the database succeeds, reading it
    may fail; a JSON column is the value it holds. The key that joins texts with a NUL character is a tuple.
    Queueing a system event does not throw. Observers of tasks and log messages are left out.
  \<^item> A timer of a worker, dispatcher or collector is an operation that may happen at any time while the
    timer is set. In \<open>Dispatcher\<close> the handlers of a worker run at the end of the worker's step.
  \<^item> Handlers return or throw as a parameter says; they do not call back into the object that calls
    them.
  \<^item> Objects that the code shares by reference are kept at addresses where a later write through one
    reference is seen through another (the tasks of the schedulers, the
    workers of a dispatcher); elsewhere values are stored by value.
  \<^item> A regular expression is the set of strings it matches. File names are taken as they are, so ids with
    a path separator are outside the model. The local time zone has a constant offset.

  \<^bold>\<open>Not modelled.\<close>
  \<^item> In the directories above: the stubs \<open>scheduler/scheduler.ts\<close>, \<open>workflow/workflow-parser.ts\<close> and
    \<open>workflow-executor.ts\<close>, whose methods throw \<open>Not implemented\<close>; the table
    \<open>orchestratorTools\<close> of \<open>orchestrator/plugin.ts\<close>, which describes tools; the \<open>index.ts\<close> files,
    which re-export.
  \<^item> Of \<open>src/src/tasks/\<close>: opening the database, its schema, migrations, file permissions and paths; the cleaning and
    shortening of the texts in \<open>task-status.ts\<close>, which rests on the error helpers of the agent runtime.
  \<^item> The learning engine (\<open>src/src/evolution/\<close>).
  \<^item> The gateway, channels, agent runtime, configuration, plugins, command line and the other directories of
    \<open>src/src/\<close>: mostly protocol handlers, adapters of external services and terminal or network I/O.
\<close>

end
